(* ===== verification/Prelude.thy ===== *)
theory Prelude
  imports Main "HOL-Library.Word" "HOL-Library.Multiset" "HOL-Library.Monad_Syntax"
begin

text \<open>
  What every component shares: names for the machine integers of
  \<^verbatim>\<open>osinterface_OsTypes.h\<close>, decimal printing (the stream output of an unsigned
  integer), the two ways the C++ code takes an element out of a vector, and the
  interface "a set of operations that keeps an invariant", whose consequence for whole
  runs of operations is proved here once.

  The collection \<open>state_simps\<close> gathers the projection and unfolding lemmas that the
  component proofs use as one simp set.
\<close>

named_theorems state_simps \<open>what a single operation does to a single field\<close>

type_synonym u8 = "8 word"
type_synonym u32 = "32 word"
type_synonym u64 = "64 word"

subsection \<open>Printing an unsigned integer\<close>

text \<open>\<open>std::ostringstream << n\<close> for an unsigned \<open>n\<close>: its decimal digits.\<close>

definition digit_char :: "nat \<Rightarrow> char" where
  "digit_char d = char_of (48 + d)"

fun dec_string :: "nat \<Rightarrow> string" where
  "dec_string n =
     (if n < 10 then [digit_char n] else dec_string (n div 10) @ [digit_char (n mod 10)])"

declare dec_string.simps [simp del]

definition dec_value :: "string \<Rightarrow> nat" where
  "dec_value s = foldl (\<lambda>v c. 10 * v + (of_char c - 48)) 0 s"

lemma of_char_digit [simp]: "d < 10 \<Longrightarrow> of_char (digit_char d) = (48 + d :: nat)"
  by (simp add: digit_char_def)

lemma dec_value_snoc [simp]: "dec_value (s @ [c]) = 10 * dec_value s + (of_char c - 48)"
  by (simp add: dec_value_def)

lemma dec_value_dec_string [simp]: "dec_value (dec_string n) = n"
proof (induction n rule: dec_string.induct)
  case (1 n)
  show ?case
  proof (cases "n < 10")
    case True
    then show ?thesis
      using dec_value_snoc [of "[]" "digit_char n"]
      by (simp add: dec_string.simps [of n] dec_value_def)
  next
    case False
    with 1 show ?thesis by (simp add: dec_string.simps [of n])
  qed
qed

lemma dec_string_inject [simp]: "dec_string m = dec_string n \<longleftrightarrow> m = n"
  by (metis dec_value_dec_string)

lemma dec_string_nonempty [simp]: "dec_string n \<noteq> []"
  by (subst dec_string.simps) simp

lemma digit_char_range: "d < 10 \<Longrightarrow> digit_char d \<noteq> CHR ''-''"
proof
  assume "d < 10" and "digit_char d = CHR ''-''"
  then have "(48 + d :: nat) = of_char (CHR ''-'')" by (metis of_char_digit)
  then show False by simp
qed

lemma dec_string_no_dash: "CHR ''-'' \<notin> set (dec_string n)"
proof (induction n rule: dec_string.induct)
  case (1 n)
  have "digit_char (n mod 10) \<noteq> CHR ''-''" by (rule digit_char_range) simp
  moreover have "n < 10 \<Longrightarrow> digit_char n \<noteq> CHR ''-''" by (rule digit_char_range)
  ultimately show ?case using 1 by (subst dec_string.simps) auto
qed

subsection \<open>Taking an element out of a vector\<close>

text \<open>
  \<open>swap_remove x xs\<close> is the order-breaking removal the code writes with
  \<open>back\<close> and \<open>pop_back\<close>: a single element clears the vector, the last element is
  popped, and any other is overwritten by the last one, which is then popped. The
  position is the one \<open>std::find\<close> returns, the first.
\<close>

fun index_of :: "'a \<Rightarrow> 'a list \<Rightarrow> nat" where
  "index_of x [] = 0"
| "index_of x (y # ys) = (if x = y then 0 else Suc (index_of x ys))"

definition swap_remove :: "'a \<Rightarrow> 'a list \<Rightarrow> 'a list" where
  "swap_remove x xs =
     (if length xs = 1 then []
      else if x = last xs then butlast xs
      else butlast (xs[index_of x xs := last xs]))"

lemma index_of_less: "x \<in> set xs \<Longrightarrow> index_of x xs < length xs"
  by (induction xs) auto

lemma nth_index_of: "x \<in> set xs \<Longrightarrow> xs ! index_of x xs = x"
  by (induction xs) auto

lemma mset_swap_remove:
  assumes "x \<in> set xs"
  shows "mset (swap_remove x xs) = mset xs - {#x#}"
proof -
  obtain ys z where xs: "xs = ys @ [z]"
    using assms by (cases xs rule: rev_cases) auto
  show ?thesis
  proof (cases "x = z")
    case True
    then show ?thesis using xs by (cases ys) (auto simp: swap_remove_def)
  next
    case False
    then have "x \<in> set ys" using assms xs by auto
    moreover from this have i: "index_of x (ys @ [z]) = index_of x ys"
      by (induction ys) auto
    moreover have "index_of x ys < length ys" "ys ! index_of x ys = x"
      using \<open>x \<in> set ys\<close> by (auto intro: index_of_less nth_index_of)
    ultimately show ?thesis using xs False
      by (auto simp: swap_remove_def mset_update list_update_append butlast_append
          split: if_splits)
  qed
qed

lemma set_swap_remove:
  "x \<in> set xs \<Longrightarrow> distinct xs \<Longrightarrow> set (swap_remove x xs) = set xs - {x}"
  by (metis mset_swap_remove mset_remove1 set_mset_mset set_remove1_eq)

lemma distinct_swap_remove: "x \<in> set xs \<Longrightarrow> distinct xs \<Longrightarrow> distinct (swap_remove x xs)"
  by (metis mset_swap_remove mset_remove1 distinct_remove1 mset_eq_imp_distinct_iff)

subsection \<open>Operations that keep an invariant\<close>

text \<open>
  The contract a stateful component offers: every operation keeps its invariant. The
  component proves it operation by operation; that any sequence of operations keeps it
  follows here.
\<close>

locale invariant_ops =
  fixes step :: "'op \<Rightarrow> 's \<Rightarrow> 's"
    and good :: "'s \<Rightarrow> bool"
  assumes step_good: "good s \<Longrightarrow> good (step x s)"
begin

lemma run_good: "good s \<Longrightarrow> good (fold step xs s)"
  by (induction xs arbitrary: s) (auto intro: step_good)

lemma prefix_good: "good s \<Longrightarrow> good (fold step (take n xs) s)"
  by (rule run_good)

end

text \<open>
  With a measure of progress that no operation undoes (a flag that stays set, a set that
  only grows): it is kept by whole runs as well.
\<close>

locale stable_ops = invariant_ops step good
  for step :: "'op \<Rightarrow> 's \<Rightarrow> 's" and good :: "'s \<Rightarrow> bool" +
  fixes stable :: "'s \<Rightarrow> bool"
  assumes step_stable: "good s \<Longrightarrow> stable s \<Longrightarrow> stable (step x s)"
begin

lemma run_stable: "good s \<Longrightarrow> stable s \<Longrightarrow> stable (fold step xs s)"
  by (induction xs arbitrary: s) (auto intro: step_good step_stable)

end

subsection \<open>Refinement\<close>

text \<open>
  A component that answers: an operation gives an answer and a new state. Runs collect the
  answers. A component refines a specification when every operation, on a good state, gives the
  specified answer and commutes with the abstraction; then whole runs do.
\<close>

fun run_ops :: "('x \<Rightarrow> 's \<Rightarrow> 'a \<times> 's) \<Rightarrow> 'x list \<Rightarrow> 's \<Rightarrow> 'a list \<times> 's" where
  "run_ops step [] s = ([], s)"
| "run_ops step (x # xs) s = (case step x s of (a, s) \<Rightarrow> map_prod (Cons a) id (run_ops step xs s))"

lemma run_ops_state: "snd (run_ops step xs s) = fold (\<lambda>x s. snd (step x s)) xs s"
  by (induction xs arbitrary: s) (simp_all add: case_prod_beta)

locale simulation =
  fixes step :: "'x \<Rightarrow> 's \<Rightarrow> 'r \<times> 's"
    and spec :: "'x \<Rightarrow> 'a \<Rightarrow> 'r \<times> 'a"
    and abs :: "'s \<Rightarrow> 'a"
    and good :: "'s \<Rightarrow> bool"
  assumes step_good: "good s \<Longrightarrow> good (snd (step x s))"
    and step_abs: "good s \<Longrightarrow> spec x (abs s) = (fst (step x s), abs (snd (step x s)))"
begin

lemma run_simulates:
  "good s \<Longrightarrow> good (snd (run_ops step xs s))
    \<and> run_ops spec xs (abs s) = (fst (run_ops step xs s), abs (snd (run_ops step xs s)))"
proof (induction xs arbitrary: s)
  case (Cons x xs)
  obtain a s' where x: "step x s = (a, s')" by (cases "step x s")
  with step_good [OF Cons.prems, of x] step_abs [OF Cons.prems, of x]
  have "good s'" "spec x (abs s) = (a, abs s')" by simp_all
  with Cons.IH [OF this(1)] x show ?case by simp
qed simp

end

end
