(* ===== verification/DbIds.thy ===== *)
theory DbIds
  imports Prelude
begin

text \<open>
  Entity identifiers, entity types and entity fields
  (\<^verbatim>\<open>src/src/dbtypes/dbtype_Id.h\<close>, \<^verbatim>\<open>dbtype_EntityType.h\<close>,
  \<^verbatim>\<open>dbtype_EntityField.h\<close>), with the order of \<open>Id::operator<\<close> as an instance of
  the library's linear orders and the printed form of an identifier.
\<close>

subsection \<open>Identifiers\<close>

datatype db_id = DbId (get_site_id: u32) (get_entity_id: u64)

definition default_id :: db_id where
  "default_id = DbId 0 0"

definition is_default :: "db_id \<Rightarrow> bool" where
  "is_default i \<longleftrightarrow> get_site_id i = 0 \<and> get_entity_id i = 0"

definition is_site_default :: "db_id \<Rightarrow> bool" where
  "is_site_default i \<longleftrightarrow> get_site_id i = 0"

lemma is_default_iff [simp]: "is_default i \<longleftrightarrow> i = default_id"
  by (cases i) (auto simp: is_default_def default_id_def)

text \<open>\<open>Id::operator<\<close>: by site, then by entity.\<close>

definition id_less :: "db_id \<Rightarrow> db_id \<Rightarrow> bool" where
  "id_less a b =
     (if get_site_id a < get_site_id b then True
      else if get_site_id a > get_site_id b then False
      else get_entity_id a < get_entity_id b)"

instantiation db_id :: linorder
begin

definition less_db_id :: "db_id \<Rightarrow> db_id \<Rightarrow> bool" where
  "less_db_id a b = id_less a b"

definition less_eq_db_id :: "db_id \<Rightarrow> db_id \<Rightarrow> bool" where
  "less_eq_db_id a b = (id_less a b \<or> a = b)"

instance
proof
  fix x y z :: db_id
  show "(x < y) = (x \<le> y \<and> \<not> y \<le> x)"
    by (cases x; cases y) (auto simp: less_db_id_def less_eq_db_id_def id_less_def)
  show "x \<le> x"
    by (simp add: less_eq_db_id_def)
  show "x \<le> y \<Longrightarrow> y \<le> z \<Longrightarrow> x \<le> z"
    by (cases x; cases y; cases z) (auto simp: less_eq_db_id_def id_less_def split: if_splits)
  show "x \<le> y \<Longrightarrow> y \<le> x \<Longrightarrow> x = y"
    by (cases x; cases y) (auto simp: less_eq_db_id_def id_less_def split: if_splits)
  show "x \<le> y \<or> y \<le> x"
    by (cases x; cases y) (auto simp: less_eq_db_id_def id_less_def split: if_splits)
qed

end

text \<open>\<open>Id::to_string\<close>, e.g. \<open>#3-17\<close>, or \<open>#17\<close> without the site.\<close>

definition id_to_string :: "bool \<Rightarrow> db_id \<Rightarrow> string" where
  "id_to_string include_site i =
     ''#'' @ (if include_site then dec_string (unat (get_site_id i)) @ ''-'' else [])
       @ dec_string (unat (get_entity_id i))"

lemma append_dash_inject:
  assumes "CHR ''-'' \<notin> set a" and "CHR ''-'' \<notin> set b"
    and "a @ CHR ''-'' # x = b @ CHR ''-'' # y"
  shows "a = b \<and> x = y"
  using assms
proof (induction a arbitrary: b)
  case Nil
  then show ?case by (cases b) auto
next
  case (Cons c a)
  then show ?case by (cases b) auto
qed

subsection \<open>Entity types and fields\<close>

datatype entity_type =
    ENTITYTYPE_invalid | ENTITYTYPE_entity | ENTITYTYPE_property_entity
  | ENTITYTYPE_container_property_entity | ENTITYTYPE_region | ENTITYTYPE_room
  | ENTITYTYPE_player | ENTITYTYPE_guest | ENTITYTYPE_thing | ENTITYTYPE_puppet
  | ENTITYTYPE_vehicle | ENTITYTYPE_group | ENTITYTYPE_capability | ENTITYTYPE_program
  | ENTITYTYPE_action | ENTITYTYPE_exit | ENTITYTYPE_command | ENTITYTYPE_END

datatype (plugins only: size) entity_field =
    ENTITYFIELD_BEGIN | ENTITYFIELD_BEGIN_ENTITY | ENTITYFIELD_invalid | ENTITYFIELD_type
    | ENTITYFIELD_id | ENTITYFIELD_name | ENTITYFIELD_note | ENTITYFIELD_security
    | ENTITYFIELD_instance | ENTITYFIELD_version | ENTITYFIELD_created_timestamp
    | ENTITYFIELD_updated_timestamp | ENTITYFIELD_accessed_timestamp | ENTITYFIELD_access_count
    | ENTITYFIELD_owner | ENTITYFIELD_flags | ENTITYFIELD_references | ENTITYFIELD_delete_batch_id
    | ENTITYFIELD_deleted_flag | ENTITYFIELD_END_ENTITY | ENTITYFIELD_BEGIN_GROUP
    | ENTITYFIELD_group_ids | ENTITYFIELD_group_disabled_ids | ENTITYFIELD_END_GROUP
    | ENTITYFIELD_BEGIN_PROPERTY_ENTITY | ENTITYFIELD_application_properties
    | ENTITYFIELD_END_PROPERTY_ENTITY | ENTITYFIELD_BEGIN_CONTAINER_PROPERTY_ENTITY
    | ENTITYFIELD_contained_by | ENTITYFIELD_linked_programs | ENTITYFIELD_registrations
    | ENTITYFIELD_END_CONTAINER_PROPERTY_ENTITY | ENTITYFIELD_BEGIN_REGION
    | ENTITYFIELD_END_REGION | ENTITYFIELD_BEGIN_ROOM | ENTITYFIELD_END_ROOM
    | ENTITYFIELD_BEGIN_PLAYER | ENTITYFIELD_password | ENTITYFIELD_player_display_name
    | ENTITYFIELD_player_home | ENTITYFIELD_player_last_connect | ENTITYFIELD_END_PLAYER
    | ENTITYFIELD_BEGIN_THING | ENTITYFIELD_thing_home | ENTITYFIELD_thing_lock
    | ENTITYFIELD_END_THING | ENTITYFIELD_BEGIN_PUPPET | ENTITYFIELD_puppet_display_name
    | ENTITYFIELD_END_PUPPET | ENTITYFIELD_BEGIN_VEHICLE | ENTITYFIELD_vehicle_interior
    | ENTITYFIELD_vehicle_controller | ENTITYFIELD_END_VEHICLE | ENTITYFIELD_BEGIN_PROGRAM
    | ENTITYFIELD_program_runtime_sec | ENTITYFIELD_program_reg_name
    | ENTITYFIELD_program_source_code | ENTITYFIELD_program_compiled_code
    | ENTITYFIELD_program_language | ENTITYFIELD_program_includes | ENTITYFIELD_END_PROGRAM
    | ENTITYFIELD_BEGIN_ACTION | ENTITYFIELD_action_targets | ENTITYFIELD_action_lock
    | ENTITYFIELD_action_succ_msg | ENTITYFIELD_action_succ_room_msg | ENTITYFIELD_action_fail_msg
    | ENTITYFIELD_action_fail_room_msg | ENTITYFIELD_action_contained_by
    | ENTITYFIELD_action_commands | ENTITYFIELD_END_ACTION | ENTITYFIELD_BEGIN_EXIT
    | ENTITYFIELD_exit_arrive_msg | ENTITYFIELD_exit_arrive_room_msg | ENTITYFIELD_END_EXIT
    | ENTITYFIELD_END

text \<open>
  The class hierarchy as the casts see it: which entity types \<open>dynamic_cast\<close> to
  \<open>ContainerPropertyEntity\<close>, \<open>ActionEntity\<close>, \<open>PropertyEntity\<close> and \<open>Group\<close>
  accept. The types in the middle of the hierarchy are abstract and have no instance.
\<close>

fun is_container :: "entity_type \<Rightarrow> bool" where
  "is_container t \<longleftrightarrow> t \<in> {ENTITYTYPE_container_property_entity, ENTITYTYPE_region,
     ENTITYTYPE_room, ENTITYTYPE_player, ENTITYTYPE_guest, ENTITYTYPE_thing,
     ENTITYTYPE_puppet, ENTITYTYPE_vehicle}"

fun is_action :: "entity_type \<Rightarrow> bool" where
  "is_action t \<longleftrightarrow> t \<in> {ENTITYTYPE_action, ENTITYTYPE_exit, ENTITYTYPE_command}"

fun is_property_entity :: "entity_type \<Rightarrow> bool" where
  "is_property_entity t \<longleftrightarrow> t = ENTITYTYPE_property_entity \<or> is_container t
     \<or> t = ENTITYTYPE_program \<or> is_action t"

fun is_group :: "entity_type \<Rightarrow> bool" where
  "is_group t \<longleftrightarrow> t \<in> {ENTITYTYPE_group, ENTITYTYPE_capability}"

declare is_container.simps [simp del] is_action.simps [simp del]
  is_property_entity.simps [simp del] is_group.simps [simp del]

lemmas entity_class_simps =
  is_container.simps is_action.simps is_property_entity.simps is_group.simps

subsection \<open>Properties\<close>

text \<open>
  The printed form with the site names one identifier only: two identifiers that
  print alike are equal (the digits of the site end at the dash).
\<close>

theorem id_to_string_inject: "id_to_string True a = id_to_string True b \<longleftrightarrow> a = b"
proof
  let ?s = "\<lambda>i. dec_string (unat (get_site_id i))"
    and ?e = "\<lambda>i. dec_string (unat (get_entity_id i))"
  assume "id_to_string True a = id_to_string True b"
  then have "?s a @ CHR ''-'' # ?e a = ?s b @ CHR ''-'' # ?e b"
    by (simp add: id_to_string_def)
  then have "?s a = ?s b \<and> ?e a = ?e b"
    by (rule append_dash_inject [OF dec_string_no_dash dec_string_no_dash])
  then have "get_site_id a = get_site_id b" "get_entity_id a = get_entity_id b"
    by (simp_all only: dec_string_inject word_unat_eq_iff)
  then show "a = b" by (cases a; cases b) simp
qed simp

end
