(* ===== verification/AccessList.thy ===== *)
theory AccessList
  imports DbIds
begin

unbundle bit_operations_syntax

text \<open>
  \<open>dbtype::Security\<close> and \<open>dbtype::PropertySecurity\<close>
  (\<^verbatim>\<open>src/src/dbtypes/dbtype_Security.cpp\<close>, \<^verbatim>\<open>dbtype_PropertySecurity.cpp\<close>):
  the access list of an entity or of a property application, with its administrators, its
  list of members and two sets of flags. The invariant is that no identifier is listed
  twice, none is both an administrator and a member, and the default identifier is in
  neither.

  Not modelled: \<open>Security::is_admin\<close>, which compares an iterator of one vector with the
  end of another (undefined behaviour in C++), and the serialisation.
\<close>

subsection \<open>Data\<close>

datatype security_flag =
    SECURITYFLAG_read | SECURITYFLAG_write | SECURITYFLAG_basic | SECURITYFLAG_chown
  | SECURITYFLAG_invalid

fun flag_index :: "security_flag \<Rightarrow> nat" where
  "flag_index SECURITYFLAG_read = 0"
| "flag_index SECURITYFLAG_write = 1"
| "flag_index SECURITYFLAG_basic = 2"
| "flag_index SECURITYFLAG_chown = 3"
| "flag_index SECURITYFLAG_invalid = 4"

text \<open>The dynamic class of the object, which decides the virtual \<open>allow_flag\<close>.\<close>

datatype security_class = EntitySecurity | PropSecurity

text \<open>\<open>SecurityFlagContainer\<close> is a \<open>std::bitset<SECURITYFLAG_invalid>\<close>: four bits.\<close>

type_synonym flag_bits = "4 word"

record security =
  sec_class :: security_class
  list_flags :: flag_bits
  other_flags :: flag_bits
  admin_ids :: "db_id list"
  list_ids :: "db_id list"

text \<open>
  The constructor passes \<open>SECURITYFLAG_invalid\<close>, the number 4, to both bit sets. It is
  the initial value of the bits, so bit 2, the basic flag, starts set.
\<close>

definition security_new :: "security_class \<Rightarrow> security" where
  "security_new c = \<lparr>sec_class = c,
     list_flags = of_nat (flag_index SECURITYFLAG_invalid),
     other_flags = of_nat (flag_index SECURITYFLAG_invalid),
     admin_ids = [], list_ids = []\<rparr>"

definition security_eq :: "security \<Rightarrow> security \<Rightarrow> bool" where
  "security_eq s r =
     (let lists_equal = length (admin_ids s) = length (admin_ids r)
            \<and> length (list_ids s) = length (list_ids r);
          lists_equal = lists_equal \<and> admin_ids s = take (length (admin_ids s)) (admin_ids r);
          lists_equal = lists_equal \<and> list_ids s = take (length (list_ids s)) (list_ids r)
      in lists_equal \<and> list_flags s = list_flags r \<and> other_flags s = other_flags r)"

subsection \<open>Flags\<close>

text \<open>\<open>security_flag_from_string\<close>: the short or the long name.\<close>

definition flag_names :: "(string \<times> string \<times> security_flag) list" where
  "flag_names = [(''r'', ''read'', SECURITYFLAG_read), (''w'', ''write'', SECURITYFLAG_write),
     (''b'', ''base'', SECURITYFLAG_basic), (''c'', ''chown'', SECURITYFLAG_chown)]"

definition security_flag_from_string :: "string \<Rightarrow> security_flag" where
  "security_flag_from_string f =
     (case find (\<lambda>(short, long, _). short = f \<or> long = f) flag_names of
        None \<Rightarrow> SECURITYFLAG_invalid | Some (_, _, flag) \<Rightarrow> flag)"

definition secure_get_flag :: "flag_bits \<Rightarrow> security_flag \<Rightarrow> bool" where
  "secure_get_flag c f = (if flag_index f \<ge> flag_index SECURITYFLAG_invalid then False
     else bit c (flag_index f))"

definition secure_set_flag :: "flag_bits \<Rightarrow> security_flag \<Rightarrow> bool \<Rightarrow> flag_bits \<times> bool" where
  "secure_set_flag c f v =
     (if flag_index f \<ge> flag_index SECURITYFLAG_invalid then (c, False)
      else (if v then set_bit (flag_index f) c else unset_bit (flag_index f) c, True))"

definition allow_flag :: "security \<Rightarrow> security_flag \<Rightarrow> bool" where
  "allow_flag s f = (case sec_class s of
     EntitySecurity \<Rightarrow> flag_index f < flag_index SECURITYFLAG_invalid
   | PropSecurity \<Rightarrow> flag_index f < flag_index SECURITYFLAG_basic)"

definition get_list_security_flag :: "security \<Rightarrow> security_flag \<Rightarrow> bool" where
  "get_list_security_flag s f = secure_get_flag (list_flags s) f"

definition get_other_security_flag :: "security \<Rightarrow> security_flag \<Rightarrow> bool" where
  "get_other_security_flag s f = secure_get_flag (other_flags s) f"

definition set_list_security_flag :: "security_flag \<Rightarrow> bool \<Rightarrow> security \<Rightarrow> security \<times> bool" where
  "set_list_security_flag f v s =
     (if allow_flag s f
      then (case secure_set_flag (list_flags s) f v of (c, ok) \<Rightarrow> (s\<lparr>list_flags := c\<rparr>, ok))
      else (s, False))"

definition set_other_security_flag :: "security_flag \<Rightarrow> bool \<Rightarrow> security \<Rightarrow> security \<times> bool" where
  "set_other_security_flag f v s =
     (if allow_flag s f
      then (case secure_set_flag (other_flags s) f v of (c, ok) \<Rightarrow> (s\<lparr>other_flags := c\<rparr>, ok))
      else (s, False))"

subsection \<open>Administrators and members\<close>

text \<open>Every operation returns the new object and its Boolean result.\<close>

definition add_admin :: "db_id \<Rightarrow> security \<Rightarrow> security \<times> bool" where
  "add_admin i s =
     (if is_default i then (s, False)
      else let s = s\<lparr>list_ids := remove1 i (list_ids s)\<rparr> in
        if i \<notin> set (admin_ids s) then (s\<lparr>admin_ids := admin_ids s @ [i]\<rparr>, True)
        else (s, False))"

definition remove_admin :: "db_id \<Rightarrow> security \<Rightarrow> security \<times> bool" where
  "remove_admin i s =
     (if i \<in> set (admin_ids s) then (s\<lparr>admin_ids := swap_remove i (admin_ids s)\<rparr>, True)
      else (s, False))"

definition clear_admins :: "security \<Rightarrow> security" where
  "clear_admins s = s\<lparr>admin_ids := []\<rparr>"

definition is_in_list :: "db_id \<Rightarrow> security \<Rightarrow> bool" where
  "is_in_list i s \<longleftrightarrow> i \<in> set (list_ids s)"

definition add_to_list :: "db_id \<Rightarrow> security \<Rightarrow> security \<times> bool" where
  "add_to_list i s =
     (if is_default i then (s, False)
      else if i \<notin> set (admin_ids s) then
        (if i \<notin> set (list_ids s) then (s\<lparr>list_ids := list_ids s @ [i]\<rparr>, True) else (s, False))
      else (s, False))"

definition remove_from_list :: "db_id \<Rightarrow> security \<Rightarrow> security \<times> bool" where
  "remove_from_list i s =
     (if i \<in> set (list_ids s) then (s\<lparr>list_ids := swap_remove i (list_ids s)\<rparr>, False)
      else (s, False))"

definition clear_list :: "security \<Rightarrow> security" where
  "clear_list s = s\<lparr>list_ids := []\<rparr>"

subsection \<open>Differences\<close>

text \<open>
  \<open>diff_id_set\<close> as written: an identifier goes into a result list when it \<^emph>\<open>is\<close> found in
  the other set (\<open>std::find(...) != end()\<close>), whatever its comments say.
\<close>

definition diff_id_set ::
    "db_id list \<Rightarrow> db_id list \<Rightarrow> db_id list \<times> db_id list \<Rightarrow> db_id list \<times> db_id list" where
  "diff_id_set lhs rhs result =
     (fst result @ filter (\<lambda>i. i \<in> set rhs) lhs, snd result @ filter (\<lambda>i. i \<in> set lhs) rhs)"

text \<open>The loop of \<open>diff_ids\<close> that drops an identifier found in both results, one for one.\<close>

fun cancel_common :: "db_id list \<Rightarrow> db_id list \<Rightarrow> db_id list \<times> db_id list" where
  "cancel_common [] ys = ([], ys)"
| "cancel_common (x # xs) ys =
     (if x \<in> set ys then cancel_common xs (remove1 x ys)
      else case cancel_common xs ys of (a, b) \<Rightarrow> (x # a, b))"

definition diff_ids :: "security \<Rightarrow> security \<Rightarrow> db_id list \<times> db_id list" where
  "diff_ids s r =
     (let result = diff_id_set (admin_ids s) (admin_ids r) ([], []);
          result = diff_id_set (list_ids s) (list_ids r) result
      in if fst result \<noteq> [] \<and> snd result \<noteq> []
         then cancel_common (fst result) (snd result) else result)"

subsection \<open>Printing\<close>

text \<open>\<open>to_string_internal\<close>, with \<open>flag_count\<close> flags of each kind (4, or 2 for properties).\<close>

definition flags_string :: "nat \<Rightarrow> flag_bits \<Rightarrow> string" where
  "flags_string n c = concat (map (\<lambda>k. if bit c k then fst (flag_names ! k) else ''-'') [0..<n])"

definition ids_string :: "string \<Rightarrow> db_id list \<Rightarrow> string" where
  "ids_string title ids =
     (if ids = [] then []
      else '':('' @ title @ '' '' @
        concat (map (\<lambda>k. (if k = 0 then [] else '' '') @ id_to_string True (ids ! k))
          [0..<length ids]) @ '')'')"

definition to_string_internal :: "nat \<Rightarrow> security \<Rightarrow> string" where
  "to_string_internal n s = flags_string n (list_flags s) @ '':'' @ flags_string n (other_flags s)
     @ ids_string ''ADMIN_FIELD'' (admin_ids s) @ ids_string ''LIST_FIELD'' (list_ids s)"

definition security_to_string :: "security \<Rightarrow> string" where
  "security_to_string s = (case sec_class s of
     EntitySecurity \<Rightarrow> to_string_internal 4 s | PropSecurity \<Rightarrow> to_string_internal 2 s)"

subsection \<open>The operations as one set, and the invariant\<close>

datatype security_op =
    AddAdmin db_id | RemoveAdmin db_id | ClearAdmins | AddToList db_id
  | RemoveFromList db_id | ClearList | SetListFlag security_flag bool
  | SetOtherFlag security_flag bool

fun security_step :: "security_op \<Rightarrow> security \<Rightarrow> security" where
  "security_step (AddAdmin i) s = fst (add_admin i s)"
| "security_step (RemoveAdmin i) s = fst (remove_admin i s)"
| "security_step ClearAdmins s = clear_admins s"
| "security_step (AddToList i) s = fst (add_to_list i s)"
| "security_step (RemoveFromList i) s = fst (remove_from_list i s)"
| "security_step ClearList s = clear_list s"
| "security_step (SetListFlag f v) s = fst (set_list_security_flag f v s)"
| "security_step (SetOtherFlag f v) s = fst (set_other_security_flag f v s)"

definition security_wf :: "security \<Rightarrow> bool" where
  "security_wf s \<longleftrightarrow> distinct (admin_ids s) \<and> distinct (list_ids s)
     \<and> set (admin_ids s) \<inter> set (list_ids s) = {}
     \<and> default_id \<notin> set (admin_ids s) \<union> set (list_ids s)"

lemmas security_op_defs = add_admin_def remove_admin_def clear_admins_def add_to_list_def
  remove_from_list_def clear_list_def set_list_security_flag_def set_other_security_flag_def

lemma security_wf_new [simp]: "security_wf (security_new c)"
  by (simp add: security_wf_def security_new_def)

lemma security_step_wf:
  assumes "security_wf s"
  shows "security_wf (security_step x s)"
  using assms
  by (cases x)
    (auto simp: security_wf_def security_op_defs Let_def set_swap_remove distinct_swap_remove
      dest: notin_set_remove1 split: prod.splits)

interpretation acl: invariant_ops security_step security_wf
  by unfold_locales (rule security_step_wf)

lemma wf_run_new: "security_wf (fold security_step xs (security_new c))"
  by (rule acl.run_good) simp

subsection \<open>Lemmas on differences\<close>

lemma cancel_common_same:
  "mset xs = mset ys \<Longrightarrow> cancel_common xs ys = ([], [])"
proof (induction xs arbitrary: ys)
  case Nil
  then show ?case by simp
next
  case (Cons x xs)
  then have x: "x \<in> set ys" by (metis list.set_intros(1) mset_eq_setD)
  with Cons.prems have "mset xs = mset (remove1 x ys)" by (metis add_mset_remove_trivial mset.simps(2) mset_remove1)
  with Cons.IH x show ?case by simp
qed

lemma mset_common:
  assumes "distinct xs" and "distinct ys"
  shows "mset (filter (\<lambda>i. i \<in> set ys) xs) = mset (filter (\<lambda>i. i \<in> set xs) ys)"
  using assms by (intro set_eq_iff_mset_eq_distinct [THEN iffD1]) auto

subsection \<open>Flags that no operation changes\<close>

lemma flag_index_inject [simp]: "flag_index f = flag_index g \<longleftrightarrow> f = g"
  by (cases f; cases g) simp_all

lemma flag_index_valid: "flag_index f < 4 \<longleftrightarrow> f \<noteq> SECURITYFLAG_invalid"
  by (cases f) simp_all

lemma secure_set_flag_get:
  "secure_get_flag (fst (secure_set_flag c f v)) g =
     (if f = g \<and> f \<noteq> SECURITYFLAG_invalid then v else secure_get_flag c g)"
  using flag_index_valid [of f] flag_index_valid [of g]
  by (auto simp: secure_get_flag_def secure_set_flag_def bit_set_bit_iff bit_unset_bit_iff)

lemma sec_class_step [simp]: "sec_class (security_step x s) = sec_class s"
  by (cases x) (auto simp: security_op_defs Let_def split: prod.splits)

definition prop_basic :: "security \<Rightarrow> bool" where
  "prop_basic s \<longleftrightarrow> sec_class s = PropSecurity
     \<and> get_list_security_flag s SECURITYFLAG_basic \<and> get_other_security_flag s SECURITYFLAG_basic"

lemma set_flag_prop_basic:
  "prop_basic s \<Longrightarrow> prop_basic (fst (set_list_security_flag f v s))"
  "prop_basic s \<Longrightarrow> prop_basic (fst (set_other_security_flag f v s))"
  using secure_set_flag_get [of "list_flags s" f v SECURITYFLAG_basic]
    secure_set_flag_get [of "other_flags s" f v SECURITYFLAG_basic]
  by (auto simp: prop_basic_def set_list_security_flag_def set_other_security_flag_def
      get_list_security_flag_def get_other_security_flag_def allow_flag_def case_prod_beta)

lemma prop_basic_step: "prop_basic s \<Longrightarrow> prop_basic (security_step x s)"
proof (cases x)
  case (SetListFlag f v)
  then show "prop_basic s \<Longrightarrow> ?thesis" by (simp add: set_flag_prop_basic)
next
  case (SetOtherFlag f v)
  then show "prop_basic s \<Longrightarrow> ?thesis" by (simp add: set_flag_prop_basic)
qed (auto simp: prop_basic_def security_op_defs get_list_security_flag_def
    get_other_security_flag_def Let_def)

interpretation acl_prop: stable_ops security_step security_wf prop_basic
  by unfold_locales (rule prop_basic_step)

lemma prop_basic_new: "prop_basic (security_new PropSecurity)"
  by (simp add: prop_basic_def security_new_def get_list_security_flag_def
      get_other_security_flag_def secure_get_flag_def bit_iff_odd)

subsection \<open>Properties\<close>

text \<open>
  Whatever sequence of operations is applied to a fresh \<open>Security\<close> object, no identifier
  is listed twice, none is an administrator and a list member at once, and the default
  identifier is in neither list.
\<close>

theorem security_reachable_wf:
  "security_wf (fold security_step ops (security_new c))"
  by (rule wf_run_new)

text \<open>
  \<open>diff_ids\<close> reports no difference between any two \<open>Security\<close> objects that the operations
  can build, however their lists differ: the membership test of \<open>diff_id_set\<close> is the wrong
  way round, and what it collects is common to both and cancelled.
\<close>

theorem diff_ids_never_reports:
  "diff_ids (fold security_step xs (security_new c)) (fold security_step ys (security_new d))
     = ([], [])"
proof -
  let ?s = "fold security_step xs (security_new c)" and ?r = "fold security_step ys (security_new d)"
  let ?a = "\<lambda>xs ys. filter (\<lambda>i. i \<in> set ys) xs"
  have dist: "distinct (admin_ids ?s)" "distinct (list_ids ?s)"
      "distinct (admin_ids ?r)" "distinct (list_ids ?r)"
    using wf_run_new [of xs c] wf_run_new [of ys d] by (auto simp: security_wf_def)
  let ?rem = "?a (admin_ids ?s) (admin_ids ?r) @ ?a (list_ids ?s) (list_ids ?r)"
  let ?add = "?a (admin_ids ?r) (admin_ids ?s) @ ?a (list_ids ?r) (list_ids ?s)"
  have eq: "mset ?rem = mset ?add"
    using dist by (simp add: mset_common del: mset_filter)
  then have "?rem = [] \<longleftrightarrow> ?add = []" by (metis mset_zero_iff)
  with cancel_common_same [OF eq] show ?thesis
    by (auto simp: diff_ids_def diff_id_set_def Let_def)
qed

text \<open>
  Removing an administrator removes exactly that identifier, leaves everything else
  alone and answers whether it was there.
\<close>

theorem remove_admin_exact:
  assumes "security_wf s"
  shows "set (admin_ids (fst (remove_admin i s))) = set (admin_ids s) - {i}
    \<and> snd (remove_admin i s) = (i \<in> set (admin_ids s))
    \<and> fst (remove_admin i s) = s\<lparr>admin_ids := admin_ids (fst (remove_admin i s))\<rparr>"
  using assms by (auto simp: remove_admin_def security_wf_def set_swap_remove)

theorem remove_admin_exact_witness:
  "set (admin_ids (fst (remove_admin (DbId 1 5)
      (fst (add_admin (DbId 1 6) (fst (add_admin (DbId 1 5) (security_new EntitySecurity))))))))
    = {DbId 1 6}"
proof -
  let ?s = "fst (add_admin (DbId 1 6) (fst (add_admin (DbId 1 5) (security_new EntitySecurity))))"
  have "security_wf ?s"
    using wf_run_new [of "[AddAdmin (DbId 1 5), AddAdmin (DbId 1 6)]" EntitySecurity] by simp
  from remove_admin_exact [OF this, of "DbId 1 5"]
  show ?thesis by (simp add: add_admin_def security_new_def default_id_def)
qed

text \<open>
  Removing a member from the list removes exactly that identifier, but the operation
  answers \<open>false\<close> whether or not it removed anything.
\<close>

theorem remove_from_list_answers_false:
  "set (list_ids (fst (remove_from_list i (fold security_step ops (security_new c)))))
      = set (list_ids (fold security_step ops (security_new c))) - {i}
    \<and> snd (remove_from_list i (fold security_step ops (security_new c))) = False"
  using wf_run_new [of ops c]
  by (auto simp: remove_from_list_def security_wf_def set_swap_remove)

text \<open>
  A property application's security has the basic flag set for its list and for everyone
  else from its construction on, and no operation can clear it: \<open>allow_flag\<close> refuses the flag
  that the constructor sets.
\<close>

theorem property_security_basic_stuck:
  "get_list_security_flag (fold security_step ops (security_new PropSecurity)) SECURITYFLAG_basic
    \<and> get_other_security_flag (fold security_step ops (security_new PropSecurity)) SECURITYFLAG_basic"
  using acl_prop.run_stable [OF security_wf_new prop_basic_new, of ops]
  by (simp add: prop_basic_def)

end
