(* ===== verification/SecContext.thy ===== *)
theory SecContext
  imports AccessList
begin

text \<open>
  \<^verbatim>\<open>src/src/security/security_OperationsCapabilities.{h,cpp}\<close> and
  \<^verbatim>\<open>security_Context.{h,cpp}\<close>: the operations, results and capabilities of the security
  module, and the context of a requester with its capabilities and its cache of decisions.

  The cache holds at most 64 entries; when full, the entries are overwritten in turn. A
  lookup answers with the first entry that matches what its overload compares.
\<close>

subsection \<open>Operations, results, capabilities\<close>

datatype (plugins only: code size) operation =
    OPERATION_GET_FORMATTED_PROCESSES | OPERATION_FIND_BY_NAME_RELATIVE
  | OPERATION_FIND_CHARACTER_BY_NAME | OPERATION_CHARACTER_ONLINE | OPERATION_GET_CONTAINS
  | OPERATION_GET_ACTIONS | OPERATION_CREATE_ENTITY | OPERATION_DELETE_ENTITY
  | OPERATION_GET_ENTITY_FIELD | OPERATION_SET_ENTITY_FIELD
  | OPERATION_GET_APPLICATION_SECURITY | OPERATION_SET_APPLICATION_SECURITY
  | OPERATION_GET_APPLICATION_PROPERTY | OPERATION_SET_APPLICATION_PROPERTY
  | OPERATION_DELETE_APPLICATION_PROPERTY | OPERATION_ENTITY_TOSTRING
  | OPERATION_TRANSFER_ENTITY | OPERATION_SEND_TEXT_ROOM_UNRESTRICTED
  | OPERATION_SEND_TEXT_ROOM | OPERATION_SEND_TEXT_ENTITY | OPERATION_USE_ACTION
  | OPERATION_END_INVALID

definition all_operations :: "operation list" where
  "all_operations = [OPERATION_GET_FORMATTED_PROCESSES, OPERATION_FIND_BY_NAME_RELATIVE,
    OPERATION_FIND_CHARACTER_BY_NAME, OPERATION_CHARACTER_ONLINE, OPERATION_GET_CONTAINS,
    OPERATION_GET_ACTIONS, OPERATION_CREATE_ENTITY, OPERATION_DELETE_ENTITY,
    OPERATION_GET_ENTITY_FIELD, OPERATION_SET_ENTITY_FIELD,
    OPERATION_GET_APPLICATION_SECURITY, OPERATION_SET_APPLICATION_SECURITY,
    OPERATION_GET_APPLICATION_PROPERTY, OPERATION_SET_APPLICATION_PROPERTY,
    OPERATION_DELETE_APPLICATION_PROPERTY, OPERATION_ENTITY_TOSTRING,
    OPERATION_TRANSFER_ENTITY, OPERATION_SEND_TEXT_ROOM_UNRESTRICTED,
    OPERATION_SEND_TEXT_ROOM, OPERATION_SEND_TEXT_ENTITY, OPERATION_USE_ACTION,
    OPERATION_END_INVALID]"

text \<open>The value of an enumerator.\<close>

definition operation_index :: "operation \<Rightarrow> nat" where
  "operation_index op = index_of op all_operations"

definition operation_as_string :: "string list" where
  "operation_as_string = [''GET_FORMATTED_PROCESSES'', ''FIND_BY_NAME_RELATIVE'',
    ''FIND_CHARACTER_BY_NAME'', ''CHARACTER_ONLINE'', ''GET_CONTAINS'', ''GET_ACTIONS'',
    ''CREATE_ENTITY'', ''DELETE_ENTITY'', ''GET_ENTITY_FIELD'', ''SET_ENTITY_FIELD'',
    ''GET_APPLICATION_SECURITY'', ''SET_APPLICATION_SECURITY'',
    ''GET_APPLICATION_PROPERTY'', ''SET_APPLICATION_PROPERTY'',
    ''DELETE_APPLICATION_PROPERTY'', ''ENTITY_TOSTRING'', ''TRANSFER_ENTITY'',
    ''SEND_TEXT_ROOM_UNRESTRICTED'', ''SEND_TEXT_ENTITY'', ''USE_ACTION'', ''invalid'']"

text \<open>Reading the array of names; \<open>None\<close> is a read past its end.\<close>

definition operation_to_string :: "operation \<Rightarrow> string option" where
  "operation_to_string op =
     (let k = (if operation_index op \<ge> operation_index OPERATION_END_INVALID
               then operation_index OPERATION_END_INVALID else operation_index op)
      in if k < length operation_as_string then Some (operation_as_string ! k) else None)"

datatype result =
    RESULT_ACCEPT | RESULT_ACCEPT_ALWAYS | RESULT_DENY_ALWAYS | RESULT_DENY | RESULT_SKIP
  | RESULT_END_INVALID

fun result_to_string :: "result \<Rightarrow> string" where
  "result_to_string RESULT_ACCEPT = ''ACCEPT''"
| "result_to_string RESULT_ACCEPT_ALWAYS = ''ACCEPT_ALWAYS''"
| "result_to_string RESULT_DENY_ALWAYS = ''DENY_ALWAYS''"
| "result_to_string RESULT_DENY = ''DENY''"
| "result_to_string RESULT_SKIP = ''SKIP''"
| "result_to_string RESULT_END_INVALID = ''invalid''"

text \<open>A \<open>Result\<close> where a \<open>bool\<close> is expected: the conversion of its value.\<close>

fun result_value :: "result \<Rightarrow> nat" where
  "result_value RESULT_ACCEPT = 0"
| "result_value RESULT_ACCEPT_ALWAYS = 1"
| "result_value RESULT_DENY_ALWAYS = 2"
| "result_value RESULT_DENY = 3"
| "result_value RESULT_SKIP = 4"
| "result_value RESULT_END_INVALID = 5"

definition result_to_bool :: "result \<Rightarrow> bool" where
  "result_to_bool r \<longleftrightarrow> result_value r \<noteq> 0"

datatype capability =
    CAPABILITY_ADMIN | CAPABILITY_CREATE_PLAYER | CAPABILITY_BUILDER
  | CAPABILITY_SEND_TEXT_ROOM_UNRESTRICTED | CAPABILITY_SEND_TEXT_ENTITY
  | CAPABILITY_CHARACTER_FIND_BY_NAME_AFAR | CAPABILITY_ANY_ID_TO_NAME
  | CAPABILITY_CONNECTION_CHECK | CAPABILITY_RUN_AS_USER

text \<open>The loop \<open>0 \<le> index < CAPABILITY_END_INVALID\<close> runs through them in this order.\<close>

definition all_capabilities :: "capability list" where
  "all_capabilities = [CAPABILITY_ADMIN, CAPABILITY_CREATE_PLAYER, CAPABILITY_BUILDER,
    CAPABILITY_SEND_TEXT_ROOM_UNRESTRICTED, CAPABILITY_SEND_TEXT_ENTITY,
    CAPABILITY_CHARACTER_FIND_BY_NAME_AFAR, CAPABILITY_ANY_ID_TO_NAME,
    CAPABILITY_CONNECTION_CHECK, CAPABILITY_RUN_AS_USER]"

fun capability_to_string :: "capability \<Rightarrow> string" where
  "capability_to_string CAPABILITY_ADMIN = ''ADMIN''"
| "capability_to_string CAPABILITY_CREATE_PLAYER = ''CREATE_PLAYER''"
| "capability_to_string CAPABILITY_BUILDER = ''BUILDER''"
| "capability_to_string CAPABILITY_SEND_TEXT_ROOM_UNRESTRICTED = ''SEND_TEXT_ROOM_UNRESTRICTED''"
| "capability_to_string CAPABILITY_SEND_TEXT_ENTITY = ''SEND_TEXT_ENTITY''"
| "capability_to_string CAPABILITY_CHARACTER_FIND_BY_NAME_AFAR = ''FIND_BY_NAME_AFAR''"
| "capability_to_string CAPABILITY_ANY_ID_TO_NAME = ''ANY_ID_TO_NAME''"
| "capability_to_string CAPABILITY_CONNECTION_CHECK = ''CONNECTION_CHECK''"
| "capability_to_string CAPABILITY_RUN_AS_USER = ''RUN_AS_USER''"

lemma capability_to_string_inject: "capability_to_string a = capability_to_string b \<Longrightarrow> a = b"
  by (cases a; cases b) simp_all

subsection \<open>The context\<close>

record cache_entry =
  operation_result :: result
  ce_operation :: operation
  ce_entity_type :: entity_type
  ce_entity_field :: entity_field
  application_name :: string
  ce_entity_target :: db_id
  ce_entity_source :: db_id

record sec_context =
  requester :: db_id
  program :: db_id
  ctx_pid :: u32
  populated_capabilities :: bool
  admin :: bool
  run_as_requester :: bool
  capabilities :: "capability list"
  context_cache :: "cache_entry list"
  context_cache_index :: nat

definition context_new :: "db_id \<Rightarrow> db_id \<Rightarrow> sec_context" where
  "context_new r p = \<lparr>requester = r, program = p, ctx_pid = 0, populated_capabilities = False,
     admin = False, run_as_requester = False, capabilities = [], context_cache = [],
     context_cache_index = 0\<rparr>"

definition reset_capabilities :: "sec_context \<Rightarrow> sec_context" where
  "reset_capabilities c = c\<lparr>populated_capabilities := False, admin := False,
     capabilities := [], context_cache := [], context_cache_index := 0\<rparr>"

definition capabilities_set :: "sec_context \<Rightarrow> sec_context" where
  "capabilities_set c = c\<lparr>populated_capabilities := True\<rparr>"

definition set_run_as_admin :: "sec_context \<Rightarrow> sec_context" where
  "set_run_as_admin c = c\<lparr>admin := True\<rparr>"

definition set_run_as_requester :: "sec_context \<Rightarrow> sec_context" where
  "set_run_as_requester c = c\<lparr>run_as_requester := True\<rparr>"

definition set_pid :: "u32 \<Rightarrow> sec_context \<Rightarrow> sec_context" where
  "set_pid p c = c\<lparr>ctx_pid := p\<rparr>"

text \<open>\<open>Context::to_string\<close>; a capability and a flag are printed as numbers.\<close>

definition context_to_string :: "sec_context \<Rightarrow> string" where
  "context_to_string c =
     (let flag = (\<lambda>b. if b then ''1'' else ''0'') in
      ''[Requester: '' @ id_to_string True (requester c) @ ''  Program: ''
        @ id_to_string True (program c) @ ''  PID: '' @ dec_string (unat (ctx_pid c))
        @ ''  Populated: '' @ flag (populated_capabilities c) @ ''  IsAdmin: '' @ flag (admin c)
        @ ''  RunAsRequester: '' @ flag (run_as_requester c) @ ''  Capabilities:''
        @ concat (map (\<lambda>k. ''  '' @ dec_string (index_of k all_capabilities)) (capabilities c))
        @ '']'')"

definition add_capability :: "capability \<Rightarrow> sec_context \<Rightarrow> sec_context" where
  "add_capability k c =
     (if k \<notin> set (capabilities c) then c\<lparr>capabilities := capabilities c @ [k]\<rparr> else c)"

definition has_capability :: "sec_context \<Rightarrow> capability \<Rightarrow> bool" where
  "has_capability c k = (if admin c then True else k \<in> set (capabilities c))"

subsection \<open>The cache\<close>

definition CONTEXT_CACHE_SIZE :: nat where
  "CONTEXT_CACHE_SIZE = 64"

definition add_cache_entry :: "cache_entry \<Rightarrow> sec_context \<Rightarrow> sec_context" where
  "add_cache_entry e c =
     (if length (context_cache c) < CONTEXT_CACHE_SIZE
      then c\<lparr>context_cache := context_cache c @ [e]\<rparr>
      else let i = context_cache_index c; j = i + 1 in
        c\<lparr>context_cache := (context_cache c)[i := e],
          context_cache_index := (if j \<ge> CONTEXT_CACHE_SIZE then 0 else j)\<rparr>)"

definition clear_security_check_cache :: "sec_context \<Rightarrow> sec_context" where
  "clear_security_check_cache c = c\<lparr>context_cache_index := 0, context_cache := []\<rparr>"

text \<open>The loop of every \<open>security_check_cache\<close>: the first entry its condition accepts.\<close>

definition cache_find :: "(cache_entry \<Rightarrow> bool) \<Rightarrow> sec_context \<Rightarrow> result option" where
  "cache_find p c = map_option operation_result (find p (context_cache c))"

definition check_cache :: "operation \<Rightarrow> sec_context \<Rightarrow> result option" where
  "check_cache op c = cache_find (\<lambda>e. ce_operation e = op) c"

definition check_cache_type :: "operation \<Rightarrow> entity_type \<Rightarrow> sec_context \<Rightarrow> result option" where
  "check_cache_type op t c =
     cache_find (\<lambda>e. ce_operation e = op \<and> ce_entity_type e = t) c"

definition check_cache_target :: "operation \<Rightarrow> db_id \<Rightarrow> sec_context \<Rightarrow> result option" where
  "check_cache_target op tg c =
     cache_find (\<lambda>e. ce_operation e = op \<and> ce_entity_target e = tg) c"

definition check_cache_app :: "operation \<Rightarrow> db_id \<Rightarrow> string \<Rightarrow> sec_context \<Rightarrow> result option" where
  "check_cache_app op tg app c = cache_find
     (\<lambda>e. ce_operation e = op \<and> ce_entity_target e = tg \<and> application_name e = app) c"

definition check_cache_field :: "operation \<Rightarrow> db_id \<Rightarrow> entity_field \<Rightarrow> sec_context \<Rightarrow> result option"
where
  "check_cache_field op tg f c = cache_find
     (\<lambda>e. ce_operation e = op \<and> ce_entity_target e = tg \<and> ce_entity_field e = f) c"

definition check_cache_source :: "operation \<Rightarrow> db_id \<Rightarrow> db_id \<Rightarrow> sec_context \<Rightarrow> result option" where
  "check_cache_source op tg src c = cache_find
     (\<lambda>e. ce_operation e = op \<and> ce_entity_target e = tg \<and> ce_entity_source e = src) c"

definition blank_entry :: "operation \<Rightarrow> result \<Rightarrow> cache_entry" where
  "blank_entry op r = \<lparr>operation_result = r, ce_operation = op,
     ce_entity_type = ENTITYTYPE_invalid, ce_entity_field = ENTITYFIELD_invalid,
     application_name = [], ce_entity_target = default_id, ce_entity_source = default_id\<rparr>"

definition save_result :: "operation \<Rightarrow> result \<Rightarrow> sec_context \<Rightarrow> sec_context" where
  "save_result op r c = add_cache_entry (blank_entry op r) c"

definition save_result_type :: "operation \<Rightarrow> entity_type \<Rightarrow> result \<Rightarrow> sec_context \<Rightarrow> sec_context" where
  "save_result_type op t r c = add_cache_entry ((blank_entry op r)\<lparr>ce_entity_type := t\<rparr>) c"

definition save_result_target :: "operation \<Rightarrow> db_id \<Rightarrow> result \<Rightarrow> sec_context \<Rightarrow> sec_context" where
  "save_result_target op tg r c =
     add_cache_entry ((blank_entry op r)\<lparr>ce_entity_target := tg\<rparr>) c"

definition save_result_app ::
    "operation \<Rightarrow> db_id \<Rightarrow> string \<Rightarrow> result \<Rightarrow> sec_context \<Rightarrow> sec_context" where
  "save_result_app op tg app r c =
     add_cache_entry ((blank_entry op r)\<lparr>application_name := app, ce_entity_target := tg\<rparr>) c"

definition save_result_field ::
    "operation \<Rightarrow> db_id \<Rightarrow> entity_field \<Rightarrow> result \<Rightarrow> sec_context \<Rightarrow> sec_context" where
  "save_result_field op tg f r c =
     add_cache_entry ((blank_entry op r)\<lparr>ce_entity_field := f, ce_entity_target := tg\<rparr>) c"

definition save_result_source ::
    "operation \<Rightarrow> db_id \<Rightarrow> db_id \<Rightarrow> result \<Rightarrow> sec_context \<Rightarrow> sec_context" where
  "save_result_source op tg src r c =
     add_cache_entry ((blank_entry op r)\<lparr>ce_entity_target := tg, ce_entity_source := src\<rparr>) c"

lemmas check_cache_defs = check_cache_def check_cache_type_def check_cache_target_def
  check_cache_app_def check_cache_field_def check_cache_source_def

lemmas save_result_defs = save_result_def save_result_type_def save_result_target_def
  save_result_app_def save_result_field_def save_result_source_def

subsection \<open>The cache is well formed\<close>

text \<open>
  The bound of the cache, the range of its write position and the absence of duplicates in
  the capability list.
\<close>

definition context_wf :: "sec_context \<Rightarrow> bool" where
  "context_wf c \<longleftrightarrow> length (context_cache c) \<le> CONTEXT_CACHE_SIZE
     \<and> context_cache_index c < CONTEXT_CACHE_SIZE
     \<and> distinct (capabilities c)"

datatype context_op =
    CAddCapability capability | CSetAdmin | CSetRunAsRequester | CCapabilitiesSet | CReset
  | CClearCache | CSave cache_entry

fun context_step :: "context_op \<Rightarrow> sec_context \<Rightarrow> sec_context" where
  "context_step (CAddCapability k) c = add_capability k c"
| "context_step CSetAdmin c = set_run_as_admin c"
| "context_step CSetRunAsRequester c = set_run_as_requester c"
| "context_step CCapabilitiesSet c = capabilities_set c"
| "context_step CReset c = reset_capabilities c"
| "context_step CClearCache c = clear_security_check_cache c"
| "context_step (CSave e) c = add_cache_entry e c"

lemmas context_op_defs = add_capability_def set_run_as_admin_def set_run_as_requester_def
  capabilities_set_def reset_capabilities_def clear_security_check_cache_def add_cache_entry_def

lemma context_new_wf [simp]: "context_wf (context_new r p)"
  by (simp add: context_wf_def context_new_def CONTEXT_CACHE_SIZE_def)

interpretation ctx: invariant_ops context_step context_wf
proof
  fix c x
  assume "context_wf c"
  then show "context_wf (context_step x c)"
    by (cases x) (auto simp: context_wf_def context_op_defs Let_def CONTEXT_CACHE_SIZE_def)
qed

lemma add_cache_entry_fields [state_simps]:
  "requester (add_cache_entry e c) = requester c"
  "program (add_cache_entry e c) = program c"
  "admin (add_cache_entry e c) = admin c"
  "run_as_requester (add_cache_entry e c) = run_as_requester c"
  "capabilities (add_cache_entry e c) = capabilities c"
  "populated_capabilities (add_cache_entry e c) = populated_capabilities c"
  by (simp_all add: add_cache_entry_def Let_def)

subsection \<open>What a cache of decisions promises\<close>

text \<open>
  The contract between the context and the security check that memoises in it: a found
  entry is one of the stored entries and matches the request; storing adds at most the new
  entry; what was stored after a miss is found. A client that stores only right decisions
  then reads only right decisions.
\<close>

locale decision_cache =
  fixes entries :: "'c \<Rightarrow> 'e set"
    and store :: "'e \<Rightarrow> 'c \<Rightarrow> 'c"
    and lookup :: "('e \<Rightarrow> bool) \<Rightarrow> 'c \<Rightarrow> 'r option"
    and answer :: "'e \<Rightarrow> 'r"
    and cache_ok :: "'c \<Rightarrow> bool"
  assumes lookup_entry: "lookup p c = Some r \<Longrightarrow> \<exists>e \<in> entries c. p e \<and> answer e = r"
    and entries_store: "entries (store e c) \<subseteq> insert e (entries c)"
    and store_ok: "cache_ok c \<Longrightarrow> cache_ok (store e c)"
    and lookup_store: "cache_ok c \<Longrightarrow> lookup p c = None \<Longrightarrow> p e
      \<Longrightarrow> lookup p (store e c) = Some (answer e)"
begin

lemma lookup_right:
  assumes "\<forall>e \<in> entries c. right e (answer e)" and "lookup p c = Some r"
    and "\<And>e. p e \<Longrightarrow> right e r \<Longrightarrow> good_answer r"
  shows "good_answer r"
proof -
  from lookup_entry [OF assms(2)] obtain e where "e \<in> entries c" "p e" "answer e = r" by blast
  with assms(1,3) show ?thesis by blast
qed

lemma store_right:
  assumes "\<forall>e \<in> entries c. right e (answer e)" and "right e (answer e)"
  shows "\<forall>x \<in> entries (store e c). right x (answer x)"
  using assms entries_store by blast

end

lemma find_list_update_None:
  "find p xs = None \<Longrightarrow> i < length xs \<Longrightarrow> p e \<Longrightarrow> find p (xs[i := e]) = Some e"
  by (induction xs arbitrary: i) (auto split: nat.splits if_splits)

lemma find_snoc: "find p (xs @ [e]) = (case find p xs of None \<Rightarrow> if p e then Some e else None | Some x \<Rightarrow> Some x)"
  by (induction xs) auto

lemma cache_find_store:
  assumes "context_wf c" and "cache_find p c = None" and "p e"
  shows "cache_find p (add_cache_entry e c) = Some (operation_result e)"
  using assms
  by (auto simp: cache_find_def add_cache_entry_def Let_def find_snoc context_wf_def
      find_list_update_None)

lemma set_add_cache_entry:
  "set (context_cache (add_cache_entry e c)) \<subseteq> insert e (set (context_cache c))"
  by (auto simp: add_cache_entry_def Let_def dest: set_update_subset_insert [THEN subsetD])

interpretation cc: decision_cache "\<lambda>c. set (context_cache c)" add_cache_entry cache_find
  operation_result context_wf
proof
  fix p c r
  assume "cache_find p c = Some r"
  then show "\<exists>e \<in> set (context_cache c). p e \<and> operation_result e = r"
    by (auto simp: cache_find_def find_Some_iff intro!: bexI [OF _ nth_mem])
next
  fix e c
  show "set (context_cache (add_cache_entry e c)) \<subseteq> insert e (set (context_cache c))"
    by (rule set_add_cache_entry)
next
  fix e and c :: sec_context
  assume "context_wf c"
  then show "context_wf (add_cache_entry e c)"
    using ctx.step_good [of c "CSave e"] by simp
next
  fix p c e
  assume "context_wf c" "cache_find p c = None" "p e"
  then show "cache_find p (add_cache_entry e c) = Some (operation_result e)"
    by (rule cache_find_store)
qed

subsection \<open>Properties\<close>

text \<open>
  Whatever is done to a context, its cache never holds more than 64 decisions, the
  position the next overwrite uses stays inside the cache, and no capability is listed twice.
\<close>

theorem context_cache_bounded:
  "context_wf (fold context_step ops (context_new r p))"
  by (rule ctx.run_good) simp

text \<open>
  The printed names of the operations are out of step with the enumeration from
  \<open>OPERATION_SEND_TEXT_ROOM\<close> on: that operation prints the name of another one, the last
  operation prints as invalid, and the marker reads past the end of the array. Before it,
  every operation prints its own, distinct name.
\<close>

theorem operation_names_shifted:
  "operation_to_string OPERATION_SEND_TEXT_ROOM = Some ''SEND_TEXT_ENTITY''
    \<and> operation_to_string OPERATION_SEND_TEXT_ENTITY = Some ''USE_ACTION''
    \<and> operation_to_string OPERATION_USE_ACTION = Some ''invalid''
    \<and> operation_to_string OPERATION_END_INVALID = None
    \<and> map operation_to_string (take 18 all_operations) = map Some (take 18 operation_as_string)"
  by (simp add: operation_to_string_def operation_index_def all_operations_def
      operation_as_string_def)

text \<open>
  A decision stored after a lookup missed is the one the next lookup finds, for every
  overload of the cache, full or not.
\<close>

theorem cache_lookup_after_save:
  assumes "context_wf c" and "check_cache_app op tg app c = None"
    and "check_cache_field op tg f c = None" and "check_cache_source op tg src c = None"
    and "check_cache_target op tg c = None" and "check_cache_type op t c = None"
    and "check_cache op c = None"
  shows "check_cache_app op tg app (save_result_app op tg app r c) = Some r
    \<and> check_cache_field op tg f (save_result_field op tg f r c) = Some r
    \<and> check_cache_source op tg src (save_result_source op tg src r c) = Some r
    \<and> check_cache_target op tg (save_result_target op tg r c) = Some r
    \<and> check_cache_type op t (save_result_type op t r c) = Some r
    \<and> check_cache op (save_result op r c) = Some r"
  using assms unfolding check_cache_defs save_result_defs
  by (auto simp: cc.lookup_store blank_entry_def)

theorem cache_lookup_after_save_witness:
  "check_cache_app OPERATION_GET_APPLICATION_PROPERTY (DbId 2 7) ''desc''
     (save_result_app OPERATION_GET_APPLICATION_PROPERTY (DbId 2 7) ''desc'' RESULT_DENY
       (context_new (DbId 2 9) default_id)) = Some RESULT_DENY"
proof -
  let ?c = "context_new (DbId 2 9) default_id" and ?op = OPERATION_GET_APPLICATION_PROPERTY
  have "context_cache ?c = []" by (simp add: context_new_def)
  then have none: "cache_find p ?c = None" for p by (simp add: cache_find_def)
  show ?thesis
    using cache_lookup_after_save [of ?c ?op "DbId 2 7" "''desc''" ENTITYFIELD_name default_id
        ENTITYTYPE_room RESULT_DENY]
    by (simp add: check_cache_defs none)
qed

end
