(* ===== verification/PathNames.thy ===== *)
theory PathNames
  imports Prelude
begin

text \<open>
  The name of the application a property path starts with
  (\<open>PropertyEntity::get_application_name_from_path\<close>,
  \<^verbatim>\<open>src/src/dbtypes/dbtype_PropertyEntity.cpp\<close>). Trimming is
  \<open>boost::trim_copy\<close>, which is not part of the repository: a parameter \<open>trim\<close>.
\<close>

definition SEP :: char where
  "SEP = CHR ''/''"

definition get_application_name_from_path :: "(string \<Rightarrow> string) \<Rightarrow> string \<Rightarrow> string" where
  "get_application_name_from_path trim full_path =
     (let trimmed_path = trim full_path in
      if trimmed_path = [] then []
      else let trimmed_path =
             (if \<exists>c \<in> set trimmed_path. c \<noteq> SEP then dropWhile (\<lambda>c. c = SEP) trimmed_path
              else trimmed_path)
        in takeWhile (\<lambda>c. c \<noteq> SEP) trimmed_path)"

lemma takeWhile_no_sep: "SEP \<notin> set (takeWhile (\<lambda>c. c \<noteq> SEP) xs)"
  by (auto dest: set_takeWhileD)

text \<open>
  The application name never holds a separator, and a path that starts with separators
  and a name, with or without more segments, gives that name.
\<close>

theorem application_name_of_path:
  assumes "trim (replicate n SEP @ app @ rest) = replicate n SEP @ app @ rest"
    and "app \<noteq> []" and "SEP \<notin> set app" and "rest = [] \<or> hd rest = SEP"
  shows "get_application_name_from_path trim (replicate n SEP @ app @ rest) = app
    \<and> SEP \<notin> set (get_application_name_from_path trim path)"
proof
  have mem: "hd app \<in> set app" using assms(2) by simp
  with assms(3) have hd: "hd app \<noteq> SEP" by auto
  with mem have ne: "\<exists>c \<in> set app. c \<noteq> SEP" by blast
  have "dropWhile (\<lambda>c. c = SEP) (replicate n SEP @ app @ rest) = app @ rest"
    using assms(2) hd by (induction n) (auto simp: neq_Nil_conv)
  moreover have "takeWhile (\<lambda>c. c \<noteq> SEP) (app @ rest) = app"
    using assms(3,4) by (cases rest) (auto simp: takeWhile_append)
  ultimately show "get_application_name_from_path trim (replicate n SEP @ app @ rest) = app"
    using ne assms(1,2) by (auto simp: get_application_name_from_path_def Let_def)
  show "SEP \<notin> set (get_application_name_from_path trim path)"
    by (simp add: get_application_name_from_path_def Let_def takeWhile_no_sep)
qed

theorem application_name_of_path_witness:
  "get_application_name_from_path (\<lambda>s. s) ''//prog/desc'' = ''prog''"
  using application_name_of_path [of "\<lambda>s. s" 2 "''prog''" "''/desc''" "[]"]
  by (simp add: SEP_def numeral_2_eq_2)

end
