(* ===== verification/CheckHelp.thy ===== *)
theory CheckHelp
  imports SecContext PathNames
begin

text \<open>
  \<open>security::CheckerHelpers\<close> (\<^verbatim>\<open>src/src/security/security_CheckerHelpers.cpp\<close>): who is
  near whom, who may do what by an access list, and who administers an entity.

  The database is what \<open>DatabaseAccess::get_entity\<close> answers: a function from identifiers to
  entities, \<open>None\<close> for an invalid reference. An \<open>EntityRef\<close> is such an optional entity; two
  references are equal when they hold the same entity. The parameter \<open>'p\<close> is the type of
  property values. A helper that reports whether it could decide, and stores its decision in
  a reference parameter, returns \<open>Some\<close> decision or \<open>None\<close>.

  The walk from a room up through its regions may not end when the containment is cyclic; it
  is a partial function, \<open>None\<close> being "does not return".
\<close>

subsection \<open>Entities and the database\<close>

datatype lock_type = LOCK_INVALID | LOCK_BY_ID | LOCK_BY_GROUP | LOCK_BY_PROPERTY

record 'p lock =
  lock_kind :: lock_type
  lock_id :: "db_id option"
  lock_path :: "string option"
  lock_path_data :: "'p option"
  operation_not :: bool

record 'p entity =
  ent_id :: db_id
  ent_type :: entity_type
  ent_owner :: db_id
  ent_security :: security
  ent_deleted :: bool
  ent_contained_by :: db_id
  ent_action_contained_by :: db_id
  ent_action_lock :: "'p lock"
  ent_group_ids :: "db_id list"
  ent_disabled_ids :: "db_id list"
  ent_applications :: "string \<rightharpoonup> db_id \<times> security"
  ent_property :: "string \<Rightarrow> 'p option"

type_synonym 'p database = "db_id \<Rightarrow> 'p entity option"

definition is_in_group :: "'p entity \<Rightarrow> db_id \<Rightarrow> bool" where
  "is_in_group g i \<longleftrightarrow> \<not> is_default i \<and> i \<notin> set (ent_disabled_ids g) \<and> i \<in> set (ent_group_ids g)"

text \<open>\<open>PropertyEntity::get_application_security_settings\<close>, with its default on a miss.\<close>

definition get_application_security_settings ::
    "(string \<Rightarrow> string) \<Rightarrow> 'p entity \<Rightarrow> string \<Rightarrow> db_id \<times> security" where
  "get_application_security_settings trim e path =
     (case ent_applications e (get_application_name_from_path trim path) of
        Some os \<Rightarrow> os | None \<Rightarrow> (default_id, security_new PropSecurity))"

subsection \<open>Membership of an access list\<close>

text \<open>
  \<open>is_in_list\<close>: the identifier, or the other one unless it is the default, is in the list or
  in a group of the list. Groups inside groups and capabilities are not followed.
\<close>

fun is_in_ids :: "'p database \<Rightarrow> db_id list \<Rightarrow> db_id \<Rightarrow> db_id \<Rightarrow> bool" where
  "is_in_ids db [] i other = False"
| "is_in_ids db (x # xs) i other =
     (if x = i \<or> (\<not> is_default other \<and> x = other) then True
      else case db x of
        None \<Rightarrow> is_in_ids db xs i other
      | Some g \<Rightarrow>
          if ent_type g = ENTITYTYPE_group \<and> \<not> ent_deleted g
             \<and> (is_in_group g i \<or> (\<not> is_default other \<and> is_in_group g other))
          then True else is_in_ids db xs i other)"

subsection \<open>Permissions\<close>

datatype basic_handling =
    BHANDLING_EXCLUDE_BASIC | BHANDLING_INCLUDE_BASIC
  | BHANDLING_INCLUDE_BASIC_BUT_IGNORE_OTHER

definition list_flag_ok :: "security \<Rightarrow> security_flag \<Rightarrow> basic_handling \<Rightarrow> bool" where
  "list_flag_ok s f b \<longleftrightarrow> get_list_security_flag s f
     \<or> (b \<noteq> BHANDLING_EXCLUDE_BASIC \<and> get_list_security_flag s SECURITYFLAG_basic)"

definition other_flag_ok :: "security \<Rightarrow> security_flag \<Rightarrow> basic_handling \<Rightarrow> bool" where
  "other_flag_ok s f b \<longleftrightarrow> get_other_security_flag s f
     \<or> (b = BHANDLING_INCLUDE_BASIC \<and> get_other_security_flag s SECURITYFLAG_basic)"

definition has_permission_one ::
    "'p database \<Rightarrow> db_id \<Rightarrow> security \<Rightarrow> 'p entity option \<Rightarrow> security_flag \<Rightarrow> basic_handling \<Rightarrow> bool"
where
  "has_permission_one db owner s entity f b =
     (case entity of None \<Rightarrow> False
      | Some e \<Rightarrow>
        let permission = (owner = ent_id e);
            permission = (if \<not> permission then other_flag_ok s f b else permission);
            permission = (if \<not> permission then is_in_ids db (admin_ids s) (ent_id e) default_id
                          else permission)
        in if \<not> permission \<and> list_flag_ok s f b
           then is_in_ids db (list_ids s) (ent_id e) default_id else permission)"

definition has_permission_two ::
    "'p database \<Rightarrow> db_id \<Rightarrow> security \<Rightarrow> 'p entity option \<Rightarrow> 'p entity option
      \<Rightarrow> security_flag \<Rightarrow> basic_handling \<Rightarrow> bool" where
  "has_permission_two db owner s entity other f b =
     (case (entity, other) of
        (Some e, Some o') \<Rightarrow>
          let permission = (owner = ent_id e \<or> owner = ent_id o');
              permission = (if \<not> permission then other_flag_ok s f b else permission);
              permission = (if \<not> permission
                then is_in_ids db (admin_ids s) (ent_id e) default_id
                  \<or> is_in_ids db (admin_ids s) (ent_id o') default_id
                else permission)
          in if \<not> permission \<and> list_flag_ok s f b
             then is_in_ids db (list_ids s) (ent_id e) (ent_id o') else permission
      | _ \<Rightarrow> False)"

definition is_admin_one :: "'p database \<Rightarrow> db_id \<Rightarrow> security \<Rightarrow> 'p entity option \<Rightarrow> bool" where
  "is_admin_one db owner s entity =
     (case entity of None \<Rightarrow> False
      | Some e \<Rightarrow> let permission = (owner = ent_id e)
          in if \<not> permission then is_in_ids db (admin_ids s) (ent_id e) default_id else permission)"

definition is_admin_two ::
    "'p database \<Rightarrow> db_id \<Rightarrow> security \<Rightarrow> 'p entity option \<Rightarrow> 'p entity option \<Rightarrow> bool" where
  "is_admin_two db owner s entity other =
     (case (entity, other) of
        (Some e, Some o') \<Rightarrow>
          let permission = (owner = ent_id e \<or> owner = ent_id o')
          in if \<not> permission
             then is_in_ids db (admin_ids s) (ent_id e) default_id
               \<or> is_in_ids db (admin_ids s) (ent_id o') default_id
             else permission
      | _ \<Rightarrow> False)"

definition accept_if :: "bool \<Rightarrow> result" where
  "accept_if b = (if b then RESULT_ACCEPT else RESULT_DENY)"

definition has_permission_explicit_one ::
    "'p database \<Rightarrow> db_id \<Rightarrow> security \<Rightarrow> 'p entity option \<Rightarrow> security_flag \<Rightarrow> basic_handling \<Rightarrow> bool"
where
  "has_permission_explicit_one db owner s entity f b =
     (case entity of None \<Rightarrow> False
      | Some e \<Rightarrow>
        let permission = (owner = ent_id e);
            permission = (if \<not> permission then is_in_ids db (admin_ids s) (ent_id e) default_id
                          else permission)
        in if \<not> permission \<and> list_flag_ok s f b
           then is_in_ids db (list_ids s) (ent_id e) default_id else permission)"

definition has_permission_explicit_two ::
    "'p database \<Rightarrow> db_id \<Rightarrow> security \<Rightarrow> 'p entity option \<Rightarrow> 'p entity option
      \<Rightarrow> security_flag \<Rightarrow> basic_handling \<Rightarrow> bool" where
  "has_permission_explicit_two db owner s entity other f b =
     (case (entity, other) of
        (Some e, Some o') \<Rightarrow>
          let permission = (owner = ent_id e \<or> owner = ent_id o');
              permission = (if \<not> permission
                then is_in_ids db (admin_ids s) (ent_id e) default_id
                  \<or> is_in_ids db (admin_ids s) (ent_id o') default_id
                else permission)
          in if \<not> permission \<and> list_flag_ok s f b
             then is_in_ids db (list_ids s) (ent_id e) (ent_id o') else permission
      | _ \<Rightarrow> False)"

subsection \<open>Deciding for a requester and a program\<close>

text \<open>
  The four helpers share their structure: running as the requester takes requester and
  program together (the requester alone for a native program), else the program alone (the
  requester for a native program). They differ in the owner and access list they consult.
\<close>

definition has_permission_entity ::
    "'p database \<Rightarrow> security_flag \<Rightarrow> basic_handling \<Rightarrow> bool \<Rightarrow> 'p entity option
      \<Rightarrow> 'p entity option \<Rightarrow> db_id \<Rightarrow> 'p entity option \<Rightarrow> result option" where
  "has_permission_entity db f b running_as_requester target req program_id prog =
     (case target of None \<Rightarrow> None
      | Some t \<Rightarrow>
        if running_as_requester then
          (if req \<noteq> None then
             if is_default program_id
             then Some (accept_if (has_permission_one db (ent_owner t) (ent_security t) req f b))
             else if prog \<noteq> None
             then Some (accept_if (has_permission_two db (ent_owner t) (ent_security t) req prog f b))
             else None
           else None)
        else if is_default program_id
        then Some (accept_if (has_permission_one db (ent_owner t) (ent_security t) req f b))
        else if prog \<noteq> None
        then Some (accept_if (has_permission_one db (ent_owner t) (ent_security t) prog f b))
        else None)"

definition has_permission_app ::
    "(string \<Rightarrow> string) \<Rightarrow> 'p database \<Rightarrow> security_flag \<Rightarrow> bool \<Rightarrow> 'p entity option \<Rightarrow> string
      \<Rightarrow> 'p entity option \<Rightarrow> db_id \<Rightarrow> 'p entity option \<Rightarrow> result option" where
  "has_permission_app trim db f running_as_requester target app req program_id prog =
     (case target of None \<Rightarrow> None
      | Some t \<Rightarrow>
        if \<not> is_property_entity (ent_type t) then None
        else let (owner, sec) = get_application_security_settings trim t app in
          if is_default owner then None
          else if running_as_requester then
            (if req \<noteq> None then
               if is_default program_id
               then Some (accept_if (has_permission_one db owner sec req f BHANDLING_EXCLUDE_BASIC))
               else if prog \<noteq> None
               then Some (accept_if
                 (has_permission_two db owner sec req prog f BHANDLING_EXCLUDE_BASIC))
               else None
             else None)
          else if is_default program_id
          then Some (accept_if (has_permission_one db owner sec req f BHANDLING_EXCLUDE_BASIC))
          else if prog \<noteq> None
          then Some (accept_if (has_permission_one db owner sec prog f BHANDLING_EXCLUDE_BASIC))
          else None)"

text \<open>
  \<open>is_admin\<close> on an entity: when not running as the requester it passes the identifier of the
  target itself where the owner is expected.
\<close>

definition is_admin_entity ::
    "'p database \<Rightarrow> bool \<Rightarrow> 'p entity option \<Rightarrow> 'p entity option \<Rightarrow> db_id \<Rightarrow> 'p entity option
      \<Rightarrow> result option" where
  "is_admin_entity db running_as_requester target req program_id prog =
     (case target of None \<Rightarrow> None
      | Some t \<Rightarrow>
        if running_as_requester then
          (if req \<noteq> None then
             if is_default program_id
             then Some (accept_if (is_admin_one db (ent_owner t) (ent_security t) req))
             else if prog \<noteq> None
             then Some (accept_if (is_admin_two db (ent_owner t) (ent_security t) req prog))
             else None
           else None)
        else if is_default program_id
        then Some (accept_if (is_admin_one db (ent_id t) (ent_security t) req))
        else if prog \<noteq> None
        then Some (accept_if (is_admin_one db (ent_id t) (ent_security t) prog))
        else None)"

definition is_admin_app ::
    "(string \<Rightarrow> string) \<Rightarrow> 'p database \<Rightarrow> bool \<Rightarrow> 'p entity option \<Rightarrow> string \<Rightarrow> 'p entity option
      \<Rightarrow> db_id \<Rightarrow> 'p entity option \<Rightarrow> result option" where
  "is_admin_app trim db running_as_requester target app req program_id prog =
     (case target of None \<Rightarrow> None
      | Some t \<Rightarrow>
        if \<not> is_property_entity (ent_type t) then None
        else let (owner, sec) = get_application_security_settings trim t app in
          if is_default owner then None
          else if running_as_requester then
            (if req \<noteq> None then
               if is_default program_id then Some (accept_if (is_admin_one db owner sec req))
               else if prog \<noteq> None then Some (accept_if (is_admin_two db owner sec req prog))
               else None
             else None)
          else if is_default program_id then Some (accept_if (is_admin_one db owner sec req))
          else if prog \<noteq> None then Some (accept_if (is_admin_one db owner sec prog))
          else None)"

subsection \<open>Locality\<close>

text \<open>The loop that climbs from the container of the source through the regions above it.\<close>

partial_function (option) region_climb ::
    "'p database \<Rightarrow> db_id \<Rightarrow> 'p entity option \<Rightarrow> bool option" where
  "region_climb db target_id region_ref =
     (case region_ref of None \<Rightarrow> Some False
      | Some e \<Rightarrow>
        if ent_id e = target_id then Some True
        else if is_container (ent_type e) then region_climb db target_id (db (ent_contained_by e))
        else Some False)"

text \<open>
  The target as a container: itself, or, for an action, what the action is attached to,
  unless that is a player, a guest or a puppet other than the source.
\<close>

definition as_container :: "'p entity \<Rightarrow> 'p entity option" where
  "as_container e = (if is_container (ent_type e) then Some e else None)"

definition action_target :: "'p database \<Rightarrow> 'p entity \<Rightarrow> 'p entity \<Rightarrow> 'p entity option" where
  "action_target db source target =
     (if is_action (ent_type target) then
        (case db (ent_action_contained_by target) of None \<Rightarrow> None
         | Some holder \<Rightarrow>
           let action_on_player = ent_type holder \<in>
                 {ENTITYTYPE_player, ENTITYTYPE_guest, ENTITYTYPE_puppet}
           in if \<not> action_on_player \<or> ent_id source = ent_id holder
              then as_container holder else None)
      else None)"

definition is_entity_local ::
    "'p database \<Rightarrow> 'p entity option \<Rightarrow> 'p entity option \<Rightarrow> bool \<Rightarrow> bool option" where
  "is_entity_local db source target include_source_inventory =
     (case (source, target) of
        (Some s, Some t) \<Rightarrow>
          (case (as_container s,
                 case as_container t of Some c \<Rightarrow> Some c | None \<Rightarrow> action_target db s t) of
             (Some sc, Some tc) \<Rightarrow>
               if ent_id tc = ent_id sc then Some True
               else if include_source_inventory \<and> ent_contained_by tc = ent_id sc then Some True
               else if ent_contained_by sc = ent_contained_by tc then Some True
               else if ent_contained_by sc = ent_id tc then Some True
               else region_climb db (ent_id tc) (db (ent_contained_by sc))
           | _ \<Rightarrow> Some False)
      | _ \<Rightarrow> Some False)"

definition is_entity_local_via_inventory ::
    "'p database \<Rightarrow> 'p entity option \<Rightarrow> 'p entity option \<Rightarrow> bool \<Rightarrow> bool option" where
  "is_entity_local_via_inventory db source target include_source_inventory =
     (case (source, target) of
        (Some s, Some t) \<Rightarrow>
          let result =
            (case (as_container s, as_container t) of
               (Some sc, Some tc) \<Rightarrow>
                 (case db (ent_contained_by tc) of None \<Rightarrow> False
                  | Some holder \<Rightarrow>
                    (case as_container holder of None \<Rightarrow> False
                     | Some hc \<Rightarrow> ent_contained_by hc = ent_contained_by sc))
             | _ \<Rightarrow> False)
          in if \<not> result then is_entity_local db source target include_source_inventory
             else Some result
      | _ \<Rightarrow> Some False)"

subsection \<open>Membership and permissions, unfolded\<close>

text \<open>A declarative reading of the loop of \<open>is_in_list\<close> for one identifier.\<close>

definition group_has :: "'p database \<Rightarrow> db_id \<Rightarrow> db_id \<Rightarrow> bool" where
  "group_has db x i \<longleftrightarrow> (case db x of None \<Rightarrow> False
     | Some g \<Rightarrow> ent_type g = ENTITYTYPE_group \<and> \<not> ent_deleted g \<and> is_in_group g i)"

definition listed :: "'p database \<Rightarrow> db_id list \<Rightarrow> db_id \<Rightarrow> bool" where
  "listed db ids i \<longleftrightarrow> i \<in> set ids \<or> (\<exists>x \<in> set ids. group_has db x i)"

lemma listed_simps:
  "listed db [] i \<longleftrightarrow> False"
  "listed db (x # xs) i \<longleftrightarrow> x = i \<or> group_has db x i \<or> listed db xs i"
  by (auto simp: listed_def)

lemma is_in_ids_Cons:
  "is_in_ids db (x # xs) i other \<longleftrightarrow>
     x = i \<or> (\<not> is_default other \<and> x = other) \<or> group_has db x i
     \<or> (\<not> is_default other \<and> group_has db x other) \<or> is_in_ids db xs i other"
  by (cases "db x") (auto simp: group_has_def)

lemma is_in_ids_listed:
  "is_in_ids db ids i other \<longleftrightarrow> listed db ids i \<or> (\<not> is_default other \<and> listed db ids other)"
proof (induction ids)
  case Nil
  then show ?case by (simp add: listed_simps)
next
  case (Cons x xs)
  then show ?case unfolding is_in_ids_Cons listed_simps by blast
qed

lemma is_in_ids_one [simp]: "is_in_ids db ids i default_id \<longleftrightarrow> listed db ids i"
  by (simp add: is_in_ids_listed)

lemma has_permission_one_iff:
  "has_permission_one db owner s (Some e) f b \<longleftrightarrow>
     owner = ent_id e \<or> other_flag_ok s f b \<or> listed db (admin_ids s) (ent_id e)
     \<or> list_flag_ok s f b \<and> listed db (list_ids s) (ent_id e)"
  unfolding has_permission_one_def Let_def option.case is_in_ids_one by argo

lemma has_permission_explicit_one_iff:
  "has_permission_explicit_one db owner s (Some e) f b \<longleftrightarrow>
     owner = ent_id e \<or> listed db (admin_ids s) (ent_id e)
     \<or> list_flag_ok s f b \<and> listed db (list_ids s) (ent_id e)"
  unfolding has_permission_explicit_one_def Let_def option.case is_in_ids_one by argo

lemma is_admin_one_iff:
  "is_admin_one db owner s (Some e) \<longleftrightarrow> owner = ent_id e \<or> listed db (admin_ids s) (ent_id e)"
  unfolding is_admin_one_def Let_def option.case is_in_ids_one by argo

lemma no_entity_no_permission [simp]:
  "\<not> has_permission_one db owner s None f b" "\<not> is_admin_one db owner s None"
  by (simp_all add: has_permission_one_def is_admin_one_def)

subsection \<open>When the climb ends\<close>

inductive climb_ends :: "'p database \<Rightarrow> db_id \<Rightarrow> 'p entity option \<Rightarrow> bool \<Rightarrow> bool" for db t where
  no_region: "climb_ends db t None False"
| found: "ent_id e = t \<Longrightarrow> climb_ends db t (Some e) True"
| at_top: "ent_id e \<noteq> t \<Longrightarrow> \<not> is_container (ent_type e) \<Longrightarrow> climb_ends db t (Some e) False"
| up: "ent_id e \<noteq> t \<Longrightarrow> is_container (ent_type e)
     \<Longrightarrow> climb_ends db t (db (ent_contained_by e)) b \<Longrightarrow> climb_ends db t (Some e) b"

inductive_cases climb_ends_SomeE: "climb_ends db t (Some e) b"
inductive_simps climb_ends_None: "climb_ends db t None b"

lemma region_climb_complete: "climb_ends db t r b \<Longrightarrow> region_climb db t r = Some b"
  by (induction rule: climb_ends.induct) (simp_all add: region_climb.simps)

lemma region_climb_sound:
  fixes db :: "'p database"
  assumes "region_climb db t r = Some b"
  shows "climb_ends db t r b"
proof (rule region_climb.raw_induct [OF _ assms], goal_cases)
  case (1 climb db t r b)
  note IH = 1(1) and eq = 1(2)
  show ?case
  proof (cases r)
    case None
    with eq show ?thesis by (auto intro: climb_ends.intros)
  next
    case (Some e)
    with eq IH [of db t "db (ent_contained_by e)" b] show ?thesis
      by (auto intro: climb_ends.intros split: if_splits)
  qed
qed

lemma region_climb_iff: "region_climb db t r = Some b \<longleftrightarrow> climb_ends db t r b"
  using region_climb_complete region_climb_sound by blast


lemma region_climb_returns: "(\<exists>b. region_climb db t r = Some b) \<longleftrightarrow> (\<exists>b. climb_ends db t r b)"
  by (simp add: region_climb_iff)

lemma climb_ends_ranked:
  fixes depth :: "'p entity \<Rightarrow> nat"
  assumes down: "\<And>e e'. is_container (ent_type e) \<Longrightarrow> db (ent_contained_by e) = Some e'
      \<Longrightarrow> depth e' < depth e"
  shows "\<exists>b. climb_ends db t r b"
proof (cases r)
  case None
  then show ?thesis by (auto intro: climb_ends.intros)
next
  case (Some e)
  have "\<exists>b. climb_ends db t (Some e) b"
  proof (induction "depth e" arbitrary: e rule: less_induct)
    case less
    consider "ent_id e = t" | "ent_id e \<noteq> t" "\<not> is_container (ent_type e)"
      | "ent_id e \<noteq> t" "is_container (ent_type e)" by blast
    then show ?case
    proof cases
      case 3
      show ?thesis
      proof (cases "db (ent_contained_by e)")
        case None
        with 3 show ?thesis by (metis climb_ends.no_region climb_ends.up)
      next
        case (Some e')
        with less down 3 obtain b where "climb_ends db t (db (ent_contained_by e)) b" by metis
        with 3 show ?thesis by (blast intro: climb_ends.up)
      qed
    qed (auto intro: climb_ends.intros)
  qed
  with Some show ?thesis by simp
qed

subsection \<open>Taking requester and program together\<close>

lemma has_permission_two_iff:
  assumes "ent_id p \<noteq> default_id"
  shows "has_permission_two db owner s (Some e) (Some p) f b \<longleftrightarrow>
    has_permission_one db owner s (Some e) f b \<or> has_permission_one db owner s (Some p) f b"
proof -
  have o: "is_in_ids db ids i (ent_id p) \<longleftrightarrow> listed db ids i \<or> listed db ids (ent_id p)" for ids i
    using assms by (simp add: is_in_ids_listed)
  show ?thesis
    unfolding has_permission_one_iff has_permission_two_def Let_def prod.case option.case
      is_in_ids_one o
    by argo
qed

lemma is_admin_two_iff:
  "is_admin_two db owner s (Some e) (Some p) \<longleftrightarrow>
     is_admin_one db owner s (Some e) \<or> is_admin_one db owner s (Some p)"
  unfolding is_admin_one_iff is_admin_two_def Let_def prod.case option.case is_in_ids_one by argo

lemma accept_if_eq [simp]:
  "accept_if b = RESULT_ACCEPT \<longleftrightarrow> b" "accept_if b = RESULT_DENY \<longleftrightarrow> \<not> b"
  "accept_if b \<noteq> RESULT_SKIP" "accept_if b \<noteq> RESULT_ACCEPT_ALWAYS" "accept_if b \<noteq> RESULT_DENY_ALWAYS"
  by (simp_all add: accept_if_def)

subsection \<open>Properties\<close>

text \<open>
  Running as the requester, a program has a permission on an entity exactly when the
  requester or the program has it alone: by owning it, by a flag for everyone, as a listed
  administrator, or as a list member when the list has the flag, directly or by a group.
\<close>

theorem run_as_requester_merges:
  assumes "ent_id p \<noteq> default_id" and "program_id \<noteq> default_id"
  shows "has_permission_entity db f b True (Some t) (Some r) program_id (Some p) =
    Some (accept_if (\<exists>e \<in> {r, p}. ent_owner t = ent_id e \<or> other_flag_ok (ent_security t) f b
      \<or> listed db (admin_ids (ent_security t)) (ent_id e)
      \<or> list_flag_ok (ent_security t) f b \<and> listed db (list_ids (ent_security t)) (ent_id e)))"
  using assms by (simp add: has_permission_entity_def has_permission_two_iff has_permission_one_iff)

definition plain_entity :: "db_id \<Rightarrow> entity_type \<Rightarrow> db_id \<Rightarrow> db_id \<Rightarrow> unit entity" where
  "plain_entity i ty owner place = \<lparr>ent_id = i, ent_type = ty, ent_owner = owner,
     ent_security = security_new EntitySecurity, ent_deleted = False, ent_contained_by = place,
     ent_action_contained_by = default_id,
     ent_action_lock = \<lparr>lock_kind = LOCK_INVALID, lock_id = None, lock_path = None,
       lock_path_data = None, operation_not = False\<rparr>,
     ent_group_ids = [], ent_disabled_ids = [], ent_applications = (\<lambda>_. None),
     ent_property = (\<lambda>_. None)\<rparr>"

lemma plain_entity_sel [simp]:
  "ent_id (plain_entity i ty ow pl) = i" "ent_type (plain_entity i ty ow pl) = ty"
  "ent_owner (plain_entity i ty ow pl) = ow" "ent_contained_by (plain_entity i ty ow pl) = pl"
  "ent_security (plain_entity i ty ow pl) = security_new EntitySecurity"
  "ent_applications (plain_entity i ty ow pl) = (\<lambda>_. None)"
  "ent_deleted (plain_entity i ty ow pl) = False"
  by (simp_all add: plain_entity_def)

lemma security_new_sel [simp]:
  "admin_ids (security_new c) = []" "list_ids (security_new c) = []"
  by (simp_all add: security_new_def)

theorem run_as_requester_merges_witness:
  "has_permission_entity (\<lambda>_. None) SECURITYFLAG_write BHANDLING_EXCLUDE_BASIC True
     (Some (plain_entity (DbId 2 1) ENTITYTYPE_room (DbId 2 5) (DbId 2 9)))
     (Some (plain_entity (DbId 2 6) ENTITYTYPE_player (DbId 2 6) (DbId 2 1))) (DbId 2 5)
     (Some (plain_entity (DbId 2 5) ENTITYTYPE_program (DbId 2 5) (DbId 2 1)))
   = Some RESULT_ACCEPT"
  by (subst run_as_requester_merges) (simp_all add: default_id_def)

text \<open>
  A native operation that does not run as its requester compares the requester with the
  target itself and not with the owner of the target: an owner who is no listed
  administrator is denied, and would be accepted when running as requester.
\<close>

theorem owner_denied_admin:
  assumes "ent_owner t = ent_id r" and "ent_id t \<noteq> ent_id r"
    and "\<not> listed db (admin_ids (ent_security t)) (ent_id r)"
  shows "is_admin_entity db False (Some t) (Some r) default_id prog = Some RESULT_DENY
    \<and> is_admin_entity db True (Some t) (Some r) default_id prog = Some RESULT_ACCEPT"
  using assms by (simp add: is_admin_entity_def is_admin_one_iff)

theorem owner_denied_admin_witness:
  "is_admin_entity (\<lambda>_. None) False
     (Some (plain_entity (DbId 2 1) ENTITYTYPE_room (DbId 2 6) (DbId 2 9)))
     (Some (plain_entity (DbId 2 6) ENTITYTYPE_player (DbId 2 6) (DbId 2 1))) default_id None
   = Some RESULT_DENY"
  using owner_denied_admin [of "plain_entity (DbId 2 1) ENTITYTYPE_room (DbId 2 6) (DbId 2 9)"
      "plain_entity (DbId 2 6) ENTITYTYPE_player (DbId 2 6) (DbId 2 1)" "\<lambda>_. None" None]
  by (simp add: listed_def)

text \<open>
  The search for a region above a room returns whenever containment goes down a finite
  depth, whatever the target; and with a region that contains itself and is not the target
  it never returns.
\<close>

theorem locality_walk_terminates:
  fixes depth :: "'p entity \<Rightarrow> nat"
  assumes "\<And>e e'. is_container (ent_type e) \<Longrightarrow> db (ent_contained_by e) = Some e'
      \<Longrightarrow> depth e' < depth e"
  shows "\<exists>b. is_entity_local db (Some s) (Some t) include_source_inventory = Some b"
proof -
  have "\<exists>b. region_climb db i r = Some b" for i r
    unfolding region_climb_returns by (rule climb_ends_ranked [OF assms])
  then show ?thesis
    by (auto simp: is_entity_local_def split: option.split)
qed

theorem locality_walk_terminates_witness:
  "\<exists>b. is_entity_local
     (\<lambda>i. if i = DbId 2 9 then Some (plain_entity (DbId 2 9) ENTITYTYPE_region (DbId 2 6) default_id)
          else None)
     (Some (plain_entity (DbId 2 6) ENTITYTYPE_player (DbId 2 6) (DbId 2 9)))
     (Some (plain_entity (DbId 2 3) ENTITYTYPE_room (DbId 2 6) default_id)) True = Some b"
  by (rule locality_walk_terminates [where depth =
      "\<lambda>e. if ent_contained_by e = DbId 2 9 then 1 else 0"])
    (auto simp: default_id_def split: if_splits)

text \<open>
  A climb that meets a region contained in itself, and not the one searched for, does not
  return: the locality check of a room below it runs forever.
\<close>

theorem cyclic_region_never_returns:
  assumes "is_container (ent_type e)" and "db (ent_contained_by e) = Some e"
    and "ent_id e \<noteq> t"
  shows "region_climb db t (Some e) = None"
proof -
  have "\<not> climb_ends db t r b" if "r = Some e" for r b
  proof
    assume "climb_ends db t r b"
    then show False using that assms by (induction rule: climb_ends.induct) auto
  qed
  then show ?thesis by (metis option.exhaust region_climb_iff)
qed

theorem cyclic_region_never_returns_witness:
  "region_climb (\<lambda>i. Some (plain_entity (DbId 2 9) ENTITYTYPE_region (DbId 2 6) (DbId 2 9)))
     (DbId 2 3) (Some (plain_entity (DbId 2 9) ENTITYTYPE_region (DbId 2 6) (DbId 2 9))) = None"
  by (rule cyclic_region_never_returns) (simp_all add: entity_class_simps)

end
