(* ===== verification/Checkers.thy ===== *)
theory Checkers
  imports CheckHelp
begin

text \<open>
  The checkers of \<^verbatim>\<open>src/src/security/security_*Checker.cpp\<close> and
  \<open>dbtype::Lock::evaluate\<close>. A checker class overrides some of the six overloads of
  \<open>security_check\<close>; the base class answers the rest with \<open>RESULT_SKIP\<close>. A request is
  the overload with its arguments. Every check is a \<open>result option\<close>: \<open>None\<close> when the walk
  through the regions above a room does not return.
\<close>

datatype 'p request =
    ReqPlain | ReqType entity_type | ReqTarget "'p entity option"
  | ReqApp "'p entity option" string | ReqField "'p entity option" entity_field
  | ReqPair "'p entity option" "'p entity option"

text \<open>A helper that could not decide leaves the result as it was.\<close>

definition decided_or :: "result \<Rightarrow> result option \<Rightarrow> result" where
  "decided_or r d = (case d of None \<Rightarrow> r | Some r' \<Rightarrow> r')"

definition ref_id :: "'p entity option \<Rightarrow> db_id" where
  "ref_id r = (case r of None \<Rightarrow> default_id | Some e \<Rightarrow> ent_id e)"

subsection \<open>Checkers of the context alone\<close>

definition accept_all_checker :: "'p request \<Rightarrow> result" where
  "accept_all_checker req = RESULT_ACCEPT"

definition admin_check :: "sec_context \<Rightarrow> result" where
  "admin_check c = (if admin c then RESULT_ACCEPT_ALWAYS else RESULT_SKIP)"

definition cross_site_admin_check :: "sec_context \<Rightarrow> 'p entity option \<Rightarrow> result" where
  "cross_site_admin_check c r =
     (if admin_check c = RESULT_SKIP then RESULT_SKIP
      else if get_site_id (requester c) = get_site_id (ref_id r) then RESULT_ACCEPT_ALWAYS
      else RESULT_SKIP)"

fun admin_security_checker :: "sec_context \<Rightarrow> 'p request \<Rightarrow> result" where
  "admin_security_checker c ReqPlain = admin_check c"
| "admin_security_checker c (ReqType _) = admin_check c"
| "admin_security_checker c (ReqTarget t) = cross_site_admin_check c t"
| "admin_security_checker c (ReqApp t _) = cross_site_admin_check c t"
| "admin_security_checker c (ReqField t _) = cross_site_admin_check c t"
| "admin_security_checker c (ReqPair t s) =
     (if cross_site_admin_check c t = RESULT_SKIP then RESULT_SKIP
      else cross_site_admin_check c s)"

fun character_online_checker :: "sec_context \<Rightarrow> 'p request \<Rightarrow> result" where
  "character_online_checker c ReqPlain = accept_if (has_capability c CAPABILITY_CONNECTION_CHECK)"
| "character_online_checker c (ReqTarget _) =
     accept_if (has_capability c CAPABILITY_CONNECTION_CHECK)"
| "character_online_checker c _ = RESULT_SKIP"

fun create_entity_checker :: "sec_context \<Rightarrow> 'p request \<Rightarrow> result" where
  "create_entity_checker c (ReqType t) =
     (if t = ENTITYTYPE_player \<or> t = ENTITYTYPE_guest
      then accept_if (has_capability c CAPABILITY_CREATE_PLAYER)
      else if t = ENTITYTYPE_capability \<or> t = ENTITYTYPE_program then accept_if (admin c)
      else accept_if (has_capability c CAPABILITY_BUILDER))"
| "create_entity_checker c _ = RESULT_SKIP"

definition GLOBAL_SITE_ID :: u32 where
  "GLOBAL_SITE_ID = 1"

definition check_site :: "db_id \<Rightarrow> db_id \<Rightarrow> result" where
  "check_site r t =
     (if get_site_id r = GLOBAL_SITE_ID
         \<or> get_site_id t = get_site_id r \<or> get_site_id t = GLOBAL_SITE_ID
      then RESULT_ACCEPT else RESULT_DENY_ALWAYS)"

fun cross_site_checker :: "sec_context \<Rightarrow> 'p request \<Rightarrow> result" where
  "cross_site_checker c (ReqTarget t) = check_site (requester c) (ref_id t)"
| "cross_site_checker c (ReqApp t _) = check_site (requester c) (ref_id t)"
| "cross_site_checker c (ReqField t _) = check_site (requester c) (ref_id t)"
| "cross_site_checker c (ReqPair t s) =
     (if check_site (requester c) (ref_id t) = RESULT_ACCEPT
         \<and> check_site (requester c) (ref_id s) = RESULT_ACCEPT
      then RESULT_ACCEPT else RESULT_DENY_ALWAYS)"
| "cross_site_checker c _ = RESULT_SKIP"

fun find_character_by_name_checker :: "sec_context \<Rightarrow> 'p request \<Rightarrow> result" where
  "find_character_by_name_checker c ReqPlain =
     accept_if (has_capability c CAPABILITY_CHARACTER_FIND_BY_NAME_AFAR)"
| "find_character_by_name_checker c _ = RESULT_SKIP"

fun send_text_entity_checker :: "sec_context \<Rightarrow> 'p request \<Rightarrow> result" where
  "send_text_entity_checker c (ReqTarget _) =
     accept_if (has_capability c CAPABILITY_SEND_TEXT_ENTITY)"
| "send_text_entity_checker c _ = RESULT_SKIP"

fun send_text_room_unrestricted_checker :: "sec_context \<Rightarrow> 'p request \<Rightarrow> result" where
  "send_text_room_unrestricted_checker c (ReqTarget _) =
     accept_if (has_capability c CAPABILITY_SEND_TEXT_ROOM_UNRESTRICTED)"
| "send_text_room_unrestricted_checker c _ = RESULT_SKIP"

subsection \<open>Checkers of permissions on the target\<close>

fun delete_entity_checker :: "'p database \<Rightarrow> sec_context \<Rightarrow> 'p request \<Rightarrow> result" where
  "delete_entity_checker db c (ReqTarget t) =
     (if \<not> has_capability c CAPABILITY_BUILDER then RESULT_DENY
      else decided_or RESULT_SKIP (is_admin_entity db (run_as_requester c) t
        (db (requester c)) (program c) (db (program c))))"
| "delete_entity_checker db c _ = RESULT_SKIP"

fun get_application_property_checker ::
    "(string \<Rightarrow> string) \<Rightarrow> 'p database \<Rightarrow> sec_context \<Rightarrow> 'p request \<Rightarrow> result" where
  "get_application_property_checker trim db c (ReqApp t app) =
     decided_or RESULT_SKIP (has_permission_app trim db SECURITYFLAG_read (run_as_requester c) t app
       (db (requester c)) (program c) (db (program c)))"
| "get_application_property_checker trim db c _ = RESULT_SKIP"

fun get_set_application_security_checker ::
    "(string \<Rightarrow> string) \<Rightarrow> 'p database \<Rightarrow> sec_context \<Rightarrow> 'p request \<Rightarrow> result" where
  "get_set_application_security_checker trim db c (ReqApp t app) =
     decided_or RESULT_SKIP (is_admin_app trim db (run_as_requester c) t app
       (db (requester c)) (program c) (db (program c)))"
| "get_set_application_security_checker trim db c _ = RESULT_SKIP"

fun set_application_property_checker ::
    "(string \<Rightarrow> string) \<Rightarrow> 'p database \<Rightarrow> sec_context \<Rightarrow> 'p request \<Rightarrow> result" where
  "set_application_property_checker trim db c (ReqApp t app) =
     decided_or RESULT_SKIP (has_permission_app trim db SECURITYFLAG_write (run_as_requester c) t app
       (db (requester c)) (program c) (db (program c)))"
| "set_application_property_checker trim db c _ = RESULT_SKIP"

fun set_entity_field_checker :: "'p database \<Rightarrow> sec_context \<Rightarrow> 'p request \<Rightarrow> result" where
  "set_entity_field_checker db c (ReqField t f) =
     (if f = ENTITYFIELD_owner \<or> f = ENTITYFIELD_security
      then decided_or RESULT_SKIP (is_admin_entity db (run_as_requester c) t
        (db (requester c)) (program c) (db (program c)))
      else decided_or RESULT_SKIP (has_permission_entity db SECURITYFLAG_write
        BHANDLING_EXCLUDE_BASIC (run_as_requester c) t
        (db (requester c)) (program c) (db (program c))))"
| "set_entity_field_checker db c _ = RESULT_SKIP"

fun send_text_room_checker :: "'p database \<Rightarrow> sec_context \<Rightarrow> 'p request \<Rightarrow> result" where
  "send_text_room_checker db c (ReqTarget t) =
     (case db (requester c) of None \<Rightarrow> RESULT_SKIP
      | Some e \<Rightarrow>
        if \<not> is_container (ent_type e) then RESULT_SKIP
        else if ent_contained_by e = ref_id t then RESULT_ACCEPT
        else accept_if (has_capability c CAPABILITY_SEND_TEXT_ROOM_UNRESTRICTED))"
| "send_text_room_checker db c _ = RESULT_SKIP"

subsection \<open>Reading a field\<close>

definition name_security_check ::
    "'p database \<Rightarrow> sec_context \<Rightarrow> 'p entity option \<Rightarrow> result option" where
  "name_security_check db c target =
     (case target of None \<Rightarrow> Some RESULT_SKIP
      | Some t \<Rightarrow>
        if has_capability c CAPABILITY_ANY_ID_TO_NAME then Some RESULT_ACCEPT
        else if run_as_requester c \<and> ent_owner t = requester c then Some RESULT_ACCEPT
        else (case db (requester c) of None \<Rightarrow> Some RESULT_SKIP
          | Some r \<Rightarrow>
            do { near \<leftarrow> is_entity_local_via_inventory db (Some r) target True;
                 if near then Some RESULT_ACCEPT
                 else Some (decided_or RESULT_DENY (has_permission_entity db SECURITYFLAG_read
                   BHANDLING_EXCLUDE_BASIC (run_as_requester c) target (Some r)
                   (program c) (db (program c)))) }))"

definition locality_security_check ::
    "'p database \<Rightarrow> sec_context \<Rightarrow> 'p entity option \<Rightarrow> result option" where
  "locality_security_check db c target =
     (case db (requester c) of None \<Rightarrow> Some RESULT_SKIP
      | Some r \<Rightarrow>
        do { near \<leftarrow> is_entity_local_via_inventory db (Some r) target (run_as_requester c);
             Some (decided_or RESULT_SKIP (has_permission_entity db SECURITYFLAG_read
               (if near then BHANDLING_INCLUDE_BASIC
                else BHANDLING_INCLUDE_BASIC_BUT_IGNORE_OTHER)
               (run_as_requester c) target (Some r) (program c) (db (program c)))) })"

definition get_entity_field_check ::
    "'p database \<Rightarrow> sec_context \<Rightarrow> 'p entity option \<Rightarrow> entity_field \<Rightarrow> result option" where
  "get_entity_field_check db c target f =
     (if f = ENTITYFIELD_id then Some RESULT_ACCEPT
      else if f \<in> {ENTITYFIELD_name, ENTITYFIELD_player_display_name,
                  ENTITYFIELD_puppet_display_name}
      then name_security_check db c target
      else if f \<in> {ENTITYFIELD_type, ENTITYFIELD_owner, ENTITYFIELD_flags,
                  ENTITYFIELD_deleted_flag, ENTITYFIELD_contained_by,
                  ENTITYFIELD_action_contained_by, ENTITYFIELD_action_commands}
      then locality_security_check db c target
      else Some (decided_or RESULT_SKIP (has_permission_entity db SECURITYFLAG_read
        BHANDLING_EXCLUDE_BASIC (run_as_requester c) target
        (db (requester c)) (program c) (db (program c)))))"

definition get_entity_target_check ::
    "'p database \<Rightarrow> operation \<Rightarrow> sec_context \<Rightarrow> 'p entity option \<Rightarrow> result option" where
  "get_entity_target_check db op c target =
     (if op = OPERATION_ENTITY_TOSTRING then get_entity_field_check db c target ENTITYFIELD_note
      else if op = OPERATION_GET_CONTAINS then locality_security_check db c target
      else case target of
        Some t \<Rightarrow>
          if op = OPERATION_GET_ACTIONS then
            (if ent_type t = ENTITYTYPE_player \<or> ent_type t = ENTITYTYPE_guest
             then get_entity_field_check db c target ENTITYFIELD_references
             else locality_security_check db c target)
          else Some RESULT_SKIP
      | None \<Rightarrow> Some RESULT_SKIP)"

fun get_entity_field_checker ::
    "'p database \<Rightarrow> operation \<Rightarrow> sec_context \<Rightarrow> 'p request \<Rightarrow> result option" where
  "get_entity_field_checker db op c (ReqTarget t) = get_entity_target_check db op c t"
| "get_entity_field_checker db op c (ReqField t f) = get_entity_field_check db c t f"
| "get_entity_field_checker db op c _ = Some RESULT_SKIP"

subsection \<open>Locks and the use of an action\<close>

text \<open>
  \<open>Lock::evaluate\<close>, its overload without and with a group. Two property values are equal
  when they are the same value of the parameter \<open>'p\<close>.
\<close>

definition lock_valid :: "'p lock \<Rightarrow> bool" where
  "lock_valid l \<longleftrightarrow> lock_kind l \<noteq> LOCK_INVALID"

definition lock_get_id :: "'p lock \<Rightarrow> db_id" where
  "lock_get_id l =
     (case lock_id l of
        Some i \<Rightarrow> if lock_kind l = LOCK_BY_GROUP \<or> lock_kind l = LOCK_BY_ID then i else default_id
      | None \<Rightarrow> default_id)"

definition lock_evaluate :: "'p lock \<Rightarrow> 'p entity option \<Rightarrow> bool" where
  "lock_evaluate l entity =
     (if \<not> lock_valid l then True
      else case entity of None \<Rightarrow> False
      | Some e \<Rightarrow>
        if lock_kind l = LOCK_BY_ID \<and> lock_id l \<noteq> None then
          (let success = (Some (ent_id e) = lock_id l)
           in if operation_not l then \<not> success else success)
        else if lock_kind l = LOCK_BY_PROPERTY \<and> lock_path l \<noteq> None \<and> lock_path_data l \<noteq> None then
          (if is_property_entity (ent_type e) then
             let success = (case ent_property e (the (lock_path l)) of
                   None \<Rightarrow> False | Some d \<Rightarrow> Some d = lock_path_data l)
             in if operation_not l then \<not> success else success
           else False)
        else False)"

definition lock_evaluate_group :: "'p lock \<Rightarrow> 'p entity option \<Rightarrow> 'p entity option \<Rightarrow> bool" where
  "lock_evaluate_group l entity grp =
     (if \<not> lock_valid l then True
      else case (entity, grp) of
        (Some e, Some g) \<Rightarrow>
          if lock_kind l = LOCK_BY_GROUP then
            (let success = is_in_group g (ent_id e)
             in if operation_not l then \<not> success else success)
          else False
      | _ \<Rightarrow> False)"

fun use_action_checker :: "'p database \<Rightarrow> sec_context \<Rightarrow> 'p request \<Rightarrow> result" where
  "use_action_checker db c (ReqTarget target) =
     (let req = db (requester c);
          result = decided_or RESULT_SKIP (has_permission_entity db SECURITYFLAG_read
            BHANDLING_INCLUDE_BASIC False target req default_id None)
      in case target of None \<Rightarrow> result
         | Some t \<Rightarrow>
           if result = RESULT_ACCEPT \<and> is_action (ent_type t) then
             (let l = ent_action_lock t in
              case lock_kind l of
                LOCK_BY_ID \<Rightarrow> if \<not> lock_evaluate l req then RESULT_DENY else result
              | LOCK_BY_PROPERTY \<Rightarrow> if \<not> lock_evaluate l req then RESULT_DENY else result
              | LOCK_BY_GROUP \<Rightarrow>
                  (case db (lock_get_id l) of None \<Rightarrow> RESULT_SKIP
                   | Some g \<Rightarrow>
                     if \<not> is_group (ent_type g) then RESULT_SKIP
                     else if \<not> lock_evaluate_group l req (Some g) then RESULT_DENY else result)
              | LOCK_INVALID \<Rightarrow> RESULT_SKIP)
           else result)"
| "use_action_checker db c _ = RESULT_SKIP"

subsection \<open>Moving an entity\<close>

definition ctx_admin :: "'p database \<Rightarrow> sec_context \<Rightarrow> 'p entity option \<Rightarrow> result option" where
  "ctx_admin db c target = is_admin_entity db (run_as_requester c) target (db (requester c))
     (program c) (db (program c))"

definition check_for_owner ::
    "'p database \<Rightarrow> sec_context \<Rightarrow> 'p entity option \<Rightarrow> 'p entity option \<Rightarrow> result" where
  "check_for_owner db c first second =
     (case (ctx_admin db c first, ctx_admin db c second) of
        (Some source_result, Some target_result) \<Rightarrow>
          accept_if (source_result = RESULT_ACCEPT \<and> target_result = RESULT_ACCEPT)
      | _ \<Rightarrow> RESULT_SKIP)"

text \<open>\<open>a and b\<close> of two locality checks, the second made only if the first holds.\<close>

definition both_local ::
    "'p database \<Rightarrow> 'p entity option \<Rightarrow> 'p entity option \<Rightarrow> 'p entity option \<Rightarrow> bool option" where
  "both_local db place a b =
     do { x \<leftarrow> is_entity_local db place a True;
          if x then is_entity_local db place b True else Some False }"

text \<open>
  The last step asks whether the context administers what is moved \<^emph>\<open>or\<close> the target.
\<close>

definition check_room_to_entity ::
    "'p database \<Rightarrow> sec_context \<Rightarrow> 'p entity option \<Rightarrow> 'p entity option \<Rightarrow> bool
      \<Rightarrow> 'p entity option \<Rightarrow> bool \<Rightarrow> result option" where
  "check_room_to_entity db c to_move container container_is_room target target_is_room =
     (if container_is_room = target_is_room then Some RESULT_SKIP
      else do {
        result \<leftarrow>
          (if run_as_requester c then
             (let room = (if container_is_room then container else target);
                  other = (if container_is_room then target else container)
              in do { all_in_room \<leftarrow> both_local db room (db (requester c)) other;
                      let admin_result = (if all_in_room
                            then decided_or RESULT_DENY (ctx_admin db c other) else RESULT_DENY);
                      Some (accept_if (all_in_room \<and> admin_result = RESULT_ACCEPT)) })
           else Some RESULT_SKIP);
        if result \<noteq> RESULT_ACCEPT then
          (let result = decided_or result (ctx_admin db c to_move)
           in if result \<noteq> RESULT_ACCEPT
              then Some (decided_or RESULT_SKIP (ctx_admin db c target)) else Some result)
        else Some result })"

fun transfer_entity_checker ::
    "'p database \<Rightarrow> sec_context \<Rightarrow> 'p request \<Rightarrow> result option" where
  "transfer_entity_checker db c (ReqPair (Some t) (Some s)) =
     (if \<not> is_container (ent_type t) \<or> \<not> is_container (ent_type s) then Some RESULT_SKIP
      else case db (ent_contained_by s) of None \<Rightarrow> Some RESULT_SKIP
      | Some sc \<Rightarrow>
        if \<not> is_container (ent_type sc) then Some RESULT_SKIP
        else let source_container_is_room = (ent_type sc = ENTITYTYPE_room);
                 target_is_room = (ent_type t = ENTITYTYPE_room)
          in if source_container_is_room \<noteq> target_is_room
             then check_room_to_entity db c (Some s) (Some sc) source_container_is_room
               (Some t) target_is_room
             else if source_container_is_room \<and> target_is_room
             then Some (check_for_owner db c (Some sc) (Some t))
             else if run_as_requester c then Some (check_for_owner db c (Some s) (Some t))
             else Some RESULT_SKIP)"
| "transfer_entity_checker db c _ = Some RESULT_SKIP"

end
