(* ===== verification/SecAccess.thy ===== *)
theory SecAccess
  imports Checkers
begin

text \<open>
  \<open>security::SecurityAccess\<close>
  (\<^verbatim>\<open>src/src/security/security_SecurityAccess.cpp\<close>): the checkers of every operation,
  how their results combine, the memoising security check, and the capabilities of a
  context with the per-site cache of capability groups.

  The locks are taken and released around single accesses and are left out: the model is the
  sequential meaning. A security check that throws answers \<open>SecurityThrown\<close>.
\<close>

subsection \<open>The checkers of an operation\<close>

datatype (plugins only: code size) checker =
    CrossSiteChecker | AdminSecurityChecker | AcceptAllChecker | FindCharacterByNameChecker
  | CharacterOnlineChecker | GetEntityFieldChecker | CreateEntityChecker | DeleteEntityChecker
  | SetEntityFieldChecker | GetSetApplicationSecurityChecker | GetApplicationPropertyChecker
  | SetApplicationPropertyChecker | TransferEntityChecker | SendTextRoomChecker
  | SendTextRoomUnrestrictedChecker | SendTextEntityChecker | UseActionChecker

fun run_checker ::
    "(string \<Rightarrow> string) \<Rightarrow> 'p database \<Rightarrow> operation \<Rightarrow> sec_context \<Rightarrow> 'p request \<Rightarrow> checker
      \<Rightarrow> result option" where
  "run_checker trim db op c req CrossSiteChecker = Some (cross_site_checker c req)"
| "run_checker trim db op c req AdminSecurityChecker = Some (admin_security_checker c req)"
| "run_checker trim db op c req AcceptAllChecker = Some (accept_all_checker req)"
| "run_checker trim db op c req FindCharacterByNameChecker =
     Some (find_character_by_name_checker c req)"
| "run_checker trim db op c req CharacterOnlineChecker = Some (character_online_checker c req)"
| "run_checker trim db op c req GetEntityFieldChecker = get_entity_field_checker db op c req"
| "run_checker trim db op c req CreateEntityChecker = Some (create_entity_checker c req)"
| "run_checker trim db op c req DeleteEntityChecker = Some (delete_entity_checker db c req)"
| "run_checker trim db op c req SetEntityFieldChecker = Some (set_entity_field_checker db c req)"
| "run_checker trim db op c req GetSetApplicationSecurityChecker =
     Some (get_set_application_security_checker trim db c req)"
| "run_checker trim db op c req GetApplicationPropertyChecker =
     Some (get_application_property_checker trim db c req)"
| "run_checker trim db op c req SetApplicationPropertyChecker =
     Some (set_application_property_checker trim db c req)"
| "run_checker trim db op c req TransferEntityChecker = transfer_entity_checker db c req"
| "run_checker trim db op c req SendTextRoomChecker = Some (send_text_room_checker db c req)"
| "run_checker trim db op c req SendTextRoomUnrestrictedChecker =
     Some (send_text_room_unrestricted_checker c req)"
| "run_checker trim db op c req SendTextEntityChecker = Some (send_text_entity_checker c req)"
| "run_checker trim db op c req UseActionChecker = Some (use_action_checker db c req)"

text \<open>\<open>populate_security\<close>: the two general checkers, then what the operation adds.\<close>

fun added_checkers :: "operation \<Rightarrow> checker list" where
  "added_checkers OPERATION_FIND_BY_NAME_RELATIVE = [AcceptAllChecker]"
| "added_checkers OPERATION_FIND_CHARACTER_BY_NAME = [FindCharacterByNameChecker]"
| "added_checkers OPERATION_CHARACTER_ONLINE = [CharacterOnlineChecker]"
| "added_checkers OPERATION_GET_CONTAINS = [GetEntityFieldChecker]"
| "added_checkers OPERATION_GET_ACTIONS = [GetEntityFieldChecker]"
| "added_checkers OPERATION_CREATE_ENTITY = [CreateEntityChecker]"
| "added_checkers OPERATION_DELETE_ENTITY = [DeleteEntityChecker]"
| "added_checkers OPERATION_GET_ENTITY_FIELD = [GetEntityFieldChecker]"
| "added_checkers OPERATION_SET_ENTITY_FIELD = [SetEntityFieldChecker]"
| "added_checkers OPERATION_ENTITY_TOSTRING = [GetEntityFieldChecker]"
| "added_checkers OPERATION_GET_APPLICATION_SECURITY = [GetSetApplicationSecurityChecker]"
| "added_checkers OPERATION_SET_APPLICATION_SECURITY = [GetSetApplicationSecurityChecker]"
| "added_checkers OPERATION_GET_APPLICATION_PROPERTY = [GetApplicationPropertyChecker]"
| "added_checkers OPERATION_SET_APPLICATION_PROPERTY = [SetApplicationPropertyChecker]"
| "added_checkers OPERATION_DELETE_APPLICATION_PROPERTY = [GetSetApplicationSecurityChecker]"
| "added_checkers OPERATION_TRANSFER_ENTITY = [TransferEntityChecker]"
| "added_checkers OPERATION_SEND_TEXT_ROOM = [SendTextRoomChecker]"
| "added_checkers OPERATION_SEND_TEXT_ROOM_UNRESTRICTED = [SendTextRoomUnrestrictedChecker]"
| "added_checkers OPERATION_SEND_TEXT_ENTITY = [SendTextEntityChecker]"
| "added_checkers OPERATION_USE_ACTION = [UseActionChecker]"
| "added_checkers _ = []"

definition operation_security :: "operation \<Rightarrow> checker list" where
  "operation_security op = [CrossSiteChecker, AdminSecurityChecker] @ added_checkers op"

subsection \<open>Combining results\<close>

text \<open>\<open>check_result\<close>: the new current result, and whether to go on.\<close>

fun check_result :: "result \<Rightarrow> result \<Rightarrow> result \<times> bool" where
  "check_result RESULT_ACCEPT cur = (if cur = RESULT_SKIP then RESULT_ACCEPT else cur, True)"
| "check_result RESULT_ACCEPT_ALWAYS cur = (RESULT_ACCEPT, False)"
| "check_result RESULT_DENY cur = (RESULT_DENY, False)"
| "check_result RESULT_DENY_ALWAYS cur = (RESULT_DENY, False)"
| "check_result RESULT_SKIP cur = (cur, True)"
| "check_result RESULT_END_INVALID cur = (cur, True)"

fun run_checkers :: "(checker \<Rightarrow> result option) \<Rightarrow> checker list \<Rightarrow> result \<Rightarrow> result option" where
  "run_checkers f [] cur = Some cur"
| "run_checkers f (k # ks) cur =
     do { r \<leftarrow> f k;
          (case check_result r cur of (cur', go_on) \<Rightarrow>
             if go_on then run_checkers f ks cur' else Some cur') }"

definition decide_uncached ::
    "(string \<Rightarrow> string) \<Rightarrow> 'p database \<Rightarrow> operation \<Rightarrow> sec_context \<Rightarrow> 'p request \<Rightarrow> result option"
where
  "decide_uncached trim db op c req =
     run_checkers (run_checker trim db op c req) (operation_security op) RESULT_SKIP"

subsection \<open>The six security checks\<close>

datatype check_outcome = Answer bool | SecurityThrown

text \<open>What the six overloads share: the cache, the checkers, the exception, the answer.\<close>

definition checked ::
    "result option \<Rightarrow> result option \<Rightarrow> (result \<Rightarrow> sec_context \<Rightarrow> sec_context) \<Rightarrow> bool
      \<Rightarrow> sec_context \<Rightarrow> (check_outcome \<times> sec_context) option" where
  "checked found decision save throw_on_denied c =
     do { (r, c') \<leftarrow> (case found of
            Some r \<Rightarrow> Some (r, c)
          | None \<Rightarrow> do { r \<leftarrow> decision; Some (r, save r c) });
          Some (if throw_on_denied \<and> r \<noteq> RESULT_ACCEPT then (SecurityThrown, c')
                else (Answer (r = RESULT_ACCEPT), c')) }"

definition security_check ::
    "(string \<Rightarrow> string) \<Rightarrow> 'p database \<Rightarrow> operation \<Rightarrow> bool \<Rightarrow> sec_context
      \<Rightarrow> (check_outcome \<times> sec_context) option" where
  "security_check trim db op throw c =
     checked (check_cache op c) (decide_uncached trim db op c ReqPlain) (save_result op) throw c"

definition security_check_type ::
    "(string \<Rightarrow> string) \<Rightarrow> 'p database \<Rightarrow> operation \<Rightarrow> entity_type \<Rightarrow> bool \<Rightarrow> sec_context
      \<Rightarrow> (check_outcome \<times> sec_context) option" where
  "security_check_type trim db op t throw c =
     checked (check_cache_type op t c) (decide_uncached trim db op c (ReqType t))
       (save_result_type op t) throw c"

text \<open>
  The overloads with references answer \<open>return result\<close> on an invalid one, with \<open>result\<close>
  still \<open>RESULT_SKIP\<close>: the value of the enumerator converts to a Boolean.
\<close>

definition security_check_target ::
    "(string \<Rightarrow> string) \<Rightarrow> 'p database \<Rightarrow> operation \<Rightarrow> 'p entity option \<Rightarrow> bool \<Rightarrow> sec_context
      \<Rightarrow> (check_outcome \<times> sec_context) option" where
  "security_check_target trim db op target throw c =
     (case target of None \<Rightarrow> Some (Answer (result_to_bool RESULT_SKIP), c)
      | Some t \<Rightarrow>
        checked (check_cache_target op (ent_id t) c)
          (decide_uncached trim db op c (ReqTarget target)) (save_result_target op (ent_id t))
          throw c)"

definition security_check_app ::
    "(string \<Rightarrow> string) \<Rightarrow> 'p database \<Rightarrow> operation \<Rightarrow> 'p entity option \<Rightarrow> string \<Rightarrow> bool
      \<Rightarrow> sec_context \<Rightarrow> (check_outcome \<times> sec_context) option" where
  "security_check_app trim db op target application throw c =
     (case target of None \<Rightarrow> Some (Answer (result_to_bool RESULT_SKIP), c)
      | Some t \<Rightarrow>
        let app = get_application_name_from_path trim application in
        if app = [] then Some (Answer (result_to_bool RESULT_SKIP), c)
        else checked (check_cache_app op (ent_id t) app c)
          (decide_uncached trim db op c (ReqApp target app)) (save_result_app op (ent_id t) app)
          throw c)"

definition security_check_field ::
    "(string \<Rightarrow> string) \<Rightarrow> 'p database \<Rightarrow> operation \<Rightarrow> 'p entity option \<Rightarrow> entity_field \<Rightarrow> bool
      \<Rightarrow> sec_context \<Rightarrow> (check_outcome \<times> sec_context) option" where
  "security_check_field trim db op target f throw c =
     (case target of None \<Rightarrow> Some (Answer (result_to_bool RESULT_SKIP), c)
      | Some t \<Rightarrow>
        checked (check_cache_field op (ent_id t) f c)
          (decide_uncached trim db op c (ReqField target f)) (save_result_field op (ent_id t) f)
          throw c)"

definition security_check_source ::
    "(string \<Rightarrow> string) \<Rightarrow> 'p database \<Rightarrow> operation \<Rightarrow> 'p entity option \<Rightarrow> 'p entity option \<Rightarrow> bool
      \<Rightarrow> sec_context \<Rightarrow> (check_outcome \<times> sec_context) option" where
  "security_check_source trim db op target source throw c =
     (case (target, source) of
        (Some t, Some s) \<Rightarrow>
          checked (check_cache_source op (ent_id t) (ent_id s) c)
            (decide_uncached trim db op c (ReqPair target source))
            (save_result_source op (ent_id t) (ent_id s)) throw c
      | _ \<Rightarrow> Some (Answer (result_to_bool RESULT_SKIP), c))"

lemmas security_check_defs = security_check_def security_check_type_def
  security_check_target_def security_check_app_def security_check_field_def
  security_check_source_def

subsection \<open>Capabilities\<close>

text \<open>
  \<open>SiteToCapabilities\<close>: for a site, one list of groups per capability, in the order of the
  enumeration; an empty list is an entry not cached yet. The database search for capability
  entities by exact name is the parameter \<open>find_cap\<close>.
\<close>

type_synonym cap_cache = "u32 \<rightharpoonup> db_id list list"

definition as_group :: "'p database \<Rightarrow> db_id \<Rightarrow> 'p entity option" where
  "as_group db i = (case db i of None \<Rightarrow> None
     | Some g \<Rightarrow> if is_group (ent_type g) then Some g else None)"

definition get_entity_type :: "'p database \<Rightarrow> db_id \<Rightarrow> entity_type" where
  "get_entity_type db i = (case db i of None \<Rightarrow> ENTITYTYPE_invalid | Some e \<Rightarrow> ent_type e)"

definition add_referenced_groups :: "'p database \<Rightarrow> db_id \<Rightarrow> db_id list \<Rightarrow> db_id list" where
  "add_referenced_groups db input_group referenced_groups =
     (case (if is_default input_group then None else as_group db input_group) of
        None \<Rightarrow> referenced_groups
      | Some g \<Rightarrow> referenced_groups @ filter
          (\<lambda>i. i \<notin> set (ent_disabled_ids g)
             \<and> get_entity_type db i \<in> {ENTITYTYPE_group, ENTITYTYPE_capability})
          (ent_group_ids g))"

definition capability_index :: "capability \<Rightarrow> nat" where
  "capability_index k = index_of k all_capabilities"

definition populate_capability_cache ::
    "'p database \<Rightarrow> (u32 \<Rightarrow> string \<Rightarrow> db_id list) \<Rightarrow> u32 \<Rightarrow> capability \<Rightarrow> cap_cache \<Rightarrow> cap_cache" where
  "populate_capability_cache db find_cap site k m =
     (let caps = (case m site of None \<Rightarrow> [] | Some v \<Rightarrow> v);
          caps = (if caps = [] then replicate (length all_capabilities) [] else caps);
          found = find_cap site (capability_to_string k);
          front = (if length found \<noteq> 1 then default_id else hd found)
      in m(site \<mapsto> caps[capability_index k := add_referenced_groups db front [front]]))"

definition add_capability_admin :: "capability \<Rightarrow> sec_context \<Rightarrow> sec_context" where
  "add_capability_admin k c =
     (let c = add_capability k c in if k = CAPABILITY_ADMIN then set_run_as_admin c else c)"

text \<open>One group of one capability, for the requester and for the program.\<close>

definition group_step :: "'p database \<Rightarrow> capability \<Rightarrow> db_id \<Rightarrow> sec_context \<Rightarrow> sec_context" where
  "group_step db k i c =
     (case as_group db i of None \<Rightarrow> c
      | Some g \<Rightarrow>
        let c = (if run_as_requester c \<and> is_in_group g (requester c)
                 then add_capability_admin k c else c)
        in if is_in_group g (program c) then add_capability_admin k c else c)"

definition site_caps :: "cap_cache \<Rightarrow> u32 \<Rightarrow> db_id list list" where
  "site_caps m site = (case m site of None \<Rightarrow> [] | Some v \<Rightarrow> v)"

definition capability_step ::
    "'p database \<Rightarrow> (u32 \<Rightarrow> string \<Rightarrow> db_id list) \<Rightarrow> u32 \<Rightarrow> capability \<Rightarrow> cap_cache \<times> sec_context
      \<Rightarrow> cap_cache \<times> sec_context" where
  "capability_step db find_cap site k s =
     (case s of (m, c) \<Rightarrow>
        let m = (if site_caps m site ! capability_index k = []
                 then populate_capability_cache db find_cap site k m else m)
        in (m, fold (group_step db k) (site_caps m site ! capability_index k) c))"

definition populate_site_capabilities ::
    "'p database \<Rightarrow> (u32 \<Rightarrow> string \<Rightarrow> db_id list) \<Rightarrow> u32 \<Rightarrow> cap_cache \<times> sec_context
      \<Rightarrow> cap_cache \<times> sec_context" where
  "populate_site_capabilities db find_cap site s =
     (case s of (m, c) \<Rightarrow>
        let m = (case m site of None \<Rightarrow> m(site \<mapsto> []) | Some _ \<Rightarrow> m);
            m = (if site_caps m site = []
                 then populate_capability_cache db find_cap site CAPABILITY_ADMIN m else m)
        in fold (capability_step db find_cap site) all_capabilities (m, c))"

definition populate_context_capabilities ::
    "'p database \<Rightarrow> (u32 \<Rightarrow> string \<Rightarrow> db_id list) \<Rightarrow> cap_cache \<times> sec_context
      \<Rightarrow> cap_cache \<times> sec_context" where
  "populate_context_capabilities db find_cap s =
     (case s of (m, c) \<Rightarrow>
        if populated_capabilities c then (m, c)
        else if is_site_default (requester c) then (m, capabilities_set c)
        else let s = populate_site_capabilities db find_cap (get_site_id (requester c)) (m, c);
                 s = populate_site_capabilities db find_cap GLOBAL_SITE_ID s;
                 c = snd s;
                 c = (if get_entity_id (requester c) = 3 \<or> get_entity_id (requester c) = 4
                      then set_run_as_admin c else c)
          in (fst s, capabilities_set c))"

text \<open>Events: the first capability whose own group is the changed entity is cleared.\<close>

fun clear_first_front :: "db_id \<Rightarrow> db_id list list \<Rightarrow> db_id list list" where
  "clear_first_front i [] = []"
| "clear_first_front i (gs # rest) =
     (if gs \<noteq> [] \<and> hd gs = i then [] # rest else gs # clear_first_front i rest)"

definition capability_changed :: "db_id \<Rightarrow> cap_cache \<Rightarrow> cap_cache" where
  "capability_changed i m =
     (case m (get_site_id i) of None \<Rightarrow> m
      | Some v \<Rightarrow> m(get_site_id i \<mapsto> clear_first_front i v))"

definition site_deleted :: "u32 \<Rightarrow> cap_cache \<Rightarrow> cap_cache" where
  "site_deleted site m = m(site := None)"

subsection \<open>How a decision comes about\<close>

lemma decide_uncached_steps:
  "decide_uncached trim db op c req =
     (case check_result (cross_site_checker c req) RESULT_SKIP of (r1, go1) \<Rightarrow>
        if \<not> go1 then Some r1
        else case check_result (admin_security_checker c req) r1 of (r2, go2) \<Rightarrow>
          if \<not> go2 then Some r2
          else run_checkers (run_checker trim db op c req) (added_checkers op) r2)"
  by (simp add: decide_uncached_def operation_security_def case_prod_beta)

lemma cross_site_results:
  "cross_site_checker c req \<in> {RESULT_ACCEPT, RESULT_DENY_ALWAYS, RESULT_SKIP}"
  by (cases req) (simp_all add: check_site_def)

lemma admin_results:
  "admin_security_checker c req = RESULT_SKIP \<or> admin_security_checker c req = RESULT_ACCEPT_ALWAYS"
  by (cases req) (auto simp: cross_site_admin_check_def admin_check_def)

lemma no_admin_skip [simp]: "\<not> admin c \<Longrightarrow> admin_security_checker c req = RESULT_SKIP"
  by (cases req) (simp_all add: cross_site_admin_check_def admin_check_def)

lemma decide_cross_site:
  "cross_site_checker c req = RESULT_DENY_ALWAYS \<Longrightarrow> decide_uncached trim db op c req = Some RESULT_DENY"
  by (simp add: decide_uncached_steps)

lemma decide_admin:
  "cross_site_checker c req \<noteq> RESULT_DENY_ALWAYS
    \<Longrightarrow> admin_security_checker c req = RESULT_ACCEPT_ALWAYS
    \<Longrightarrow> decide_uncached trim db op c req = Some RESULT_ACCEPT"
  using cross_site_results [of c req] by (auto simp: decide_uncached_steps)

lemma run_single:
  "run_checkers f [k] RESULT_ACCEPT = map_option
     (\<lambda>r. if r = RESULT_DENY \<or> r = RESULT_DENY_ALWAYS then RESULT_DENY else RESULT_ACCEPT) (f k)"
proof (cases "f k")
  case (Some r)
  then show ?thesis by (cases r) simp_all
qed simp

lemma decide_ordinary:
  assumes "cross_site_checker c req = RESULT_ACCEPT" and "\<not> admin c"
    and "added_checkers op = [k]"
  shows "decide_uncached trim db op c req = map_option
     (\<lambda>r. if r = RESULT_DENY \<or> r = RESULT_DENY_ALWAYS then RESULT_DENY else RESULT_ACCEPT)
     (run_checker trim db op c req k)"
  using assms by (simp add: decide_uncached_steps run_single del: run_checkers.simps)

subsection \<open>Requests and cache entries\<close>

datatype request_form = FPlain | FType | FTarget | FApp | FField | FPair

fun form_of :: "'p request \<Rightarrow> request_form" where
  "form_of ReqPlain = FPlain"
| "form_of (ReqType _) = FType"
| "form_of (ReqTarget _) = FTarget"
| "form_of (ReqApp _ _) = FApp"
| "form_of (ReqField _ _) = FField"
| "form_of (ReqPair _ _) = FPair"

text \<open>The overload that serves a request.\<close>

fun ask ::
    "(string \<Rightarrow> string) \<Rightarrow> 'p database \<Rightarrow> operation \<Rightarrow> 'p request \<Rightarrow> bool \<Rightarrow> sec_context
      \<Rightarrow> (check_outcome \<times> sec_context) option" where
  "ask trim db op ReqPlain = security_check trim db op"
| "ask trim db op (ReqType t) = security_check_type trim db op t"
| "ask trim db op (ReqTarget t) = security_check_target trim db op t"
| "ask trim db op (ReqApp t a) = security_check_app trim db op t a"
| "ask trim db op (ReqField t f) = security_check_field trim db op t f"
| "ask trim db op (ReqPair t s) = security_check_source trim db op t s"

fun normal_request :: "(string \<Rightarrow> string) \<Rightarrow> 'p request \<Rightarrow> 'p request" where
  "normal_request trim (ReqApp t a) = ReqApp t (get_application_name_from_path trim a)"
| "normal_request trim req = req"

text \<open>Valid references to entities of the database, and an application name that is one.\<close>

fun refs_in :: "'p database \<Rightarrow> 'p request \<Rightarrow> bool" where
  "refs_in db ReqPlain = True"
| "refs_in db (ReqType _) = True"
| "refs_in db (ReqTarget t) = (t \<noteq> None \<and> db (ref_id t) = t)"
| "refs_in db (ReqApp t a) = (t \<noteq> None \<and> db (ref_id t) = t \<and> a \<noteq> [])"
| "refs_in db (ReqField t _) = (t \<noteq> None \<and> db (ref_id t) = t)"
| "refs_in db (ReqPair t s) = (t \<noteq> None \<and> db (ref_id t) = t \<and> s \<noteq> None \<and> db (ref_id s) = s)"

fun entry_matches :: "operation \<Rightarrow> 'p request \<Rightarrow> cache_entry \<Rightarrow> bool" where
  "entry_matches op ReqPlain e = (ce_operation e = op)"
| "entry_matches op (ReqType t) e = (ce_operation e = op \<and> ce_entity_type e = t)"
| "entry_matches op (ReqTarget t) e = (ce_operation e = op \<and> ce_entity_target e = ref_id t)"
| "entry_matches op (ReqApp t a) e =
     (ce_operation e = op \<and> ce_entity_target e = ref_id t \<and> application_name e = a)"
| "entry_matches op (ReqField t f) e =
     (ce_operation e = op \<and> ce_entity_target e = ref_id t \<and> ce_entity_field e = f)"
| "entry_matches op (ReqPair t s) e =
     (ce_operation e = op \<and> ce_entity_target e = ref_id t \<and> ce_entity_source e = ref_id s)"

fun request_entry :: "operation \<Rightarrow> 'p request \<Rightarrow> result \<Rightarrow> cache_entry" where
  "request_entry op ReqPlain r = blank_entry op r"
| "request_entry op (ReqType t) r = (blank_entry op r)\<lparr>ce_entity_type := t\<rparr>"
| "request_entry op (ReqTarget t) r = (blank_entry op r)\<lparr>ce_entity_target := ref_id t\<rparr>"
| "request_entry op (ReqApp t a) r =
     (blank_entry op r)\<lparr>application_name := a, ce_entity_target := ref_id t\<rparr>"
| "request_entry op (ReqField t f) r =
     (blank_entry op r)\<lparr>ce_entity_field := f, ce_entity_target := ref_id t\<rparr>"
| "request_entry op (ReqPair t s) r =
     (blank_entry op r)\<lparr>ce_entity_target := ref_id t, ce_entity_source := ref_id s\<rparr>"

lemma entry_matches_fun:
  "entry_matches op ReqPlain = (\<lambda>e. ce_operation e = op)"
  "entry_matches op (ReqType t) = (\<lambda>e. ce_operation e = op \<and> ce_entity_type e = t)"
  "entry_matches op (ReqTarget r) = (\<lambda>e. ce_operation e = op \<and> ce_entity_target e = ref_id r)"
  "entry_matches op (ReqApp r a) =
     (\<lambda>e. ce_operation e = op \<and> ce_entity_target e = ref_id r \<and> application_name e = a)"
  "entry_matches op (ReqField r f) =
     (\<lambda>e. ce_operation e = op \<and> ce_entity_target e = ref_id r \<and> ce_entity_field e = f)"
  "entry_matches op (ReqPair r s) =
     (\<lambda>e. ce_operation e = op \<and> ce_entity_target e = ref_id r \<and> ce_entity_source e = ref_id s)"
  by (simp_all add: fun_eq_iff)

lemma ask_checked:
  assumes "refs_in db (normal_request trim req)"
  shows "ask trim db op req throw c =
    checked (cache_find (entry_matches op (normal_request trim req)) c)
      (decide_uncached trim db op c (normal_request trim req))
      (\<lambda>r. add_cache_entry (request_entry op (normal_request trim req) r)) throw c"
  using assms
  by (cases req)
    (auto simp: security_check_defs check_cache_defs save_result_defs ref_id_def Let_def
      entry_matches_fun fun_eq_iff intro!: arg_cong [where f = "\<lambda>s. checked _ _ s _ _"])

lemma request_entry_sel [simp]:
  "ce_operation (request_entry op req r) = op" "operation_result (request_entry op req r) = r"
  by (cases req; simp add: blank_entry_def)+

lemma same_request:
  assumes "entry_matches op req' (request_entry op req r)" and "form_of req' = form_of req"
    and "refs_in db req" and "refs_in db req'"
  shows "req' = req"
  using assms by (cases req; cases req'; simp add: blank_entry_def; metis)

subsection \<open>A cache of right decisions\<close>

lemma has_capability_add [simp]: "has_capability (add_cache_entry e c) k = has_capability c k"
  by (simp add: has_capability_def add_cache_entry_fields)

lemmas context_checker_defs = cross_site_admin_check_def admin_check_def ctx_admin_def
  name_security_check_def locality_security_check_def get_entity_field_check_def
  get_entity_target_check_def check_for_owner_def check_room_to_entity_def

lemma helper_add [simp]:
  "admin_check (add_cache_entry e c) = admin_check c"
  "cross_site_admin_check (add_cache_entry e c) r = cross_site_admin_check c r"
  "ctx_admin db (add_cache_entry e c) r = ctx_admin db c r"
  by (simp_all add: cross_site_admin_check_def admin_check_def ctx_admin_def add_cache_entry_fields)

lemmas context_unchanged = add_cache_entry_fields has_capability_add helper_add

lemma checker_helper_add [simp]:
  "check_for_owner db (add_cache_entry e c) r s = check_for_owner db c r s"
  "check_room_to_entity db (add_cache_entry e c) m ct cr t tr = check_room_to_entity db c m ct cr t tr"
  "name_security_check db (add_cache_entry e c) r = name_security_check db c r"
  "locality_security_check db (add_cache_entry e c) r = locality_security_check db c r"
  unfolding check_for_owner_def check_room_to_entity_def name_security_check_def
    locality_security_check_def context_unchanged
  by (rule refl)+

lemma field_check_add [simp]:
  "get_entity_field_check db (add_cache_entry e c) r f = get_entity_field_check db c r f"
  unfolding get_entity_field_check_def context_unchanged checker_helper_add ..

lemma target_check_add [simp]:
  "get_entity_target_check db op (add_cache_entry e c) r = get_entity_target_check db op c r"
  unfolding get_entity_target_check_def field_check_add checker_helper_add ..

lemma transfer_add [simp]:
  "transfer_entity_checker db (add_cache_entry e c) req = transfer_entity_checker db c req"
proof (cases req)
  case (ReqPair t s)
  show ?thesis
  proof (cases "t = None \<or> s = None")
    case False
    then obtain x y where r: "req = ReqPair (Some x) (Some y)" using ReqPair by auto
    show ?thesis
      unfolding r transfer_entity_checker.simps(1) context_unchanged checker_helper_add ..
  qed (auto simp: ReqPair)
qed auto

lemma send_room_add [simp]:
  "send_text_room_checker db (add_cache_entry e c) req = send_text_room_checker db c req"
proof (cases req)
  case (ReqTarget t)
  show ?thesis unfolding ReqTarget send_text_room_checker.simps context_unchanged ..
qed simp_all

lemma run_checker_add: "run_checker trim db op (add_cache_entry e c) req = run_checker trim db op c req"
proof
  fix k
  show "run_checker trim db op (add_cache_entry e c) req k = run_checker trim db op c req k"
    by (cases k; cases req; simp add: add_cache_entry_fields
        del: send_text_room_checker.simps transfer_entity_checker.simps)
qed

lemma decide_uncached_add:
  "decide_uncached trim db op (add_cache_entry e c) req = decide_uncached trim db op c req"
  by (simp add: decide_uncached_def run_checker_add)

text \<open>
  An entry is right when it is the decision of every request of its operation that would be
  answered with it, \<open>form\<close> being the overload an operation is asked with.
\<close>

definition entry_right ::
    "(operation \<Rightarrow> request_form) \<Rightarrow> (string \<Rightarrow> string) \<Rightarrow> 'p database \<Rightarrow> sec_context
      \<Rightarrow> cache_entry \<Rightarrow> bool" where
  "entry_right form trim db c e \<longleftrightarrow>
     (\<forall>req. form_of req = form (ce_operation e) \<longrightarrow> refs_in db req
        \<longrightarrow> entry_matches (ce_operation e) req e
        \<longrightarrow> decide_uncached trim db (ce_operation e) c req = Some (operation_result e))"

definition cache_right ::
    "(operation \<Rightarrow> request_form) \<Rightarrow> (string \<Rightarrow> string) \<Rightarrow> 'p database \<Rightarrow> sec_context \<Rightarrow> bool" where
  "cache_right form trim db c \<longleftrightarrow> (\<forall>e \<in> set (context_cache c). entry_right form trim db c e)"

lemma entry_right_add: "entry_right form trim db (add_cache_entry e' c) e = entry_right form trim db c e"
  by (simp add: entry_right_def decide_uncached_add)

lemma new_entry_right:
  assumes "decide_uncached trim db op c req = Some r" and "form_of req = form op"
    and "refs_in db req"
  shows "entry_right form trim db c (request_entry op req r)"
  using assms same_request [of op _ req r db] by (auto simp: entry_right_def)

lemma entry_matches_operation: "entry_matches op req e \<Longrightarrow> ce_operation e = op"
  by (cases req) simp_all

lemma found_right:
  assumes "cache_right form trim db c" and "cache_find (entry_matches op req) c = Some r"
    and "form_of req = form op" and "refs_in db req"
  shows "decide_uncached trim db op c req = Some r"
proof -
  from cc.lookup_entry [OF assms(2)] obtain e where
    e: "e \<in> set (context_cache c)" "entry_matches op req e" "operation_result e = r" by blast
  with assms(1) have "entry_right form trim db c e" by (simp add: cache_right_def)
  with e assms(3,4) entry_matches_operation [OF e(2)] show ?thesis
    by (auto simp: entry_right_def)
qed

lemma stored_right:
  assumes "cache_right form trim db c" and "decide_uncached trim db op c req = Some r"
    and "form_of req = form op" and "refs_in db req"
  shows "cache_right form trim db (add_cache_entry (request_entry op req r) c)"
  using assms set_add_cache_entry [of "request_entry op req r" c]
    new_entry_right [of trim db op c req r form]
  unfolding cache_right_def entry_right_add by blast

lemma form_normal [simp]: "form_of (normal_request trim req) = form_of req"
  by (cases req) simp_all

text \<open>What a decision tells the caller.\<close>

definition outcome_of :: "bool \<Rightarrow> result \<Rightarrow> check_outcome" where
  "outcome_of throw r = (if throw \<and> r \<noteq> RESULT_ACCEPT then SecurityThrown
     else Answer (r = RESULT_ACCEPT))"

lemma checked_Some: "checked (Some r) d save throw c = Some (outcome_of throw r, c)"
  by (simp add: checked_def outcome_of_def)

lemma checked_None:
  "checked None d save throw c = map_option (\<lambda>r. (outcome_of throw r, save r c)) d"
  by (cases d) (simp_all add: checked_def outcome_of_def)

subsection \<open>The capabilities of a context\<close>

text \<open>The groups of a capability on a site, as the cache should hold them.\<close>

definition groups_of ::
    "'p database \<Rightarrow> (u32 \<Rightarrow> string \<Rightarrow> db_id list) \<Rightarrow> u32 \<Rightarrow> capability \<Rightarrow> db_id list" where
  "groups_of db find_cap site k =
     (let found = find_cap site (capability_to_string k);
          front = (if length found \<noteq> 1 then default_id else hd found)
      in add_referenced_groups db front [front])"

text \<open>The requester (when run as) or the program is a member of one of the groups.\<close>

definition holds_in :: "'p database \<Rightarrow> sec_context \<Rightarrow> db_id list \<Rightarrow> bool" where
  "holds_in db c gs \<longleftrightarrow> (\<exists>i \<in> set gs. case as_group db i of None \<Rightarrow> False
     | Some g \<Rightarrow> run_as_requester c \<and> is_in_group g (requester c) \<or> is_in_group g (program c))"

definition cache_fresh :: "'p database \<Rightarrow> (u32 \<Rightarrow> string \<Rightarrow> db_id list) \<Rightarrow> cap_cache \<Rightarrow> bool" where
  "cache_fresh db find_cap m \<longleftrightarrow> (\<forall>site. site_caps m site = []
     \<or> length (site_caps m site) = length all_capabilities
       \<and> (\<forall>k. site_caps m site ! capability_index k = []
             \<or> site_caps m site ! capability_index k = groups_of db find_cap site k))"

lemma capability_index_less [simp]: "capability_index k < length all_capabilities"
  by (cases k) (simp_all add: capability_index_def all_capabilities_def)

lemma capability_index_inject [simp]: "capability_index j = capability_index k \<longleftrightarrow> j = k"
  by (cases j; cases k; simp add: capability_index_def all_capabilities_def)

lemma all_capabilities_UNIV: "set all_capabilities = UNIV"
proof -
  have "k \<in> set all_capabilities" for k by (cases k) (simp_all add: all_capabilities_def)
  then show ?thesis by blast
qed

lemma all_capabilities_nonempty [simp]: "all_capabilities \<noteq> []"
  by (simp add: all_capabilities_def)

lemma populate_capability_cache_caps:
  "site_caps (populate_capability_cache db find_cap site k m) s =
     (if s = site
      then (if site_caps m site = [] then replicate (length all_capabilities) [] else site_caps m site)
        [capability_index k := groups_of db find_cap site k]
      else site_caps m s)"
  by (simp add: populate_capability_cache_def groups_of_def site_caps_def Let_def)

lemma populate_capability_cache_fresh:
  assumes "cache_fresh db find_cap m"
  shows "cache_fresh db find_cap (populate_capability_cache db find_cap site k m)"
proof -
  have "site_caps m site = [] \<or> length (site_caps m site) = length all_capabilities
      \<and> (\<forall>j. site_caps m site ! capability_index j = []
            \<or> site_caps m site ! capability_index j = groups_of db find_cap site j)"
    using assms by (simp add: cache_fresh_def)
  then have "\<forall>j. site_caps (populate_capability_cache db find_cap site k m) site ! capability_index j
      \<in> {[], groups_of db find_cap site j}"
    by (auto simp: populate_capability_cache_caps nth_list_update) blast
  then show ?thesis
    using assms unfolding cache_fresh_def
    by (auto simp: populate_capability_cache_caps split: if_splits)
qed

lemma group_step_fields:
  "requester (group_step db k i c) = requester c" "program (group_step db k i c) = program c"
  "run_as_requester (group_step db k i c) = run_as_requester c"
  "set (capabilities (group_step db k i c)) =
     set (capabilities c) \<union> {k' . k' = k \<and> holds_in db c [i]}"
  "admin (group_step db k i c) \<longleftrightarrow> admin c \<or> k = CAPABILITY_ADMIN \<and> holds_in db c [i]"
  by (auto simp: group_step_def add_capability_admin_def add_capability_def set_run_as_admin_def
      holds_in_def Let_def split: option.split)

lemma holds_in_cong:
  "requester c = requester d \<Longrightarrow> program c = program d \<Longrightarrow> run_as_requester c = run_as_requester d
    \<Longrightarrow> holds_in db c gs = holds_in db d gs"
  by (simp add: holds_in_def cong: option.case_cong)

lemma holds_in_Cons: "holds_in db c (i # gs) \<longleftrightarrow> holds_in db c [i] \<or> holds_in db c gs"
  by (simp add: holds_in_def)

text \<open>One context extends another by some capabilities, with the administrator flag in step.\<close>

definition extends_by :: "sec_context \<Rightarrow> capability set \<Rightarrow> sec_context \<Rightarrow> bool" where
  "extends_by c K d \<longleftrightarrow> requester d = requester c \<and> program d = program c
     \<and> run_as_requester d = run_as_requester c
     \<and> set (capabilities d) = set (capabilities c) \<union> K
     \<and> (admin d \<longleftrightarrow> admin c \<or> CAPABILITY_ADMIN \<in> K)"

lemma extends_by_trans:
  "extends_by c K d \<Longrightarrow> extends_by d L e \<Longrightarrow> extends_by c (K \<union> L) e"
  by (auto simp: extends_by_def)

lemma extends_by_holds: "extends_by c K d \<Longrightarrow> holds_in db d gs = holds_in db c gs"
  by (rule holds_in_cong) (simp_all add: extends_by_def)

lemma fold_group_step:
  "extends_by c {k'. k' = k \<and> holds_in db c gs} (fold (group_step db k) gs c)"
proof (induction gs arbitrary: c)
  case Nil
  then show ?case by (simp add: extends_by_def holds_in_def)
next
  case (Cons i gs)
  have one: "extends_by c {k'. k' = k \<and> holds_in db c [i]} (group_step db k i c)"
    by (auto simp: extends_by_def group_step_fields)
  have sets: "{k'. k' = k \<and> holds_in db c [i]} \<union> {k'. k' = k \<and> holds_in db c gs}
      = {k'. k' = k \<and> holds_in db c (i # gs)}"
    by (auto simp: holds_in_Cons [of db c i gs])
  from extends_by_trans [OF one Cons.IH] show ?case
    by (simp add: extends_by_holds [OF one] sets)
qed

text \<open>The cache for a site has been started: one list for each capability.\<close>

definition started :: "cap_cache \<Rightarrow> u32 \<Rightarrow> bool" where
  "started m site \<longleftrightarrow> length (site_caps m site) = length all_capabilities"

lemma capability_step_spec:
  assumes "cache_fresh db find_cap m" and "started m site"
  shows "cache_fresh db find_cap (fst (capability_step db find_cap site k (m, c)))
    \<and> started (fst (capability_step db find_cap site k (m, c))) site
    \<and> extends_by c {k'. k' = k \<and> holds_in db c (groups_of db find_cap site k)}
        (snd (capability_step db find_cap site k (m, c)))"
proof -
  let ?m = "if site_caps m site ! capability_index k = []
      then populate_capability_cache db find_cap site k m else m"
  have nonempty: "site_caps m site \<noteq> []" using assms(2) by (auto simp: started_def)
  have caps: "site_caps ?m site ! capability_index k = groups_of db find_cap site k"
    using assms nonempty by (auto simp: populate_capability_cache_caps cache_fresh_def started_def)
  have fresh: "cache_fresh db find_cap ?m"
    using assms(1) by (simp add: populate_capability_cache_fresh)
  have st: "started ?m site"
    using assms(2) nonempty by (simp add: started_def populate_capability_cache_caps)
  have step: "capability_step db find_cap site k (m, c)
      = (?m, fold (group_step db k) (groups_of db find_cap site k) c)"
    using caps by (simp add: capability_step_def Let_def)
  show ?thesis using fresh st fold_group_step unfolding step fst_conv snd_conv by blast
qed

lemma fold_capability_step_spec:
  assumes "cache_fresh db find_cap m" and "started m site"
  shows "cache_fresh db find_cap (fst (fold (capability_step db find_cap site) ks (m, c)))
    \<and> extends_by c {k. k \<in> set ks \<and> holds_in db c (groups_of db find_cap site k)}
        (snd (fold (capability_step db find_cap site) ks (m, c)))"
  using assms
proof (induction ks arbitrary: m c)
  case Nil
  then show ?case by (simp add: extends_by_def)
next
  case (Cons k ks)
  obtain m' c' where s: "capability_step db find_cap site k (m, c) = (m', c')" by fastforce
  with capability_step_spec [OF Cons.prems, of k c]
  have one: "cache_fresh db find_cap m'" "started m' site"
    and ext: "extends_by c {k'. k' = k \<and> holds_in db c (groups_of db find_cap site k)} c'"
    by simp_all
  have sets: "{k'. k' = k \<and> holds_in db c (groups_of db find_cap site k)}
      \<union> {k'. k' \<in> set ks \<and> holds_in db c (groups_of db find_cap site k')}
    = {k'. k' \<in> set (k # ks) \<and> holds_in db c (groups_of db find_cap site k')}" by auto
  from Cons.IH [OF one, of c'] extends_by_trans [OF ext] show ?case
    unfolding fold_simps s extends_by_holds [OF ext] sets [symmetric] by blast
qed

lemma populate_site_spec:
  assumes "cache_fresh db find_cap m"
  shows "cache_fresh db find_cap (fst (populate_site_capabilities db find_cap site (m, c)))
    \<and> extends_by c {k. holds_in db c (groups_of db find_cap site k)}
        (snd (populate_site_capabilities db find_cap site (m, c)))"
proof -
  define m1 where "m1 = (case m site of None \<Rightarrow> m(site \<mapsto> []) | Some _ \<Rightarrow> m)"
  define m2 where "m2 = (if site_caps m1 site = []
      then populate_capability_cache db find_cap site CAPABILITY_ADMIN m1 else m1)"
  have same: "site_caps m1 = site_caps m"
    by (auto simp: m1_def site_caps_def fun_eq_iff split: option.split)
  then have "cache_fresh db find_cap m1" using assms by (simp add: cache_fresh_def)
  then have fresh: "cache_fresh db find_cap m2"
    by (simp add: m2_def populate_capability_cache_fresh)
  have st: "started m2 site"
    using \<open>cache_fresh db find_cap m1\<close>
    by (auto simp: m2_def started_def populate_capability_cache_caps cache_fresh_def)
  have eq: "populate_site_capabilities db find_cap site (m, c)
      = fold (capability_step db find_cap site) all_capabilities (m2, c)"
    by (simp add: populate_site_capabilities_def Let_def m1_def m2_def)
  show ?thesis
    using fold_capability_step_spec [OF fresh st, of all_capabilities c]
    by (simp add: eq all_capabilities_UNIV)
qed

lemma clear_first_front_length [simp]: "length (clear_first_front i v) = length v"
  by (induction v) auto

lemma clear_first_front_other:
  "n < length v \<Longrightarrow> v ! n \<noteq> [] \<Longrightarrow> hd (v ! n) \<noteq> i \<Longrightarrow> clear_first_front i v ! n = v ! n"
  by (induction v arbitrary: n) (auto simp: nth_Cons split: nat.splits)

lemma capability_changed_caps:
  "site_caps (capability_changed i m) s =
     (if s = get_site_id i then clear_first_front i (site_caps m s) else site_caps m s)"
  by (simp add: capability_changed_def site_caps_def split: option.split)

lemma capability_changed_keeps:
  assumes "n < length (site_caps m site)" and "site_caps m site ! n = [d]" and "i \<noteq> d"
  shows "n < length (site_caps (capability_changed i m) site)
    \<and> site_caps (capability_changed i m) site ! n = [d]"
  using assms clear_first_front_other [of n "site_caps m site" i]
  by (auto simp: capability_changed_caps)

lemma capability_changes_keep:
  assumes "n < length (site_caps m site)" and "site_caps m site ! n = [d]" and "d \<notin> set changed"
  shows "site_caps (fold capability_changed changed m) site ! n = [d]"
  using assms
proof (induction changed arbitrary: m)
  case (Cons i changed)
  then have "i \<noteq> d" by auto
  from Cons.IH capability_changed_keeps [OF Cons.prems(1,2) this] Cons.prems(3)
  show ?case by simp
qed simp

subsection \<open>Properties\<close>

text \<open>
  C1. A check on a valid target of the requester's own site, without administrator rights and
  not answered by the cache, grants the operation whenever the operation's own checker does
  not deny it: the cross-site checker has already accepted, so a checker that skips, because
  it could not decide, grants.
\<close>

theorem target_granted_unless_denied:
  assumes "check_cache_target op (ent_id t) c = None"
    and "get_site_id (ent_id t) = get_site_id (requester c)" and "\<not> admin c"
    and "added_checkers op = [k]"
  shows "map_option fst (security_check_target trim db op (Some t) False c) = map_option
    (\<lambda>r. Answer (r \<noteq> RESULT_DENY \<and> r \<noteq> RESULT_DENY_ALWAYS))
    (run_checker trim db op c (ReqTarget (Some t)) k)"
proof -
  have "cross_site_checker c (ReqTarget (Some t)) = RESULT_ACCEPT"
    using assms(2) by (simp add: check_site_def ref_id_def)
  from decide_ordinary [OF this assms(3,4)] show ?thesis
    by (simp add: security_check_target_def assms(1) checked_None option.map_comp comp_def
        outcome_of_def if_distrib cong: if_cong)
      (rule map_option_cong, auto)
qed

theorem target_granted_unless_denied_witness:
  "map_option fst (security_check_target (\<lambda>s. s) (\<lambda>_. None) OPERATION_SEND_TEXT_ROOM
     (Some (plain_entity (DbId 2 1) ENTITYTYPE_room (DbId 2 5) (DbId 2 9))) False
     (context_new (DbId 2 6) default_id)) = Some (Answer True)"
  by (subst target_granted_unless_denied [where k = SendTextRoomChecker])
    (simp_all add: check_cache_target_def cache_find_def context_new_def)

text \<open>
  A context with the builder capability whose program no longer exists may delete any
  entity of its site: the checker cannot decide whether it administers the entity, skips, and
  the deletion is granted.
\<close>

theorem missing_program_may_delete:
  assumes "check_cache_target OPERATION_DELETE_ENTITY (ent_id t) c = None"
    and "get_site_id (ent_id t) = get_site_id (requester c)" and "\<not> admin c"
    and "has_capability c CAPABILITY_BUILDER"
    and "program c \<noteq> default_id" and "db (program c) = None"
  shows "map_option fst (security_check_target trim db OPERATION_DELETE_ENTITY (Some t) False c)
    = Some (Answer True)"
proof -
  have "cross_site_checker c (ReqTarget (Some t)) = RESULT_ACCEPT"
    using assms(2) by (simp add: check_site_def ref_id_def)
  from decide_ordinary [OF this assms(3), of OPERATION_DELETE_ENTITY DeleteEntityChecker trim db]
  show ?thesis
    using assms
    by (simp add: security_check_target_def checked_None outcome_of_def is_admin_entity_def
        decided_or_def)
qed

theorem missing_program_may_delete_witness:
  "map_option fst (security_check_target (\<lambda>s. s) (\<lambda>_. None) OPERATION_DELETE_ENTITY
     (Some (plain_entity (DbId 2 1) ENTITYTYPE_room (DbId 2 5) (DbId 2 9))) False
     (add_capability CAPABILITY_BUILDER (context_new (DbId 2 6) (DbId 2 8)))) = Some (Answer True)"
  by (rule missing_program_may_delete)
    (simp_all add: check_cache_target_def cache_find_def context_new_def add_capability_def
      has_capability_def default_id_def)

text \<open>
  A check on an invalid reference is answered with true, whatever the operation, the
  context and the demand for an exception: the overloads return the enumerator
  \<open>RESULT_SKIP\<close>, whose value 4 converts to true. So is a check on an application path
  without a name.
\<close>

theorem invalid_reference_granted:
  "security_check_target trim db op None throw c = Some (Answer True, c)
    \<and> security_check_app trim db op None app throw c = Some (Answer True, c)
    \<and> security_check_field trim db op None f throw c = Some (Answer True, c)
    \<and> security_check_source trim db op None source throw c = Some (Answer True, c)
    \<and> security_check_source trim db op target None throw c = Some (Answer True, c)
    \<and> (get_application_name_from_path trim app = []
        \<longrightarrow> security_check_app trim db op (Some t) app throw c = Some (Answer True, c))"
  by (simp add: security_check_defs result_to_bool_def split: option.split)

theorem invalid_reference_granted_witness:
  "security_check_app (\<lambda>s. s) (\<lambda>_. None) OPERATION_SET_APPLICATION_PROPERTY
     (Some (plain_entity (DbId 2 1) ENTITYTYPE_room (DbId 2 5) (DbId 2 9))) [] True
     (context_new (DbId 2 6) default_id) = Some (Answer True, context_new (DbId 2 6) default_id)"
  using invalid_reference_granted [of "\<lambda>s. s" "\<lambda>_. None" OPERATION_SET_APPLICATION_PROPERTY True
      "context_new (DbId 2 6) default_id" "[]" ENTITYFIELD_name None None
      "plain_entity (DbId 2 1) ENTITYTYPE_room (DbId 2 5) (DbId 2 9)"]
  by (simp add: get_application_name_from_path_def)

text \<open>
  C10. No operation crosses sites: unless the requester or the target belongs to the global
  site, a check of any operation on a target of another site that the cache does not answer
  is denied, or throws when that is asked for, with administrator rights or without. That is
  so for each of the four overloads that name an entity: with a target alone, with an application of it (whenever
  the path names one), with a field of it, and with two entities, of which either one
  suffices. The two other overloads, a bare operation and an entity type, name no entity.
\<close>

theorem cross_site_denied:
  assumes "get_site_id (requester c) \<noteq> GLOBAL_SITE_ID"
    and "get_site_id (ent_id t) \<notin> {get_site_id (requester c), GLOBAL_SITE_ID}"
    and "check_cache_target op (ent_id t) c = None"
    and "check_cache_app op (ent_id t) (get_application_name_from_path trim app) c = None"
    and "get_application_name_from_path trim app \<noteq> []"
    and "check_cache_field op (ent_id t) f c = None"
    and "check_cache_source op (ent_id t) (ent_id s) c = None"
    and "check_cache_source op (ent_id s) (ent_id t) c = None"
  shows "let denied = (if throw then SecurityThrown else Answer False) in
    map_option fst (security_check_target trim db op (Some t) throw c) = Some denied
    \<and> map_option fst (security_check_app trim db op (Some t) app throw c) = Some denied
    \<and> map_option fst (security_check_field trim db op (Some t) f throw c) = Some denied
    \<and> map_option fst (security_check_source trim db op (Some t) (Some s) throw c) = Some denied
    \<and> map_option fst (security_check_source trim db op (Some s) (Some t) throw c) = Some denied"
proof -
  have site: "check_site (requester c) (ent_id t) = RESULT_DENY_ALWAYS"
    using assms(1,2) by (simp add: check_site_def)
  have "cross_site_checker c req = RESULT_DENY_ALWAYS"
    if "req \<in> {ReqTarget (Some t), ReqApp (Some t) (get_application_name_from_path trim app),
        ReqField (Some t) f, ReqPair (Some t) (Some s), ReqPair (Some s) (Some t)}" for req
    using that site by (auto simp: ref_id_def)
  from decide_cross_site [OF this] assms(3-8) show ?thesis
    by (simp add: security_check_defs checked_None outcome_of_def Let_def)
qed

theorem cross_site_denied_witness:
  "map_option fst (security_check_app (\<lambda>s. s) (\<lambda>_. None) OPERATION_SET_APPLICATION_PROPERTY
     (Some (plain_entity (DbId 3 1) ENTITYTYPE_room (DbId 3 5) (DbId 3 9))) ''prog/desc'' True
     (set_run_as_admin (context_new (DbId 2 6) default_id))) = Some SecurityThrown"
  using cross_site_denied [of "set_run_as_admin (context_new (DbId 2 6) default_id)"
      "plain_entity (DbId 3 1) ENTITYTYPE_room (DbId 3 5) (DbId 3 9)" OPERATION_SET_APPLICATION_PROPERTY
      "\<lambda>s. s" "''prog/desc''"
      ENTITYFIELD_name "plain_entity (DbId 3 1) ENTITYTYPE_room (DbId 3 5) (DbId 3 9)"
      True "\<lambda>_. None"]
  by (simp add: check_cache_defs cache_find_def context_new_def set_run_as_admin_def
      GLOBAL_SITE_ID_def get_application_name_from_path_def SEP_def Let_def)

text \<open>
  An administrator is granted every operation on the entities of its own site, whatever
  the operation's own checker would say, and never meets a locality walk that does not
  return.
\<close>

theorem admin_same_site_granted:
  assumes "admin c" and "get_site_id (ent_id t) = get_site_id (requester c)"
    and "get_site_id (ent_id s) = get_site_id (requester c)"
    and "check_cache_target op (ent_id t) c = None"
    and "check_cache_field op (ent_id t) f c = None"
    and "check_cache_source op (ent_id t) (ent_id s) c = None"
  shows "map_option fst (security_check_target trim db op (Some t) throw c) = Some (Answer True)
    \<and> map_option fst (security_check_field trim db op (Some t) f throw c) = Some (Answer True)
    \<and> map_option fst (security_check_source trim db op (Some t) (Some s) throw c)
        = Some (Answer True)"
proof -
  have "cross_site_checker c req \<noteq> RESULT_DENY_ALWAYS
      \<and> admin_security_checker c req = RESULT_ACCEPT_ALWAYS"
    if "req \<in> {ReqTarget (Some t), ReqField (Some t) f, ReqPair (Some t) (Some s)}" for req
    using that assms(1-3)
    by (auto simp: ref_id_def check_site_def cross_site_admin_check_def admin_check_def)
  with decide_admin have "decide_uncached trim db op c req = Some RESULT_ACCEPT"
    if "req \<in> {ReqTarget (Some t), ReqField (Some t) f, ReqPair (Some t) (Some s)}" for req
    using that by blast
  with assms(4-) show ?thesis
    by (simp add: security_check_defs checked_None outcome_of_def)
qed

theorem admin_same_site_granted_witness:
  "map_option fst (security_check_target (\<lambda>s. s) (\<lambda>_. None) OPERATION_DELETE_ENTITY
     (Some (plain_entity (DbId 2 1) ENTITYTYPE_room (DbId 2 5) (DbId 2 9))) True
     (set_run_as_admin (context_new (DbId 2 6) default_id))) = Some (Answer True)"
  using admin_same_site_granted [of "set_run_as_admin (context_new (DbId 2 6) default_id)"
      "plain_entity (DbId 2 1) ENTITYTYPE_room (DbId 2 5) (DbId 2 9)"
      "plain_entity (DbId 2 1) ENTITYTYPE_room (DbId 2 5) (DbId 2 9)" OPERATION_DELETE_ENTITY
      ENTITYFIELD_name "\<lambda>s. s" "\<lambda>_. None" True]
  by (simp add: check_cache_defs cache_find_def context_new_def set_run_as_admin_def)

text \<open>
  C5. Memoising is transparent: as long as each operation is always asked with the same
  overload and the entities do not change, a check answers what the checkers decide, whether
  or not it is answered by the cache, and leaves a cache of right decisions behind.
\<close>

theorem cached_check_is_uncached:
  assumes "cache_right form trim db c" and "form_of req = form op"
    and "refs_in db (normal_request trim req)"
  shows "map_option fst (ask trim db op req throw c)
      = map_option (outcome_of throw) (decide_uncached trim db op c (normal_request trim req))
    \<and> (\<forall>c'. map_option snd (ask trim db op req throw c) = Some c' \<longrightarrow> cache_right form trim db c')"
proof (cases "cache_find (entry_matches op (normal_request trim req)) c")
  case None
  then show ?thesis
    using stored_right [OF assms(1) _ _ assms(3), of op] assms(2)
    by (auto simp: ask_checked [OF assms(3)] checked_None option.map_comp comp_def)
next
  case (Some r)
  then show ?thesis
    using found_right [OF assms(1) Some _ assms(3)] assms(1,2)
    by (simp add: ask_checked [OF assms(3)] checked_Some)
qed

theorem cached_check_is_uncached_witness:
  "map_option fst (ask (\<lambda>s. s) (\<lambda>i. Some (plain_entity i ENTITYTYPE_room (DbId 2 5) (DbId 2 9)))
     OPERATION_SEND_TEXT_ENTITY
     (ReqTarget (Some (plain_entity (DbId 2 1) ENTITYTYPE_room (DbId 2 5) (DbId 2 9)))) True
     (context_new (DbId 2 6) default_id)) = Some SecurityThrown"
  using cached_check_is_uncached [of "\<lambda>_. FTarget" "\<lambda>s. s"
      "\<lambda>i. Some (plain_entity i ENTITYTYPE_room (DbId 2 5) (DbId 2 9))"
      "context_new (DbId 2 6) default_id"
      "ReqTarget (Some (plain_entity (DbId 2 1) ENTITYTYPE_room (DbId 2 5) (DbId 2 9)))"
      OPERATION_SEND_TEXT_ENTITY True]
  by (simp add: cache_right_def context_new_def ref_id_def decide_uncached_steps check_site_def
      has_capability_def outcome_of_def cross_site_admin_check_def admin_check_def accept_if_def)

text \<open>
  C24. Populating gives a context exactly the capabilities whose groups, on the requester's
  site or the global site, count its program or, when it runs as its requester, the
  requester among their members; the administrator flag goes with the capability of that
  name or with the identifiers 3 and 4 of a site. The per-site cache of groups does not
  change the outcome.
\<close>

theorem populate_context_exact:
  assumes "cache_fresh db find_cap m" and "\<not> populated_capabilities c"
    and "\<not> is_site_default (requester c)" and "capabilities c = []" and "\<not> admin c"
  defines "K \<equiv> {k. \<exists>site \<in> {get_site_id (requester c), GLOBAL_SITE_ID}.
      holds_in db c (groups_of db find_cap site k)}"
  shows "set (capabilities (snd (populate_context_capabilities db find_cap (m, c)))) = K
    \<and> (admin (snd (populate_context_capabilities db find_cap (m, c)))
        \<longleftrightarrow> CAPABILITY_ADMIN \<in> K \<or> get_entity_id (requester c) \<in> {3, 4})
    \<and> cache_fresh db find_cap (fst (populate_context_capabilities db find_cap (m, c)))"
proof -
  obtain m1 c1 where s1: "populate_site_capabilities db find_cap (get_site_id (requester c)) (m, c)
      = (m1, c1)" by fastforce
  obtain m2 c2 where s2: "populate_site_capabilities db find_cap GLOBAL_SITE_ID (m1, c1)
      = (m2, c2)" by fastforce
  from populate_site_spec [OF assms(1), of "get_site_id (requester c)" c] s1
  have 1: "cache_fresh db find_cap m1"
    "extends_by c {k. holds_in db c (groups_of db find_cap (get_site_id (requester c)) k)} c1"
    by simp_all
  from populate_site_spec [OF 1(1), of GLOBAL_SITE_ID c1] s2
  have 2: "cache_fresh db find_cap m2"
    "extends_by c1 {k. holds_in db c (groups_of db find_cap GLOBAL_SITE_ID k)} c2"
    by (simp_all add: extends_by_holds [OF 1(2)])
  have "{k. holds_in db c (groups_of db find_cap (get_site_id (requester c)) k)}
      \<union> {k. holds_in db c (groups_of db find_cap GLOBAL_SITE_ID k)} = K"
    by (auto simp: K_def)
  with extends_by_trans [OF 1(2) 2(2)] have e: "extends_by c K c2" by simp
  show ?thesis
    using assms(2-5) e 2(1)
    by (auto simp: populate_context_capabilities_def s1 s2 Let_def extends_by_def
        set_run_as_admin_def capabilities_set_def)
qed

theorem populate_context_exact_witness:
  "admin (snd (populate_context_capabilities (\<lambda>_. None) (\<lambda>_ _. []) (\<lambda>_. None,
     context_new (DbId 2 3) default_id)))"
  by (rule populate_context_exact [THEN conjunct2, THEN conjunct1, THEN iffD2])
    (simp_all add: cache_fresh_def site_caps_def context_new_def is_site_default_def)

text \<open>
  A capability whose entity is missing when it is first looked up stays unknown for as
  long as its site lives: the cache keeps the default identifier for it, and no change of an
  entity, its creation included, clears that entry again.
\<close>

theorem missing_capability_sticks:
  assumes "length (find_cap site (capability_to_string k)) \<noteq> 1" and "default_id \<notin> set changed"
    and "site_caps m site = [] \<or> started m site"
  shows "site_caps (fold capability_changed changed
      (populate_capability_cache db find_cap site k m)) site ! capability_index k = [default_id]"
proof (rule capability_changes_keep)
  have "groups_of db find_cap site k = [default_id]"
    using assms(1) by (simp add: groups_of_def add_referenced_groups_def)
  then show "site_caps (populate_capability_cache db find_cap site k m) site ! capability_index k
      = [default_id]"
    using assms(3) by (auto simp: populate_capability_cache_caps started_def)
  show "capability_index k < length (site_caps (populate_capability_cache db find_cap site k m) site)"
    using assms(3) by (auto simp: populate_capability_cache_caps started_def)
qed (rule assms(2))

theorem missing_capability_sticks_witness:
  "site_caps (fold capability_changed [DbId 2 7, DbId 2 8]
      (populate_capability_cache (\<lambda>_. None) (\<lambda>_ _. []) 2 CAPABILITY_BUILDER (\<lambda>_. None))) 2
    ! capability_index CAPABILITY_BUILDER = [default_id]"
  by (rule missing_capability_sticks) (simp_all add: default_id_def site_caps_def)

end
