(* ===== verification/OrdMap.thy ===== *)
theory OrdMap
  imports Prelude
begin

text \<open>
  \<open>std::map\<close> as the executor and the channel manager use it: a list of pairs in the order of
  the keys, which is the order the code iterates in. The interface a client needs (what a
  lookup returns after an insertion or an erasure, and which keys an iteration visits) is the
  locale \<open>ordered_map\<close>; the lemmas a client uses are proved in it once.
\<close>

fun map_put :: "'k::linorder \<Rightarrow> 'v \<Rightarrow> ('k \<times> 'v) list \<Rightarrow> ('k \<times> 'v) list" where
  "map_put k v [] = [(k, v)]"
| "map_put k v ((k', v') # m) =
     (if k < k' then (k, v) # (k', v') # m
      else if k = k' then (k, v) # m else (k', v') # map_put k v m)"

definition map_erase :: "'k \<Rightarrow> ('k \<times> 'v) list \<Rightarrow> ('k \<times> 'v) list" where
  "map_erase k m = filter (\<lambda>e. fst e \<noteq> k) m"

definition map_keys :: "('k \<times> 'v) list \<Rightarrow> 'k list" where
  "map_keys m = map fst m"

definition map_sorted :: "('k::linorder \<times> 'v) list \<Rightarrow> bool" where
  "map_sorted m \<longleftrightarrow> sorted_wrt (<) (map fst m)"

locale ordered_map =
  fixes lookup :: "'m \<Rightarrow> 'k \<Rightarrow> 'v option"
    and put :: "'k \<Rightarrow> 'v \<Rightarrow> 'm \<Rightarrow> 'm"
    and erase :: "'k \<Rightarrow> 'm \<Rightarrow> 'm"
    and keys :: "'m \<Rightarrow> 'k list"
    and good :: "'m \<Rightarrow> bool"
  assumes lookup_put: "good m \<Longrightarrow> lookup (put k v m) k' = (if k' = k then Some v else lookup m k')"
    and lookup_erase: "good m \<Longrightarrow> lookup (erase k m) k' = (if k' = k then None else lookup m k')"
    and good_put: "good m \<Longrightarrow> good (put k v m)"
    and good_erase: "good m \<Longrightarrow> good (erase k m)"
    and set_keys: "good m \<Longrightarrow> set (keys m) = {k. lookup m k \<noteq> None}"
    and distinct_keys: "good m \<Longrightarrow> distinct (keys m)"
begin

lemma mem_keys: "good m \<Longrightarrow> k \<in> set (keys m) \<longleftrightarrow> lookup m k \<noteq> None"
  by (simp add: set_keys)

lemma set_keys_put: "good m \<Longrightarrow> set (keys (put k v m)) = insert k (set (keys m))"
  by (auto simp: set_keys good_put lookup_put)

lemma set_keys_erase: "good m \<Longrightarrow> set (keys (erase k m)) = set (keys m) - {k}"
  by (auto simp: set_keys good_erase lookup_erase)

lemma length_keys: "good m \<Longrightarrow> length (keys m) = card {k. lookup m k \<noteq> None}"
  by (metis distinct_card distinct_keys set_keys)

lemma lookup_erase_all:
  "good m \<Longrightarrow> good (fold erase ks m)
     \<and> lookup (fold erase ks m) k = (if k \<in> set ks then None else lookup m k)"
  by (induction ks arbitrary: m) (auto simp: lookup_erase good_erase)

lemma erase_own_keys: "good m \<Longrightarrow> lookup (fold erase (keys m) m) k = None"
  by (simp add: lookup_erase_all set_keys)

end

lemma map_sorted_Nil [simp]: "map_sorted []"
  by (simp add: map_sorted_def)

lemma map_sorted_Cons:
  "map_sorted ((k, v) # m) \<longleftrightarrow> (\<forall>k' \<in> fst ` set m. k < k') \<and> map_sorted m"
  by (auto simp: map_sorted_def)

lemma fst_set_map_put: "fst ` set (map_put k v m) = insert k (fst ` set m)"
  by (induction k v m rule: map_put.induct) auto

lemma map_sorted_put: "map_sorted m \<Longrightarrow> map_sorted (map_put k v m)"
proof (induction k v m rule: map_put.induct)
  case (2 k v k' v' m)
  then show ?case by (auto simp: map_sorted_Cons fst_set_map_put)
qed (simp add: map_sorted_Cons)

lemma map_sorted_erase: "map_sorted m \<Longrightarrow> map_sorted (map_erase k m)"
  by (induction m) (auto simp: map_sorted_Cons map_erase_def)

lemma map_of_put: "map_sorted m \<Longrightarrow> map_of (map_put k v m) k' = (if k' = k then Some v else map_of m k')"
proof (induction k v m rule: map_put.induct)
  case (2 k v a b m)
  then show ?case by (auto simp: map_sorted_Cons)
qed auto

lemma map_of_erase: "map_of (map_erase k m) k' = (if k' = k then None else map_of m k')"
  by (induction m) (auto simp: map_erase_def)

interpretation om: ordered_map map_of map_put map_erase map_keys map_sorted
proof
  fix m :: "('k::linorder \<times> 'v) list" and k k' v
  assume m: "map_sorted m"
  show "map_of (map_put k v m) k' = (if k' = k then Some v else map_of m k')"
    by (rule map_of_put [OF m])
  show "map_of (map_erase k m) k' = (if k' = k then None else map_of m k')"
    by (rule map_of_erase)
  show "map_sorted (map_put k v m)" by (rule map_sorted_put [OF m])
  show "map_sorted (map_erase k m)" by (rule map_sorted_erase [OF m])
  show "set (map_keys m) = {k. map_of m k \<noteq> None}"
    by (auto simp: map_keys_def map_of_eq_None_iff)
  show "distinct (map_keys m)"
    using m by (simp add: map_keys_def map_sorted_def strict_sorted_iff)
qed

subsection \<open>Neighbours\<close>

text \<open>The key after a given one in the order of iteration, if both exist.\<close>

fun key_after :: "'k \<Rightarrow> 'k list \<Rightarrow> 'k option" where
  "key_after k [] = None"
| "key_after k (x # xs) = (if x = k then (case xs of [] \<Rightarrow> None | y # ys \<Rightarrow> Some y) else key_after k xs)"

lemma key_after_Cons: "k \<noteq> x \<Longrightarrow> key_after k (x # xs) = key_after k xs"
  "key_after k (k # xs) = (if xs = [] then None else Some (hd xs))"
  by (cases xs; simp)+

declare key_after.simps(2) [simp del]

lemma Min_sorted:
  assumes "sorted_wrt (<) (xs :: 'k::linorder list)" and "xs \<noteq> []"
  shows "Min (set xs) = hd xs"
proof (rule Min_eqI)
  show "hd xs \<in> set xs" using assms(2) by simp
  show "hd xs \<le> k" if "k \<in> set xs" for k
    using assms that by (cases xs) (auto simp: less_imp_le)
qed simp

lemma Max_sorted:
  assumes "sorted_wrt (<) (xs :: 'k::linorder list)" and "xs \<noteq> []"
  shows "Max (set xs) = last xs"
proof (rule Max_eqI)
  show "last xs \<in> set xs" using assms(2) by simp
  show "k \<le> last xs" if "k \<in> set xs" for k
    using assms that by (cases xs rule: rev_cases) (auto simp: sorted_wrt_append less_imp_le)
qed simp

lemma key_after_least:
  assumes "sorted_wrt (<) (xs :: 'k::linorder list)" and "n \<in> set xs"
  shows "key_after n xs = (let above = {k \<in> set xs. n < k} in if above = {} then None else Some (Min above))"
  using assms
proof (induction xs)
  case (Cons x xs)
  show ?case
  proof (cases "x = n")
    case True
    then have "{k \<in> set (x # xs). n < k} = set xs" using Cons.prems(1) by auto
    then show ?thesis using True Cons.prems(1) Min_sorted [of xs] by (simp add: key_after_Cons)
  next
    case False
    then have "n \<in> set xs" using Cons.prems(2) by auto
    moreover from this have "{k \<in> set (x # xs). n < k} = {k \<in> set xs. n < k}"
      using Cons.prems(1) by auto
    ultimately show ?thesis using Cons.IH Cons.prems(1) False by (simp add: key_after_Cons)
  qed
qed simp

lemma key_before_greatest:
  assumes "sorted_wrt (<) (xs :: 'k::linorder list)" and "n \<in> set xs"
  shows "key_after n (rev xs) = (let below = {k \<in> set xs. k < n} in if below = {} then None else Some (Max below))"
  using assms
proof (induction xs rule: rev_induct)
  case (snoc x xs)
  have sorted: "sorted_wrt (<) xs" "\<forall>k \<in> set xs. k < x"
    using snoc.prems(1) by (auto simp: sorted_wrt_append)
  show ?case
  proof (cases "x = n")
    case True
    then have "{k \<in> set (xs @ [x]). k < n} = set xs" using sorted by auto
    then show ?thesis using True sorted Max_sorted [of xs] by (simp add: key_after_Cons hd_rev)
  next
    case False
    then have n: "n \<in> set xs" using snoc.prems(2) by auto
    moreover from this have "{k \<in> set (xs @ [x]). k < n} = {k \<in> set xs. k < n}"
      using sorted by force
    ultimately show ?thesis using snoc.IH sorted False by (simp add: key_after_Cons)
  qed
qed simp

end
