(* ===== verification/ProcInfo.thy ===== *)
theory ProcInfo
  imports DbIds OrdMap
begin

text \<open>
  \<open>executor::ProcessInfo\<close>
  (\<^verbatim>\<open>src/src/executor/executor_ProcessInfo.cpp\<close>): the state, the message queue and the
  resources of one process.

  Most methods come twice: with a lock token, which is refused when it is not a lock on this
  object, and without, taking the lock themselves. The argument \<open>lk\<close> is
  \<open>token.has_lock(*this)\<close>; the second form is the first with \<open>True\<close>. The types \<open>'m\<close> and
  \<open>'r\<close> stand for pointers to messages and resources, \<open>None\<close> for a null pointer. Messages
  that the object deletes are listed by the operations that delete them.
\<close>

subsection \<open>Data\<close>

datatype process_state =
    PROCESS_STATE_EXECUTING | PROCESS_STATE_READY | PROCESS_STATE_WAIT_MESSAGE
  | PROCESS_STATE_SLEEPING | PROCESS_STATE_SUSPENDED | PROCESS_STATE_BLOCKED
  | PROCESS_STATE_SCHEDULING | PROCESS_STATE_KILLED | PROCESS_STATE_COMPLETED
  | PROCESS_STATE_CREATED | PROCESS_STATE_END_INVALID

fun process_state_to_string :: "process_state \<Rightarrow> string" where
  "process_state_to_string PROCESS_STATE_EXECUTING = ''EXECUTING''"
| "process_state_to_string PROCESS_STATE_READY = ''READY''"
| "process_state_to_string PROCESS_STATE_WAIT_MESSAGE = ''WAIT_MESSAGE''"
| "process_state_to_string PROCESS_STATE_SLEEPING = ''SLEEPING''"
| "process_state_to_string PROCESS_STATE_SUSPENDED = ''SUSPENDED''"
| "process_state_to_string PROCESS_STATE_BLOCKED = ''BLOCKED''"
| "process_state_to_string PROCESS_STATE_SCHEDULING = ''SCHEDULING''"
| "process_state_to_string PROCESS_STATE_KILLED = ''KILLED''"
| "process_state_to_string PROCESS_STATE_COMPLETED = ''COMPLETED''"
| "process_state_to_string PROCESS_STATE_CREATED = ''CREATED''"
| "process_state_to_string PROCESS_STATE_END_INVALID = ''INVALID''"

record ('m, 'r) process_info =
  my_pid :: u32
  my_db_executable_id :: db_id
  my_db_owner_id :: db_id
  process_state :: process_state
  pending_killed :: bool
  pending_suspended :: bool
  daemon :: bool
  wakeup_time :: nat
  waiting_messages :: "(u32 \<times> 'm) list"
  resources :: "(u32 \<times> 'r) list"
  default_blocked_resources :: "u32 set"
  blocked_resources :: "u32 set"

definition process_info_new :: "u32 \<Rightarrow> db_id \<Rightarrow> db_id \<Rightarrow> ('m, 'r) process_info" where
  "process_info_new pid exe owner = \<lparr>my_pid = pid, my_db_executable_id = exe,
     my_db_owner_id = owner, process_state = PROCESS_STATE_CREATED, pending_killed = False,
     pending_suspended = False, daemon = False, wakeup_time = 0, waiting_messages = [],
     resources = [], default_blocked_resources = {}, blocked_resources = {}\<rparr>"

subsection \<open>States and flags\<close>

definition get_process_state :: "bool \<Rightarrow> ('m, 'r) process_info \<Rightarrow> process_state" where
  "get_process_state lk p = (if lk then process_state p else PROCESS_STATE_CREATED)"

definition set_process_state ::
    "process_state \<Rightarrow> bool \<Rightarrow> ('m, 'r) process_info \<Rightarrow> ('m, 'r) process_info \<times> bool" where
  "set_process_state st lk p = (if lk then (p\<lparr>process_state := st\<rparr>, True) else (p, False))"

definition get_pending_killed :: "bool \<Rightarrow> ('m, 'r) process_info \<Rightarrow> bool" where
  "get_pending_killed lk p = (if lk then pending_killed p else False)"

definition set_pending_killed ::
    "bool \<Rightarrow> bool \<Rightarrow> ('m, 'r) process_info \<Rightarrow> ('m, 'r) process_info \<times> bool" where
  "set_pending_killed b lk p = (if lk then (p\<lparr>pending_killed := b\<rparr>, True) else (p, False))"

definition get_pending_suspended :: "bool \<Rightarrow> ('m, 'r) process_info \<Rightarrow> bool" where
  "get_pending_suspended lk p = (if lk then pending_suspended p else False)"

definition set_pending_suspended ::
    "bool \<Rightarrow> bool \<Rightarrow> ('m, 'r) process_info \<Rightarrow> ('m, 'r) process_info \<times> bool" where
  "set_pending_suspended b lk p = (if lk then (p\<lparr>pending_suspended := b\<rparr>, True) else (p, False))"

definition get_daemon :: "bool \<Rightarrow> ('m, 'r) process_info \<Rightarrow> bool" where
  "get_daemon lk p = (if lk then daemon p else False)"

definition set_daemon ::
    "bool \<Rightarrow> bool \<Rightarrow> ('m, 'r) process_info \<Rightarrow> ('m, 'r) process_info \<times> bool" where
  "set_daemon b lk p = (if lk then (p\<lparr>daemon := b\<rparr>, True) else (p, False))"

text \<open>The steady clock is a number of milliseconds, \<open>now\<close> its reading at the call.\<close>

definition get_wakeup_time :: "nat \<Rightarrow> bool \<Rightarrow> ('m, 'r) process_info \<Rightarrow> nat" where
  "get_wakeup_time now lk p = (if lk then wakeup_time p else now)"

definition set_sleep_time_offset ::
    "nat \<Rightarrow> u32 \<Rightarrow> bool \<Rightarrow> ('m, 'r) process_info \<Rightarrow> ('m, 'r) process_info \<times> bool" where
  "set_sleep_time_offset now offset_ms lk p =
     (if lk then (p\<lparr>wakeup_time := now + unat offset_ms\<rparr>, True) else (p, False))"

subsection \<open>Resources\<close>

definition remove_blocked_resource ::
    "u32 \<Rightarrow> bool \<Rightarrow> ('m, 'r) process_info \<Rightarrow> ('m, 'r) process_info \<times> bool" where
  "remove_blocked_resource rid lk p =
     (if lk then
        let p = (if rid \<notin> blocked_resources p then p
                 else p\<lparr>blocked_resources := blocked_resources p - {rid}\<rparr>)
        in (p, blocked_resources p = {})
      else (p, True))"

definition blocked_resources_empty :: "bool \<Rightarrow> ('m, 'r) process_info \<Rightarrow> bool" where
  "blocked_resources_empty lk p = (if lk then blocked_resources p = {} else False)"

definition reset_blocked_resources ::
    "bool \<Rightarrow> ('m, 'r) process_info \<Rightarrow> ('m, 'r) process_info \<times> bool" where
  "reset_blocked_resources lk p =
     (if lk then (p\<lparr>blocked_resources := default_blocked_resources p\<rparr>, True) else (p, False))"

definition add_resource ::
    "u32 \<Rightarrow> 'r option \<Rightarrow> bool \<Rightarrow> ('m, 'r) process_info \<Rightarrow> ('m, 'r) process_info \<times> bool" where
  "add_resource rid resource lk p =
     (if rid = 0 then (p, False)
      else case resource of None \<Rightarrow> (p, False)
      | Some r \<Rightarrow>
        if lk then (p\<lparr>resources := map_put rid r (resources p)\<rparr>, True) else (p, False))"

definition add_blocking_resource ::
    "u32 \<Rightarrow> 'r option \<Rightarrow> bool \<Rightarrow> ('m, 'r) process_info \<Rightarrow> ('m, 'r) process_info \<times> bool" where
  "add_blocking_resource rid resource lk p =
     (if lk then
        (case add_resource rid resource lk p of (p, ok) \<Rightarrow>
           if ok then (p\<lparr>blocked_resources := insert rid (blocked_resources p),
               default_blocked_resources := insert rid (default_blocked_resources p)\<rparr>, True)
           else (p, False))
      else (p, False))"

text \<open>Removal by identifier takes it out of both sets.\<close>

definition remove_resource ::
    "u32 \<Rightarrow> bool \<Rightarrow> ('m, 'r) process_info \<Rightarrow> ('m, 'r) process_info \<times> 'r option" where
  "remove_resource rid lk p =
     (if lk then
        (case map_of (resources p) rid of None \<Rightarrow> (p, None)
         | Some r \<Rightarrow> (p\<lparr>resources := map_erase rid (resources p),
             blocked_resources := blocked_resources p - {rid},
             default_blocked_resources := default_blocked_resources p - {rid}\<rparr>, Some r))
      else (p, None))"

text \<open>
  Removal by pointer takes the first identifier it finds in the order of the map, and leaves
  it in the template of blocked resources.
\<close>

definition remove_resource_ptr ::
    "'r option \<Rightarrow> bool \<Rightarrow> ('m, 'r) process_info \<Rightarrow> ('m, 'r) process_info \<times> u32" where
  "remove_resource_ptr resource lk p =
     (case resource of None \<Rightarrow> (p, 0)
      | Some r \<Rightarrow>
        if lk then
          (case find (\<lambda>e. snd e = r) (resources p) of None \<Rightarrow> (p, 0)
           | Some (rid, _) \<Rightarrow> (p\<lparr>blocked_resources := blocked_resources p - {rid},
               resources := map_erase rid (resources p)\<rparr>, rid))
        else (p, 0))"

definition get_resource_ids :: "bool \<Rightarrow> ('m, 'r) process_info \<Rightarrow> u32 list" where
  "get_resource_ids lk p = (if lk then map_keys (resources p) else [])"

subsection \<open>Messages\<close>

text \<open>
  \<open>add_message\<close> with an identifier: a resource that is not this process's is detected, but
  the branch ends in \<open>return true\<close>, as for a message that was queued.
\<close>

definition add_message_rid ::
    "'m option \<Rightarrow> u32 \<Rightarrow> bool \<Rightarrow> ('m, 'r) process_info \<Rightarrow> ('m, 'r) process_info \<times> bool" where
  "add_message_rid message rid lk p =
     (case message of None \<Rightarrow> (p, True)
      | Some m \<Rightarrow>
        if lk then
          (if rid = 0 then (p\<lparr>waiting_messages := waiting_messages p @ [(rid, m)]\<rparr>, True)
           else if map_of (resources p) rid = None then (p, True)
           else (fst (remove_blocked_resource rid lk
               (p\<lparr>waiting_messages := waiting_messages p @ [(rid, m)]\<rparr>)), True))
        else (p, True))"

definition add_message ::
    "'m option \<Rightarrow> bool \<Rightarrow> ('m, 'r) process_info \<Rightarrow> ('m, 'r) process_info \<times> bool" where
  "add_message message lk p = add_message_rid message 0 lk p"

text \<open>
  \<open>get_next_message\<close> on an empty queue reads \<open>std::queue::front\<close> of an empty queue,
  which is undefined: \<open>None\<close>. With a foreign token it returns a null pointer.
\<close>

definition get_next_message ::
    "bool \<Rightarrow> ('m, 'r) process_info \<Rightarrow> (('m, 'r) process_info \<times> (u32 \<times> 'm) option) option" where
  "get_next_message lk p =
     (if lk then
        (case waiting_messages p of [] \<Rightarrow> None
         | e # es \<Rightarrow> Some (p\<lparr>waiting_messages := es\<rparr>, Some e))
      else Some (p, None))"

definition messages_empty :: "bool \<Rightarrow> ('m, 'r) process_info \<Rightarrow> bool" where
  "messages_empty lk p = (if lk then waiting_messages p = [] else True)"

text \<open>\<open>clear_all_messages\<close> and \<open>cleanup\<close>, with the messages they delete.\<close>

definition clear_all_messages ::
    "bool \<Rightarrow> ('m, 'r) process_info \<Rightarrow> ('m, 'r) process_info \<times> 'm list \<times> bool" where
  "clear_all_messages lk p =
     (if lk then (p\<lparr>waiting_messages := []\<rparr>, map snd (waiting_messages p), True)
      else (p, [], False))"

definition cleanup ::
    "bool \<Rightarrow> ('m, 'r) process_info \<Rightarrow> ('m, 'r) process_info \<times> 'm list \<times> bool" where
  "cleanup lk p =
     (if lk then (p\<lparr>waiting_messages := [], resources := [], blocked_resources := {}\<rparr>,
        map snd (waiting_messages p), True)
      else (p, [], False))"

subsection \<open>The operations as one set, and the invariant\<close>

datatype ('m, 'r) info_op =
    ISetState process_state | IKill bool | ISuspend bool | IDaemon bool | ISleep nat u32
  | IAddMessage "'m option" u32 | INextMessage | IClearMessages
  | IAddResource u32 "'r option" | IAddBlocking u32 "'r option" | IRemove u32
  | IRemovePtr "'r option" | IReset | IUnblock u32 | ICleanup

fun info_step :: "('m, 'r) info_op \<times> bool \<Rightarrow> ('m, 'r) process_info \<Rightarrow> ('m, 'r) process_info" where
  "info_step (ISetState st, lk) p = fst (set_process_state st lk p)"
| "info_step (IKill b, lk) p = fst (set_pending_killed b lk p)"
| "info_step (ISuspend b, lk) p = fst (set_pending_suspended b lk p)"
| "info_step (IDaemon b, lk) p = fst (set_daemon b lk p)"
| "info_step (ISleep now ms, lk) p = fst (set_sleep_time_offset now ms lk p)"
| "info_step (IAddMessage m rid, lk) p = fst (add_message_rid m rid lk p)"
| "info_step (INextMessage, lk) p =
     (case get_next_message lk p of None \<Rightarrow> p | Some (p', _) \<Rightarrow> p')"
| "info_step (IClearMessages, lk) p = fst (clear_all_messages lk p)"
| "info_step (IAddResource rid r, lk) p = fst (add_resource rid r lk p)"
| "info_step (IAddBlocking rid r, lk) p = fst (add_blocking_resource rid r lk p)"
| "info_step (IRemove rid, lk) p = fst (remove_resource rid lk p)"
| "info_step (IRemovePtr r, lk) p = fst (remove_resource_ptr r lk p)"
| "info_step (IReset, lk) p = fst (reset_blocked_resources lk p)"
| "info_step (IUnblock rid, lk) p = fst (remove_blocked_resource rid lk p)"
| "info_step (ICleanup, lk) p = fst (cleanup lk p)"

text \<open>
  What holds of every reachable object: the resources are in order, none has the invalid
  identifier. That only resources of the process block it holds only as long as none was
  removed by pointer; see the properties.
\<close>

definition info_wf :: "('m, 'r) process_info \<Rightarrow> bool" where
  "info_wf p \<longleftrightarrow> map_sorted (resources p) \<and> map_of (resources p) 0 = None"

definition blocks_own :: "('m, 'r) process_info \<Rightarrow> bool" where
  "blocks_own p \<longleftrightarrow> blocked_resources p \<union> default_blocked_resources p \<subseteq> set (map_keys (resources p))"

lemmas info_op_defs = set_process_state_def set_pending_killed_def set_pending_suspended_def
  set_daemon_def set_sleep_time_offset_def add_message_rid_def get_next_message_def
  clear_all_messages_def add_resource_def add_blocking_resource_def remove_resource_def
  remove_resource_ptr_def reset_blocked_resources_def remove_blocked_resource_def cleanup_def

lemma info_step_wf: "info_wf p \<Longrightarrow> info_wf (info_step x p)"
  by (induction x p rule: info_step.induct)
    (auto simp: info_wf_def info_op_defs Let_def om.good_put om.good_erase om.lookup_put
      om.lookup_erase split: option.split list.split)

interpretation info: invariant_ops info_step info_wf
  by unfold_locales (rule info_step_wf)

lemma info_wf_new [simp]: "info_wf (process_info_new pid exe owner)"
  by (simp add: info_wf_def process_info_new_def)

text \<open>The steps that keep the blocking sets inside the resources.\<close>

fun keeps_blocks :: "('m, 'r) info_op \<times> bool \<Rightarrow> bool" where
  "keeps_blocks (IRemovePtr _, _) = False"
| "keeps_blocks (ICleanup, _) = False"
| "keeps_blocks _ = True"

lemma blocks_own_step:
  assumes "info_wf p" and "blocks_own p" and "keeps_blocks x"
  shows "blocks_own (info_step x p)"
proof -
  have keys: "set (map_keys (map_put rid r (resources p))) = insert rid (set (map_keys (resources p)))"
    "set (map_keys (map_erase rid (resources p))) = set (map_keys (resources p)) - {rid}" for rid r
    using assms(1) by (simp_all add: info_wf_def om.set_keys_put om.set_keys_erase)
  from assms(2,3) show ?thesis
    by (cases "(x, p)" rule: info_step.cases)
      (auto simp: blocks_own_def info_op_defs Let_def keys split: option.splits list.splits)
qed

text \<open>A wrapper that gives up the steps outside \<open>keeps_blocks\<close>, as an instance of the interface.\<close>

definition blocks_step :: "('m, 'r) info_op \<times> bool \<Rightarrow> ('m, 'r) process_info \<Rightarrow> ('m, 'r) process_info"
where
  "blocks_step x p = (if keeps_blocks x then info_step x p else p)"

interpretation blocks: invariant_ops blocks_step "\<lambda>p. info_wf p \<and> blocks_own p"
  by unfold_locales (auto simp: blocks_step_def info_step_wf blocks_own_step)

lemma fold_blocks: "\<forall>x \<in> set xs. keeps_blocks x \<Longrightarrow> fold blocks_step xs p = fold info_step xs p"
  by (induction xs arbitrary: p) (auto simp: blocks_step_def)

subsection \<open>A resource that blocks and is gone\<close>

definition stuck_on :: "u32 \<Rightarrow> ('m, 'r) process_info \<Rightarrow> bool" where
  "stuck_on rid p \<longleftrightarrow> map_of (resources p) rid = None \<and> rid \<in> blocked_resources p"

lemma add_message_stuck: "stuck_on rid p \<Longrightarrow> stuck_on rid (fst (add_message_rid m rid' lk p))"
  by (auto simp: stuck_on_def add_message_rid_def remove_blocked_resource_def Let_def
      split: option.split)

lemma add_messages_stuck:
  "stuck_on rid p \<Longrightarrow> stuck_on rid (fold (\<lambda>(m, rid'). \<lambda>p. fst (add_message_rid m rid' True p)) ms p)"
  by (induction ms arbitrary: p) (auto simp: add_message_stuck)

subsection \<open>Properties\<close>

text \<open>
  Whatever is called on a process's information, with whatever lock tokens, its
  resources stay in order under distinct identifiers and none has the invalid identifier 0;
  and as long as no resource was removed by pointer and the object was not cleaned up, a
  process blocks, now or after a reset, only on resources it has.
\<close>

theorem process_info_invariant:
  "info_wf (fold info_step xs (process_info_new pid exe owner))
    \<and> ((\<forall>x \<in> set xs. keeps_blocks x)
        \<longrightarrow> blocks_own (fold info_step xs (process_info_new pid exe owner)))"
proof -
  have "blocks_own (process_info_new pid exe owner)"
    by (simp add: blocks_own_def process_info_new_def)
  then show ?thesis
    using blocks.run_good [of "process_info_new pid exe owner" xs]
    by (auto simp: info.run_good fold_blocks)
qed

theorem process_info_invariant_witness:
  "blocks_own (fold info_step [(IAddBlocking 5 (Some ''chan''), True), (IRemove 5, True)]
     (process_info_new 7 default_id default_id :: (nat, string) process_info))"
  using process_info_invariant [of
      "[(IAddBlocking 5 (Some ''chan''), True), (IRemove 5, True)] :: ((nat, string) info_op \<times> bool) list"
      7 default_id default_id]
  by simp

text \<open>
  A message for a resource the process does not have is reported as added but is neither
  queued nor does it unblock anything: the caller, who deletes a refused message, keeps
  believing it was taken.
\<close>

theorem unknown_resource_message_lost:
  assumes "rid \<noteq> 0" and "map_of (resources p) rid = None"
  shows "add_message_rid (Some m) rid True p = (p, True)"
  using assms by (simp add: add_message_rid_def)

theorem unknown_resource_message_lost_witness:
  "add_message_rid (Some ''hi'') 9 True (process_info_new 7 default_id default_id :: (string, nat) process_info)
   = (process_info_new 7 default_id default_id, True)"
  by (rule unknown_resource_message_lost) (simp_all add: process_info_new_def)

text \<open>
  A blocking resource removed by pointer blocks its process forever: the identifier stays
  in the template, the next reset puts it back among the blocked resources, and no message
  whatever takes it out again.
\<close>

theorem removed_by_pointer_blocks_forever:
  assumes "info_wf p" and "find (\<lambda>e. snd e = r) (resources p) = Some (rid, r)"
    and "rid \<in> default_blocked_resources p"
  defines "q \<equiv> fst (reset_blocked_resources True (fst (remove_resource_ptr (Some r) True p)))"
  shows "\<not> blocked_resources_empty True
    (fold (\<lambda>(m, rid'). \<lambda>p. fst (add_message_rid m rid' True p)) ms q)"
proof -
  have "stuck_on rid q"
    using assms
    by (simp add: stuck_on_def reset_blocked_resources_def remove_resource_ptr_def
        info_wf_def om.lookup_erase)
  from add_messages_stuck [OF this, of ms] show ?thesis
    by (auto simp: stuck_on_def blocked_resources_empty_def)
qed

theorem removed_by_pointer_blocks_forever_witness:
  "\<not> blocked_resources_empty True (fold (\<lambda>(m, rid'). \<lambda>p. fst (add_message_rid m rid' True p))
     [(Some ''wake'', 5)]
     (fst (reset_blocked_resources True (fst (remove_resource_ptr (Some ''chan'') True
       (fst (add_blocking_resource 5 (Some ''chan'') True
         (process_info_new 7 default_id default_id))))))))"
  by (rule removed_by_pointer_blocks_forever [where rid = 5])
    (simp_all add: info_wf_def add_blocking_resource_def add_resource_def process_info_new_def
      map_sorted_Cons)

text \<open>Taking a number of messages, one after the other.\<close>

fun take_messages :: "nat \<Rightarrow> ('m, 'r) process_info \<Rightarrow> (('m, 'r) process_info \<times> (u32 \<times> 'm) list) option"
where
  "take_messages 0 p = Some (p, [])"
| "take_messages (Suc n) p =
     do { (p', e) \<leftarrow> get_next_message True p;
          (q, es) \<leftarrow> take_messages n p';
          Some (q, (case e of None \<Rightarrow> es | Some x \<Rightarrow> x # es)) }"

lemma take_messages_prefix:
  "waiting_messages p = xs @ ys
    \<Longrightarrow> take_messages (length xs) p = Some (p\<lparr>waiting_messages := ys\<rparr>, xs)"
  by (induction xs arbitrary: p) (simp_all add: get_next_message_def)

text \<open>
  Messages are taken in the order they were sent, and none twice: taking as many as were
  waiting before another one was added returns those, and leaves the new one alone.
\<close>

theorem messages_in_order:
  assumes "rid = 0 \<or> map_of (resources p) rid \<noteq> None"
  shows "\<exists>q. take_messages (length (waiting_messages p)) (fst (add_message_rid (Some m) rid True p))
      = Some (q, waiting_messages p) \<and> waiting_messages q = [(rid, m)]"
proof -
  have "waiting_messages (fst (add_message_rid (Some m) rid True p)) = waiting_messages p @ [(rid, m)]"
    using assms by (auto simp: add_message_rid_def remove_blocked_resource_def Let_def)
  from take_messages_prefix [OF this] show ?thesis by simp
qed

theorem messages_in_order_witness:
  "\<exists>q. take_messages 1 (fst (add_message_rid (Some ''b'') 0 True (fst (add_message (Some ''a'') True
        (process_info_new 7 default_id default_id :: (string, nat) process_info)))))
      = Some (q, [(0, ''a'')]) \<and> waiting_messages q = [(0, ''b'')]"
  using messages_in_order [of 0 "fst (add_message (Some ''a'') True
        (process_info_new 7 default_id default_id :: (string, nat) process_info))" "''b''"]
  by (simp add: add_message_def add_message_rid_def process_info_new_def)

end
