(* ===== verification/IdAlloc.thy ===== *)
theory IdAlloc
  imports Prelude
begin

text \<open>
  Numbers given out by a counter that wraps around, skipping those in use: the process and
  resource identifiers of the scheduler
  (\<^verbatim>\<open>src/src/executor/executor_ProcessScheduler.cpp\<close>); the channel identifiers of a client
  session follow the same scheme.
\<close>

subsection \<open>Identifiers\<close>

text \<open>
  The loops of \<open>add_process\<close> and \<open>get_next_rid\<close>: take the counter if it is free, advance
  it, wrap it at the maximum, until one was taken. It may not end.
\<close>

definition advance_id :: "u32 \<Rightarrow> u32 \<Rightarrow> u32" where
  "advance_id mx n = (let n = n + 1 in if n \<ge> mx then 1 else n)"

partial_function (option) alloc_id :: "u32 list \<Rightarrow> u32 \<Rightarrow> u32 \<Rightarrow> (u32 \<times> u32) option" where
  "alloc_id used mx n =
     (if n \<notin> set used \<and> n \<noteq> 0 then Some (n, advance_id mx n)
      else alloc_id used mx (advance_id mx n))"

subsection \<open>Allocation of identifiers\<close>

definition id_range :: "u32 \<Rightarrow> u32 \<Rightarrow> bool" where
  "id_range mx n \<longleftrightarrow> 1 \<le> n \<and> n < mx"

lemma id_range_nonzero: "id_range mx i \<Longrightarrow> i \<noteq> 0"
  by (auto simp: id_range_def)

lemma unat_below: "n < unat (mx :: u32) \<Longrightarrow> unat (of_nat n :: u32) = n"
  using unsigned_less [of mx, where 'a = nat] by (simp add: unsigned_of_nat take_bit_nat_eq_self)

lemma card_id_range: "card {k. id_range mx k} = unat mx - 1"
proof -
  have "unat ` {k. id_range mx k} = {1..<unat mx}"
  proof (intro subset_antisym subsetI)
    fix n assume n: "n \<in> {1..<unat mx}"
    then have "unat (of_nat n :: u32) = n" by (intro unat_below [of n mx]) simp
    with n have "id_range mx (of_nat n)" by (simp add: id_range_def word_le_nat_alt word_less_nat_alt)
    then show "n \<in> unat ` {k. id_range mx k}" using \<open>unat (of_nat n :: u32) = n\<close> by force
  qed (auto simp: id_range_def word_le_nat_alt word_less_nat_alt)
  moreover have "inj_on unat {k. id_range mx k}" by (simp add: inj_on_def word_unat_eq_iff)
  ultimately show ?thesis by (metis card_atLeastLessThan card_image)
qed

lemma advance_id_range:
  assumes "1 < mx" and "id_range mx n"
  shows "id_range mx (advance_id mx n)"
proof (cases "n + 1 \<ge> mx")
  case False
  then have "n + 1 < mx" by simp
  moreover have "1 \<le> n + 1" using assms by (simp add: id_range_def) unat_arith
  ultimately show ?thesis using False by (simp add: advance_id_def id_range_def Let_def)
qed (use assms in \<open>simp add: advance_id_def id_range_def\<close>)

lemma alloc_id_sound:
  assumes "alloc_id used mx n = Some (i, nxt)" and "1 < mx" and "id_range mx n"
  shows "i \<notin> set used \<and> id_range mx i \<and> id_range mx nxt"
proof -
  have "1 < mx \<longrightarrow> id_range mx n
      \<longrightarrow> fst (i, nxt) \<notin> set used \<and> id_range mx (fst (i, nxt)) \<and> id_range mx (snd (i, nxt))"
  proof (rule alloc_id.raw_induct [OF _ assms(1)], goal_cases)
    case (1 alloc used mx n y)
    show ?case
    proof (cases "n \<notin> set used \<and> n \<noteq> 0")
      case True
      with 1(2) show ?thesis using advance_id_range by auto
    next
      case False
      with 1(2) have "alloc used mx (advance_id mx n) = Some y" by simp
      from 1(1) [OF this] show ?thesis using advance_id_range by blast
    qed
  qed
  with assms show ?thesis by simp
qed

lemma alloc_id_diverges:
  assumes "1 < mx" and "id_range mx n" and "\<And>k. id_range mx k \<Longrightarrow> k \<in> set used"
  shows "alloc_id used mx n = None"
proof (cases "alloc_id used mx n")
  case (Some r)
  then obtain i nxt where "alloc_id used mx n = Some (i, nxt)" by (cases r) simp
  from alloc_id_sound [OF this assms(1,2)] assms(3) show ?thesis by blast
qed simp

lemma alloc_id_up:
  assumes "k \<notin> set used" and "1 \<le> n" and "n \<le> k" and "k < mx"
  shows "\<exists>r. alloc_id used mx n = Some r"
  using assms(2,3)
proof (induction "unat k - unat n" arbitrary: n)
  case 0
  then have "n = k" by unat_arith
  with assms 0 show ?case by (subst alloc_id.simps) auto
next
  case (Suc d)
  show ?case
  proof (cases "n \<notin> set used \<and> n \<noteq> 0")
    case True
    then show ?thesis by (subst alloc_id.simps) simp
  next
    case False
    have lt: "n < k" using Suc.hyps(2) by unat_arith
    have adv: "advance_id mx n = n + 1"
      using lt assms(4) by (simp add: advance_id_def Let_def) unat_arith
    have suc: "unat (n + 1) = unat n + 1" using lt by unat_arith
    have "d = unat k - unat (n + 1)" using Suc.hyps(2) suc by simp
    moreover have "1 \<le> n + 1" "n + 1 \<le> k" using lt Suc.prems by unat_arith+
    ultimately have "\<exists>r. alloc_id used mx (n + 1) = Some r" using Suc.hyps(1) by blast
    with False adv show ?thesis by (subst alloc_id.simps) simp
  qed
qed

lemma alloc_id_wraps:
  assumes "1 < mx" and "id_range mx k" and "k \<notin> set used" and "id_range mx n"
  shows "\<exists>r. alloc_id used mx n = Some r"
  using assms(4)
proof (induction "unat mx - unat n" arbitrary: n rule: less_induct)
  case less
  have one: "\<exists>r. alloc_id used mx 1 = Some r"
    using assms by (intro alloc_id_up [of k]) (auto simp: id_range_def)
  show ?case
  proof (cases "n \<notin> set used \<and> n \<noteq> 0")
    case True
    then show ?thesis by (subst alloc_id.simps) simp
  next
    case False
    then have step: "alloc_id used mx n = alloc_id used mx (advance_id mx n)"
      by (subst alloc_id.simps) auto
    show ?thesis
    proof (cases "n + 1 \<ge> mx")
      case True
      with one step show ?thesis by (simp add: advance_id_def)
    next
      case False
      then have adv: "advance_id mx n = n + 1" by (simp add: advance_id_def)
      have "unat mx - unat (n + 1) < unat mx - unat n"
        using False less.prems unfolding id_range_def by unat_arith
      moreover have "id_range mx (n + 1)" using advance_id_range [OF assms(1) less.prems] adv by simp
      ultimately show ?thesis using less.hyps step adv by simp
    qed
  qed
qed

text \<open>
  The contract of an allocator: an identifier that was not in use, is never the invalid
  one, and is in use afterwards. A run of allocations then gives distinct identifiers.
\<close>

locale id_allocator =
  fixes alloc :: "'a \<Rightarrow> 's \<Rightarrow> ('i \<times> 's) option"
    and in_use :: "'s \<Rightarrow> 'i set"
    and invalid :: 'i
    and good :: "'s \<Rightarrow> bool"
  assumes alloc_fresh: "good s \<Longrightarrow> alloc a s = Some (i, s') \<Longrightarrow> i \<noteq> invalid
      \<Longrightarrow> i \<notin> in_use s \<and> in_use s' = insert i (in_use s) \<and> good s'"
begin

fun alloc_all :: "'a list \<Rightarrow> 's \<Rightarrow> ('i list \<times> 's) option" where
  "alloc_all [] s = Some ([], s)"
| "alloc_all (a # as) s =
     do { (i, s) \<leftarrow> alloc a s;
          if i = invalid then None else do { (is, s) \<leftarrow> alloc_all as s; Some (i # is, s) } }"

lemma alloc_all_distinct:
  "good s \<Longrightarrow> alloc_all as s = Some (is, s')
    \<Longrightarrow> distinct is \<and> set is \<inter> in_use s = {} \<and> in_use s' = set is \<union> in_use s \<and> good s'"
proof (induction as arbitrary: s "is")
  case (Cons a as)
  from Cons.prems(2) obtain i s1 js where
    i: "alloc a s = Some (i, s1)" "i \<noteq> invalid" and js: "alloc_all as s1 = Some (js, s')" "is = i # js"
    by (auto split: Option.bind_splits if_splits)
  from alloc_fresh [OF Cons.prems(1) i] have
    f: "i \<notin> in_use s" "in_use s1 = insert i (in_use s)" "good s1" by blast+
  from Cons.IH [OF f(3) js(1)] f js(2) show ?case by auto
qed simp

end

end
