(* ===== verification/Scheduler.thy ===== *)
theory Scheduler
  imports ProcInfo IdAlloc
begin

text \<open>
  \<open>executor::ProcessScheduler\<close>
  (\<^verbatim>\<open>src/src/executor/executor_ProcessScheduler.cpp\<close>), the part of
  \<open>ProcessServices\<close> that adds and removes resources, and \<open>ThreadedExecutor\<close>'s choice
  of what to run.

  Each definition is what one call does when it is run to its end, and \<open>sched_step\<close> a call of
  any of them, one after another. The methods that do not hold \<open>process_lock\<close> from start to
  end (\<open>add_process\<close>, \<open>get_next_execute\<close>, the cleanup in \<open>returned_from_execute\<close>, and the
  services) are taken apart at their locks in \<open>SchedFine\<close>, where the parts of different
  threads interleave. A \<open>ProcessInfo *\<close> is an address into \<open>infos\<close>, the map of the live objects; reading
  through the address of a deleted one has no defined behaviour, and neither has a loop that
  does not end: operations answer \<open>None\<close> then. What a process itself does when it is called
  is an argument of the step. Events published are the list \<open>published\<close>.
\<close>

subsection \<open>State\<close>

type_synonym addr = nat

record ('m, 'r) sched =
  shutting_down :: bool
  infos :: "addr \<rightharpoonup> ('m, 'r) process_info"
  next_addr :: addr
  all_processes :: "(u32 \<times> addr) list"
  all_processes_entity :: "(u32 \<times> (u64 \<times> addr list) list) list"
  semaphore :: nat
  run_queue :: "addr list"
  timer_queue :: "(nat \<times> addr) list"
  next_pid :: u32
  next_rid :: u32
  rid_to_pid :: "(u32 \<times> u32) list"
  published :: "(u32 \<times> process_state) list"

definition max_pid :: u32 where
  "max_pid = 30000"

definition max_rid :: u32 where
  "max_rid = 0xFFFFFFFF - 1"

definition sched_new :: "('m, 'r) sched" where
  "sched_new = \<lparr>shutting_down = False, infos = (\<lambda>_. None), next_addr = 0, all_processes = [],
     all_processes_entity = [], semaphore = 0, run_queue = [], timer_queue = [], next_pid = 1,
     next_rid = 1, rid_to_pid = [], published = []\<rparr>"

subsection \<open>Scheduling a process\<close>

text \<open>\<open>std::multimap::insert\<close> and the removal of one process at its wakeup time.\<close>

fun timer_insert :: "nat \<Rightarrow> addr \<Rightarrow> (nat \<times> addr) list \<Rightarrow> (nat \<times> addr) list" where
  "timer_insert t p [] = [(t, p)]"
| "timer_insert t p ((t', p') # q) =
     (if t' \<le> t then (t', p') # timer_insert t p q else (t, p) # (t', p') # q)"

definition timer_remove :: "nat \<Rightarrow> addr \<Rightarrow> (nat \<times> addr) list \<Rightarrow> (nat \<times> addr) list" where
  "timer_remove t p q = remove1 (t, p) q"

definition publish :: "u32 \<Rightarrow> process_state \<Rightarrow> ('m, 'r) sched \<Rightarrow> ('m, 'r) sched" where
  "publish pid st s = s\<lparr>published := published s @ [(pid, st)]\<rparr>"

definition put_info :: "addr \<Rightarrow> ('m, 'r) process_info \<Rightarrow> ('m, 'r) sched \<Rightarrow> ('m, 'r) sched" where
  "put_info p i s = s\<lparr>infos := (infos s)(p \<mapsto> i)\<rparr>"

definition schedule_process :: "addr \<Rightarrow> ('m, 'r) sched \<Rightarrow> ('m, 'r) sched option" where
  "schedule_process p s =
     (case infos s p of None \<Rightarrow> None
      | Some i \<Rightarrow>
        let kill = get_pending_killed True i;
            in_queue = (get_process_state True i \<in> {PROCESS_STATE_KILLED, PROCESS_STATE_READY});
            sleeping = (get_process_state True i = PROCESS_STATE_SLEEPING);
            executing = (get_process_state True i = PROCESS_STATE_EXECUTING);
            i = (if kill \<and> \<not> executing
                 then fst (set_pending_killed False True
                   (fst (set_process_state PROCESS_STATE_KILLED True i)))
                 else i);
            s = (if kill \<and> \<not> executing then publish (my_pid i) PROCESS_STATE_KILLED s else s)
        in if \<not> in_queue \<and> \<not> executing then
             let i = (if \<not> kill then fst (set_process_state PROCESS_STATE_READY True i) else i);
                 s = (if sleeping
                      then s\<lparr>timer_queue := timer_remove (wakeup_time i) p (timer_queue s)\<rparr> else s)
             in Some (put_info p i (s\<lparr>run_queue := run_queue s @ [p],
                  semaphore := semaphore s + 1\<rparr>))
           else Some (put_info p i s))"

subsection \<open>Adding, killing, suspending, starting\<close>

definition entity_processes :: "('m, 'r) sched \<Rightarrow> db_id \<Rightarrow> addr list" where
  "entity_processes s i =
     (case map_of (all_processes_entity s) (get_site_id i) of None \<Rightarrow> []
      | Some em \<Rightarrow> (case map_of em (get_entity_id i) of None \<Rightarrow> [] | Some ps \<Rightarrow> ps))"

definition entity_add ::
    "db_id \<Rightarrow> addr \<Rightarrow> (u32 \<times> (u64 \<times> addr list) list) list \<Rightarrow> (u32 \<times> (u64 \<times> addr list) list) list"
where
  "entity_add i p m =
     (let em = (case map_of m (get_site_id i) of None \<Rightarrow> [] | Some em \<Rightarrow> em);
          ps = (case map_of em (get_entity_id i) of None \<Rightarrow> [] | Some ps \<Rightarrow> ps)
      in map_put (get_site_id i) (map_put (get_entity_id i) (ps @ [p]) em) m)"

text \<open>The result is the PID, 0 when there is none; \<open>has_process\<close> is the null check.\<close>

definition add_process ::
    "db_id \<Rightarrow> db_id \<Rightarrow> bool \<Rightarrow> ('m, 'r) sched \<Rightarrow> (u32 \<times> ('m, 'r) sched) option" where
  "add_process exe owner has_process s =
     (if \<not> has_process then Some (0, s)
      else if shutting_down s then Some (0, s)
      else if length (all_processes s) \<ge> unat max_pid then Some (0, s)
      else do {
        (pid, nxt) \<leftarrow> alloc_id (map_keys (all_processes s)) max_pid (next_pid s);
        let p = next_addr s;
        Some (pid, publish pid PROCESS_STATE_CREATED
          (s\<lparr>next_pid := nxt, next_addr := p + 1,
             infos := (infos s)(p \<mapsto> process_info_new pid exe owner),
             all_processes := map_put pid p (all_processes s),
             all_processes_entity := entity_add owner p (all_processes_entity s)\<rparr>)) })"

definition kill_process :: "u32 \<Rightarrow> ('m, 'r) sched \<Rightarrow> (bool \<times> ('m, 'r) sched) option" where
  "kill_process pid s =
     (case map_of (all_processes s) pid of None \<Rightarrow> Some (False, s)
      | Some p \<Rightarrow>
        (case infos s p of None \<Rightarrow> None
         | Some i \<Rightarrow>
           if get_process_state True i \<notin> {PROCESS_STATE_KILLED, PROCESS_STATE_COMPLETED}
           then do { s \<leftarrow> schedule_process p (put_info p (fst (set_pending_killed True True i)) s);
                     Some (True, s) }
           else Some (True, s)))"

definition suspend_process :: "u32 \<Rightarrow> ('m, 'r) sched \<Rightarrow> (bool \<times> ('m, 'r) sched) option" where
  "suspend_process pid s =
     (if shutting_down s then Some (False, s)
      else case map_of (all_processes s) pid of None \<Rightarrow> Some (False, s)
      | Some p \<Rightarrow>
        (case infos s p of None \<Rightarrow> None
         | Some i \<Rightarrow>
           if get_process_state True i \<in>
                {PROCESS_STATE_READY, PROCESS_STATE_EXECUTING, PROCESS_STATE_KILLED}
           then Some (True, put_info p (fst (set_pending_suspended True True i)) s)
           else Some (True, put_info p (fst (set_process_state PROCESS_STATE_SUSPENDED True
                  (fst (set_pending_suspended False True i)))) s)))"

definition start_process :: "u32 \<Rightarrow> ('m, 'r) sched \<Rightarrow> (bool \<times> ('m, 'r) sched) option" where
  "start_process pid s =
     (if shutting_down s then Some (False, s)
      else case map_of (all_processes s) pid of None \<Rightarrow> Some (False, s)
      | Some p \<Rightarrow>
        (case infos s p of None \<Rightarrow> None
         | Some i \<Rightarrow>
           if get_process_state True i \<in> {PROCESS_STATE_CREATED, PROCESS_STATE_SUSPENDED}
           then do { s \<leftarrow> schedule_process p s; Some (True, s) }
           else Some (True, s)))"

text \<open>The part of \<open>shutdown\<close> under the lock; afterwards it waits until no process is left.\<close>

definition shutdown_kill :: "('m, 'r) sched \<Rightarrow> ('m, 'r) sched option" where
  "shutdown_kill s =
     (if shutting_down s then Some s
      else fold (\<lambda>pid r. do { s \<leftarrow> r; (_, s) \<leftarrow> kill_process pid s; Some s })
        (map_keys (all_processes s)) (Some (s\<lparr>shutting_down := True\<rparr>)))"

definition os_time_has_jumped :: "bool \<Rightarrow> ('m, 'r) sched \<Rightarrow> ('m, 'r) sched" where
  "os_time_has_jumped backwards s =
     (if backwards then s\<lparr>semaphore := semaphore s + 1\<rparr> else s)"

subsection \<open>Messages\<close>

definition can_receive_messages :: "process_state \<Rightarrow> ('m, 'r) sched \<Rightarrow> bool" where
  "can_receive_messages st s =
     (if st \<in> {PROCESS_STATE_SUSPENDED, PROCESS_STATE_KILLED, PROCESS_STATE_COMPLETED}
      then False else \<not> shutting_down s)"

definition send_message_rid ::
    "u32 \<Rightarrow> u32 \<Rightarrow> 'm option \<Rightarrow> ('m, 'r) sched \<Rightarrow> (bool \<times> ('m, 'r) sched) option" where
  "send_message_rid pid rid message s =
     (if message = None then Some (False, s)
      else if pid = 0 then Some (False, s)
      else case map_of (all_processes s) pid of None \<Rightarrow> Some (False, s)
      | Some p \<Rightarrow>
        (case infos s p of None \<Rightarrow> None
         | Some i \<Rightarrow>
           let st = get_process_state True i in
           if \<not> can_receive_messages st s then Some (False, s)
           else
             let (i, result) = add_message_rid message rid True i;
                 need_schedule =
                   (if rid = 0 then st \<notin> {PROCESS_STATE_BLOCKED, PROCESS_STATE_CREATED}
                    else if st = PROCESS_STATE_BLOCKED then blocked_resources_empty True i
                    else st \<noteq> PROCESS_STATE_CREATED);
                 s = put_info p i s
             in if result \<and> need_schedule
                then do { s \<leftarrow> schedule_process p s; Some (result, s) }
                else Some (result, s)))"

definition send_message ::
    "u32 \<Rightarrow> 'm option \<Rightarrow> ('m, 'r) sched \<Rightarrow> (bool \<times> ('m, 'r) sched) option" where
  "send_message pid message s = send_message_rid pid 0 message s"

subsection \<open>Running\<close>

text \<open>The loop that wakes sleeping processes looks at the first timer again and again.\<close>

partial_function (option) wake_due :: "nat \<Rightarrow> ('m, 'r) sched \<Rightarrow> ('m, 'r) sched option" where
  "wake_due now s =
     (case timer_queue s of [] \<Rightarrow> Some s
      | e # _ \<Rightarrow>
        if fst e > now then Some s
        else Option.bind (schedule_process (snd e) s) (wake_due now))"

text \<open>
  What \<open>get_next_execute\<close> reports: a process with whether it is being killed, or none with
  whether the scheduler is shutting down.
\<close>

datatype next_execute = RunProcess addr bool | NoProcess bool

definition get_next_execute ::
    "nat \<Rightarrow> ('m, 'r) sched \<Rightarrow> (next_execute \<times> ('m, 'r) sched) option" where
  "get_next_execute now s =
     do { let shutdown_caller = shutting_down s;
          s \<leftarrow> wake_due now s;
          if semaphore s = 0 then Some (NoProcess shutdown_caller, s)
          else
            let s = s\<lparr>semaphore := semaphore s - 1\<rparr> in
            case run_queue s of [] \<Rightarrow> Some (NoProcess shutdown_caller, s)
            | p # q \<Rightarrow>
              let s = s\<lparr>run_queue := q\<rparr> in
              case infos s p of None \<Rightarrow> None
              | Some i \<Rightarrow>
                Some (RunProcess p (get_process_state True i = PROCESS_STATE_KILLED),
                  put_info p (fst (set_process_state PROCESS_STATE_EXECUTING True i)) s) }"

subsection \<open>Cleaning up\<close>

definition release_rid_internal :: "u32 \<Rightarrow> u32 \<Rightarrow> ('m, 'r) sched \<Rightarrow> ('m, 'r) sched" where
  "release_rid_internal pid rid s =
     (case map_of (rid_to_pid s) rid of None \<Rightarrow> s
      | Some owner \<Rightarrow> if owner \<noteq> pid then s else s\<lparr>rid_to_pid := map_erase rid (rid_to_pid s)\<rparr>)"

definition entity_remove ::
    "db_id \<Rightarrow> addr \<Rightarrow> (u32 \<times> (u64 \<times> addr list) list) list \<Rightarrow> (u32 \<times> (u64 \<times> addr list) list) list"
where
  "entity_remove i p m =
     (case map_of m (get_site_id i) of None \<Rightarrow> m
      | Some em \<Rightarrow>
        (case map_of em (get_entity_id i) of None \<Rightarrow> m
         | Some ps \<Rightarrow>
           let ps = remove1 p ps in
           if ps = [] then
             (let em = map_erase (get_entity_id i) em
              in if em = [] then map_erase (get_site_id i) m else map_put (get_site_id i) em m)
           else map_put (get_site_id i) (map_put (get_entity_id i) ps em) m))"

text \<open>\<open>cleanup_process\<close> up to the point where it gives up the lock.\<close>

definition cleanup_begin :: "addr \<Rightarrow> ('m, 'r) sched \<Rightarrow> ('m, 'r) sched option" where
  "cleanup_begin p s =
     (case infos s p of None \<Rightarrow> None
      | Some i \<Rightarrow> Some (publish (my_pid i) PROCESS_STATE_COMPLETED
          (put_info p (fst (set_process_state PROCESS_STATE_COMPLETED True i)) s)))"

text \<open>The rest, from \<open>process_finished\<close> on, which ends in the deletion of the object.\<close>

definition cleanup_finish :: "addr \<Rightarrow> ('m, 'r) sched \<Rightarrow> ('m, 'r) sched option" where
  "cleanup_finish p s =
     (case infos s p of None \<Rightarrow> None
      | Some i \<Rightarrow>
        let pid = my_pid i;
            rids_to_clear = get_resource_ids True i;
            i = fold (\<lambda>rid i. fst (remove_resource rid True i)) rids_to_clear i;
            s = fold (release_rid_internal pid) rids_to_clear (put_info p i s)
        in Some (s\<lparr>all_processes := map_erase pid (all_processes s),
             all_processes_entity :=
               entity_remove (my_db_owner_id i) p (all_processes_entity s),
             infos := (infos s)(p := None)\<rparr>))"

definition cleanup_process :: "addr \<Rightarrow> ('m, 'r) sched \<Rightarrow> ('m, 'r) sched option" where
  "cleanup_process p s = do { s \<leftarrow> cleanup_begin p s; cleanup_finish p s }"

datatype process_status =
    PROCESS_STATUS_FINISHED | PROCESS_STATUS_SLEEP | PROCESS_STATUS_WAIT_MESSAGE
  | PROCESS_STATUS_SUSPENDED | PROCESS_STATUS_BLOCKED | PROCESS_STATUS_ERROR
  | PROCESS_STATUS_EXECUTE_MORE

text \<open>
  \<open>returned_from_execute\<close>, \<open>now\<close> being the clock and \<open>sleep_ms\<close> what
  \<open>process_get_sleep_time\<close> answers.
\<close>

definition returned_from_execute ::
    "nat \<Rightarrow> u32 \<Rightarrow> addr option \<Rightarrow> process_status \<Rightarrow> ('m, 'r) sched \<Rightarrow> ('m, 'r) sched option" where
  "returned_from_execute now sleep_ms process status s =
     (case process of None \<Rightarrow> Some s
      | Some p \<Rightarrow>
        (case infos s p of None \<Rightarrow> None
         | Some i \<Rightarrow>
           if status = PROCESS_STATUS_FINISHED then cleanup_process p s
           else if status = PROCESS_STATUS_ERROR
           then cleanup_process p (publish (my_pid i) PROCESS_STATE_KILLED s)
           else
             let i = fst (set_process_state PROCESS_STATE_SCHEDULING True i);
                 kill = get_pending_killed True i;
                 suspended = (\<not> kill \<and>
                   (status = PROCESS_STATUS_SUSPENDED \<or> get_pending_suspended True i));
                 i = (if suspended
                      then fst (clear_all_messages True
                        (fst (set_process_state PROCESS_STATE_SUSPENDED True
                          (fst (set_pending_suspended False True i)))))
                      else i);
                 reschedule = (kill \<or> (\<not> suspended
                   \<and> (status = PROCESS_STATUS_EXECUTE_MORE \<or> \<not> messages_empty True i)));
                 idle = (\<not> suspended \<and> \<not> reschedule)
             in if idle \<and> status = PROCESS_STATUS_SLEEP then
                  (case set_sleep_time_offset now sleep_ms True i of (i, ok) \<Rightarrow>
                     if ok then
                       Some (put_info p (fst (set_process_state PROCESS_STATE_SLEEPING True i))
                         (s\<lparr>timer_queue :=
                            timer_insert (get_wakeup_time now True i) p (timer_queue s)\<rparr>))
                     else schedule_process p
                       (put_info p (fst (set_process_state PROCESS_STATE_SLEEPING True
                          (fst (set_pending_killed True True i)))) s))
                else
                  let i = (if idle \<and> status = PROCESS_STATUS_WAIT_MESSAGE
                           then fst (set_process_state PROCESS_STATE_WAIT_MESSAGE True i)
                           else if status = PROCESS_STATUS_BLOCKED then
                             (let i = fst (reset_blocked_resources True i)
                              in if idle then fst (set_process_state PROCESS_STATE_BLOCKED True i)
                                 else i)
                           else i);
                      s = put_info p i s
                  in if reschedule then schedule_process p s else Some s))"

subsection \<open>Resource identifiers\<close>

definition get_next_rid :: "u32 \<Rightarrow> ('m, 'r) sched \<Rightarrow> (u32 \<times> ('m, 'r) sched) option" where
  "get_next_rid pid s =
     (if length (rid_to_pid s) \<ge> unat max_rid then Some (0, s)
      else if map_of (all_processes s) pid = None then Some (0, s)
      else do {
        (rid, nxt) \<leftarrow> alloc_id (map_keys (rid_to_pid s)) max_rid (next_rid s);
        Some (rid, s\<lparr>next_rid := nxt, rid_to_pid := map_put rid pid (rid_to_pid s)\<rparr>) })"

definition release_rid :: "u32 \<Rightarrow> u32 \<Rightarrow> ('m, 'r) sched \<Rightarrow> ('m, 'r) sched" where
  "release_rid pid rid s = release_rid_internal pid rid s"

text \<open>
  \<open>ProcessServices::add_resource\<close> and \<open>add_blocking_resource\<close>, called for the process
  at \<open>p\<close>; \<open>accepts\<close> is the answer of \<open>resource_added_to_process\<close>. The result is the RID.
\<close>

definition services_add_resource ::
    "bool \<Rightarrow> bool \<Rightarrow> addr \<Rightarrow> 'r option \<Rightarrow> ('m, 'r) sched \<Rightarrow> (u32 \<times> ('m, 'r) sched) option" where
  "services_add_resource blocking accepts p resource s =
     (case infos s p of None \<Rightarrow> None
      | Some i \<Rightarrow>
        let pid = my_pid i in
        if resource = None then Some (0, s)
        else do {
          (rid, s) \<leftarrow> get_next_rid pid s;
          if rid = 0 then Some (0, s)
          else if accepts then
            (case (if blocking then add_blocking_resource rid resource True i
                   else add_resource rid resource True i) of (i, ok) \<Rightarrow>
               if ok then Some (rid, put_info p i s) else Some (0, release_rid pid rid s))
          else Some (0, release_rid pid rid s) })"

definition services_remove_resource ::
    "addr \<Rightarrow> 'r option \<Rightarrow> ('m, 'r) sched \<Rightarrow> (bool \<times> ('m, 'r) sched) option" where
  "services_remove_resource p resource s =
     (case infos s p of None \<Rightarrow> None
      | Some i \<Rightarrow>
        if resource = None then Some (False, s)
        else case remove_resource_ptr resource True i of (i', rid) \<Rightarrow>
          if rid = 0 then Some (False, put_info p i' s)
          else Some (True, release_rid (my_pid i) rid (put_info p i' s)))"

subsection \<open>Queries\<close>

definition get_pids_for_id :: "db_id \<Rightarrow> ('m, 'r) sched \<Rightarrow> u32 list option" where
  "get_pids_for_id i s = those (map (\<lambda>p. map_option my_pid (infos s p)) (entity_processes s i))"

definition get_pids_for_site :: "u32 \<Rightarrow> ('m, 'r) sched \<Rightarrow> u32 list option" where
  "get_pids_for_site site s =
     (case map_of (all_processes_entity s) site of None \<Rightarrow> Some []
      | Some em \<Rightarrow> those (map (\<lambda>p. map_option my_pid (infos s p)) (concat (map snd em))))"

record process_stats =
  stats_pid :: u32
  stats_name :: string
  stats_owner :: db_id
  stats_executable :: db_id
  stats_state :: process_state

definition info_stats :: "(u32 \<Rightarrow> string) \<Rightarrow> ('m, 'r) process_info \<Rightarrow> process_stats" where
  "info_stats name i = \<lparr>stats_pid = my_pid i, stats_name = name (my_pid i),
     stats_owner = my_db_owner_id i, stats_executable = my_db_executable_id i,
     stats_state = get_process_state True i\<rparr>"

text \<open>The outer option is definedness; the inner one a default \<open>ProcessStats\<close>.\<close>

definition get_process_stats ::
    "(u32 \<Rightarrow> string) \<Rightarrow> u32 \<Rightarrow> ('m, 'r) sched \<Rightarrow> process_stats option option" where
  "get_process_stats name pid s =
     (case map_of (all_processes s) pid of None \<Rightarrow> Some None
      | Some p \<Rightarrow> map_option (\<lambda>i. Some (info_stats name i)) (infos s p))"

definition get_process_stats_for_site ::
    "(u32 \<Rightarrow> string) \<Rightarrow> u32 \<Rightarrow> ('m, 'r) sched \<Rightarrow> process_stats list option" where
  "get_process_stats_for_site name site s =
     (case map_of (all_processes_entity s) site of None \<Rightarrow> Some []
      | Some em \<Rightarrow>
        those (map (\<lambda>p. map_option (info_stats name) (infos s p)) (concat (map snd em))))"

subsection \<open>Steps\<close>

text \<open>
  What can happen to a scheduler when each call runs to its end before the next begins. Executor threads hand back only
  processes that \<open>get_next_execute\<close> gave them, which are executing; resources are added and
  removed for live processes.
\<close>

inductive sched_step :: "('m, 'r) sched \<Rightarrow> ('m, 'r) sched \<Rightarrow> bool" where
  step_add: "add_process exe owner b s = Some (pid, s') \<Longrightarrow> sched_step s s'"
| step_kill: "kill_process pid s = Some (b, s') \<Longrightarrow> sched_step s s'"
| step_suspend: "suspend_process pid s = Some (b, s') \<Longrightarrow> sched_step s s'"
| step_start: "start_process pid s = Some (b, s') \<Longrightarrow> sched_step s s'"
| step_send: "send_message_rid pid rid m s = Some (b, s') \<Longrightarrow> sched_step s s'"
| step_next: "get_next_execute now s = Some (n, s') \<Longrightarrow> sched_step s s'"
| step_return: "infos s p = Some i \<Longrightarrow> process_state i = PROCESS_STATE_EXECUTING
    \<Longrightarrow> returned_from_execute now ms (Some p) st s = Some s' \<Longrightarrow> sched_step s s'"
| step_shutdown: "shutdown_kill s = Some s' \<Longrightarrow> sched_step s s'"
| step_jump: "sched_step s (os_time_has_jumped b s)"
| step_add_resource: "services_add_resource blocking accepts p r s = Some (rid, s')
    \<Longrightarrow> sched_step s s'"
| step_remove_resource: "services_remove_resource p r s = Some (b, s') \<Longrightarrow> sched_step s s'"

inductive reachable :: "('m, 'r) sched \<Rightarrow> bool" where
  reach_new: "reachable sched_new"
| reach_step: "reachable s \<Longrightarrow> sched_step s s' \<Longrightarrow> reachable s'"

inductive_cases sched_stepE: "sched_step s s'"

end
