(* ===== verification/SchedInv.thy ===== *)
theory SchedInv
  imports Scheduler
begin

text \<open>
  The invariant of \<open>ProcessScheduler\<close> and its preservation by every call: the tables of
  processes agree with the live objects, the run queue holds exactly the processes that are
  ready or killed, each once, with a semaphore post for each, and the resource identifiers in
  use are exactly those of the resources of live processes. The timer queue is right, holding
  exactly the sleeping processes, only as long as no sleeping process is suspended; that part
  is separate.
\<close>

subsection \<open>The invariant\<close>

definition owned :: "(u32 \<times> (u64 \<times> addr list) list) list \<Rightarrow> db_id \<Rightarrow> addr list" where
  "owned m i = (case map_of m (get_site_id i) of None \<Rightarrow> []
     | Some em \<Rightarrow> (case map_of em (get_entity_id i) of None \<Rightarrow> [] | Some ps \<Rightarrow> ps))"

lemma entity_processes_owned: "entity_processes s i = owned (all_processes_entity s) i"
  by (simp add: entity_processes_def owned_def)

definition procs_ok :: "('m, 'r) sched \<Rightarrow> bool" where
  "procs_ok s \<longleftrightarrow> map_sorted (all_processes s) \<and> 1 \<le> next_pid s \<and> next_pid s < max_pid
     \<and> (\<forall>pid p. map_of (all_processes s) pid = Some p
          \<longrightarrow> (\<exists>i. infos s p = Some i \<and> my_pid i = pid))
     \<and> (\<forall>p i. infos s p = Some i \<longrightarrow> map_of (all_processes s) (my_pid i) = Some p
          \<and> p < next_addr s \<and> 1 \<le> my_pid i \<and> my_pid i < max_pid)"

definition owners_ok :: "('m, 'r) sched \<Rightarrow> bool" where
  "owners_ok s \<longleftrightarrow> map_sorted (all_processes_entity s)
     \<and> (\<forall>site em. map_of (all_processes_entity s) site = Some em \<longrightarrow> map_sorted em)
     \<and> (\<forall>i. distinct (owned (all_processes_entity s) i)
          \<and> set (owned (all_processes_entity s) i)
              = {p. \<exists>x. infos s p = Some x \<and> my_db_owner_id x = i})"

definition rids_ok :: "('m, 'r) sched \<Rightarrow> bool" where
  "rids_ok s \<longleftrightarrow> map_sorted (rid_to_pid s) \<and> 1 \<le> next_rid s \<and> next_rid s < max_rid
     \<and> (\<forall>p i. infos s p = Some i \<longrightarrow> info_wf i)
     \<and> (\<forall>rid pid. map_of (rid_to_pid s) rid = Some pid \<longleftrightarrow>
          (\<exists>p i. infos s p = Some i \<and> my_pid i = pid \<and> map_of (resources i) rid \<noteq> None))"

definition queued :: "('m, 'r) process_info \<Rightarrow> bool" where
  "queued i \<longleftrightarrow> process_state i \<in> {PROCESS_STATE_READY, PROCESS_STATE_KILLED}"

definition queue_ok :: "('m, 'r) sched \<Rightarrow> bool" where
  "queue_ok s \<longleftrightarrow> distinct (run_queue s) \<and> length (run_queue s) \<le> semaphore s
     \<and> (\<forall>p. p \<in> set (run_queue s) \<longleftrightarrow> (\<exists>i. infos s p = Some i \<and> queued i))"

definition asleep :: "('m, 'r) process_info \<Rightarrow> nat \<Rightarrow> bool" where
  "asleep i t \<longleftrightarrow> process_state i = PROCESS_STATE_SLEEPING \<and> wakeup_time i = t"

definition timer_ok :: "('m, 'r) sched \<Rightarrow> bool" where
  "timer_ok s \<longleftrightarrow> sorted (map fst (timer_queue s)) \<and> distinct (timer_queue s)
     \<and> (\<forall>t p. (t, p) \<in> set (timer_queue s) \<longleftrightarrow> (\<exists>i. infos s p = Some i \<and> asleep i t))"

text \<open>What a step that only changes states, flags, messages and blocking keeps.\<close>

definition ident :: "('m, 'r) process_info \<Rightarrow> u32 \<times> db_id \<times> (u32 \<times> 'r) list" where
  "ident i = (my_pid i, my_db_owner_id i, resources i)"

definition tables_ok :: "('m, 'r) sched \<Rightarrow> bool" where
  "tables_ok s \<longleftrightarrow> procs_ok s \<and> owners_ok s \<and> rids_ok s"

lemmas tables_defs = tables_ok_def procs_ok_def owners_ok_def rids_ok_def

lemma tables_ok_new [simp]: "tables_ok sched_new"
  by (auto simp: tables_defs sched_new_def owned_def max_pid_def max_rid_def)

lemma tables_ok_cong:
  assumes "infos s' = infos s" "all_processes s' = all_processes s" "next_pid s' = next_pid s"
    "next_addr s' = next_addr s" "all_processes_entity s' = all_processes_entity s"
    "rid_to_pid s' = rid_to_pid s" "next_rid s' = next_rid s"
  shows "tables_ok s' = tables_ok s"
  unfolding tables_defs assms ..

lemma ex_live_update:
  assumes "f p = Some i" and "P j = P i"
  shows "(\<exists>q x. (f(p \<mapsto> j)) q = Some x \<and> P x) \<longleftrightarrow> (\<exists>q x. f q = Some x \<and> P x)"
proof
  assume "\<exists>q x. (f(p \<mapsto> j)) q = Some x \<and> P x"
  then show "\<exists>q x. f q = Some x \<and> P x" using assms by (auto split: if_splits)
next
  assume "\<exists>q x. f q = Some x \<and> P x"
  then obtain q x where "f q = Some x" "P x" by blast
  then have "\<exists>x. (f(p \<mapsto> j)) q = Some x \<and> P x" using assms by (cases "q = p") auto
  then show "\<exists>q x. (f(p \<mapsto> j)) q = Some x \<and> P x" by blast
qed

lemma procs_owners_put:
  assumes ok: "procs_ok s" "owners_ok s" and i: "infos s p = Some i"
    and j: "my_pid j = my_pid i" "my_db_owner_id j = my_db_owner_id i"
  shows "procs_ok (put_info p j s) \<and> owners_ok (put_info p j s)"
proof
  show "procs_ok (put_info p j s)"
    using ok i j by (auto simp: procs_ok_def put_info_def) (metis option.inject)
  have "{q. \<exists>x. infos (put_info p j s) q = Some x \<and> my_db_owner_id x = o'}
      = {q. \<exists>x. infos s q = Some x \<and> my_db_owner_id x = o'}" for o'
    using i j by (auto simp: put_info_def)
  then show "owners_ok (put_info p j s)" using ok(2) by (simp add: owners_ok_def) (simp add: put_info_def)
qed

lemma tables_ok_put:
  assumes ok: "tables_ok s" and i: "infos s p = Some i" and same: "ident j = ident i"
    and wf: "info_wf i \<Longrightarrow> info_wf j"
  shows "tables_ok (put_info p j s)"
proof -
  from same have j: "my_pid j = my_pid i" "my_db_owner_id j = my_db_owner_id i"
    "resources j = resources i" by (simp_all add: ident_def)
  have "(\<exists>q x. infos (put_info p j s) q = Some x \<and> my_pid x = pid \<and> map_of (resources x) rid \<noteq> None)
      = (\<exists>q x. infos s q = Some x \<and> my_pid x = pid \<and> map_of (resources x) rid \<noteq> None)" for pid rid
    using ex_live_update [of "infos s" p i "\<lambda>x. my_pid x = pid \<and> map_of (resources x) rid \<noteq> None" j]
      i j by (simp add: put_info_def)
  moreover have "\<forall>q x. infos (put_info p j s) q = Some x \<longrightarrow> info_wf x"
    using ok i wf by (auto simp: tables_ok_def rids_ok_def put_info_def)
  ultimately have "rids_ok (put_info p j s)"
    using ok unfolding tables_ok_def rids_ok_def by (simp add: put_info_def)
  with procs_owners_put [OF _ _ i j(1,2)] ok show ?thesis by (simp add: tables_ok_def)
qed

lemma ident_wf: "ident j = ident i \<Longrightarrow> info_wf j = info_wf i"
  by (simp add: ident_def info_wf_def)

subsection \<open>The run queue\<close>

lemma queue_ok_put:
  assumes "queue_ok s" and "infos s p = Some i" and "queued j = queued i"
  shows "queue_ok (put_info p j s)"
  using assms by (auto simp: queue_ok_def put_info_def)

lemma queue_ok_push:
  assumes "queue_ok s" and "infos s p = Some i" and "\<not> queued i" and "queued j"
  shows "queue_ok (put_info p j (s\<lparr>run_queue := run_queue s @ [p], semaphore := semaphore s + 1\<rparr>))"
  using assms by (auto simp: queue_ok_def put_info_def)

lemma queue_ok_cong:
  assumes "infos s' = infos s" "run_queue s' = run_queue s" "semaphore s' = semaphore s"
  shows "queue_ok s' = queue_ok s"
  unfolding queue_ok_def assms ..

subsection \<open>The timer queue\<close>

lemma set_timer_insert: "set (timer_insert t p q) = insert (t, p) (set q)"
  by (induction t p q rule: timer_insert.induct) auto

lemma sorted_timer_insert: "sorted (map fst q) \<Longrightarrow> sorted (map fst (timer_insert t p q))"
  by (induction t p q rule: timer_insert.induct) (auto simp: set_timer_insert)

lemma distinct_timer_insert: "(t, p) \<notin> set q \<Longrightarrow> distinct q \<Longrightarrow> distinct (timer_insert t p q)"
  by (induction t p q rule: timer_insert.induct) (auto simp: set_timer_insert)

lemma sorted_map_remove1: "sorted (map f q) \<Longrightarrow> sorted (map f (remove1 x q))"
  by (metis sorted_map_remove1)

lemma timer_ok_cong:
  assumes "infos s' = infos s" "timer_queue s' = timer_queue s"
  shows "timer_ok s' = timer_ok s"
  unfolding timer_ok_def assms ..

lemma timer_ok_put:
  assumes "timer_ok s" and "infos s p = Some i" and "\<And>t. asleep j t = asleep i t"
  shows "timer_ok (put_info p j s)"
  using assms by (auto simp: timer_ok_def put_info_def)

lemma timer_ok_wake:
  assumes ok: "timer_ok s" and i: "infos s p = Some i" and a: "asleep i t" and j: "\<And>t. \<not> asleep j t"
  shows "timer_ok (put_info p j (s\<lparr>timer_queue := timer_remove t p (timer_queue s)\<rparr>))"
proof -
  have only: "(t', p) \<in> set (timer_queue s) \<longleftrightarrow> t' = t" for t'
    using ok i a by (auto simp: timer_ok_def asleep_def)
  then show ?thesis
    using ok j by (auto simp: timer_ok_def put_info_def timer_remove_def sorted_map_remove1
        set_remove1_eq)
qed

lemma timer_ok_sleep:
  assumes ok: "timer_ok s" and i: "infos s p = Some i" and a: "\<And>t. \<not> asleep i t" and j: "asleep j t"
  shows "timer_ok (put_info p j (s\<lparr>timer_queue := timer_insert t p (timer_queue s)\<rparr>))"
proof -
  have none: "(t', p) \<notin> set (timer_queue s)" for t'
    using ok i a by (auto simp: timer_ok_def)
  moreover have "asleep j t' \<longleftrightarrow> t' = t" for t' using j by (auto simp: asleep_def)
  ultimately show ?thesis
    using ok by (auto simp: timer_ok_def put_info_def set_timer_insert sorted_timer_insert
        distinct_timer_insert)
qed

subsection \<open>What the fields outside a component do not matter for\<close>

lemma tables_ok_frame [simp]:
  "tables_ok (s\<lparr>run_queue := rq, semaphore := k\<rparr>) = tables_ok s"
  "tables_ok (s\<lparr>run_queue := rq\<rparr>) = tables_ok s" "tables_ok (s\<lparr>semaphore := k\<rparr>) = tables_ok s"
  "tables_ok (s\<lparr>timer_queue := tq\<rparr>) = tables_ok s" "tables_ok (publish pid st s) = tables_ok s"
  "tables_ok (s\<lparr>shutting_down := b\<rparr>) = tables_ok s"
  by (rule tables_ok_cong; simp add: publish_def)+

lemma queue_ok_frame [simp]:
  "queue_ok (s\<lparr>timer_queue := tq\<rparr>) = queue_ok s" "queue_ok (publish pid st s) = queue_ok s"
  "queue_ok (s\<lparr>shutting_down := b\<rparr>) = queue_ok s"
  by (rule queue_ok_cong; simp add: publish_def)+

lemma timer_ok_frame [simp]:
  "timer_ok (s\<lparr>run_queue := rq, semaphore := k\<rparr>) = timer_ok s"
  "timer_ok (s\<lparr>run_queue := rq\<rparr>) = timer_ok s" "timer_ok (s\<lparr>semaphore := k\<rparr>) = timer_ok s"
  "timer_ok (publish pid st s) = timer_ok s" "timer_ok (s\<lparr>shutting_down := b\<rparr>) = timer_ok s"
  by (rule timer_ok_cong; simp add: publish_def)+

lemma infos_frame [simp]:
  "infos (publish pid st s) = infos s" "timer_queue (publish pid st s) = timer_queue s"
  "run_queue (publish pid st s) = run_queue s" "semaphore (publish pid st s) = semaphore s"
  "all_processes (publish pid st s) = all_processes s"
  "infos (put_info p i s) = (infos s)(p \<mapsto> i)" "timer_queue (put_info p i s) = timer_queue s"
  "run_queue (put_info p i s) = run_queue s" "semaphore (put_info p i s) = semaphore s"
  "all_processes (put_info p i s) = all_processes s"
  "shutting_down (put_info p i s) = shutting_down s" "shutting_down (publish pid st s) = shutting_down s"
  by (simp_all add: publish_def put_info_def)

lemma put_info_twice [simp]: "put_info p j (put_info p i s) = put_info p j s"
  by (simp add: put_info_def)

lemma publish_put_info: "publish pid st (put_info p i s) = put_info p i (publish pid st s)"
  by (simp add: put_info_def publish_def)

subsection \<open>\<open>schedule_process\<close>\<close>

definition killed :: "('m, 'r) process_info \<Rightarrow> ('m, 'r) process_info" where
  "killed i = i\<lparr>process_state := PROCESS_STATE_KILLED, pending_killed := False\<rparr>"

definition made_ready :: "('m, 'r) process_info \<Rightarrow> ('m, 'r) process_info" where
  "made_ready i = (if pending_killed i then killed i else i\<lparr>process_state := PROCESS_STATE_READY\<rparr>)"

text \<open>The part of \<open>schedule_process\<close> outside the process: event, timer, queue.\<close>

definition enqueue :: "addr \<Rightarrow> ('m, 'r) process_info \<Rightarrow> ('m, 'r) sched \<Rightarrow> ('m, 'r) sched" where
  "enqueue p i s =
     (let s = (if pending_killed i then publish (my_pid i) PROCESS_STATE_KILLED s else s);
          s = (if process_state i = PROCESS_STATE_SLEEPING
               then s\<lparr>timer_queue := timer_remove (wakeup_time i) p (timer_queue s)\<rparr> else s)
      in s\<lparr>run_queue := run_queue s @ [p], semaphore := semaphore s + 1\<rparr>)"

lemma schedule_process_live:
  assumes "infos s p = Some i"
  shows "schedule_process p s = Some
    (if process_state i = PROCESS_STATE_EXECUTING then put_info p i s
     else if queued i then
       (if pending_killed i then put_info p (killed i) (publish (my_pid i) PROCESS_STATE_KILLED s)
        else put_info p i s)
     else put_info p (made_ready i) (enqueue p i s))"
  using assms
  by (cases "process_state i")
    (simp_all add: schedule_process_def Let_def queued_def made_ready_def killed_def enqueue_def
      get_pending_killed_def get_process_state_def set_pending_killed_def set_process_state_def)

lemma ident_simps [simp]:
  "ident (killed i) = ident i" "ident (made_ready i) = ident i"
  "ident (i\<lparr>process_state := st\<rparr>) = ident i" "ident (i\<lparr>pending_killed := b\<rparr>) = ident i"
  "ident (i\<lparr>pending_suspended := b\<rparr>) = ident i" "ident (i\<lparr>wakeup_time := t\<rparr>) = ident i"
  "ident (i\<lparr>waiting_messages := ms\<rparr>) = ident i" "ident (i\<lparr>blocked_resources := bs\<rparr>) = ident i"
  "ident (i\<lparr>default_blocked_resources := bs\<rparr>) = ident i"
  by (simp_all add: ident_def killed_def made_ready_def)

lemma queued_simps [simp]:
  "queued (killed i)" "queued (made_ready i)" "queued (i\<lparr>pending_killed := b\<rparr>) = queued i"
  "queued (i\<lparr>pending_suspended := b\<rparr>) = queued i"
  "queued (i\<lparr>waiting_messages := ms\<rparr>) = queued i" "queued (i\<lparr>blocked_resources := bs\<rparr>) = queued i"
  by (simp_all add: queued_def killed_def made_ready_def)

lemma asleep_simps [simp]:
  "\<not> asleep (killed i) t" "\<not> asleep (made_ready i) t"
  "asleep (i\<lparr>pending_killed := b\<rparr>) t = asleep i t"
  "asleep (i\<lparr>pending_suspended := b\<rparr>) t = asleep i t"
  "asleep (i\<lparr>waiting_messages := ms\<rparr>) t = asleep i t"
  "asleep (i\<lparr>blocked_resources := bs\<rparr>) t = asleep i t"
  by (simp_all add: asleep_def killed_def made_ready_def)

lemma tables_ok_enqueue [simp]: "tables_ok (enqueue p i s) = tables_ok s"
  by (rule tables_ok_cong) (simp_all add: enqueue_def Let_def publish_def)

lemma infos_enqueue [simp]: "infos (enqueue p i s) = infos s"
  by (simp add: enqueue_def Let_def)

lemma tables_ok_update:
  "tables_ok s \<Longrightarrow> infos s p = Some i \<Longrightarrow> ident j = ident i \<Longrightarrow> tables_ok (put_info p j s)"
  using ident_wf tables_ok_put by blast

lemma schedule_process_tables:
  assumes "tables_ok s" and "schedule_process p s = Some s'"
  shows "tables_ok s'"
proof (cases "infos s p")
  case (Some i)
  with assms show ?thesis
    by (auto simp: schedule_process_live split: if_splits intro!: tables_ok_update [where i = i])
qed (use assms in \<open>simp add: schedule_process_def\<close>)

lemma schedule_process_queue:
  assumes "queue_ok s" and "schedule_process p s = Some s'"
  shows "queue_ok s'"
proof (cases "infos s p")
  case (Some i)
  have "queue_ok (put_info p (made_ready i) (enqueue p i s))" if "\<not> queued i"
  proof -
    let ?s = "if process_state i = PROCESS_STATE_SLEEPING
        then (if pending_killed i then publish (my_pid i) PROCESS_STATE_KILLED s else s)
          \<lparr>timer_queue := timer_remove (wakeup_time i) p (timer_queue s)\<rparr>
        else if pending_killed i then publish (my_pid i) PROCESS_STATE_KILLED s else s"
    have "enqueue p i s = ?s\<lparr>run_queue := run_queue ?s @ [p], semaphore := semaphore ?s + 1\<rparr>"
      by (simp add: enqueue_def Let_def)
    moreover have "queue_ok ?s" "infos ?s p = Some i" using assms(1) Some by simp_all
    ultimately show ?thesis using queue_ok_push [OF _ _ that] by simp
  qed
  with assms Some show ?thesis
    by (auto simp: schedule_process_live split: if_splits intro!: queue_ok_put [where i = i])
qed (use assms in \<open>simp add: schedule_process_def\<close>)

lemma schedule_process_timer:
  assumes "timer_ok s" and "schedule_process p s = Some s'"
  shows "timer_ok s'"
proof (cases "infos s p")
  case (Some i)
  have "timer_ok (put_info p (made_ready i) (enqueue p i s))"
  proof (cases "process_state i = PROCESS_STATE_SLEEPING")
    case True
    then have "asleep i (wakeup_time i)" by (simp add: asleep_def)
    from timer_ok_wake [OF assms(1) Some this, of "made_ready i"]
    have ok: "timer_ok (put_info p (made_ready i)
        (s\<lparr>timer_queue := timer_remove (wakeup_time i) p (timer_queue s)\<rparr>))" by simp
    show ?thesis
      using True by (subst timer_ok_cong [OF _ _, of _ "put_info p (made_ready i)
        (s\<lparr>timer_queue := timer_remove (wakeup_time i) p (timer_queue s)\<rparr>)"])
        (simp_all add: enqueue_def Let_def ok)
  next
    case False
    then have ok: "timer_ok (put_info p (made_ready i) s)"
      by (intro timer_ok_put [OF assms(1) Some]) (simp add: asleep_def made_ready_def killed_def)
    show ?thesis
      using False by (subst timer_ok_cong [OF _ _, of _ "put_info p (made_ready i) s"])
        (simp_all add: enqueue_def Let_def ok)
  qed
  moreover have "timer_ok (put_info p (killed i) s)" if "queued i"
    using that by (intro timer_ok_put [OF assms(1) Some]) (auto simp: asleep_def queued_def killed_def)
  moreover have "timer_ok (put_info p i s)" using timer_ok_put [OF assms(1) Some] by simp
  ultimately show ?thesis
    using assms Some by (auto simp: schedule_process_live publish_put_info [symmetric] split: if_splits)
qed (use assms in \<open>simp add: schedule_process_def\<close>)

lemma max_id_gt [simp]: "1 < max_pid" "1 < max_rid"
  by (simp_all add: max_pid_def max_rid_def)

subsection \<open>Steps on one process\<close>

text \<open>The invariant, with the timer part when \<open>b\<close> holds.\<close>

definition sched_ok :: "bool \<Rightarrow> ('m, 'r) sched \<Rightarrow> bool" where
  "sched_ok b s \<longleftrightarrow> tables_ok s \<and> queue_ok s \<and> (b \<longrightarrow> timer_ok s)"

lemma inv_put:
  assumes "sched_ok b s" and "infos s p = Some i" and "ident j = ident i" and "queued j = queued i"
    and "b \<Longrightarrow> \<forall>t. asleep j t = asleep i t"
  shows "sched_ok b (put_info p j s)"
  using assms tables_ok_update [of s p i j] queue_ok_put [of s p i j] timer_ok_put [of s p i j]
  by (auto simp: sched_ok_def)

lemma inv_schedule: "sched_ok b s \<Longrightarrow> schedule_process p s = Some s' \<Longrightarrow> sched_ok b s'"
  using schedule_process_tables schedule_process_queue schedule_process_timer
  unfolding sched_ok_def by blast

lemmas flag_op_defs = set_pending_killed_def set_pending_suspended_def set_process_state_def
  get_process_state_def get_pending_killed_def get_pending_suspended_def

lemma inv_kill: "sched_ok b s \<Longrightarrow> kill_process pid s = Some (r, s') \<Longrightarrow> sched_ok b s'"
proof -
  assume ok: "sched_ok b s" and kill: "kill_process pid s = Some (r, s')"
  have "sched_ok b (put_info p (i\<lparr>pending_killed := True\<rparr>) s)" if "infos s p = Some i" for p i
    by (rule inv_put [OF ok that]) simp_all
  with kill ok show "sched_ok b s'"
    by (auto simp: kill_process_def flag_op_defs split: option.splits if_splits Option.bind_splits
        dest: inv_schedule [rotated])
qed

lemma inv_start: "sched_ok b s \<Longrightarrow> start_process pid s = Some (r, s') \<Longrightarrow> sched_ok b s'"
  by (auto simp: start_process_def split: option.splits if_splits Option.bind_splits
      intro: inv_schedule)

text \<open>Suspending is safe for the timer queue unless the process sleeps.\<close>

definition sleeper :: "u32 \<Rightarrow> ('m, 'r) sched \<Rightarrow> bool" where
  "sleeper pid s \<longleftrightarrow> (\<exists>p i. map_of (all_processes s) pid = Some p \<and> infos s p = Some i
     \<and> process_state i = PROCESS_STATE_SLEEPING)"

lemma inv_suspend:
  assumes "sched_ok b s" and "suspend_process pid s = Some (r, s')" and "b \<Longrightarrow> \<not> sleeper pid s"
  shows "sched_ok b s'"
proof -
  have sus: "sched_ok b (put_info p (i\<lparr>pending_suspended := False, process_state := PROCESS_STATE_SUSPENDED\<rparr>) s)"
    if "map_of (all_processes s) pid = Some p" "infos s p = Some i" "\<not> queued i" for p i
  proof (rule inv_put [OF assms(1) that(2)])
    show "queued (i\<lparr>pending_suspended := False, process_state := PROCESS_STATE_SUSPENDED\<rparr>) = queued i"
      using that(3) by (simp add: queued_def)
    show "b \<Longrightarrow> \<forall>t. asleep (i\<lparr>pending_suspended := False, process_state := PROCESS_STATE_SUSPENDED\<rparr>) t
        = asleep i t"
      using assms(3) that by (auto simp: asleep_def sleeper_def)
  qed simp
  have pend: "sched_ok b (put_info p (i\<lparr>pending_suspended := True\<rparr>) s)" if "infos s p = Some i" for p i
    by (rule inv_put [OF assms(1) that]) simp_all
  show ?thesis
    using assms(1,2) sus pend
    by (auto simp: suspend_process_def flag_op_defs queued_def split: option.splits if_splits)
qed

lemma add_message_same:
  "ident (fst (add_message_rid m rid lk i)) = ident i"
  "queued (fst (add_message_rid m rid lk i)) = queued i"
  "asleep (fst (add_message_rid m rid lk i)) t = asleep i t"
  by (auto simp: add_message_rid_def remove_blocked_resource_def Let_def split: option.split)

lemma inv_send: "sched_ok b s \<Longrightarrow> send_message_rid pid rid m s = Some (r, s') \<Longrightarrow> sched_ok b s'"
proof -
  assume ok: "sched_ok b s" and send: "send_message_rid pid rid m s = Some (r, s')"
  have put: "sched_ok b (put_info p (fst (add_message_rid m rid True i)) s)" if "infos s p = Some i" for p i
    by (rule inv_put [OF ok that]) (simp_all add: add_message_same)
  from send ok put show "sched_ok b s'"
    by (auto simp: send_message_rid_def Let_def case_prod_beta split: option.splits if_splits
        Option.bind_splits dest: inv_schedule)
qed

lemma inv_wake: "sched_ok b s \<Longrightarrow> wake_due now s = Some s' \<Longrightarrow> sched_ok b s'"
proof -
  assume ok: "sched_ok b s" and wake: "wake_due now s = Some s'"
  have "sched_ok b s \<longrightarrow> sched_ok b s'"
  proof (rule wake_due.raw_induct [OF _ wake], goal_cases)
    case (1 wake now s y)
    show ?case
    proof (cases "timer_queue s")
      case Nil
      with 1(2) show ?thesis by simp
    next
      case (Cons e es)
      show ?thesis
      proof (cases "fst e > now")
        case True
        with 1(2) Cons show ?thesis by simp
      next
        case False
        with 1(2) Cons obtain u where "schedule_process (snd e) s = Some u" "wake now u = Some y"
          by (auto split: Option.bind_splits)
        with 1(1) inv_schedule show ?thesis by blast
      qed
    qed
  qed
  with ok show "sched_ok b s'" by simp
qed

lemma queue_ok_pop:
  assumes "queue_ok s" and "run_queue s = p # q" and "infos s p = Some i" and "\<not> queued j"
  shows "queue_ok (put_info p j (s\<lparr>semaphore := semaphore s - 1, run_queue := q\<rparr>))"
  using assms by (auto simp: queue_ok_def put_info_def)

lemma inv_next:
  assumes "sched_ok b s" and "get_next_execute now s = Some (n, s')"
  shows "sched_ok b s'"
proof -
  from assms(2) obtain u where u: "wake_due now s = Some u"
    by (auto simp: get_next_execute_def Let_def split: Option.bind_splits)
  with assms(1) have ok: "sched_ok b u" by (rule inv_wake)
  show ?thesis
  proof (cases "semaphore u = 0 \<or> run_queue u = []")
    case True
    with assms(2) u ok show ?thesis
      by (auto simp: get_next_execute_def sched_ok_def queue_ok_def Let_def split: if_splits)
  next
    case False
    then obtain p q where q: "run_queue u = p # q" by (cases "run_queue u") auto
    with ok obtain i where i: "infos u p = Some i" "queued i"
      by (auto simp: sched_ok_def queue_ok_def)
    let ?j = "i\<lparr>process_state := PROCESS_STATE_EXECUTING\<rparr>"
    let ?u = "u\<lparr>semaphore := semaphore u - 1, run_queue := q\<rparr>"
    have s': "s' = put_info p ?j ?u"
      using assms(2) u False q i
      by (auto simp: get_next_execute_def Let_def set_process_state_def split: if_splits)
    have "\<not> queued ?j" by (simp add: queued_def)
    moreover have "tables_ok (put_info p ?j ?u)"
      using ok i by (intro tables_ok_update [where i = i]) (auto simp: sched_ok_def)
    moreover have "timer_ok (put_info p ?j ?u)" if b
      using that ok i by (intro timer_ok_put [where i = i])
        (auto simp: sched_ok_def asleep_def queued_def timer_ok_def)
    ultimately show ?thesis
      using ok queue_ok_pop [OF _ q i(1)] unfolding s' by (auto simp: sched_ok_def)
  qed
qed

lemma inv_shutdown: "sched_ok b s \<Longrightarrow> shutdown_kill s = Some s' \<Longrightarrow> sched_ok b s'"
proof -
  have none: "fold (\<lambda>pid r. do { s \<leftarrow> r; (_, s) \<leftarrow> kill_process pid s; Some s }) pids None = None" for pids
    by (induction pids) auto
  have run: "fold (\<lambda>pid r. do { s \<leftarrow> r; (_, s) \<leftarrow> kill_process pid s; Some s }) pids (Some u) = Some s'
      \<Longrightarrow> sched_ok b u \<Longrightarrow> sched_ok b s'" for pids u
  proof (induction pids arbitrary: u)
    case (Cons pid pids)
    then obtain r v where kill: "kill_process pid u = Some (r, v)"
      by (cases "kill_process pid u") (auto simp: none)
    with Cons.prems(1) have "fold (\<lambda>pid r. do { s \<leftarrow> r; (_, s) \<leftarrow> kill_process pid s; Some s }) pids (Some v)
        = Some s'" by simp
    then show ?case by (rule Cons.IH) (rule inv_kill [OF Cons.prems(2) kill])
  qed simp
  assume "sched_ok b s" and "shutdown_kill s = Some s'"
  with run [of _ "s\<lparr>shutting_down := True\<rparr>"] show "sched_ok b s'"
    by (auto simp: shutdown_kill_def sched_ok_def split: if_splits)
qed

lemma inv_jump: "sched_ok b s \<Longrightarrow> sched_ok b (os_time_has_jumped back s)"
  by (auto simp: os_time_has_jumped_def sched_ok_def queue_ok_def)

subsection \<open>Adding a process\<close>

definition nested_sorted :: "(u32 \<times> (u64 \<times> addr list) list) list \<Rightarrow> bool" where
  "nested_sorted m \<longleftrightarrow> map_sorted m \<and> (\<forall>site em. map_of m site = Some em \<longrightarrow> map_sorted em)"

lemma db_id_eq_iff: "i = j \<longleftrightarrow> get_site_id i = get_site_id j \<and> get_entity_id i = get_entity_id j"
  by (cases i; cases j) simp

lemma nested_sorted_add: "nested_sorted m \<Longrightarrow> nested_sorted (entity_add i p m)"
  by (auto simp: nested_sorted_def entity_add_def Let_def om.good_put om.lookup_put
      split: option.splits if_splits)

lemma owned_add:
  "nested_sorted m \<Longrightarrow> owned (entity_add i p m) j = (if j = i then owned m j @ [p] else owned m j)"
  by (auto simp: nested_sorted_def entity_add_def owned_def Let_def om.lookup_put db_id_eq_iff
      split: option.splits)

lemma nested_sorted_remove: "nested_sorted m \<Longrightarrow> nested_sorted (entity_remove i p m)"
  by (auto simp: nested_sorted_def entity_remove_def Let_def om.good_put om.lookup_put
      om.good_erase om.lookup_erase split: option.splits if_splits)

lemma owned_remove:
  assumes "nested_sorted m"
  shows "owned (entity_remove i p m) j = (if j = i then remove1 p (owned m j) else owned m j)"
proof (cases "map_of m (get_site_id i)")
  case None
  then show ?thesis by (auto simp: entity_remove_def owned_def)
next
  case site: (Some em)
  with assms have em: "map_sorted em" "map_sorted m" by (auto simp: nested_sorted_def)
  show ?thesis
  proof (cases "map_of em (get_entity_id i)")
    case None
    with site show ?thesis by (auto simp: entity_remove_def owned_def)
  next
    case ps: (Some ps)
    have gone: "map_of em e = None" if "map_erase (get_entity_id i) em = []" "e \<noteq> get_entity_id i" for e
      using that om.lookup_erase [OF em(1), of "get_entity_id i" e] by simp
    show ?thesis
      using site ps gone
      by (auto simp: entity_remove_def owned_def Let_def db_id_eq_iff om.lookup_put [OF em(2)]
          om.lookup_erase [OF em(2)] om.lookup_put [OF em(1)] om.lookup_erase [OF em(1)]
          split: option.split)
  qed
qed

lemma owners_ok_alt:
  "owners_ok s \<longleftrightarrow> nested_sorted (all_processes_entity s)
     \<and> (\<forall>i. distinct (owned (all_processes_entity s) i)
          \<and> set (owned (all_processes_entity s) i)
              = {p. \<exists>x. infos s p = Some x \<and> my_db_owner_id x = i})"
  by (auto simp: owners_ok_def nested_sorted_def)

lemma fresh_addr: "procs_ok s \<Longrightarrow> infos s (next_addr s) = None"
  by (cases "infos s (next_addr s)") (auto simp: procs_ok_def)

definition with_process :: "u32 \<Rightarrow> u32 \<Rightarrow> db_id \<Rightarrow> db_id \<Rightarrow> ('m, 'r) sched \<Rightarrow> ('m, 'r) sched" where
  "with_process pid nxt exe owner s = s\<lparr>next_pid := nxt, next_addr := next_addr s + 1,
     infos := (infos s)(next_addr s \<mapsto> process_info_new pid exe owner),
     all_processes := map_put pid (next_addr s) (all_processes s),
     all_processes_entity := entity_add owner (next_addr s) (all_processes_entity s)\<rparr>"

lemma new_info_sel [simp]:
  "my_pid (process_info_new pid exe owner) = pid"
  "my_db_owner_id (process_info_new pid exe owner) = owner"
  "process_state (process_info_new pid exe owner) = PROCESS_STATE_CREATED"
  "resources (process_info_new pid exe owner) = []"
  by (simp_all add: process_info_new_def)

lemma tables_ok_add:
  assumes ok: "tables_ok s" and pid: "map_of (all_processes s) pid = None" "id_range max_pid pid"
    and nxt: "id_range max_pid nxt"
  shows "tables_ok (with_process pid nxt exe owner s)"
proof -
  have procs: "procs_ok s" using ok by (simp add: tables_ok_def)
  note fresh = fresh_addr [OF procs]
  have "procs_ok (with_process pid nxt exe owner s)"
    unfolding procs_ok_def
  proof (intro conjI allI impI)
    fix pid' p
    assume "map_of (all_processes (with_process pid nxt exe owner s)) pid' = Some p"
    then show "\<exists>i. infos (with_process pid nxt exe owner s) p = Some i \<and> my_pid i = pid'"
      using procs fresh unfolding procs_ok_def
      by (auto simp: with_process_def om.lookup_put split: if_splits)
  next
    fix p i
    assume "infos (with_process pid nxt exe owner s) p = Some i"
    then have "map_of (all_processes (with_process pid nxt exe owner s)) (my_pid i) = Some p
      \<and> p < next_addr (with_process pid nxt exe owner s) \<and> 1 \<le> my_pid i \<and> my_pid i < max_pid"
      using procs pid unfolding procs_ok_def id_range_def
      by (auto simp: with_process_def om.lookup_put less_Suc_eq split: if_splits)
    then show "map_of (all_processes (with_process pid nxt exe owner s)) (my_pid i) = Some p"
      "p < next_addr (with_process pid nxt exe owner s)" "1 \<le> my_pid i" "my_pid i < max_pid"
      by blast+
  qed (use procs nxt in \<open>auto simp: procs_ok_def with_process_def om.good_put id_range_def\<close>)
  moreover have "owners_ok (with_process pid nxt exe owner s)"
    using ok fresh unfolding tables_ok_def owners_ok_alt
    by (auto simp: with_process_def nested_sorted_add owned_add)
  moreover have "rids_ok (with_process pid nxt exe owner s)"
  proof -
    have "(\<exists>p i. infos (with_process pid nxt exe owner s) p = Some i \<and> my_pid i = k
          \<and> map_of (resources i) rid \<noteq> None)
        \<longleftrightarrow> (\<exists>p i. infos s p = Some i \<and> my_pid i = k \<and> map_of (resources i) rid \<noteq> None)" for k rid
      using fresh by (auto simp: with_process_def) (metis option.distinct(1))
    moreover have "\<forall>p i. infos (with_process pid nxt exe owner s) p = Some i \<longrightarrow> info_wf i"
      using ok by (auto simp: tables_ok_def rids_ok_def with_process_def)
    ultimately show ?thesis
      using ok unfolding tables_ok_def rids_ok_def by (simp add: with_process_def)
  qed
  ultimately show ?thesis by (simp add: tables_ok_def)
qed

lemma queue_timer_add:
  assumes "tables_ok s"
  shows "queue_ok s \<Longrightarrow> queue_ok (with_process pid nxt exe owner s)"
    and "timer_ok s \<Longrightarrow> timer_ok (with_process pid nxt exe owner s)"
  using fresh_addr [of s] assms
  by (auto simp: tables_ok_def queue_ok_def timer_ok_def with_process_def queued_def asleep_def)

lemma add_process_cases:
  assumes "add_process exe owner b s = Some (pid, s')" and "tables_ok s"
  shows "(pid = 0 \<and> s' = s) \<or>
    (\<exists>nxt. map_of (all_processes s) pid = None \<and> id_range max_pid pid \<and> id_range max_pid nxt
       \<and> s' = publish pid PROCESS_STATE_CREATED (with_process pid nxt exe owner s))"
proof (cases "\<not> b \<or> shutting_down s \<or> length (all_processes s) \<ge> unat max_pid")
  case True
  with assms(1) show ?thesis by (auto simp: add_process_def split: if_splits)
next
  case False
  with assms(1) obtain nxt where
    al: "alloc_id (map_keys (all_processes s)) max_pid (next_pid s) = Some (pid, nxt)"
    and s': "s' = publish pid PROCESS_STATE_CREATED (with_process pid nxt exe owner s)"
    by (auto simp: add_process_def with_process_def Let_def split: Option.bind_splits)
  have range: "id_range max_pid (next_pid s)" and sorted: "map_sorted (all_processes s)"
    using assms(2) by (auto simp: tables_ok_def procs_ok_def id_range_def)
  from alloc_id_sound [OF al max_id_gt(1) range] om.mem_keys [OF sorted, of pid] s'
  show ?thesis by auto
qed

lemma inv_add: "sched_ok b s \<Longrightarrow> add_process exe owner c s = Some (pid, s') \<Longrightarrow> sched_ok b s'"
  using add_process_cases [of exe owner c s pid s'] tables_ok_add queue_timer_add [of s]
  unfolding sched_ok_def by fastforce

end
