(* ===== verification/SchedRun.thy ===== *)
theory SchedRun
  imports SchedInv
begin

text \<open>
  The rest of the preservation proof for \<open>ProcessScheduler\<close>: the cleanup of a finished
  process, \<open>returned_from_execute\<close>, resource identifiers; then what follows for the
  reachable schedulers.
\<close>

subsection \<open>Cleanup\<close>

definition without_process :: "addr \<Rightarrow> ('m, 'r) process_info \<Rightarrow> ('m, 'r) sched \<Rightarrow> ('m, 'r) sched" where
  "without_process p i s = s\<lparr>published := published s @ [(my_pid i, PROCESS_STATE_COMPLETED)],
     rid_to_pid := fold map_erase (map_keys (resources i)) (rid_to_pid s),
     all_processes := map_erase (my_pid i) (all_processes s),
     all_processes_entity := entity_remove (my_db_owner_id i) p (all_processes_entity s),
     infos := (infos s)(p := None)\<rparr>"

lemma release_fold:
  "map_sorted (rid_to_pid s) \<Longrightarrow> distinct rids
    \<Longrightarrow> (\<forall>rid \<in> set rids. map_of (rid_to_pid s) rid = Some pid)
    \<Longrightarrow> fold (release_rid_internal pid) rids s
          = s\<lparr>rid_to_pid := fold map_erase rids (rid_to_pid s)\<rparr>"
proof (induction rids arbitrary: s)
  case (Cons rid rids)
  let ?s = "s\<lparr>rid_to_pid := map_erase rid (rid_to_pid s)\<rparr>"
  have "release_rid_internal pid rid s = ?s"
    using Cons.prems by (simp add: release_rid_internal_def)
  moreover have "fold (release_rid_internal pid) rids ?s
      = ?s\<lparr>rid_to_pid := fold map_erase rids (rid_to_pid ?s)\<rparr>"
    using Cons.prems by (intro Cons.IH) (auto simp: om.good_erase om.lookup_erase)
  ultimately show ?case by simp
qed simp

lemma removed_owner:
  "my_db_owner_id (fold (\<lambda>rid i. fst (remove_resource rid True i)) rids i) = my_db_owner_id i"
proof (induction rids arbitrary: i)
  case (Cons rid rids)
  have "my_db_owner_id (fst (remove_resource rid True i)) = my_db_owner_id i"
    by (simp add: remove_resource_def split: option.split)
  with Cons show ?case by simp
qed simp

lemma cleanup_process_live:
  assumes ok: "tables_ok s" and i: "infos s p = Some i"
  shows "cleanup_process p s = Some (without_process p i s)"
proof -
  let ?j = "i\<lparr>process_state := PROCESS_STATE_COMPLETED\<rparr>"
  let ?s = "publish (my_pid i) PROCESS_STATE_COMPLETED (put_info p ?j s)"
  let ?rids = "map_keys (resources i)"
  have wf: "info_wf i" and sorted: "map_sorted (rid_to_pid s)"
    using ok i by (auto simp: tables_ok_def rids_ok_def)
  have "map_of (rid_to_pid s) rid = Some (my_pid i)" if "map_of (resources i) rid \<noteq> None" for rid
    using ok i that unfolding tables_ok_def rids_ok_def by blast
  then have "\<forall>rid \<in> set ?rids. map_of (rid_to_pid s) rid = Some (my_pid i)"
    using wf by (simp add: om.mem_keys info_wf_def)
  moreover have "distinct ?rids" using wf by (simp add: info_wf_def om.distinct_keys)
  ultimately have rel: "fold (release_rid_internal (my_pid i)) ?rids (put_info p k ?s)
      = (put_info p k ?s)\<lparr>rid_to_pid := fold map_erase ?rids (rid_to_pid s)\<rparr>" for k
    using release_fold [of "put_info p k ?s" ?rids "my_pid i"] sorted
    by (simp add: put_info_def publish_def)
  have "cleanup_begin p s = Some ?s"
    using i by (simp add: cleanup_begin_def set_process_state_def)
  moreover have "cleanup_finish p ?s = Some (without_process p i s)"
    by (simp add: cleanup_finish_def get_resource_ids_def Let_def rel removed_owner)
      (simp add: without_process_def put_info_def publish_def removed_owner)
  ultimately show ?thesis by (simp add: cleanup_process_def)
qed

lemma tables_ok_without:
  assumes ok: "tables_ok s" and i: "infos s p = Some i"
  shows "tables_ok (without_process p i s)"
proof -
  have procs: "procs_ok s" and owners: "owners_ok s" and rids: "rids_ok s"
    using ok by (simp_all add: tables_ok_def)
  have pid: "map_of (all_processes s) (my_pid i) = Some p" using procs i by (simp add: procs_ok_def)
  have only: "q = p" if "infos s q = Some x" "my_pid x = my_pid i" for q x
    using that procs pid unfolding procs_ok_def by (metis option.inject)
  have "procs_ok (without_process p i s)"
    unfolding procs_ok_def
  proof (intro conjI allI impI)
    fix pid q
    assume "map_of (all_processes (without_process p i s)) pid = Some q"
    then have q: "map_of (all_processes s) pid = Some q" "pid \<noteq> my_pid i"
      using procs by (auto simp: without_process_def procs_ok_def om.lookup_erase split: if_splits)
    then obtain x where x: "infos s q = Some x" "my_pid x = pid"
      using procs unfolding procs_ok_def by blast
    with q(2) i have "q \<noteq> p" by auto
    with x show "\<exists>x. infos (without_process p i s) q = Some x \<and> my_pid x = pid"
      by (simp add: without_process_def)
  next
    fix q x
    assume "infos (without_process p i s) q = Some x"
    then have x: "infos s q = Some x" "q \<noteq> p" by (auto simp: without_process_def split: if_splits)
    with only have "my_pid x \<noteq> my_pid i" by blast
    with x procs show "map_of (all_processes (without_process p i s)) (my_pid x) = Some q"
      "q < next_addr (without_process p i s)" "1 \<le> my_pid x" "my_pid x < max_pid"
      by (auto simp: without_process_def procs_ok_def om.lookup_erase)
  qed (use procs in \<open>auto simp: procs_ok_def without_process_def om.good_erase\<close>)
  moreover have "owners_ok (without_process p i s)"
    using owners i unfolding owners_ok_alt
    by (auto simp: without_process_def nested_sorted_remove owned_remove)
  moreover have "rids_ok (without_process p i s)"
  proof -
    have lookup: "map_of (fold map_erase (map_keys (resources i)) (rid_to_pid s)) rid
        = (if rid \<in> set (map_keys (resources i)) then None else map_of (rid_to_pid s) rid)"
      and sorted: "map_sorted (fold map_erase (map_keys (resources i)) (rid_to_pid s))" for rid
      using rids om.lookup_erase_all [of "rid_to_pid s" "map_keys (resources i)" rid]
      by (simp_all add: rids_ok_def)
    have keys: "rid \<in> set (map_keys (resources i)) \<longleftrightarrow> map_of (resources i) rid \<noteq> None" for rid
      using rids i by (auto simp: rids_ok_def info_wf_def om.mem_keys)
    have "map_of (fold map_erase (map_keys (resources i)) (rid_to_pid s)) rid = Some k
        \<longleftrightarrow> (\<exists>q x. ((infos s)(p := None)) q = Some x \<and> my_pid x = k \<and> map_of (resources x) rid \<noteq> None)"
      for rid k
    proof -
      have map: "map_of (rid_to_pid s) rid = Some k
          \<longleftrightarrow> (\<exists>q x. infos s q = Some x \<and> my_pid x = k \<and> map_of (resources x) rid \<noteq> None)"
        using rids by (simp add: rids_ok_def)
      show ?thesis
      proof (cases "map_of (resources i) rid = None")
        case True
        then have "(\<exists>q x. ((infos s)(p := None)) q = Some x \<and> my_pid x = k \<and> map_of (resources x) rid \<noteq> None)
          \<longleftrightarrow> (\<exists>q x. infos s q = Some x \<and> my_pid x = k \<and> map_of (resources x) rid \<noteq> None)"
          using i by (auto split: if_splits) (metis option.distinct(1) option.inject)
        with True map show ?thesis by (simp add: lookup keys)
      next
        case False
        have own: "map_of (rid_to_pid s) rid = Some (my_pid i)"
          using rids i False unfolding rids_ok_def by blast
        have "\<not> (q \<noteq> p \<and> infos s q = Some x \<and> map_of (resources x) rid \<noteq> None)" for q x
        proof
          assume q: "q \<noteq> p \<and> infos s q = Some x \<and> map_of (resources x) rid \<noteq> None"
          then have "map_of (rid_to_pid s) rid = Some (my_pid x)"
            using rids unfolding rids_ok_def by blast
          with own q only show False by auto
        qed
        with False show ?thesis by (auto simp: lookup keys split: if_splits)
      qed
    qed
    then show ?thesis
      using rids sorted unfolding rids_ok_def by (auto simp: without_process_def)
  qed
  ultimately show ?thesis by (simp add: tables_ok_def)
qed

lemma inv_without:
  assumes "sched_ok b s" and "infos s p = Some i" and "\<not> queued i" and "\<And>t. \<not> asleep i t"
  shows "sched_ok b (without_process p i s)"
proof -
  have "queue_ok (without_process p i s)"
    using assms by (auto simp: sched_ok_def queue_ok_def without_process_def)
  moreover have "b \<Longrightarrow> timer_ok (without_process p i s)"
    using assms by (auto simp: sched_ok_def timer_ok_def without_process_def)
  ultimately show ?thesis
    using assms(1,2) tables_ok_without by (auto simp: sched_ok_def)
qed

subsection \<open>Returning from an execution\<close>

lemma executing_idle:
  "process_state i = PROCESS_STATE_EXECUTING \<Longrightarrow> \<not> queued i \<and> \<not> asleep i t"
  by (simp add: queued_def asleep_def)

text \<open>A process that stopped executing gets some state outside the queues.\<close>

lemma inv_stop:
  assumes ok: "sched_ok b s" and i: "infos s p = Some i" and ex: "process_state i = PROCESS_STATE_EXECUTING"
    and j: "ident j = ident i" "\<not> queued j" "process_state j \<noteq> PROCESS_STATE_SLEEPING"
  shows "sched_ok b (put_info p j s)"
  using j by (intro inv_put [OF ok i]) (auto simp: executing_idle [OF ex] asleep_def ex)

lemma inv_sleep:
  assumes ok: "sched_ok b s" and i: "infos s p = Some i" and ex: "process_state i = PROCESS_STATE_EXECUTING"
    and j: "ident j = ident i" "asleep j t"
  shows "sched_ok b (put_info p j (s\<lparr>timer_queue := timer_insert t p (timer_queue s)\<rparr>))"
proof -
  have "\<not> queued j" using j(2) by (simp add: asleep_def queued_def)
  then have "queue_ok (put_info p j (s\<lparr>timer_queue := timer_insert t p (timer_queue s)\<rparr>))"
    using ok i executing_idle [OF ex] by (intro queue_ok_put [where i = i]) (auto simp: sched_ok_def)
  moreover have "tables_ok (put_info p j (s\<lparr>timer_queue := timer_insert t p (timer_queue s)\<rparr>))"
    using ok i j by (intro tables_ok_update [where i = i]) (auto simp: sched_ok_def)
  moreover have "timer_ok (put_info p j (s\<lparr>timer_queue := timer_insert t p (timer_queue s)\<rparr>))" if b
    using that ok i j executing_idle [OF ex] by (intro timer_ok_sleep) (auto simp: sched_ok_def)
  ultimately show ?thesis by (simp add: sched_ok_def)
qed

text \<open>
  \<open>returned_from_execute\<close> for a process that did not end, in one piece: what becomes of its
  information, and what is done with it.
\<close>

definition suspends :: "process_status \<Rightarrow> ('m, 'r) process_info \<Rightarrow> bool" where
  "suspends st i \<longleftrightarrow> \<not> pending_killed i \<and> (st = PROCESS_STATUS_SUSPENDED \<or> pending_suspended i)"

definition reschedules :: "process_status \<Rightarrow> ('m, 'r) process_info \<Rightarrow> bool" where
  "reschedules st i \<longleftrightarrow> pending_killed i \<or> (\<not> suspends st i
     \<and> (st = PROCESS_STATUS_EXECUTE_MORE \<or> waiting_messages i \<noteq> []))"

definition stopped :: "process_status \<Rightarrow> ('m, 'r) process_info \<Rightarrow> ('m, 'r) process_info" where
  "stopped st i = (if suspends st i
     then i\<lparr>pending_suspended := False, process_state := PROCESS_STATE_SUSPENDED, waiting_messages := []\<rparr>
     else i\<lparr>process_state := PROCESS_STATE_SCHEDULING\<rparr>)"

definition settled :: "process_status \<Rightarrow> ('m, 'r) process_info \<Rightarrow> ('m, 'r) process_info" where
  "settled st i =
     (let idle = (\<not> suspends st i \<and> \<not> reschedules st i); j = stopped st i in
      if idle \<and> st = PROCESS_STATUS_WAIT_MESSAGE then j\<lparr>process_state := PROCESS_STATE_WAIT_MESSAGE\<rparr>
      else if st = PROCESS_STATUS_BLOCKED then
        (let j = j\<lparr>blocked_resources := default_blocked_resources j\<rparr>
         in if idle then j\<lparr>process_state := PROCESS_STATE_BLOCKED\<rparr> else j)
      else j)"

lemma returned_unfinished:
  assumes "infos s p = Some i" and "st \<noteq> PROCESS_STATUS_FINISHED" and "st \<noteq> PROCESS_STATUS_ERROR"
  shows "returned_from_execute now ms (Some p) st s =
    (if \<not> suspends st i \<and> \<not> reschedules st i \<and> st = PROCESS_STATUS_SLEEP
     then Some (put_info p ((stopped st i)\<lparr>wakeup_time := now + unat ms, process_state := PROCESS_STATE_SLEEPING\<rparr>)
       (s\<lparr>timer_queue := timer_insert (now + unat ms) p (timer_queue s)\<rparr>))
     else if reschedules st i then schedule_process p (put_info p (settled st i) s)
     else Some (put_info p (settled st i) s))"
  using assms
  by (cases "suspends st i")
    (auto simp: returned_from_execute_def Let_def flag_op_defs clear_all_messages_def
      messages_empty_def set_sleep_time_offset_def get_wakeup_time_def reset_blocked_resources_def
      suspends_def reschedules_def stopped_def settled_def)

lemma ident_stopped [simp]: "ident (stopped st i) = ident i"
  by (simp add: stopped_def)

lemma ident_settled [simp]: "ident (settled st i) = ident i"
  by (simp add: settled_def Let_def)

lemma settled_state:
  "process_state (settled st i) \<in> {PROCESS_STATE_SUSPENDED, PROCESS_STATE_SCHEDULING,
     PROCESS_STATE_WAIT_MESSAGE, PROCESS_STATE_BLOCKED}"
  by (simp add: settled_def stopped_def Let_def)

lemma inv_return:
  assumes ok: "sched_ok b s" and i: "infos s p = Some i" and ex: "process_state i = PROCESS_STATE_EXECUTING"
    and ret: "returned_from_execute now ms (Some p) st s = Some s'"
  shows "sched_ok b s'"
proof (cases "st = PROCESS_STATUS_FINISHED \<or> st = PROCESS_STATUS_ERROR")
  case True
  let ?s = "if st = PROCESS_STATUS_FINISHED then s else publish (my_pid i) PROCESS_STATE_KILLED s"
  have ok': "sched_ok b ?s" and i': "infos ?s p = Some i" using ok i by (auto simp: sched_ok_def)
  then have "cleanup_process p ?s = Some (without_process p i ?s)"
    by (intro cleanup_process_live) (auto simp: sched_ok_def)
  moreover have "returned_from_execute now ms (Some p) st s = cleanup_process p ?s"
    using True i by (auto simp: returned_from_execute_def)
  ultimately have "s' = without_process p i ?s" using ret by simp
  with inv_without [OF ok' i'] executing_idle [OF ex] show ?thesis by simp
next
  case False
  have settle: "sched_ok b (put_info p (settled st i) s)"
    using settled_state [of st i] by (intro inv_stop [OF ok i ex]) (auto simp: queued_def)
  have "sched_ok b (put_info p ((stopped st i)\<lparr>wakeup_time := now + unat ms,
      process_state := PROCESS_STATE_SLEEPING\<rparr>)
      (s\<lparr>timer_queue := timer_insert (now + unat ms) p (timer_queue s)\<rparr>))"
    by (intro inv_sleep [OF ok i ex]) (simp_all add: asleep_def)
  with settle ret False i show ?thesis
    by (auto simp: returned_unfinished inv_schedule split: if_splits)
qed

subsection \<open>Resource identifiers\<close>

text \<open>What a resource change of one process and of the table of identifiers must agree on.\<close>

lemma tables_ok_resource:
  assumes ok: "tables_ok s" and i: "infos s p = Some i"
    and j: "my_pid j = my_pid i" "my_db_owner_id j = my_db_owner_id i" "info_wf j"
    and m: "map_sorted m" "id_range max_rid nxt"
    and new: "\<And>rid. map_of m rid = (if rid = k then (if map_of (resources j) k = None then None
        else Some (my_pid i)) else map_of (rid_to_pid s) rid)"
    and res: "\<And>rid. rid \<noteq> k \<Longrightarrow> map_of (resources j) rid = map_of (resources i) rid"
    and old: "\<And>pid. map_of (rid_to_pid s) k = Some pid \<Longrightarrow> pid = my_pid i"
  shows "tables_ok (put_info p j (s\<lparr>next_rid := nxt, rid_to_pid := m\<rparr>))"
proof -
  let ?s = "put_info p j (s\<lparr>next_rid := nxt, rid_to_pid := m\<rparr>)"
  have procs: "procs_ok s" and owners: "owners_ok s" and rids: "rids_ok s"
    using ok by (simp_all add: tables_ok_def)
  have po: "procs_ok ?s \<and> owners_ok ?s"
    using procs owners i j(1,2) by (intro procs_owners_put) (auto simp: procs_ok_def owners_ok_def)
  have map: "map_of (rid_to_pid s) rid = Some pid
      \<longleftrightarrow> (\<exists>q x. infos s q = Some x \<and> my_pid x = pid \<and> map_of (resources x) rid \<noteq> None)" for rid pid
    using rids by (simp add: rids_ok_def)
  have only: "q = p" if "infos s q = Some x" "my_pid x = my_pid i" for q x
    using that procs i unfolding procs_ok_def by (metis option.inject)
  have others: "map_of (resources x) k = None" if "infos s q = Some x" "q \<noteq> p" for q x
  proof (rule ccontr)
    assume "map_of (resources x) k \<noteq> None"
    with map that(1) have "map_of (rid_to_pid s) k = Some (my_pid x)" by blast
    from old [OF this] only that show False by blast
  qed
  have "map_of m rid = Some pid
      \<longleftrightarrow> (\<exists>q x. infos ?s q = Some x \<and> my_pid x = pid \<and> map_of (resources x) rid \<noteq> None)" for rid pid
  proof (cases "rid = k")
    case True
    have "(\<exists>q x. infos ?s q = Some x \<and> my_pid x = pid \<and> map_of (resources x) rid \<noteq> None)
        \<longleftrightarrow> my_pid i = pid \<and> map_of (resources j) k \<noteq> None"
      using True others j by (auto split: if_splits)
    then show ?thesis using True new by auto
  next
    case False
    have "(\<exists>q x. ((infos s)(p \<mapsto> j)) q = Some x \<and> my_pid x = pid \<and> map_of (resources x) rid \<noteq> None)
        \<longleftrightarrow> (\<exists>q x. infos s q = Some x \<and> my_pid x = pid \<and> map_of (resources x) rid \<noteq> None)"
      using res [OF False] j(1)
        ex_live_update [of "infos s" p i "\<lambda>x. my_pid x = pid \<and> map_of (resources x) rid \<noteq> None" j] i
      by simp
    then show ?thesis using False new map by simp
  qed
  moreover have "\<forall>q x. infos ?s q = Some x \<longrightarrow> info_wf x"
    using rids j(3) by (auto simp: rids_ok_def split: if_splits)
  ultimately have "rids_ok ?s"
    using m unfolding rids_ok_def id_range_def by (simp add: put_info_def)
  with po show ?thesis by (simp add: tables_ok_def)
qed

lemma sched_ok_resource:
  assumes ok: "sched_ok b s" and i: "infos s p = Some i" and same: "process_state j = process_state i"
    "wakeup_time j = wakeup_time i"
    and tables: "tables_ok (put_info p j (s\<lparr>next_rid := nxt, rid_to_pid := m\<rparr>))"
  shows "sched_ok b (put_info p j (s\<lparr>next_rid := nxt, rid_to_pid := m\<rparr>))"
proof -
  have "queue_ok (put_info p j (s\<lparr>next_rid := nxt, rid_to_pid := m\<rparr>))"
    using ok i same by (intro queue_ok_put [where i = i])
      (auto simp: sched_ok_def queue_ok_def queued_def)
  moreover have "b \<Longrightarrow> timer_ok (put_info p j (s\<lparr>next_rid := nxt, rid_to_pid := m\<rparr>))"
    using ok i same by (intro timer_ok_put [where i = i])
      (auto simp: sched_ok_def timer_ok_def asleep_def)
  ultimately show ?thesis using tables by (simp add: sched_ok_def)
qed

lemma get_next_rid_fresh:
  assumes "get_next_rid pid s = Some (rid, u)" and "map_sorted (rid_to_pid s)"
    and "id_range max_rid (next_rid s)"
  shows "(rid = 0 \<and> u = s) \<or> (\<exists>nxt. map_of (rid_to_pid s) rid = None \<and> id_range max_rid rid
    \<and> id_range max_rid nxt \<and> u = s\<lparr>next_rid := nxt, rid_to_pid := map_put rid pid (rid_to_pid s)\<rparr>)"
proof (cases "length (rid_to_pid s) \<ge> unat max_rid \<or> map_of (all_processes s) pid = None")
  case True
  with assms(1) show ?thesis by (auto simp: get_next_rid_def split: if_splits)
next
  case False
  with assms(1) obtain nxt where
    al: "alloc_id (map_keys (rid_to_pid s)) max_rid (next_rid s) = Some (rid, nxt)"
    and u: "u = s\<lparr>next_rid := nxt, rid_to_pid := map_put rid pid (rid_to_pid s)\<rparr>"
    by (auto simp: get_next_rid_def split: Option.bind_splits)
  from alloc_id_sound [OF al max_id_gt(2) assms(3)] om.mem_keys [OF assms(2), of rid] u
  show ?thesis by auto
qed

lemma get_next_rid_cases:
  assumes "get_next_rid pid s = Some (rid, u)" and "tables_ok s"
  shows "(rid = 0 \<and> u = s) \<or> (\<exists>nxt. map_of (rid_to_pid s) rid = None \<and> id_range max_rid rid
    \<and> id_range max_rid nxt \<and> u = s\<lparr>next_rid := nxt, rid_to_pid := map_put rid pid (rid_to_pid s)\<rparr>)"
  using assms(2) by (intro get_next_rid_fresh [OF assms(1)]) (auto simp: tables_ok_def rids_ok_def id_range_def)

lemma put_info_same: "infos s p = Some i \<Longrightarrow> put_info p i s = s"
  by (simp add: put_info_def fun_upd_idem)

lemma inv_add_resource:
  assumes ok: "sched_ok b s" and add: "services_add_resource blocking accepts p resource s = Some (rid, s')"
  shows "sched_ok b s'"
proof -
  from add obtain i where i: "infos s p = Some i"
    by (auto simp: services_add_resource_def split: option.splits)
  have tables: "tables_ok s" using ok by (simp add: sched_ok_def)
  then have rp: "map_sorted (rid_to_pid s)" and wf: "info_wf i"
    using i by (auto simp: tables_ok_def rids_ok_def)
  show ?thesis
  proof (cases resource)
    case None
    with add i ok show ?thesis by (simp add: services_add_resource_def)
  next
    case (Some r)
    with add i obtain k u where k: "get_next_rid (my_pid i) s = Some (k, u)"
      by (auto simp: services_add_resource_def Let_def split: Option.bind_splits)
    from get_next_rid_cases [OF k tables] show ?thesis
    proof (elim disjE exE conjE)
      assume "k = 0" and "u = s"
      with add i k ok Some show ?thesis by (simp add: services_add_resource_def Let_def)
    next
      fix nxt
      assume free: "map_of (rid_to_pid s) k = None" and rk: "id_range max_rid k"
        and rn: "id_range max_rid nxt"
        and u: "u = s\<lparr>next_rid := nxt, rid_to_pid := map_put k (my_pid i) (rid_to_pid s)\<rparr>"
      note k0 = id_range_nonzero [OF rk]
      have none: "map_of (resources i) k = None"
        using tables i free unfolding tables_ok_def rids_ok_def by (metis option.distinct(1))
      show ?thesis
      proof (cases accepts)
        case True
        define j where "j = fst (if blocking then add_blocking_resource k resource True i
            else add_resource k resource True i)"
        have j: "my_pid j = my_pid i" "my_db_owner_id j = my_db_owner_id i"
          "resources j = map_put k r (resources i)" "process_state j = process_state i"
          "wakeup_time j = wakeup_time i"
          using k0 Some by (simp_all add: j_def add_blocking_resource_def add_resource_def)
        have s': "s' = put_info p j u"
          using add i k k0 Some True
          by (auto simp: services_add_resource_def j_def add_blocking_resource_def add_resource_def
              Let_def split: if_splits)
        have "tables_ok (put_info p j u)"
          unfolding u
          using wf rp free k0
          by (intro tables_ok_resource [OF tables i j(1,2) _ _ rn])
            (auto simp: j info_wf_def om.good_put om.lookup_put)
        then show ?thesis using sched_ok_resource [OF ok i j(4,5)] unfolding s' u by blast
      next
        case False
        then have "s' = s\<lparr>next_rid := nxt,
            rid_to_pid := map_erase k (map_put k (my_pid i) (rid_to_pid s))\<rparr>"
          using add i k k0 Some u rp
          by (simp add: services_add_resource_def release_rid_def release_rid_internal_def
              om.lookup_put Let_def)
        also have "\<dots> = put_info p i (s\<lparr>next_rid := nxt,
            rid_to_pid := map_erase k (map_put k (my_pid i) (rid_to_pid s))\<rparr>)"
          using i by (simp add: put_info_same)
        finally have "s' = put_info p i (s\<lparr>next_rid := nxt,
            rid_to_pid := map_erase k (map_put k (my_pid i) (rid_to_pid s))\<rparr>)" .
        moreover have "tables_ok (put_info p i (s\<lparr>next_rid := nxt,
            rid_to_pid := map_erase k (map_put k (my_pid i) (rid_to_pid s))\<rparr>))"
          using wf rp free none
          by (intro tables_ok_resource [OF tables i _ _ _ _ rn, where k = k])
            (auto simp: om.good_put om.good_erase om.lookup_erase om.lookup_put)
        ultimately show ?thesis using sched_ok_resource [OF ok i] by metis
      qed
    qed
  qed
qed

lemma inv_remove_resource:
  assumes ok: "sched_ok b s" and rem: "services_remove_resource p resource s = Some (r, s')"
  shows "sched_ok b s'"
proof -
  from rem obtain i where i: "infos s p = Some i"
    by (auto simp: services_remove_resource_def split: option.splits)
  have tables: "tables_ok s" using ok by (simp add: sched_ok_def)
  then have rp: "map_sorted (rid_to_pid s)" "id_range max_rid (next_rid s)" and wf: "info_wf i"
    using i by (auto simp: tables_ok_def rids_ok_def id_range_def)
  have keep: "sched_ok b (put_info p i s)" by (rule inv_put [OF ok i]) simp_all
  show ?thesis
  proof (cases "case resource of None \<Rightarrow> None | Some x \<Rightarrow> find (\<lambda>e. snd e = x) (resources i)")
    case None
    then have "s' = s \<or> s' = put_info p i s"
      using rem i by (auto simp: services_remove_resource_def remove_resource_ptr_def split: option.splits)
    with ok keep show ?thesis by blast
  next
    case (Some e)
    then obtain x k where x: "resource = Some x" "e = (k, x)" "(k, x) \<in> set (resources i)"
      by (cases resource) (auto simp: find_Some_iff split: option.splits dest: nth_mem, metis nth_mem surj_pair)
    have own: "map_of (resources i) k \<noteq> None" using weak_map_of_SomeI [OF x(3)] by auto
    then have k0: "k \<noteq> 0" using wf by (auto simp: info_wf_def)
    have rid: "map_of (rid_to_pid s) k = Some (my_pid i)"
      using tables i own unfolding tables_ok_def rids_ok_def by blast
    let ?j = "i\<lparr>blocked_resources := blocked_resources i - {k}, resources := map_erase k (resources i)\<rparr>"
    have s': "s' = put_info p ?j (s\<lparr>next_rid := next_rid s, rid_to_pid := map_erase k (rid_to_pid s)\<rparr>)"
      using rem i Some x(1,2) k0 rid
      by (auto simp: services_remove_resource_def remove_resource_ptr_def release_rid_def
          release_rid_internal_def put_info_def)
    have "tables_ok (put_info p ?j (s\<lparr>next_rid := next_rid s, rid_to_pid := map_erase k (rid_to_pid s)\<rparr>))"
      using wf rp(1) rid
      by (intro tables_ok_resource [OF tables i _ _ _ _ rp(2), where k = k])
        (auto simp: info_wf_def om.good_erase om.lookup_erase)
    from sched_ok_resource [OF ok i _ _ this] show ?thesis unfolding s' by simp
  qed
qed

subsection \<open>Reachable schedulers\<close>

text \<open>A step that does not suspend a sleeping process.\<close>

inductive careful_step :: "('m, 'r) sched \<Rightarrow> ('m, 'r) sched \<Rightarrow> bool" where
  careful_other: "sched_step s s' \<Longrightarrow> \<nexists>pid r. suspend_process pid s = Some (r, s') \<Longrightarrow> careful_step s s'"
| careful_suspend: "suspend_process pid s = Some (r, s') \<Longrightarrow> \<not> sleeper pid s \<Longrightarrow> careful_step s s'"

inductive careful_reachable :: "('m, 'r) sched \<Rightarrow> bool" where
  careful_new: "careful_reachable sched_new"
| careful_next: "careful_reachable s \<Longrightarrow> careful_step s s' \<Longrightarrow> careful_reachable s'"

lemma step_inv:
  assumes "sched_step s s'" and "sched_ok b s" and "b \<Longrightarrow> \<nexists>pid r. suspend_process pid s = Some (r, s')"
  shows "sched_ok b s'"
  using assms(1)
proof cases
  case (step_suspend pid r)
  then show ?thesis using assms(2,3) inv_suspend by blast
qed (use assms(2) in \<open>blast intro: inv_add inv_kill inv_start inv_send inv_next inv_return
      inv_shutdown inv_jump inv_add_resource inv_remove_resource\<close>)+

lemma sched_ok_new [simp]: "sched_ok b sched_new"
  by (simp add: sched_ok_def) (auto simp: queue_ok_def timer_ok_def sched_new_def)

lemma reachable_ok: "reachable s \<Longrightarrow> sched_ok False s"
  by (induction rule: reachable.induct) (auto intro: step_inv)

lemma careful_reachable_ok: "careful_reachable s \<Longrightarrow> sched_ok True s"
proof (induction rule: careful_reachable.induct)
  case (careful_next s s')
  from careful_next.hyps(2) show ?case
  proof cases
    case careful_other
    then show ?thesis using careful_next.IH step_inv by blast
  next
    case (careful_suspend pid r)
    then show ?thesis using careful_next.IH inv_suspend by blast
  qed
qed simp

text \<open>Both allocators of the scheduler keep the contract of an allocator.\<close>

interpretation pids: id_allocator "\<lambda>(exe, owner). add_process exe owner True"
  "\<lambda>s. set (map_keys (all_processes s))" 0 "sched_ok False"
proof
  fix s s' :: "('m, 'r) sched" and a pid
  assume ok: "sched_ok False s" and add: "(case a of (exe, owner) \<Rightarrow> add_process exe owner True) s = Some (pid, s')"
    and nz: "pid \<noteq> (0 :: u32)"
  obtain exe owner where a: "a = (exe, owner)" by fastforce
  have tables: "tables_ok s" and sorted: "map_sorted (all_processes s)"
    using ok by (auto simp: sched_ok_def tables_ok_def procs_ok_def)
  have "add_process exe owner True s = Some (pid, s')" using add a by simp
  from add_process_cases [OF this tables] nz obtain nxt where
    "map_of (all_processes s) pid = None"
    "s' = publish pid PROCESS_STATE_CREATED (with_process pid nxt exe owner s)" by auto
  then show "pid \<notin> set (map_keys (all_processes s))
      \<and> set (map_keys (all_processes s')) = insert pid (set (map_keys (all_processes s))) \<and> sched_ok False s'"
    using inv_add [OF ok] add a sorted
    by (auto simp: om.mem_keys om.set_keys_put with_process_def)
qed

interpretation rids: id_allocator get_next_rid "\<lambda>s. set (map_keys (rid_to_pid s))" 0
  "\<lambda>s. map_sorted (rid_to_pid s) \<and> id_range max_rid (next_rid s)"
proof
  fix s s' :: "('m, 'r) sched" and pid rid
  assume ok: "map_sorted (rid_to_pid s) \<and> id_range max_rid (next_rid s)"
    and get: "get_next_rid pid s = Some (rid, s')" and nz: "rid \<noteq> (0 :: u32)"
  then obtain nxt where
    al: "alloc_id (map_keys (rid_to_pid s)) max_rid (next_rid s) = Some (rid, nxt)"
    and s': "s' = s\<lparr>next_rid := nxt, rid_to_pid := map_put rid pid (rid_to_pid s)\<rparr>"
    by (auto simp: get_next_rid_def split: if_splits Option.bind_splits)
  from alloc_id_sound [OF al max_id_gt(2)] ok s'
  show "rid \<notin> set (map_keys (rid_to_pid s))
      \<and> set (map_keys (rid_to_pid s')) = insert rid (set (map_keys (rid_to_pid s)))
      \<and> map_sorted (rid_to_pid s') \<and> id_range max_rid (next_rid s')"
    by (simp add: om.set_keys_put om.good_put)
qed

end
