(* ===== verification/SchedProps.thy ===== *)
theory SchedProps
  imports SchedRun
begin

text \<open>
  What the scheduler promises, and where it does not keep it: the properties of
  \<open>ProcessScheduler\<close> over the states that calls reach which are run one after another. What
  holds when they are interleaved is in \<open>SchedThreads\<close>.
\<close>

subsection \<open>Waking the sleepers\<close>

lemma wake_due_returns: "timer_ok s \<Longrightarrow> \<exists>s'. wake_due now s = Some s'"
proof (induction "length (timer_queue s)" arbitrary: s rule: less_induct)
  case less
  show ?case
  proof (cases "timer_queue s")
    case Nil
    then show ?thesis by (subst wake_due.simps) simp
  next
    case (Cons e es)
    obtain t p where e: "e = (t, p)" by fastforce
    then have "(t, p) \<in> set (timer_queue s)" using Cons by simp
    then obtain i where i: "infos s p = Some i" "asleep i t"
      using less.prems by (auto simp: timer_ok_def)
    then have st: "process_state i = PROCESS_STATE_SLEEPING" "wakeup_time i = t"
      by (simp_all add: asleep_def)
    let ?u = "put_info p (made_ready i) (enqueue p i s)"
    have u: "schedule_process p s = Some ?u"
      using i st by (simp add: schedule_process_live queued_def)
    have shorter: "length (timer_queue ?u) < length (timer_queue s)"
      using st Cons e by (simp add: enqueue_def Let_def timer_remove_def)
    from less.hyps [OF shorter schedule_process_timer [OF less.prems u]]
    obtain v where "wake_due now ?u = Some v" by blast
    with u e Cons show ?thesis by (subst wake_due.simps) simp
  qed
qed

text \<open>A timer that is due for a live process that does not sleep.\<close>

definition stuck_timer :: "nat \<Rightarrow> ('m, 'r) sched \<Rightarrow> bool" where
  "stuck_timer now s \<longleftrightarrow> sorted (map fst (timer_queue s))
     \<and> (\<exists>t p i. (t, p) \<in> set (timer_queue s) \<and> t \<le> now \<and> infos s p = Some i
          \<and> process_state i \<noteq> PROCESS_STATE_SLEEPING)"

lemma stuck_timer_schedule:
  assumes stuck: "stuck_timer now s" and u: "schedule_process q s = Some u"
  shows "stuck_timer now u"
proof -
  from stuck obtain t p i where p: "(t, p) \<in> set (timer_queue s)" "t \<le> now" "infos s p = Some i"
    "process_state i \<noteq> PROCESS_STATE_SLEEPING" and sorted: "sorted (map fst (timer_queue s))"
    by (auto simp: stuck_timer_def)
  from u obtain j where j: "infos s q = Some j" by (cases "infos s q") (auto simp: schedule_process_def)
  have timer: "timer_queue u = timer_queue s
      \<or> (process_state j = PROCESS_STATE_SLEEPING \<and> timer_queue u = timer_remove (wakeup_time j) q (timer_queue s))"
    using u j by (auto simp: schedule_process_live enqueue_def Let_def split: if_splits)
  have infos: "\<exists>k. infos u = (infos s)(q \<mapsto> k)
      \<and> (process_state j \<noteq> PROCESS_STATE_SLEEPING \<longrightarrow> process_state k \<noteq> PROCESS_STATE_SLEEPING)"
    using u j by (auto simp: schedule_process_live made_ready_def killed_def split: if_splits)
  have in_u: "(t, p) \<in> set (timer_queue u)"
    using timer p j by (cases "q = p") (auto simp: timer_remove_def)
  from infos p j obtain x where "infos u p = Some x" "process_state x \<noteq> PROCESS_STATE_SLEEPING"
    by (cases "q = p") auto
  moreover have "sorted (map fst (timer_queue u))"
    using timer sorted by (auto simp: timer_remove_def sorted_map_remove1)
  ultimately show ?thesis using in_u p(2) by (auto simp: stuck_timer_def)
qed

lemma stuck_timer_diverges:
  assumes "stuck_timer now s"
  shows "wake_due now s = None"
proof -
  have "\<not> stuck_timer now s" if "wake_due now s = Some r" for r
  proof (rule wake_due.raw_induct [OF _ that], goal_cases)
    case (1 wake now s y)
    show ?case
    proof
      assume stuck: "stuck_timer now s"
      then obtain e es where e: "timer_queue s = e # es" "fst e \<le> now"
        by (cases "timer_queue s") (force simp: stuck_timer_def)+
      with 1(2) obtain u where "schedule_process (snd e) s = Some u" "wake now u = Some y"
        by (auto split: Option.bind_splits)
      with 1(1) stuck_timer_schedule [OF stuck] show False by blast
    qed
  qed
  with assms show ?thesis by (cases "wake_due now s") auto
qed

subsection \<open>Creating processes\<close>

fun add_processes ::
    "(db_id \<times> db_id) list \<Rightarrow> ('m, 'r) sched \<Rightarrow> (u32 list \<times> ('m, 'r) sched) option" where
  "add_processes [] s = Some ([], s)"
| "add_processes (r # rs) s =
     do { (pid, s) \<leftarrow> add_process (fst r) (snd r) True s;
          if pid = 0 then None else do { (ps, s) \<leftarrow> add_processes rs s; Some (pid # ps, s) } }"

lemma add_processes_alloc: "add_processes rs s = pids.alloc_all rs s"
  by (induction rs arbitrary: s) (simp_all add: case_prod_beta cong: if_cong)

lemma card_pid_range: "card {k. id_range max_pid k} < unat max_pid"
  by (simp add: card_id_range max_pid_def)

lemma used_pid_range:
  assumes "sched_ok b s" and "pid \<in> set (map_keys (all_processes s))"
  shows "id_range max_pid pid"
proof -
  have procs: "procs_ok s" using assms(1) by (simp add: sched_ok_def tables_ok_def)
  then have "map_sorted (all_processes s)" by (simp add: procs_ok_def)
  then obtain p where "map_of (all_processes s) pid = Some p"
    using assms(2) by (auto simp: om.mem_keys)
  with procs show ?thesis by (auto simp: procs_ok_def id_range_def)
qed

lemma few_processes:
  assumes "tables_ok s"
  shows "length (all_processes s) < unat max_pid"
proof -
  have sorted: "map_sorted (all_processes s)" using assms by (simp add: tables_ok_def procs_ok_def)
  have "set (map_keys (all_processes s)) \<subseteq> {k. id_range max_pid k}"
    using assms by (fastforce simp: om.mem_keys [OF sorted] tables_ok_def procs_ok_def id_range_def)
  then have "card (set (map_keys (all_processes s))) \<le> card {k. id_range max_pid k}"
    by (intro card_mono) auto
  then show ?thesis
    using card_pid_range distinct_card [OF om.distinct_keys [OF sorted]] by (simp add: map_keys_def)
qed

subsection \<open>A scheduler with one running process\<close>

definition one_process :: "db_id \<Rightarrow> (string, string) sched" where
  "one_process owner = publish 1 PROCESS_STATE_CREATED (with_process 1 2 default_id owner sched_new)"

lemma add_first: "add_process default_id owner True sched_new = Some (1, one_process owner)"
proof -
  have "alloc_id [] max_pid 1 = Some (1, 2)"
    by (subst alloc_id.simps) (simp add: advance_id_def max_pid_def)
  then show ?thesis
    by (simp add: add_process_def one_process_def with_process_def sched_new_def max_pid_def
        map_keys_def)
qed

lemma one_process_sel [simp]:
  "infos (one_process owner) = [0 \<mapsto> process_info_new 1 default_id owner]"
  "all_processes (one_process owner) = [(1, 0)]" "shutting_down (one_process owner) = False"
  "run_queue (one_process owner) = []" "timer_queue (one_process owner) = []"
  "semaphore (one_process owner) = 0"
  by (simp_all add: one_process_def with_process_def sched_new_def)

definition info_in :: "process_state \<Rightarrow> db_id \<Rightarrow> (string, string) process_info" where
  "info_in st owner = (process_info_new 1 default_id owner)\<lparr>process_state := st\<rparr>"

lemma info_in_sel [simp]:
  "process_state (info_in st owner) = st" "my_pid (info_in st owner) = 1"
  "pending_killed (info_in st owner) = False" "pending_suspended (info_in st owner) = False"
  "waiting_messages (info_in st owner) = []" "my_db_owner_id (info_in st owner) = owner"
  "resources (info_in st owner) = []"
  "(info_in st owner)\<lparr>process_state := st'\<rparr> = info_in st' owner"
  by (simp_all add: info_in_def process_info_new_def)

lemma reachable_one: "reachable (one_process owner)"
  by (rule reach_step [OF reach_new step_add [OF add_first]])

definition ready_process :: "db_id \<Rightarrow> (string, string) sched" where
  "ready_process owner = put_info 0 (info_in PROCESS_STATE_READY owner)
     ((one_process owner)\<lparr>run_queue := [0], semaphore := 1\<rparr>)"

definition running_process :: "db_id \<Rightarrow> (string, string) sched" where
  "running_process owner = put_info 0 (info_in PROCESS_STATE_EXECUTING owner) (one_process owner)"

lemma start_first: "start_process 1 (one_process owner) = Some (True, ready_process owner)"
  by (simp add: start_process_def schedule_process_live get_process_state_def queued_def
      made_ready_def enqueue_def ready_process_def info_in_def process_info_new_def Let_def)

lemma next_first:
  "get_next_execute now (ready_process owner) = Some (RunProcess 0 False, running_process owner)"
proof -
  have "wake_due now (ready_process owner) = Some (ready_process owner)"
    by (subst wake_due.simps) (simp add: ready_process_def)
  then show ?thesis
    by (simp add: get_next_execute_def ready_process_def running_process_def Let_def
        get_process_state_def set_process_state_def)
      (simp add: put_info_def)
qed

lemma reachable_running: "reachable (running_process owner)"
  by (rule reach_step [OF reach_step [OF reachable_one step_start [OF start_first]]
      step_next [OF next_first [of 0]]])

lemma running_sel [simp]:
  "infos (running_process owner) = [0 \<mapsto> info_in PROCESS_STATE_EXECUTING owner]"
  "all_processes (running_process owner) = [(1, 0)]" "shutting_down (running_process owner) = False"
  "run_queue (running_process owner) = []" "timer_queue (running_process owner) = []"
  by (simp_all add: running_process_def)

text \<open>The running process went to sleep for five milliseconds.\<close>

definition sleeping_info :: "db_id \<Rightarrow> (string, string) process_info" where
  "sleeping_info owner = (info_in PROCESS_STATE_SLEEPING owner)\<lparr>wakeup_time := 5\<rparr>"

definition sleeping_process :: "db_id \<Rightarrow> (string, string) sched" where
  "sleeping_process owner = put_info 0 (sleeping_info owner)
     ((one_process owner)\<lparr>timer_queue := [(5, 0)]\<rparr>)"

lemma sleep_first:
  "returned_from_execute 0 5 (Some 0) PROCESS_STATUS_SLEEP (running_process owner)
    = Some (sleeping_process owner)"
  by (simp add: returned_unfinished suspends_def reschedules_def settled_def stopped_def
      sleeping_process_def sleeping_info_def running_process_def info_in_def process_info_new_def)
    (simp add: put_info_def)

lemma suspend_keeps:
  assumes "suspend_process pid s = Some (r, s')"
  shows "all_processes s' = all_processes s" "run_queue s' = run_queue s"
    "timer_queue s' = timer_queue s"
  using assms by (auto simp: suspend_process_def put_info_def split: if_splits option.splits)

lemma careful_unless_kept:
  assumes "careful_reachable s" and "sched_step s s'"
    and "all_processes s' \<noteq> all_processes s \<or> run_queue s' \<noteq> run_queue s
      \<or> timer_queue s' \<noteq> timer_queue s"
  shows "careful_reachable s'"
  using assms by (blast intro: careful_next careful_other dest: suspend_keeps)

lemma careful_sleeping: "careful_reachable (sleeping_process owner)"
proof -
  have "careful_reachable (one_process owner)"
    by (rule careful_unless_kept [OF careful_new step_add [OF add_first]]) (simp add: sched_new_def)
  then have "careful_reachable (ready_process owner)"
    by (rule careful_unless_kept [OF _ step_start [OF start_first]]) (simp add: ready_process_def)
  then have "careful_reachable (running_process owner)"
    by (rule careful_unless_kept [OF _ step_next [OF next_first [of 0]]])
      (simp add: ready_process_def)
  moreover have "infos (running_process owner) 0 = Some (info_in PROCESS_STATE_EXECUTING owner)"
    by simp
  ultimately show ?thesis
    by (rule careful_unless_kept [OF _ step_return [OF _ _ sleep_first]])
      (simp_all add: sleeping_process_def)
qed

subsection \<open>Properties\<close>

text \<open>
  C28. Suspending a sleeping process leaves it in the timer queue: from the moment its time has
  come, \<open>get_next_execute\<close> never returns, it looks at the same timer forever, with the
  scheduler's lock held.
\<close>

theorem suspended_sleeper_hangs:
  assumes "careful_reachable s" and "map_of (all_processes s) pid = Some p"
    and "infos s p = Some i" and "process_state i = PROCESS_STATE_SLEEPING"
    and "\<not> shutting_down s" and "wakeup_time i \<le> now"
  shows "\<exists>s'. suspend_process pid s = Some (True, s') \<and> get_next_execute now s' = None"
proof -
  let ?j = "i\<lparr>pending_suspended := False, process_state := PROCESS_STATE_SUSPENDED\<rparr>"
  let ?s = "put_info p ?j s"
  have "sched_ok True s" by (rule careful_reachable_ok [OF assms(1)])
  then have "(wakeup_time i, p) \<in> set (timer_queue s)" "sorted (map fst (timer_queue s))"
    using assms(3,4) by (auto simp: sched_ok_def timer_ok_def asleep_def)
  then have "stuck_timer now ?s" using assms(6) by (auto simp: stuck_timer_def)
  then have "get_next_execute now ?s = None"
    by (simp add: get_next_execute_def Let_def stuck_timer_diverges)
  moreover have "suspend_process pid s = Some (True, ?s)"
    using assms by (simp add: suspend_process_def flag_op_defs)
  ultimately show ?thesis by blast
qed

theorem suspended_sleeper_hangs_witness:
  "\<exists>s'. suspend_process 1 (sleeping_process (DbId 2 5)) = Some (True, s')
    \<and> get_next_execute 9 s' = None"
  using suspended_sleeper_hangs [OF careful_sleeping [of "DbId 2 5"], of 1 0
      "sleeping_info (DbId 2 5)" 9]
  by (simp add: sleeping_process_def sleeping_info_def)

text \<open>
  The processes of a scheduler get distinct identifiers, also distinct from those of the
  processes already there, none the invalid identifier 0 and all below the maximum.
\<close>

theorem new_pids_distinct:
  assumes "reachable s" and "add_processes rs s = Some (ps, s')"
  shows "distinct ps \<and> set ps \<inter> set (map_keys (all_processes s)) = {}
    \<and> (\<forall>pid \<in> set ps. id_range max_pid pid)"
proof -
  have alloc: "pids.alloc_all rs s = Some (ps, s')" using assms(2) by (simp add: add_processes_alloc)
  from pids.alloc_all_distinct [OF reachable_ok [OF assms(1)] alloc] have
    d: "distinct ps" "set ps \<inter> set (map_keys (all_processes s)) = {}"
      "set (map_keys (all_processes s')) = set ps \<union> set (map_keys (all_processes s))"
      "sched_ok False s'" by blast+
  have "id_range max_pid pid" if "pid \<in> set ps" for pid
    using d(3,4) that used_pid_range by blast
  with d show ?thesis by blast
qed

theorem new_pids_distinct_witness:
  "distinct [1 :: u32]
    \<and> set [1] \<inter> set (map_keys (all_processes (sched_new :: (string, string) sched))) = {}"
  using new_pids_distinct [OF reach_new, of "[(default_id, DbId 2 5)]" "[1]" "one_process (DbId 2 5)"]
  by (simp add: add_first)

text \<open>
  Adding a process takes a free identifier whenever there is one; when all 29999 are taken
  it does not fail but never returns, since the test for a full table compares with 30000,
  which the number of processes cannot reach.
\<close>

theorem add_process_complete:
  assumes "reachable s" and "\<not> shutting_down s"
  shows "if \<exists>k. id_range max_pid k \<and> k \<notin> set (map_keys (all_processes s))
    then \<exists>pid s'. add_process exe owner True s = Some (pid, s') \<and> id_range max_pid pid
      \<and> pid \<notin> set (map_keys (all_processes s))
    else add_process exe owner True s = None"
proof -
  have ok: "tables_ok s" using reachable_ok [OF assms(1)] by (simp add: sched_ok_def)
  have range: "id_range max_pid (next_pid s)" using ok by (simp add: tables_ok_def procs_ok_def id_range_def)
  have small: "\<not> unat max_pid \<le> length (all_processes s)" using few_processes [OF ok] by simp
  show ?thesis
  proof (cases "\<exists>k. id_range max_pid k \<and> k \<notin> set (map_keys (all_processes s))")
    case True
    with alloc_id_wraps [OF max_id_gt(1) _ _ range] obtain pid nxt where
      al: "alloc_id (map_keys (all_processes s)) max_pid (next_pid s) = Some (pid, nxt)" by fast
    from alloc_id_sound [OF al max_id_gt(1) range] True show ?thesis
      using assms(2) small by (simp add: add_process_def al Let_def)
  next
    case False
    then have "alloc_id (map_keys (all_processes s)) max_pid (next_pid s) = None"
      by (intro alloc_id_diverges [OF max_id_gt(1) range]) blast
    with False show ?thesis using assms(2) small by (simp add: add_process_def)
  qed
qed

theorem add_process_complete_witness:
  "\<exists>pid s'. add_process default_id (DbId 2 5) True (sched_new :: (string, string) sched) = Some (pid, s')
    \<and> id_range max_pid pid"
proof -
  have up: "\<not> shutting_down (sched_new :: (string, string) sched)" by (simp add: sched_new_def)
  have "id_range max_pid 1 \<and> 1 \<notin> set (map_keys (all_processes (sched_new :: (string, string) sched)))"
    by (simp add: id_range_def max_pid_def sched_new_def map_keys_def)
  then have "\<exists>k. id_range max_pid k
      \<and> k \<notin> set (map_keys (all_processes (sched_new :: (string, string) sched)))" by blast
  with add_process_complete [OF reach_new up, of default_id "DbId 2 5"] show ?thesis by auto
qed

text \<open>
  C26. While a finished process is cleaned up the scheduler's lock is released; a suspend and a
  start of that process in between put it back into the run queue, and the cleanup then
  deletes it, so that the run queue holds a deleted process.
\<close>

theorem cleanup_race:
  assumes "reachable s" and "infos s p = Some i" and "process_state i = PROCESS_STATE_EXECUTING"
    and "\<not> shutting_down s"
  shows "\<exists>s1 s2 s3 s4. cleanup_begin p s = Some s1 \<and> suspend_process (my_pid i) s1 = Some (True, s2)
    \<and> start_process (my_pid i) s2 = Some (True, s3) \<and> cleanup_finish p s3 = Some s4
    \<and> p \<in> set (run_queue s4) \<and> infos s4 p = None"
proof -
  let ?c = "i\<lparr>process_state := PROCESS_STATE_COMPLETED\<rparr>"
  let ?u = "i\<lparr>process_state := PROCESS_STATE_SUSPENDED, pending_suspended := False\<rparr>"
  have ap: "map_of (all_processes s) (my_pid i) = Some p"
    using reachable_ok [OF assms(1)] assms(2) by (simp add: sched_ok_def tables_ok_def procs_ok_def)
  let ?s1 = "publish (my_pid i) PROCESS_STATE_COMPLETED (put_info p ?c s)"
  have 1: "cleanup_begin p s = Some ?s1" using assms by (simp add: cleanup_begin_def set_process_state_def)
  obtain j s2 where 2: "suspend_process (my_pid i) ?s1 = Some (True, s2)"
    "infos s2 p = Some j" "process_state j = PROCESS_STATE_SUSPENDED"
    "all_processes s2 = all_processes s" "\<not> shutting_down s2"
    using assms ap by (simp add: suspend_process_def flag_op_defs)
  let ?s3 = "put_info p (made_ready j) (enqueue p j s2)"
  have 3: "start_process (my_pid i) s2 = Some (True, ?s3)"
    using 2 ap by (simp add: start_process_def get_process_state_def schedule_process_live queued_def)
  have q: "run_queue (fold (release_rid_internal pid) rids u) = run_queue u" for pid rids and u :: "('a, 'b) sched"
    by (induction rids arbitrary: u) (simp_all add: release_rid_internal_def split: option.split)
  obtain s4 where 4: "cleanup_finish p ?s3 = Some s4"
    and s4: "run_queue s4 = run_queue ?s3" "infos s4 p = None"
    by (simp add: cleanup_finish_def Let_def q)
  have "p \<in> set (run_queue s4)" using s4 by (simp add: enqueue_def Let_def)
  with 1 2(1) 3 4 s4(2) show ?thesis by blast
qed

theorem cleanup_race_witness:
  "\<exists>s1 s2 s3 s4. cleanup_begin 0 (running_process (DbId 2 5)) = Some s1
    \<and> suspend_process 1 s1 = Some (True, s2) \<and> start_process 1 s2 = Some (True, s3)
    \<and> cleanup_finish 0 s3 = Some s4 \<and> 0 \<in> set (run_queue s4) \<and> infos s4 0 = None"
  using cleanup_race [OF reachable_running [of "DbId 2 5"], of 0
      "info_in PROCESS_STATE_EXECUTING (DbId 2 5)"]
  by simp

text \<open>
  A process that finishes or fails leaves nothing behind: its object is deleted, it is no
  longer in the table of processes, in its owner's list or in the run queue, and all its
  resource identifiers are free again.
\<close>

theorem finished_process_gone:
  assumes "reachable s" and "infos s p = Some i" and "process_state i = PROCESS_STATE_EXECUTING"
    and "st = PROCESS_STATUS_FINISHED \<or> st = PROCESS_STATUS_ERROR"
  shows "\<exists>s'. returned_from_execute now ms (Some p) st s = Some s' \<and> infos s' p = None
    \<and> map_of (all_processes s') (my_pid i) = None \<and> p \<notin> set (run_queue s')
    \<and> (\<forall>o'. p \<notin> set (entity_processes s' o'))
    \<and> (\<forall>rid. map_of (rid_to_pid s') rid \<noteq> Some (my_pid i))"
proof -
  let ?s = "if st = PROCESS_STATUS_FINISHED then s else publish (my_pid i) PROCESS_STATE_KILLED s"
  have ok: "sched_ok False ?s" using reachable_ok [OF assms(1)] by (simp add: sched_ok_def)
  have i: "infos ?s p = Some i" using assms(2) by simp
  let ?s' = "without_process p i ?s"
  have "cleanup_process p ?s = Some ?s'"
    using ok i by (intro cleanup_process_live) (auto simp: sched_ok_def)
  then have ret: "returned_from_execute now ms (Some p) st s = Some ?s'"
    using assms(2,4) by (auto simp: returned_from_execute_def)
  have ok': "sched_ok False ?s'" using inv_without [OF ok i] executing_idle [OF assms(3)] by simp
  have gone: "infos ?s' p = None" "map_of (all_processes ?s') (my_pid i) = None"
    by (simp_all add: without_process_def map_of_erase)
  moreover have "p \<notin> set (run_queue ?s')" using ok' gone by (auto simp: sched_ok_def queue_ok_def)
  moreover have "p \<notin> set (entity_processes ?s' o')" for o'
    using ok' gone by (simp add: entity_processes_owned sched_ok_def tables_ok_def owners_ok_def)
  moreover have "map_of (rid_to_pid ?s') rid \<noteq> Some (my_pid i)" for rid
  proof
    assume "map_of (rid_to_pid ?s') rid = Some (my_pid i)"
    with ok' obtain q x where "infos ?s' q = Some x" "my_pid x = my_pid i"
      unfolding sched_ok_def tables_ok_def rids_ok_def by blast
    with ok' have "map_of (all_processes ?s') (my_pid i) = Some q"
      unfolding sched_ok_def tables_ok_def procs_ok_def by metis
    with gone show False by simp
  qed
  ultimately show ?thesis using ret by blast
qed

theorem finished_process_gone_witness:
  "\<exists>s'. returned_from_execute 0 0 (Some 0) PROCESS_STATUS_ERROR (running_process (DbId 2 5)) = Some s'
    \<and> infos s' 0 = None"
  using finished_process_gone [OF reachable_running [of "DbId 2 5"], of 0
      "info_in PROCESS_STATE_EXECUTING (DbId 2 5)" PROCESS_STATUS_ERROR 0 0] by auto

text \<open>
  C31. A kill is never lost, calls being run one after another: a process that is not executing is
  at once marked killed and waits in the run queue for its end; one that is executing is,
  however it returns, then either gone or marked killed in the run queue.
\<close>

theorem kill_takes_effect:
  assumes "reachable s" and "infos s p = Some i" and "process_state i \<noteq> PROCESS_STATE_COMPLETED"
  shows "\<exists>s'. kill_process (my_pid i) s = Some (True, s') \<and>
    (if process_state i = PROCESS_STATE_EXECUTING
     then \<forall>now ms st s''. returned_from_execute now ms (Some p) st s' = Some s'' \<longrightarrow>
       infos s'' p = None \<or> (p \<in> set (run_queue s'')
         \<and> (\<exists>j. infos s'' p = Some j \<and> process_state j = PROCESS_STATE_KILLED))
     else p \<in> set (run_queue s')
       \<and> (\<exists>j. infos s' p = Some j \<and> process_state j = PROCESS_STATE_KILLED))"
proof -
  let ?k = "i\<lparr>pending_killed := True\<rparr>"
  have ok: "sched_ok False s" by (rule reachable_ok [OF assms(1)])
  have ap: "map_of (all_processes s) (my_pid i) = Some p"
    using ok assms(2) by (simp add: sched_ok_def tables_ok_def procs_ok_def)
  have queue: "p \<in> set (run_queue u)" if "sched_ok False u" "infos u p = Some j"
      "process_state j = PROCESS_STATE_KILLED" for u :: "('a, 'b) sched" and j
    using that by (auto simp: sched_ok_def queue_ok_def queued_def)
  show ?thesis
  proof (cases "process_state i = PROCESS_STATE_EXECUTING")
    case True
    have kill: "kill_process (my_pid i) s = Some (True, put_info p ?k s)"
      using ap assms True by (simp add: kill_process_def flag_op_defs schedule_process_live)
    have "infos u p = None \<or> (p \<in> set (run_queue u)
        \<and> (\<exists>j. infos u p = Some j \<and> process_state j = PROCESS_STATE_KILLED))"
      if ret: "returned_from_execute now ms (Some p) st (put_info p ?k s) = Some u" for now ms st u
    proof (cases "st = PROCESS_STATUS_FINISHED \<or> st = PROCESS_STATUS_ERROR")
      case fin: True
      have "tables_ok (if st = PROCESS_STATUS_FINISHED then put_info p ?k s
          else publish (my_pid i) PROCESS_STATE_KILLED (put_info p ?k s))"
        using inv_kill [OF ok kill] by (simp add: sched_ok_def)
      from cleanup_process_live [OF this, of p ?k] fin ret
      show ?thesis by (auto simp: returned_from_execute_def without_process_def split: if_splits)
    next
      case False
      have "\<not> suspends st ?k" "reschedules st ?k" by (simp_all add: suspends_def reschedules_def)
      moreover have "pending_killed (settled st ?k)" "process_state (settled st ?k) = PROCESS_STATE_SCHEDULING"
        by (simp_all add: settled_def stopped_def suspends_def reschedules_def Let_def)
      ultimately have "infos u p = Some (killed (settled st ?k))"
        using ret False by (auto simp: returned_unfinished schedule_process_live queued_def made_ready_def)
      moreover have "sched_ok False u"
        using inv_return [OF inv_kill [OF ok kill] _ _ ret] True by simp
      ultimately show ?thesis using queue by (auto simp: killed_def)
    qed
    with kill True show ?thesis by auto
  next
    case False
    obtain u j where u: "kill_process (my_pid i) s = Some (True, u)" "infos u p = Some j"
      "process_state j = PROCESS_STATE_KILLED"
      using ap assms False
      by (cases "process_state i = PROCESS_STATE_KILLED")
        (auto simp: kill_process_def flag_op_defs schedule_process_live made_ready_def killed_def)
    with queue [OF inv_kill [OF ok u(1)] u(2,3)] False show ?thesis by auto
  qed
qed

theorem kill_takes_effect_witness:
  "\<exists>s'. kill_process 1 (one_process (DbId 2 5)) = Some (True, s') \<and> 0 \<in> set (run_queue s')"
  using kill_takes_effect [OF reachable_one [of "DbId 2 5"], of 0
      "process_info_new 1 default_id (DbId 2 5)"]
  by auto

text \<open>
  A message wakes a process that waits for one: it is queued behind the messages before
  it, and the process is put into the run queue, ready, or killed if a kill was pending.
\<close>

theorem message_wakes:
  assumes "reachable s" and "infos s p = Some i"
    and "process_state i \<in> {PROCESS_STATE_WAIT_MESSAGE, PROCESS_STATE_SLEEPING}"
    and "\<not> shutting_down s"
  shows "\<exists>s' j. send_message (my_pid i) (Some m) s = Some (True, s') \<and> infos s' p = Some j
    \<and> waiting_messages j = waiting_messages i @ [(0, m)] \<and> p \<in> set (run_queue s')
    \<and> process_state j = (if pending_killed i then PROCESS_STATE_KILLED else PROCESS_STATE_READY)"
proof -
  have ok: "tables_ok s" using reachable_ok [OF assms(1)] by (simp add: sched_ok_def)
  then have "map_of (all_processes s) (my_pid i) = Some p" and "id_range max_pid (my_pid i)"
    using assms(2) by (auto simp: tables_ok_def procs_ok_def id_range_def)
  with id_range_nonzero have "map_of (all_processes s) (my_pid i) = Some p" "my_pid i \<noteq> 0" by auto
  then show ?thesis
    using assms(2-4)
    by (auto simp: send_message_def send_message_rid_def get_process_state_def can_receive_messages_def
        add_message_rid_def schedule_process_live queued_def made_ready_def killed_def enqueue_def Let_def)
qed

text \<open>The running process returned and waits.\<close>

definition waiting_process :: "db_id \<Rightarrow> (string, string) sched" where
  "waiting_process owner = put_info 0 (info_in PROCESS_STATE_WAIT_MESSAGE owner) (one_process owner)"

lemma return_first:
  "returned_from_execute 0 0 (Some 0) PROCESS_STATUS_WAIT_MESSAGE (running_process owner)
    = Some (waiting_process owner)"
  by (simp add: returned_unfinished suspends_def reschedules_def settled_def stopped_def
      waiting_process_def running_process_def)

lemma reachable_waiting: "reachable (waiting_process owner)"
proof (rule reach_step [OF reachable_running [of owner] step_return [OF _ _ return_first]])
  show "infos (running_process owner) 0 = Some (info_in PROCESS_STATE_EXECUTING owner)" by simp
qed simp

theorem message_wakes_witness:
  "\<exists>s' j. send_message 1 (Some ''hi'') (waiting_process (DbId 2 5)) = Some (True, s')
    \<and> infos s' 0 = Some j \<and> waiting_messages j = [(0, ''hi'')]"
  using message_wakes [OF reachable_waiting [of "DbId 2 5"], of 0
      "info_in PROCESS_STATE_WAIT_MESSAGE (DbId 2 5)" "''hi''"] by (auto simp: waiting_process_def)

text \<open>
  The list of an owner's process identifiers is exact: it can be read, holds no identifier
  twice, and holds exactly the identifiers of the live processes of that owner.
\<close>

theorem owner_pids_exact:
  assumes "reachable s"
  shows "\<exists>ps. get_pids_for_id o' s = Some ps \<and> distinct ps
    \<and> set ps = {my_pid i |p i. infos s p = Some i \<and> my_db_owner_id i = o'}"
proof -
  have tables: "tables_ok s" using reachable_ok [OF assms] by (simp add: sched_ok_def)
  let ?ps = "entity_processes s o'" and ?pid = "\<lambda>p. my_pid (the (infos s p))"
  have d: "distinct ?ps" and set: "set ?ps = {p. \<exists>i. infos s p = Some i \<and> my_db_owner_id i = o'}"
    using tables by (auto simp: tables_ok_def owners_ok_def entity_processes_owned)
  have those: "those (map (\<lambda>p. map_option my_pid (infos s p)) ps) = Some (map ?pid ps)"
    if "\<forall>p \<in> set ps. infos s p \<noteq> None" for ps
    using that by (induction ps) auto
  have "inj_on ?pid (set ?ps)"
    using tables unfolding inj_on_def set tables_ok_def procs_ok_def by (auto, metis option.inject)
  moreover have "get_pids_for_id o' s = Some (map ?pid ?ps)"
    unfolding get_pids_for_id_def using set by (intro those) auto
  ultimately show ?thesis using d set by (force simp: distinct_map)
qed

theorem owner_pids_exact_witness:
  "\<exists>ps. get_pids_for_id (DbId 2 5) (running_process (DbId 2 5)) = Some ps \<and> set ps = {1}"
  using owner_pids_exact [OF reachable_running [of "DbId 2 5"], of "DbId 2 5"] by auto

end
