(* ===== verification/Chan.thy ===== *)
theory Chan
  imports DbIds
begin

text \<open>
  \<open>events::Channel\<close> and its subclasses \<open>TextChannel\<close> and \<open>ClientDataChannel\<close>
  (\<^verbatim>\<open>src/src/channels/events_Channel.cpp\<close>, \<^verbatim>\<open>events_TextChannel.cpp\<close>,
  \<^verbatim>\<open>events_ClientDataChannel.cpp\<close>): a one-way stream of items with a flow status, its
  receiver, senders and listeners, and the count of references that decides when the channel
  deletes itself.

  Every method runs under the channel's recursive mutex, so each is one step. Calls of
  listeners and receivers and messages to processes are outputs, kept in the lists
  \<open>notices\<close>, \<open>given\<close> and \<open>sent\<close>; \<open>broadcasts\<close> has the statuses broadcast so far. A
  listener that calls the channel back from inside a callback is not modelled. A pointer is a
  number, a null pointer \<open>None\<close>; after \<open>delete this\<close> the channel is \<open>chan_deleted\<close> and
  nothing can be done to it any more. The two subclasses differ in the type of the items.
\<close>

subsection \<open>Data\<close>

datatype channel_type = CHANNEL_TYPE_TEXT | CHANNEL_TYPE_CLIENT_DATA

datatype flow_status =
    CHANNEL_FLOW_OPEN | CHANNEL_FLOW_BLOCKED | CHANNEL_FLOW_CLOSED | CHANNEL_DESTRUCTED

datatype 'i channel_message =
    ChannelFlowMessage string flow_status | ChannelItemMessage string 'i

type_synonym ptr = nat

record 'i channel =
  channel_name :: string
  channel_subtype :: string
  channel_type :: channel_type
  channel_entity_id :: db_id
  channel_callback_in_progress :: bool
  channel_send_processes :: "(u32 \<times> u32) list"
  channel_recv_pid :: u32
  channel_recv_rid :: u32
  channel_control_listeners :: "ptr list"
  pointer_holders :: "ptr list"
  channel_items_remaining :: u32
  channel_unlimited_items :: bool
  channel_blocked :: bool
  channel_closed :: bool
  channel_external_locked_count :: u32
  channel_resource_add_pid :: u32
  channel_last_status :: flow_status
  recv_callback_ptr :: "ptr option"
  chan_deleted :: bool
  broadcasts :: "flow_status list"
  notices :: "(ptr \<times> flow_status) list"
  sent :: "(u32 \<times> u32 \<times> 'i channel_message) list"
  given :: "(ptr \<times> 'i) list"

definition channel_new :: "string \<Rightarrow> channel_type \<Rightarrow> string \<Rightarrow> db_id \<Rightarrow> 'i channel" where
  "channel_new name type subtype entity_id =
     \<lparr>channel_name = name, channel_subtype = subtype, channel_type = type,
      channel_entity_id = entity_id, channel_callback_in_progress = False,
      channel_send_processes = [], channel_recv_pid = 0, channel_recv_rid = 0,
      channel_control_listeners = [], pointer_holders = [], channel_items_remaining = 0,
      channel_unlimited_items = True, channel_blocked = True, channel_closed = False,
      channel_external_locked_count = 0, channel_resource_add_pid = 0,
      channel_last_status = CHANNEL_FLOW_BLOCKED, recv_callback_ptr = None,
      chan_deleted = False, broadcasts = [], notices = [], sent = [], given = []\<rparr>"

subsection \<open>Status\<close>

definition make_channel_flow_message :: "'i channel \<Rightarrow> 'i channel_message" where
  "make_channel_flow_message c = ChannelFlowMessage (channel_name c) (channel_last_status c)"

text \<open>First the listeners, then the receiver if it is a process, then the senders.\<close>

definition broadcast_status :: "'i channel \<Rightarrow> 'i channel" where
  "broadcast_status c = c\<lparr>
     broadcasts := broadcasts c @ [channel_last_status c],
     notices := notices c @ map (\<lambda>l. (l, channel_last_status c)) (channel_control_listeners c),
     sent := sent c
       @ (if channel_recv_pid c \<noteq> 0
          then [(channel_recv_pid c, channel_recv_rid c, make_channel_flow_message c)] else [])
       @ map (\<lambda>(pid, rid). (pid, rid, make_channel_flow_message c)) (channel_send_processes c),
     channel_callback_in_progress := False\<rparr>"

definition check_status :: "'i channel \<Rightarrow> 'i channel" where
  "check_status c =
     (if channel_last_status c = CHANNEL_DESTRUCTED then c
      else
        let c = (if \<not> channel_unlimited_items c \<and> channel_items_remaining c = 0
                 then c\<lparr>channel_blocked := True\<rparr> else c);
            new_status = (if channel_closed c then CHANNEL_FLOW_CLOSED
                          else if channel_blocked c then CHANNEL_FLOW_BLOCKED
                          else CHANNEL_FLOW_OPEN)
        in if channel_last_status c \<noteq> new_status
           then broadcast_status (c\<lparr>channel_last_status := new_status\<rparr>) else c)"

subsection \<open>Deletion\<close>

definition need_delete_instance :: "'i channel \<Rightarrow> bool" where
  "need_delete_instance c \<longleftrightarrow>
     \<not> channel_callback_in_progress c \<and> channel_external_locked_count c = 0
     \<and> channel_recv_pid c = 0 \<and> channel_recv_rid c = 0
     \<and> channel_send_processes c = [] \<and> pointer_holders c = []"

definition delete_instance :: "'i channel \<Rightarrow> 'i channel" where
  "delete_instance c = (if need_delete_instance c then c\<lparr>chan_deleted := True\<rparr> else c)"

definition internal_close_channel :: "'i channel \<Rightarrow> 'i channel \<times> bool" where
  "internal_close_channel c =
     (let c = check_status (c\<lparr>channel_closed := True\<rparr>) in (c, need_delete_instance c))"

text \<open>What follows a close outside of the mutex.\<close>

definition delete_if :: "'i channel \<times> bool \<Rightarrow> 'i channel" where
  "delete_if r = (if snd r then delete_instance (fst r) else fst r)"

subsection \<open>Flow control\<close>

definition close_channel :: "'i channel \<Rightarrow> 'i channel" where
  "close_channel c = delete_if (internal_close_channel c)"

definition block_channel :: "'i channel \<Rightarrow> 'i channel" where
  "block_channel c =
     (if \<not> channel_closed c then check_status (c\<lparr>channel_blocked := True\<rparr>) else c)"

definition unblock_channel :: "u32 \<Rightarrow> 'i channel \<Rightarrow> 'i channel \<times> bool" where
  "unblock_channel allowed_items c =
     (if \<not> channel_closed c
      then (check_status (c\<lparr>channel_blocked := False, channel_items_remaining := allowed_items\<rparr>), True)
      else (c, False))"

definition channel_is_blocked :: "'i channel \<Rightarrow> bool" where
  "channel_is_blocked c = channel_blocked c"

definition channel_is_closed :: "'i channel \<Rightarrow> bool" where
  "channel_is_closed c = channel_closed c"

subsection \<open>Listeners, receivers and other holders of a pointer\<close>

definition channel_register_pointer_holder :: "ptr option \<Rightarrow> 'i channel \<Rightarrow> 'i channel \<times> bool" where
  "channel_register_pointer_holder p c =
     (case p of None \<Rightarrow> (c, False)
      | Some p \<Rightarrow> (c\<lparr>pointer_holders := pointer_holders c @ [p]\<rparr>, True))"

definition channel_unregister_pointer_holder :: "ptr option \<Rightarrow> 'i channel \<Rightarrow> 'i channel" where
  "channel_unregister_pointer_holder p c =
     (let c = (case p of None \<Rightarrow> c
               | Some p \<Rightarrow> c\<lparr>pointer_holders := remove1 p (pointer_holders c)\<rparr>)
      in delete_if (c, need_delete_instance c))"

definition channel_register_control_listener :: "ptr option \<Rightarrow> 'i channel \<Rightarrow> 'i channel \<times> bool" where
  "channel_register_control_listener p c =
     (case p of None \<Rightarrow> (c, False)
      | Some l \<Rightarrow>
        if l \<in> set (channel_control_listeners c) then (c, True)
        else (fst (channel_register_pointer_holder (Some l)
               (c\<lparr>channel_control_listeners := channel_control_listeners c @ [l]\<rparr>)), True))"

definition channel_unregister_control_listener :: "ptr option \<Rightarrow> 'i channel \<Rightarrow> 'i channel" where
  "channel_unregister_control_listener p c =
     (case p of None \<Rightarrow> c
      | Some l \<Rightarrow>
        if l \<in> set (channel_control_listeners c)
        then channel_unregister_pointer_holder (Some l)
               (c\<lparr>channel_control_listeners := remove1 l (channel_control_listeners c)\<rparr>)
        else c)"

definition channel_receiver_is_process :: "'i channel \<Rightarrow> bool" where
  "channel_receiver_is_process c \<longleftrightarrow> channel_recv_pid c > 0"

definition receiver_callback_registered :: "'i channel \<Rightarrow> bool" where
  "receiver_callback_registered c \<longleftrightarrow> recv_callback_ptr c \<noteq> None"

definition register_receiver_callback :: "ptr option \<Rightarrow> 'i channel \<Rightarrow> 'i channel \<times> bool" where
  "register_receiver_callback p c =
     (case p of None \<Rightarrow> (c, False)
      | Some r \<Rightarrow>
        if \<not> channel_receiver_is_process c
           \<and> (recv_callback_ptr c = None \<or> recv_callback_ptr c = Some r)
        then (fst (channel_register_pointer_holder (Some r) (c\<lparr>recv_callback_ptr := Some r\<rparr>)), True)
        else (c, False))"

definition unregister_receiver_callback :: "ptr option \<Rightarrow> 'i channel \<Rightarrow> 'i channel" where
  "unregister_receiver_callback p c =
     (if p \<noteq> None \<and> p = recv_callback_ptr c
      then channel_unregister_pointer_holder p
             (fst (internal_close_channel (c\<lparr>recv_callback_ptr := None\<rparr>)))
      else c)"

subsection \<open>Processes\<close>

definition next_resource_add_is_receiver :: "u32 \<Rightarrow> 'i channel \<Rightarrow> 'i channel" where
  "next_resource_add_is_receiver pid c = c\<lparr>channel_resource_add_pid := pid\<rparr>"

definition resource_added_to_process :: "u32 \<Rightarrow> u32 \<Rightarrow> 'i channel \<Rightarrow> 'i channel \<times> bool" where
  "resource_added_to_process pid rid c =
     (if pid = channel_resource_add_pid c then
        (if \<not> receiver_callback_registered c
            \<and> (channel_recv_pid c = 0 \<or> pid = channel_recv_pid c \<and> rid = channel_recv_rid c)
         then (c\<lparr>channel_recv_pid := pid, channel_recv_rid := rid\<rparr>, True)
         else (c, False))
      else if (pid, rid) \<in> set (channel_send_processes c) then (c, True)
      else (c\<lparr>channel_send_processes := channel_send_processes c @ [(pid, rid)]\<rparr>, True))"

definition resource_removed_from_process :: "u32 \<Rightarrow> u32 \<Rightarrow> 'i channel \<Rightarrow> 'i channel" where
  "resource_removed_from_process pid rid c =
     (if channel_recv_pid c = pid \<and> channel_recv_rid c = rid
      then delete_if (internal_close_channel (c\<lparr>channel_recv_pid := 0, channel_recv_rid := 0\<rparr>))
      else if (pid, rid) \<in> set (channel_send_processes c)
      then delete_if (internal_close_channel
             (c\<lparr>channel_send_processes := remove1 (pid, rid) (channel_send_processes c)\<rparr>))
      else c)"

subsection \<open>Sending\<close>

definition channel_about_to_send_item :: "'i channel \<Rightarrow> 'i channel \<times> bool" where
  "channel_about_to_send_item c =
     (if channel_last_status c = CHANNEL_FLOW_OPEN then
        (if channel_unlimited_items c then (c, True)
         else if channel_items_remaining c > 0
         then (c\<lparr>channel_items_remaining := channel_items_remaining c - 1\<rparr>, True)
         else (check_status (c\<lparr>channel_blocked := True,
                 channel_last_status := CHANNEL_FLOW_BLOCKED\<rparr>), False))
      else (c, False))"

text \<open>The executor takes over the message; its answer is passed on by the code and only logged
  by the callers.\<close>

definition channel_send_to_receiver :: "'i channel_message \<Rightarrow> 'i channel \<Rightarrow> 'i channel" where
  "channel_send_to_receiver m c =
     (if channel_recv_pid c > 0
      then c\<lparr>sent := sent c @ [(channel_recv_pid c, channel_recv_rid c, m)]\<rparr> else c)"

definition send_item :: "'i \<Rightarrow> 'i channel \<Rightarrow> 'i channel \<times> bool" where
  "send_item item c =
     (case channel_about_to_send_item (c\<lparr>channel_callback_in_progress := True\<rparr>) of
        (c, can_send) \<Rightarrow>
          let c = (if \<not> can_send then c
                   else if channel_receiver_is_process c
                   then channel_send_to_receiver (ChannelItemMessage (channel_name c) item) c
                   else case recv_callback_ptr c of None \<Rightarrow> c
                     | Some r \<Rightarrow> c\<lparr>given := given c @ [(r, item)]\<rparr>)
          in (c\<lparr>channel_callback_in_progress := False\<rparr>, can_send))"

subsection \<open>Locking from outside\<close>

definition chan_lock :: "'i channel \<Rightarrow> 'i channel" where
  "chan_lock c = c\<lparr>channel_external_locked_count := channel_external_locked_count c + 1\<rparr>"

definition chan_unlock :: "'i channel \<Rightarrow> 'i channel" where
  "chan_unlock c = delete_instance
     (c\<lparr>channel_external_locked_count := channel_external_locked_count c - 1\<rparr>)"

subsection \<open>Runs\<close>

text \<open>The public operations; a deleted channel takes part in none of them.\<close>

datatype 'i chan_op =
    AddedToProcess u32 u32 | RemovedFromProcess u32 u32 | NextIsReceiver u32
  | CloseChannel | BlockChannel | UnblockChannel u32
  | Listen "ptr option" | Unlisten "ptr option" | Hold "ptr option" | Unhold "ptr option"
  | Receive "ptr option" | Unreceive "ptr option" | SendItem 'i | LockChannel | UnlockChannel

fun chan_apply :: "'i chan_op \<Rightarrow> 'i channel \<Rightarrow> 'i channel" where
  "chan_apply (AddedToProcess pid rid) c = fst (resource_added_to_process pid rid c)"
| "chan_apply (RemovedFromProcess pid rid) c = resource_removed_from_process pid rid c"
| "chan_apply (NextIsReceiver pid) c = next_resource_add_is_receiver pid c"
| "chan_apply CloseChannel c = close_channel c"
| "chan_apply BlockChannel c = block_channel c"
| "chan_apply (UnblockChannel n) c = fst (unblock_channel n c)"
| "chan_apply (Listen p) c = fst (channel_register_control_listener p c)"
| "chan_apply (Unlisten p) c = channel_unregister_control_listener p c"
| "chan_apply (Hold p) c = fst (channel_register_pointer_holder p c)"
| "chan_apply (Unhold p) c = channel_unregister_pointer_holder p c"
| "chan_apply (Receive p) c = fst (register_receiver_callback p c)"
| "chan_apply (Unreceive p) c = unregister_receiver_callback p c"
| "chan_apply (SendItem i) c = fst (send_item i c)"
| "chan_apply LockChannel c = chan_lock c"
| "chan_apply UnlockChannel c = chan_unlock c"

definition chan_step :: "'i chan_op \<Rightarrow> 'i channel \<Rightarrow> 'i channel" where
  "chan_step x c = (if chan_deleted c then c else chan_apply x c)"

subsection \<open>The status and its broadcasts\<close>

definition flow_of :: "'i channel \<Rightarrow> flow_status" where
  "flow_of c = (if channel_closed c then CHANNEL_FLOW_CLOSED
     else if channel_blocked c then CHANNEL_FLOW_BLOCKED else CHANNEL_FLOW_OPEN)"

text \<open>The broadcasts, after the status a channel starts with, never repeat a status and end
  with the current one; closing is the last.\<close>

definition log_ok :: "'i channel \<Rightarrow> bool" where
  "log_ok c \<longleftrightarrow> successively (\<noteq>) (CHANNEL_FLOW_BLOCKED # broadcasts c)
     \<and> last (CHANNEL_FLOW_BLOCKED # broadcasts c) = channel_last_status c
     \<and> CHANNEL_FLOW_CLOSED \<notin> set (butlast (CHANNEL_FLOW_BLOCKED # broadcasts c))"

text \<open>Who refers to the channel.\<close>

definition refs_ok :: "'i channel \<Rightarrow> bool" where
  "refs_ok c \<longleftrightarrow> distinct (channel_control_listeners c)
     \<and> (channel_recv_pid c = 0 \<or> recv_callback_ptr c = None)
     \<and> (chan_deleted c \<longrightarrow> need_delete_instance c)"

definition chan_ok :: "'i channel \<Rightarrow> bool" where
  "chan_ok c \<longleftrightarrow> channel_unlimited_items c \<and> \<not> channel_callback_in_progress c
     \<and> channel_last_status c = flow_of c \<and> log_ok c \<and> refs_ok c"

text \<open>What an announcement does, and what it leaves alone.\<close>

definition announced :: "'i channel \<Rightarrow> 'i channel" where
  "announced c = (if channel_last_status c = flow_of c then c
     else broadcast_status (c\<lparr>channel_last_status := flow_of c\<rparr>))"

lemma check_status_announced:
  "channel_unlimited_items c \<Longrightarrow> channel_last_status c \<noteq> CHANNEL_DESTRUCTED
    \<Longrightarrow> check_status c = announced c"
  by (simp add: check_status_def announced_def flow_of_def Let_def)

lemma flow_of_not_destructed [simp]: "flow_of c \<noteq> CHANNEL_DESTRUCTED"
  by (simp add: flow_of_def)

lemma announced_sel [simp]:
  "channel_last_status (announced c) = flow_of c" "flow_of (announced c) = flow_of c"
  "channel_unlimited_items (announced c) = channel_unlimited_items c"
  "channel_closed (announced c) = channel_closed c"
  "channel_blocked (announced c) = channel_blocked c"
  "channel_recv_pid (announced c) = channel_recv_pid c"
  "channel_recv_rid (announced c) = channel_recv_rid c"
  "channel_send_processes (announced c) = channel_send_processes c"
  "channel_control_listeners (announced c) = channel_control_listeners c"
  "pointer_holders (announced c) = pointer_holders c"
  "channel_external_locked_count (announced c) = channel_external_locked_count c"
  "recv_callback_ptr (announced c) = recv_callback_ptr c"
  "chan_deleted (announced c) = chan_deleted c" "given (announced c) = given c"
  "\<not> channel_callback_in_progress c \<Longrightarrow> \<not> channel_callback_in_progress (announced c)"
  by (auto simp: announced_def broadcast_status_def flow_of_def)

lemma log_ok_announced:
  assumes "log_ok c" and "channel_last_status c = CHANNEL_FLOW_CLOSED \<Longrightarrow> channel_closed c"
  shows "log_ok (announced c)"
proof (cases "channel_last_status c = flow_of c")
  case False
  then have "channel_last_status c \<noteq> CHANNEL_FLOW_CLOSED" using assms(2) by (auto simp: flow_of_def)
  with assms(1) have "CHANNEL_FLOW_CLOSED \<notin> set (CHANNEL_FLOW_BLOCKED # broadcasts c)"
    unfolding log_ok_def
    by (metis append_butlast_last_id list.distinct(1) rotate1.simps(2) set_ConsD set_rotate1)
  with False assms(1) show ?thesis
    by (auto simp: log_ok_def announced_def broadcast_status_def successively_append_iff
        butlast_append simp flip: append_Cons)
qed (simp add: announced_def assms(1))

lemma need_delete_announced [simp]:
  "\<not> channel_callback_in_progress c
    \<Longrightarrow> need_delete_instance (announced c) = need_delete_instance c"
  by (simp add: need_delete_instance_def)

lemma log_ok_cong:
  "broadcasts d = broadcasts c \<Longrightarrow> channel_last_status d = channel_last_status c
    \<Longrightarrow> log_ok d = log_ok c"
  by (simp add: log_ok_def)

lemma chan_okD:
  assumes "chan_ok c"
  shows "channel_unlimited_items c" "\<not> channel_callback_in_progress c"
    "channel_last_status c = flow_of c" "log_ok c" "refs_ok c"
  using assms by (simp_all add: chan_ok_def)

text \<open>A change of the flags followed by an announcement, and a deletion.\<close>

lemma chan_ok_announced:
  assumes "chan_ok c" and "broadcasts d = broadcasts c"
    and "channel_last_status d = channel_last_status c"
    and "channel_unlimited_items d" and "\<not> channel_callback_in_progress d"
    and "channel_closed c \<Longrightarrow> channel_closed d" and "refs_ok d"
  shows "check_status d = announced d \<and> chan_ok (announced d)"
proof
  show "check_status d = announced d"
    using assms chan_okD(3) [OF assms(1)] by (simp add: check_status_announced)
  have "log_ok d" using assms chan_okD(4) [OF assms(1)] by (simp add: log_ok_def)
  moreover have "channel_last_status d = CHANNEL_FLOW_CLOSED \<Longrightarrow> channel_closed d"
    using assms chan_okD(3) [OF assms(1)] by (simp add: flow_of_def split: if_splits)
  ultimately have "log_ok (announced d)" by (rule log_ok_announced)
  moreover have "refs_ok (announced d)" using assms(5,7) by (simp add: refs_ok_def)
  ultimately show "chan_ok (announced d)" using assms by (simp add: chan_ok_def)
qed

lemma delete_if_need [simp]: "delete_if (c, need_delete_instance c) = delete_instance c"
  by (simp add: delete_if_def delete_instance_def)

lemma chan_ok_delete:
  assumes "chan_ok c"
  shows "chan_ok (delete_instance c)"
proof -
  have "log_ok (c\<lparr>chan_deleted := True\<rparr>) = log_ok c" "flow_of (c\<lparr>chan_deleted := True\<rparr>) = flow_of c"
    by (simp_all add: log_ok_def flow_of_def)
  moreover have "need_delete_instance (c\<lparr>chan_deleted := True\<rparr>) = need_delete_instance c"
    by (simp add: need_delete_instance_def)
  ultimately show ?thesis using assms by (auto simp: chan_ok_def refs_ok_def delete_instance_def)
qed

lemma chan_ok_refs:
  assumes "chan_ok c" and "broadcasts d = broadcasts c"
    and "channel_last_status d = channel_last_status c" and "flow_of d = flow_of c"
    and "channel_unlimited_items d" and "\<not> channel_callback_in_progress d" and "refs_ok d"
  shows "chan_ok d"
  using assms by (simp add: chan_ok_def log_ok_def)

lemma chan_ok_close:
  assumes "chan_ok c" and "broadcasts d = broadcasts c"
    and "channel_last_status d = channel_last_status c"
    and "channel_unlimited_items d" and "\<not> channel_callback_in_progress d" and "refs_ok d"
  shows "delete_if (internal_close_channel d) = delete_instance (announced (d\<lparr>channel_closed := True\<rparr>))"
    "fst (internal_close_channel d) = announced (d\<lparr>channel_closed := True\<rparr>)"
    "chan_ok (announced (d\<lparr>channel_closed := True\<rparr>))"
proof -
  have "refs_ok (d\<lparr>channel_closed := True\<rparr>)"
    using assms(6) by (simp add: refs_ok_def need_delete_instance_def)
  then have "check_status (d\<lparr>channel_closed := True\<rparr>) = announced (d\<lparr>channel_closed := True\<rparr>)
      \<and> chan_ok (announced (d\<lparr>channel_closed := True\<rparr>))"
    using assms by (intro chan_ok_announced [OF assms(1)]) simp_all
  then show "delete_if (internal_close_channel d) = delete_instance (announced (d\<lparr>channel_closed := True\<rparr>))"
    "fst (internal_close_channel d) = announced (d\<lparr>channel_closed := True\<rparr>)"
    "chan_ok (announced (d\<lparr>channel_closed := True\<rparr>))"
    unfolding internal_close_channel_def by (simp_all only: Let_def delete_if_need fst_conv)
qed

lemma chan_ok_unhold:
  assumes "chan_ok c" and "\<not> chan_deleted c"
  shows "chan_ok (channel_unregister_pointer_holder p c)"
proof -
  let ?d = "case p of None \<Rightarrow> c | Some p \<Rightarrow> c\<lparr>pointer_holders := remove1 p (pointer_holders c)\<rparr>"
  have "chan_ok ?d"
    using chan_okD [OF assms(1)] assms(2)
    by (auto simp: refs_ok_def flow_of_def split: option.split intro!: chan_ok_refs [OF assms(1)])
  then show ?thesis
    by (simp add: channel_unregister_pointer_holder_def Let_def chan_ok_delete)
qed

lemma chan_step_ok:
  assumes "chan_ok c"
  shows "chan_ok (chan_step x c)"
proof (cases "chan_deleted c")
  case False
  note live = chan_okD [OF assms] False
  have flow: "flow_of (c\<lparr>channel_blocked := b, channel_items_remaining := n\<rparr>)
      = flow_of (c\<lparr>channel_blocked := b\<rparr>)" for b n by (simp add: flow_of_def)
  have "chan_ok (chan_apply x c)"
  proof (cases x)
    case (AddedToProcess pid rid)
    then show ?thesis using live
      by (auto simp: resource_added_to_process_def receiver_callback_registered_def refs_ok_def
          flow_of_def intro!: chan_ok_refs [OF assms])
  next
    case (RemovedFromProcess pid rid)
    let ?r = "c\<lparr>channel_recv_pid := 0, channel_recv_rid := 0\<rparr>"
      and ?s = "c\<lparr>channel_send_processes := remove1 (pid, rid) (channel_send_processes c)\<rparr>"
    have "refs_ok ?r" "refs_ok ?s" using live by (simp_all add: refs_ok_def)
    then show ?thesis
      using chan_ok_close [OF assms, of ?r] chan_ok_close [OF assms, of ?s] live RemovedFromProcess
      by (simp add: resource_removed_from_process_def chan_ok_delete assms)
  next
    case CloseChannel
    then show ?thesis using chan_ok_close [OF assms, of c] live
      by (simp add: close_channel_def chan_ok_delete)
  next
    case BlockChannel
    have "refs_ok (c\<lparr>channel_blocked := True\<rparr>)" using live by (simp add: refs_ok_def)
    then show ?thesis using BlockChannel chan_ok_announced [OF assms, of "c\<lparr>channel_blocked := True\<rparr>"]
        live assms by (simp add: block_channel_def)
  next
    case (UnblockChannel n)
    let ?d = "c\<lparr>channel_blocked := False, channel_items_remaining := n\<rparr>"
    have "refs_ok ?d" using live by (simp add: refs_ok_def)
    then show ?thesis using UnblockChannel chan_ok_announced [OF assms, of ?d] live assms
      by (simp add: unblock_channel_def)
  next
    case (Unlisten p)
    have "chan_ok (c\<lparr>channel_control_listeners := remove1 l (channel_control_listeners c)\<rparr>)" for l
      using live by (auto simp: refs_ok_def flow_of_def intro!: chan_ok_refs [OF assms])
    then show ?thesis using Unlisten assms live
      by (auto simp: channel_unregister_control_listener_def intro!: chan_ok_unhold
          split: option.split)
  next
    case (Unreceive p)
    have "refs_ok (c\<lparr>recv_callback_ptr := None\<rparr>)" using live by (simp add: refs_ok_def)
    then show ?thesis using Unreceive chan_ok_close [OF assms, of "c\<lparr>recv_callback_ptr := None\<rparr>"] live
      by (simp add: unregister_receiver_callback_def chan_ok_unhold assms)
  next
    case UnlockChannel
    have "chan_ok (c\<lparr>channel_external_locked_count := channel_external_locked_count c - 1\<rparr>)"
      using live by (auto simp: refs_ok_def flow_of_def intro!: chan_ok_refs [OF assms])
    then show ?thesis using UnlockChannel by (simp add: chan_unlock_def chan_ok_delete)
  next
    case (SendItem i)
    then show ?thesis using live
      by (auto simp: send_item_def channel_about_to_send_item_def channel_send_to_receiver_def
          refs_ok_def flow_of_def split: option.split intro!: chan_ok_refs [OF assms])
  qed (use live assms in \<open>auto simp: next_resource_add_is_receiver_def chan_lock_def
      channel_register_control_listener_def channel_register_pointer_holder_def chan_ok_unhold
      register_receiver_callback_def channel_receiver_is_process_def refs_ok_def flow_of_def
      word_gt_0 split: option.split intro!: chan_ok_refs [OF assms]\<close>)
  then show ?thesis using False by (simp add: chan_step_def)
qed (simp add: chan_step_def assms)

interpretation chan: invariant_ops chan_step chan_ok
  by unfold_locales (rule chan_step_ok)

lemma chan_ok_new [simp]: "chan_ok (channel_new n ty sub e)"
  by (simp add: chan_ok_def log_ok_def refs_ok_def flow_of_def channel_new_def)

end
