(* ===== verification/ChanProps.thy ===== *)
theory ChanProps
  imports Chan
begin

text \<open>
  What a channel promises: the status it announces, who hears of it, what closing means, when
  it deletes itself; and where it departs from what its header says.
\<close>

subsection \<open>What listeners hear\<close>

definition told :: "ptr \<Rightarrow> 'i channel \<Rightarrow> flow_status list" where
  "told l c = map snd (filter (\<lambda>n. fst n = l) (notices c))"

definition heard :: "ptr \<Rightarrow> 'i channel \<Rightarrow> 'i channel \<Rightarrow> bool" where
  "heard l c d \<longleftrightarrow> (\<exists>bs. broadcasts d = broadcasts c @ bs \<and> told l d = told l c @ bs)
     \<and> l \<in> set (channel_control_listeners d)"

lemma heard_same:
  "broadcasts d = broadcasts c \<Longrightarrow> notices d = notices c
    \<Longrightarrow> l \<in> set (channel_control_listeners d) \<Longrightarrow> heard l c d"
  by (simp add: heard_def told_def)

lemma heard_trans: "heard l b c \<Longrightarrow> heard l c d \<Longrightarrow> heard l b d"
  by (auto simp: heard_def)

lemma once_filter: "distinct ls \<Longrightarrow> l \<in> set ls \<Longrightarrow> filter (\<lambda>x. x = l) ls = [l]"
  by (induction ls) (auto simp: filter_empty_conv)

lemma heard_broadcast:
  assumes "broadcasts d = broadcasts c" and "notices d = notices c"
    and "l \<in> set (channel_control_listeners d)" and "distinct (channel_control_listeners d)"
  shows "heard l c (broadcast_status d)"
  using assms once_filter [OF assms(4,3)]
  by (simp add: heard_def told_def broadcast_status_def filter_map o_def)

lemma heard_check:
  assumes "broadcasts d = broadcasts c" and "notices d = notices c"
    and "l \<in> set (channel_control_listeners d)" and "distinct (channel_control_listeners d)"
  shows "heard l c (check_status d)"
  unfolding check_status_def Let_def using assms by (simp add: heard_broadcast heard_same)

lemma heard_delete [simp]: "heard l c (delete_instance d) = heard l c d"
  by (simp add: heard_def told_def delete_instance_def)

lemma heard_unhold [simp]: "heard l c (channel_unregister_pointer_holder p d) = heard l c d"
  by (simp add: channel_unregister_pointer_holder_def Let_def)
    (simp add: heard_def told_def split: option.split)

lemma heard_close:
  assumes "broadcasts d = broadcasts c" and "notices d = notices c"
    and "l \<in> set (channel_control_listeners d)" and "distinct (channel_control_listeners d)"
  shows "heard l c (fst (internal_close_channel d))" "heard l c (delete_if (internal_close_channel d))"
  using heard_check [of "d\<lparr>channel_closed := True\<rparr>" c l] assms
  by (simp_all add: internal_close_channel_def Let_def delete_if_def)

lemma heard_step:
  assumes "chan_ok c" and "l \<in> set (channel_control_listeners c)" and "x \<noteq> Unlisten (Some l)"
  shows "heard l c (chan_step x c)"
proof -
  have d: "distinct (channel_control_listeners c)"
    using chan_okD(5) [OF assms(1)] by (simp add: refs_ok_def)
  have "heard l c (chan_apply x c)"
  proof (cases x)
    case (Unlisten p)
    then show ?thesis using assms(2,3)
      by (cases p) (auto simp: channel_unregister_control_listener_def in_set_remove1
          intro: heard_same)
  next
    case (SendItem i)
    then show ?thesis using assms(2) chan_okD(1) [OF assms(1)]
      by (simp add: send_item_def channel_about_to_send_item_def channel_send_to_receiver_def
          heard_same split: option.split)
  qed (use assms(2) d in \<open>simp_all add: resource_added_to_process_def
      resource_removed_from_process_def next_resource_add_is_receiver_def close_channel_def
      block_channel_def unblock_channel_def channel_register_control_listener_def
      channel_register_pointer_holder_def register_receiver_callback_def
      unregister_receiver_callback_def chan_lock_def chan_unlock_def
      heard_close heard_check heard_same split: option.split\<close>)
  then show ?thesis using assms(2) by (simp add: chan_step_def heard_same)
qed

lemma heard_run:
  assumes "chan_ok c" and "l \<in> set (channel_control_listeners c)" and "Unlisten (Some l) \<notin> set xs"
  shows "heard l c (fold chan_step xs c)"
  using assms
proof (induction xs arbitrary: c)
  case (Cons x xs)
  then have "heard l c (chan_step x c)" by (intro heard_step) auto
  moreover from this have "heard l (chan_step x c) (fold chan_step xs (chan_step x c))"
    using Cons.prems by (intro Cons.IH) (auto simp: heard_def intro: chan_step_ok)
  ultimately show ?case by (simp add: heard_trans)
qed (simp add: heard_same)

subsection \<open>Closed channels\<close>

definition silent :: "'i channel \<Rightarrow> 'i channel \<Rightarrow> bool" where
  "silent c d \<longleftrightarrow> channel_closed d \<and> sent d = sent c \<and> given d = given c
     \<and> notices d = notices c \<and> broadcasts d = broadcasts c"

lemma silent_same:
  "channel_closed d \<Longrightarrow> sent d = sent c \<Longrightarrow> given d = given c \<Longrightarrow> notices d = notices c
    \<Longrightarrow> broadcasts d = broadcasts c \<Longrightarrow> silent c d"
  by (simp add: silent_def)

lemma silent_check:
  assumes "channel_last_status d = CHANNEL_FLOW_CLOSED" and "channel_closed d"
    and "sent d = sent c" and "given d = given c" and "notices d = notices c"
    and "broadcasts d = broadcasts c"
  shows "silent c (check_status d)"
  using assms by (simp add: check_status_def silent_def Let_def)

lemma silent_delete [simp]: "silent c (delete_instance d) = silent c d"
  by (simp add: silent_def delete_instance_def)

lemma silent_unhold [simp]: "silent c (channel_unregister_pointer_holder p d) = silent c d"
  by (simp add: channel_unregister_pointer_holder_def Let_def)
    (simp add: silent_def split: option.split)

lemma silent_close:
  assumes "channel_last_status d = CHANNEL_FLOW_CLOSED" and "sent d = sent c"
    and "given d = given c" and "notices d = notices c" and "broadcasts d = broadcasts c"
  shows "silent c (fst (internal_close_channel d))" "silent c (delete_if (internal_close_channel d))"
  using silent_check [of "d\<lparr>channel_closed := True\<rparr>" c] assms
  by (simp_all add: internal_close_channel_def Let_def delete_if_def)

lemma silent_step:
  assumes "chan_ok d" and "silent c d"
  shows "silent c (chan_step x d)"
proof -
  have st: "channel_last_status d = CHANNEL_FLOW_CLOSED"
    using chan_okD(3) [OF assms(1)] assms(2) by (simp add: flow_of_def silent_def)
  have same: "channel_closed d" "sent d = sent c" "given d = given c" "notices d = notices c"
      "broadcasts d = broadcasts c" using assms(2) by (simp_all add: silent_def)
  have "silent c (chan_apply x d)"
    by (cases x) (use same st in \<open>simp_all add: send_item_def channel_about_to_send_item_def
      resource_removed_from_process_def resource_added_to_process_def
      next_resource_add_is_receiver_def close_channel_def
      block_channel_def unblock_channel_def channel_register_control_listener_def
      channel_unregister_control_listener_def
      channel_register_pointer_holder_def register_receiver_callback_def
      unregister_receiver_callback_def chan_lock_def chan_unlock_def
      silent_close silent_same split: option.split\<close>)
  then show ?thesis using assms(2) by (simp add: chan_step_def)
qed

interpretation closed: stable_ops chan_step chan_ok "silent c" for c
  by unfold_locales (rule silent_step)

subsection \<open>Properties\<close>

text \<open>
  C33. In every run a channel's last announced status is the one its flags say: closed if it was
  closed, else blocked or open. The statuses broadcast start from blocked, never repeat one
  another, end with the current one, and nothing is broadcast after the closing.
\<close>

theorem channel_status_announced:
  fixes xs :: "'i chan_op list" and n sub :: string and ty :: channel_type and e :: db_id
  defines "c \<equiv> fold chan_step xs (channel_new n ty sub e)"
  shows "channel_last_status c = flow_of c
    \<and> successively (\<noteq>) (CHANNEL_FLOW_BLOCKED # broadcasts c)
    \<and> last (CHANNEL_FLOW_BLOCKED # broadcasts c) = flow_of c
    \<and> CHANNEL_FLOW_CLOSED \<notin> set (butlast (broadcasts c))"
proof -
  have "chan_ok c" unfolding c_def by (rule chan.run_good) simp
  then have "channel_last_status c = flow_of c" "log_ok c"
    by (simp_all add: chan_ok_def)
  then show ?thesis by (auto simp: log_ok_def split: if_splits)
qed

text \<open>
  A registered listener misses nothing and hears nothing twice: as long as it does not
  unregister, it is told exactly the statuses that are broadcast, in their order, whatever
  else is done to the channel.
\<close>

theorem listener_hears_all:
  assumes "l \<in> set (channel_control_listeners (fold chan_step xs (channel_new n ty sub e)))"
    and "Unlisten (Some l) \<notin> set ys"
  shows "\<exists>bs. broadcasts (fold chan_step (xs @ ys) (channel_new n ty sub e))
      = broadcasts (fold chan_step xs (channel_new n ty sub e)) @ bs
    \<and> told l (fold chan_step (xs @ ys) (channel_new n ty sub e))
      = told l (fold chan_step xs (channel_new n ty sub e)) @ bs"
  using heard_run [OF chan.run_good [OF chan_ok_new] assms] by (auto simp: heard_def)

theorem listener_hears_all_witness:
  "\<exists>bs. broadcasts (fold chan_step [Listen (Some 7), UnblockChannel 0, BlockChannel]
        (channel_new ''out'' CHANNEL_TYPE_TEXT [] default_id :: string channel)) = bs
    \<and> told 7 (fold chan_step [Listen (Some 7), UnblockChannel 0, BlockChannel]
        (channel_new ''out'' CHANNEL_TYPE_TEXT [] default_id :: string channel)) = bs"
  using listener_hears_all [of 7 "[Listen (Some 7)]" "''out''" CHANNEL_TYPE_TEXT "[]" default_id
      "[UnblockChannel 0, BlockChannel] :: string chan_op list"]
  by (simp add: chan_step_def channel_register_control_listener_def
      channel_register_pointer_holder_def channel_new_def told_def)

text \<open>
  C34. Closing is final: once a channel is closed nothing that is done to it opens it, sends a
  message, hands an item to a receiver or makes an announcement, and sending and unblocking
  are refused.
\<close>

theorem closed_channel_is_silent:
  assumes "channel_closed (fold chan_step xs (channel_new n ty sub e))"
  shows "silent (fold chan_step xs (channel_new n ty sub e))
      (fold chan_step (xs @ ys) (channel_new n ty sub e))
    \<and> \<not> snd (send_item i (fold chan_step (xs @ ys) (channel_new n ty sub e)))
    \<and> \<not> snd (unblock_channel k (fold chan_step (xs @ ys) (channel_new n ty sub e)))"
proof -
  let ?c = "fold chan_step xs (channel_new n ty sub e)"
    and ?d = "fold chan_step (xs @ ys) (channel_new n ty sub e)"
  have "silent ?c ?c" using assms by (simp add: silent_def)
  then have s: "silent ?c ?d"
    using closed.run_stable [OF chan.run_good [OF chan_ok_new], where xs = ys] by simp
  have "chan_ok ?d" by (rule chan.run_good) simp
  then have "channel_last_status ?d = CHANNEL_FLOW_CLOSED"
    using s by (simp add: chan_ok_def flow_of_def silent_def)
  with s show ?thesis
    by (simp add: silent_def send_item_def channel_about_to_send_item_def unblock_channel_def)
qed

theorem closed_channel_is_silent_witness:
  "\<not> snd (send_item ''x'' (fold chan_step [Hold (Some 7), CloseChannel, UnblockChannel 3]
      (channel_new ''out'' CHANNEL_TYPE_TEXT [] default_id)))"
  using closed_channel_is_silent [of "[Hold (Some 7), CloseChannel]" "''out''" CHANNEL_TYPE_TEXT
      "[]" default_id "[UnblockChannel 3]" "''x''" 0]
  by (simp add: chan_step_def channel_register_pointer_holder_def close_channel_def
      internal_close_channel_def check_status_announced channel_new_def Let_def delete_if_def
      delete_instance_def)

lemma open_channel_sends:
  assumes "channel_last_status c = CHANNEL_FLOW_OPEN" and "channel_unlimited_items c"
  shows "snd (send_item i c)" "channel_last_status (fst (send_item i c)) = CHANNEL_FLOW_OPEN"
    "channel_unlimited_items (fst (send_item i c))"
    "recv_callback_ptr (fst (send_item i c)) = recv_callback_ptr c"
    "channel_recv_pid (fst (send_item i c)) = channel_recv_pid c"
    "channel_recv_pid c = 0 \<Longrightarrow> recv_callback_ptr c = Some r
      \<Longrightarrow> given (fst (send_item i c)) = given c @ [(r, i)]"
  using assms by (simp_all add: send_item_def channel_about_to_send_item_def
      channel_receiver_is_process_def channel_send_to_receiver_def split: option.split)

lemma open_channel_sends_all:
  assumes "channel_last_status c = CHANNEL_FLOW_OPEN" and "channel_unlimited_items c"
    and "channel_recv_pid c = 0" and "recv_callback_ptr c = Some r"
  shows "snd (send_item i (fold (\<lambda>i c. fst (send_item i c)) is c))
    \<and> given (fold (\<lambda>i c. fst (send_item i c)) is c) = given c @ map (Pair r) is"
  using assms
proof (induction "is" arbitrary: c)
  case (Cons j js)
  from Cons.IH [of "fst (send_item j c)"] Cons.prems show ?case
    by (simp add: open_channel_sends)
qed (simp add: open_channel_sends)

text \<open>
  The number of items that \<open>unblock_channel\<close> allows is ignored: after unblocking a channel
  with any number, any list of items is sent, in order, to the receiver's callback and yet
  another one is accepted, although the channel should block by itself after that number.
\<close>

theorem item_limit_ignored:
  fixes allowed_items :: u32
  assumes "\<not> channel_closed (fold chan_step xs (channel_new n ty sub e))"
    and "recv_callback_ptr (fold chan_step xs (channel_new n ty sub e)) = Some r"
  defines "opened \<equiv> fst (unblock_channel allowed_items (fold chan_step xs (channel_new n ty sub e)))"
  shows "snd (send_item i (fold (\<lambda>i c. fst (send_item i c)) is opened))
    \<and> given (fold (\<lambda>i c. fst (send_item i c)) is opened) = given opened @ map (Pair r) is"
proof (rule open_channel_sends_all)
  let ?c = "fold chan_step xs (channel_new n ty sub e)"
  let ?d = "?c\<lparr>channel_blocked := False, channel_items_remaining := allowed_items\<rparr>"
  have ok: "chan_ok ?c" by (rule chan.run_good) simp
  then have "check_status ?d = announced ?d"
    by (simp add: chan_ok_def check_status_announced)
  then have opened: "opened = announced ?d"
    using assms(1) by (simp add: opened_def unblock_channel_def)
  show "channel_last_status opened = CHANNEL_FLOW_OPEN"
    unfolding opened using assms(1) by (simp add: flow_of_def)
  show "channel_unlimited_items opened" "channel_recv_pid opened = 0"
      "recv_callback_ptr opened = Some r"
    unfolding opened using ok assms(2) by (simp_all add: chan_ok_def refs_ok_def)
qed

theorem item_limit_ignored_witness:
  "snd (send_item ''c'' (fold (\<lambda>i c. fst (send_item i c)) [''a'', ''b'']
    (fst (unblock_channel 1 (fold chan_step [Receive (Some 7)]
      (channel_new ''out'' CHANNEL_TYPE_TEXT [] default_id))))))"
  using item_limit_ignored [of "[Receive (Some 7)]" "''out''" CHANNEL_TYPE_TEXT "[]" default_id 7
      "''c''" "[''a'', ''b'']" 1]
  by (simp add: chan_step_def channel_register_pointer_holder_def register_receiver_callback_def
      channel_receiver_is_process_def channel_new_def)

text \<open>The operations that give up a reference to the channel, in the state they are used in.\<close>

fun releases :: "'i chan_op \<Rightarrow> 'i channel \<Rightarrow> bool" where
  "releases (RemovedFromProcess pid rid) c \<longleftrightarrow>
     channel_recv_pid c = pid \<and> channel_recv_rid c = rid \<or> (pid, rid) \<in> set (channel_send_processes c)"
| "releases CloseChannel c \<longleftrightarrow> True"
| "releases UnlockChannel c \<longleftrightarrow> True"
| "releases (Unhold p) c \<longleftrightarrow> True"
| "releases (Unlisten p) c \<longleftrightarrow> (\<exists>l. p = Some l \<and> l \<in> set (channel_control_listeners c))"
| "releases (Unreceive p) c \<longleftrightarrow> p \<noteq> None \<and> p = recv_callback_ptr c"
| "releases _ c \<longleftrightarrow> False"

lemma deleted_delete [simp]: "chan_deleted (delete_instance c) \<longleftrightarrow> chan_deleted c \<or> need_delete_instance c"
  "need_delete_instance (delete_instance c) = need_delete_instance c"
  by (auto simp: delete_instance_def need_delete_instance_def)

lemma deleted_unhold:
  assumes "\<not> chan_deleted c"
  shows "chan_deleted (channel_unregister_pointer_holder p c)
    \<longleftrightarrow> need_delete_instance (channel_unregister_pointer_holder p c)"
  using assms by (simp add: channel_unregister_pointer_holder_def Let_def split: option.split)

lemma deleted_check [simp]: "chan_deleted (check_status c) = chan_deleted c"
  by (simp add: check_status_def broadcast_status_def Let_def)

lemma deleted_close:
  assumes "\<not> chan_deleted c"
  shows "chan_deleted (delete_if (internal_close_channel c))
    \<longleftrightarrow> need_delete_instance (delete_if (internal_close_channel c))"
    and "\<not> chan_deleted (fst (internal_close_channel c))"
  using assms by (simp_all add: internal_close_channel_def Let_def)

text \<open>
  A channel deletes itself exactly when its last reference goes: it is never deleted while
  a process, a pointer holder or an external lock refers to it, and every operation that gives
  up a reference deletes it if none is left.
\<close>

theorem channel_deleted_exactly:
  fixes n sub :: string and ty :: channel_type and e :: db_id
  assumes "\<not> chan_deleted (fold chan_step xs (channel_new n ty sub e))"
    and "releases x (fold chan_step xs (channel_new n ty sub e))"
  defines "d \<equiv> fold chan_step (xs @ [x]) (channel_new n ty sub e)"
  shows "(chan_deleted d \<longleftrightarrow> need_delete_instance d)
    \<and> (chan_deleted (fold chan_step ys d) \<longrightarrow> need_delete_instance (fold chan_step ys d))"
proof
  let ?c = "fold chan_step xs (channel_new n ty sub e)"
  have d: "d = chan_apply x ?c" using assms(1) by (simp add: d_def chan_step_def)
  show "chan_deleted d \<longleftrightarrow> need_delete_instance d"
    unfolding d using assms(1,2)
    by (cases x) (auto simp: resource_removed_from_process_def close_channel_def chan_unlock_def
        channel_unregister_control_listener_def unregister_receiver_callback_def
        deleted_close deleted_unhold)
  have "chan_ok d" unfolding d_def by (rule chan.run_good) simp
  then have "chan_ok (fold chan_step ys d)" by (rule chan.run_good)
  then show "chan_deleted (fold chan_step ys d) \<longrightarrow> need_delete_instance (fold chan_step ys d)"
    by (simp add: chan_ok_def refs_ok_def)
qed

theorem channel_deleted_exactly_witness:
  "chan_deleted (fold chan_step [Hold (Some 7), Unhold (Some 7)]
      (channel_new ''out'' CHANNEL_TYPE_TEXT [] default_id :: string channel))
    = need_delete_instance (fold chan_step [Hold (Some 7), Unhold (Some 7)]
      (channel_new ''out'' CHANNEL_TYPE_TEXT [] default_id :: string channel))"
  using channel_deleted_exactly [where xs = "[Hold (Some 7)] :: string chan_op list" and x = "Unhold (Some 7)" and ys = "[]"
      and n = "''out''" and ty = CHANNEL_TYPE_TEXT and sub = "[]" and e = default_id]
  by (simp add: chan_step_def channel_register_pointer_holder_def channel_new_def)

text \<open>
  A process that was made the receiver and adds the channel a second time, under another
  resource identifier, is refused: it does not become a sender, because the process announced
  as the receiver is not forgotten when it was added.
\<close>

theorem receiver_cannot_be_sender:
  assumes "channel_recv_pid c = 0" and "recv_callback_ptr c = None" and "pid \<noteq> 0" and "r1 \<noteq> r2"
  shows "\<exists>d. resource_added_to_process pid r1 (next_resource_add_is_receiver pid c) = (d, True)
    \<and> channel_recv_pid d = pid \<and> channel_recv_rid d = r1
    \<and> resource_added_to_process pid r2 d = (d, False)"
  using assms by (auto simp: resource_added_to_process_def next_resource_add_is_receiver_def
      receiver_callback_registered_def)

theorem receiver_cannot_be_sender_witness:
  "\<exists>d. resource_added_to_process 4 1 (next_resource_add_is_receiver 4
      (channel_new ''out'' CHANNEL_TYPE_TEXT [] default_id :: string channel)) = (d, True)
    \<and> resource_added_to_process 4 2 d = (d, False)"
  using receiver_cannot_be_sender [of "channel_new ''out'' CHANNEL_TYPE_TEXT [] default_id" 4 1 2]
  by (auto simp: channel_new_def)

lemma holders_close [simp]:
  "pointer_holders (fst (internal_close_channel c)) = pointer_holders c"
  "recv_callback_ptr (fst (internal_close_channel c)) = recv_callback_ptr c"
  "channel_closed (fst (internal_close_channel c))"
  by (simp_all add: internal_close_channel_def check_status_def broadcast_status_def Let_def)

text \<open>
  Registering the same receiver callback twice is accepted and counts it twice as a holder,
  but unregistering it counts down once, and a second time is ignored: the channel is closed
  and has no receiver, yet goes on being referred to by it and is not deleted.
\<close>

theorem receiver_registered_twice_leaks:
  fixes p :: ptr
  assumes "\<not> chan_deleted c" and "channel_recv_pid c = 0" and "recv_callback_ptr c = None"
  defines "twice \<equiv> fold chan_step [Receive (Some p), Receive (Some p)] c"
  shows "\<exists>d. fold chan_step [Unreceive (Some p)] twice = d \<and> recv_callback_ptr d = None
    \<and> channel_closed d \<and> \<not> chan_deleted d
    \<and> count_list (pointer_holders d) p = count_list (pointer_holders c) p + 1
    \<and> fold chan_step [Unreceive (Some p)] d = d"
proof -
  let ?t = "c\<lparr>recv_callback_ptr := Some p, pointer_holders := pointer_holders c @ [p, p]\<rparr>"
  let ?x = "fst (internal_close_channel (?t\<lparr>recv_callback_ptr := None\<rparr>))"
  let ?d = "channel_unregister_pointer_holder (Some p) ?x"
  have t: "twice = ?t"
    using assms(1-3) by (simp add: twice_def chan_step_def register_receiver_callback_def
        channel_receiver_is_process_def channel_register_pointer_holder_def)
  have holders: "pointer_holders ?d = remove1 p (pointer_holders c @ [p, p])"
    and cb: "recv_callback_ptr ?d = None" and closed: "channel_closed ?d"
    by (simp_all add: channel_unregister_pointer_holder_def Let_def delete_instance_def)
  have count: "count_list (pointer_holders ?d) p = count_list (pointer_holders c) p + 1"
    unfolding holders using count_list_0_iff [of "pointer_holders c" p]
    by (cases "p \<in> set (pointer_holders c)") (auto simp: remove1_append count_list_remove1)
  then have "pointer_holders ?d \<noteq> []" by auto
  then have "\<not> need_delete_instance ?d" by (simp add: need_delete_instance_def)
  then have live: "\<not> chan_deleted ?d"
    using assms(1) deleted_unhold [of ?x "Some p"] deleted_close(2) [of "?t\<lparr>recv_callback_ptr := None\<rparr>"]
    by simp
  have "fold chan_step [Unreceive (Some p)] twice = ?d"
    using assms(1) by (simp add: t chan_step_def unregister_receiver_callback_def)
  moreover have "fold chan_step [Unreceive (Some p)] ?d = ?d"
    using live cb by (simp add: chan_step_def unregister_receiver_callback_def)
  ultimately show ?thesis using cb closed live count by metis
qed

theorem receiver_registered_twice_leaks_witness:
  "\<not> chan_deleted (fold chan_step [Receive (Some 7), Receive (Some 7), Unreceive (Some 7)]
    (channel_new ''out'' CHANNEL_TYPE_TEXT [] default_id :: string channel))"
  using receiver_registered_twice_leaks [of "channel_new ''out'' CHANNEL_TYPE_TEXT [] default_id" 7]
  by (auto simp: channel_new_def)

end
