(* ===== verification/ChanExec.thy ===== *)
theory ChanExec
  imports SchedProps ChanProps
begin

text \<open>
  A channel as a resource of processes: the flow messages of \<open>Channel::broadcast_status\<close> go
  through \<open>ExecutorAccess::send_message\<close> to \<open>ProcessScheduler::send_message\<close>, and wake the
  processes that block on the channel. The conversion of a \<open>ChannelMessage\<close> to the
  \<open>ProcessMessage\<close> it is a subclass of is the argument \<open>upcast\<close>.
\<close>

subsection \<open>What opening a channel sends\<close>

lemma unblock_sends:
  assumes "chan_ok c" and "\<not> channel_closed c" and "channel_last_status c = CHANNEL_FLOW_BLOCKED"
  shows "set (drop (length (sent c)) (sent (fst (unblock_channel k c))))
    = {(pid, rid, ChannelFlowMessage (channel_name c) CHANNEL_FLOW_OPEN) |pid rid.
        (pid, rid) \<in> set (channel_send_processes c)
        \<or> pid = channel_recv_pid c \<and> rid = channel_recv_rid c \<and> pid \<noteq> 0}"
proof -
  let ?d = "c\<lparr>channel_blocked := False, channel_items_remaining := k\<rparr>"
  have "unblock_channel k c = (announced ?d, True)"
    using assms chan_okD(1) [OF assms(1)]
    by (simp add: unblock_channel_def check_status_announced)
  then show ?thesis
    using assms(2,3) by (auto simp: announced_def flow_of_def broadcast_status_def
        make_channel_flow_message_def image_iff)
qed

subsection \<open>What the message does to a blocked process\<close>

lemma resource_message_wakes:
  assumes "reachable s" and "infos s p = Some i" and "process_state i = PROCESS_STATE_BLOCKED"
    and "blocked_resources i = {rid}" and "map_of (resources i) rid \<noteq> None" and "rid \<noteq> 0"
    and "\<not> shutting_down s"
  shows "\<exists>s' j. send_message_rid (my_pid i) rid (Some m) s = Some (True, s') \<and> infos s' p = Some j
    \<and> waiting_messages j = waiting_messages i @ [(rid, m)] \<and> p \<in> set (run_queue s')
    \<and> process_state j = (if pending_killed i then PROCESS_STATE_KILLED else PROCESS_STATE_READY)"
proof -
  have ok: "tables_ok s" using reachable_ok [OF assms(1)] by (simp add: sched_ok_def)
  then have "map_of (all_processes s) (my_pid i) = Some p" and "id_range max_pid (my_pid i)"
    using assms(2) by (auto simp: tables_ok_def procs_ok_def id_range_def)
  with id_range_nonzero have "map_of (all_processes s) (my_pid i) = Some p" "my_pid i \<noteq> 0" by auto
  then show ?thesis
    using assms(2-7)
    by (auto simp: send_message_rid_def get_process_state_def can_receive_messages_def
        add_message_rid_def remove_blocked_resource_def blocked_resources_empty_def
        schedule_process_live queued_def made_ready_def killed_def enqueue_def Let_def)
qed

subsection \<open>A process blocked on a channel\<close>

definition blocked_info :: "db_id \<Rightarrow> (string, string) process_info" where
  "blocked_info owner = (info_in PROCESS_STATE_BLOCKED owner)\<lparr>resources := [(1, ''channel'')],
     blocked_resources := {1}, default_blocked_resources := {1}\<rparr>"

definition holding_process :: "db_id \<Rightarrow> (string, string) sched" where
  "holding_process owner = put_info 0 ((blocked_info owner)\<lparr>process_state := PROCESS_STATE_EXECUTING\<rparr>)
     ((running_process owner)\<lparr>next_rid := 2, rid_to_pid := [(1, 1)]\<rparr>)"

definition blocked_process :: "db_id \<Rightarrow> (string, string) sched" where
  "blocked_process owner = put_info 0 (blocked_info owner) (holding_process owner)"

lemma hold_first:
  "services_add_resource True True 0 (Some ''channel'') (running_process owner)
    = Some (1, holding_process owner)"
proof -
  have "alloc_id [] max_rid 1 = Some (1, 2)"
    by (subst alloc_id.simps) (simp add: advance_id_def max_rid_def)
  moreover have "rid_to_pid (running_process owner) = []" "next_rid (running_process owner) = 1"
    by (simp_all add: running_process_def one_process_def with_process_def sched_new_def
        put_info_def publish_def)
  ultimately have "get_next_rid 1 (running_process owner)
      = Some (1, (running_process owner)\<lparr>next_rid := 2, rid_to_pid := [(1, 1)]\<rparr>)"
    by (simp add: get_next_rid_def map_keys_def) (simp add: max_rid_def)
  then show ?thesis
    by (simp add: services_add_resource_def holding_process_def blocked_info_def info_in_def
        process_info_new_def add_blocking_resource_def add_resource_def Let_def)
qed

lemma block_first:
  "returned_from_execute 0 0 (Some 0) PROCESS_STATUS_BLOCKED (holding_process owner)
    = Some (blocked_process owner)"
proof -
  have i: "infos (holding_process owner) 0
      = Some ((blocked_info owner)\<lparr>process_state := PROCESS_STATE_EXECUTING\<rparr>)"
    by (simp add: holding_process_def)
  show ?thesis
    by (subst returned_unfinished [OF i])
      (simp_all add: suspends_def reschedules_def settled_def stopped_def blocked_process_def
        blocked_info_def info_in_def process_info_new_def)
qed

lemma reachable_blocked: "reachable (blocked_process owner)"
proof -
  have "reachable (holding_process owner)"
    by (rule reach_step [OF reachable_running step_add_resource [OF hold_first]])
  moreover have "infos (holding_process owner) 0
      = Some ((blocked_info owner)\<lparr>process_state := PROCESS_STATE_EXECUTING\<rparr>)"
    by (simp add: holding_process_def)
  ultimately show ?thesis by (rule reach_step [OF _ step_return [OF _ _ block_first]]) simp
qed

lemma blocked_sel [simp]:
  "infos (blocked_process owner) 0 = Some (blocked_info owner)"
  "\<not> shutting_down (blocked_process owner)"
  "my_pid (blocked_info owner) = 1" "process_state (blocked_info owner) = PROCESS_STATE_BLOCKED"
  "blocked_resources (blocked_info owner) = {1}"
  "resources (blocked_info owner) = [(1, ''channel'')]"
  by (simp_all add: blocked_process_def holding_process_def blocked_info_def)

text \<open>
  C32. Opening a blocked channel wakes a process that blocks on it: the unblocking sends the
  process a flow message, and the scheduler, given that message, queues it at the process and
  puts the process into the run queue, ready, or killed if a kill was pending.
\<close>

theorem unblocking_wakes_sender:
  fixes upcast :: "'i channel_message \<Rightarrow> 'm"
  assumes "\<not> channel_closed (fold chan_step xs (channel_new n ty sub e))"
    and "channel_last_status (fold chan_step xs (channel_new n ty sub e)) = CHANNEL_FLOW_BLOCKED"
    and "(my_pid i, rid) \<in> set (channel_send_processes (fold chan_step xs (channel_new n ty sub e)))"
    and "reachable s" and "infos s p = Some i" and "process_state i = PROCESS_STATE_BLOCKED"
    and "blocked_resources i = {rid}" and "map_of (resources i) rid \<noteq> None" and "rid \<noteq> 0"
    and "\<not> shutting_down s"
  shows "\<exists>m s' j. (my_pid i, rid, m)
        \<in> set (drop (length (sent (fold chan_step xs (channel_new n ty sub e))))
            (sent (fst (unblock_channel k (fold chan_step xs (channel_new n ty sub e))))))
    \<and> send_message_rid (my_pid i) rid (Some (upcast m)) s = Some (True, s') \<and> infos s' p = Some j
    \<and> waiting_messages j = waiting_messages i @ [(rid, upcast m)] \<and> p \<in> set (run_queue s')
    \<and> process_state j = (if pending_killed i then PROCESS_STATE_KILLED else PROCESS_STATE_READY)"
proof -
  have "chan_ok (fold chan_step xs (channel_new n ty sub e))" by (rule chan.run_good) simp
  from unblock_sends [OF this assms(1,2), of k] assms(3) obtain m where
    "(my_pid i, rid, m) \<in> set (drop (length (sent (fold chan_step xs (channel_new n ty sub e))))
       (sent (fst (unblock_channel k (fold chan_step xs (channel_new n ty sub e))))))"
    by auto
  with resource_message_wakes [OF assms(4-10), of "upcast m"] show ?thesis by blast
qed

theorem unblocking_wakes_sender_witness:
  "\<exists>m s'. send_message_rid 1 1 (Some m) (blocked_process (DbId 2 5)) = Some (True, s')
    \<and> 0 \<in> set (run_queue s')"
proof -
  let ?xs = "[AddedToProcess 1 1] :: string chan_op list"
  let ?c = "fold chan_step ?xs (channel_new ''out'' CHANNEL_TYPE_TEXT [] default_id)"
  have c: "\<not> channel_closed ?c" "channel_last_status ?c = CHANNEL_FLOW_BLOCKED"
      "(my_pid (blocked_info (DbId 2 5)), 1) \<in> set (channel_send_processes ?c)"
    by (simp_all add: chan_step_def resource_added_to_process_def channel_new_def)
  show ?thesis
    using unblocking_wakes_sender [OF c reachable_blocked [of "DbId 2 5"],
        where p = 0 and upcast = "\<lambda>_. ''open''" and k = 0]
    by auto
qed

end
