(* ===== verification/SchedFine.thy ===== *)
theory SchedFine
  imports SchedProps
begin

text \<open>
  The scheduler with its threads interleaved as finely as its locks allow. Not every method
  holds \<open>process_lock\<close> from its first line to its last
  (\<^verbatim>\<open>src/src/executor/executor_ProcessScheduler.cpp\<close>): \<open>get_next_execute\<close> gives it up after
  the timers, then waits on the semaphore, pops the lock-free queue and marks the process, each
  on its own; \<open>cleanup_process\<close> gives it up while it takes the resources away; \<open>add_process\<close>
  gives it up before it calls the new process and announces it. The methods of
  \<open>ProcessServices\<close> (\<^verbatim>\<open>src/src/executor/executor_ProcessServices.cpp\<close>) take it once for the
  identifier and, apart from that, the lock of the process; and the executor thread takes
  messages out of a process under the lock of that process only.

  First the parts of each method between two locks, and that together they are the method as
  it is given for a single thread; then the state with what the threads hold between two
  parts, the steps, and what holds after any number of them in any order.
\<close>

subsection \<open>The parts of \<open>add_process\<close>\<close>

definition add_process_locked ::
    "db_id \<Rightarrow> db_id \<Rightarrow> bool \<Rightarrow> ('m, 'r) sched \<Rightarrow> (u32 \<times> ('m, 'r) sched) option" where
  "add_process_locked exe owner has_process s =
     (if \<not> has_process then Some (0, s)
      else if shutting_down s then Some (0, s)
      else if length (all_processes s) \<ge> unat max_pid then Some (0, s)
      else do {
        (pid, nxt) \<leftarrow> alloc_id (map_keys (all_processes s)) max_pid (next_pid s);
        let p = next_addr s;
        Some (pid, s\<lparr>next_pid := nxt, next_addr := p + 1,
             infos := (infos s)(p \<mapsto> process_info_new pid exe owner),
             all_processes := map_put pid p (all_processes s),
             all_processes_entity := entity_add owner p (all_processes_entity s)\<rparr>) })"

definition add_process_announce :: "u32 \<Rightarrow> ('m, 'r) sched \<Rightarrow> ('m, 'r) sched" where
  "add_process_announce pid s = (if pid = 0 then s else publish pid PROCESS_STATE_CREATED s)"

lemma alloc_id_nonzero:
  assumes "alloc_id used mx n = Some r"
  shows "fst r \<noteq> 0"
proof (rule alloc_id.raw_induct [OF _ assms], goal_cases)
  case (1 alloc used mx n r)
  then show ?case by (auto split: if_splits)
qed

lemma add_process_parts:
  "add_process exe owner has_process s =
     map_option (\<lambda>(pid, u). (pid, add_process_announce pid u)) (add_process_locked exe owner has_process s)"
  by (auto simp: add_process_def add_process_locked_def add_process_announce_def Let_def
      dest: alloc_id_nonzero split: Option.bind_splits)

subsection \<open>The parts of \<open>get_next_execute\<close>\<close>

text \<open>
  The semaphore may be taken although the queue is empty, when the clock had jumped; the pop
  then finds nothing.
\<close>

definition wait_semaphore :: "('m, 'r) sched \<Rightarrow> bool \<times> ('m, 'r) sched" where
  "wait_semaphore s =
     (if semaphore s = 0 then (False, s) else (True, s\<lparr>semaphore := semaphore s - 1\<rparr>))"

definition pop_run_queue :: "('m, 'r) sched \<Rightarrow> addr option \<times> ('m, 'r) sched" where
  "pop_run_queue s = (case run_queue s of [] \<Rightarrow> (None, s) | p # q \<Rightarrow> (Some p, s\<lparr>run_queue := q\<rparr>))"

definition mark_executing :: "addr \<Rightarrow> ('m, 'r) sched \<Rightarrow> (bool \<times> ('m, 'r) sched) option" where
  "mark_executing p s =
     (case infos s p of None \<Rightarrow> None
      | Some i \<Rightarrow> Some (get_process_state True i = PROCESS_STATE_KILLED,
          put_info p (fst (set_process_state PROCESS_STATE_EXECUTING True i)) s))"

lemma get_next_execute_parts:
  "get_next_execute now s = do {
     u \<leftarrow> wake_due now s;
     (case wait_semaphore u of (got, u) \<Rightarrow>
        case (if got then pop_run_queue u else (None, u)) of
          (None, u) \<Rightarrow> Some (NoProcess (shutting_down s), u)
        | (Some p, u) \<Rightarrow> do { (k, u) \<leftarrow> mark_executing p u; Some (RunProcess p k, u) }) }"
  by (cases "wake_due now s")
    (auto simp: get_next_execute_def wait_semaphore_def pop_run_queue_def mark_executing_def Let_def
      split: list.split option.split)

text \<open>The thread that runs a process takes the next message under the lock of the process.\<close>

definition take_message :: "addr \<Rightarrow> ('m, 'r) sched \<Rightarrow> ((u32 \<times> 'm) option \<times> ('m, 'r) sched) option" where
  "take_message p s =
     (case infos s p of None \<Rightarrow> None
      | Some i \<Rightarrow> (case get_next_message True i of None \<Rightarrow> None
          | Some (j, e) \<Rightarrow> Some (e, put_info p j s)))"

subsection \<open>The parts of \<open>returned_from_execute\<close> and \<open>cleanup_process\<close>\<close>

text \<open>A process that ended, up to where \<open>cleanup_process\<close> gives up the lock.\<close>

definition end_begin :: "process_status \<Rightarrow> addr \<Rightarrow> ('m, 'r) sched \<Rightarrow> ('m, 'r) sched option" where
  "end_begin status p s =
     (case infos s p of None \<Rightarrow> None
      | Some i \<Rightarrow> cleanup_begin p
          (if status = PROCESS_STATUS_ERROR then publish (my_pid i) PROCESS_STATE_KILLED s else s))"

text \<open>Under the lock of the process, its resources are taken away.\<close>

definition cleanup_take :: "addr \<Rightarrow> ('m, 'r) sched \<Rightarrow> (u32 list \<times> ('m, 'r) sched) option" where
  "cleanup_take p s =
     (case infos s p of None \<Rightarrow> None
      | Some i \<Rightarrow>
        let rids_to_clear = get_resource_ids True i
        in Some (rids_to_clear,
             put_info p (fold (\<lambda>rid i. fst (remove_resource rid True i)) rids_to_clear i) s))"

text \<open>With \<open>process_lock\<close> again, the process leaves the tables and is deleted.\<close>

definition cleanup_erase :: "addr \<Rightarrow> u32 list \<Rightarrow> ('m, 'r) sched \<Rightarrow> ('m, 'r) sched option" where
  "cleanup_erase p rids_to_clear s =
     (case infos s p of None \<Rightarrow> None
      | Some i \<Rightarrow>
        let s = fold (release_rid_internal (my_pid i)) rids_to_clear s
        in Some (s\<lparr>all_processes := map_erase (my_pid i) (all_processes s),
             all_processes_entity :=
               entity_remove (my_db_owner_id i) p (all_processes_entity s),
             infos := (infos s)(p := None)\<rparr>))"

lemma removed_pid:
  "my_pid (fold (\<lambda>rid i. fst (remove_resource rid True i)) rids i) = my_pid i"
proof (induction rids arbitrary: i)
  case (Cons rid rids)
  have "my_pid (fst (remove_resource rid True i)) = my_pid i"
    by (simp add: remove_resource_def split: option.split)
  with Cons show ?case by simp
qed simp

lemma cleanup_finish_parts:
  "cleanup_finish p s = do { (rids, u) \<leftarrow> cleanup_take p s; cleanup_erase p rids u }"
  by (cases "infos s p")
    (simp_all add: cleanup_finish_def cleanup_take_def cleanup_erase_def Let_def removed_pid)

lemma returned_parts:
  assumes "status = PROCESS_STATUS_FINISHED \<or> status = PROCESS_STATUS_ERROR"
  shows "returned_from_execute now ms (Some p) status s
    = do { u \<leftarrow> end_begin status p s; (rids, v) \<leftarrow> cleanup_take p u; cleanup_erase p rids v }"
  using assms
  by (cases "infos s p")
    (auto simp: returned_from_execute_def end_begin_def cleanup_process_def cleanup_finish_parts)

subsection \<open>The parts of the services\<close>

definition add_resource_begin ::
    "addr \<Rightarrow> 'r option \<Rightarrow> ('m, 'r) sched \<Rightarrow> (u32 \<times> ('m, 'r) sched) option" where
  "add_resource_begin p resource s =
     (case infos s p of None \<Rightarrow> None
      | Some i \<Rightarrow> if resource = None then Some (0, s) else get_next_rid (my_pid i) s)"

definition add_resource_store ::
    "bool \<Rightarrow> u32 \<Rightarrow> addr \<Rightarrow> 'r option \<Rightarrow> ('m, 'r) sched \<Rightarrow> (bool \<times> ('m, 'r) sched) option" where
  "add_resource_store blocking rid p resource s =
     (case infos s p of None \<Rightarrow> None
      | Some i \<Rightarrow>
        (case (if blocking then add_blocking_resource rid resource True i
               else add_resource rid resource True i) of (j, ok) \<Rightarrow> Some (ok, put_info p j s)))"

definition give_back_rid :: "u32 \<Rightarrow> addr \<Rightarrow> ('m, 'r) sched \<Rightarrow> ('m, 'r) sched option" where
  "give_back_rid rid p s =
     (case infos s p of None \<Rightarrow> None | Some i \<Rightarrow> Some (release_rid (my_pid i) rid s))"

definition remove_resource_begin ::
    "addr \<Rightarrow> 'r option \<Rightarrow> ('m, 'r) sched \<Rightarrow> (u32 \<times> ('m, 'r) sched) option" where
  "remove_resource_begin p resource s =
     (case infos s p of None \<Rightarrow> None
      | Some i \<Rightarrow>
        if resource = None then Some (0, s)
        else case remove_resource_ptr resource True i of (j, rid) \<Rightarrow> Some (rid, put_info p j s))"

definition remove_rid_begin :: "u32 \<Rightarrow> addr \<Rightarrow> ('m, 'r) sched \<Rightarrow> (bool \<times> ('m, 'r) sched) option" where
  "remove_rid_begin rid p s =
     (case infos s p of None \<Rightarrow> None
      | Some i \<Rightarrow>
        if rid = 0 then Some (False, s)
        else case remove_resource rid True i of (j, r) \<Rightarrow> Some (r \<noteq> None, put_info p j s))"

text \<open>\<open>ProcessServices::remove_resource\<close> with an identifier.\<close>

definition services_remove_rid :: "u32 \<Rightarrow> addr \<Rightarrow> ('m, 'r) sched \<Rightarrow> (bool \<times> ('m, 'r) sched) option" where
  "services_remove_rid rid p s =
     do { (found, u) \<leftarrow> remove_rid_begin rid p s;
          if found then do { u \<leftarrow> give_back_rid rid p u; Some (True, u) } else Some (False, u) }"

lemma get_next_rid_infos: "get_next_rid pid s = Some (rid, u) \<Longrightarrow> infos u = infos s"
  by (auto simp: get_next_rid_def split: if_splits Option.bind_splits)

lemma services_add_resource_parts:
  "services_add_resource blocking accepts p resource s = do {
     (rid, u) \<leftarrow> add_resource_begin p resource s;
     if rid = 0 then Some (0, u)
     else do {
       (ok, v) \<leftarrow> (if accepts then add_resource_store blocking rid p resource u else Some (False, u));
       if ok then Some (rid, v)
       else do { v \<leftarrow> give_back_rid rid p v; Some (0, v) } } }"
  by (cases "infos s p"; cases resource)
    (auto simp: services_add_resource_def add_resource_begin_def add_resource_store_def
      give_back_rid_def add_resource_def add_blocking_resource_def Let_def
      dest: get_next_rid_infos split: Option.bind_splits)

lemma services_remove_resource_parts:
  "services_remove_resource p resource s = do {
     (rid, u) \<leftarrow> remove_resource_begin p resource s;
     if rid = 0 then Some (False, u)
     else do { u \<leftarrow> give_back_rid rid p u; Some (True, u) } }"
  by (cases "infos s p"; cases resource)
    (auto simp: services_remove_resource_def remove_resource_begin_def give_back_rid_def
      remove_resource_ptr_def split: option.split)

subsection \<open>The interleaved scheduler\<close>

text \<open>
  Between two parts the threads hold: processes popped and not yet marked (\<open>taken\<close>), how many
  threads passed the semaphore and have not popped (\<open>permits\<close>), the resource identifiers in
  use without a resource, with their process (\<open>loose\<close>: one being added, removed or cleaned up), and
  the processes being cleaned up, with the identifiers to release once the resources are
  taken away (\<open>closing\<close>).
\<close>

record ('m, 'r) threads =
  shared :: "('m, 'r) sched"
  taken :: "addr list"
  permits :: nat
  loose :: "(u32 \<times> addr) list"
  closing :: "addr \<rightharpoonup> u32 list option"

definition threads_new :: "('m, 'r) threads" where
  "threads_new = \<lparr>shared = sched_new, taken = [], permits = 0, loose = [], closing = (\<lambda>_. None)\<rparr>"

text \<open>
  The steps that only change the scheduler itself, those under \<open>process_lock\<close> first; one turn
  of the loop over the timers and one kill of \<open>shutdown\<close>'s are a step each. A turn is one for a
  process that sleeps: one for a process that does not leaves its timer in front, so the loop is
  never left and the lock never given up. Where a method reads and writes a process several times,
  a mark by the thread that popped it may come between; the outcome is that of the mark first.
  Two guards: nobody suspends a process while it is being cleaned up, and, when \<open>b\<close> is set,
  nobody suspends a sleeping one.
\<close>

inductive shared_step ::
    "bool \<Rightarrow> (addr \<rightharpoonup> u32 list option) \<Rightarrow> ('m, 'r) sched \<Rightarrow> ('m, 'r) sched \<Rightarrow> bool" where
  lock_add: "add_process_locked exe owner c s = Some (pid, s') \<Longrightarrow> shared_step b cl s s'"
| lock_kill: "kill_process pid s = Some (r, s') \<Longrightarrow> shared_step b cl s s'"
| lock_suspend: "suspend_process pid s = Some (r, s')
    \<Longrightarrow> \<forall>p. map_of (all_processes s) pid = Some p \<longrightarrow> cl p = None
    \<Longrightarrow> b \<longrightarrow> \<not> sleeper pid s \<Longrightarrow> shared_step b cl s s'"
| lock_start: "start_process pid s = Some (r, s') \<Longrightarrow> shared_step b cl s s'"
| lock_send: "send_message_rid pid rid m s = Some (r, s') \<Longrightarrow> shared_step b cl s s'"
| lock_wake: "timer_queue s = (t, p) # q \<Longrightarrow> t \<le> now \<Longrightarrow> infos s p = Some i
    \<Longrightarrow> process_state i = PROCESS_STATE_SLEEPING \<Longrightarrow> schedule_process p s = Some s'
    \<Longrightarrow> shared_step b cl s s'"
| lock_return: "infos s p = Some i \<Longrightarrow> process_state i = PROCESS_STATE_EXECUTING
    \<Longrightarrow> st \<noteq> PROCESS_STATUS_FINISHED \<Longrightarrow> st \<noteq> PROCESS_STATUS_ERROR
    \<Longrightarrow> returned_from_execute now ms (Some p) st s = Some s' \<Longrightarrow> shared_step b cl s s'"
| lock_shutdown: "shared_step b cl s (s\<lparr>shutting_down := True\<rparr>)"
| no_lock_announce: "shared_step b cl s (add_process_announce pid s)"
| no_lock_jump: "shared_step b cl s (os_time_has_jumped backwards s)"
| info_lock_message: "infos s p = Some i \<Longrightarrow> process_state i = PROCESS_STATE_EXECUTING
    \<Longrightarrow> take_message p s = Some (e, s') \<Longrightarrow> shared_step b cl s s'"

text \<open>
  The parts that leave something in a thread's hands. A process is not cleaned up while one of
  its resources is being added or removed, and none is added or removed during the cleanup:
  the thread that runs the process does both, one after the other.
\<close>

inductive thread_step :: "bool \<Rightarrow> ('m, 'r) threads \<Rightarrow> ('m, 'r) threads \<Rightarrow> bool" where
  on_shared: "shared_step b (closing f) (shared f) s' \<Longrightarrow> thread_step b f (f\<lparr>shared := s'\<rparr>)"
| get_permit: "wait_semaphore (shared f) = (True, s')
    \<Longrightarrow> thread_step b f (f\<lparr>shared := s', permits := permits f + 1\<rparr>)"
| pop_none: "permits f > 0 \<Longrightarrow> pop_run_queue (shared f) = (None, s')
    \<Longrightarrow> thread_step b f (f\<lparr>shared := s', permits := permits f - 1\<rparr>)"
| pop_one: "permits f > 0 \<Longrightarrow> pop_run_queue (shared f) = (Some p, s')
    \<Longrightarrow> thread_step b f (f\<lparr>shared := s', permits := permits f - 1, taken := taken f @ [p]\<rparr>)"
| mark: "p \<in> set (taken f) \<Longrightarrow> mark_executing p (shared f) = Some (k, s')
    \<Longrightarrow> thread_step b f (f\<lparr>shared := s', taken := remove1 p (taken f)\<rparr>)"
| add_begin: "closing f p = None \<Longrightarrow> add_resource_begin p r (shared f) = Some (rid, s')
    \<Longrightarrow> thread_step b f (f\<lparr>shared := s', loose := (if rid = 0 then loose f else (rid, p) # loose f)\<rparr>)"
| add_store: "closing f p = None \<Longrightarrow> (rid, p) \<in> set (loose f)
    \<Longrightarrow> add_resource_store blocking rid p r (shared f) = Some (True, s')
    \<Longrightarrow> thread_step b f (f\<lparr>shared := s', loose := remove1 (rid, p) (loose f)\<rparr>)"
| give_back: "closing f p = None \<Longrightarrow> (rid, p) \<in> set (loose f)
    \<Longrightarrow> give_back_rid rid p (shared f) = Some s'
    \<Longrightarrow> thread_step b f (f\<lparr>shared := s', loose := remove1 (rid, p) (loose f)\<rparr>)"
| remove_begin: "closing f p = None \<Longrightarrow> remove_resource_begin p r (shared f) = Some (rid, s')
    \<Longrightarrow> thread_step b f (f\<lparr>shared := s', loose := (if rid = 0 then loose f else (rid, p) # loose f)\<rparr>)"
| remove_rid: "closing f p = None \<Longrightarrow> remove_rid_begin rid p (shared f) = Some (found, s')
    \<Longrightarrow> thread_step b f (f\<lparr>shared := s', loose := (if found then (rid, p) # loose f else loose f)\<rparr>)"
| close_begin: "infos (shared f) p = Some i \<Longrightarrow> process_state i = PROCESS_STATE_EXECUTING
    \<Longrightarrow> p \<notin> snd ` set (loose f) \<Longrightarrow> end_begin st p (shared f) = Some s'
    \<Longrightarrow> thread_step b f (f\<lparr>shared := s', closing := (closing f)(p \<mapsto> None)\<rparr>)"
| close_take: "closing f p = Some None \<Longrightarrow> cleanup_take p (shared f) = Some (rids, s')
    \<Longrightarrow> thread_step b f (f\<lparr>shared := s', loose := map (\<lambda>rid. (rid, p)) rids @ loose f,
          closing := (closing f)(p \<mapsto> Some rids)\<rparr>)"
| close_erase: "closing f p = Some (Some rids) \<Longrightarrow> cleanup_erase p rids (shared f) = Some s'
    \<Longrightarrow> thread_step b f (f\<lparr>shared := s', loose := filter (\<lambda>e. snd e \<noteq> p) (loose f),
          closing := (closing f)(p := None)\<rparr>)"

text \<open>The states after any such steps.\<close>

inductive threads_reach :: "bool \<Rightarrow> ('m, 'r) threads \<Rightarrow> bool" for b where
  threads_init: "threads_reach b threads_new"
| threads_next: "threads_reach b f \<Longrightarrow> thread_step b f g \<Longrightarrow> threads_reach b g"

inductive_cases shared_stepE: "shared_step b cl s s'"

inductive_cases thread_stepE: "thread_step b f g"

end
