(* ===== verification/SchedThreads.thy ===== *)
theory SchedThreads
  imports SchedFine
begin

text \<open>
  What holds of the scheduler whose threads are interleaved, and what follows. The invariant of
  single calls is taken to the interleaved state by looking at the scheduler as if the threads had
  not begun the part they are in: the processes that were popped and not yet marked are at the head of the run
  queue again, with their semaphore posts, and the loose resource identifiers are free.
\<close>

subsection \<open>Another view of a scheduler\<close>

definition seen :: "addr list \<Rightarrow> nat \<Rightarrow> (u32 \<times> u32) list \<Rightarrow> ('m, 'r) sched \<Rightarrow> ('m, 'r) sched" where
  "seen pre n m s =
     s\<lparr>run_queue := pre @ run_queue s, semaphore := semaphore s + n, rid_to_pid := m\<rparr>"

lemma seen_sel [simp]:
  "infos (seen pre n m s) = infos s" "all_processes (seen pre n m s) = all_processes s"
  "timer_queue (seen pre n m s) = timer_queue s" "shutting_down (seen pre n m s) = shutting_down s"
  "run_queue (seen pre n m s) = pre @ run_queue s" "semaphore (seen pre n m s) = semaphore s + n"
  "rid_to_pid (seen pre n m s) = m" "next_rid (seen pre n m s) = next_rid s"
  "next_addr (seen pre n m s) = next_addr s" "next_pid (seen pre n m s) = next_pid s"
  "all_processes_entity (seen pre n m s) = all_processes_entity s"
  by (simp_all add: seen_def)

lemma seen_put [simp]: "put_info p i (seen pre n m s) = seen pre n m (put_info p i s)"
  by (simp add: seen_def put_info_def)

lemma seen_publish [simp]: "publish pid st (seen pre n m s) = seen pre n m (publish pid st s)"
  by (simp add: seen_def publish_def)

lemma seen_enqueue: "enqueue p i (seen pre n m s) = seen pre n m (enqueue p i s)"
  by (simp add: enqueue_def seen_def publish_def Let_def)

text \<open>The operations on processes do the same, seen either way.\<close>

lemma schedule_seen:
  "schedule_process p (seen pre n m s) = map_option (seen pre n m) (schedule_process p s)"
proof (cases "infos s p")
  case None
  then show ?thesis by (simp add: schedule_process_def)
next
  case (Some i)
  then show ?thesis by (simp add: schedule_process_live seen_enqueue)
qed

lemma kill_seen:
  "kill_process pid (seen pre n m s) = map_option (map_prod id (seen pre n m)) (kill_process pid s)"
  by (auto simp: kill_process_def schedule_seen split: option.split Option.bind_splits)

lemma start_seen:
  "start_process pid (seen pre n m s) = map_option (map_prod id (seen pre n m)) (start_process pid s)"
  by (auto simp: start_process_def schedule_seen split: option.split Option.bind_splits)

lemma suspend_seen:
  "suspend_process pid (seen pre n m s) = map_option (map_prod id (seen pre n m)) (suspend_process pid s)"
  by (auto simp: suspend_process_def split: option.split)

lemma send_seen:
  "send_message_rid pid rid msg (seen pre n m s)
    = map_option (map_prod id (seen pre n m)) (send_message_rid pid rid msg s)"
  by (auto simp: send_message_rid_def schedule_seen can_receive_messages_def Let_def
      split: option.split Option.bind_splits prod.split)

lemma add_seen:
  "add_process exe owner c (seen pre n m s)
    = map_option (map_prod id (seen pre n m)) (add_process exe owner c s)"
  by (auto simp: add_process_def Let_def split: Option.bind_splits)
    (simp_all add: seen_def publish_def)

lemma returned_seen:
  assumes "infos s p = Some i" and "st \<noteq> PROCESS_STATUS_FINISHED" and "st \<noteq> PROCESS_STATUS_ERROR"
  shows "returned_from_execute now ms (Some p) st (seen pre n m s)
    = map_option (seen pre n m) (returned_from_execute now ms (Some p) st s)"
proof -
  have timer: "(seen pre n m s)\<lparr>timer_queue := tq\<rparr> = seen pre n m (s\<lparr>timer_queue := tq\<rparr>)" for tq
    by (simp add: seen_def)
  show ?thesis
    using assms by (auto simp: returned_unfinished schedule_seen timer)
qed

lemma wake_seen:
  assumes "wake_due now s = Some s'"
  shows "wake_due now (seen pre n m s) = Some (seen pre n m s')"
proof (rule wake_due.raw_induct [OF _ assms], goal_cases)
  case (1 wake now s y)
  then show ?case
    by (subst wake_due.simps)
      (auto simp: schedule_seen split: list.splits if_splits Option.bind_splits)
qed

lemma sched_ok_frame [simp]:
  "sched_ok b (publish pid st s) = sched_ok b s" "sched_ok b (s\<lparr>shutting_down := d\<rparr>) = sched_ok b s"
  by (simp_all add: sched_ok_def)

lemma announce_frame [simp]:
  "sched_ok b (add_process_announce pid s) = sched_ok b s"
  "infos (add_process_announce pid s) = infos s"
  "seen pre n m (add_process_announce pid s) = add_process_announce pid (seen pre n m s)"
  "rid_to_pid (add_process_announce pid s) = rid_to_pid s"
  by (simp_all add: add_process_announce_def) (simp add: publish_def)

lemma taken_message:
  assumes "take_message p s = Some (e, s')"
  shows "\<exists>i es. infos s p = Some i \<and> s' = put_info p (i\<lparr>waiting_messages := es\<rparr>) s"
  using assms by (auto simp: take_message_def get_next_message_def split: option.splits list.splits)

lemma shared_seen:
  assumes "shared_step b cl s s'" and ok: "sched_ok b (seen pre n m s)"
  shows "sched_ok b (seen pre n m s')"
  using assms(1)
proof cases
  case (lock_add exe owner c pid)
  then have "add_process exe owner c s = Some (pid, add_process_announce pid s')"
    by (simp add: add_process_parts)
  then have "add_process exe owner c (seen pre n m s)
      = Some (pid, add_process_announce pid (seen pre n m s'))" by (simp add: add_seen)
  from inv_add [OF ok this] show ?thesis by simp
next
  case (lock_kill pid r)
  then show ?thesis using inv_kill [OF ok, of pid r] by (simp add: kill_seen)
next
  case (lock_suspend pid r)
  then show ?thesis using inv_suspend [OF ok, of pid r] by (simp add: suspend_seen sleeper_def)
next
  case (lock_start pid r)
  then show ?thesis using inv_start [OF ok, of pid r] by (simp add: start_seen)
next
  case (lock_send pid rid msg r)
  then show ?thesis using inv_send [OF ok, of pid rid msg r] by (simp add: send_seen)
next
  case (lock_wake t p)
  then show ?thesis using inv_schedule [OF ok, of p] by (simp add: schedule_seen)
next
  case (lock_return p i st now ms)
  then show ?thesis using inv_return [OF ok, of p i now ms st] by (simp add: returned_seen)
next
  case lock_shutdown
  moreover have "seen pre n m (s\<lparr>shutting_down := True\<rparr>) = (seen pre n m s)\<lparr>shutting_down := True\<rparr>"
    by (simp add: seen_def)
  ultimately show ?thesis using ok by simp
next
  case (no_lock_announce pid)
  then show ?thesis using ok by simp
next
  case (no_lock_jump backwards)
  moreover have "seen pre n m (os_time_has_jumped backwards s) = os_time_has_jumped backwards (seen pre n m s)"
    by (simp add: os_time_has_jumped_def seen_def)
  ultimately show ?thesis using inv_jump [OF ok] by simp
next
  case (info_lock_message p i e)
  then obtain es where "s' = put_info p (i\<lparr>waiting_messages := es\<rparr>) s"
    using taken_message [of p s e s'] by auto
  then show ?thesis
    using inv_put [OF ok, of p i "i\<lparr>waiting_messages := es\<rparr>"] info_lock_message(1) by simp
qed

text \<open>And they change no identifier, no resource, no process that is being cleaned up.\<close>

definition keeps :: "(addr \<rightharpoonup> u32 list option) \<Rightarrow> ('m, 'r) sched \<Rightarrow> ('m, 'r) sched \<Rightarrow> bool" where
  "keeps cl s s' \<longleftrightarrow> rid_to_pid s' = rid_to_pid s \<and> (\<forall>p i. infos s p = Some i
     \<longrightarrow> (\<exists>j. infos s' p = Some j \<and> ident j = ident i
       \<and> (cl p \<noteq> None \<and> process_state i = PROCESS_STATE_COMPLETED
           \<longrightarrow> process_state j = PROCESS_STATE_COMPLETED)))"

lemma keeps_refl [simp]: "keeps cl s s"
  by (simp add: keeps_def)

lemma keeps_trans: "keeps cl s t \<Longrightarrow> keeps cl t u \<Longrightarrow> keeps cl s u"
  unfolding keeps_def by (metis)

lemma keeps_put:
  assumes "infos s p = Some i" and "ident j = ident i"
    and "cl p \<noteq> None \<Longrightarrow> process_state i = PROCESS_STATE_COMPLETED \<Longrightarrow> process_state j = PROCESS_STATE_COMPLETED"
  shows "keeps cl s (put_info p j s)"
  using assms by (auto simp: keeps_def put_info_def)

lemma keeps_cong:
  "keeps cl s u \<Longrightarrow> infos v = infos u \<Longrightarrow> rid_to_pid v = rid_to_pid u \<Longrightarrow> keeps cl s v"
  by (simp add: keeps_def)

lemma rids_frame:
  "rid_to_pid (publish pid st s) = rid_to_pid s" "rid_to_pid (put_info p i s) = rid_to_pid s"
  "rid_to_pid (enqueue p i s) = rid_to_pid s"
  by (simp_all add: publish_def put_info_def enqueue_def Let_def)

lemma keeps_schedule:
  assumes "schedule_process p s = Some s'" and "infos s p = Some i"
    and "process_state i \<noteq> PROCESS_STATE_COMPLETED"
  shows "keeps cl s s'"
  using assms
  by (auto simp: keeps_def schedule_process_live rids_frame split: if_splits)

lemma keeps_shared:
  assumes "shared_step b cl s s'" and fresh: "infos s (next_addr s) = None"
  shows "keeps cl s s'"
  using assms(1)
proof cases
  case (lock_add exe owner c pid)
  then show ?thesis
    using fresh by (auto simp: add_process_locked_def keeps_def Let_def split: if_splits Option.bind_splits)
next
  case (lock_kill pid r)
  show ?thesis
  proof (cases "s' = s")
    case False
    with lock_kill obtain p i where i: "infos s p = Some i" "process_state i \<noteq> PROCESS_STATE_COMPLETED"
      and u: "schedule_process p (put_info p (i\<lparr>pending_killed := True\<rparr>) s) = Some s'"
      by (auto simp: kill_process_def flag_op_defs split: option.splits if_splits Option.bind_splits)
    have "keeps cl s (put_info p (i\<lparr>pending_killed := True\<rparr>) s)"
      using i by (intro keeps_put [where i = i]) simp_all
    moreover have "keeps cl (put_info p (i\<lparr>pending_killed := True\<rparr>) s) s'"
      by (rule keeps_schedule [OF u, of "i\<lparr>pending_killed := True\<rparr>"]) (use i in simp_all)
    ultimately show ?thesis by (rule keeps_trans)
  qed simp
next
  case (lock_suspend pid r)
  then show ?thesis
    by (auto simp: suspend_process_def flag_op_defs keeps_def rids_frame split: if_splits option.splits)
next
  case (lock_start pid r)
  then show ?thesis
    by (auto simp: start_process_def get_process_state_def split: if_splits option.splits Option.bind_splits
        intro!: keeps_schedule)
next
  case (lock_send pid rid msg r)
  show ?thesis
  proof (cases "s' = s")
    case False
    with lock_send obtain p i where i: "infos s p = Some i" "process_state i \<noteq> PROCESS_STATE_COMPLETED"
      and u: "s' = put_info p (fst (add_message_rid msg rid True i)) s
        \<or> schedule_process p (put_info p (fst (add_message_rid msg rid True i)) s) = Some s'"
      by (auto simp: send_message_rid_def get_process_state_def can_receive_messages_def Let_def
          case_prod_beta split: option.splits if_splits Option.bind_splits)
    let ?j = "fst (add_message_rid msg rid True i)"
    have st: "process_state ?j = process_state i"
      by (auto simp: add_message_rid_def remove_blocked_resource_def Let_def split: option.split)
    have k: "keeps cl s (put_info p ?j s)"
      using i st by (intro keeps_put [where i = i]) (simp_all add: add_message_same)
    from u show ?thesis
    proof
      assume "schedule_process p (put_info p ?j s) = Some s'"
      then have "keeps cl (put_info p ?j s) s'"
        by (rule keeps_schedule [where i = ?j]) (use i st in simp_all)
      with k show ?thesis by (rule keeps_trans)
    qed (use k in simp)
  qed simp
next
  case (lock_wake t p q now i)
  then show ?thesis by (intro keeps_schedule) auto
next
  case (lock_return p i st now ms)
  have settle: "keeps cl s (put_info p (settled st i) s)"
    using lock_return by (intro keeps_put [where i = i]) auto
  have sched: "keeps cl s s'" if u: "schedule_process p (put_info p (settled st i) s) = Some s'"
  proof -
    have "keeps cl (put_info p (settled st i) s) s'"
      by (rule keeps_schedule [OF u]) (use settled_state [of st i] in auto)
    with settle show ?thesis by (rule keeps_trans)
  qed
  show ?thesis
    using lock_return settle sched
    by (auto simp: returned_unfinished keeps_def rids_frame split: if_splits)
next
  case lock_shutdown
  then show ?thesis by (simp add: keeps_def)
next
  case (no_lock_announce pid)
  then show ?thesis by (simp add: keeps_def)
next
  case (no_lock_jump backwards)
  then show ?thesis by (simp add: keeps_def os_time_has_jumped_def)
next
  case (info_lock_message p i e)
  then obtain es where "s' = put_info p (i\<lparr>waiting_messages := es\<rparr>) s"
    using taken_message [of p s e s'] by auto
  with info_lock_message show ?thesis by (auto intro: keeps_put)
qed

subsection \<open>The invariant\<close>

definition at_rest :: "('m, 'r) threads \<Rightarrow> ('m, 'r) sched" where
  "at_rest f = seen (taken f) (permits f + length (taken f))
     (fold map_erase (map fst (loose f)) (rid_to_pid (shared f))) (shared f)"

definition loose_ok :: "('m, 'r) threads \<Rightarrow> bool" where
  "loose_ok f \<longleftrightarrow> map_sorted (rid_to_pid (shared f)) \<and> distinct (map fst (loose f))
     \<and> (\<forall>(rid, p) \<in> set (loose f). \<exists>i. infos (shared f) p = Some i
          \<and> map_of (rid_to_pid (shared f)) rid = Some (my_pid i))"

definition closing_entry :: "u32 list option \<Rightarrow> addr \<Rightarrow> (u32 \<times> addr) list \<Rightarrow> ('m, 'r) process_info \<Rightarrow> bool"
where
  "closing_entry c p ls i \<longleftrightarrow> process_state i = PROCESS_STATE_COMPLETED
     \<and> (case c of None \<Rightarrow> p \<notin> snd ` set ls
        | Some rids \<Rightarrow> resources i = [] \<and> distinct rids \<and> set rids = {rid. (rid, p) \<in> set ls})"

definition closing_ok :: "('m, 'r) threads \<Rightarrow> bool" where
  "closing_ok f \<longleftrightarrow> (\<forall>p c. closing f p = Some c
     \<longrightarrow> (\<exists>i. infos (shared f) p = Some i \<and> closing_entry c p (loose f) i))"

lemma closing_entry_cong:
  assumes "\<And>rid. (rid, p) \<in> set ls \<longleftrightarrow> (rid, p) \<in> set ls'"
  shows "closing_entry c p ls i = closing_entry c p ls' i"
proof -
  have "p \<in> snd ` set ls \<longleftrightarrow> p \<in> snd ` set ls'" using assms by force
  then show ?thesis using assms by (simp add: closing_entry_def split: option.split)
qed

lemma closing_entry_of:
  "closing_ok f \<Longrightarrow> closing f p = Some c
    \<Longrightarrow> \<exists>i. infos (shared f) p = Some i \<and> closing_entry c p (loose f) i"
  by (simp add: closing_ok_def)

definition threads_ok :: "bool \<Rightarrow> ('m, 'r) threads \<Rightarrow> bool" where
  "threads_ok b f \<longleftrightarrow> sched_ok b (at_rest f) \<and> loose_ok f \<and> closing_ok f"

lemma threads_ok_new: "threads_ok b (threads_new :: ('m, 'r) threads)"
proof -
  have "at_rest (threads_new :: ('m, 'r) threads) = sched_new" by (simp add: at_rest_def threads_new_def seen_def sched_new_def)
  then have "sched_ok b (at_rest (threads_new :: ('m, 'r) threads))" by simp
  moreover have "loose_ok (threads_new :: ('m, 'r) threads)" "closing_ok (threads_new :: ('m, 'r) threads)"
    by (simp_all add: loose_ok_def closing_ok_def threads_new_def sched_new_def)
  ultimately show ?thesis by (simp add: threads_ok_def)
qed

lemma at_rest_sel [simp]:
  "infos (at_rest f) = infos (shared f)" "all_processes (at_rest f) = all_processes (shared f)"
  "timer_queue (at_rest f) = timer_queue (shared f)" "run_queue (at_rest f) = taken f @ run_queue (shared f)"
  "next_pid (at_rest f) = next_pid (shared f)"
  "all_processes_entity (at_rest f) = all_processes_entity (shared f)"
  "next_rid (at_rest f) = next_rid (shared f)" "next_addr (at_rest f) = next_addr (shared f)"
  "semaphore (at_rest f) = semaphore (shared f) + (permits f + length (taken f))"
  by (simp_all add: at_rest_def)

lemma free_rids:
  assumes "loose_ok f"
  shows "map_sorted (rid_to_pid (at_rest f))"
    and "map_of (rid_to_pid (at_rest f)) rid
      = (if rid \<in> fst ` set (loose f) then None else map_of (rid_to_pid (shared f)) rid)"
  using assms om.lookup_erase_all [of "rid_to_pid (shared f)" "map fst (loose f)" rid]
  by (simp_all add: at_rest_def loose_ok_def)

text \<open>Steps that only change the scheduler.\<close>

lemma threads_ok_shared:
  assumes ok: "threads_ok b f" and step: "shared_step b (closing f) (shared f) s'"
  shows "threads_ok b (f\<lparr>shared := s'\<rparr>)"
proof -
  have "procs_ok (at_rest f)" using ok by (simp add: threads_ok_def sched_ok_def tables_ok_def)
  from fresh_addr [OF this] have k: "keeps (closing f) (shared f) s'"
    by (intro keeps_shared [OF step]) simp
  then have rids: "rid_to_pid s' = rid_to_pid (shared f)" by (simp add: keeps_def)
  have live: "\<exists>j. infos s' p = Some j \<and> ident j = ident i
      \<and> (closing f p \<noteq> None \<and> process_state i = PROCESS_STATE_COMPLETED
        \<longrightarrow> process_state j = PROCESS_STATE_COMPLETED)" if "infos (shared f) p = Some i" for p i
    using k that by (auto simp: keeps_def)
  have "sched_ok b (at_rest (f\<lparr>shared := s'\<rparr>))"
    using ok shared_seen [OF step] rids by (simp add: threads_ok_def at_rest_def)
  moreover have "loose_ok (f\<lparr>shared := s'\<rparr>)"
    using ok live rids by (fastforce simp: threads_ok_def loose_ok_def ident_def)
  moreover have "closing_ok (f\<lparr>shared := s'\<rparr>)"
    unfolding closing_ok_def
  proof (intro allI impI)
    fix p c
    assume c: "closing (f\<lparr>shared := s'\<rparr>) p = Some c"
    with ok obtain i where i: "infos (shared f) p = Some i" "closing_entry c p (loose f) i"
      by (auto simp: threads_ok_def closing_ok_def)
    from live [OF i(1)] i(2) c obtain j where "infos s' p = Some j" "ident j = ident i"
      "process_state j = PROCESS_STATE_COMPLETED" by (auto simp: closing_entry_def)
    with i(2) show "\<exists>j. infos (shared (f\<lparr>shared := s'\<rparr>)) p = Some j
        \<and> closing_entry c p (loose (f\<lparr>shared := s'\<rparr>)) j"
      by (auto simp: ident_def closing_entry_def split: option.splits)
  qed
  ultimately show ?thesis by (simp add: threads_ok_def)
qed

text \<open>Taking processes out of the run queue.\<close>

lemma queue_ok_mark:
  assumes "queue_ok s" and "run_queue s = xs @ ys" and "p \<in> set xs" and "infos s p = Some i"
    and "\<not> queued j"
  shows "queue_ok (put_info p j (s\<lparr>run_queue := remove1 p xs @ ys, semaphore := semaphore s - 1\<rparr>))"
proof -
  have d: "distinct xs" "p \<notin> set ys" "length xs > 0" using assms(1-3) by (auto simp: queue_ok_def)
  have "length xs + length ys \<le> semaphore s" using assms(1,2) by (simp add: queue_ok_def)
  then have "length (remove1 p xs) + length ys \<le> semaphore s - Suc 0"
    using d(3) assms(3) by (simp only: length_remove1 if_True)
  with d assms show ?thesis
    by (auto simp: queue_ok_def put_info_def set_remove1_eq distinct_remove1)
qed

lemma threads_ok_frame:
  assumes "threads_ok b f" and "closing g = closing f" and "loose g = loose f"
    and "infos (shared g) = infos (shared f)" and "rid_to_pid (shared g) = rid_to_pid (shared f)"
    and "sched_ok b (at_rest g)"
  shows "threads_ok b g"
  using assms(1,6) unfolding threads_ok_def loose_ok_def closing_ok_def assms(2-5) by simp

lemma threads_ok_wait:
  assumes ok: "threads_ok b f" and step: "wait_semaphore (shared f) = (True, s')"
  shows "threads_ok b (f\<lparr>shared := s', permits := permits f + 1\<rparr>)"
proof (rule threads_ok_frame [OF ok])
  have s': "s' = (shared f)\<lparr>semaphore := semaphore (shared f) - 1\<rparr>" "semaphore (shared f) > 0"
    using step by (auto simp: wait_semaphore_def split: if_splits)
  then have "at_rest (f\<lparr>shared := s', permits := permits f + 1\<rparr>) = at_rest f" by (simp add: at_rest_def seen_def)
  with ok show "sched_ok b (at_rest (f\<lparr>shared := s', permits := permits f + 1\<rparr>))" by (simp add: threads_ok_def)
qed (use step in \<open>auto simp: wait_semaphore_def split: if_splits\<close>)

lemma threads_ok_pop_none:
  assumes ok: "threads_ok b f" and step: "pop_run_queue (shared f) = (None, s')" and "permits f > 0"
  shows "threads_ok b (f\<lparr>shared := s', permits := permits f - 1\<rparr>)"
proof (rule threads_ok_frame [OF ok])
  have s': "s' = shared f" "run_queue (shared f) = []"
    using step by (auto simp: pop_run_queue_def split: list.splits)
  let ?g = "f\<lparr>shared := s', permits := permits f - 1\<rparr>"
  have v: "at_rest ?g = (at_rest f)\<lparr>semaphore := semaphore (at_rest f) - 1\<rparr>"
    using s' assms(3) by (simp add: at_rest_def seen_def)
  show "sched_ok b (at_rest ?g)"
    using ok s' assms(3) unfolding v by (simp add: threads_ok_def sched_ok_def queue_ok_def)
qed (use step in \<open>auto simp: pop_run_queue_def split: list.splits\<close>)

lemma threads_ok_pop_one:
  assumes ok: "threads_ok b f" and step: "pop_run_queue (shared f) = (Some p, s')" and "permits f > 0"
  shows "threads_ok b (f\<lparr>shared := s', permits := permits f - 1, taken := taken f @ [p]\<rparr>)"
proof (rule threads_ok_frame [OF ok])
  obtain q where s': "s' = (shared f)\<lparr>run_queue := q\<rparr>" "run_queue (shared f) = p # q"
    using step by (auto simp: pop_run_queue_def split: list.splits)
  then have "at_rest (f\<lparr>shared := s', permits := permits f - 1, taken := taken f @ [p]\<rparr>) = at_rest f"
    using assms(3) by (simp add: at_rest_def seen_def)
  with ok show "sched_ok b (at_rest (f\<lparr>shared := s', permits := permits f - 1, taken := taken f @ [p]\<rparr>))"
    by (simp add: threads_ok_def)
qed (use step in \<open>auto simp: pop_run_queue_def split: list.splits\<close>)

lemma closing_completed:
  "closing_ok f \<Longrightarrow> closing f p = Some c \<Longrightarrow> infos (shared f) p = Some i
    \<Longrightarrow> process_state i = PROCESS_STATE_COMPLETED"
  unfolding closing_ok_def closing_entry_def by (metis option.inject)

lemma rest_ok_put:
  assumes loose: "loose_ok f" and closing: "closing_ok f" and i: "infos (shared f) p = Some i"
    and awake: "process_state i \<noteq> PROCESS_STATE_COMPLETED"
    and g: "infos (shared g) = (infos (shared f))(p \<mapsto> j)" "my_pid j = my_pid i"
      "rid_to_pid (shared g) = rid_to_pid (shared f)" "closing g = closing f" "loose g = loose f"
  shows "loose_ok g \<and> closing_ok g"
proof
  show "loose_ok g"
    using loose i unfolding loose_ok_def g by (auto simp: g(2))
  have c: "closing f p = None" using closing_completed [OF closing _ i] awake by (cases "closing f p") auto
  have "infos (shared g) q = infos (shared f) q" if "closing f q \<noteq> None" for q
    using that c g(1) by (cases "q = p") auto
  then show "closing_ok g" using closing unfolding closing_ok_def g(4,5) by auto
qed

lemma threads_ok_mark:
  assumes ok: "threads_ok b f" and p: "p \<in> set (taken f)"
    and step: "mark_executing p (shared f) = Some (k, s')"
  shows "threads_ok b (f\<lparr>shared := s', taken := remove1 p (taken f)\<rparr>)"
proof -
  let ?g = "f\<lparr>shared := s', taken := remove1 p (taken f)\<rparr>"
  from step obtain i where i: "infos (shared f) p = Some i"
    and s': "s' = put_info p (i\<lparr>process_state := PROCESS_STATE_EXECUTING\<rparr>) (shared f)"
    by (auto simp: mark_executing_def set_process_state_def split: option.splits)
  let ?j = "i\<lparr>process_state := PROCESS_STATE_EXECUTING\<rparr>"
  have q: "queue_ok (at_rest f)" using ok by (simp add: threads_ok_def sched_ok_def)
  have "p \<in> set (run_queue (at_rest f))" using p by simp
  then have queued: "queued i" using q i unfolding queue_ok_def by force
  obtain n where n: "length (taken f) = Suc n" using p by (cases "taken f") auto
  have v: "at_rest ?g = put_info p ?j ((at_rest f)\<lparr>run_queue := remove1 p (taken f) @ run_queue (shared f),
      semaphore := semaphore (at_rest f) - 1\<rparr>)"
    using p n by (simp add: s' at_rest_def seen_def put_info_def length_remove1)
  have "queue_ok (at_rest ?g)"
    unfolding v by (rule queue_ok_mark [OF q _ p, of "run_queue (shared f)" i]) (simp_all add: i queued_def)
  moreover have "tables_ok (at_rest ?g)"
    using ok i unfolding v by (intro tables_ok_update [where i = i]) (auto simp: threads_ok_def sched_ok_def)
  moreover have "timer_ok (at_rest ?g)" if b
    using that ok i queued unfolding v
    by (intro timer_ok_put [where i = i]) (auto simp: threads_ok_def sched_ok_def asleep_def queued_def timer_ok_def)
  ultimately have "sched_ok b (at_rest ?g)" by (simp add: sched_ok_def)
  moreover have "loose_ok ?g \<and> closing_ok ?g"
    using ok i queued by (intro rest_ok_put [where f = f and i = i and j = ?j])
      (auto simp: threads_ok_def s' rids_frame queued_def ident_def)
  ultimately show ?thesis by (simp add: threads_ok_def)
qed

subsection \<open>Loose identifiers\<close>

text \<open>A change of one process's resources, of the table of identifiers and of the loose ones.\<close>

lemma sched_ok_loose:
  assumes ok: "sched_ok b (at_rest f)" and i: "infos (shared f) p = Some i"
    and j: "my_pid j = my_pid i" "my_db_owner_id j = my_db_owner_id i" "info_wf j"
      "process_state j = process_state i" "wakeup_time j = wakeup_time i"
    and g: "loose_ok g" "taken g = taken f" "permits g = permits f"
      "shared g = put_info p j ((shared f)\<lparr>next_rid := nxt, rid_to_pid := r\<rparr>)"
    and nxt: "id_range max_rid nxt"
    and new: "\<And>rid. map_of (rid_to_pid (at_rest g)) rid =
        (if rid = k then (if map_of (resources j) k = None then None else Some (my_pid i))
         else map_of (rid_to_pid (at_rest f)) rid)"
    and res: "\<And>rid. rid \<noteq> k \<Longrightarrow> map_of (resources j) rid = map_of (resources i) rid"
    and old: "\<And>pid. map_of (rid_to_pid (at_rest f)) k = Some pid \<Longrightarrow> pid = my_pid i"
  shows "sched_ok b (at_rest g)"
proof -
  let ?m = "rid_to_pid (at_rest g)"
  have i': "infos (at_rest f) p = Some i" using i by simp
  have v: "at_rest g = put_info p j ((at_rest f)\<lparr>next_rid := nxt, rid_to_pid := ?m\<rparr>)"
    by (simp add: at_rest_def g seen_def put_info_def)
  have "tables_ok (put_info p j ((at_rest f)\<lparr>next_rid := nxt, rid_to_pid := ?m\<rparr>))"
    using ok free_rids(1) [OF g(1)] new res old
    by (intro tables_ok_resource [OF _ i' j(1-3) _ nxt]) (auto simp: sched_ok_def)
  from sched_ok_resource [OF ok i' j(4,5) this] show ?thesis unfolding v [symmetric] .
qed

lemma loose_not_owned:
  assumes "sched_ok b (at_rest f)" and "loose_ok f" and "infos (shared f) p = Some i"
  shows "info_wf i" and "rid \<in> fst ` set (loose f) \<Longrightarrow> map_of (resources i) rid = None"
    and "map_of (resources i) rid \<noteq> None \<Longrightarrow> map_of (rid_to_pid (shared f)) rid = Some (my_pid i)"
    and "id_range max_rid (next_rid (shared f))"
proof -
  have rids: "rids_ok (at_rest f)" using assms(1) by (simp add: sched_ok_def tables_ok_def)
  have own: "map_of (rid_to_pid (at_rest f)) rid = Some (my_pid i)" if "map_of (resources i) rid \<noteq> None" for rid
    using rids assms(3) that unfolding rids_ok_def by (metis at_rest_sel(1))
  show "info_wf i" "id_range max_rid (next_rid (shared f))"
    using rids assms(3) by (auto simp: rids_ok_def id_range_def)
  show "rid \<in> fst ` set (loose f) \<Longrightarrow> map_of (resources i) rid = None"
    using own [of rid] free_rids(2) [OF assms(2), of rid] by (cases "map_of (resources i) rid") auto
  show "map_of (resources i) rid \<noteq> None \<Longrightarrow> map_of (rid_to_pid (shared f)) rid = Some (my_pid i)"
    using own [of rid] free_rids(2) [OF assms(2), of rid] by (auto split: if_splits)
qed

lemma loose_remove:
  "distinct (map fst xs) \<Longrightarrow> (k, v) \<in> set xs \<Longrightarrow> fst ` set (remove1 (k, v) xs) = fst ` set xs - {k}"
  by (induction xs) force+

lemma loose_entry:
  assumes "loose_ok f" and "(rid, p) \<in> set (loose f)"
  shows "\<exists>i. infos (shared f) p = Some i \<and> map_of (rid_to_pid (shared f)) rid = Some (my_pid i)"
    and "fst ` set (remove1 (rid, p) (loose f)) = fst ` set (loose f) - {rid}"
    and "distinct (map fst (remove1 (rid, p) (loose f)))"
proof -
  show "\<exists>i. infos (shared f) p = Some i \<and> map_of (rid_to_pid (shared f)) rid = Some (my_pid i)"
    using assms by (auto simp: loose_ok_def)
  have d: "distinct (map fst (loose f))" using assms(1) by (simp add: loose_ok_def)
  show "fst ` set (remove1 (rid, p) (loose f)) = fst ` set (loose f) - {rid}"
    using d assms(2) by (rule loose_remove)
  show "distinct (map fst (remove1 (rid, p) (loose f)))"
    using d by (auto simp: distinct_map inj_on_diff)
qed

text \<open>A step on the process at \<open>p\<close> leaves the cleanup of the others alone.\<close>

lemma closing_ok_update:
  assumes ok: "closing_ok f"
    and other: "\<And>q. q \<noteq> p \<Longrightarrow> closing g q = closing f q \<and> infos (shared g) q = infos (shared f) q"
      "\<And>rid q. q \<noteq> p \<Longrightarrow> (rid, q) \<in> set (loose g) \<longleftrightarrow> (rid, q) \<in> set (loose f)"
    and own: "\<And>c. closing g p = Some c \<Longrightarrow> \<exists>i. infos (shared g) p = Some i \<and> closing_entry c p (loose g) i"
  shows "closing_ok g"
  unfolding closing_ok_def
proof (intro allI impI)
  fix q c
  assume c: "closing g q = Some c"
  show "\<exists>i. infos (shared g) q = Some i \<and> closing_entry c q (loose g) i"
  proof (cases "q = p")
    case False
    with ok c other(1) [OF False] obtain i where "infos (shared f) q = Some i" "closing_entry c q (loose f) i"
      by (auto simp: closing_ok_def)
    with other(1) [OF False] closing_entry_cong [of q "loose g" "loose f" c i] other(2) [OF False]
    show ?thesis by auto
  qed (use c own in simp)
qed

definition core_ok :: "bool \<Rightarrow> ('m, 'r) threads \<Rightarrow> bool" where
  "core_ok b f \<longleftrightarrow> sched_ok b (at_rest f) \<and> loose_ok f"

text \<open>A resource is taken from a process, its identifier is loose.\<close>

lemma core_ok_removed:
  assumes ok: "core_ok b f" and i: "infos (shared f) p = Some i" and k: "map_of (resources i) k \<noteq> None"
    and j: "my_pid j = my_pid i" "my_db_owner_id j = my_db_owner_id i" "process_state j = process_state i"
      "wakeup_time j = wakeup_time i" "resources j = map_erase k (resources i)"
    and g: "shared g = put_info p j (shared f)" "loose g = (k, p) # loose f" "taken g = taken f"
      "permits g = permits f"
  shows "core_ok b g"
proof -
  have s: "sched_ok b (at_rest f)" and l: "loose_ok f" using ok by (simp_all add: core_ok_def)
  note own = loose_not_owned [OF s l i]
  have wf: "info_wf j" using own(1) j(5) by (simp add: info_wf_def om.good_erase om.lookup_erase)
  have fresh: "k \<notin> fst ` set (loose f)" using own(2) [of k] k by auto
  have l': "loose_ok g"
    using l i j(1) own(3) [OF k] fresh by (auto simp: loose_ok_def g rids_frame)
  have "sched_ok b (at_rest g)"
  proof (rule sched_ok_loose [OF s i j(1,2) wf j(3,4) l' g(3,4) _ own(4)])
    show "shared g = put_info p j ((shared f)\<lparr>next_rid := next_rid (shared f), rid_to_pid := rid_to_pid (shared f)\<rparr>)"
      by (simp add: g)
    show "map_of (rid_to_pid (at_rest g)) rid = (if rid = k then (if map_of (resources j) k = None then None
        else Some (my_pid i)) else map_of (rid_to_pid (at_rest f)) rid)" for rid
      using own(1) by (auto simp: free_rids(2) [OF l'] free_rids(2) [OF l] g rids_frame j(5) info_wf_def om.lookup_erase)
    show "map_of (resources j) rid = map_of (resources i) rid" if "rid \<noteq> k" for rid
      using own(1) that by (simp add: j(5) info_wf_def om.lookup_erase)
    show "pid = my_pid i" if "map_of (rid_to_pid (at_rest f)) k = Some pid" for pid
      using that own(3) [OF k] by (auto simp: free_rids(2) [OF l] split: if_splits)
  qed
  with l' show ?thesis by (simp add: core_ok_def)
qed

lemma core_ok_added:
  assumes ok: "core_ok b f" and i: "infos (shared f) p = Some i"
    and fresh: "map_of (rid_to_pid (shared f)) k = None" and nxt: "id_range max_rid nxt"
    and g: "shared g = (shared f)\<lparr>next_rid := nxt, rid_to_pid := map_put k (my_pid i) (rid_to_pid (shared f))\<rparr>"
      "loose g = (k, p) # loose f" "taken g = taken f" "permits g = permits f"
  shows "core_ok b g"
proof -
  have s: "sched_ok b (at_rest f)" and l: "loose_ok f" using ok by (simp_all add: core_ok_def)
  note own = loose_not_owned [OF s l i]
  have sorted: "map_sorted (rid_to_pid (shared f))" using l by (simp add: loose_ok_def)
  have new: "rid \<noteq> k" if "(rid, q) \<in> set (loose f)" for rid q
    using l fresh that by (auto simp: loose_ok_def)
  then have l': "loose_ok g"
    using l i fresh sorted by (fastforce simp: loose_ok_def g om.good_put om.lookup_put)
  have none: "map_of (resources i) k = None" using own(3) [of k] fresh by (cases "map_of (resources i) k") auto
  have "sched_ok b (at_rest g)"
  proof (rule sched_ok_loose [OF s i _ _ own(1) _ _ l' g(3,4) _ nxt])
    show "shared g = put_info p i ((shared f)\<lparr>next_rid := nxt,
        rid_to_pid := map_put k (my_pid i) (rid_to_pid (shared f))\<rparr>)"
      using i by (simp add: g(1) put_info_same)
    show "map_of (rid_to_pid (at_rest g)) rid = (if rid = k then (if map_of (resources i) k = None then None
        else Some (my_pid i)) else map_of (rid_to_pid (at_rest f)) rid)" for rid
      using none by (auto simp: free_rids(2) [OF l'] free_rids(2) [OF l] g om.lookup_put [OF sorted])
    show "pid = my_pid i" if "map_of (rid_to_pid (at_rest f)) k = Some pid" for pid
      using that fresh by (auto simp: free_rids(2) [OF l] split: if_splits)
  qed simp_all
  with l' show ?thesis by (simp add: core_ok_def)
qed

lemma core_ok_stored:
  assumes ok: "core_ok b f" and k: "(k, p) \<in> set (loose f)" and i: "infos (shared f) p = Some i"
    and j: "my_pid j = my_pid i" "my_db_owner_id j = my_db_owner_id i" "process_state j = process_state i"
      "wakeup_time j = wakeup_time i" "resources j = map_put k r (resources i)" and "k \<noteq> 0"
    and g: "shared g = put_info p j (shared f)" "loose g = remove1 (k, p) (loose f)" "taken g = taken f"
      "permits g = permits f"
  shows "core_ok b g"
proof -
  have s: "sched_ok b (at_rest f)" and l: "loose_ok f" using ok by (simp_all add: core_ok_def)
  note own = loose_not_owned [OF s l i] and entry = loose_entry [OF l k]
  have wf: "info_wf j" using own(1) j(5) assms(9) by (simp add: info_wf_def om.good_put om.lookup_put)
  have l': "loose_ok g"
    using l entry(3) i j(1) by (auto simp: loose_ok_def g rids_frame dest!: set_remove1_subset [THEN subsetD])
  have owner: "map_of (rid_to_pid (shared f)) k = Some (my_pid i)" using entry(1) i by auto
  have "sched_ok b (at_rest g)"
  proof (rule sched_ok_loose [OF s i j(1,2) wf j(3,4) l' g(3,4) _ own(4)])
    show "shared g = put_info p j ((shared f)\<lparr>next_rid := next_rid (shared f), rid_to_pid := rid_to_pid (shared f)\<rparr>)"
      by (simp add: g)
    show "map_of (rid_to_pid (at_rest g)) rid = (if rid = k then (if map_of (resources j) k = None then None
        else Some (my_pid i)) else map_of (rid_to_pid (at_rest f)) rid)" for rid
      using own(1) owner
      by (auto simp: free_rids(2) [OF l'] free_rids(2) [OF l] g(1) g(2) entry(2) rids_frame j(5)
          info_wf_def om.lookup_put)
    show "map_of (resources j) rid = map_of (resources i) rid" if "rid \<noteq> k" for rid
      using own(1) that by (simp add: j(5) info_wf_def om.lookup_put)
    show "pid = my_pid i" if "map_of (rid_to_pid (at_rest f)) k = Some pid" for pid
      using that owner by (auto simp: free_rids(2) [OF l] split: if_splits)
  qed
  with l' show ?thesis by (simp add: core_ok_def)
qed

lemma core_ok_given_back:
  assumes ok: "core_ok b f" and k: "(k, p) \<in> set (loose f)"
    and g: "shared g = (shared f)\<lparr>rid_to_pid := map_erase k (rid_to_pid (shared f))\<rparr>"
      "loose g = remove1 (k, p) (loose f)" "taken g = taken f" "permits g = permits f"
  shows "core_ok b g"
proof -
  have s: "sched_ok b (at_rest f)" and l: "loose_ok f" using ok by (simp_all add: core_ok_def)
  note entry = loose_entry [OF l k]
  obtain i where i: "infos (shared f) p = Some i" "map_of (rid_to_pid (shared f)) k = Some (my_pid i)"
    using entry(1) by blast
  note own = loose_not_owned [OF s l i(1)]
  have sorted: "map_sorted (rid_to_pid (shared f))" using l by (simp add: loose_ok_def)
  have other: "rid \<noteq> k" if "(rid, q) \<in> set (remove1 (k, p) (loose f))" for rid q
    using that entry(2) by force
  have l': "loose_ok g"
    unfolding loose_ok_def
  proof (intro conjI ballI)
    show "map_sorted (rid_to_pid (shared g))" using sorted by (simp add: g om.good_erase)
    show "distinct (map fst (loose g))" using entry(3) by (simp add: g)
    fix e
    assume e: "e \<in> set (loose g)"
    obtain rid q where q: "e = (rid, q)" by (cases e)
    with e have "(rid, q) \<in> set (loose f)" using g(2) by (auto dest: set_remove1_subset [THEN subsetD])
    from loose_entry(1) [OF l this] obtain x where x: "infos (shared f) q = Some x"
      "map_of (rid_to_pid (shared f)) rid = Some (my_pid x)" by blast
    have "rid \<noteq> k" using other [of rid q] e q g(2) by metis
    with x have "infos (shared g) q = Some x \<and> map_of (rid_to_pid (shared g)) rid = Some (my_pid x)"
      unfolding g(1) by (simp add: om.lookup_erase [OF sorted])
    then show "case e of (rid, p) \<Rightarrow> \<exists>i. infos (shared g) p = Some i
        \<and> map_of (rid_to_pid (shared g)) rid = Some (my_pid i)" unfolding q by blast
  qed
  have none: "map_of (resources i) k = None" using own(2) [of k] k by force
  have "sched_ok b (at_rest g)"
  proof (rule sched_ok_loose [OF s i(1) _ _ own(1) _ _ l' g(3,4) _ own(4)])
    show "shared g = put_info p i ((shared f)\<lparr>next_rid := next_rid (shared f),
        rid_to_pid := map_erase k (rid_to_pid (shared f))\<rparr>)"
      using i by (simp add: g(1) put_info_same)
    show "map_of (rid_to_pid (at_rest g)) rid = (if rid = k then (if map_of (resources i) k = None then None
        else Some (my_pid i)) else map_of (rid_to_pid (at_rest f)) rid)" for rid
      using none by (auto simp: free_rids(2) [OF l'] free_rids(2) [OF l] g(1) g(2) entry(2) om.lookup_erase [OF sorted])
    show "pid = my_pid i" if "map_of (rid_to_pid (at_rest f)) k = Some pid" for pid
      using that i(2) by (auto simp: free_rids(2) [OF l] split: if_splits)
  qed simp_all
  with l' show ?thesis by (simp add: core_ok_def)
qed

lemma fold_map_erase: "fold map_erase ks m = filter (\<lambda>e. fst e \<notin> set ks) m"
  by (induction ks arbitrary: m) (auto simp: map_erase_def intro: filter_cong)

lemma core_ok_cong:
  assumes "core_ok b f" and "shared g = shared f" "taken g = taken f" "permits g = permits f"
    and "set (loose g) = set (loose f)" "distinct (map fst (loose g))"
  shows "core_ok b g"
  using assms by (simp add: core_ok_def at_rest_def fold_map_erase loose_ok_def)

lemma core_ok_take:
  assumes "core_ok b f" and "infos (shared f) p = Some i" and "distinct rids"
    and "\<forall>rid \<in> set rids. map_of (resources i) rid \<noteq> None"
  shows "core_ok b (f\<lparr>shared := put_info p (fold (\<lambda>rid i. fst (remove_resource rid True i)) rids i) (shared f),
     loose := map (\<lambda>rid. (rid, p)) (rev rids) @ loose f\<rparr>)"
  using assms
proof (induction rids arbitrary: i f)
  case Nil
  then show ?case by (simp add: put_info_same)
next
  case (Cons k rids)
  let ?j = "fst (remove_resource k True i)"
  let ?g = "f\<lparr>shared := put_info p ?j (shared f), loose := (k, p) # loose f\<rparr>"
  have j: "my_pid ?j = my_pid i" "my_db_owner_id ?j = my_db_owner_id i" "process_state ?j = process_state i"
      "wakeup_time ?j = wakeup_time i" "resources ?j = map_erase k (resources i)"
    using Cons.prems(4) by (auto simp: remove_resource_def split: option.split)
  have "core_ok b ?g"
    by (rule core_ok_removed [OF Cons.prems(1,2) _ j]) (use Cons.prems(4) in simp_all)
  moreover have "infos (shared ?g) p = Some ?j" by simp
  moreover have "distinct rids" using Cons.prems(3) by simp
  moreover have "\<forall>rid \<in> set rids. map_of (resources ?j) rid \<noteq> None"
  proof
    fix rid
    assume "rid \<in> set rids"
    then have "map_of (resources i) rid \<noteq> None" "rid \<noteq> k" using Cons.prems(3,4) by auto
    then show "map_of (resources ?j) rid \<noteq> None" unfolding j by (simp add: map_of_erase)
  qed
  ultimately have "core_ok b (?g\<lparr>shared := put_info p (fold (\<lambda>rid i. fst (remove_resource rid True i)) rids ?j) (shared ?g),
     loose := map (\<lambda>rid. (rid, p)) (rev rids) @ loose ?g\<rparr>)" by (rule Cons.IH)
  then show ?case by simp
qed

lemma removed_fields:
  "process_state (fold (\<lambda>rid i. fst (remove_resource rid True i)) rids i) = process_state i
    \<and> resources (fold (\<lambda>rid i. fst (remove_resource rid True i)) rids i) = fold map_erase rids (resources i)"
proof (induction rids arbitrary: i)
  case (Cons k rids)
  have "process_state (fst (remove_resource k True i)) = process_state i
      \<and> resources (fst (remove_resource k True i)) = map_erase k (resources i)"
    by (auto simp: remove_resource_def map_erase_def map_of_eq_None_iff split: option.split
        intro!: filter_True [symmetric])
  with Cons show ?case by simp
qed simp

lemma removed_all:
  assumes "map_sorted m"
  shows "fold map_erase (map_keys m) m = []"
  by (simp add: fold_map_erase map_keys_def filter_empty_conv)

subsection \<open>Every step keeps the invariant\<close>

lemma threads_ok_add_begin:
  assumes ok: "threads_ok b f" and p: "closing f p = None"
    and step: "add_resource_begin p r (shared f) = Some (rid, s')"
  shows "threads_ok b (f\<lparr>shared := s', loose := (if rid = 0 then loose f else (rid, p) # loose f)\<rparr>)"
proof -
  have core: "core_ok b f" and cl: "closing_ok f" using ok by (simp_all add: threads_ok_def core_ok_def)
  obtain i where i: "infos (shared f) p = Some i" using step by (auto simp: add_resource_begin_def split: option.splits)
  have sorted: "map_sorted (rid_to_pid (shared f))" and range: "id_range max_rid (next_rid (shared f))"
    using core loose_not_owned(4) [OF _ _ i] by (auto simp: core_ok_def loose_ok_def)
  have "(rid = 0 \<and> s' = shared f) \<or> (\<exists>nxt. map_of (rid_to_pid (shared f)) rid = None
      \<and> id_range max_rid rid \<and> id_range max_rid nxt
      \<and> s' = (shared f)\<lparr>next_rid := nxt, rid_to_pid := map_put rid (my_pid i) (rid_to_pid (shared f))\<rparr>)"
    using step i get_next_rid_fresh [OF _ sorted range, of "my_pid i" rid s']
    by (auto simp: add_resource_begin_def split: if_splits)
  then show ?thesis
  proof (elim disjE exE conjE)
    assume "rid = 0" "s' = shared f"
    with ok show ?thesis by simp
  next
    fix nxt
    assume new: "map_of (rid_to_pid (shared f)) rid = None" and rid: "id_range max_rid rid"
      and nxt: "id_range max_rid nxt"
      and s': "s' = (shared f)\<lparr>next_rid := nxt, rid_to_pid := map_put rid (my_pid i) (rid_to_pid (shared f))\<rparr>"
    let ?g = "f\<lparr>shared := s', loose := (rid, p) # loose f\<rparr>"
    have "core_ok b ?g" by (rule core_ok_added [OF core i new nxt]) (simp_all add: s')
    moreover have "closing_ok ?g"
      by (rule closing_ok_update [OF cl, of p]) (use p in \<open>auto simp: s'\<close>)
    ultimately show ?thesis using id_range_nonzero [OF rid] by (simp add: threads_ok_def core_ok_def)
  qed
qed

lemma threads_ok_store:
  assumes ok: "threads_ok b f" and p: "closing f p = None" and k: "(rid, p) \<in> set (loose f)"
    and step: "add_resource_store blocking rid p r (shared f) = Some (True, s')"
  shows "threads_ok b (f\<lparr>shared := s', loose := remove1 (rid, p) (loose f)\<rparr>)"
proof -
  let ?g = "f\<lparr>shared := s', loose := remove1 (rid, p) (loose f)\<rparr>"
  have core: "core_ok b f" and cl: "closing_ok f" using ok by (simp_all add: threads_ok_def core_ok_def)
  obtain i where i: "infos (shared f) p = Some i" using step by (auto simp: add_resource_store_def split: option.splits)
  obtain x j where r: "r = Some x" "rid \<noteq> 0" "s' = put_info p j (shared f)"
    and j: "my_pid j = my_pid i" "my_db_owner_id j = my_db_owner_id i" "process_state j = process_state i"
      "wakeup_time j = wakeup_time i" "resources j = map_put rid x (resources i)"
    using step i
    by (auto simp: add_resource_store_def add_blocking_resource_def add_resource_def split: if_splits option.splits)
  have "core_ok b ?g"
    using j r by (intro core_ok_stored [OF core k i]) auto
  moreover have "closing_ok ?g"
    by (rule closing_ok_update [OF cl, of p]) (use p in \<open>auto simp: r\<close>)
  ultimately show ?thesis by (simp add: threads_ok_def core_ok_def)
qed

lemma threads_ok_give_back:
  assumes ok: "threads_ok b f" and p: "closing f p = None" and k: "(rid, p) \<in> set (loose f)"
    and step: "give_back_rid rid p (shared f) = Some s'"
  shows "threads_ok b (f\<lparr>shared := s', loose := remove1 (rid, p) (loose f)\<rparr>)"
proof -
  let ?g = "f\<lparr>shared := s', loose := remove1 (rid, p) (loose f)\<rparr>"
  have core: "core_ok b f" and cl: "closing_ok f" using ok by (simp_all add: threads_ok_def core_ok_def)
  obtain i where i: "infos (shared f) p = Some i" "map_of (rid_to_pid (shared f)) rid = Some (my_pid i)"
    using loose_entry(1) [OF _ k] core by (auto simp: core_ok_def)
  then have s': "s' = (shared f)\<lparr>rid_to_pid := map_erase rid (rid_to_pid (shared f))\<rparr>"
    using step by (simp add: give_back_rid_def release_rid_def release_rid_internal_def)
  have "core_ok b ?g" by (rule core_ok_given_back [OF core k]) (simp_all add: s')
  moreover have "closing_ok ?g"
    by (rule closing_ok_update [OF cl, of p]) (use p in \<open>auto simp: s'\<close>)
  ultimately show ?thesis by (simp add: threads_ok_def core_ok_def)
qed

lemma threads_ok_removed:
  assumes ok: "threads_ok b f" and p: "closing f p = None" and i: "infos (shared f) p = Some i"
    and k: "map_of (resources i) k \<noteq> None"
    and j: "my_pid j = my_pid i" "my_db_owner_id j = my_db_owner_id i" "process_state j = process_state i"
      "wakeup_time j = wakeup_time i" "resources j = map_erase k (resources i)"
  shows "threads_ok b (f\<lparr>shared := put_info p j (shared f), loose := (k, p) # loose f\<rparr>)"
proof -
  let ?g = "f\<lparr>shared := put_info p j (shared f), loose := (k, p) # loose f\<rparr>"
  have core: "core_ok b f" and cl: "closing_ok f" using ok by (simp_all add: threads_ok_def core_ok_def)
  have "core_ok b ?g" using j by (intro core_ok_removed [OF core i k]) auto
  moreover have "closing_ok ?g"
    by (rule closing_ok_update [OF cl, of p]) (use p in auto)
  ultimately show ?thesis by (simp add: threads_ok_def core_ok_def)
qed

lemma threads_ok_remove_begin:
  assumes ok: "threads_ok b f" and p: "closing f p = None"
    and step: "remove_resource_begin p r (shared f) = Some (rid, s')"
  shows "threads_ok b (f\<lparr>shared := s', loose := (if rid = 0 then loose f else (rid, p) # loose f)\<rparr>)"
proof -
  obtain i where i: "infos (shared f) p = Some i"
    using step by (auto simp: remove_resource_begin_def split: option.splits)
  have wf: "info_wf i" using ok loose_not_owned(1) i by (auto simp: threads_ok_def)
  show ?thesis
  proof (cases "case r of None \<Rightarrow> None | Some x \<Rightarrow> find (\<lambda>e. snd e = x) (resources i)")
    case None
    then have "rid = 0 \<and> s' = shared f"
      using step i by (auto simp: remove_resource_begin_def remove_resource_ptr_def put_info_same split: option.splits)
    with ok show ?thesis by simp
  next
    case (Some e)
    then obtain x k where x: "r = Some x" "e = (k, x)" "(k, x) \<in> set (resources i)"
      by (cases r) (auto simp: find_Some_iff split: option.splits dest: nth_mem, metis nth_mem surj_pair)
    then have k: "map_of (resources i) k \<noteq> None" using weak_map_of_SomeI [OF x(3)] by auto
    let ?j = "i\<lparr>blocked_resources := blocked_resources i - {k}, resources := map_erase k (resources i)\<rparr>"
    have s': "rid = k" "s' = put_info p ?j (shared f)"
      using step i Some x by (auto simp: remove_resource_begin_def remove_resource_ptr_def)
    have "k \<noteq> 0" using k wf by (auto simp: info_wf_def)
    then show ?thesis using threads_ok_removed [OF ok p i k, of ?j] by (simp add: s')
  qed
qed

lemma threads_ok_remove_rid:
  assumes ok: "threads_ok b f" and p: "closing f p = None"
    and step: "remove_rid_begin rid p (shared f) = Some (found, s')"
  shows "threads_ok b (f\<lparr>shared := s', loose := (if found then (rid, p) # loose f else loose f)\<rparr>)"
proof -
  obtain i where i: "infos (shared f) p = Some i"
    using step by (auto simp: remove_rid_begin_def split: option.splits)
  show ?thesis
  proof (cases "rid = 0 \<or> map_of (resources i) rid = None")
    case True
    then have "\<not> found \<and> s' = shared f"
      using step i by (auto simp: remove_rid_begin_def remove_resource_def put_info_same split: if_splits)
    with ok show ?thesis by simp
  next
    case False
    then have k: "map_of (resources i) rid \<noteq> None" by simp
    let ?j = "fst (remove_resource rid True i)"
    have "found" "s' = put_info p ?j (shared f)"
      using step i False by (auto simp: remove_rid_begin_def remove_resource_def split: option.splits)
    moreover have "threads_ok b (f\<lparr>shared := put_info p ?j (shared f), loose := (rid, p) # loose f\<rparr>)"
      using k by (intro threads_ok_removed [OF ok p i k]) (auto simp: remove_resource_def)
    ultimately show ?thesis by simp
  qed
qed

lemma threads_ok_close_begin:
  assumes ok: "threads_ok b f" and i: "infos (shared f) p = Some i"
    and ex: "process_state i = PROCESS_STATE_EXECUTING" and free: "p \<notin> snd ` set (loose f)"
    and step: "end_begin st p (shared f) = Some s'"
  shows "threads_ok b (f\<lparr>shared := s', closing := (closing f)(p \<mapsto> None)\<rparr>)"
proof -
  let ?g = "f\<lparr>shared := s', closing := (closing f)(p \<mapsto> None)\<rparr>"
  let ?j = "i\<lparr>process_state := PROCESS_STATE_COMPLETED\<rparr>"
  have s: "sched_ok b (at_rest f)" and l: "loose_ok f" and cl: "closing_ok f"
    using ok by (simp_all add: threads_ok_def)
  have s': "infos s' = (infos (shared f))(p \<mapsto> ?j)" "rid_to_pid s' = rid_to_pid (shared f)"
    using step i
    by (cases "st = PROCESS_STATUS_ERROR"; auto simp: end_begin_def cleanup_begin_def set_process_state_def rids_frame)+
  have put: "sched_ok b (put_info p ?j (at_rest f))"
    by (rule inv_stop [OF s _ ex]) (use i in \<open>simp_all add: queued_def\<close>)
  have "at_rest ?g = publish (my_pid i) PROCESS_STATE_COMPLETED (put_info p ?j
      (if st = PROCESS_STATUS_ERROR then publish (my_pid i) PROCESS_STATE_KILLED (at_rest f) else at_rest f))"
    using step i by (auto simp: end_begin_def cleanup_begin_def set_process_state_def at_rest_def rids_frame)
  with put have "sched_ok b (at_rest ?g)" by (simp add: publish_put_info [symmetric])
  moreover have "loose_ok ?g" using l i s' by (fastforce simp: loose_ok_def)
  moreover have "closing_ok ?g"
    by (rule closing_ok_update [OF cl, of p]) (use free s' in \<open>auto simp: closing_entry_def\<close>)
  ultimately show ?thesis by (simp add: threads_ok_def)
qed

lemma threads_ok_close_take:
  assumes ok: "threads_ok b f" and p: "closing f p = Some None"
    and step: "cleanup_take p (shared f) = Some (rids, s')"
  shows "threads_ok b (f\<lparr>shared := s', loose := map (\<lambda>rid. (rid, p)) rids @ loose f,
    closing := (closing f)(p \<mapsto> Some rids)\<rparr>)"
proof -
  let ?g = "f\<lparr>shared := s', loose := map (\<lambda>rid. (rid, p)) rids @ loose f, closing := (closing f)(p \<mapsto> Some rids)\<rparr>"
  have core: "core_ok b f" and cl: "closing_ok f" using ok by (simp_all add: threads_ok_def core_ok_def)
  from closing_entry_of [OF cl p] obtain i where i: "infos (shared f) p = Some i"
    "process_state i = PROCESS_STATE_COMPLETED" "p \<notin> snd ` set (loose f)" by (auto simp: closing_entry_def)
  let ?j = "fold (\<lambda>rid i. fst (remove_resource rid True i)) rids i"
  have rids: "rids = map_keys (resources i)" and s': "s' = put_info p ?j (shared f)"
    using step i(1) by (auto simp: cleanup_take_def get_resource_ids_def Let_def)
  have sorted: "map_sorted (resources i)"
    using core loose_not_owned(1) i(1) by (auto simp: core_ok_def info_wf_def)
  then have d: "distinct rids" "\<forall>rid \<in> set rids. map_of (resources i) rid \<noteq> None"
    by (simp_all add: rids om.distinct_keys om.mem_keys)
  have c: "core_ok b (f\<lparr>shared := s', loose := map (\<lambda>rid. (rid, p)) (rev rids) @ loose f\<rparr>)"
    unfolding s' by (rule core_ok_take [OF core i(1) d])
  then have "distinct (map fst (map (\<lambda>rid. (rid, p)) (rev rids) @ loose f))"
    by (simp add: core_ok_def loose_ok_def)
  then have "distinct (map fst (loose ?g))" by (simp add: comp_def)
  then have "core_ok b ?g" by (intro core_ok_cong [OF c]) auto
  moreover have "closing_ok ?g"
  proof (rule closing_ok_update [OF cl, of p])
    fix c
    assume "closing ?g p = Some c"
    then have "c = Some rids" by simp
    moreover have "set rids = {rid. (rid, p) \<in> set (loose ?g)}" using i(3) by force
    ultimately show "\<exists>i. infos (shared ?g) p = Some i \<and> closing_entry c p (loose ?g) i"
      using d(1) i(2) removed_fields [of rids i] removed_all [OF sorted]
      by (simp add: closing_entry_def s' rids)
  qed (auto simp: s')
  ultimately show ?thesis by (simp add: threads_ok_def core_ok_def)
qed

lemma threads_ok_close_erase:
  assumes ok: "threads_ok b f" and p: "closing f p = Some (Some rids)"
    and step: "cleanup_erase p rids (shared f) = Some s'"
  shows "threads_ok b (f\<lparr>shared := s', loose := filter (\<lambda>e. snd e \<noteq> p) (loose f),
    closing := (closing f)(p := None)\<rparr>)"
proof -
  let ?g = "f\<lparr>shared := s', loose := filter (\<lambda>e. snd e \<noteq> p) (loose f), closing := (closing f)(p := None)\<rparr>"
  have s: "sched_ok b (at_rest f)" and l: "loose_ok f" and cl: "closing_ok f"
    using ok by (simp_all add: threads_ok_def)
  from closing_entry_of [OF cl p] obtain i where i: "infos (shared f) p = Some i"
    "process_state i = PROCESS_STATE_COMPLETED" "resources i = []" "distinct rids"
    "set rids = {rid. (rid, p) \<in> set (loose f)}" by (auto simp: closing_entry_def)
  have sorted: "map_sorted (rid_to_pid (shared f))" using l by (simp add: loose_ok_def)
  have own: "\<forall>rid \<in> set rids. map_of (rid_to_pid (shared f)) rid = Some (my_pid i)"
    using l i(1,5) loose_entry(1) [OF l] by fastforce
  have s': "s' = (shared f)\<lparr>rid_to_pid := fold map_erase rids (rid_to_pid (shared f)),
      all_processes := map_erase (my_pid i) (all_processes (shared f)),
      all_processes_entity := entity_remove (my_db_owner_id i) p (all_processes_entity (shared f)),
      infos := (infos (shared f))(p := None)\<rparr>"
    using step i(1) by (simp add: cleanup_erase_def release_fold [OF sorted i(4) own] Let_def)
  have keys: "a \<in> fst ` set (loose f) \<longleftrightarrow> a \<in> set rids \<or> a \<in> fst ` set (loose ?g)" for a
    using i(5) by force
  have "rid_to_pid (at_rest ?g) = rid_to_pid (at_rest f)"
    unfolding at_rest_def fold_map_erase
    by (simp add: s' fold_map_erase keys del: threads.select_convs threads.update_convs)
  then have "publish (my_pid i) PROCESS_STATE_COMPLETED (at_rest ?g) = without_process p i (at_rest f)"
    by (simp add: without_process_def i(3) map_keys_def) (simp add: at_rest_def seen_def publish_def s')
  moreover have "sched_ok b (without_process p i (at_rest f))"
    using i by (intro inv_without [OF s]) (auto simp: queued_def asleep_def)
  ultimately have "sched_ok b (at_rest ?g)" by (metis sched_ok_frame(1))
  moreover have "loose_ok ?g"
    unfolding loose_ok_def
  proof (intro conjI ballI)
    show "map_sorted (rid_to_pid (shared ?g))" using om.lookup_erase_all [OF sorted] by (simp add: s')
    show "distinct (map fst (loose ?g))" using l by (auto simp: loose_ok_def distinct_map_filter)
    fix e
    assume e: "e \<in> set (loose ?g)"
    obtain rid q where "e = (rid, q)" by (cases e)
    with e have q: "e = (rid, q)" "(rid, q) \<in> set (loose f)" "q \<noteq> p" by auto
    then obtain x where x: "infos (shared f) q = Some x"
      "map_of (rid_to_pid (shared f)) rid = Some (my_pid x)" using loose_entry(1) [OF l q(2)] by blast
    have "rid \<notin> set rids"
      using l q(2,3) unfolding i(5) by (auto simp: loose_ok_def dest: eq_key_imp_eq_value)
    then have "infos (shared ?g) q = Some x \<and> map_of (rid_to_pid (shared ?g)) rid = Some (my_pid x)"
      using x q(3) om.lookup_erase_all [OF sorted, of rids rid] by (simp add: s')
    then show "case e of (rid, q) \<Rightarrow> \<exists>i. infos (shared ?g) q = Some i
        \<and> map_of (rid_to_pid (shared ?g)) rid = Some (my_pid i)" unfolding q(1) by blast
  qed
  moreover have "closing_ok ?g"
    by (rule closing_ok_update [OF cl, of p]) (auto simp: s')
  ultimately show ?thesis by (simp add: threads_ok_def)
qed

lemma threads_step_ok: "thread_step b f g \<Longrightarrow> threads_ok b f \<Longrightarrow> threads_ok b g"
  by (induction rule: thread_step.induct)
    (simp_all only: threads_ok_shared threads_ok_wait threads_ok_pop_none threads_ok_pop_one
      threads_ok_mark threads_ok_add_begin threads_ok_store threads_ok_give_back
      threads_ok_remove_begin threads_ok_remove_rid threads_ok_close_take threads_ok_close_erase,
      rule threads_ok_close_begin)

lemma threads_reach_ok: "threads_reach b f \<Longrightarrow> threads_ok b f"
  by (induction rule: threads_reach.induct) (auto intro: threads_ok_new threads_step_ok)

subsection \<open>A process on its way through the parts\<close>

text \<open>
  One process is added and started; a thread passes the semaphore, pops it and marks it, and it
  goes to sleep.
\<close>

definition popped_process :: "db_id \<Rightarrow> (string, string) threads" where
  "popped_process owner = threads_new\<lparr>shared := (ready_process owner)\<lparr>semaphore := 0, run_queue := []\<rparr>,
     taken := [0]\<rparr>"

lemma threads_one: "threads_reach b (threads_new\<lparr>shared := one_process owner\<rparr>)"
proof -
  let ?s = "with_process 1 2 default_id owner sched_new :: (string, string) sched"
  have one: "add_process_announce 1 ?s = one_process owner"
    by (simp add: add_process_announce_def one_process_def)
  have "alloc_id [] max_pid 1 = Some (1, 2)"
    by (subst alloc_id.simps) (simp add: advance_id_def max_pid_def)
  then have "add_process_locked default_id owner True sched_new = Some (1, ?s)"
    by (simp add: add_process_locked_def with_process_def sched_new_def max_pid_def map_keys_def)
  then have "threads_reach b (threads_new\<lparr>shared := ?s\<rparr>)"
    by (intro threads_next [OF threads_init on_shared] lock_add) (simp add: threads_new_def)
  from threads_next [OF this on_shared [OF no_lock_announce [of _ _ _ 1]]] show ?thesis
    by (simp add: one)
qed

lemma threads_popped: "threads_reach b (popped_process owner)"
proof -
  let ?new = "threads_new :: (string, string) threads"
  let ?s = "(ready_process owner)\<lparr>semaphore := 0\<rparr>"
  have "shared_step b (closing (?new\<lparr>shared := one_process owner\<rparr>))
      (shared (?new\<lparr>shared := one_process owner\<rparr>)) (ready_process owner)"
    by (rule lock_start [where pid = 1 and r = True]) (simp add: start_first)
  from threads_next [OF threads_one on_shared [OF this]]
  have 1: "threads_reach b (?new\<lparr>shared := ready_process owner\<rparr>)" by simp
  have "wait_semaphore (shared (?new\<lparr>shared := ready_process owner\<rparr>)) = (True, ?s)"
    by (simp add: wait_semaphore_def ready_process_def)
  from threads_next [OF 1 get_permit [OF this]]
  have 2: "threads_reach b (?new\<lparr>shared := ?s, permits := 1\<rparr>)" by (simp add: threads_new_def)
  have "pop_run_queue (shared (?new\<lparr>shared := ?s, permits := 1\<rparr>)) = (Some 0, ?s\<lparr>run_queue := []\<rparr>)"
    by (simp add: pop_run_queue_def ready_process_def)
  from threads_next [OF 2 pop_one [OF _ this]] show ?thesis
    by (simp add: popped_process_def threads_new_def)
qed

lemma threads_sleeping: "threads_reach b (threads_new\<lparr>shared := sleeping_process owner\<rparr>)"
proof -
  let ?new = "threads_new :: (string, string) threads"
  have "mark_executing 0 (shared (popped_process owner)) = Some (False, running_process owner)"
    by (simp add: popped_process_def mark_executing_def ready_process_def running_process_def
        get_process_state_def set_process_state_def)
      (simp add: put_info_def one_process_def with_process_def publish_def sched_new_def)
  from threads_next [OF threads_popped mark [OF _ this]]
  have 1: "threads_reach b (?new\<lparr>shared := running_process owner\<rparr>)"
    by (simp add: popped_process_def threads_new_def)
  have "shared_step b (closing (?new\<lparr>shared := running_process owner\<rparr>))
      (shared (?new\<lparr>shared := running_process owner\<rparr>)) (sleeping_process owner)"
    by (rule lock_return [where p = 0 and i = "info_in PROCESS_STATE_EXECUTING owner"
        and st = PROCESS_STATUS_SLEEP and now = 0 and ms = 5]) (simp_all add: sleep_first)
  from threads_next [OF 1 on_shared [OF this]] show ?thesis by simp
qed

subsection \<open>Properties\<close>

text \<open>
  C11. However the threads are interleaved (each step being what a method does between taking
  and giving up a lock, or one operation on the semaphore or the lock-free queue), as long as
  nobody suspends a process that is being cleaned up and no resource of a process is added
  or removed during its cleanup: the table of processes and the table by owner list exactly
  the live processes; each ready or killed process is exactly once in the run queue or in the
  hands of a thread that popped it, and nothing else is; for every entry of the run queue
  there is a semaphore post or a thread that passed the semaphore and has not popped; and a
  resource identifier is in use exactly if it is that of a resource of a live process or of
  one that is just being added, removed or cleaned up, whose identifier then no resource has.
\<close>

theorem interleaved_scheduler_wf:
  assumes "threads_reach b f"
  shows "procs_ok (shared f) \<and> owners_ok (shared f)
    \<and> distinct (taken f @ run_queue (shared f))
    \<and> (\<forall>p. p \<in> set (taken f @ run_queue (shared f))
        \<longleftrightarrow> (\<exists>i. infos (shared f) p = Some i
              \<and> process_state i \<in> {PROCESS_STATE_READY, PROCESS_STATE_KILLED}))
    \<and> length (run_queue (shared f)) \<le> semaphore (shared f) + permits f
    \<and> (\<forall>rid pid. map_of (rid_to_pid (shared f)) rid = Some pid
        \<longleftrightarrow> (\<exists>p i. infos (shared f) p = Some i \<and> my_pid i = pid
              \<and> (map_of (resources i) rid \<noteq> None \<or> (rid, p) \<in> set (loose f))))
    \<and> (\<forall>(rid, q) \<in> set (loose f). \<forall>p i. infos (shared f) p = Some i
        \<longrightarrow> map_of (resources i) rid = None)"
proof -
  have s: "sched_ok b (at_rest f)" and l: "loose_ok f"
    using threads_reach_ok [OF assms] by (simp_all add: threads_ok_def)
  have procs: "procs_ok (at_rest f)" and rids: "rids_ok (at_rest f)" and queue: "queue_ok (at_rest f)"
    using s by (simp_all add: sched_ok_def tables_ok_def)
  have tables: "procs_ok (shared f) \<and> owners_ok (shared f)"
    using s by (simp add: sched_ok_def tables_defs)
  have in_use: "map_of (rid_to_pid (shared f)) rid = Some pid
      \<longleftrightarrow> (\<exists>p i. infos (shared f) p = Some i \<and> my_pid i = pid
            \<and> (map_of (resources i) rid \<noteq> None \<or> (rid, p) \<in> set (loose f)))" for rid pid
  proof (cases "rid \<in> fst ` set (loose f)")
    case True
    then obtain p where p: "(rid, p) \<in> set (loose f)" by force
    then have only: "(rid, q) \<in> set (loose f) \<longleftrightarrow> q = p" for q
      using l p by (auto simp: loose_ok_def dest: eq_key_imp_eq_value)
    obtain i where i: "infos (shared f) p = Some i" "map_of (rid_to_pid (shared f)) rid = Some (my_pid i)"
      using loose_entry(1) [OF l p] by blast
    have "(\<exists>q x. infos (shared f) q = Some x \<and> my_pid x = pid
        \<and> (map_of (resources x) rid \<noteq> None \<or> (rid, q) \<in> set (loose f))) \<longleftrightarrow> my_pid i = pid"
      using i(1) only loose_not_owned(2) [OF s l _ True] by (metis option.inject)
    then show ?thesis using i(2) by simp
  next
    case False
    then have "map_of (rid_to_pid (shared f)) rid = map_of (rid_to_pid (at_rest f)) rid"
      and "(rid, q) \<notin> set (loose f)" for q
      using free_rids(2) [OF l, of rid] by force+
    then show ?thesis using rids by (simp add: rids_ok_def)
  qed
  have "\<forall>(rid, q) \<in> set (loose f). \<forall>p i. infos (shared f) p = Some i \<longrightarrow> map_of (resources i) rid = None"
    using loose_not_owned(2) [OF s l] by force
  with tables queue in_use show ?thesis by (simp add: queue_ok_def queued_def)
qed

theorem interleaved_scheduler_wf_witness:
  "distinct (taken (popped_process (DbId 2 5)) @ run_queue (shared (popped_process (DbId 2 5))))
    \<and> taken (popped_process (DbId 2 5)) = [0] \<and> run_queue (shared (popped_process (DbId 2 5))) = []"
  using interleaved_scheduler_wf [OF threads_popped [of False "DbId 2 5"]]
  by (simp add: popped_process_def)

text \<open>
  C27. In every such interleaving in which, besides, nobody suspended a sleeping process, the
  loop over the timers ends at any time; the call for the next process, when it then runs
  undisturbed, returns; and every process that a thread has popped is still there when the
  thread marks it as executing, whatever the others did in between.
\<close>

theorem interleaved_next_returns:
  assumes "threads_reach True f"
  shows "(\<exists>u. wake_due now (shared f) = Some u)
    \<and> (\<exists>n s'. get_next_execute now (shared f) = Some (n, s'))
    \<and> (\<forall>p \<in> set (taken f). \<exists>k s'. mark_executing p (shared f) = Some (k, s'))"
proof -
  have s: "sched_ok True (at_rest f)" using threads_reach_ok [OF assms] by (simp add: threads_ok_def)
  then have "timer_ok (shared f)" by (simp add: sched_ok_def timer_ok_def)
  from wake_due_returns [OF this] obtain u where u: "wake_due now (shared f) = Some u" by blast
  let ?v = "seen (taken f) (permits f + length (taken f)) (rid_to_pid (at_rest f)) u"
  have "wake_due now (at_rest f) = Some ?v" using wake_seen [OF u] by (simp add: at_rest_def)
  from inv_wake [OF s this] have "queue_ok ?v" by (simp add: sched_ok_def)
  then have live: "\<exists>i. infos u p = Some i" if "p \<in> set (run_queue u)" for p
    using that by (auto simp: queue_ok_def)
  have "\<exists>n s'. get_next_execute now (shared f) = Some (n, s')"
  proof (cases "run_queue u")
    case (Cons p q)
    with live obtain i where "infos u p = Some i" by auto
    with Cons show ?thesis by (simp add: get_next_execute_def u Let_def)
  qed (simp add: get_next_execute_def u Let_def)
  moreover have "\<exists>k s'. mark_executing p (shared f) = Some (k, s')" if "p \<in> set (taken f)" for p
  proof -
    have "\<exists>i. infos (shared f) p = Some i"
      using s that unfolding sched_ok_def queue_ok_def by (metis UnI1 set_append at_rest_sel(1) at_rest_sel(4))
    then show ?thesis by (auto simp: mark_executing_def)
  qed
  ultimately show ?thesis using u by blast
qed

theorem interleaved_next_returns_witness:
  "\<exists>n s'. get_next_execute 7 (sleeping_process (DbId 2 5)) = Some (n, s')"
  using interleaved_next_returns [OF threads_sleeping [of True "DbId 2 5"]] by simp

end
