(* ===== verification/Utf8.thy ===== *)
theory Utf8
  imports Prelude
begin

unbundle bit_operations_syntax

text \<open>
  \<^verbatim>\<open>src/src/text/text_Utf8Tools.cpp\<close>: validity and size of UTF-8 text, the conversion
  between byte positions and character positions, splitting and limiting, and the conversion
  from and to extended ASCII.

  A string is its list of bytes, read as unsigned as the code casts them. Positions and sizes
  are natural numbers: they stay below the length of a string, which fits in a \<open>size_t\<close>.
  The overloads on \<open>std::string\<close> call those on pointer and length; the pointer is then never
  null.
\<close>

type_synonym bytes = "u8 list"

subsection \<open>Classes of bytes\<close>

definition PRINTABLE_ASCII_BEGIN :: u8 where "PRINTABLE_ASCII_BEGIN = 32"
definition PRINTABLE_ASCII_END :: u8 where "PRINTABLE_ASCII_END = 126"
definition REPLACEMENT_CHAR :: u32 where "REPLACEMENT_CHAR = 0xFFFD"
definition QUESTION_MARK :: u8 where "QUESTION_MARK = 63"

lemmas byte_constants = PRINTABLE_ASCII_BEGIN_def PRINTABLE_ASCII_END_def REPLACEMENT_CHAR_def
  QUESTION_MARK_def

definition lead2 :: "u8 \<Rightarrow> bool" where "lead2 c \<longleftrightarrow> c AND 0xE0 = 0xC0"
definition lead3 :: "u8 \<Rightarrow> bool" where "lead3 c \<longleftrightarrow> c AND 0xF0 = 0xE0"
definition lead4 :: "u8 \<Rightarrow> bool" where "lead4 c \<longleftrightarrow> c AND 0xF8 = 0xF0"
definition continues :: "u8 \<Rightarrow> bool" where "continues c \<longleftrightarrow> c AND 0xC0 = 0x80"

text \<open>How many bytes a character has by its first byte; none for a byte that starts none.\<close>

definition char_bytes :: "u8 \<Rightarrow> nat option" where
  "char_bytes c =
     (if c > PRINTABLE_ASCII_END then
        (if lead2 c then Some 2 else if lead3 c then Some 3 else if lead4 c then Some 4 else None)
      else Some 1)"

subsection \<open>Validity and size\<close>

text \<open>The loops, with the number of continuation bytes still expected.\<close>

fun utf8_valid_loop :: "nat \<Rightarrow> bytes \<Rightarrow> bool" where
  "utf8_valid_loop left [] = (left = 0)"
| "utf8_valid_loop left (c # cs) =
     (if left \<noteq> 0 then (if continues c then utf8_valid_loop (left - 1) cs else False)
      else if c < PRINTABLE_ASCII_BEGIN then False
      else if c > PRINTABLE_ASCII_END then
        (if lead2 c then utf8_valid_loop 1 cs
         else if lead3 c then utf8_valid_loop 2 cs
         else if lead4 c then utf8_valid_loop 3 cs
         else False)
      else utf8_valid_loop left cs)"

definition utf8_valid :: "bytes \<Rightarrow> bool" where
  "utf8_valid s = (if s = [] then True else utf8_valid_loop 0 s)"

fun utf8_size_loop :: "nat \<Rightarrow> nat \<Rightarrow> bytes \<Rightarrow> nat" where
  "utf8_size_loop n left [] = (if left \<noteq> 0 then 0 else n)"
| "utf8_size_loop n left (c # cs) =
     (if left \<noteq> 0 then (if continues c then utf8_size_loop n (left - 1) cs else 0)
      else if c < PRINTABLE_ASCII_BEGIN then 0
      else if c > PRINTABLE_ASCII_END then
        (if lead2 c then utf8_size_loop (n + 1) 1 cs
         else if lead3 c then utf8_size_loop (n + 1) 2 cs
         else if lead4 c then utf8_size_loop (n + 1) 3 cs
         else 0)
      else utf8_size_loop (n + 1) left cs)"

definition utf8_size :: "bytes \<Rightarrow> nat" where
  "utf8_size s = (if s = [] then 0 else utf8_size_loop 0 0 s)"

subsection \<open>Positions\<close>

text \<open>The loop of \<open>utf8_index_to_byte\<close>, with the characters still to pass; it answers with
  the byte position and what is left to pass.\<close>

primrec index_loop :: "nat \<Rightarrow> bytes \<Rightarrow> nat \<Rightarrow> nat \<times> nat" where
  "index_loop 0 s byte = (byte, 0)"
| "index_loop (Suc k) s byte =
     (if byte < length s then
        (case char_bytes (s ! byte) of None \<Rightarrow> (0, Suc k) | Some n \<Rightarrow> index_loop k s (byte + n))
      else (byte, Suc k))"

definition utf8_index_to_byte :: "bytes \<Rightarrow> nat \<Rightarrow> nat" where
  "utf8_index_to_byte s utf8_index =
     (if s = [] \<or> utf8_index = 0 then 0
      else case index_loop utf8_index s 0 of (byte, left) \<Rightarrow> if left \<noteq> 0 then 0 else byte)"

text \<open>The loop of \<open>utf8_byte_to_index\<close>: the byte position reached and the characters passed.\<close>

lemma char_bytes_pos: "char_bytes c = Some n \<Longrightarrow> 0 < n"
  by (auto simp: char_bytes_def split: if_splits)

function byte_loop :: "bytes \<Rightarrow> nat \<Rightarrow> nat \<Rightarrow> nat \<Rightarrow> nat \<times> nat" where
  "byte_loop s byte cur i =
     (if cur < length s \<and> cur < byte then
        (case char_bytes (s ! cur) of None \<Rightarrow> (cur, 0)
         | Some n \<Rightarrow> byte_loop s byte (cur + n) (i + 1))
      else (cur, i))"
  by pat_completeness auto
termination
  by (relation "measure (\<lambda>(s, byte, cur, i). byte - cur)") (auto dest: char_bytes_pos)

declare byte_loop.simps [simp del]

definition utf8_byte_to_index :: "bytes \<Rightarrow> nat \<Rightarrow> nat" where
  "utf8_byte_to_index s byte =
     (if s = [] \<or> byte = 0 then byte
      else case byte_loop s byte 0 0 of (cur, i) \<Rightarrow>
        if cur < byte then 0 else if cur > byte then i - 1 else i)"

subsection \<open>Characters, limits, splitting\<close>

text \<open>
  \<open>None\<close> when the code reads past the end of the string, which a string that ends inside a
  character makes it do. The byte after the last one is readable: it is the terminator.
\<close>

definition utf8_char_at :: "bytes \<Rightarrow> nat \<Rightarrow> bytes option" where
  "utf8_char_at s utf8_index =
     (if s = [] then Some []
      else let byte_index = utf8_index_to_byte s utf8_index; c_str = s @ [0] in
        if utf8_index \<noteq> 0 \<and> byte_index = 0 then Some []
        else if byte_index \<ge> length c_str then None
        else case char_bytes (c_str ! byte_index) of None \<Rightarrow> Some []
          | Some n \<Rightarrow> if byte_index + n > length c_str then None
                      else Some (take n (drop byte_index c_str)))"

definition utf8_chop_at_limit :: "bytes \<Rightarrow> nat \<Rightarrow> bytes option" where
  "utf8_chop_at_limit s limit =
     (if s = [] \<or> limit = 0 then Some []
      else let byte_index = utf8_index_to_byte s limit in
        if limit \<noteq> 0 \<and> byte_index = 0 then Some s
        else if byte_index > length s then None else Some (take byte_index s))"

definition utf8_chop_modify_at_limit :: "bytes \<Rightarrow> nat \<Rightarrow> bytes option" where
  "utf8_chop_modify_at_limit s limit =
     (let s = (if limit = 0 then [] else s);
          byte_index = utf8_index_to_byte s limit
      in if \<not> (limit \<noteq> 0 \<and> byte_index = 0)
         then (if byte_index > length s then None else Some (take byte_index s)) else Some s)"

definition utf8_split :: "bytes \<Rightarrow> nat \<Rightarrow> (bytes \<times> bytes) option" where
  "utf8_split s utf8_index =
     (if s = [] then Some ([], [])
      else if utf8_index = 0 then Some ([], s)
      else let byte_index = utf8_index_to_byte s utf8_index in
        if byte_index = 0 then Some (s, [])
        else if byte_index > length s then None
        else Some (take byte_index s, drop byte_index s))"

subsection \<open>Searching\<close>

lemma find_in: "find P xs = Some x \<Longrightarrow> x \<in> set xs \<and> P x"
  by (induction xs) (auto split: if_splits)

text \<open>\<open>memchr\<close> from a position, and \<open>memrchr\<close> in a prefix.\<close>

definition memchr_from :: "bytes \<Rightarrow> u8 \<Rightarrow> nat \<Rightarrow> nat option" where
  "memchr_from s c from = find (\<lambda>i. s ! i = c) [from..<length s]"

definition memrchr_in :: "bytes \<Rightarrow> u8 \<Rightarrow> nat \<Rightarrow> nat option" where
  "memrchr_in s c n = find (\<lambda>i. s ! i = c) (rev [0..<n])"

text \<open>
  \<open>memcmp\<close> at a position; \<open>None\<close> when the compared range passes the terminator of the string.
\<close>

definition same_at :: "bytes \<Rightarrow> bytes \<Rightarrow> nat \<Rightarrow> bool option" where
  "same_at s t i =
     (if i + length t > length s + 1 then None
      else Some (take (length t) (drop i (s @ [0])) = t))"

function find_loop :: "bytes \<Rightarrow> bytes \<Rightarrow> nat \<Rightarrow> nat option option" where
  "find_loop s t cur =
     (if cur \<le> length s - length t then
        (case memchr_from s (hd t) cur of None \<Rightarrow> Some None
         | Some i \<Rightarrow>
           if length t = 1 then Some (Some i)
           else case same_at s t i of None \<Rightarrow> None
             | Some True \<Rightarrow> Some (Some i)
             | Some False \<Rightarrow> find_loop s t (i + 1))
      else Some None)"
  by pat_completeness auto
termination
proof (relation "measure (\<lambda>(s, t, cur). Suc (length s - length t) - cur)", simp)
  fix s t :: bytes and cur i :: nat
  assume "cur \<le> length s - length t" and "memchr_from s (hd t) cur = Some i"
  then have "cur \<le> i" by (auto simp: memchr_from_def dest: find_in)
  with \<open>cur \<le> length s - length t\<close> show "((s, t, i + 1), s, t, cur)
      \<in> measure (\<lambda>(s, t, cur). Suc (length s - length t) - cur)" by simp
qed

declare find_loop.simps [simp del]

text \<open>No value when the search reads past the end of the string, \<open>Some None\<close> for \<open>npos\<close>.\<close>

definition utf8_find :: "bytes \<Rightarrow> bytes \<Rightarrow> nat \<Rightarrow> nat option option" where
  "utf8_find s t start =
     (if s = [] \<or> t = [] \<or> length t > length s then Some None
      else let start_byte_index = utf8_index_to_byte s start in
        if start \<noteq> 0 \<and> start_byte_index = 0 then Some None
        else map_option (map_option (utf8_byte_to_index s)) (find_loop s t start_byte_index))"

text \<open>The backward search: the position is decremented, and the loop ends below zero.\<close>

function find_last_loop :: "bytes \<Rightarrow> bytes \<Rightarrow> nat \<Rightarrow> nat option" where
  "find_last_loop s t cur =
     (case memrchr_in s (hd t) cur of None \<Rightarrow> None
      | Some i \<Rightarrow>
        if length t = 1 then Some i
        else if take (length t) (drop i s) = t then Some i
        else if i = 0 then None
        else find_last_loop s t (i - 1))"
  by pat_completeness auto
termination
proof (relation "measure (\<lambda>(s, t, cur). cur)", simp)
  fix s t :: bytes and cur i :: nat
  assume "memrchr_in s (hd t) cur = Some i"
  then have "i \<in> set (rev [0..<cur])" by (auto simp: memrchr_in_def dest: find_in)
  then show "((s, t, i - 1), s, t, cur) \<in> measure (\<lambda>(s, t, cur). cur)" by simp
qed

declare find_last_loop.simps [simp del]

definition utf8_find_last :: "bytes \<Rightarrow> bytes \<Rightarrow> nat option" where
  "utf8_find_last s t =
     (if s = [] \<or> t = [] \<or> length t > length s then None
      else map_option (utf8_byte_to_index s) (find_last_loop s t (length s - length t)))"

subsection \<open>Extended ASCII\<close>

text \<open>Six bits at a time, from the most significant; the bits left are a multiple of six.\<close>

fun continue_bytes :: "u32 \<Rightarrow> nat \<Rightarrow> bytes" where
  "continue_bytes data bits_left =
     (if bits_left = 0 then []
      else (0x80 OR (ucast (drop_bit (bits_left - 6) data) AND NOT 0xC0))
        # continue_bytes data (bits_left - 6))"

declare continue_bytes.simps [simp del]

definition convert_bits_to_utf8 :: "u32 \<Rightarrow> u8 \<Rightarrow> bytes" where
  "convert_bits_to_utf8 data bits =
     (if bits > 16 then (0xF0 OR ucast (drop_bit 18 data)) # continue_bytes data 18
      else if bits > 11 then (0xE0 OR ucast (drop_bit 12 data)) # continue_bytes data 12
      else if bits > 7 then (0xC0 OR ucast (drop_bit 6 data)) # continue_bytes data 6
      else [ucast data])"

definition convert_bits_to_extended :: "u8 \<Rightarrow> u8 \<Rightarrow> u8" where
  "convert_bits_to_extended first second =
     (if lead2 first \<and> continues second then
        (let data = push_bit 6 (ucast (first AND NOT 0xE0)) OR (ucast (second AND NOT 0xC0) :: u32)
         in if data \<le> 255 \<and> data \<ge> 160 then ucast data else QUESTION_MARK)
      else QUESTION_MARK)"

text \<open>The loops copy plain characters in batches: \<open>pending\<close> is what lies between the mark
  and the index, \<open>result\<close> what was written.\<close>

fun extended_loop :: "bytes \<Rightarrow> bytes \<Rightarrow> bytes \<Rightarrow> bytes" where
  "extended_loop pending result [] = result @ pending"
| "extended_loop pending result (c # cs) =
     (if c < PRINTABLE_ASCII_BEGIN then extended_loop [] (result @ pending @ [QUESTION_MARK]) cs
      else if c > PRINTABLE_ASCII_END then
        extended_loop [] (result @ pending
          @ (if c \<ge> 0xA0 \<and> c \<le> 0xFE then convert_bits_to_utf8 (ucast c) 8
             else convert_bits_to_utf8 REPLACEMENT_CHAR 16)) cs
      else extended_loop (pending @ [c]) result cs)"

definition convert_extended_to_utf8 :: "bytes \<Rightarrow> bytes" where
  "convert_extended_to_utf8 line = (if line = [] then [] else extended_loop [] [] line)"

fun skip_continuing :: "nat \<Rightarrow> bytes \<Rightarrow> bytes" where
  "skip_continuing 0 cs = cs"
| "skip_continuing n [] = []"
| "skip_continuing (Suc n) (c # cs) = (if continues c then skip_continuing n cs else c # cs)"

lemma length_skip_continuing: "length (skip_continuing n cs) \<le> length cs"
  by (induction n cs rule: skip_continuing.induct) auto

function utf8_loop :: "bytes \<Rightarrow> bytes \<Rightarrow> bytes \<Rightarrow> bytes" where
  "utf8_loop pending result [] = result @ pending"
| "utf8_loop pending result (c # cs) =
     (if c > PRINTABLE_ASCII_END then
        let result = result @ pending in
        if lead2 c then
          (case cs of [] \<Rightarrow> utf8_loop [] (result @ [QUESTION_MARK]) cs
           | d # ds \<Rightarrow>
             if continues d then utf8_loop [] (result @ [convert_bits_to_extended c d]) ds
             else utf8_loop [] (result @ [QUESTION_MARK]) cs)
        else if lead3 c then utf8_loop [] (result @ [QUESTION_MARK]) (skip_continuing 2 cs)
        else if lead4 c then utf8_loop [] (result @ [QUESTION_MARK]) (skip_continuing 3 cs)
        else utf8_loop [] (result @ [QUESTION_MARK]) cs
      else utf8_loop (pending @ [c]) result cs)"
  by pat_completeness auto
termination
  by (relation "measure (\<lambda>(pending, result, cs). length cs)")
    (auto simp: less_Suc_eq_le length_skip_continuing)

definition convert_utf8_to_extended :: "bytes \<Rightarrow> bytes" where
  "convert_utf8_to_extended line = (if line = [] then [] else utf8_loop [] [] line)"

subsection \<open>Sizes of strings\<close>

text \<open>\<open>text::utf8_size\<close> of a \<open>std::string\<close>, whose characters are bytes.\<close>

definition text_size :: "string \<Rightarrow> nat" where
  "text_size s = utf8_size (map of_char s)"

end
