(* ===== verification/EntityCore.thy ===== *)
theory EntityCore
  imports AccessList OrdMap Utf8 "HOL-Library.List_Lexorder" "HOL-Library.Char_ord"
begin

text \<open>
  \<open>dbtype::Entity\<close>, the root of everything in the database
  (\<^verbatim>\<open>src/src/dbtypes/dbtype_Entity.cpp\<close>): its attributes, the marks that say which fields
  changed, the journals of identifiers and flags added and removed, and who references it.

  What the listeners of changes are told is recorded in \<open>listener_calls\<close>. The parameter
  \<open>env\<close> holds the registered listeners, the clock and the configured limits. An operation
  that takes a lock token gets the Boolean \<open>has_lock\<close>, whether the token locks this entity.
\<close>

record entity_env =
  db_listeners :: "nat list"
  current_time :: nat
  limits_entity_name :: nat
  limits_string_size :: nat

type_synonym id_journal = "entity_field \<rightharpoonup> db_id set \<times> db_id set"
type_synonym flag_journal = "string set \<times> string set"

record entity_core =
  entity_type :: entity_type
  entity_id :: db_id
  entity_security :: security
  entity_instance :: u32
  entity_version :: u32
  entity_name :: string
  entity_note :: string
  entity_created_timestamp :: nat
  entity_updated_timestamp :: nat
  entity_accessed_timestamp :: nat
  entity_access_count :: u64
  entity_owner :: db_id
  entity_flags :: "string set"
  entity_references :: "(db_id \<times> entity_field set) list"
  entity_references_field :: "entity_field \<Rightarrow> db_id set option"
  entity_delete_batch_id :: u64
  entity_deleted_flag :: bool
  need_call_listener :: bool
  dirty_flag :: bool
  ignore_changes :: bool
  dirty_fields :: "entity_field set"
  diff_callback_fields :: "entity_field set"
  diff_flags_changed :: flag_journal
  diff_ids_changed :: id_journal
  listener_calls :: "(nat \<times> entity_field set \<times> flag_journal \<times> id_journal) list"

datatype flag_result = FLAGRC_success | FLAGRC_invalid | FLAGRC_set | FLAGRC_not_set | FLAGRC_lock_error

definition MAX_STRING_LENGTH :: nat where "MAX_STRING_LENGTH = 512"

subsection \<open>Listeners\<close>

definition register_change_listener :: "nat option \<Rightarrow> nat list \<Rightarrow> nat list" where
  "register_change_listener l ls = (case l of None \<Rightarrow> ls | Some p \<Rightarrow> ls @ [p])"

definition unregister_change_listener :: "nat option \<Rightarrow> nat list \<Rightarrow> nat list" where
  "unregister_change_listener l ls = (case l of None \<Rightarrow> ls | Some p \<Rightarrow> filter (\<lambda>q. q \<noteq> p) ls)"

definition notify_field_changed ::
    "entity_env \<Rightarrow> entity_field \<Rightarrow> 'a entity_core_scheme \<Rightarrow> 'a entity_core_scheme" where
  "notify_field_changed env f s =
     (if \<not> ignore_changes s \<and> db_listeners env \<noteq> []
      then s\<lparr>dirty_flag := True, dirty_fields := insert f (dirty_fields s),
             diff_callback_fields := insert f (diff_callback_fields s), need_call_listener := True\<rparr>
      else s)"

definition notify_db_listener :: "entity_env \<Rightarrow> 'a entity_core_scheme \<Rightarrow> 'a entity_core_scheme" where
  "notify_db_listener env s =
     (if need_call_listener s \<and> db_listeners env \<noteq> [] then
        let s = (if \<not> (card (dirty_fields s) \<le> 2 \<and> ENTITYFIELD_accessed_timestamp \<in> dirty_fields s)
              then s\<lparr>entity_updated_timestamp := current_time env,
                     diff_callback_fields := insert ENTITYFIELD_updated_timestamp (diff_callback_fields s),
                     dirty_fields := insert ENTITYFIELD_updated_timestamp (dirty_fields s)\<rparr>
              else s)
        in s\<lparr>listener_calls := listener_calls s @ map (\<lambda>l. (l, diff_callback_fields s,
                diff_flags_changed s, diff_ids_changed s)) (db_listeners env),
             need_call_listener := False, diff_callback_fields := {},
             diff_flags_changed := ({}, {}), diff_ids_changed := Map.empty\<rparr>
      else s)"

text \<open>The overloads without a token lock the entity, and notify when they unlock it.\<close>

definition auto_locked :: "entity_env \<Rightarrow> (bool \<Rightarrow> 'a entity_core_scheme \<Rightarrow> 'r \<times> 'a entity_core_scheme)
    \<Rightarrow> 'a entity_core_scheme \<Rightarrow> 'r \<times> 'a entity_core_scheme" where
  "auto_locked env op s = (case op True s of (r, s) \<Rightarrow> (r, notify_db_listener env s))"

subsection \<open>Journals\<close>

definition added_id :: "entity_field \<Rightarrow> db_id \<Rightarrow> 'a entity_core_scheme \<Rightarrow> 'a entity_core_scheme" where
  "added_id f i s =
     (let s = s\<lparr>dirty_flag := True\<rparr>; j = diff_ids_changed s in
      case j f of
        None \<Rightarrow> s\<lparr>diff_ids_changed := j(f \<mapsto> ({}, {i}))\<rparr>
      | Some (removed, added) \<Rightarrow>
          if i \<in> removed then s\<lparr>diff_ids_changed := j(f \<mapsto> (removed - {i}, added))\<rparr>
          else s\<lparr>diff_ids_changed := j(f \<mapsto> (removed, insert i added))\<rparr>)"

definition removed_id :: "entity_field \<Rightarrow> db_id \<Rightarrow> 'a entity_core_scheme \<Rightarrow> 'a entity_core_scheme" where
  "removed_id f i s =
     (let s = s\<lparr>dirty_flag := True\<rparr>; j = diff_ids_changed s in
      case j f of
        None \<Rightarrow> s\<lparr>diff_ids_changed := j(f \<mapsto> ({i}, {}))\<rparr>
      | Some (removed, added) \<Rightarrow>
          if i \<in> added then s\<lparr>diff_ids_changed := j(f \<mapsto> (removed, added - {i}))\<rparr>
          else s\<lparr>diff_ids_changed := j(f \<mapsto> (insert i removed, added))\<rparr>)"

definition set_single_id_field ::
    "entity_field \<Rightarrow> db_id \<Rightarrow> db_id \<Rightarrow> 'a entity_core_scheme \<Rightarrow> 'a entity_core_scheme" where
  "set_single_id_field f old new s =
     (let s = s\<lparr>dirty_flag := True\<rparr>; j = diff_ids_changed s in
      case j f of
        None \<Rightarrow> s\<lparr>diff_ids_changed := j(f \<mapsto> ({old}, {new}))\<rparr>
      | Some (removed, added) \<Rightarrow> s\<lparr>diff_ids_changed := j(f \<mapsto> (removed, {new}))\<rparr>)"

definition clear_id_journal :: "entity_field \<Rightarrow> 'a entity_core_scheme \<Rightarrow> 'a entity_core_scheme" where
  "clear_id_journal f s = s\<lparr>diff_ids_changed := (diff_ids_changed s)(f := None)\<rparr>"

definition added_flag :: "string \<Rightarrow> 'a entity_core_scheme \<Rightarrow> 'a entity_core_scheme" where
  "added_flag g s = s\<lparr>dirty_flag := True,
     diff_flags_changed := (fst (diff_flags_changed s) - {g}, insert g (snd (diff_flags_changed s)))\<rparr>"

definition removed_flag :: "string \<Rightarrow> 'a entity_core_scheme \<Rightarrow> 'a entity_core_scheme" where
  "removed_flag g s = s\<lparr>dirty_flag := True,
     diff_flags_changed := (insert g (fst (diff_flags_changed s)), snd (diff_flags_changed s) - {g})\<rparr>"

subsection \<open>Construction\<close>

definition blank_core :: entity_core where
  "blank_core = \<lparr>entity_type = ENTITYTYPE_entity, entity_id = default_id,
     entity_security = security_new EntitySecurity, entity_instance = 0, entity_version = 0,
     entity_name = [], entity_note = [], entity_created_timestamp = 0, entity_updated_timestamp = 0,
     entity_accessed_timestamp = 0, entity_access_count = 0, entity_owner = default_id,
     entity_flags = {}, entity_references = [], entity_references_field = (\<lambda>f. None),
     entity_delete_batch_id = 0, entity_deleted_flag = False, need_call_listener = False,
     dirty_flag = False, ignore_changes = True, dirty_fields = {}, diff_callback_fields = {},
     diff_flags_changed = ({}, {}), diff_ids_changed = Map.empty, listener_calls = []\<rparr>"

definition initial_fields :: "entity_field list" where
  "initial_fields = [ENTITYFIELD_type, ENTITYFIELD_id, ENTITYFIELD_version, ENTITYFIELD_instance,
     ENTITYFIELD_created_timestamp, ENTITYFIELD_updated_timestamp,
     ENTITYFIELD_accessed_timestamp, ENTITYFIELD_access_count]"

definition entity_new :: "entity_env \<Rightarrow> db_id \<Rightarrow> entity_core" where
  "entity_new env i =
     notify_db_listener env (fold (notify_field_changed env) initial_fields
       (blank_core\<lparr>entity_id := i, entity_created_timestamp := current_time env,
          entity_updated_timestamp := current_time env, entity_accessed_timestamp := current_time env,
          entity_access_count := 1, need_call_listener := True, ignore_changes := False\<rparr>))"

definition entity_make ::
    "entity_env \<Rightarrow> db_id \<Rightarrow> entity_type \<Rightarrow> u32 \<Rightarrow> u32 \<Rightarrow> bool \<Rightarrow> entity_core" where
  "entity_make env i ty version inst restoring =
     (let now = (if restoring then 0 else current_time env) in
      notify_db_listener env (fold (notify_field_changed env) initial_fields
       (blank_core\<lparr>entity_type := ty, entity_id := i, entity_instance := inst, entity_version := version,
          entity_created_timestamp := now, entity_updated_timestamp := now,
          entity_accessed_timestamp := now, entity_access_count := 1, ignore_changes := restoring\<rparr>)))"

definition restore_complete :: "'a entity_core_scheme \<Rightarrow> 'a entity_core_scheme" where
  "restore_complete s = s\<lparr>ignore_changes := False\<rparr>"

definition clear_dirty :: "bool \<Rightarrow> 'a entity_core_scheme \<Rightarrow> bool \<times> 'a entity_core_scheme" where
  "clear_dirty has_lock s =
     (if has_lock then (True, s\<lparr>dirty_flag := False, dirty_fields := {}\<rparr>) else (False, s))"

definition is_dirty :: "bool \<Rightarrow> 'a entity_core_scheme \<Rightarrow> bool" where
  "is_dirty has_lock s = (if has_lock then dirty_flag s else False)"

subsection \<open>Attributes\<close>

text \<open>These four only work while an entity is being restored; otherwise they write to the log.\<close>

definition set_entity_created_timestamp :: "nat \<Rightarrow> 'a entity_core_scheme \<Rightarrow> 'a entity_core_scheme" where
  "set_entity_created_timestamp t s = (if ignore_changes s then s\<lparr>entity_created_timestamp := t\<rparr> else s)"

definition set_entity_updated_timestamp :: "nat \<Rightarrow> 'a entity_core_scheme \<Rightarrow> 'a entity_core_scheme" where
  "set_entity_updated_timestamp t s = (if ignore_changes s then s\<lparr>entity_updated_timestamp := t\<rparr> else s)"

definition restore_accessed_timestamp :: "nat \<Rightarrow> 'a entity_core_scheme \<Rightarrow> 'a entity_core_scheme" where
  "restore_accessed_timestamp t s = (if ignore_changes s then s\<lparr>entity_accessed_timestamp := t\<rparr> else s)"

definition set_entity_access_count :: "u64 \<Rightarrow> 'a entity_core_scheme \<Rightarrow> 'a entity_core_scheme" where
  "set_entity_access_count n s = (if ignore_changes s then s\<lparr>entity_access_count := n\<rparr> else s)"

definition set_entity_flags :: "string set \<Rightarrow> 'a entity_core_scheme \<Rightarrow> 'a entity_core_scheme" where
  "set_entity_flags fs s = (if ignore_changes s then s\<lparr>entity_flags := fs\<rparr> else s)"

definition get_entity_name :: "bool \<Rightarrow> 'a entity_core_scheme \<Rightarrow> string" where
  "get_entity_name has_lock s = (if has_lock then entity_name s else [])"

definition set_entity_name ::
    "entity_env \<Rightarrow> string \<Rightarrow> bool \<Rightarrow> 'a entity_core_scheme \<Rightarrow> bool \<times> 'a entity_core_scheme" where
  "set_entity_name env n has_lock s =
     (if n = [] then (False, s)
      else if text_size n > limits_entity_name env then (False, s)
      else if has_lock then (True, notify_field_changed env ENTITYFIELD_name (s\<lparr>entity_name := n\<rparr>))
      else (False, s))"

definition get_entity_security :: "bool \<Rightarrow> 'a entity_core_scheme \<Rightarrow> security" where
  "get_entity_security has_lock s = (if has_lock then entity_security s else security_new EntitySecurity)"

definition set_entity_security ::
    "entity_env \<Rightarrow> security \<Rightarrow> bool \<Rightarrow> 'a entity_core_scheme \<Rightarrow> bool \<times> 'a entity_core_scheme" where
  "set_entity_security env sec has_lock s =
     (if has_lock then
        let changes = diff_ids (entity_security s) sec;
            s = notify_field_changed env ENTITYFIELD_security (s\<lparr>entity_security := sec\<rparr>);
            s = fold (removed_id ENTITYFIELD_security) (fst changes) s;
            s = fold (added_id ENTITYFIELD_security) (snd changes) s
        in (True, s)
      else (False, s))"

definition get_entity_note :: "bool \<Rightarrow> 'a entity_core_scheme \<Rightarrow> string" where
  "get_entity_note has_lock s = (if has_lock then entity_note s else [])"

definition set_entity_note ::
    "entity_env \<Rightarrow> string \<Rightarrow> bool \<Rightarrow> 'a entity_core_scheme \<Rightarrow> bool \<times> 'a entity_core_scheme" where
  "set_entity_note env n has_lock s =
     (if text_size n > limits_string_size env then (False, s)
      else if has_lock then
        (True, notify_field_changed env ENTITYFIELD_note (s\<lparr>entity_note := take MAX_STRING_LENGTH n\<rparr>))
      else (False, s))"

definition get_entity_updated_timestamp :: "entity_env \<Rightarrow> bool \<Rightarrow> 'a entity_core_scheme \<Rightarrow> nat" where
  "get_entity_updated_timestamp env has_lock s = (if has_lock then entity_updated_timestamp s else current_time env)"

definition get_entity_accessed_timestamp :: "entity_env \<Rightarrow> bool \<Rightarrow> 'a entity_core_scheme \<Rightarrow> nat" where
  "get_entity_accessed_timestamp env has_lock s = (if has_lock then entity_accessed_timestamp s else current_time env)"

definition set_entity_accessed_timestamp ::
    "entity_env \<Rightarrow> bool \<Rightarrow> 'a entity_core_scheme \<Rightarrow> bool \<times> 'a entity_core_scheme" where
  "set_entity_accessed_timestamp env has_lock s =
     (if has_lock then
        let s = notify_field_changed env ENTITYFIELD_accessed_timestamp
              (s\<lparr>entity_accessed_timestamp := current_time env\<rparr>);
            s = (if entity_access_count s < - 1
                 then s\<lparr>entity_access_count := entity_access_count s + 1\<rparr> else s)
        in (True, notify_field_changed env ENTITYFIELD_access_count s)
      else (False, s))"

definition get_entity_access_count :: "bool \<Rightarrow> 'a entity_core_scheme \<Rightarrow> u64" where
  "get_entity_access_count has_lock s = (if has_lock then entity_access_count s else 0)"

definition get_entity_owner :: "bool \<Rightarrow> 'a entity_core_scheme \<Rightarrow> db_id" where
  "get_entity_owner has_lock s = (if has_lock then entity_owner s else default_id)"

definition set_entity_owner ::
    "entity_env \<Rightarrow> db_id \<Rightarrow> bool \<Rightarrow> 'a entity_core_scheme \<Rightarrow> bool \<times> 'a entity_core_scheme" where
  "set_entity_owner env owner has_lock s =
     (if has_lock then
        (True, if entity_owner s \<noteq> owner
               then notify_field_changed env ENTITYFIELD_owner
                 ((set_single_id_field ENTITYFIELD_owner (entity_owner s) owner s)\<lparr>entity_owner := owner\<rparr>)
               else s)
      else (False, s))"

text \<open>The flag operations, as written: what \<open>add_entity_flag\<close> tests is that the flag is there.\<close>

definition add_entity_flag ::
    "entity_env \<Rightarrow> string \<Rightarrow> bool \<Rightarrow> 'a entity_core_scheme \<Rightarrow> flag_result \<times> 'a entity_core_scheme" where
  "add_entity_flag env g has_lock s =
     (if has_lock then
        (FLAGRC_success, if g \<in> entity_flags s
           then added_flag g (notify_field_changed env ENTITYFIELD_flags
                  (s\<lparr>entity_flags := insert g (entity_flags s)\<rparr>))
           else s)
      else (FLAGRC_lock_error, s))"

definition remove_entity_flag ::
    "entity_env \<Rightarrow> string \<Rightarrow> bool \<Rightarrow> 'a entity_core_scheme \<Rightarrow> flag_result \<times> 'a entity_core_scheme" where
  "remove_entity_flag env g has_lock s =
     (if has_lock then
        (FLAGRC_success, if g \<in> entity_flags s
           then removed_flag g (notify_field_changed env ENTITYFIELD_flags
                  (s\<lparr>entity_flags := entity_flags s - {g}\<rparr>))
           else s)
      else (FLAGRC_lock_error, s))"

definition check_entity_flag ::
    "entity_env \<Rightarrow> string \<Rightarrow> bool \<Rightarrow> 'a entity_core_scheme \<Rightarrow> flag_result \<times> 'a entity_core_scheme" where
  "check_entity_flag env g has_lock s =
     (if has_lock then
        let s = (if g \<in> entity_flags s
           then removed_flag g (notify_field_changed env ENTITYFIELD_flags
                  (s\<lparr>entity_flags := entity_flags s - {g}\<rparr>))
           else s)
        in (if g \<notin> entity_flags s then FLAGRC_not_set else FLAGRC_set, s)
      else (FLAGRC_lock_error, s))"

definition get_entity_flags :: "bool \<Rightarrow> 'a entity_core_scheme \<Rightarrow> string set" where
  "get_entity_flags has_lock s = (if has_lock then entity_flags s else {})"

definition get_delete_batch_id :: "bool \<Rightarrow> 'a entity_core_scheme \<Rightarrow> u64" where
  "get_delete_batch_id has_lock s = (if has_lock then entity_delete_batch_id s else 0)"

definition set_delete_batch_id ::
    "entity_env \<Rightarrow> u64 \<Rightarrow> bool \<Rightarrow> 'a entity_core_scheme \<Rightarrow> bool \<times> 'a entity_core_scheme" where
  "set_delete_batch_id env b has_lock s =
     (if has_lock then (True, notify_field_changed env ENTITYFIELD_delete_batch_id
        (s\<lparr>entity_delete_batch_id := b\<rparr>)) else (False, s))"

definition get_deleted_flag :: "bool \<Rightarrow> 'a entity_core_scheme \<Rightarrow> bool" where
  "get_deleted_flag has_lock s = (if has_lock then entity_deleted_flag s else False)"

definition set_deleted_flag ::
    "entity_env \<Rightarrow> bool \<Rightarrow> bool \<Rightarrow> 'a entity_core_scheme \<Rightarrow> bool \<times> 'a entity_core_scheme" where
  "set_deleted_flag env b has_lock s =
     (if has_lock then (True, notify_field_changed env ENTITYFIELD_deleted_flag
        (s\<lparr>entity_deleted_flag := b\<rparr>)) else (False, s))"

subsection \<open>Who references the entity\<close>

text \<open>
  Two indexes: from the referencing entity to its fields (a \<open>std::map\<close>), and from a field to
  the referencing entities (an array of pointers to sets, null when empty). A set of
  identifiers is iterated in their order.
\<close>

definition field_in_range :: "entity_field \<Rightarrow> bool" where
  "field_in_range f \<longleftrightarrow> f \<noteq> ENTITYFIELD_END \<and> f \<noteq> ENTITYFIELD_BEGIN"

definition index_ids :: "'a entity_core_scheme \<Rightarrow> entity_field \<Rightarrow> db_id set" where
  "index_ids s f = (case entity_references_field s f of None \<Rightarrow> {} | Some ids \<Rightarrow> ids)"

definition index_insert :: "entity_field \<Rightarrow> db_id \<Rightarrow> (entity_field \<Rightarrow> db_id set option)
    \<Rightarrow> entity_field \<Rightarrow> db_id set option" where
  "index_insert f i ix = ix(f := Some (insert i (case ix f of None \<Rightarrow> {} | Some ids \<Rightarrow> ids)))"

definition index_erase :: "entity_field \<Rightarrow> db_id \<Rightarrow> (entity_field \<Rightarrow> db_id set option)
    \<Rightarrow> entity_field \<Rightarrow> db_id set option" where
  "index_erase f i ix = (case ix f of None \<Rightarrow> ix
     | Some ids \<Rightarrow> ix(f := (if ids - {i} = {} then None else Some (ids - {i}))))"

definition add_entity_reference ::
    "entity_env \<Rightarrow> db_id \<Rightarrow> entity_field \<Rightarrow> bool \<Rightarrow> 'a entity_core_scheme
      \<Rightarrow> bool \<times> 'a entity_core_scheme" where
  "add_entity_reference env i f has_lock s =
     (if \<not> field_in_range f then (False, s)
      else if has_lock then
        let fields = (case map_of (entity_references s) i of None \<Rightarrow> {} | Some fs \<Rightarrow> fs);
            s = s\<lparr>entity_references := map_put i (insert f fields) (entity_references s),
                  entity_references_field := index_insert f i (entity_references_field s)\<rparr>
        in (True, notify_field_changed env ENTITYFIELD_references s)
      else (False, s))"

definition remove_entity_reference ::
    "entity_env \<Rightarrow> db_id \<Rightarrow> entity_field \<Rightarrow> bool \<Rightarrow> 'a entity_core_scheme
      \<Rightarrow> bool \<times> 'a entity_core_scheme" where
  "remove_entity_reference env i f has_lock s =
     (if \<not> field_in_range f then (False, s)
      else if has_lock then
        let s = (case map_of (entity_references s) i of None \<Rightarrow> s
              | Some fs \<Rightarrow>
                  if fs - {f} = {} then s\<lparr>entity_references := map_erase i (entity_references s)\<rparr>
                  else s\<lparr>entity_references := map_put i (fs - {f}) (entity_references s)\<rparr>);
            s = s\<lparr>entity_references_field := index_erase f i (entity_references_field s)\<rparr>
        in (True, notify_field_changed env ENTITYFIELD_references s)
      else (False, s))"

definition remove_entity_references_of ::
    "entity_env \<Rightarrow> db_id \<Rightarrow> bool \<Rightarrow> 'a entity_core_scheme \<Rightarrow> bool \<times> 'a entity_core_scheme" where
  "remove_entity_references_of env i has_lock s =
     (if has_lock then
        (True, case map_of (entity_references s) i of None \<Rightarrow> s
          | Some fs \<Rightarrow>
              notify_field_changed env ENTITYFIELD_references
                (s\<lparr>entity_references_field :=
                     (\<lambda>f. if f \<in> fs then index_erase f i (entity_references_field s) f
                          else entity_references_field s f),
                   entity_references := map_erase i (entity_references s)\<rparr>))
      else (False, s))"

definition get_field_references :: "db_id \<Rightarrow> bool \<Rightarrow> 'a entity_core_scheme \<Rightarrow> entity_field set" where
  "get_field_references i has_lock s =
     (if has_lock then (case map_of (entity_references s) i of None \<Rightarrow> {} | Some fs \<Rightarrow> fs) else {})"

definition get_reference_ids :: "bool \<Rightarrow> 'a entity_core_scheme \<Rightarrow> db_id set" where
  "get_reference_ids has_lock s = (if has_lock then set (map_keys (entity_references s)) else {})"

definition get_all_references :: "bool \<Rightarrow> 'a entity_core_scheme \<Rightarrow> (db_id \<times> entity_field set) list" where
  "get_all_references has_lock s = (if has_lock then entity_references s else [])"

definition get_first_reference :: "bool \<Rightarrow> 'a entity_core_scheme \<Rightarrow> db_id" where
  "get_first_reference has_lock s =
     (if has_lock \<and> entity_references s \<noteq> [] then fst (hd (entity_references s)) else default_id)"

definition get_last_reference :: "bool \<Rightarrow> 'a entity_core_scheme \<Rightarrow> db_id" where
  "get_last_reference has_lock s =
     (if has_lock \<and> entity_references s \<noteq> [] then fst (last (entity_references s)) else default_id)"

definition get_next_reference :: "db_id \<Rightarrow> bool \<Rightarrow> 'a entity_core_scheme \<Rightarrow> db_id" where
  "get_next_reference i has_lock s =
     (if has_lock then (case key_after i (map_keys (entity_references s)) of None \<Rightarrow> default_id
        | Some k \<Rightarrow> k) else default_id)"

definition get_reference_ids_field :: "entity_field \<Rightarrow> bool \<Rightarrow> 'a entity_core_scheme \<Rightarrow> db_id list" where
  "get_reference_ids_field f has_lock s =
     (if \<not> field_in_range f then [] else if has_lock then sorted_list_of_set (index_ids s f) else [])"

definition get_reference_ids_append ::
    "entity_field \<Rightarrow> db_id list \<Rightarrow> bool \<Rightarrow> 'a entity_core_scheme \<Rightarrow> bool \<times> db_id list" where
  "get_reference_ids_append f ids has_lock s =
     (if \<not> field_in_range f then (False, ids)
      else if has_lock then
        (if index_ids s f \<noteq> {} then (True, ids @ sorted_list_of_set (index_ids s f)) else (False, ids))
      else (False, ids))"

definition get_first_reference_field :: "entity_field \<Rightarrow> bool \<Rightarrow> 'a entity_core_scheme \<Rightarrow> db_id" where
  "get_first_reference_field f has_lock s =
     (if field_in_range f \<and> has_lock \<and> index_ids s f \<noteq> {} then Min (index_ids s f) else default_id)"

definition get_next_reference_field :: "entity_field \<Rightarrow> db_id \<Rightarrow> bool \<Rightarrow> 'a entity_core_scheme \<Rightarrow> db_id" where
  "get_next_reference_field f i has_lock s =
     (if field_in_range f \<and> has_lock then
        (case key_after i (sorted_list_of_set (index_ids s f)) of None \<Rightarrow> default_id | Some k \<Rightarrow> k)
      else default_id)"

definition get_last_reference_field :: "entity_field \<Rightarrow> bool \<Rightarrow> 'a entity_core_scheme \<Rightarrow> db_id" where
  "get_last_reference_field f has_lock s =
     (if field_in_range f \<and> has_lock \<and> index_ids s f \<noteq> {} then Max (index_ids s f) else default_id)"

definition clear_entity_references_field :: "'a entity_core_scheme \<Rightarrow> 'a entity_core_scheme" where
  "clear_entity_references_field s = s\<lparr>entity_references_field := (\<lambda>f. None)\<rparr>"

definition populate_entity_references_field :: "'a entity_core_scheme \<Rightarrow> 'a entity_core_scheme" where
  "populate_entity_references_field s =
     (let s = clear_entity_references_field s
      in s\<lparr>entity_references_field := fold (\<lambda>(i, fs) ix f. if f \<in> fs then index_insert f i ix f else ix f)
             (entity_references s) (entity_references_field s)\<rparr>)"

definition clear_all_references ::
    "entity_env \<Rightarrow> bool \<Rightarrow> 'a entity_core_scheme \<Rightarrow> bool \<times> 'a entity_core_scheme" where
  "clear_all_references env has_lock s =
     (if has_lock then
        (True, notify_field_changed env ENTITYFIELD_references
           (clear_entity_references_field (s\<lparr>entity_references := []\<rparr>)))
      else (False, s))"

subsection \<open>Copying\<close>

text \<open>The attributes that any copy gets, and the marks and journals of the copy.\<close>

definition copy_attributes :: "entity_env \<Rightarrow> 'a entity_core_scheme \<Rightarrow> 'b entity_core_scheme \<Rightarrow> 'b entity_core_scheme" where
  "copy_attributes env s c =
     (let note = notify_field_changed env;
          c = note ENTITYFIELD_name (c\<lparr>entity_name := entity_name s\<rparr>);
          c = note ENTITYFIELD_note (c\<lparr>entity_note := entity_note s\<rparr>);
          c = note ENTITYFIELD_security (c\<lparr>entity_security := entity_security s\<rparr>);
          c = fold (added_id ENTITYFIELD_security) (admin_ids (entity_security s)) c;
          c = fold (added_id ENTITYFIELD_security) (list_ids (entity_security s)) c;
          c = note ENTITYFIELD_created_timestamp (c\<lparr>entity_created_timestamp := current_time env\<rparr>);
          c = note ENTITYFIELD_updated_timestamp
                (c\<lparr>entity_updated_timestamp := entity_created_timestamp c\<rparr>);
          c = note ENTITYFIELD_accessed_timestamp
                (c\<lparr>entity_accessed_timestamp := entity_created_timestamp c\<rparr>);
          c = note ENTITYFIELD_access_count (c\<lparr>entity_access_count := 0\<rparr>);
          c = added_id ENTITYFIELD_owner (entity_owner c) c;
          c = note ENTITYFIELD_owner (c\<lparr>entity_owner := entity_owner s\<rparr>);
          c = added_id ENTITYFIELD_owner (entity_owner s) c;
          c = note ENTITYFIELD_flags (c\<lparr>entity_flags := entity_flags s\<rparr>)
      in if entity_flags s = {} then c else c\<lparr>dirty_flag := True, diff_flags_changed :=
           (fst (diff_flags_changed c) - entity_flags s, snd (diff_flags_changed c) \<union> entity_flags s)\<rparr>)"

text \<open>
  \<open>copy_fields\<close> with the entity copied from and the copy, both of which it changes: the
  deletion marks are copied, but the source is told that they changed.
\<close>

definition copy_fields ::
    "entity_env \<Rightarrow> 'a entity_core_scheme \<Rightarrow> 'b entity_core_scheme
      \<Rightarrow> 'a entity_core_scheme \<times> 'b entity_core_scheme" where
  "copy_fields env s c =
     (let c = copy_attributes env s c;
         (s, c) = (if entity_id s = entity_id c then
             let c = notify_field_changed env ENTITYFIELD_references (populate_entity_references_field
                       (c\<lparr>entity_references := entity_references s\<rparr>));
                 (s, c) = (if entity_delete_batch_id s \<noteq> 0
                   then (notify_field_changed env ENTITYFIELD_delete_batch_id s,
                     c\<lparr>entity_delete_batch_id := entity_delete_batch_id s\<rparr>)
                   else (s, c))
             in (if entity_deleted_flag s
                 then (notify_field_changed env ENTITYFIELD_deleted_flag s, c\<lparr>entity_deleted_flag := True\<rparr>)
                 else (s, c))
           else (s, c))
      in (s, notify_db_listener env c))"

definition entity_clone ::
    "entity_env \<Rightarrow> db_id \<Rightarrow> u32 \<Rightarrow> u32 \<Rightarrow> bool \<Rightarrow> 'a entity_core_scheme
      \<Rightarrow> entity_core option \<times> 'a entity_core_scheme" where
  "entity_clone env i version inst has_lock s =
     (if has_lock then
        case copy_fields env s (entity_make env i ENTITYTYPE_entity version inst False) of
          (s, c) \<Rightarrow> (Some c, s)
      else (None, s))"

end
