(* ===== verification/OrdSet.thy ===== *)
theory OrdSet
  imports Prelude
begin

text \<open>
  \<open>std::set\<close> with a comparator of the program's own: a list in the order of the comparator.
  \<open>ord_find\<close> is what \<open>find\<close> does, the first element that is not below the one sought, unless
  that one is below it. What the container promises rests on the comparator being a strict
  linear order on the elements, which is the locale \<open>comparator\<close>; for one that is not, the
  standard leaves the behaviour of the container undefined, and these definitions are one of
  the things it may do.
\<close>

fun ord_insert :: "('a \<Rightarrow> 'a \<Rightarrow> bool) \<Rightarrow> 'a \<Rightarrow> 'a list \<Rightarrow> 'a list" where
  "ord_insert lt x [] = [x]"
| "ord_insert lt x (y # ys) =
     (if lt y x then y # ord_insert lt x ys else if lt x y then x # y # ys else y # ys)"

fun ord_find :: "('a \<Rightarrow> 'a \<Rightarrow> bool) \<Rightarrow> 'a \<Rightarrow> 'a list \<Rightarrow> 'a option" where
  "ord_find lt x [] = None"
| "ord_find lt x (y # ys) =
     (if lt y x then ord_find lt x ys else if lt x y then None else Some y)"

fun ord_erase :: "('a \<Rightarrow> 'a \<Rightarrow> bool) \<Rightarrow> 'a \<Rightarrow> 'a list \<Rightarrow> 'a list" where
  "ord_erase lt x [] = []"
| "ord_erase lt x (y # ys) =
     (if lt y x then y # ord_erase lt x ys else if lt x y then y # ys else ys)"

text \<open>The element behind, and before, the one found.\<close>

fun ord_next :: "('a \<Rightarrow> 'a \<Rightarrow> bool) \<Rightarrow> 'a \<Rightarrow> 'a list \<Rightarrow> 'a option" where
  "ord_next lt x [] = None"
| "ord_next lt x (y # ys) =
     (if lt y x then ord_next lt x ys
      else if lt x y then None else (case ys of [] \<Rightarrow> None | z # zs \<Rightarrow> Some z))"

fun ord_previous :: "('a \<Rightarrow> 'a \<Rightarrow> bool) \<Rightarrow> 'a \<Rightarrow> 'a list \<Rightarrow> 'a option" where
  "ord_previous lt x (y # z # zs) =
     (if \<not> lt y x then None
      else if lt z x then ord_previous lt x (z # zs)
      else if lt x z then None else Some y)"
| "ord_previous lt x ys = None"

locale comparator =
  fixes lt :: "'a \<Rightarrow> 'a \<Rightarrow> bool" and carrier :: "'a set"
  assumes irrefl: "x \<in> carrier \<Longrightarrow> \<not> lt x x"
    and trans: "x \<in> carrier \<Longrightarrow> y \<in> carrier \<Longrightarrow> z \<in> carrier \<Longrightarrow> lt x y \<Longrightarrow> lt y z \<Longrightarrow> lt x z"
    and total: "x \<in> carrier \<Longrightarrow> y \<in> carrier \<Longrightarrow> lt x y \<or> x = y \<or> lt y x"
begin

lemma asym: "x \<in> carrier \<Longrightarrow> y \<in> carrier \<Longrightarrow> lt x y \<Longrightarrow> \<not> lt y x"
  using irrefl trans by blast

lemma set_insert_below: "set (ord_insert lt x xs) \<subseteq> insert x (set xs)"
  by (induction xs) auto

lemma set_insert:
  "x \<in> carrier \<Longrightarrow> set xs \<subseteq> carrier \<Longrightarrow> set (ord_insert lt x xs) = insert x (set xs)"
proof (induction xs)
  case (Cons y ys)
  then show ?case using total [of x y] by auto
qed simp

lemma sorted_insert:
  "x \<in> carrier \<Longrightarrow> set xs \<subseteq> carrier \<Longrightarrow> sorted_wrt lt xs \<Longrightarrow> sorted_wrt lt (ord_insert lt x xs)"
proof (induction xs)
  case (Cons y ys)
  have ys: "set ys \<subseteq> carrier" "y \<in> carrier" using Cons.prems(2) by simp_all
  have "\<forall>z \<in> set ys. lt x z" if "lt x y"
    using Cons.prems that ys trans [of x y] by (metis in_mono sorted_wrt.simps(2))
  moreover have "\<forall>z \<in> set (ord_insert lt x ys). lt y z" if "lt y x"
    using Cons.prems(1,3) that set_insert [OF Cons.prems(1) ys(1)] by auto
  ultimately show ?case using Cons.IH [OF Cons.prems(1) ys(1)] Cons.prems(3) by auto
qed simp

lemma find_exact:
  "x \<in> carrier \<Longrightarrow> set xs \<subseteq> carrier \<Longrightarrow> sorted_wrt lt xs
    \<Longrightarrow> ord_find lt x xs = (if x \<in> set xs then Some x else None)"
proof (induction xs)
  case (Cons y ys)
  then have y: "y \<in> carrier" by simp
  from Cons.prems consider "lt y x" "x \<noteq> y" | "x = y" | "lt x y" "x \<noteq> y"
    using total [OF Cons.prems(1) y] irrefl by blast
  then show ?case
  proof cases
    case 1
    then show ?thesis using Cons by simp
  next
    case 2
    then show ?thesis using irrefl [OF Cons.prems(1)] by simp
  next
    case 3
    then have "x \<notin> set ys" using Cons.prems y asym by (auto simp: irrefl)
    then show ?thesis using 3 asym [OF Cons.prems(1) y] by simp
  qed
qed simp

lemma set_erase:
  "x \<in> carrier \<Longrightarrow> set xs \<subseteq> carrier \<Longrightarrow> sorted_wrt lt xs \<Longrightarrow> set (ord_erase lt x xs) = set xs - {x}"
proof (induction xs)
  case (Cons y ys)
  then have y: "y \<in> carrier" by simp
  have rest: "z \<in> set ys \<Longrightarrow> lt y z" "z \<in> set ys \<Longrightarrow> z \<in> carrier" for z using Cons.prems by auto
  from Cons.prems consider "lt y x" "x \<noteq> y" | "x = y" | "lt x y" "x \<noteq> y"
    using total [OF Cons.prems(1) y] irrefl by blast
  then show ?case
  proof cases
    case 1
    then show ?thesis using Cons by auto
  next
    case 2
    then have "x \<notin> set ys" using rest irrefl [OF Cons.prems(1)] by blast
    then show ?thesis using 2 irrefl [OF Cons.prems(1)] by simp
  next
    case 3
    then have "x \<notin> set ys" using rest asym [OF y Cons.prems(1)] by blast
    then show ?thesis using 3 asym [OF Cons.prems(1) y] by simp
  qed
qed simp

lemma erase_subset: "set (ord_erase lt x xs) \<subseteq> set xs"
  by (induction xs) auto

lemma sorted_erase: "sorted_wrt lt xs \<Longrightarrow> sorted_wrt lt (ord_erase lt x xs)"
  using erase_subset by (induction xs) (auto dest: subsetD)

lemma distinct_sorted: "set xs \<subseteq> carrier \<Longrightarrow> sorted_wrt lt xs \<Longrightarrow> distinct xs"
  by (induction xs) (auto dest: irrefl)

lemma length_sorted: "set xs \<subseteq> carrier \<Longrightarrow> sorted_wrt lt xs \<Longrightarrow> length xs = card (set xs)"
  by (simp add: distinct_sorted distinct_card)

text \<open>Walking: from the element at a position to the one at the next.\<close>

lemma next_nth:
  "set xs \<subseteq> carrier \<Longrightarrow> sorted_wrt lt xs \<Longrightarrow> i < length xs
    \<Longrightarrow> ord_next lt (xs ! i) xs = (if Suc i < length xs then Some (xs ! Suc i) else None)"
proof (induction xs arbitrary: i)
  case (Cons y ys)
  show ?case
  proof (cases i)
    case 0
    have "\<not> lt y y" using Cons.prems(1) irrefl by simp
    then show ?thesis using 0 by (cases ys) simp_all
  next
    case (Suc j)
    then have "lt y (ys ! j)" using Cons.prems by simp
    then show ?thesis using Cons Suc by simp
  qed
qed simp

lemma previous_nth:
  "set xs \<subseteq> carrier \<Longrightarrow> sorted_wrt lt xs \<Longrightarrow> i < length xs
    \<Longrightarrow> ord_previous lt (xs ! i) xs = (case i of 0 \<Rightarrow> None | Suc j \<Rightarrow> Some (xs ! j))"
proof (induction xs arbitrary: i rule: induct_list012)
  case (2 x)
  then show ?case by simp
next
  case (3 x y zs)
  have own: "\<not> lt x x" "\<not> lt y y" using 3(3) irrefl by simp_all
  show ?case
  proof (cases i)
    case 0
    then show ?thesis using own by simp
  next
    case (Suc j)
    then have below: "lt x ((y # zs) ! j)" using 3(4,5) by (cases j) auto
    show ?thesis
    proof (cases j)
      case 0
      then show ?thesis using Suc below own by simp
    next
      case (Suc k)
      then have "lt y ((y # zs) ! j)" using 3(4,5) \<open>i = Suc j\<close> by simp
      then show ?thesis using 3(2) [of j] 3(3-5) below Suc \<open>i = Suc j\<close> by simp
    qed
  qed
qed simp

lemma next_missing:
  "x \<in> carrier \<Longrightarrow> set xs \<subseteq> carrier \<Longrightarrow> x \<notin> set xs \<Longrightarrow> ord_next lt x xs = None"
proof (induction xs)
  case (Cons y ys)
  then show ?case using total [of x y] by auto
qed simp

text \<open>Inserting the elements of such a list, from the first to the last, gives it again.\<close>

lemma insert_last:
  "\<forall>y \<in> set xs. lt y x \<Longrightarrow> ord_insert lt x xs = xs @ [x]"
  by (induction xs) auto

lemma insert_all: "sorted_wrt lt (ys @ xs) \<Longrightarrow> fold (ord_insert lt) xs ys = ys @ xs"
proof (induction xs arbitrary: ys)
  case (Cons x xs)
  have "ord_insert lt x ys = ys @ [x]"
    using Cons.prems by (intro insert_last) (auto simp: sorted_wrt_append)
  then show ?case using Cons.IH [of "ys @ [x]"] Cons.prems by simp
qed simp

end

end
