(* ===== verification/PropDir.thy ===== *)
theory PropDir
  imports OrdMap PathNames Utf8 "HOL-Library.List_Lexorder" "HOL-Library.Char_ord"
begin

text \<open>
  \<^verbatim>\<open>src/src/dbtypes/dbtype_PropertyDirectory.cpp\<close>: a tree of named properties, each with
  data, a subdirectory, or both, and in every directory a cache of the entry that was accessed
  last. A null pointer is \<open>None\<close>. The cache is the pair of a pointer to the key of an entry and
  a pointer to the entry; it is modelled by the key, and the pointer to the entry is the entry
  with that key.

  Trimming and splitting of paths are \<open>boost::trim_copy\<close> and \<open>boost::tokenizer\<close>, which are
  not part of the repository: they are fields of \<open>path_lib\<close>, as is the configured length limit.
\<close>

record path_lib =
  trim_copy :: "string \<Rightarrow> string"
  tokenize :: "string \<Rightarrow> string list"
  limits_property_name :: nat

text \<open>What the documentation of the tokenizer with one dropped delimiter promises.\<close>

fun segments_from :: "string \<Rightarrow> string \<Rightarrow> string list" where
  "segments_from cur [] = (if cur = [] then [] else [cur])"
| "segments_from cur (c # cs) =
     (if c = SEP then (if cur = [] then [] else [cur]) @ segments_from [] cs
      else segments_from (cur @ [c]) cs)"

definition segments :: "string \<Rightarrow> string list" where
  "segments s = segments_from [] s"

definition splits_paths :: "path_lib \<Rightarrow> bool" where
  "splits_paths L \<longleftrightarrow> (\<forall>s. tokenize L s = segments s)"

subsection \<open>Directories\<close>

datatype 'd prop_dir =
  PropDir (property_map: "(string \<times> 'd option \<times> 'd prop_dir option) list")
    (last_accessed: "string option")

type_synonym 'd dir_entry = "'d option \<times> 'd prop_dir option"

definition empty_dir :: "'d prop_dir" where
  "empty_dir = PropDir [] None"

definition put_entry :: "string \<Rightarrow> 'd dir_entry \<Rightarrow> 'd prop_dir \<Rightarrow> 'd prop_dir" where
  "put_entry n e d = PropDir (map_put n e (property_map d)) (last_accessed d)"

definition get_directory_entry ::
    "string \<Rightarrow> bool \<Rightarrow> 'd prop_dir \<Rightarrow> 'd dir_entry option \<times> 'd prop_dir" where
  "get_directory_entry name create d =
     (if last_accessed d = Some name then (map_of (property_map d) name, d)
      else case map_of (property_map d) name of
        None \<Rightarrow>
          if \<not> create then (None, d)
          else (Some (None, None), PropDir (map_put name (None, None) (property_map d)) (Some name))
      | Some e \<Rightarrow> (Some e, PropDir (property_map d) (Some name)))"

subsection \<open>Paths\<close>

text \<open>
  The trimmed path without its leading separators. The code cuts one character more than the
  separators it has counted.
\<close>

definition trimmed_tokens :: "path_lib \<Rightarrow> string \<Rightarrow> string list option" where
  "trimmed_tokens L path =
     (let trimmed_path = trim_copy L path in
      if trimmed_path = [] then None
      else let trim_index = length (takeWhile (\<lambda>c. c = SEP) trimmed_path);
               trimmed_path = (if trim_index \<noteq> 0 \<and> trim_index \<noteq> length trimmed_path
                 then (if length trimmed_path = trim_index + 1 then []
                       else drop (trim_index + 1) trimmed_path)
                 else trimmed_path)
           in Some (filter (\<lambda>t. t \<noteq> []) (tokenize L trimmed_path)))"

text \<open>
  The traversal: what was found, and the directory with the caches and, when creating, the
  entries left on the way. The current directory becomes null behind an entry that has none.
\<close>

fun walk :: "bool \<Rightarrow> string list \<Rightarrow> 'd prop_dir \<Rightarrow> 'd dir_entry option \<times> 'd prop_dir" where
  "walk create [] d = (None, d)"
| "walk create (t # ts) d =
     (case get_directory_entry t create d of
        (None, d) \<Rightarrow> (None, d)
      | (Some e, d) \<Rightarrow>
          if ts = [] then (Some e, d)
          else (case snd e of None \<Rightarrow> (None, d)
            | Some sub \<Rightarrow> (case walk create ts sub of (found, sub) \<Rightarrow>
                (found, put_entry t (fst e, Some sub) d))))"

definition parse_directory_path ::
    "path_lib \<Rightarrow> string \<Rightarrow> bool \<Rightarrow> 'd prop_dir \<Rightarrow> (string list \<times> 'd dir_entry) option \<times> 'd prop_dir" where
  "parse_directory_path L path create d =
     (case trimmed_tokens L path of
        None \<Rightarrow> (None, d)
      | Some ts \<Rightarrow>
          if create \<and> (\<exists>t \<in> set ts. text_size t > limits_property_name L) then (None, d)
          else case walk create ts d of (found, d) \<Rightarrow> (map_option (Pair ts) found, d))"

text \<open>
  The directories on the path to what was found, the last of which is its parent, are reached
  by the names on the path.
\<close>

fun parent_at :: "string list \<Rightarrow> 'd prop_dir \<Rightarrow> 'd prop_dir" where
  "parent_at (t # u # ts) d =
     (case map_of (property_map d) t of Some (x, Some sub) \<Rightarrow> parent_at (u # ts) sub | _ \<Rightarrow> d)"
| "parent_at ts d = d"

fun update_parent ::
    "string list \<Rightarrow> ('d prop_dir \<Rightarrow> 'd prop_dir) \<Rightarrow> 'd prop_dir \<Rightarrow> 'd prop_dir" where
  "update_parent (t # u # ts) f d =
     (case map_of (property_map d) t of
        Some (x, Some sub) \<Rightarrow> put_entry t (x, Some (update_parent (u # ts) f sub)) d | _ \<Rightarrow> d)"
| "update_parent ts f d = f d"

text \<open>The path made of the names last accessed in the directories on the path.\<close>

fun accessed_path :: "nat \<Rightarrow> 'd prop_dir \<Rightarrow> string" where
  "accessed_path 0 d = []"
| "accessed_path (Suc n) d =
     (case last_accessed d of None \<Rightarrow> []
      | Some t \<Rightarrow> [SEP] @ t @ (case map_of (property_map d) t of
          Some (x, Some sub) \<Rightarrow> accessed_path n sub | _ \<Rightarrow> []))"

subsection \<open>Reading\<close>

definition dir_get_data :: "path_lib \<Rightarrow> string \<Rightarrow> 'd prop_dir \<Rightarrow> 'd option \<times> 'd prop_dir" where
  "dir_get_data L path d =
     (case parse_directory_path L path False d of (found, d) \<Rightarrow>
        (case found of None \<Rightarrow> None | Some (ts, e) \<Rightarrow> fst e, d))"

definition get_property_directory ::
    "path_lib \<Rightarrow> string \<Rightarrow> 'd prop_dir \<Rightarrow> 'd prop_dir option \<times> 'd prop_dir" where
  "get_property_directory L path d =
     (case parse_directory_path L path False d of (found, d) \<Rightarrow>
        (case found of None \<Rightarrow> None | Some (ts, e) \<Rightarrow> snd e, d))"

definition does_property_exist :: "path_lib \<Rightarrow> string \<Rightarrow> 'd prop_dir \<Rightarrow> bool \<times> 'd prop_dir" where
  "does_property_exist L path d =
     (case parse_directory_path L path False d of (found, d) \<Rightarrow> (found \<noteq> None, d))"

definition dir_is_directory :: "path_lib \<Rightarrow> string \<Rightarrow> 'd prop_dir \<Rightarrow> bool \<times> 'd prop_dir" where
  "dir_is_directory L path d =
     (case parse_directory_path L path False d of (found, d) \<Rightarrow>
        (case found of None \<Rightarrow> False | Some (ts, e) \<Rightarrow> snd e \<noteq> None, d))"

definition set_accessed :: "string \<Rightarrow> 'd prop_dir \<Rightarrow> 'd prop_dir" where
  "set_accessed k d = PropDir (property_map d) (Some k)"

definition step_property ::
    "(string \<Rightarrow> string list \<Rightarrow> string option) \<Rightarrow> path_lib \<Rightarrow> string \<Rightarrow> 'd prop_dir
      \<Rightarrow> string \<times> 'd prop_dir" where
  "step_property step L path d =
     (case parse_directory_path L path False d of
        (None, d) \<Rightarrow> ([], d)
      | (Some (ts, e), d) \<Rightarrow>
          (case last_accessed (parent_at ts d) of None \<Rightarrow> ([], d)
           | Some n \<Rightarrow> (case step n (map_keys (property_map (parent_at ts d))) of None \<Rightarrow> ([], d)
               | Some k \<Rightarrow>
                   let d = update_parent ts (set_accessed k) d in (accessed_path (length ts) d, d))))"

definition dir_get_next :: "path_lib \<Rightarrow> string \<Rightarrow> 'd prop_dir \<Rightarrow> string \<times> 'd prop_dir" where
  "dir_get_next = step_property key_after"

definition dir_get_previous :: "path_lib \<Rightarrow> string \<Rightarrow> 'd prop_dir \<Rightarrow> string \<times> 'd prop_dir" where
  "dir_get_previous = step_property (\<lambda>n ks. key_after n (rev ks))"

definition get_property_edge ::
    "bool \<Rightarrow> path_lib \<Rightarrow> string \<Rightarrow> 'd prop_dir \<Rightarrow> string \<times> 'd prop_dir" where
  "get_property_edge at_last L path d =
     (let trimmed_path = trim_copy L path in
      if trimmed_path = [] then ([], d)
      else let add_separator = (last trimmed_path \<noteq> SEP) in
        case parse_directory_path L path False d of (found, d) \<Rightarrow>
          (case found of
             Some (ts, x, Some sub) \<Rightarrow>
               if property_map sub = [] then []
               else trimmed_path @ (if add_separator then [SEP] else [])
                 @ fst (if at_last then last (property_map sub) else hd (property_map sub))
           | _ \<Rightarrow> [], d))"

definition dir_get_first :: "path_lib \<Rightarrow> string \<Rightarrow> 'd prop_dir \<Rightarrow> string \<times> 'd prop_dir" where
  "dir_get_first = get_property_edge False"

definition dir_get_last :: "path_lib \<Rightarrow> string \<Rightarrow> 'd prop_dir \<Rightarrow> string \<times> 'd prop_dir" where
  "dir_get_last = get_property_edge True"

subsection \<open>Changing\<close>

text \<open>
  \<open>delete_property\<close> removes the entry the parent accessed last; with an empty cache it would
  leave the entry, emptied, and write to the log.
\<close>

definition dir_delete_property :: "path_lib \<Rightarrow> string \<Rightarrow> 'd prop_dir \<Rightarrow> 'd prop_dir" where
  "dir_delete_property L path d =
     (case parse_directory_path L path False d of
        (None, d) \<Rightarrow> d
      | (Some (ts, e), d) \<Rightarrow>
          update_parent ts (\<lambda>p.
            let p = put_entry (last ts) (None, None) p in
            case last_accessed p of None \<Rightarrow> p
              | Some n \<Rightarrow> PropDir (map_erase n (property_map p)) None) d)"

definition dir_delete_data :: "path_lib \<Rightarrow> string \<Rightarrow> 'd prop_dir \<Rightarrow> 'd prop_dir" where
  "dir_delete_data L path d =
     (case parse_directory_path L path False d of
        (None, d) \<Rightarrow> d
      | (Some (ts, e), d) \<Rightarrow>
          if snd e \<noteq> None then update_parent ts (put_entry (last ts) (None, snd e)) d
          else dir_delete_property L path d)"

definition dir_set_property :: "path_lib \<Rightarrow> string \<Rightarrow> 'd \<Rightarrow> 'd prop_dir \<Rightarrow> bool \<times> 'd prop_dir" where
  "dir_set_property L path data d =
     (case parse_directory_path L path True d of
        (None, d) \<Rightarrow> (False, d)
      | (Some (ts, e), d) \<Rightarrow> (True, update_parent ts (put_entry (last ts) (Some data, snd e)) d))"

definition dir_clear :: "'d prop_dir \<Rightarrow> 'd prop_dir" where
  "dir_clear d = PropDir [] None"

text \<open>The copy of a directory; the copy starts with empty caches.\<close>

primrec dir_clone :: "'d prop_dir \<Rightarrow> 'd prop_dir" where
  "dir_clone (PropDir m c) = PropDir (map (map_prod id (map_prod id (map_option dir_clone))) m) None"

fun dir_equal :: "'d prop_dir \<Rightarrow> 'd prop_dir \<Rightarrow> bool"
  and entries_equal :: "(string \<times> 'd dir_entry) list \<Rightarrow> (string \<times> 'd dir_entry) list \<Rightarrow> bool"
  and sub_equal :: "'d prop_dir option \<Rightarrow> 'd prop_dir option \<Rightarrow> bool" where
  "dir_equal (PropDir m c) (PropDir m' c') =
     (if length m \<noteq> length m' then False else entries_equal m m')"
| "entries_equal ((k, x, s) # m) ((k', x', s') # m') =
     (k = k' \<and> x = x' \<and> sub_equal s s' \<and> entries_equal m m')"
| "entries_equal [] m' = True"
| "entries_equal m [] = True"
| "sub_equal (Some d) (Some d') = dir_equal d d'"
| "sub_equal None None = True"
| "sub_equal None (Some d') = False"
| "sub_equal (Some d) None = False"

end
