(* ===== verification/PropData.thy ===== *)
theory PropData
  imports OrdSet PropDir DbIds
begin

text \<open>
  The data of properties: \<^verbatim>\<open>src/src/dbtypes/dbtype_PropertyData.cpp\<close> and its seven
  subclasses, with their order, their printed forms and their reading from text, and
  \<^verbatim>\<open>dbtype_PropertyDataType.cpp\<close>.

  An object of a subclass is a constructor. A 32-bit float is a value of the type variable
  \<open>'f\<close>: what the code does with floats, and the conversions of \<open>boost::lexical_cast\<close>, trimming,
  lower case and splitting, are fields of \<open>data_lib\<close>, with the configured limits. The objects
  compared are distinct; the code answers at once when they are the same.
\<close>

record 'f data_lib =
  paths :: path_lib
  float_equal :: "'f \<Rightarrow> 'f \<Rightarrow> bool"
  float_less :: "'f \<Rightarrow> 'f \<Rightarrow> bool"
  float_text :: "'f \<Rightarrow> string"
  float_parse :: "string \<Rightarrow> 'f option"
  float_truncate :: "'f \<Rightarrow> u32"
  int_text :: "u32 \<Rightarrow> string"
  int_parse :: "string \<Rightarrow> u32 option"
  site_parse :: "string \<Rightarrow> u32 option"
  entity_parse :: "string \<Rightarrow> u64 option"
  lower_copy :: "string \<Rightarrow> string"
  split_on :: "string \<Rightarrow> string \<Rightarrow> string list"
  limit_string_size :: nat
  limit_set_items :: nat
  limit_document_lines :: u32

text \<open>What the documentation of the tokenizer promises for a list of separators.\<close>

fun tokens_from :: "string \<Rightarrow> string \<Rightarrow> string \<Rightarrow> string list" where
  "tokens_from seps cur [] = (if cur = [] then [] else [cur])"
| "tokens_from seps cur (c # cs) =
     (if c \<in> set seps then (if cur = [] then [] else [cur]) @ tokens_from seps [] cs
      else tokens_from seps (cur @ [c]) cs)"

definition tokens_on :: "string \<Rightarrow> string \<Rightarrow> string list" where
  "tokens_on seps s = tokens_from seps [] s"

datatype property_data_type =
    PROPERTYDATATYPE_invalid | PROPERTYDATATYPE_string | PROPERTYDATATYPE_integer
  | PROPERTYDATATYPE_float | PROPERTYDATATYPE_boolean | PROPERTYDATATYPE_id
  | PROPERTYDATATYPE_document | PROPERTYDATATYPE_set | PROPERTYDATATYPE_END

fun type_index :: "property_data_type \<Rightarrow> nat" where
  "type_index PROPERTYDATATYPE_invalid = 0" | "type_index PROPERTYDATATYPE_string = 1"
| "type_index PROPERTYDATATYPE_integer = 2" | "type_index PROPERTYDATATYPE_float = 3"
| "type_index PROPERTYDATATYPE_boolean = 4" | "type_index PROPERTYDATATYPE_id = 5"
| "type_index PROPERTYDATATYPE_document = 6" | "type_index PROPERTYDATATYPE_set = 7"
| "type_index PROPERTYDATATYPE_END = 8"

definition PROPERTY_DATA_TYPE_AS_STRING :: "string list" where
  "PROPERTY_DATA_TYPE_AS_STRING = [''invalid'', ''string'', ''integer'', ''float'', ''boolean'',
     ''id'', ''document'', ''set'']"

definition PROPERTY_DATA_TYPE_AS_SHORT_STRING :: "string list" where
  "PROPERTY_DATA_TYPE_AS_SHORT_STRING = [''inv'', ''str'', ''int'', ''flo'', ''boo'', ''id '',
     ''doc'', ''set'']"

definition property_data_type_to_string :: "property_data_type \<Rightarrow> string" where
  "property_data_type_to_string t =
     (if t = PROPERTYDATATYPE_END \<or> t = PROPERTYDATATYPE_invalid
      then PROPERTY_DATA_TYPE_AS_STRING ! 0 else PROPERTY_DATA_TYPE_AS_STRING ! type_index t)"

definition property_data_type_to_short_string :: "property_data_type \<Rightarrow> string" where
  "property_data_type_to_short_string t =
     (if t = PROPERTYDATATYPE_END \<or> t = PROPERTYDATATYPE_invalid
      then PROPERTY_DATA_TYPE_AS_SHORT_STRING ! 0 else PROPERTY_DATA_TYPE_AS_SHORT_STRING ! type_index t)"

text \<open>The types from the first valid one, in the order of the enumerators.\<close>

definition valid_types :: "property_data_type list" where
  "valid_types = [PROPERTYDATATYPE_string, PROPERTYDATATYPE_integer, PROPERTYDATATYPE_float,
     PROPERTYDATATYPE_boolean, PROPERTYDATATYPE_id, PROPERTYDATATYPE_document, PROPERTYDATATYPE_set]"

definition string_to_property_data_type :: "string \<Rightarrow> property_data_type" where
  "string_to_property_data_type s =
     (case filter (\<lambda>t. PROPERTY_DATA_TYPE_AS_STRING ! type_index t = s
         \<or> PROPERTY_DATA_TYPE_AS_SHORT_STRING ! type_index t = s) valid_types of
        [] \<Rightarrow> PROPERTYDATATYPE_invalid | t # _ \<Rightarrow> t)"

subsection \<open>Data\<close>

datatype 'f property_data =
    BooleanProperty bool
  | IntegerProperty u32
  | FloatProperty 'f
  | StringProperty string
  | IdProperty db_id
  | DocumentProperty u32 "string list"
  | SetProperty property_data_type "'f property_data list"

fun get_data_type :: "'f property_data \<Rightarrow> property_data_type" where
  "get_data_type (BooleanProperty b) = PROPERTYDATATYPE_boolean"
| "get_data_type (IntegerProperty n) = PROPERTYDATATYPE_integer"
| "get_data_type (FloatProperty x) = PROPERTYDATATYPE_float"
| "get_data_type (StringProperty s) = PROPERTYDATATYPE_string"
| "get_data_type (IdProperty i) = PROPERTYDATATYPE_id"
| "get_data_type (DocumentProperty m ls) = PROPERTYDATATYPE_document"
| "get_data_type (SetProperty t xs) = PROPERTYDATATYPE_set"

subsection \<open>Comparing\<close>

text \<open>
  Equality: the types agree, then the data; a document by its lines, a set in step with the
  other.
\<close>

definition doc_equal :: "string list \<Rightarrow> string list \<Rightarrow> bool" where
  "doc_equal xs ys = (if length xs = length ys then list_all2 (=) xs ys else False)"

definition set_equal :: "property_data_type \<Rightarrow> ('a \<Rightarrow> bool) list \<Rightarrow> property_data_type \<Rightarrow> 'a list \<Rightarrow> bool" where
  "set_equal t fs u ys =
     (if t \<noteq> u then False
      else if length fs \<noteq> length ys then False else list_all2 (\<lambda>f y. f y) fs ys)"

primrec prop_equal :: "'f data_lib \<Rightarrow> 'f property_data \<Rightarrow> 'f property_data \<Rightarrow> bool" where
  "prop_equal L (BooleanProperty a) = (\<lambda>d. case d of BooleanProperty b \<Rightarrow> a = b | _ \<Rightarrow> False)"
| "prop_equal L (IntegerProperty a) = (\<lambda>d. case d of IntegerProperty b \<Rightarrow> a = b | _ \<Rightarrow> False)"
| "prop_equal L (FloatProperty a) = (\<lambda>d. case d of FloatProperty b \<Rightarrow> float_equal L a b | _ \<Rightarrow> False)"
| "prop_equal L (StringProperty a) = (\<lambda>d. case d of StringProperty b \<Rightarrow> a = b | _ \<Rightarrow> False)"
| "prop_equal L (IdProperty a) = (\<lambda>d. case d of IdProperty b \<Rightarrow> a = b | _ \<Rightarrow> False)"
| "prop_equal L (DocumentProperty m xs) = (\<lambda>d. case d of
     DocumentProperty n ys \<Rightarrow> doc_equal xs ys | _ \<Rightarrow> False)"
| "prop_equal L (SetProperty t xs) = (\<lambda>d. case d of
     SetProperty u ys \<Rightarrow> set_equal t (map (prop_equal L) xs) u ys | _ \<Rightarrow> False)"

text \<open>
  Order: by type, then by the data. The walk over two documents, or two sets, in step answers
  true at the first place where the left is below the right, and does not stop at a place
  where it is above.
\<close>

definition type_below :: "property_data_type \<Rightarrow> 'f property_data \<Rightarrow> bool" where
  "type_below t d \<longleftrightarrow> type_index t < type_index (get_data_type d)"

fun any_below :: "('a \<Rightarrow> bool) list \<Rightarrow> 'a list \<Rightarrow> bool" where
  "any_below (f # fs) (y # ys) = (if f y then True else any_below fs ys)"
| "any_below fs ys = False"

definition doc_below :: "string list \<Rightarrow> string list \<Rightarrow> bool" where
  "doc_below xs ys = (if any_below (map (<) xs) ys then True else length xs < length ys)"

definition set_below :: "property_data_type \<Rightarrow> ('a \<Rightarrow> bool) list \<Rightarrow> property_data_type \<Rightarrow> 'a list \<Rightarrow> bool" where
  "set_below t fs u ys =
     (if type_index t < type_index u then True
      else if length fs < length ys then True
      else if length fs > length ys then False
      else any_below fs ys)"

primrec prop_less :: "'f data_lib \<Rightarrow> 'f property_data \<Rightarrow> 'f property_data \<Rightarrow> bool" where
  "prop_less L (BooleanProperty a) = (\<lambda>d. case d of
     BooleanProperty b \<Rightarrow> \<not> a \<and> b | _ \<Rightarrow> type_below PROPERTYDATATYPE_boolean d)"
| "prop_less L (IntegerProperty a) = (\<lambda>d. case d of
     IntegerProperty b \<Rightarrow> sint a < sint b | _ \<Rightarrow> type_below PROPERTYDATATYPE_integer d)"
| "prop_less L (FloatProperty a) = (\<lambda>d. case d of
     FloatProperty b \<Rightarrow> float_less L a b | _ \<Rightarrow> type_below PROPERTYDATATYPE_float d)"
| "prop_less L (StringProperty a) = (\<lambda>d. case d of
     StringProperty b \<Rightarrow> a < b | _ \<Rightarrow> type_below PROPERTYDATATYPE_string d)"
| "prop_less L (IdProperty a) = (\<lambda>d. case d of
     IdProperty b \<Rightarrow> a < b | _ \<Rightarrow> type_below PROPERTYDATATYPE_id d)"
| "prop_less L (DocumentProperty m xs) = (\<lambda>d. case d of
     DocumentProperty n ys \<Rightarrow> doc_below xs ys | _ \<Rightarrow> type_below PROPERTYDATATYPE_document d)"
| "prop_less L (SetProperty t xs) = (\<lambda>d. case d of
     SetProperty u ys \<Rightarrow> set_below t (map (prop_less L) xs) u ys
   | _ \<Rightarrow> type_below PROPERTYDATATYPE_set d)"

text \<open>Copying: a set inserts the copies of its elements, a document copies its lines.\<close>

primrec prop_clone :: "'f data_lib \<Rightarrow> 'f property_data \<Rightarrow> 'f property_data" where
  "prop_clone L (BooleanProperty b) = BooleanProperty b"
| "prop_clone L (IntegerProperty n) = IntegerProperty n"
| "prop_clone L (FloatProperty x) = FloatProperty x"
| "prop_clone L (StringProperty s) = StringProperty s"
| "prop_clone L (IdProperty i) = IdProperty i"
| "prop_clone L (DocumentProperty m ls) = DocumentProperty m ls"
| "prop_clone L (SetProperty t xs) =
     SetProperty t (fold (ord_insert (prop_less L)) (map (prop_clone L) xs) [])"

subsection \<open>Text\<close>

definition SHORT_STRING_LENGTH :: nat where "SHORT_STRING_LENGTH = 60"
definition MAX_STRING_SIZE :: nat where "MAX_STRING_SIZE = 32768"

text \<open>
  A set prints its elements until the text has reached the limit, and then cuts it.
\<close>

fun set_text :: "nat \<Rightarrow> string list \<Rightarrow> string \<Rightarrow> string" where
  "set_text limit [] s =
     (if length s \<ge> limit then take (limit - 4) s @ ''.. }'' else s @ '' }'')"
| "set_text limit (x # xs) s =
     (if length s \<ge> limit then take (limit - 4) s @ ''.. }''
      else set_text limit xs (s @ '' ['' @ x @ '']''))"

definition doc_text :: "string list \<Rightarrow> string" where
  "doc_text ls = concat (map (\<lambda>l. l @ [CHR 0x0A]) ls)"

definition doc_short_text :: "string list \<Rightarrow> string" where
  "doc_short_text ls = (case ls of [] \<Rightarrow> [] | l # _ \<Rightarrow> take SHORT_STRING_LENGTH l)"

primrec get_as_string :: "'f data_lib \<Rightarrow> 'f property_data \<Rightarrow> string" where
  "get_as_string L (BooleanProperty b) = (if b then ''True'' else ''False'')"
| "get_as_string L (IntegerProperty n) = int_text L n"
| "get_as_string L (FloatProperty x) = float_text L x"
| "get_as_string L (StringProperty s) = s"
| "get_as_string L (IdProperty i) = id_to_string True i"
| "get_as_string L (DocumentProperty m ls) = doc_text ls"
| "get_as_string L (SetProperty t xs) = set_text MAX_STRING_SIZE (map (get_as_string L) xs) ''{''"

primrec get_as_short_string :: "'f data_lib \<Rightarrow> 'f property_data \<Rightarrow> string" where
  "get_as_short_string L (BooleanProperty b) = (if b then ''True'' else ''False'')"
| "get_as_short_string L (IntegerProperty n) = int_text L n"
| "get_as_short_string L (FloatProperty x) = float_text L x"
| "get_as_short_string L (StringProperty s) = take SHORT_STRING_LENGTH s"
| "get_as_short_string L (IdProperty i) = id_to_string False i"
| "get_as_short_string L (DocumentProperty m ls) = doc_short_text ls"
| "get_as_short_string L (SetProperty t xs) =
     set_text SHORT_STRING_LENGTH (map (get_as_short_string L) xs) ''{''"

subsection \<open>Documents\<close>

text \<open>
  A document has its own limit on lines. The number of lines is an unsigned 32-bit integer, as
  are line numbers.
\<close>

definition document_new :: "'f data_lib \<Rightarrow> 'f property_data" where
  "document_new L = DocumentProperty (limit_document_lines L) []"

definition set_max_lines :: "u32 \<Rightarrow> u32 \<Rightarrow> u32" where
  "set_max_lines new m = (if new > 0 then new else m)"

definition doc_is_full :: "u32 \<Rightarrow> string list \<Rightarrow> bool" where
  "doc_is_full m ls \<longleftrightarrow> length ls > unat m"

definition get_number_lines :: "string list \<Rightarrow> u32" where
  "get_number_lines ls = of_nat (length ls)"

definition append_line :: "'f data_lib \<Rightarrow> u32 \<Rightarrow> string \<Rightarrow> string list \<Rightarrow> bool \<times> string list" where
  "append_line L m x ls =
     (if doc_is_full m ls then (False, ls)
      else if text_size x > limit_string_size L then (False, ls)
      else (True, ls @ [x]))"

definition insert_line ::
    "'f data_lib \<Rightarrow> u32 \<Rightarrow> string \<Rightarrow> u32 \<Rightarrow> string list \<Rightarrow> bool \<times> string list" where
  "insert_line L m x line ls =
     (if doc_is_full m ls then (False, ls)
      else if text_size x > limit_string_size L then (False, ls)
      else if line \<ge> get_number_lines ls then (True, ls @ [x])
      else (True, take (unat line) ls @ x # drop (unat line) ls))"

definition delete_line :: "u32 \<Rightarrow> string list \<Rightarrow> bool \<times> string list" where
  "delete_line line ls =
     (if get_number_lines ls \<le> line then (False, ls)
      else (True, take (unat line) ls @ drop (unat line + 1) ls))"

definition get_line :: "u32 \<Rightarrow> string list \<Rightarrow> string" where
  "get_line line ls = (if line < get_number_lines ls then ls ! unat line else [])"

fun append_lines :: "'f data_lib \<Rightarrow> u32 \<Rightarrow> string list \<Rightarrow> string list \<Rightarrow> bool \<times> string list" where
  "append_lines L m [] ls = (True, ls)"
| "append_lines L m (x # xs) ls =
     (case append_line L m x ls of
        (True, ls) \<Rightarrow> append_lines L m xs ls | (False, ls) \<Rightarrow> (False, []))"

definition doc_set_lines :: "'f data_lib \<Rightarrow> u32 \<Rightarrow> string list \<Rightarrow> bool \<times> string list" where
  "doc_set_lines L m xs = append_lines L m xs []"

subsection \<open>Reading from text\<close>

definition bool_from_string :: "'f data_lib \<Rightarrow> string \<Rightarrow> bool option" where
  "bool_from_string L s =
     (let lower = lower_copy L s in
      if lower \<in> {''t'', ''true'', ''yes'', ''y''} then Some True
      else if lower \<in> {''f'', ''false'', ''no'', ''n''} then Some False else None)"

text \<open>The loop over the tokens of an identifier, which takes two and fails on a third.\<close>

fun id_tokens :: "string list \<Rightarrow> string \<Rightarrow> string \<Rightarrow> (string \<times> string) option" where
  "id_tokens [] site ent = Some (site, ent)"
| "id_tokens (t # ts) site ent =
     (if site = [] then id_tokens ts t ent
      else if ent = [] then id_tokens ts site t else None)"

definition id_from_string :: "'f data_lib \<Rightarrow> string \<Rightarrow> db_id option" where
  "id_from_string L s =
     (let trimmed_str = trim_copy (paths L) s in
      if trimmed_str = [] then None
      else if hd trimmed_str \<noteq> CHR ''#'' then None
      else case id_tokens (split_on L '' #-'' trimmed_str) [] [] of
          None \<Rightarrow> None
        | Some (site, ent) \<Rightarrow>
            (case (site_parse L site, entity_parse L ent) of
               (Some a, Some b) \<Rightarrow> Some (DbId a b) | _ \<Rightarrow> None))"

definition string_set :: "'f data_lib \<Rightarrow> string \<Rightarrow> string \<Rightarrow> bool \<times> string" where
  "string_set L s old = (if text_size s > limit_string_size L then (False, old) else (True, s))"

definition doc_set_from_string :: "'f data_lib \<Rightarrow> u32 \<Rightarrow> string \<Rightarrow> bool \<times> string list" where
  "doc_set_from_string L m s = append_lines L m (split_on L [CHR 0x0A] s) []"

fun set_from_string :: "'f data_lib \<Rightarrow> string \<Rightarrow> 'f property_data \<Rightarrow> bool \<times> 'f property_data" where
  "set_from_string L s (BooleanProperty b) =
     (case bool_from_string L s of None \<Rightarrow> (False, BooleanProperty b) | Some c \<Rightarrow> (True, BooleanProperty c))"
| "set_from_string L s (IntegerProperty n) =
     (case int_parse L s of None \<Rightarrow> (False, IntegerProperty n) | Some m \<Rightarrow> (True, IntegerProperty m))"
| "set_from_string L s (FloatProperty x) =
     (case float_parse L s of None \<Rightarrow> (False, FloatProperty x) | Some y \<Rightarrow> (True, FloatProperty y))"
| "set_from_string L s (StringProperty t) =
     map_prod id StringProperty (string_set L s t)"
| "set_from_string L s (IdProperty i) =
     (case id_from_string L s of None \<Rightarrow> (False, IdProperty i) | Some j \<Rightarrow> (True, IdProperty j))"
| "set_from_string L s (DocumentProperty m ls) =
     map_prod id (DocumentProperty m) (doc_set_from_string L m s)"
| "set_from_string L s (SetProperty t xs) = (False, SetProperty t xs)"

subsection \<open>Sets\<close>

text \<open>The state of a set is the type of its elements, invalid when it is empty, and the elements.\<close>

type_synonym 'f prop_set = "property_data_type \<times> 'f property_data list"

definition set_new :: "'f prop_set" where
  "set_new = (PROPERTYDATATYPE_invalid, [])"

definition set_clear :: "'f prop_set \<Rightarrow> 'f prop_set" where
  "set_clear s = (PROPERTYDATATYPE_invalid, [])"

definition set_is_full :: "'f data_lib \<Rightarrow> 'f property_data list \<Rightarrow> bool" where
  "set_is_full L xs \<longleftrightarrow> length xs > limit_set_items L"

fun set_add :: "'f data_lib \<Rightarrow> 'f property_data \<Rightarrow> 'f prop_set \<Rightarrow> bool \<times> 'f prop_set" where
  "set_add L item (t, xs) =
     (if t = PROPERTYDATATYPE_invalid
      then (True, get_data_type item, ord_insert (prop_less L) (prop_clone L item) xs)
      else if t \<noteq> get_data_type item then (False, t, xs)
      else if set_is_full L xs then (False, t, xs)
      else (True, t, ord_insert (prop_less L) (prop_clone L item) xs))"

fun set_remove :: "'f data_lib \<Rightarrow> 'f property_data \<Rightarrow> 'f prop_set \<Rightarrow> bool \<times> 'f prop_set" where
  "set_remove L item (t, xs) =
     (if t \<noteq> get_data_type item then (False, t, xs)
      else case ord_find (prop_less L) item xs of
        None \<Rightarrow> (True, t, xs)
      | Some _ \<Rightarrow>
          (let xs = ord_erase (prop_less L) item xs in
           (True, if xs = [] then PROPERTYDATATYPE_invalid else t, xs)))"

fun set_contains :: "'f data_lib \<Rightarrow> 'f property_data \<Rightarrow> 'f prop_set \<Rightarrow> bool" where
  "set_contains L item (t, xs) =
     (if t = get_data_type item then ord_find (prop_less L) item xs \<noteq> None else False)"

fun iter_first :: "'f prop_set \<Rightarrow> 'f property_data option" where
  "iter_first (t, xs) = (if xs = [] then None else Some (hd xs))"

fun iter_last :: "'f prop_set \<Rightarrow> 'f property_data option" where
  "iter_last (t, xs) = (if xs = [] then None else Some (last xs))"

fun iter_next :: "'f data_lib \<Rightarrow> 'f property_data option \<Rightarrow> 'f prop_set \<Rightarrow> 'f property_data option" where
  "iter_next L None s = None"
| "iter_next L (Some d) (t, xs) =
     (if xs = [] then None else if t \<noteq> get_data_type d then None else ord_next (prop_less L) d xs)"

fun iter_previous :: "'f data_lib \<Rightarrow> 'f property_data option \<Rightarrow> 'f prop_set \<Rightarrow> 'f property_data option" where
  "iter_previous L None s = None"
| "iter_previous L (Some d) (t, xs) =
     (if xs = [] then None else if t \<noteq> get_data_type d then None else ord_previous (prop_less L) d xs)"

end
