(* ===== verification/PropEntity.thy ===== *)
theory PropEntity
  imports EntityCore PropData
begin

text \<open>
  \<^verbatim>\<open>src/src/dbtypes/dbtype_PropertyEntity.cpp\<close> and \<^verbatim>\<open>dbtype_ApplicationProperties.h\<close>: an entity
  with a tree of properties for each application that keeps some on it. A path names the
  application first and then the property. As in the base class an operation takes the Boolean
  \<open>has_lock\<close>; reading a property writes to the caches of its directory, so these take and
  return the entity as well.
\<close>

record 'f app_properties =
  application_name :: string
  application_owner :: db_id
  app_security :: security
  app_directory :: "'f property_data prop_dir"

record 'f property_entity = entity_core +
  application_properties :: "(string \<times> 'f app_properties) list"

definition property_entity_new :: "entity_env \<Rightarrow> db_id \<Rightarrow> entity_type \<Rightarrow> u32 \<Rightarrow> u32 \<Rightarrow> bool \<Rightarrow> 'f property_entity" where
  "property_entity_new env i ty version inst restoring =
     entity_core.extend (entity_make env i ty version inst restoring) \<lparr>application_properties = []\<rparr>"

definition app_name :: "'f data_lib \<Rightarrow> string \<Rightarrow> string" where
  "app_name L path = get_application_name_from_path (trim_copy (paths L)) path"

definition app_changed :: "entity_env \<Rightarrow> 'f property_entity \<Rightarrow> 'f property_entity" where
  "app_changed env s = notify_field_changed env ENTITYFIELD_application_properties s"

subsection \<open>Applications\<close>

definition application_exists :: "'f data_lib \<Rightarrow> string \<Rightarrow> bool \<Rightarrow> 'f property_entity \<Rightarrow> bool" where
  "application_exists L path has_lock s =
     (if has_lock then map_of (application_properties s) (app_name L path) \<noteq> None else False)"

definition app_properties_new :: "string \<Rightarrow> db_id \<Rightarrow> 'f app_properties" where
  "app_properties_new name owner = \<lparr>application_name = name, application_owner = owner,
     app_security = security_new PropSecurity, app_directory = empty_dir\<rparr>"

definition add_application ::
    "'f data_lib \<Rightarrow> entity_env \<Rightarrow> string \<Rightarrow> db_id \<Rightarrow> security \<Rightarrow> bool \<Rightarrow> 'f property_entity
      \<Rightarrow> bool \<times> 'f property_entity" where
  "add_application L env path owner sec has_lock s =
     (if has_lock then
        let app = app_name L path in
        if text_size app > limits_property_name (paths L) then (False, s)
        else if app \<noteq> [] \<and> map_of (application_properties s) app = None
        then (True, app_changed env (s\<lparr>application_properties :=
               map_put app (app_properties_new app owner\<lparr>app_security := sec\<rparr>) (application_properties s)\<rparr>))
        else (False, s)
      else (False, s))"

definition remove_application ::
    "'f data_lib \<Rightarrow> entity_env \<Rightarrow> string \<Rightarrow> bool \<Rightarrow> 'f property_entity \<Rightarrow> 'f property_entity" where
  "remove_application L env path has_lock s =
     (if has_lock then app_changed env
        (s\<lparr>application_properties := map_erase (app_name L path) (application_properties s)\<rparr>)
      else s)"

definition application_security_settings ::
    "'f data_lib \<Rightarrow> string \<Rightarrow> bool \<Rightarrow> 'f property_entity \<Rightarrow> db_id \<times> security" where
  "application_security_settings L path has_lock s =
     (case (if has_lock then map_of (application_properties s) (app_name L path) else None) of
        Some a \<Rightarrow> (application_owner a, app_security a)
      | None \<Rightarrow> (default_id, security_new PropSecurity))"

definition set_application_security_settings ::
    "'f data_lib \<Rightarrow> entity_env \<Rightarrow> string \<Rightarrow> security \<Rightarrow> bool \<Rightarrow> 'f property_entity
      \<Rightarrow> bool \<times> 'f property_entity" where
  "set_application_security_settings L env path sec has_lock s =
     (case (if has_lock then map_of (application_properties s) (app_name L path) else None) of
        Some a \<Rightarrow> (True, app_changed env (s\<lparr>application_properties :=
          map_put (app_name L path) (a\<lparr>app_security := sec\<rparr>) (application_properties s)\<rparr>))
      | None \<Rightarrow> (False, s))"

definition get_first_application_name :: "bool \<Rightarrow> 'f property_entity \<Rightarrow> string" where
  "get_first_application_name has_lock s =
     (case (if has_lock then application_properties s else []) of [] \<Rightarrow> [] | e # _ \<Rightarrow> fst e)"

definition get_next_application_name :: "'f data_lib \<Rightarrow> string \<Rightarrow> bool \<Rightarrow> 'f property_entity \<Rightarrow> string" where
  "get_next_application_name L path has_lock s =
     (case (if has_lock then map_of (application_properties s) (app_name L path) else None) of
        Some a \<Rightarrow> app_name L path | None \<Rightarrow> [])"

subsection \<open>The application and the property of a path\<close>

definition split_path :: "'f data_lib \<Rightarrow> string \<Rightarrow> (string \<times> string) option" where
  "split_path L full_path =
     (let trimmed_path = trim_copy (paths L) full_path in
      if trimmed_path = [] then None
      else let trimmed_path =
               (if \<exists>c \<in> set trimmed_path. c \<noteq> SEP then dropWhile (\<lambda>c. c = SEP) trimmed_path
                else trimmed_path)
        in if SEP \<notin> set trimmed_path then None
           else let trim_index = length (takeWhile (\<lambda>c. c \<noteq> SEP) trimmed_path);
                    name = take trim_index trimmed_path;
                    prop_path = (if length trimmed_path = trim_index + 1 then []
                      else drop (trim_index + 1) trimmed_path)
             in if name = [] \<or> prop_path = [] then None else Some (name, prop_path))"

definition get_application_properties ::
    "'f data_lib \<Rightarrow> string \<Rightarrow> 'f property_entity \<Rightarrow> (string \<times> 'f app_properties \<times> string) option" where
  "get_application_properties L full_path s =
     (case split_path L full_path of
        None \<Rightarrow> None
      | Some (name, prop_path) \<Rightarrow>
          (case map_of (application_properties s) name of
             None \<Rightarrow> None | Some a \<Rightarrow> Some (name, a, prop_path)))"

text \<open>An operation of the directory that the path leads to, on the rest of the path.\<close>

definition in_application ::
    "'f data_lib \<Rightarrow> string \<Rightarrow> (string \<Rightarrow> 'f property_data prop_dir \<Rightarrow> 'r \<times> 'f property_data prop_dir)
      \<Rightarrow> 'f property_entity \<Rightarrow> 'r option \<times> 'f property_entity" where
  "in_application L path f s =
     (case get_application_properties L path s of
        None \<Rightarrow> (None, s)
      | Some (name, a, prop_path) \<Rightarrow>
          (case f prop_path (app_directory a) of (r, d) \<Rightarrow>
             (Some r, s\<lparr>application_properties :=
                map_put name (a\<lparr>app_directory := d\<rparr>) (application_properties s)\<rparr>)))"

definition or_else :: "'r \<Rightarrow> 'r option \<times> 's \<Rightarrow> 'r \<times> 's" where
  "or_else x r = (case fst r of None \<Rightarrow> x | Some y \<Rightarrow> y, snd r)"

definition and_notify :: "entity_env \<Rightarrow> 'r option \<times> 'f property_entity \<Rightarrow> 'r option \<times> 'f property_entity" where
  "and_notify env r = (fst r, if fst r = None then snd r else app_changed env (snd r))"

subsection \<open>Reading properties\<close>

definition get_property_data_ptr ::
    "'f data_lib \<Rightarrow> string \<Rightarrow> 'f property_entity \<Rightarrow> 'f property_data option \<times> 'f property_entity" where
  "get_property_data_ptr L path s = or_else None (in_application L path (dir_get_data (paths L)) s)"

definition with_data ::
    "'f data_lib \<Rightarrow> string \<Rightarrow> bool \<Rightarrow> 'r \<Rightarrow> ('f property_data \<Rightarrow> 'r) \<Rightarrow> 'f property_entity
      \<Rightarrow> 'r \<times> 'f property_entity" where
  "with_data L path has_lock x f s =
     (if has_lock then
        (case get_property_data_ptr L path s of (data, s) \<Rightarrow>
           (case data of None \<Rightarrow> x | Some p \<Rightarrow> f p, s))
      else (x, s))"

definition get_property ::
    "'f data_lib \<Rightarrow> string \<Rightarrow> bool \<Rightarrow> 'f property_entity \<Rightarrow> 'f property_data option \<times> 'f property_entity" where
  "get_property L path has_lock s = with_data L path has_lock None (\<lambda>p. Some (prop_clone L p)) s"

definition get_string_property ::
    "'f data_lib \<Rightarrow> string \<Rightarrow> bool \<Rightarrow> 'f property_entity \<Rightarrow> string \<times> 'f property_entity" where
  "get_string_property L path has_lock s = with_data L path has_lock [] (get_as_string L) s"

definition get_int_property ::
    "'f data_lib \<Rightarrow> string \<Rightarrow> bool \<Rightarrow> 'f property_entity \<Rightarrow> u32 \<times> 'f property_entity" where
  "get_int_property L path has_lock s = with_data L path has_lock 0 (\<lambda>p. case p of
     IntegerProperty n \<Rightarrow> n | FloatProperty x \<Rightarrow> float_truncate L x | _ \<Rightarrow> 0) s"

definition get_bool_property ::
    "'f data_lib \<Rightarrow> string \<Rightarrow> bool \<Rightarrow> 'f property_entity \<Rightarrow> bool \<times> 'f property_entity" where
  "get_bool_property L path has_lock s = with_data L path has_lock False (\<lambda>p. case p of
     BooleanProperty b \<Rightarrow> b | IntegerProperty n \<Rightarrow> n \<noteq> 0 | FloatProperty x \<Rightarrow> float_truncate L x \<noteq> 0
   | StringProperty t \<Rightarrow> (case bool_from_string L t of None \<Rightarrow> False | Some b \<Rightarrow> b)
   | _ \<Rightarrow> False) s"

definition property_has_data ::
    "'f data_lib \<Rightarrow> string \<Rightarrow> bool \<Rightarrow> 'f property_entity \<Rightarrow> bool \<times> 'f property_entity" where
  "property_has_data L path has_lock s = with_data L path has_lock False (\<lambda>p. True) s"

definition get_property_type ::
    "'f data_lib \<Rightarrow> string \<Rightarrow> bool \<Rightarrow> 'f property_entity \<Rightarrow> property_data_type \<times> 'f property_entity" where
  "get_property_type L path has_lock s = with_data L path has_lock PROPERTYDATATYPE_invalid get_data_type s"

definition is_property ::
    "'f data_lib \<Rightarrow> string \<Rightarrow> bool \<Rightarrow> 'f property_entity \<Rightarrow> bool \<times> 'f property_entity" where
  "is_property L path has_lock s =
     (if has_lock then or_else False (in_application L path (does_property_exist (paths L)) s) else (False, s))"

definition is_property_directory ::
    "'f data_lib \<Rightarrow> string \<Rightarrow> bool \<Rightarrow> 'f property_entity \<Rightarrow> bool \<times> 'f property_entity" where
  "is_property_directory L path has_lock s =
     (if has_lock then or_else False (in_application L path (dir_is_directory (paths L)) s) else (False, s))"

definition get_next_property ::
    "'f data_lib \<Rightarrow> string \<Rightarrow> bool \<Rightarrow> 'f property_entity \<Rightarrow> string \<times> 'f property_entity" where
  "get_next_property L path has_lock s =
     (if has_lock then or_else [] (in_application L path (dir_get_next (paths L)) s) else ([], s))"

definition get_previous_property ::
    "'f data_lib \<Rightarrow> string \<Rightarrow> bool \<Rightarrow> 'f property_entity \<Rightarrow> string \<times> 'f property_entity" where
  "get_previous_property L path has_lock s =
     (if has_lock then or_else [] (in_application L path (dir_get_previous (paths L)) s) else ([], s))"

definition get_first_property ::
    "'f data_lib \<Rightarrow> string \<Rightarrow> bool \<Rightarrow> 'f property_entity \<Rightarrow> string \<times> 'f property_entity" where
  "get_first_property L path has_lock s =
     (if has_lock then or_else [] (in_application L path (dir_get_first (paths L)) s) else ([], s))"

definition get_last_property ::
    "'f data_lib \<Rightarrow> string \<Rightarrow> bool \<Rightarrow> 'f property_entity \<Rightarrow> string \<times> 'f property_entity" where
  "get_last_property L path has_lock s =
     (if has_lock then or_else [] (in_application L path (dir_get_last (paths L)) s) else ([], s))"

subsection \<open>Changing properties\<close>

definition set_property ::
    "'f data_lib \<Rightarrow> entity_env \<Rightarrow> string \<Rightarrow> 'f property_data \<Rightarrow> bool \<Rightarrow> 'f property_entity
      \<Rightarrow> bool \<times> 'f property_entity" where
  "set_property L env path data has_lock s =
     (if has_lock then or_else False (and_notify env
        (in_application L path (\<lambda>p. dir_set_property (paths L) p (prop_clone L data)) s))
      else (False, s))"

definition delete_property ::
    "'f data_lib \<Rightarrow> entity_env \<Rightarrow> string \<Rightarrow> bool \<Rightarrow> 'f property_entity \<Rightarrow> 'f property_entity" where
  "delete_property L env path has_lock s =
     (if has_lock then snd (and_notify env
        (in_application L path (\<lambda>p d. ((), dir_delete_property (paths L) p d)) s))
      else s)"

definition delete_property_data ::
    "'f data_lib \<Rightarrow> entity_env \<Rightarrow> string \<Rightarrow> bool \<Rightarrow> 'f property_entity \<Rightarrow> 'f property_entity" where
  "delete_property_data L env path has_lock s =
     (if has_lock then snd (and_notify env
        (in_application L path (\<lambda>p d. ((), dir_delete_data (paths L) p d)) s))
      else s)"

definition clear_properties ::
    "'f data_lib \<Rightarrow> entity_env \<Rightarrow> string \<Rightarrow> bool \<Rightarrow> 'f property_entity \<Rightarrow> 'f property_entity" where
  "clear_properties L env path has_lock s =
     (if has_lock then snd (and_notify env (in_application L path (\<lambda>p d. ((), dir_clear d)) s))
      else s)"

subsection \<open>Copying\<close>

definition copy_application :: "'f data_lib \<Rightarrow> 'f app_properties \<Rightarrow> 'f app_properties" where
  "copy_application L a =
     a\<lparr>app_directory := map_prop_dir (prop_clone L) (dir_clone (app_directory a))\<rparr>"

text \<open>
  The fields of the base class first, which tells the listeners of the copy, then the
  applications, which marks the copy again.
\<close>

definition copy_property_fields ::
    "'f data_lib \<Rightarrow> entity_env \<Rightarrow> 'f property_entity \<Rightarrow> 'f property_entity
      \<Rightarrow> 'f property_entity \<times> 'f property_entity" where
  "copy_property_fields L env s c =
     (case copy_fields env s c of (s, c) \<Rightarrow>
        (s, app_changed env (c\<lparr>application_properties :=
              map (map_prod id (copy_application L)) (application_properties s)\<rparr>)))"

definition property_entity_clone ::
    "'f data_lib \<Rightarrow> entity_env \<Rightarrow> db_id \<Rightarrow> u32 \<Rightarrow> u32 \<Rightarrow> bool \<Rightarrow> 'f property_entity
      \<Rightarrow> 'f property_entity option \<times> 'f property_entity" where
  "property_entity_clone L env i version inst has_lock s =
     (if has_lock then
        case copy_property_fields L env s
               (property_entity_new env i ENTITYTYPE_property_entity version inst False) of
          (s, c) \<Rightarrow> (Some c, s)
      else (None, s))"

end
