(* ===== verification/PropDirProps.thy ===== *)
theory PropDirProps
  imports PropDir
begin

text \<open>
  Property directories as maps from paths to entries: what the operations do is stated with a
  lookup that has no cache (\<open>entry_at\<close>), on every well-formed tree; then the directories that
  can come about through the operations alone, which are flat, as an abstract map from names.
\<close>

subsection \<open>Well-formed directories\<close>

text \<open>Sorted names, and a cache that names an existing entry, in every directory of the tree.\<close>

inductive wf_dir :: "'d prop_dir \<Rightarrow> bool" where
  wf_dirI: "map_sorted m \<Longrightarrow> (\<forall>n. c = Some n \<longrightarrow> map_of m n \<noteq> None)
    \<Longrightarrow> (\<forall>k x sub. map_of m k = Some (x, Some sub) \<longrightarrow> wf_dir sub) \<Longrightarrow> wf_dir (PropDir m c)"

inductive_simps wf_dir_iff: "wf_dir (PropDir m c)"

fun entry_at :: "string list \<Rightarrow> 'd prop_dir \<Rightarrow> 'd dir_entry option" where
  "entry_at [] d = None"
| "entry_at (t # ts) d =
     (case map_of (property_map d) t of None \<Rightarrow> None
      | Some e \<Rightarrow> if ts = [] then Some e
          else (case snd e of None \<Rightarrow> None | Some sub \<Rightarrow> entry_at ts sub))"

lemma wf_dirD:
  assumes "wf_dir d"
  shows "map_sorted (property_map d)"
    and "last_accessed d = Some n \<Longrightarrow> map_of (property_map d) n \<noteq> None"
    and "map_of (property_map d) k = Some (x, Some sub) \<Longrightarrow> wf_dir sub"
  using assms by (cases d, auto simp: wf_dir_iff)+

lemma wf_dir_eqI:
  assumes "map_sorted (property_map d)"
    and "\<And>n. last_accessed d = Some n \<Longrightarrow> map_of (property_map d) n \<noteq> None"
    and "\<And>k x sub. map_of (property_map d) k = Some (x, Some sub) \<Longrightarrow> wf_dir sub"
  shows "wf_dir d"
  using assms by (cases d) (auto simp: wf_dir_iff)

lemma wf_empty [simp]: "wf_dir (PropDir [] None)"
  by (simp add: wf_dir_iff)

lemma put_entry_simps [simp]:
  "property_map (put_entry n e d) = map_put n e (property_map d)"
  "last_accessed (put_entry n e d) = last_accessed d"
  by (simp_all add: put_entry_def)

lemma wf_put_entry:
  assumes "wf_dir d" and "\<And>sub. snd e = Some sub \<Longrightarrow> wf_dir sub"
  shows "wf_dir (put_entry n e d)"
proof (rule wf_dir_eqI)
  note sorted = wf_dirD(1) [OF assms(1)]
  show "map_sorted (property_map (put_entry n e d))" using sorted by (simp add: map_sorted_put)
  show "map_of (property_map (put_entry n e d)) k \<noteq> None" if "last_accessed (put_entry n e d) = Some k" for k
    using wf_dirD(2) [OF assms(1), of k] that sorted by (auto simp: map_of_put)
  show "wf_dir sub" if "map_of (property_map (put_entry n e d)) k = Some (x, Some sub)" for k x sub
    using wf_dirD(3) [OF assms(1), of k] that sorted assms(2) [of sub] by (auto simp: map_of_put split: if_splits)
qed

subsection \<open>The copy of a directory and what it forgets\<close>

lemma property_map_clone [simp]:
  "property_map (dir_clone d) = map (map_prod (\<lambda>a. a) (map_prod (\<lambda>a. a) (map_option dir_clone))) (property_map d)"
  by (cases d) (simp add: id_def)

lemma dir_clone_PropDir [simp]: "dir_clone (PropDir m c)
    = PropDir (map (map_prod (\<lambda>a. a) (map_prod (\<lambda>a. a) (map_option dir_clone))) m) None"
  by (simp add: id_def)

declare dir_clone.simps [simp del]

lemma map_put_map: "map (map_prod (\<lambda>a. a) f) (map_put k v m) = map_put k (f v) (map (map_prod (\<lambda>a. a) f) m)"
  by (induction k v m rule: map_put.induct) auto

lemma map_of_map_prod: "map_of (map (map_prod (\<lambda>a. a) f) m) k = map_option f (map_of m k)"
  by (induction m) auto

lemma map_put_same: "map_sorted m \<Longrightarrow> map_of m k = Some v \<Longrightarrow> map_put k v m = m"
proof (induction k v m rule: map_put.induct)
  case (2 k v k' v' m)
  then have "k \<noteq> k' \<Longrightarrow> k \<in> fst ` set m" by (force dest: map_of_SomeD)
  with 2 show ?case by (force simp: map_sorted_Cons)
qed simp

lemma map_sorted_map_prod: "map_sorted (map (map_prod (\<lambda>a. a) f) m) = map_sorted m"
  by (simp add: map_sorted_def comp_def)

lemma clone_put_same:
  assumes "wf_dir d" and "map_of (property_map d) t = Some e"
    and "map_prod (\<lambda>a. a) (map_option dir_clone) e' = map_prod (\<lambda>a. a) (map_option dir_clone) e"
  shows "dir_clone (put_entry t e' d) = dir_clone d"
proof -
  have "map_of (property_map (dir_clone d)) t = Some (map_prod (\<lambda>a. a) (map_option dir_clone) e')"
    using assms(2,3) by (simp add: map_of_map_prod)
  moreover have "map_sorted (property_map (dir_clone d))"
    using wf_dirD(1) [OF assms(1)] by (simp add: map_sorted_map_prod)
  ultimately show ?thesis
    by (cases d) (simp add: put_entry_def map_put_map map_put_same)
qed

lemma entry_at_clone:
  "entry_at ts (dir_clone d) = map_option (map_prod (\<lambda>a. a) (map_option dir_clone)) (entry_at ts d)"
proof (induction ts d rule: entry_at.induct)
  case (2 t ts d)
  show ?case
  proof (cases "map_of (property_map d) t")
    case (Some e)
    then show ?thesis using 2 by (cases "snd e") (auto simp: map_of_map_prod split: option.splits)
  qed (simp add: map_of_map_prod)
qed simp

lemma same_clone_entry:
  assumes "dir_clone d' = dir_clone d"
  shows "map_option fst (entry_at ts d') = map_option fst (entry_at ts d)"
proof -
  have "map_option (map_prod (\<lambda>a. a) (map_option dir_clone)) (entry_at ts d')
      = map_option (map_prod (\<lambda>a. a) (map_option dir_clone)) (entry_at ts d)"
    using assms entry_at_clone by metis
  then show ?thesis by (cases "entry_at ts d'"; cases "entry_at ts d") (auto simp: map_prod_def split: prod.splits)
qed

lemma clone_accessed [simp]: "dir_clone (set_accessed k d) = dir_clone d"
  by (cases d) (simp add: set_accessed_def)

lemma clone_clone: "dir_clone (dir_clone d) = dir_clone d"
proof (induction d)
  case (PropDir m c)
  have "map_option dir_clone (map_option dir_clone s) = map_option dir_clone s"
    if "(k, x, s) \<in> set m" for k x s
    using PropDir [of "(k, x, s)" "(x, s)" s] that by (cases s) auto
  then show ?case by (auto simp: map_prod_def split: prod.splits)
qed

text \<open>
  The comparison of two directories, written as a walk over both trees in step, is the
  equality of the trees with all caches forgotten; a copy is equal to its source and its
  caches are empty.
\<close>

theorem dir_equal_is_equality:
  "(dir_equal d d' \<longleftrightarrow> dir_clone d = dir_clone d') \<and> dir_equal (dir_clone d) d
    \<and> last_accessed (dir_clone d) = None"
proof -
  have main: "dir_equal d d' \<longleftrightarrow> dir_clone d = dir_clone d'" for d d' :: "'d prop_dir"
  proof -
    have "(dir_equal a b \<longleftrightarrow> dir_clone a = dir_clone b)
        \<and> (length m = length m' \<longrightarrow> entries_equal m m'
            \<longleftrightarrow> map (map_prod (\<lambda>a. a) (map_prod (\<lambda>a. a) (map_option dir_clone))) m
              = map (map_prod (\<lambda>a. a) (map_prod (\<lambda>a. a) (map_option dir_clone))) m')
        \<and> (sub_equal s s' \<longleftrightarrow> map_option dir_clone s = map_option dir_clone s')"
      for a b :: "'d prop_dir" and m m' :: "(string \<times> 'd dir_entry) list" and s s' :: "'d prop_dir option"
    proof (intro conjI)
      show "dir_equal a b \<longleftrightarrow> dir_clone a = dir_clone b"
        and "length m = length m' \<longrightarrow> entries_equal m m'
            \<longleftrightarrow> map (map_prod (\<lambda>a. a) (map_prod (\<lambda>a. a) (map_option dir_clone))) m
              = map (map_prod (\<lambda>a. a) (map_prod (\<lambda>a. a) (map_option dir_clone))) m'"
        and "sub_equal s s' \<longleftrightarrow> map_option dir_clone s = map_option dir_clone s'"
      proof (induction a b and m m' and s s' rule: dir_equal_entries_equal_sub_equal.induct)
        case (1 m c m' c')
        then show ?case by (auto dest: map_eq_imp_length_eq)
      qed auto
    qed
    then show ?thesis by blast
  qed
  moreover have "dir_clone (dir_clone d) = dir_clone d" by (rule clone_clone)
  moreover have "last_accessed (dir_clone d) = None" by (cases d) simp
  ultimately show ?thesis by blast
qed

subsection \<open>Walking a path\<close>

text \<open>The caches along a path name its segments.\<close>

fun cached :: "string list \<Rightarrow> 'd prop_dir \<Rightarrow> bool" where
  "cached [] d = True"
| "cached (t # ts) d \<longleftrightarrow> last_accessed d = Some t
     \<and> (ts \<noteq> [] \<longrightarrow> (\<exists>x sub. map_of (property_map d) t = Some (x, Some sub) \<and> cached ts sub))"

lemma get_entry_eq:
  assumes "wf_dir d"
  shows "get_directory_entry t False d
    = (map_of (property_map d) t, if map_of (property_map d) t = None then d else set_accessed t d)"
  using wf_dirD(2) [OF assms, of t]
  by (cases d) (auto simp: get_directory_entry_def set_accessed_def split: option.splits)

lemma wf_set_accessed: "wf_dir d \<Longrightarrow> map_of (property_map d) t \<noteq> None \<Longrightarrow> wf_dir (set_accessed t d)"
  by (cases d) (simp add: set_accessed_def wf_dir_iff)

lemma set_accessed_simps [simp]:
  "property_map (set_accessed t d) = property_map d" "last_accessed (set_accessed t d) = Some t"
  by (simp_all add: set_accessed_def)

lemma get_entry_lookup:
  assumes "wf_dir d" and "get_directory_entry t False d = (r, d')"
  shows "r = map_of (property_map d) t" and "property_map d' = property_map d"
    and "wf_dir d'" and "r \<noteq> None \<longrightarrow> last_accessed d' = Some t" and "dir_clone d' = dir_clone d"
  using assms(2) wf_set_accessed [OF assms(1), of t] assms(1) unfolding get_entry_eq [OF assms(1)]
  by (auto split: if_splits)

lemma walk_lookup:
  assumes "wf_dir d" and "walk False ts d = (r, d')"
  shows "r = entry_at ts d \<and> dir_clone d' = dir_clone d \<and> wf_dir d' \<and> (r \<noteq> None \<longrightarrow> cached ts d')"
  using assms
proof (induction ts arbitrary: d r d')
  case (Cons t ts)
  obtain e d1 where g: "get_directory_entry t False d = (e, d1)" by force
  note look = get_entry_lookup [OF Cons.prems(1) g]
  show ?case
  proof (cases "ts = [] \<or> e = None \<or> (\<exists>x. e = Some (x, None))")
    case True
    then show ?thesis using Cons.prems(2) g look by (auto split: option.splits)
  next
    case False
    then obtain x sub where e: "e = Some (x, Some sub)" "ts \<noteq> []" by (cases e) auto
    obtain r1 sub1 where w: "walk False ts sub = (r1, sub1)" by force
    have sub: "map_of (property_map d1) t = Some (x, Some sub)" using e look(1,2) by simp
    have "wf_dir sub" using wf_dirD(3) [OF look(3) sub] .
    note ih = Cons.IH [OF this w]
    have d': "d' = put_entry t (x, Some sub1) d1" "r = r1" using Cons.prems(2) g e w by auto
    have "dir_clone d' = dir_clone d1"
      unfolding d' using ih by (intro clone_put_same [OF look(3) sub]) simp
    moreover have "wf_dir d'" unfolding d' using ih look(3) by (intro wf_put_entry) auto
    moreover have "last_accessed d1 = Some t" using look(4) e by simp
    moreover have "map_of (property_map d) t = Some (x, Some sub)" using sub look(2) by simp
    ultimately show ?thesis
      using ih look(2,5) e(2) d' wf_dirD(1) [OF look(3)] by (auto simp: map_of_put)
  qed
qed simp

text \<open>
  What a reading operation finds: nothing for a path that trims to nothing, the entry at the
  segments of the path otherwise; only caches are moved.
\<close>

definition found_at :: "path_lib \<Rightarrow> string \<Rightarrow> 'd prop_dir \<Rightarrow> 'd dir_entry option" where
  "found_at L path d = Option.bind (trimmed_tokens L path) (\<lambda>ts. entry_at ts d)"

lemma entry_at_nonempty: "entry_at ts d = Some e \<Longrightarrow> ts \<noteq> []"
  by auto

lemma parse_lookup:
  assumes "wf_dir d" and "parse_directory_path L path False d = (r, d')"
  shows "map_option snd r = found_at L path d" and "dir_clone d' = dir_clone d" and "wf_dir d'"
    and "\<And>ts e. r = Some (ts, e) \<Longrightarrow> trimmed_tokens L path = Some ts \<and> cached ts d' \<and> ts \<noteq> []
          \<and> entry_at ts d = Some e"
proof -
  have "(map_option snd r = found_at L path d \<and> dir_clone d' = dir_clone d \<and> wf_dir d')
    \<and> (\<forall>ts e. r = Some (ts, e) \<longrightarrow> trimmed_tokens L path = Some ts \<and> cached ts d' \<and> ts \<noteq> []
      \<and> entry_at ts d = Some e)"
  proof (cases "trimmed_tokens L path")
    case None
    then show ?thesis using assms by (simp add: parse_directory_path_def found_at_def)
  next
    case (Some ts)
    obtain w d1 where w: "walk False ts d = (w, d1)" by force
    have r: "r = map_option (Pair ts) w" "d' = d1"
      using assms(2) Some w by (simp_all add: parse_directory_path_def)
    show ?thesis using walk_lookup [OF assms(1) w] Some
      by (cases w) (auto simp: r found_at_def option.map_comp comp_def option.map_ident dest!: sym [of "Some _"] entry_at_nonempty)
  qed
  then show "map_option snd r = found_at L path d" "dir_clone d' = dir_clone d" "wf_dir d'"
    "\<And>ts e. r = Some (ts, e) \<Longrightarrow> trimmed_tokens L path = Some ts \<and> cached ts d' \<and> ts \<noteq> []
      \<and> entry_at ts d = Some e"
    by blast+
qed

text \<open>
  Reading a property finds exactly the entry at the segments of its path, in a directory
  of any depth and whatever the caches hold; it changes nothing but the caches, and the caches
  keep naming existing entries.
\<close>

theorem property_lookup_exact:
  assumes "wf_dir d"
  shows "fst (dir_get_data L path d) = Option.bind (found_at L path d) fst
    \<and> fst (get_property_directory L path d) = Option.bind (found_at L path d) snd
    \<and> fst (does_property_exist L path d) = (found_at L path d \<noteq> None)
    \<and> fst (dir_is_directory L path d) = (Option.bind (found_at L path d) snd \<noteq> None)
    \<and> (\<forall>d' \<in> {snd (dir_get_data L path d), snd (get_property_directory L path d),
          snd (does_property_exist L path d), snd (dir_is_directory L path d)}.
        wf_dir d' \<and> dir_clone d' = dir_clone d)"
proof -
  obtain r d' where p: "parse_directory_path L path False d = (r, d')" by force
  note look = parse_lookup [OF assms p]
  show ?thesis using look(2,3) unfolding look(1) [symmetric]
    by (auto simp: dir_get_data_def get_property_directory_def does_property_exist_def
        dir_is_directory_def p split: option.splits prod.splits)
qed

text \<open>A statement with a premise on the tree is tried on a tree of two levels.\<close>

definition sample_dir :: "nat prop_dir" where
  "sample_dir = PropDir [(''a'', None, Some (PropDir [(''b'', Some 5, None)] None)), (''c'', Some 7, None)] (Some ''c'')"

definition sample_lib :: path_lib where
  "sample_lib = \<lparr>trim_copy = (\<lambda>s. s), tokenize = segments, limits_property_name = 10\<rparr>"

lemma wf_sample: "wf_dir sample_dir"
  by (auto simp: sample_dir_def wf_dir_iff map_sorted_def)

theorem property_lookup_exact_witness:
  "fst (dir_get_data sample_lib ''a/b'' sample_dir) = Some 5"
  using property_lookup_exact [OF wf_sample, of sample_lib "''a/b''"]
  by (simp add: found_at_def trimmed_tokens_def sample_lib_def sample_dir_def segments_def SEP_def)

subsection \<open>Setting\<close>

definition data_at :: "string list \<Rightarrow> 'd prop_dir \<Rightarrow> 'd option" where
  "data_at ts d = Option.bind (entry_at ts d) fst"

lemma data_at_Nil [simp]: "data_at [] d = None"
  by (simp add: data_at_def)

lemma data_at_Cons: "data_at (t # ts) d =
   (case map_of (property_map d) t of None \<Rightarrow> None
    | Some (x, s) \<Rightarrow> if ts = [] then x else case s of None \<Rightarrow> None | Some sub \<Rightarrow> data_at ts sub)"
  by (auto simp: data_at_def split: option.splits)

lemma get_entry_create:
  assumes "wf_dir d" and "get_directory_entry t True d = (r, d')"
  shows "wf_dir d'" and "\<exists>e. r = Some e \<and> map_of (property_map d') t = Some e"
    and "data_at us d' = data_at us d"
proof -
  note wf = wf_dirD [OF assms(1)]
  have d': "(r = map_of (property_map d) t \<and> r \<noteq> None \<and> (d' = d \<or> d' = set_accessed t d))
      \<or> (map_of (property_map d) t = None \<and> r = Some (None, None)
          \<and> d' = set_accessed t (put_entry t (None, None) d))"
    using assms(2) wf(2) [of t]
    by (cases d; cases "map_of (property_map d) t")
      (auto simp: get_directory_entry_def set_accessed_def put_entry_def split: if_splits
        dest!: sym [of "Some _"])
  then show "wf_dir d'" using assms(1) wf_put_entry [OF assms(1), of "(None, None)" t] wf(1)
    by (elim disjE conjE) (auto simp: map_of_put intro!: wf_set_accessed)
  show "\<exists>e. r = Some e \<and> map_of (property_map d') t = Some e"
    using d' wf(1) by (auto simp: map_of_put)
  show "data_at us d' = data_at us d"
    using d' wf(1) by (cases us) (auto simp: map_of_put data_at_Cons split: option.splits if_splits)
qed

lemma data_at_put_sub:
  assumes "wf_dir d" and "map_of (property_map d) t = Some (x, Some sub)"
    and "\<And>vs. us = t # vs \<Longrightarrow> vs \<noteq> [] \<Longrightarrow> data_at vs sub' = f vs"
  shows "data_at us (put_entry t (x, Some sub') d)
    = (if us \<noteq> [] \<and> hd us = t \<and> tl us \<noteq> [] then f (tl us) else data_at us d)"
  using assms wf_dirD(1) [OF assms(1)]
  by (cases us) (auto simp: data_at_Cons map_of_put split: option.splits)

lemma walk_create:
  assumes "wf_dir d" and "walk True ts d = (r, d')"
  shows "wf_dir d' \<and> (\<forall>us. data_at us d' = data_at us d) \<and> (\<forall>e. r = Some e \<longrightarrow> entry_at ts d' = Some e)"
  using assms
proof (induction ts arbitrary: d r d')
  case (Cons t ts)
  obtain e d1 where g: "get_directory_entry t True d = (e, d1)" by force
  note new = get_entry_create [OF Cons.prems(1) g]
  then obtain x s where e: "e = Some (x, s)" "map_of (property_map d1) t = Some (x, s)" by fastforce
  show ?case
  proof (cases "ts = [] \<or> s = None")
    case True
    then show ?thesis using Cons.prems(2) g new e by (auto split: if_splits)
  next
    case False
    then obtain sub where s: "s = Some sub" "ts \<noteq> []" by blast
    obtain r1 sub1 where w: "walk True ts sub = (r1, sub1)" by force
    have "wf_dir sub" using wf_dirD(3) [OF new(1)] e s by blast
    note ih = Cons.IH [OF this w]
    have d': "d' = put_entry t (x, Some sub1) d1" "r = r1" using Cons.prems(2) g e s w by auto
    have "wf_dir d'" unfolding d' using ih new(1) by (intro wf_put_entry) auto
    moreover have "data_at us d' = data_at us d1" for us
      unfolding d' using data_at_put_sub [OF new(1), of t x sub us sub1 "\<lambda>vs. data_at vs sub"] e s ih
      by (cases us) (auto simp: data_at_Cons)
    then have "data_at us d' = data_at us d" for us using new(3) by simp
    ultimately show ?thesis
      using ih d' e s wf_dirD(1) [OF new(1)] by (auto simp: map_of_put)
  qed
qed simp

lemma update_put:
  assumes "wf_dir d" and "entry_at ts d = Some e0" and "snd e = snd e0"
  shows "wf_dir (update_parent ts (put_entry (last ts) e) d)
    \<and> data_at us (update_parent ts (put_entry (last ts) e) d) = (if us = ts then fst e else data_at us d)"
  using assms
proof (induction ts arbitrary: us d)
  case (Cons t ts)
  note sorted = wf_dirD(1) [OF Cons.prems(1)]
  obtain x s where t: "map_of (property_map d) t = Some (x, s)"
    using Cons.prems(2) by (auto split: option.splits)
  show ?case
  proof (cases ts)
    case Nil
    then have "e0 = (x, s)" using Cons.prems(2) t by simp
    then show ?thesis
      using Nil t Cons.prems(1,3) sorted wf_dirD(3) [OF Cons.prems(1), of t]
      by (cases e; cases us) (auto simp: data_at_Cons map_of_put intro!: wf_put_entry)
  next
    case (Cons u vs)
    then obtain sub where s: "s = Some sub" "entry_at ts sub = Some e0"
      using Cons.prems(2) t by (auto split: option.splits)
    have "wf_dir sub" using wf_dirD(3) [OF Cons.prems(1)] t s by blast
    note ih = Cons.IH [OF this s(2) Cons.prems(3)]
    let ?sub = "update_parent ts (put_entry (last ts) e) sub"
    have upd: "update_parent (t # ts) (put_entry (last (t # ts)) e) d = put_entry t (x, Some ?sub) d"
      using Cons t s by simp
    have "data_at us (put_entry t (x, Some ?sub) d)
        = (if us \<noteq> [] \<and> hd us = t \<and> tl us \<noteq> []
           then if tl us = ts then fst e else data_at (tl us) sub else data_at us d)"
      using t s ih by (intro data_at_put_sub [OF Cons.prems(1), of t x sub]) auto
    also have "\<dots> = (if us = t # ts then fst e else data_at us d)"
      using Cons t s by (cases us) (auto simp: data_at_Cons)
    finally show ?thesis
      unfolding upd using wf_put_entry [OF Cons.prems(1), of "(x, Some ?sub)" t] ih by auto
  qed
qed simp

lemma dir_get_data_eq: "wf_dir d \<Longrightarrow> fst (dir_get_data L path d)
   = Option.bind (trimmed_tokens L path) (\<lambda>ts. data_at ts d)"
  using property_lookup_exact [of d L path]
  by (auto simp: found_at_def data_at_def split: option.splits)

text \<open>
  When setting a property succeeds, its path reads back the new data, and every path with
  other segments reads the same data as before; when it fails, every path does. This holds in
  directories of any depth.
\<close>

theorem set_property_reads_back:
  assumes "wf_dir d" and "dir_set_property L path v d = (ok, d')"
  shows "wf_dir d'
    \<and> (ok \<longrightarrow> fst (dir_get_data L path d') = Some v)
    \<and> (\<forall>other. \<not> ok \<or> trimmed_tokens L other \<noteq> trimmed_tokens L path
          \<longrightarrow> fst (dir_get_data L other d') = fst (dir_get_data L other d))"
proof -
  obtain r d1 where p: "parse_directory_path L path True d = (r, d1)" by force
  show ?thesis
  proof (cases r)
    case None
    then have d': "d' = d1" "\<not> ok" using assms(2) p by (simp_all add: dir_set_property_def)
    have "wf_dir d1 \<and> (\<forall>us. data_at us d1 = data_at us d)"
      using p walk_create [OF assms(1)] assms(1)
      by (auto simp: parse_directory_path_def split: option.splits if_splits prod.splits)
    then show ?thesis using d' by (simp add: dir_get_data_eq assms(1))
  next
    case (Some te)
    obtain ts e where te: "te = (ts, e)" by (cases te)
    have w: "trimmed_tokens L path = Some ts" "walk True ts d = (Some e, d1)"
      using p Some te by (auto simp: parse_directory_path_def split: option.splits if_splits prod.splits)
    note new = walk_create [OF assms(1) w(2)]
    have d': "d' = update_parent ts (put_entry (last ts) (Some v, snd e)) d1" "ok"
      using assms(2) p Some te by (simp_all add: dir_set_property_def)
    note upd = update_put [of d1 ts e "(Some v, snd e)"]
    have "wf_dir d'" "\<And>us. data_at us d' = (if us = ts then Some v else data_at us d)"
      unfolding d' using upd new by auto
    then show ?thesis using w(1) d'(2) by (auto simp: dir_get_data_eq assms(1) split: bind_splits)
  qed
qed

theorem set_property_reads_back_witness:
  "fst (dir_get_data sample_lib ''a/b'' (snd (dir_set_property sample_lib ''a/b'' 9 sample_dir))) = Some 9
    \<and> fst (dir_get_data sample_lib ''c'' (snd (dir_set_property sample_lib ''a/b'' 9 sample_dir)))
      = fst (dir_get_data sample_lib ''c'' sample_dir)"
proof -
  have "fst (dir_set_property sample_lib ''a/b'' 9 sample_dir)"
    "trimmed_tokens sample_lib ''c'' \<noteq> trimmed_tokens sample_lib ''a/b''"
    by (simp_all add: dir_set_property_def parse_directory_path_def trimmed_tokens_def sample_lib_def
        sample_dir_def segments_def SEP_def text_size_def utf8_size_def byte_constants
        get_directory_entry_def)
  with set_property_reads_back [OF wf_sample, of sample_lib "''a/b''" 9] show ?thesis
    by (metis prod.collapse)
qed

subsection \<open>Directories that come about through the operations\<close>

datatype 'd dir_op =
    OpSet string 'd | OpGet string | OpExists string | OpIsDirectory string
  | OpDelete string | OpDeleteData string | OpNext string | OpPrevious string
  | OpFirst string | OpLast string | OpClear

datatype 'd dir_answer = NoAnswer | DataAnswer "'d option" | BoolAnswer bool | PathAnswer string

fun dir_step :: "path_lib \<Rightarrow> 'd dir_op \<Rightarrow> 'd prop_dir \<Rightarrow> 'd dir_answer \<times> 'd prop_dir" where
  "dir_step L (OpSet p v) d = map_prod BoolAnswer id (dir_set_property L p v d)"
| "dir_step L (OpGet p) d = map_prod DataAnswer id (dir_get_data L p d)"
| "dir_step L (OpExists p) d = map_prod BoolAnswer id (does_property_exist L p d)"
| "dir_step L (OpIsDirectory p) d = map_prod BoolAnswer id (dir_is_directory L p d)"
| "dir_step L (OpDelete p) d = (NoAnswer, dir_delete_property L p d)"
| "dir_step L (OpDeleteData p) d = (NoAnswer, dir_delete_data L p d)"
| "dir_step L (OpNext p) d = map_prod PathAnswer id (dir_get_next L p d)"
| "dir_step L (OpPrevious p) d = map_prod PathAnswer id (dir_get_previous L p d)"
| "dir_step L (OpFirst p) d = map_prod PathAnswer id (dir_get_first L p d)"
| "dir_step L (OpLast p) d = map_prod PathAnswer id (dir_get_last L p d)"
| "dir_step L OpClear d = (NoAnswer, dir_clear d)"

text \<open>Sorted, with a good cache, and without any subdirectory.\<close>

definition flat_dir :: "'d prop_dir \<Rightarrow> bool" where
  "flat_dir d \<longleftrightarrow> map_sorted (property_map d)
     \<and> (\<forall>n. last_accessed d = Some n \<longrightarrow> map_of (property_map d) n \<noteq> None)
     \<and> (\<forall>k x s. map_of (property_map d) k = Some (x, s) \<longrightarrow> s = None)"

text \<open>
  What such a directory is: a map from names to data that may be missing. A path with several
  segments cannot be looked up in it.
\<close>

definition content :: "'d prop_dir \<Rightarrow> string \<Rightarrow> 'd option option" where
  "content d n = map_option fst (map_of (property_map d) n)"

definition next_name :: "(string \<Rightarrow> 'd option option) \<Rightarrow> string \<Rightarrow> string" where
  "next_name c n = (let above = {k \<in> dom c. n < k} in if above = {} then [] else SEP # Min above)"

definition previous_name :: "(string \<Rightarrow> 'd option option) \<Rightarrow> string \<Rightarrow> string" where
  "previous_name c n = (let below = {k \<in> dom c. k < n} in if below = {} then [] else SEP # Max below)"

text \<open>The specification of every operation on that map.\<close>

fun spec_step :: "path_lib \<Rightarrow> 'd dir_op \<Rightarrow> (string \<Rightarrow> 'd option option)
    \<Rightarrow> 'd dir_answer \<times> (string \<Rightarrow> 'd option option)" where
  "spec_step L (OpSet p v) c = (case trimmed_tokens L p of
     Some (t # ts) \<Rightarrow>
       if \<exists>u \<in> set (t # ts). text_size u > limits_property_name L then (BoolAnswer False, c)
       else if ts = [] then (BoolAnswer True, c(t \<mapsto> Some v))
       else (BoolAnswer False, if c t = None then c(t \<mapsto> None) else c)
   | _ \<Rightarrow> (BoolAnswer False, c))"
| "spec_step L (OpGet p) c = (DataAnswer (case trimmed_tokens L p of
     Some [t] \<Rightarrow> Option.bind (c t) id | _ \<Rightarrow> None), c)"
| "spec_step L (OpExists p) c = (BoolAnswer (case trimmed_tokens L p of
     Some [t] \<Rightarrow> c t \<noteq> None | _ \<Rightarrow> False), c)"
| "spec_step L (OpIsDirectory p) c = (BoolAnswer False, c)"
| "spec_step L (OpDelete p) c = (NoAnswer, case trimmed_tokens L p of Some [t] \<Rightarrow> c(t := None) | _ \<Rightarrow> c)"
| "spec_step L (OpDeleteData p) c = (NoAnswer, case trimmed_tokens L p of Some [t] \<Rightarrow> c(t := None) | _ \<Rightarrow> c)"
| "spec_step L (OpNext p) c = (PathAnswer (case trimmed_tokens L p of
     Some [t] \<Rightarrow> if c t = None then [] else next_name c t | _ \<Rightarrow> []), c)"
| "spec_step L (OpPrevious p) c = (PathAnswer (case trimmed_tokens L p of
     Some [t] \<Rightarrow> if c t = None then [] else previous_name c t | _ \<Rightarrow> []), c)"
| "spec_step L (OpFirst p) c = (PathAnswer [], c)"
| "spec_step L (OpLast p) c = (PathAnswer [], c)"
| "spec_step L OpClear c = (NoAnswer, Map.empty)"

lemma flat_dirD:
  assumes "flat_dir d"
  shows "map_sorted (property_map d)"
    and "last_accessed d = Some n \<Longrightarrow> map_of (property_map d) n \<noteq> None"
    and "map_of (property_map d) k = Some (x, s) \<Longrightarrow> s = None"
  using assms unfolding flat_dir_def by blast+

lemma flat_wf: "flat_dir d \<Longrightarrow> wf_dir d"
  by (rule wf_dir_eqI) (blast dest: flat_dirD)+

lemma flat_entry_at: "flat_dir d \<Longrightarrow> entry_at ts d = (case ts of [t] \<Rightarrow> map_of (property_map d) t | _ \<Rightarrow> None)"
  by (cases ts) (auto simp: flat_dir_def split: option.splits list.splits)

lemma flat_set_accessed: "flat_dir d \<Longrightarrow> map_of (property_map d) t \<noteq> None \<Longrightarrow> flat_dir (set_accessed t d)"
  by (auto simp: flat_dir_def)

lemma set_accessed_twice [simp]: "set_accessed k (set_accessed t d) = set_accessed k d"
  by (simp add: set_accessed_def)

lemma content_simps [simp]: "content (set_accessed t d) = content d"
  by (rule ext) (simp add: content_def)

lemma content_put: "map_sorted (property_map d) \<Longrightarrow> content (put_entry t e d) = (content d)(t \<mapsto> fst e)"
  by (rule ext) (simp add: content_def map_of_put)

lemma flat_put: "flat_dir d \<Longrightarrow> flat_dir (put_entry t (x, None) d)"
  by (auto simp: flat_dir_def map_of_put map_sorted_put)

text \<open>On a flat directory a walk finds the entry of a single segment, and makes at most one.\<close>

lemma flat_walk_read:
  assumes "flat_dir d"
  shows "walk False (t # ts) d =
    (if map_of (property_map d) t = None then (None, d)
     else (if ts = [] then map_of (property_map d) t else None, set_accessed t d))"
  using assms get_entry_eq [OF flat_wf [OF assms], of t]
  by (auto simp: flat_dir_def split: option.splits)

lemma flat_walk_create:
  assumes "flat_dir d"
  shows "\<exists>d'. walk True (t # ts) d = (if ts = [] then Some (Option.bind (content d t) id, None) else None, d')
    \<and> flat_dir d' \<and> last_accessed d' = Some t
    \<and> content d' = (if content d t = None then (content d)(t \<mapsto> None) else content d)"
proof (cases "map_of (property_map d) t")
  case None
  then have "last_accessed d \<noteq> Some t" using assms by (auto simp: flat_dir_def)
  with None have "walk True (t # ts) d
      = (if ts = [] then Some (None, None) else None, set_accessed t (put_entry t (None, None) d))"
    by (simp add: get_directory_entry_def set_accessed_def put_entry_def)
  then show ?thesis using None assms flat_put [OF assms, of t None]
    by (auto simp: content_put flat_dir_def map_of_put intro!: flat_set_accessed)
      (simp_all add: content_def)
next
  case (Some e)
  then obtain x where e: "e = (x, None)" using assms by (cases e) (auto simp: flat_dir_def)
  have "walk True (t # ts) d = (if ts = [] then Some (x, None) else None,
      if last_accessed d = Some t then d else set_accessed t d)"
    using Some e by (simp add: get_directory_entry_def set_accessed_def)
  then show ?thesis using Some e assms flat_set_accessed [OF assms, of t]
    by (auto simp: content_def)
qed

lemma flat_parse_read:
  assumes "flat_dir d"
  shows "parse_directory_path L path False d = (case trimmed_tokens L path of
      Some (t # ts) \<Rightarrow>
        if map_of (property_map d) t = None then (None, d)
        else (if ts = [] then map_option (Pair [t]) (map_of (property_map d) t) else None, set_accessed t d)
    | _ \<Rightarrow> (None, d))"
  using flat_walk_read [OF assms]
  by (auto simp: parse_directory_path_def split: option.splits list.splits)

lemma dom_content: "dom (content d) = fst ` set (property_map d)"
  by (auto simp: dom_def content_def map_of_eq_None_iff)

lemma content_None: "content d t = None \<longleftrightarrow> map_of (property_map d) t = None"
  by (simp add: content_def)

text \<open>What one operation does to the content, and that the directory stays flat.\<close>

definition simulates :: "path_lib \<Rightarrow> 'd dir_op \<Rightarrow> 'd prop_dir \<Rightarrow> bool" where
  "simulates L x d \<longleftrightarrow> flat_dir (snd (dir_step L x d))
     \<and> spec_step L x (content d) = (fst (dir_step L x d), content (snd (dir_step L x d)))"

lemma sim_read:
  assumes "flat_dir d"
  shows "simulates L (OpGet p) d" and "simulates L (OpExists p) d" and "simulates L (OpIsDirectory p) d"
    and "simulates L (OpFirst p) d" and "simulates L (OpLast p) d"
  using flat_set_accessed [OF assms] assms flat_dirD(3) [OF assms]
  by (auto simp: simulates_def dir_get_data_def does_property_exist_def dir_is_directory_def
      dir_get_first_def dir_get_last_def get_property_edge_def Let_def flat_parse_read content_None
      content_def split: option.splits list.splits)

lemma sim_step:
  assumes "flat_dir d"
    and "\<And>n. map_of (property_map d) n \<noteq> None \<Longrightarrow> step n (map_keys (property_map d))
      = (let ks = ks_of n in if ks = {} then None else Some (pick ks))"
    and "\<And>n. map_of (property_map d) n \<noteq> None \<Longrightarrow> finite (ks_of n) \<Longrightarrow> ks_of n \<noteq> {} \<Longrightarrow> pick (ks_of n) \<in> ks_of n"
    and "\<And>n. ks_of n \<subseteq> set (map_keys (property_map d))"
  shows "flat_dir (snd (step_property step L p d)) \<and> content (snd (step_property step L p d)) = content d
    \<and> fst (step_property step L p d) = (case trimmed_tokens L p of
        Some [t] \<Rightarrow> if content d t = None then [] else if ks_of t = {} then [] else SEP # pick (ks_of t)
      | _ \<Rightarrow> [])"
proof (cases "\<exists>t. trimmed_tokens L p = Some [t] \<and> map_of (property_map d) t \<noteq> None")
  case False
  then show ?thesis using flat_set_accessed [OF assms(1)] assms(1)
    by (auto simp: step_property_def flat_parse_read content_None split: option.splits list.splits)
next
  case True
  then obtain t e where t: "trimmed_tokens L p = Some [t]" "map_of (property_map d) t = Some e" by auto
  note sub = assms(4) [unfolded map_keys_def set_map]
  have "finite (ks_of t)" by (rule finite_subset [OF assms(4)]) simp
  then have "ks_of t \<noteq> {} \<Longrightarrow> map_of (property_map d) (pick (ks_of t)) \<noteq> None"
    using assms(3) [of t] sub [of t] t by (auto simp: map_of_eq_None_iff)
  then show ?thesis
    using t assms(1) assms(2) [of t] flat_set_accessed [OF assms(1)] flat_dirD(3) [OF assms(1)]
    by (cases "ks_of t = {}"; cases "map_of (property_map d) (pick (ks_of t))")
      (auto simp: step_property_def flat_parse_read content_None Let_def split: option.splits)
qed

lemma sim_next:
  assumes "flat_dir d"
  shows "simulates L (OpNext p) d" and "simulates L (OpPrevious p) d"
proof -
  have sorted: "sorted_wrt (<) (map_keys (property_map d))"
    using flat_dirD(1) [OF assms] by (simp add: map_sorted_def map_keys_def)
  have mem: "map_of (property_map d) n \<noteq> None \<Longrightarrow> n \<in> set (map_keys (property_map d))" for n
    by (simp add: map_keys_def map_of_eq_None_iff)
  have keys: "fst ` set (property_map d) = set (map_keys (property_map d))" by (simp add: map_keys_def)
  have "flat_dir (snd (dir_get_next L p d)) \<and> content (snd (dir_get_next L p d)) = content d
    \<and> fst (dir_get_next L p d) = (case trimmed_tokens L p of
        Some [t] \<Rightarrow> if content d t = None then []
          else if {k \<in> fst ` set (property_map d). t < k} = {} then []
          else SEP # Min {k \<in> fst ` set (property_map d). t < k} | _ \<Rightarrow> [])"
    unfolding dir_get_next_def keys
    by (rule sim_step [OF assms]) (rule key_after_least [OF sorted mem] Min_in, assumption+ | blast)+
  then show "simulates L (OpNext p) d"
    unfolding simulates_def dir_step.simps spec_step.simps next_name_def dom_content keys Let_def
    by (simp split: option.splits list.splits)
  have "flat_dir (snd (dir_get_previous L p d)) \<and> content (snd (dir_get_previous L p d)) = content d
    \<and> fst (dir_get_previous L p d) = (case trimmed_tokens L p of
        Some [t] \<Rightarrow> if content d t = None then []
          else if {k \<in> fst ` set (property_map d). k < t} = {} then []
          else SEP # Max {k \<in> fst ` set (property_map d). k < t} | _ \<Rightarrow> [])"
    unfolding dir_get_previous_def keys
    by (rule sim_step [OF assms]) (rule key_before_greatest [OF sorted mem] Max_in, assumption+ | blast)+
  then show "simulates L (OpPrevious p) d"
    unfolding simulates_def dir_step.simps spec_step.simps previous_name_def dom_content keys Let_def
    by (simp split: option.splits list.splits)
qed

lemma flat_erase: "flat_dir d \<Longrightarrow> flat_dir (PropDir (map_erase t (property_map d)) None)"
  by (auto simp: flat_dir_def map_of_erase map_sorted_erase split: if_splits)

lemma content_erase: "content (PropDir (map_erase t (property_map d)) None) = (content d)(t := None)"
  by (rule ext) (simp add: content_def map_of_erase)

lemma map_erase_put: "map_erase t (map_put t e m) = map_erase t m"
  by (induction t e m rule: map_put.induct) (auto simp: map_erase_def)

lemma flat_delete:
  assumes "flat_dir d"
  shows "flat_dir (dir_delete_property L p d)
    \<and> content (dir_delete_property L p d)
      = (case trimmed_tokens L p of Some [t] \<Rightarrow> (content d)(t := None) | _ \<Rightarrow> content d)"
proof -
  have absent: "map_of (property_map d) t = None \<Longrightarrow> (content d)(t := None) = content d" for t
    by (rule ext) (simp add: content_def)
  have "dir_delete_property L p d = (case trimmed_tokens L p of
      Some [t] \<Rightarrow> if map_of (property_map d) t = None then d
        else PropDir (map_erase t (property_map d)) None
    | Some (t # u # ts) \<Rightarrow> if map_of (property_map d) t = None then d else set_accessed t d
    | _ \<Rightarrow> d)"
    by (auto simp: dir_delete_property_def flat_parse_read [OF assms] map_erase_put Let_def
        split: option.splits list.splits)
  then show ?thesis using assms flat_set_accessed [OF assms] absent
    by (auto simp: flat_erase content_erase split: option.splits list.splits)
qed

lemma sim_change:
  assumes "flat_dir d"
  shows "simulates L (OpDelete p) d" and "simulates L (OpDeleteData p) d" and "simulates L OpClear d"
proof -
  show "simulates L (OpDelete p) d"
    using flat_delete [OF assms, of L p] by (simp add: simulates_def split: option.splits list.splits)
  have data: "dir_delete_data L p d = (case trimmed_tokens L p of
      Some [t] \<Rightarrow> if map_of (property_map d) t = None then d
        else dir_delete_property L p (set_accessed t d)
    | Some (t # u # ts) \<Rightarrow> if map_of (property_map d) t = None then d else set_accessed t d
    | _ \<Rightarrow> d)"
    using flat_dirD(3) [OF assms]
    by (auto simp: dir_delete_data_def flat_parse_read [OF assms] split: option.splits list.splits)
  have absent: "map_of (property_map d) t = None \<Longrightarrow> (content d)(t := None) = content d" for t
    by (rule ext) (simp add: content_def)
  show "simulates L (OpDeleteData p) d"
    using flat_delete [OF flat_set_accessed [OF assms], of _ L p] flat_set_accessed [OF assms] assms absent
    by (auto simp: simulates_def data split: option.splits list.splits)
  show "simulates L OpClear d"
    by (auto simp: simulates_def dir_clear_def flat_dir_def content_def)
qed

lemma sim_set:
  assumes "flat_dir d"
  shows "simulates L (OpSet p v) d"
proof (cases "trimmed_tokens L p")
  case None
  then show ?thesis using assms by (simp add: simulates_def dir_set_property_def parse_directory_path_def)
next
  case (Some tts)
  show ?thesis
  proof (cases tts)
    case Nil
    then show ?thesis using assms Some
      by (simp add: simulates_def dir_set_property_def parse_directory_path_def)
  next
    case (Cons t ts)
    obtain d' where d': "walk True (t # ts) d = (if ts = [] then Some (Option.bind (content d t) id, None) else None, d')"
      "flat_dir d'" "content d' = (if content d t = None then (content d)(t \<mapsto> None) else content d)"
      using flat_walk_create [OF assms] by blast
    have put: "content (put_entry t (Some v, None) d') = (content d)(t \<mapsto> Some v)"
      using d'(3) content_put [OF flat_dirD(1) [OF d'(2)]] by auto
    show ?thesis
    proof (cases "\<exists>u \<in> set (t # ts). text_size u > limits_property_name L")
      case True
      then show ?thesis using assms Some Cons
        by (auto simp: simulates_def dir_set_property_def parse_directory_path_def)
    next
      case False
      then show ?thesis using assms Some Cons d' put flat_put [OF d'(2)]
        by (simp add: simulates_def dir_set_property_def parse_directory_path_def)
    qed
  qed
qed

lemma dir_simulates: "flat_dir d \<Longrightarrow> simulates L x d"
  by (cases x) (simp_all add: sim_read sim_next sim_change sim_set)

interpretation dirs: simulation "dir_step L" "spec_step L" content flat_dir for L
proof
  fix d :: "'d prop_dir" and x
  assume "flat_dir d"
  from dir_simulates [OF this, of L x] show "flat_dir (snd (dir_step L x d))"
    "spec_step L x (content d) = (fst (dir_step L x d), content (snd (dir_step L x d)))"
    by (simp_all add: simulates_def)
qed

lemma empty_dir_flat: "flat_dir empty_dir" and content_empty: "content empty_dir = Map.empty"
  by (auto simp: flat_dir_def empty_dir_def content_def fun_eq_iff)

text \<open>
  C22. A property directory that starts empty refines a map from names to data: for every
  sequence of operations, setting, reading, deleting, walking and clearing, the answers are
  those of the specification, and so is the content at the end. In that specification a name
  with several segments is never stored, nothing ever is a directory, and the next and the
  previous property are the neighbours in the order of the names.
\<close>

theorem property_directory_refines:
  "run_ops (spec_step L) xs Map.empty
    = (fst (run_ops (dir_step L) xs empty_dir), content (snd (run_ops (dir_step L) xs empty_dir)))"
  using dirs.run_simulates [OF empty_dir_flat, of L xs] by (simp add: content_empty)

lemma reachable_flat: "flat_dir (snd (run_ops (dir_step L) xs empty_dir))"
  using dirs.run_simulates [OF empty_dir_flat] by blast

text \<open>
  Every directory that operations make out of an empty one has sorted names, a cache that
  names an existing entry, and no subdirectory: setting a property on a path of several segments
  never makes the directories on the way.
\<close>

theorem reachable_directory_flat:
  "flat_dir (snd (run_ops (dir_step L) xs empty_dir))"
  by (rule reachable_flat)

subsection \<open>Paths of several segments and leading separators\<close>

text \<open>
  In a directory made by the operations, setting a property below a name that is within
  the length limits always fails, whatever it holds; it leaves an entry without data under the
  first segment when there was none.
\<close>

theorem set_below_fails:
  assumes "trimmed_tokens L path = Some (t # u # ts)"
    and "\<forall>n \<in> set (t # u # ts). text_size n \<le> limits_property_name L"
    and "d = snd (run_ops (dir_step L) xs empty_dir)"
  shows "fst (dir_set_property L path v d) = False
    \<and> content (snd (dir_set_property L path v d)) t
      = (if content d t = None then Some None else content d t)"
proof -
  have flat: "flat_dir d" using reachable_flat assms(3) by blast
  show ?thesis using sim_set [OF flat, of L path v] assms(1,2)
    by (cases "content d t") (auto simp: simulates_def not_le [symmetric] map_prod_def
        split: if_splits prod.splits dest!: sym [of _ "content _"])
qed

theorem set_below_fails_witness:
  "fst (dir_set_property sample_lib ''a/b'' (5::nat) empty_dir) = False
    \<and> content (snd (dir_set_property sample_lib ''a/b'' (5::nat) empty_dir)) ''a'' = Some None"
proof -
  have "trimmed_tokens sample_lib ''a/b'' = Some [''a'', ''b'']"
    by (simp add: trimmed_tokens_def sample_lib_def segments_def SEP_def)
  moreover have "\<forall>n \<in> set [''a'', ''b'']. text_size n \<le> limits_property_name sample_lib"
    by (simp add: text_size_def utf8_size_def byte_constants sample_lib_def)
  ultimately show ?thesis
    using set_below_fails [of sample_lib "''a/b''" "''a''" "''b''" "[]" empty_dir "[]" "5::nat"]
    by (simp add: content_empty)
qed

lemma segments_name: "SEP \<notin> set n \<Longrightarrow> n \<noteq> [] \<Longrightarrow> segments n = [n]"
proof -
  have "SEP \<notin> set n \<Longrightarrow> segments_from cur n = (if cur @ n = [] then [] else [cur @ n])" for cur
    by (induction n arbitrary: cur) auto
  then show "SEP \<notin> set n \<Longrightarrow> n \<noteq> [] \<Longrightarrow> segments n = [n]" by (simp add: segments_def)
qed

lemma tokens_leading:
  assumes "splits_paths L" and "trim_copy L (SEP # c # rest) = SEP # c # rest" and "c \<noteq> SEP"
    and "SEP \<notin> set rest"
  shows "trimmed_tokens L (SEP # c # rest) = Some (if rest = [] then [] else [rest])"
  using assms segments_name [OF assms(4)]
  by (cases rest) (auto simp: trimmed_tokens_def splits_paths_def segments_def)

lemma tokens_name:
  assumes "splits_paths L" and "trim_copy L n = n" and "n \<noteq> []" and "SEP \<notin> set n"
  shows "trimmed_tokens L n = Some [n]"
  using assms segments_name [of n] by (cases n) (auto simp: trimmed_tokens_def splits_paths_def)

text \<open>
  The path that walking to the next property returns starts with a separator, and a path
  with a leading separator loses the first character of its name: looking the returned path up
  finds the entry whose name lacks that character, or nothing, but not the property it names.
\<close>

theorem next_path_not_usable:
  assumes "flat_dir d" and "splits_paths L" and "trim_copy L n = n" and "n \<noteq> []" and "SEP \<notin> set n"
    and "content d n \<noteq> None" and "next_name (content d) n = SEP # c # rest"
    and "trim_copy L (SEP # c # rest) = SEP # c # rest" and "c \<noteq> SEP" and "SEP \<notin> set rest"
  shows "fst (dir_get_next L n d) = SEP # c # rest
    \<and> fst (dir_get_data L (SEP # c # rest) d) = (if rest = [] then None else Option.bind (content d rest) id)"
proof
  have answer: "fst (spec_step L x (content d)) = fst (dir_step L x d)" for x
    using dir_simulates [OF assms(1), of L x] by (simp add: simulates_def)
  show "fst (dir_get_next L n d) = SEP # c # rest"
    using answer [of "OpNext n"] assms(6,7) tokens_name [OF assms(2-5)] by auto
  show "fst (dir_get_data L (SEP # c # rest) d) = (if rest = [] then None else Option.bind (content d rest) id)"
    using answer [of "OpGet (SEP # c # rest)"] tokens_leading [OF assms(2,8-10)] by (cases "rest = []") auto
qed

text \<open>Two properties, of which the second cannot be reached by walking from the first.\<close>

definition two_props :: "nat prop_dir" where
  "two_props = PropDir [(''ab'', Some 1, None), (''cd'', Some 2, None)] None"

theorem next_path_not_usable_witness:
  "fst (dir_get_next sample_lib ''ab'' two_props) = ''/cd''
    \<and> fst (dir_get_data sample_lib ''/cd'' two_props) = None"
proof -
  have flat: "flat_dir two_props" by (auto simp: two_props_def flat_dir_def map_sorted_def split: if_splits)
  have "{k \<in> dom (content two_props). ''ab'' < k} = {''cd''}"
    by (auto simp: dom_content two_props_def)
  then have "next_name (content two_props) ''ab'' = SEP # CHR ''c'' # ''d''"
    by (simp add: next_name_def)
  moreover have "content two_props ''ab'' = Some (Some 1)" "content two_props ''d'' = None"
    by (simp_all add: content_def two_props_def)
  ultimately show ?thesis
    using next_path_not_usable [OF flat, of sample_lib "''ab''" "CHR ''c''" "''d''"]
    by (simp add: splits_paths_def sample_lib_def SEP_def)
qed

end
