(* ===== verification/PropDataProps.thy ===== *)
theory PropDataProps
  imports PropData
begin

text \<open>
  What the data of properties promises: its order on plain data, sets as finite sets of one
  type, the round trips through text, and the limits of documents and printed forms.
\<close>

text \<open>The operations of the single classes are unfolded throughout.\<close>

lemmas class_defs [simp] = doc_equal_def set_equal_def set_below_def doc_text_def doc_short_text_def
  string_set_def doc_set_from_string_def

subsection \<open>The order of plain data\<close>

text \<open>
  Data without floats (which have values that are not comparable), documents and sets (whose
  order is none, see below).
\<close>

fun plain :: "'f property_data \<Rightarrow> bool" where
  "plain (BooleanProperty b) = True" | "plain (IntegerProperty n) = True"
| "plain (FloatProperty x) = False" | "plain (StringProperty s) = True"
| "plain (IdProperty i) = True" | "plain (DocumentProperty m ls) = False"
| "plain (SetProperty t xs) = False"

lemma plain_irrefl: "plain p \<Longrightarrow> \<not> prop_less L p p"
  by (cases p) simp_all

lemma plain_trans: "plain p \<Longrightarrow> plain q \<Longrightarrow> plain r \<Longrightarrow> prop_less L p q \<Longrightarrow> prop_less L q r \<Longrightarrow> prop_less L p r"
  by (cases p; cases q; cases r) (auto simp: type_below_def)

lemma sint_total: "a \<noteq> b \<Longrightarrow> \<not> sint a < sint b \<Longrightarrow> sint b < sint (a :: u32)"
proof -
  assume ne: "a \<noteq> b" and "\<not> sint a < sint b"
  moreover have "sint a \<noteq> sint b"
  proof
    assume "sint a = sint b"
    then have "(of_int (sint a) :: u32) = of_int (sint b)" by simp
    with ne show False by simp
  qed
  ultimately show ?thesis by linarith
qed

lemma plain_total: "plain p \<Longrightarrow> plain q \<Longrightarrow> prop_less L p q \<or> p = q \<or> prop_less L q p"
  by (cases p; cases q) (auto simp: type_below_def intro: sint_total)

lemma plain_equal: "plain p \<Longrightarrow> prop_equal L p q \<longleftrightarrow> p = q"
  by (cases p; cases q) simp_all

lemma plain_clone [simp]: "plain p \<Longrightarrow> prop_clone L p = p"
  by (cases p) simp_all

interpretation plain_data: comparator "prop_less L" "Collect plain" for L
  by unfold_locales (auto dest: plain_irrefl plain_trans plain_total)

text \<open>
  On booleans, integers, strings and identifiers, of the same type or of different types,
  the order of property data is a strict linear order and its equality is the one of the order:
  of two of them exactly one holds, the first is below, they are equal, the second is below.
\<close>

theorem plain_order_strict:
  assumes "plain p" and "plain q" and "plain r"
  shows "(prop_less L p q \<longleftrightarrow> \<not> prop_equal L p q \<and> \<not> prop_less L q p)
    \<and> (prop_less L p q \<longrightarrow> prop_less L q r \<longrightarrow> prop_less L p r)"
proof (intro conjI impI)
  show "prop_less L p q \<longleftrightarrow> \<not> prop_equal L p q \<and> \<not> prop_less L q p"
    using assms plain_equal plain_irrefl plain_total plain_data.asym by (metis mem_Collect_eq)
qed (rule plain_trans [OF assms])

text \<open>
  The order of documents is no order: the walk over two documents does not stop where the
  left one is above, so each of two documents can be below the other. Sets inherit this. A set
  of documents, which the code keeps in a container sorted by this order, has no defined
  behaviour.
\<close>

theorem document_order_not_strict:
  "prop_less L (DocumentProperty m [''b'', ''a'']) (DocumentProperty m [''a'', ''b''])
    \<and> prop_less L (DocumentProperty m [''a'', ''b'']) (DocumentProperty m [''b'', ''a''])
    \<and> prop_less L (SetProperty PROPERTYDATATYPE_integer [IntegerProperty 1, IntegerProperty 4])
        (SetProperty PROPERTYDATATYPE_integer [IntegerProperty 2, IntegerProperty 3])
    \<and> prop_less L (SetProperty PROPERTYDATATYPE_integer [IntegerProperty 2, IntegerProperty 3])
        (SetProperty PROPERTYDATATYPE_integer [IntegerProperty 1, IntegerProperty 4])"
  by (simp add: doc_below_def)

text \<open>Inputs that meet the hypotheses of the first.\<close>

definition simple_lib :: "nat data_lib" where
  "simple_lib = \<lparr>paths = \<lparr>trim_copy = (\<lambda>s. s), tokenize = segments, limits_property_name = 64\<rparr>,
     float_equal = (=), float_less = (<), float_text = dec_string, float_parse = (\<lambda>s. Some (dec_value s)),
     float_truncate = of_nat, int_text = (\<lambda>n. dec_string (unat n)),
     int_parse = (\<lambda>s. Some (of_nat (dec_value s))), site_parse = (\<lambda>s. Some (of_nat (dec_value s))),
     entity_parse = (\<lambda>s. Some (of_nat (dec_value s))),
     lower_copy = (\<lambda>s. if s = ''True'' then ''true'' else if s = ''False'' then ''false'' else s),
     split_on = tokens_on, limit_string_size = 4096, limit_set_items = 2, limit_document_lines = 2\<rparr>"

theorem plain_order_strict_witness:
  "prop_less simple_lib (StringProperty ''a'') (StringProperty ''b'')
    \<and> prop_less simple_lib (StringProperty ''a'') (IdProperty (DbId 1 1))"
  using plain_order_strict [of "StringProperty ''a''" "StringProperty ''b''" "IdProperty (DbId 1 1)" simple_lib]
  by (simp add: type_below_def)

subsection \<open>Sets\<close>

text \<open>
  The operations on a set, with plain items, and the specification: a finite set, of which an
  empty one takes any type, any other the type of its elements, up to a number of elements.
\<close>

datatype 'f set_op = SetAdd "'f property_data" | SetRemove "'f property_data"
  | SetHas "'f property_data" | SetSize | SetClear

datatype set_answer = SetBool bool | SetNat nat | SetUnit

fun set_step :: "'f data_lib \<Rightarrow> 'f set_op \<Rightarrow> 'f prop_set \<Rightarrow> set_answer \<times> 'f prop_set" where
  "set_step L (SetAdd p) s = (if plain p then map_prod SetBool id (set_add L p s) else (SetUnit, s))"
| "set_step L (SetRemove p) s = (if plain p then map_prod SetBool id (set_remove L p s) else (SetUnit, s))"
| "set_step L (SetHas p) s = (if plain p then (SetBool (set_contains L p s), s) else (SetUnit, s))"
| "set_step L SetSize s = (SetNat (length (snd s)), s)"
| "set_step L SetClear s = (SetUnit, set_clear s)"

definition same_type :: "'f property_data \<Rightarrow> 'f property_data set \<Rightarrow> bool" where
  "same_type p A \<longleftrightarrow> (\<forall>q \<in> A. get_data_type q = get_data_type p)"

fun set_spec :: "'f data_lib \<Rightarrow> 'f set_op \<Rightarrow> 'f property_data set \<Rightarrow> set_answer \<times> 'f property_data set" where
  "set_spec L (SetAdd p) A =
     (if \<not> plain p then (SetUnit, A)
      else if A = {} \<or> same_type p A \<and> card A \<le> limit_set_items L then (SetBool True, insert p A)
      else (SetBool False, A))"
| "set_spec L (SetRemove p) A =
     (if \<not> plain p then (SetUnit, A)
      else if A \<noteq> {} \<and> same_type p A then (SetBool True, A - {p}) else (SetBool False, A))"
| "set_spec L (SetHas p) A = (if plain p then SetBool (p \<in> A) else SetUnit, A)"
| "set_spec L SetSize A = (SetNat (card A), A)"
| "set_spec L SetClear A = (SetUnit, {})"

definition set_ok :: "'f data_lib \<Rightarrow> 'f prop_set \<Rightarrow> bool" where
  "set_ok L s \<longleftrightarrow> set (snd s) \<subseteq> Collect plain \<and> sorted_wrt (prop_less L) (snd s)
     \<and> (\<forall>p \<in> set (snd s). get_data_type p = fst s)
     \<and> (snd s = [] \<longrightarrow> fst s = PROPERTYDATATYPE_invalid) \<and> length (snd s) \<le> limit_set_items L + 1"

lemma data_type_valid [simp]:
  "get_data_type p \<noteq> PROPERTYDATATYPE_invalid" "PROPERTYDATATYPE_invalid \<noteq> get_data_type p"
  by (cases p; simp)+

lemma set_okD:
  assumes "set_ok L (t, xs)"
  shows "set xs \<subseteq> Collect plain" "sorted_wrt (prop_less L) xs" "p \<in> set xs \<Longrightarrow> get_data_type p = t"
    "t = PROPERTYDATATYPE_invalid \<longleftrightarrow> xs = []" "length xs = card (set xs)"
    "same_type q (set xs) \<and> xs \<noteq> [] \<longleftrightarrow> t = get_data_type q"
proof -
  show xs: "set xs \<subseteq> Collect plain" "sorted_wrt (prop_less L) xs" "p \<in> set xs \<Longrightarrow> get_data_type p = t"
    using assms by (simp_all add: set_ok_def)
  show empty: "t = PROPERTYDATATYPE_invalid \<longleftrightarrow> xs = []"
    using assms by (cases xs) (auto simp: set_ok_def)
  show "length xs = card (set xs)" by (rule plain_data.length_sorted [OF xs(1,2)])
  show "same_type q (set xs) \<and> xs \<noteq> [] \<longleftrightarrow> t = get_data_type q"
    using assms empty by (cases xs) (auto simp: set_ok_def same_type_def)
qed

lemma set_add_ok:
  assumes "set_ok L (t, xs)" and "plain p"
  shows "set_ok L (snd (set_add L p (t, xs)))
    \<and> set_spec L (SetAdd p) (set xs)
      = (SetBool (fst (set_add L p (t, xs))), set (snd (snd (set_add L p (t, xs)))))"
proof -
  note xs = set_okD [OF assms(1)]
  have ins: "set (ord_insert (prop_less L) p xs) = insert p (set xs)"
    using plain_data.set_insert [OF _ xs(1)] assms(2) by simp
  have sorted: "sorted_wrt (prop_less L) (ord_insert (prop_less L) p xs)"
    using plain_data.sorted_insert [OF _ xs(1,2)] assms(2) by simp
  have subset: "insert p (set xs) \<subseteq> Collect plain" using xs(1) assms(2) by simp
  have "length (ord_insert (prop_less L) p xs) = card (insert p (set xs))"
    using plain_data.length_sorted [OF _ sorted] subset by (simp add: ins)
  then have len: "length (ord_insert (prop_less L) p xs) \<le> length xs + 1"
    using xs(5) by (simp add: card_insert_if)
  have ne: "ord_insert (prop_less L) p xs \<noteq> []" using ins by (metis empty_iff insertI1 list.set(1))
  show ?thesis
    using assms xs(4,5) xs(6) [of p] xs(3) sorted subset len ne
    by (auto simp: set_ok_def ins set_is_full_def)
qed

lemma set_remove_ok:
  assumes "set_ok L (t, xs)" and "plain p"
  shows "set_ok L (snd (set_remove L p (t, xs)))
    \<and> set_spec L (SetRemove p) (set xs)
      = (SetBool (fst (set_remove L p (t, xs))), set (snd (snd (set_remove L p (t, xs)))))"
proof -
  note xs = set_okD [OF assms(1)]
  let ?ys = "ord_erase (prop_less L) p xs"
  have ys: "set ?ys = set xs - {p}" using plain_data.set_erase [OF _ xs(1,2)] assms(2) by simp
  have found: "ord_find (prop_less L) p xs = (if p \<in> set xs then Some p else None)"
    using plain_data.find_exact [OF _ xs(1,2)] assms(2) by simp
  have sorted: "sorted_wrt (prop_less L) ?ys" by (rule plain_data.sorted_erase [OF xs(2)])
  have "set ?ys \<subseteq> Collect plain" using ys xs(1) by auto
  then have "length ?ys = card (set xs - {p})" using plain_data.length_sorted [OF _ sorted] ys by simp
  then have len: "length ?ys \<le> length xs" using xs(5) by (simp add: card_Diff1_le)
  have type: "A \<noteq> {} \<and> same_type p A \<longleftrightarrow> t = get_data_type p" if "A = set xs" for A
    using xs(6) [of p] that by auto
  show ?thesis
  proof (cases "t = get_data_type p \<and> p \<in> set xs")
    case True
    then have "set_remove L p (t, xs)
      = (True, if ?ys = [] then PROPERTYDATATYPE_invalid else t, ?ys)" using found by simp
    moreover have "set_ok L (if ?ys = [] then PROPERTYDATATYPE_invalid else t, ?ys)"
      using assms(1) sorted ys len \<open>set ?ys \<subseteq> Collect plain\<close> unfolding set_ok_def
      by (cases "?ys = []") auto
    moreover have "set xs \<noteq> {} \<and> same_type p (set xs)" using type True by blast
    ultimately show ?thesis using assms(2) ys by (simp del: set_remove.simps)
  next
    case False
    then have "set_remove L p (t, xs) = (t = get_data_type p, t, xs)" using found by simp
    moreover have "set xs \<noteq> {} \<and> same_type p (set xs) \<longleftrightarrow> t = get_data_type p" by (rule type) simp
    moreover have "set xs - {p} = set xs" if "t = get_data_type p" using False that by blast
    ultimately show ?thesis using assms by (simp del: set_remove.simps)
  qed
qed

lemma set_has_ok:
  assumes "set_ok L (t, xs)" and "plain p"
  shows "set_contains L p (t, xs) \<longleftrightarrow> p \<in> set xs"
proof -
  note xs = set_okD [OF assms(1)]
  have "ord_find (prop_less L) p xs = (if p \<in> set xs then Some p else None)"
    using plain_data.find_exact [OF _ xs(1,2)] assms(2) by simp
  then show ?thesis using xs(3) [of p] by auto
qed

interpretation sets: simulation "set_step L" "set_spec L" "\<lambda>s. set (snd s)" "set_ok L" for L
proof
  fix L s x
  assume ok: "set_ok L s"
  obtain t xs where s: "s = (t, xs)" by (cases s)
  note ok' = ok [unfolded s]
  have "set_ok L (snd (set_step L x s))
    \<and> set_spec L x (set (snd s)) = (fst (set_step L x s), set (snd (snd (set_step L x s))))"
  proof (cases x)
    case (SetAdd p)
    then show ?thesis using set_add_ok [OF ok', of p] ok'
      by (cases "plain p") (simp_all add: s del: set_add.simps)
  next
    case (SetRemove p)
    then show ?thesis using set_remove_ok [OF ok', of p] ok'
      by (cases "plain p") (simp_all add: s del: set_remove.simps)
  next
    case (SetHas p)
    then show ?thesis using set_has_ok [OF ok', of p] ok' by (simp add: s del: set_contains.simps)
  qed (use ok' set_okD(5) [OF ok'] in \<open>auto simp: s set_clear_def set_ok_def\<close>)
  then show "set_ok L (snd (set_step L x s))"
    and "set_spec L x (set (snd s)) = (fst (set_step L x s), set (snd (snd (set_step L x s))))"
    by blast+
qed

lemma set_new_ok: "set_ok L set_new"
  by (simp add: set_ok_def set_new_def)

text \<open>
  A property set refines a finite set of data of one type: over every run from a new set,
  adding, removing, asking and counting answer as they do there, and the set never has more
  than one element above the configured limit. (The limit is tested with greater-than, so that
  many it can have: \<open>property_set_overfull\<close>.)
\<close>

theorem property_set_refines:
  "run_ops (set_spec L) ops {}
      = (fst (run_ops (set_step L) ops set_new), set (snd (snd (run_ops (set_step L) ops set_new))))
    \<and> length (snd (snd (run_ops (set_step L) ops set_new))) \<le> limit_set_items L + 1"
proof -
  from sets.run_simulates [where L = L and xs = ops, OF set_new_ok]
  have "set_ok L (snd (run_ops (set_step L) ops set_new))"
    and "run_ops (set_spec L) ops (set (snd set_new))
      = (fst (run_ops (set_step L) ops set_new), set (snd (snd (run_ops (set_step L) ops set_new))))"
    by blast+
  then show ?thesis by (simp add: set_ok_def) (simp add: set_new_def)
qed

lemma spec_adds:
  "n \<le> limit_set_items L + 1 \<Longrightarrow>
    snd (run_ops (set_spec L) (map (\<lambda>i. SetAdd (StringProperty (replicate i CHR ''a''))) [0..<n]) {})
      = (\<lambda>i. StringProperty (replicate i CHR ''a'')) ` {0..<n}"
proof (induction n)
  case (Suc n)
  let ?A = "(\<lambda>i. StringProperty (replicate i CHR ''a'')) ` {0..<n} :: 'a property_data set"
  have "card ?A = n" by (subst card_image) (auto simp: inj_on_def)
  then show ?case using Suc
    by (simp add: run_ops_state same_type_def atLeastLessThanSuc)
qed simp

text \<open>
  A property set can hold one element more than the configured limit, although it counts
  as full only then.
\<close>

theorem property_set_overfull:
  "\<exists>ops. length (snd (snd (run_ops (set_step L) ops set_new))) = limit_set_items L + 1
    \<and> set_is_full L (snd (snd (run_ops (set_step L) ops set_new)))"
proof -
  let ?ops = "map (\<lambda>i. SetAdd (StringProperty (replicate i CHR ''a''))) [0..<limit_set_items L + 1]"
  let ?xs = "snd (snd (run_ops (set_step L) ?ops set_new))"
  from sets.run_simulates [where L = L and xs = ?ops, OF set_new_ok]
  have ok: "set_ok L (snd (run_ops (set_step L) ?ops set_new))"
    and set: "snd (run_ops (set_spec L) ?ops {}) = set ?xs" by (simp_all add: set_new_def)
  have "card (set ?xs) = limit_set_items L + 1"
    unfolding set [symmetric] by (subst spec_adds) (auto simp: card_image inj_on_def)
  moreover have "length ?xs = card (set ?xs)"
    using ok plain_data.length_sorted by (auto simp: set_ok_def)
  ultimately have "length ?xs = limit_set_items L + 1" by simp
  then show ?thesis by (intro exI [of _ ?ops]) (simp add: set_is_full_def)
qed

text \<open>Visiting a set from an element on with \<open>iter_next\<close>, at most so many elements.\<close>

fun visit :: "'f data_lib \<Rightarrow> nat \<Rightarrow> 'f property_data option \<Rightarrow> 'f prop_set \<Rightarrow> 'f property_data list" where
  "visit L 0 d s = []"
| "visit L (Suc n) None s = []"
| "visit L (Suc n) (Some d) s = d # visit L n (iter_next L (Some d) s) s"

lemma visit_from:
  assumes "set_ok L (t, xs)" and "i < length xs" and "length xs \<le> i + n"
  shows "visit L n (Some (xs ! i)) (t, xs) = drop i xs"
  using assms(2,3)
proof (induction n arbitrary: i)
  case (Suc n)
  note xs = set_okD [OF assms(1)]
  have type: "get_data_type (xs ! i) = t" using Suc.prems(1) by (intro xs(3)) simp
  have "iter_next L (Some (xs ! i)) (t, xs) = (if Suc i < length xs then Some (xs ! Suc i) else None)"
    using plain_data.next_nth [OF xs(1,2) Suc.prems(1)] Suc.prems(1) type by auto
  moreover have "visit L n None (t, xs) = []" by (cases n) simp_all
  ultimately show ?case using Suc.IH [of "Suc i"] Suc.prems
    by (simp add: Cons_nth_drop_Suc [symmetric] del: iter_next.simps)
qed simp

text \<open>
  In a set that the operations make, starting at the first element and going to the next
  visits every element exactly once, in the order of the data, and ends; going back from an
  element leads to the one visited before it.
\<close>

theorem set_iteration_exact:
  assumes "s = snd (run_ops (set_step L) ops set_new)" and "n > limit_set_items L"
  shows "visit L n (iter_first s) s = snd s \<and> sorted_wrt (prop_less L) (snd s) \<and> distinct (snd s)
    \<and> set (snd s) = snd (run_ops (set_spec L) ops {})
    \<and> (\<forall>i < length (snd s). iter_previous L (Some (snd s ! i)) s
          = (case i of 0 \<Rightarrow> None | Suc j \<Rightarrow> Some (snd s ! j)))"
proof -
  obtain t xs where s: "s = (t, xs)" by (cases s)
  from sets.run_simulates [where L = L and xs = ops, OF set_new_ok]
  have ok: "set_ok L (t, xs)" and set: "snd (run_ops (set_spec L) ops {}) = set xs"
    by (simp_all add: set_new_def assms(1) [symmetric] s)
      (metis s set_new_def assms(1) snd_conv)+
  note xs = set_okD [OF ok]
  have "length xs \<le> n" using ok assms(2) by (simp add: set_ok_def)
  then have "visit L n (iter_first s) s = xs"
    using visit_from [OF ok, of 0 n] by (cases xs; cases n) (simp_all add: s)
  moreover have "distinct xs" by (rule plain_data.distinct_sorted [OF xs(1,2)])
  moreover have "iter_previous L (Some (xs ! i)) s = (case i of 0 \<Rightarrow> None | Suc j \<Rightarrow> Some (xs ! j))"
    if "i < length xs" for i
    using plain_data.previous_nth [OF xs(1,2) that] that xs(3) [of "xs ! i"] by (auto simp: s)
  ultimately show ?thesis using xs(2) set unfolding s snd_conv
    by (simp del: iter_first.simps iter_previous.simps)
qed

text \<open>Inputs that meet the hypotheses.\<close>

theorem set_iteration_exact_witness:
  "visit simple_lib 5 (iter_first (snd (run_ops (set_step simple_lib)
        [SetAdd (IntegerProperty 7), SetAdd (IntegerProperty 3)] set_new)))
      (snd (run_ops (set_step simple_lib) [SetAdd (IntegerProperty 7), SetAdd (IntegerProperty 3)] set_new))
    = [IntegerProperty 3, IntegerProperty 7]"
  using set_iteration_exact [OF refl, of simple_lib 5 "[SetAdd (IntegerProperty 7), SetAdd (IntegerProperty 3)]"]
  by (simp add: simple_lib_def set_new_def set_is_full_def)

subsection \<open>Names of types\<close>

text \<open>
  Both printed names of every valid type of data read back as that type, and what is read
  from any other text is the invalid type.
\<close>

theorem data_type_names_roundtrip:
  assumes "t \<noteq> PROPERTYDATATYPE_invalid" and "t \<noteq> PROPERTYDATATYPE_END"
  shows "string_to_property_data_type (property_data_type_to_string t) = t
    \<and> string_to_property_data_type (property_data_type_to_short_string t) = t
    \<and> (string_to_property_data_type x \<noteq> PROPERTYDATATYPE_invalid
        \<longrightarrow> x \<in> {property_data_type_to_string (string_to_property_data_type x),
                property_data_type_to_short_string (string_to_property_data_type x)})"
proof -
  note names = PROPERTY_DATA_TYPE_AS_STRING_def PROPERTY_DATA_TYPE_AS_SHORT_STRING_def
    property_data_type_to_string_def property_data_type_to_short_string_def
    string_to_property_data_type_def valid_types_def
  have "string_to_property_data_type (property_data_type_to_string t) = t
    \<and> string_to_property_data_type (property_data_type_to_short_string t) = t"
    using assms by (cases t) (simp_all add: names)
  moreover have "x \<in> {property_data_type_to_string (string_to_property_data_type x),
      property_data_type_to_short_string (string_to_property_data_type x)}"
    if "string_to_property_data_type x \<noteq> PROPERTYDATATYPE_invalid"
    using that by (auto simp: names split: if_splits)
  ultimately show ?thesis by blast
qed

theorem data_type_names_roundtrip_witness:
  "string_to_property_data_type (property_data_type_to_short_string PROPERTYDATATYPE_id) = PROPERTYDATATYPE_id"
  using data_type_names_roundtrip [of PROPERTYDATATYPE_id] by simp

subsection \<open>Round trips through text\<close>

text \<open>What the conversions outside the repository are documented to do.\<close>

definition reads_back :: "'f data_lib \<Rightarrow> bool" where
  "reads_back L \<longleftrightarrow> (\<forall>n. int_parse L (int_text L n) = Some n)
     \<and> (\<forall>n. site_parse L (dec_string (unat n)) = Some n)
     \<and> (\<forall>n. entity_parse L (dec_string (unat n)) = Some n)
     \<and> lower_copy L ''True'' = ''true'' \<and> lower_copy L ''False'' = ''false''
     \<and> (\<forall>seps s. split_on L seps s = tokens_on seps s)"

definition NO_DIGITS :: "char list" where
  "NO_DIGITS = [CHR '' '', CHR 0x09, CHR 0x0A, CHR 0x0B, CHR 0x0C, CHR 0x0D, CHR ''#'', CHR ''-'']"

text \<open>A text that starts and ends with other characters than white space is trimmed already.\<close>

definition trims_ends :: "'f data_lib \<Rightarrow> bool" where
  "trims_ends L \<longleftrightarrow> (\<forall>s. s \<noteq> [] \<longrightarrow> hd s \<notin> {CHR '' '', CHR 0x09, CHR 0x0A, CHR 0x0B, CHR 0x0C, CHR 0x0D}
     \<longrightarrow> last s \<notin> {CHR '' '', CHR 0x09, CHR 0x0A, CHR 0x0B, CHR 0x0C, CHR 0x0D}
     \<longrightarrow> trim_copy (paths L) s = s)"

lemma dec_string_digits: "c \<in> set (dec_string n) \<Longrightarrow> \<exists>d < 10. c = digit_char d"
proof (induction n rule: dec_string.induct)
  case (1 n)
  moreover have "\<exists>d < 10. digit_char (n mod 10) = digit_char d" by (rule exI [of _ "n mod 10"]) simp
  ultimately show ?case by (cases "n < 10") (auto simp: dec_string.simps [of n])
qed

lemma dec_string_other:
  assumes "c \<in> set (dec_string n)"
  shows "c \<notin> set NO_DIGITS"
proof
  assume "c \<in> set NO_DIGITS"
  then have "of_char c < (48 :: nat)" unfolding NO_DIGITS_def by (auto simp only: list.set insert_iff) simp_all
  moreover obtain d where "d < 10" "c = digit_char d" using dec_string_digits [OF assms] by (elim exE conjE)
  ultimately show False by simp
qed

lemma tokens_word: "set w \<inter> set seps = {} \<Longrightarrow> tokens_from seps cur (w @ rest) = tokens_from seps (cur @ w) rest"
  by (induction w arbitrary: cur) auto

lemma id_text_tokens:
  "tokens_on '' #-'' (id_to_string True i) = [dec_string (unat (get_site_id i)), dec_string (unat (get_entity_id i))]"
proof -
  have "set '' #-'' \<subseteq> set NO_DIGITS" by (simp add: NO_DIGITS_def)
  then have clear: "set (dec_string n) \<inter> set '' #-'' = {}" for n using dec_string_other by fast
  show ?thesis
    using tokens_word [OF clear, of "[]"] tokens_word [OF clear, of "[]" _ "[]"]
    by (simp add: tokens_on_def id_to_string_def)
qed

text \<open>
  Booleans, integers and identifiers, and strings within the limit, read back from their
  printed form into any data of their type, given what the conversions are documented to do.
\<close>

theorem plain_text_roundtrip:
  assumes "reads_back L" and "trims_ends L" and "plain p" and "get_data_type q = get_data_type p"
    and "\<forall>s. p = StringProperty s \<longrightarrow> text_size s \<le> limit_string_size L"
  shows "set_from_string L (get_as_string L p) q = (True, p)"
proof (cases p)
  case (BooleanProperty b)
  then show ?thesis using assms by (cases q) (simp_all add: reads_back_def bool_from_string_def Let_def)
next
  case (IntegerProperty n)
  then show ?thesis using assms by (cases q) (simp_all add: reads_back_def)
next
  case (StringProperty s)
  then show ?thesis using assms by (cases q) simp_all
next
  case (IdProperty i)
  let ?s = "id_to_string True i"
  have "hd ?s = CHR ''#''" by (simp add: id_to_string_def)
  moreover have "last ?s \<in> set (dec_string (unat (get_entity_id i)))"
    using last_in_set [OF dec_string_nonempty] by (simp add: id_to_string_def)
  then have "last ?s \<notin> {CHR '' '', CHR 0x09, CHR 0x0A, CHR 0x0B, CHR 0x0C, CHR 0x0D}"
    using dec_string_other [of "last ?s"] by (simp add: NO_DIGITS_def)
  moreover have "?s \<noteq> []" by (simp add: id_to_string_def)
  ultimately have trim: "trim_copy (paths L) ?s = ?s" using assms(2) unfolding trims_ends_def by simp
  have "id_from_string L ?s = Some i"
    using assms(1) trim \<open>?s \<noteq> []\<close> \<open>hd ?s = CHR ''#''\<close> id_text_tokens [of i]
    by (cases i) (simp add: id_from_string_def Let_def reads_back_def)
  then show ?thesis using IdProperty assms(4) by (cases q) simp_all
qed (use assms(3) in simp_all)

lemma simple_lib_ok: "reads_back simple_lib" "trims_ends simple_lib"
  by (simp_all add: reads_back_def trims_ends_def simple_lib_def)

theorem plain_text_roundtrip_witness:
  "set_from_string simple_lib (get_as_string simple_lib (IdProperty (DbId 3 17))) (IdProperty default_id)
    = (True, IdProperty (DbId 3 17))"
  using plain_text_roundtrip [OF simple_lib_ok, of "IdProperty (DbId 3 17)" "IdProperty default_id"] by simp

subsection \<open>Printed forms\<close>

lemma set_text_length: "limit \<ge> 4 \<Longrightarrow> length (set_text limit xs s) \<le> limit + 1"
  by (induction limit xs s rule: set_text.induct) auto

lemma dec_string_length: "n < 10 ^ k \<Longrightarrow> 0 < k \<Longrightarrow> length (dec_string n) \<le> k"
proof (induction n arbitrary: k rule: dec_string.induct)
  case (1 n)
  show ?case
  proof (cases "n < 10")
    case True
    then show ?thesis using 1(3) by (simp add: dec_string.simps [of n])
  next
    case False
    then obtain j where k: "k = Suc j" "0 < j" using 1(2,3)
      by (cases k; cases "k = 1") auto
    have "n div 10 < 10 ^ j" using 1(2) k by (simp add: less_mult_imp_div_less mult.commute)
    then show ?thesis using 1(1) [OF False _ k(2)] False k by (simp add: dec_string.simps [of n])
  qed
qed

lemma short_id_length: "length (id_to_string False i) \<le> 21"
proof -
  have "unat (get_entity_id i) < 2 ^ 64" using unsigned_less [of "get_entity_id i"] by simp
  then have "unat (get_entity_id i) < 10 ^ 20" by (rule less_trans) simp
  then show ?thesis using dec_string_length [of _ 20] by (simp add: id_to_string_def)
qed

text \<open>
  The short text of any data has at most 61 bytes, when the conversions of numbers print no
  more than 60; and 61 is reached by a set of one string, although 60 is what the declaration
  of the short text of a set says.
\<close>

theorem short_text_bounded:
  assumes "\<forall>n. length (int_text L n) \<le> 60" and "\<forall>x. length (float_text L x) \<le> 60"
  shows "length (get_as_short_string L p) \<le> 61
    \<and> length (get_as_short_string L (SetProperty PROPERTYDATATYPE_string [StringProperty (replicate 55 CHR ''a'')])) = 61"
proof
  show "length (get_as_short_string L p) \<le> 61"
  proof (cases p)
    case (IntegerProperty n)
    then show ?thesis using assms(1) [rule_format, of n] by simp
  next
    case (FloatProperty x)
    then show ?thesis using assms(2) [rule_format, of x] by simp
  next
    case (IdProperty i)
    then show ?thesis using short_id_length [of i] by simp
  next
    case (SetProperty t xs)
    then show ?thesis using set_text_length [of SHORT_STRING_LENGTH] by (simp add: SHORT_STRING_LENGTH_def)
  qed (auto simp: SHORT_STRING_LENGTH_def split: list.split)
  show "length (get_as_short_string L (SetProperty PROPERTYDATATYPE_string
      [StringProperty (replicate 55 CHR ''a'')])) = 61"
    by (simp add: SHORT_STRING_LENGTH_def)
qed

definition fixed_lib :: "nat data_lib" where
  "fixed_lib = simple_lib\<lparr>int_text := (\<lambda>n. ''7''), float_text := (\<lambda>x. ''0.5'')\<rparr>"

theorem short_text_bounded_witness:
  "length (get_as_short_string fixed_lib (FloatProperty 3)) \<le> 61"
  using short_text_bounded [of fixed_lib "FloatProperty 3"] by (simp add: fixed_lib_def)

subsection \<open>Documents\<close>

lemma append_lines_exact:
  "append_lines L m xs ls =
     (if (\<forall>x \<in> set xs. text_size x \<le> limit_string_size L) \<and> (xs = [] \<or> length ls + length xs \<le> unat m + 1)
      then (True, ls @ xs) else (False, []))"
proof (induction xs arbitrary: ls)
  case (Cons x xs)
  show ?case
  proof (cases "text_size x \<le> limit_string_size L \<and> length ls \<le> unat m")
    case True
    then show ?thesis using Cons.IH [of "ls @ [x]"] by (cases xs) (auto simp: append_line_def doc_is_full_def)
  next
    case False
    then show ?thesis by (auto simp: append_line_def doc_is_full_def)
  qed
qed simp

lemma doc_from_string:
  "set_from_string L s (DocumentProperty m ls) =
     (let ts = split_on L [CHR 0x0A] s in
      if (\<forall>x \<in> set ts. text_size x \<le> limit_string_size L) \<and> length ts \<le> unat m + 1
      then (True, DocumentProperty m ts) else (False, DocumentProperty m []))"
  by (auto simp: append_lines_exact Let_def)

text \<open>
  Setting a document from text takes every line or none: either all lines are within the
  limit on their size and there are at most one more than the document's limit on lines, and
  they replace the content, or the result is false and the document is empty, its old content
  lost.
\<close>

theorem document_all_or_nothing:
  "set_from_string L s (DocumentProperty m ls) =
     (if (\<forall>x \<in> set (split_on L [CHR 0x0A] s). text_size x \<le> limit_string_size L)
         \<and> length (split_on L [CHR 0x0A] s) \<le> unat m + 1
      then (True, DocumentProperty m (split_on L [CHR 0x0A] s)) else (False, DocumentProperty m []))"
  by (simp only: doc_from_string Let_def)

lemma tokens_of_lines:
  "\<forall>l \<in> set ls. c \<notin> set l \<Longrightarrow> tokens_on [c] (concat (map (\<lambda>l. l @ [c]) ls)) = filter (\<lambda>l. l \<noteq> []) ls"
proof (induction ls)
  case (Cons l ls)
  then have "set l \<inter> set [c] = {}" by simp
  then show ?case using Cons tokens_word [of l "[c]" "[]"] by (simp add: tokens_on_def)
qed (simp add: tokens_on_def)

text \<open>
  A document printed and read again gives its lines without the blank ones, into any
  document whose limits they meet.
\<close>

theorem document_text_roundtrip:
  assumes "reads_back L" and "\<forall>l \<in> set ls. CHR 0x0A \<notin> set l \<and> text_size l \<le> limit_string_size L"
    and "length (filter (\<lambda>l. l \<noteq> []) ls) \<le> unat m + 1"
  shows "set_from_string L (get_as_string L (DocumentProperty n ls)) (DocumentProperty m old)
    = (True, DocumentProperty m (filter (\<lambda>l. l \<noteq> []) ls))"
proof -
  have "split_on L [CHR 0x0A] (get_as_string L (DocumentProperty n ls)) = filter (\<lambda>l. l \<noteq> []) ls"
    using assms(1,2) tokens_of_lines [of ls "CHR 0x0A"] by (simp add: reads_back_def)
  then show ?thesis using assms(2,3) unfolding doc_from_string by simp
qed

theorem document_all_or_nothing_witness:
  "set_from_string simple_lib [CHR ''a'', CHR 0x0A, CHR ''b''] (DocumentProperty 0 [''old'']) = (False, DocumentProperty 0 [])
    \<and> set_from_string simple_lib [CHR ''a'', CHR 0x0A, CHR ''b''] (DocumentProperty 1 [''old''])
      = (True, DocumentProperty 1 [''a'', ''b''])"
  using document_all_or_nothing [of simple_lib "[CHR ''a'', CHR 0x0A, CHR ''b'']"]
  by (simp add: simple_lib_def tokens_on_def text_size_def utf8_size_def byte_constants
      del: set_from_string.simps)

theorem document_text_roundtrip_witness:
  "set_from_string simple_lib (get_as_string simple_lib (DocumentProperty 9 [''a'', [], ''b''])) (DocumentProperty 3 [])
    = (True, DocumentProperty 3 [''a'', ''b''])"
  using document_text_roundtrip [OF simple_lib_ok(1), of "[''a'', [], ''b'']" 3 9 "[]"]
  by (simp add: simple_lib_def text_size_def utf8_size_def byte_constants del: set_from_string.simps get_as_string.simps)

text \<open>
  A line that is inserted, anywhere or past the end, can be read where it was put, and
  deleting it there gives the document back. The number of lines is a 32-bit integer, so the
  document's limit must be below the largest one.
\<close>

theorem document_insert_delete:
  assumes "insert_line L m x line ls = (True, xs)" and "unat m < 2 ^ 32 - 1"
    and "at = min line (get_number_lines ls)"
  shows "get_line at xs = x \<and> delete_line at xs = (True, ls) \<and> length xs = length ls + 1"
proof -
  have full: "length ls \<le> unat m" using assms(1) by (auto simp: insert_line_def doc_is_full_def split: if_splits)
  then have room: "length ls + 1 < 2 ^ 32" using assms(2) by linarith
  have number: "unat (of_nat (length ys) :: u32) = length ys" if "length ys < 2 ^ 32" for ys :: "string list"
    using that by (simp add: unat_of_nat take_bit_nat_eq_self)
  note lines = number [of ls] number [of xs]
  show ?thesis
  proof (cases "line \<ge> get_number_lines ls")
    case True
    then have xs: "xs = ls @ [x]" and at: "at = get_number_lines ls"
      using assms(1,3) by (auto simp: insert_line_def split: if_splits)
    then show ?thesis using room lines
      by (simp add: get_line_def delete_line_def get_number_lines_def word_less_nat_alt word_le_nat_alt not_le del: of_nat_Suc of_nat_add)
  next
    case False
    then have xs: "xs = take (unat line) ls @ x # drop (unat line) ls" and at: "at = line"
      using assms(1,3) by (auto simp: insert_line_def split: if_splits)
    moreover have "unat line < length ls"
      using False room lines by (simp add: get_number_lines_def word_le_nat_alt)
    ultimately show ?thesis using room lines
      by (simp add: get_line_def delete_line_def get_number_lines_def word_less_nat_alt word_le_nat_alt not_le nth_append del: of_nat_Suc of_nat_add)
  qed
qed

theorem document_insert_delete_witness:
  "get_line 1 [''a'', ''c'', ''b''] = ''c'' \<and> delete_line 1 [''a'', ''c'', ''b''] = (True, [''a'', ''b''])"
  using document_insert_delete [of simple_lib 5 "''c''" 1 "[''a'', ''b'']" "[''a'', ''c'', ''b'']" 1]
  by (simp add: insert_line_def doc_is_full_def simple_lib_def text_size_def utf8_size_def byte_constants
      get_number_lines_def word_le_nat_alt)

subsection \<open>Copies\<close>

text \<open>
  A copy of plain data, of a document, or of a set that the operations made is the same
  data, and is equal to it by the code's own comparison.
\<close>

theorem clone_is_equal:
  assumes "plain p \<or> p = DocumentProperty m ls
    \<or> p = (case snd (run_ops (set_step L) ops set_new) of (t, xs) \<Rightarrow> SetProperty t xs)"
  shows "prop_clone L p = p \<and> prop_equal L p (prop_clone L p)"
proof -
  obtain t xs where s: "snd (run_ops (set_step L) ops set_new) = (t, xs)"
    by (cases "snd (run_ops (set_step L) ops set_new)")
  from sets.run_simulates [where L = L and xs = ops, OF set_new_ok] have ok: "set_ok L (t, xs)"
    unfolding s by blast
  note xs = set_okD [OF ok]
  have "map (prop_clone L) xs = xs" using xs(1) by (intro map_idI plain_clone) auto
  then have "prop_clone L (SetProperty t xs) = SetProperty t xs"
    using plain_data.insert_all [of L "[]" xs] xs(2) by simp
  moreover have same: "prop_equal L q q" if "q \<in> set xs" for q
    using that xs(1) plain_equal [of q L q] by blast
  have "list_all2 (\<lambda>f y. f y) (map (prop_equal L) xs) xs"
    using same by (simp add: list_all2_conv_all_nth)
  ultimately have set: "prop_clone L (SetProperty t xs) = SetProperty t xs
      \<and> prop_equal L (SetProperty t xs) (SetProperty t xs)" by simp
  from assms show ?thesis unfolding s
  proof (elim disjE)
    assume "plain p"
    then show ?thesis using plain_equal [of p L p] by simp
  next
    assume "p = DocumentProperty m ls"
    then show ?thesis by (simp add: list_all2_refl)
  next
    assume "p = (case (t, xs) of (t, xs) \<Rightarrow> SetProperty t xs)"
    then show ?thesis using set by simp
  qed
qed

theorem clone_is_equal_witness:
  "prop_clone simple_lib (DocumentProperty 2 [''a'']) = DocumentProperty 2 [''a'']"
  using clone_is_equal [of "DocumentProperty 2 [''a'']" 2 "[''a'']"] by blast

end
