(* ===== verification/PropEntityProps.thy ===== *)
theory PropEntityProps
  imports PropEntity PropDirProps PropDataProps
begin

text \<open>
  What an entity with properties promises: it refines a table of applications, each with its
  owner, its security and a map from names to data; the refinement of a single directory is
  used for the directory of each application.
\<close>

subsection \<open>The operations and their specification\<close>

datatype 'f app_op =
    PSet "'f property_data" | PGet | PExists | PIsDirectory | PDelete | PDeleteData
  | PNext | PPrevious | PFirst | PLast | PClear

datatype 'f ent_op =
    AppAdd string db_id security | AppRemove string | AppExists string | AppSettings string
  | AppSetSettings string security | InApp string "'f app_op"

datatype 'f ent_answer =
    Done bool | Settings "db_id \<times> security" | Answer "'f property_data dir_answer" | Silent

fun app_step :: "'f data_lib \<Rightarrow> entity_env \<Rightarrow> string \<Rightarrow> 'f app_op \<Rightarrow> 'f property_entity
    \<Rightarrow> 'f property_data dir_answer \<times> 'f property_entity" where
  "app_step L env path (PSet v) s = map_prod BoolAnswer id (set_property L env path v True s)"
| "app_step L env path PGet s = map_prod DataAnswer id (get_property L path True s)"
| "app_step L env path PExists s = map_prod BoolAnswer id (is_property L path True s)"
| "app_step L env path PIsDirectory s = map_prod BoolAnswer id (is_property_directory L path True s)"
| "app_step L env path PDelete s = (NoAnswer, delete_property L env path True s)"
| "app_step L env path PDeleteData s = (NoAnswer, delete_property_data L env path True s)"
| "app_step L env path PNext s = map_prod PathAnswer id (get_next_property L path True s)"
| "app_step L env path PPrevious s = map_prod PathAnswer id (get_previous_property L path True s)"
| "app_step L env path PFirst s = map_prod PathAnswer id (get_first_property L path True s)"
| "app_step L env path PLast s = map_prod PathAnswer id (get_last_property L path True s)"
| "app_step L env path PClear s = (NoAnswer, clear_properties L env path True s)"

fun ent_step :: "'f data_lib \<Rightarrow> entity_env \<Rightarrow> 'f ent_op \<Rightarrow> 'f property_entity
    \<Rightarrow> 'f ent_answer \<times> 'f property_entity" where
  "ent_step L env (AppAdd path owner sec) s = map_prod Done id (add_application L env path owner sec True s)"
| "ent_step L env (AppRemove path) s = (Silent, remove_application L env path True s)"
| "ent_step L env (AppExists path) s = (Done (application_exists L path True s), s)"
| "ent_step L env (AppSettings path) s = (Settings (application_security_settings L path True s), s)"
| "ent_step L env (AppSetSettings path sec) s =
     map_prod Done id (set_application_security_settings L env path sec True s)"
| "ent_step L env (InApp path x) s = map_prod Answer id (app_step L env path x s)"

text \<open>
  The specification. An operation in an application is the one of its directory on the rest of
  the path, with what is stored and what is read copied; without the application it has an
  answer of its own.
\<close>

fun dir_op_of :: "'f data_lib \<Rightarrow> 'f app_op \<Rightarrow> string \<Rightarrow> 'f property_data dir_op" where
  "dir_op_of L (PSet v) p = OpSet p (prop_clone L v)"
| "dir_op_of L PGet p = OpGet p"
| "dir_op_of L PExists p = OpExists p"
| "dir_op_of L PIsDirectory p = OpIsDirectory p"
| "dir_op_of L PDelete p = OpDelete p"
| "dir_op_of L PDeleteData p = OpDeleteData p"
| "dir_op_of L PNext p = OpNext p"
| "dir_op_of L PPrevious p = OpPrevious p"
| "dir_op_of L PFirst p = OpFirst p"
| "dir_op_of L PLast p = OpLast p"
| "dir_op_of L PClear p = OpClear"

fun copied :: "'f data_lib \<Rightarrow> 'f property_data dir_answer \<Rightarrow> 'f property_data dir_answer" where
  "copied L (DataAnswer d) = DataAnswer (map_option (prop_clone L) d)"
| "copied L a = a"

fun no_app :: "'f app_op \<Rightarrow> 'f property_data dir_answer" where
  "no_app (PSet v) = BoolAnswer False" | "no_app PGet = DataAnswer None"
| "no_app PExists = BoolAnswer False" | "no_app PIsDirectory = BoolAnswer False"
| "no_app PDelete = NoAnswer" | "no_app PDeleteData = NoAnswer" | "no_app PClear = NoAnswer"
| "no_app PNext = PathAnswer []" | "no_app PPrevious = PathAnswer []"
| "no_app PFirst = PathAnswer []" | "no_app PLast = PathAnswer []"

type_synonym 'f app_table =
  "string \<Rightarrow> (db_id \<times> security \<times> (string \<Rightarrow> 'f property_data option option)) option"

fun ent_spec :: "'f data_lib \<Rightarrow> 'f ent_op \<Rightarrow> 'f app_table \<Rightarrow> 'f ent_answer \<times> 'f app_table" where
  "ent_spec L (AppAdd path owner sec) m =
     (let n = app_name L path in
      if text_size n \<le> limits_property_name (paths L) \<and> n \<noteq> [] \<and> m n = None
      then (Done True, m(n \<mapsto> (owner, sec, Map.empty))) else (Done False, m))"
| "ent_spec L (AppRemove path) m = (Silent, m(app_name L path := None))"
| "ent_spec L (AppExists path) m = (Done (m (app_name L path) \<noteq> None), m)"
| "ent_spec L (AppSettings path) m = (Settings (case m (app_name L path) of
     None \<Rightarrow> (default_id, security_new PropSecurity) | Some (owner, sec, c) \<Rightarrow> (owner, sec)), m)"
| "ent_spec L (AppSetSettings path sec) m = (case m (app_name L path) of
     None \<Rightarrow> (Done False, m)
   | Some (owner, _, c) \<Rightarrow> (Done True, m(app_name L path \<mapsto> (owner, sec, c))))"
| "ent_spec L (InApp path x) m = (case split_path L path of
     None \<Rightarrow> (Answer (no_app x), m)
   | Some (n, p) \<Rightarrow> (case m n of
       None \<Rightarrow> (Answer (no_app x), m)
     | Some (owner, sec, c) \<Rightarrow> (case spec_step (paths L) (dir_op_of L x p) c of
         (a, c) \<Rightarrow> (Answer (copied L a), m(n \<mapsto> (owner, sec, c))))))"

subsection \<open>Refinement\<close>

definition app_view :: "'f app_properties \<Rightarrow> db_id \<times> security \<times> (string \<Rightarrow> 'f property_data option option)" where
  "app_view a = (application_owner a, app_security a, content (app_directory a))"

definition app_table :: "'f property_entity \<Rightarrow> 'f app_table" where
  "app_table s n = map_option app_view (map_of (application_properties s) n)"

definition apps_ok :: "'f data_lib \<Rightarrow> 'f property_entity \<Rightarrow> bool" where
  "apps_ok L s \<longleftrightarrow> map_sorted (application_properties s)
     \<and> (\<forall>n a. map_of (application_properties s) n = Some a \<longrightarrow>
          application_name a = n \<and> n \<noteq> [] \<and> SEP \<notin> set n \<and> text_size n \<le> limits_property_name (paths L)
          \<and> flat_dir (app_directory a))"

lemma app_changed_props [simp]:
  "application_properties (app_changed env s) = application_properties s"
  "apps_ok L (app_changed env s) = apps_ok L s" "app_table (app_changed env s) = app_table s"
  by (simp_all add: app_changed_def notify_field_changed_def apps_ok_def app_table_def fun_eq_iff)

lemma apps_okD:
  assumes "apps_ok L s"
  shows "map_sorted (application_properties s)"
    and "map_of (application_properties s) n = Some a \<Longrightarrow> application_name a = n \<and> n \<noteq> [] \<and> SEP \<notin> set n
      \<and> text_size n \<le> limits_property_name (paths L) \<and> flat_dir (app_directory a)"
  using assms unfolding apps_ok_def by blast+

lemma put_app:
  assumes "apps_ok L s" and "application_name a = n" and "n \<noteq> []" and "SEP \<notin> set n"
    and "text_size n \<le> limits_property_name (paths L)" and "flat_dir (app_directory a)"
  shows "apps_ok L (s\<lparr>application_properties := map_put n a (application_properties s)\<rparr>)
    \<and> app_table (s\<lparr>application_properties := map_put n a (application_properties s)\<rparr>)
      = (app_table s)(n \<mapsto> app_view a)"
  using assms apps_okD [OF assms(1)]
  by (auto simp: apps_ok_def app_table_def map_of_put map_sorted_put fun_eq_iff)

lemma app_name_no_sep: "SEP \<notin> set (app_name L path)"
  by (simp add: app_name_def get_application_name_from_path_def Let_def takeWhile_no_sep)

text \<open>An operation in an application that moves its directory as one of the directory's own does.\<close>

lemma in_application_sim:
  assumes "apps_ok L s" and "\<And>p d. snd (f p d) = snd (dir_step (paths L) (x p) d)"
  shows "apps_ok L (snd (in_application L path f s))
    \<and> (case split_path L path of None \<Rightarrow> in_application L path f s = (None, s)
       | Some (n, p) \<Rightarrow> (case map_of (application_properties s) n of
           None \<Rightarrow> in_application L path f s = (None, s)
         | Some a \<Rightarrow> fst (in_application L path f s) = Some (fst (f p (app_directory a)))
             \<and> app_table (snd (in_application L path f s)) = (app_table s)(n \<mapsto>
                 (application_owner a, app_security a, snd (spec_step (paths L) (x p) (content (app_directory a)))))))"
proof (cases "split_path L path")
  case None
  then show ?thesis using assms(1) by (simp add: in_application_def get_application_properties_def)
next
  case (Some np)
  obtain n p where np: "np = (n, p)" by (cases np)
  show ?thesis
  proof (cases "map_of (application_properties s) n")
    case None
    then show ?thesis using assms(1) Some np
      by (simp add: in_application_def get_application_properties_def)
  next
    case app: (Some a)
    note a = apps_okD(2) [OF assms(1) app]
    obtain r d where f: "f p (app_directory a) = (r, d)" by (cases "f p (app_directory a)")
    have d: "d = snd (dir_step (paths L) (x p) (app_directory a))"
      using assms(2) [of p "app_directory a"] f by simp
    have sim: "flat_dir d" "content d = snd (spec_step (paths L) (x p) (content (app_directory a)))"
      using dirs.step_good [of "app_directory a"] dirs.step_abs [of "app_directory a" "paths L" "x p"] a
      by (simp_all add: d)
    have "in_application L path f s = (Some r, s\<lparr>application_properties :=
        map_put n (a\<lparr>app_directory := d\<rparr>) (application_properties s)\<rparr>)"
      using Some np app f by (simp add: in_application_def get_application_properties_def)
    then show ?thesis
      using put_app [OF assms(1), of "a\<lparr>app_directory := d\<rparr>" n] a sim Some np app f
      by (simp add: app_view_def)
  qed
qed

lemma in_application_map:
  "in_application L path (\<lambda>p d. map_prod c id (f p d)) s = map_prod (map_option c) id (in_application L path f s)"
  by (simp add: in_application_def case_prod_beta split: option.split)

lemmas dir_step_fun = dir_step.simps [THEN ext]

text \<open>Every operation on properties is one of the directory, run in the application.\<close>

fun changes :: "'f app_op \<Rightarrow> bool" where
  "changes (PSet v) = True" | "changes PDelete = True" | "changes PDeleteData = True"
| "changes PClear = True" | "changes x = False"

lemma app_step_in:
  "app_step L env path x s =
     (case in_application L path (\<lambda>p. dir_step (paths L) (dir_op_of L x p)) s of
        (None, t) \<Rightarrow> (no_app x, t)
      | (Some a, t) \<Rightarrow> (copied L a, if changes x then app_changed env t else t))"
proof -
  note step = dir_step_fun dir_op_of.simps in_application_map
  note defs = set_property_def get_property_def with_data_def get_property_data_ptr_def is_property_def
    is_property_directory_def delete_property_def delete_property_data_def get_next_property_def
    get_previous_property_def get_first_property_def get_last_property_def clear_properties_def
    or_else_def and_notify_def
  have unit: "(\<lambda>p d. (NoAnswer, g p d)) = (\<lambda>p d. map_prod (\<lambda>_. NoAnswer) id ((), g p d))"
    for g :: "string \<Rightarrow> 'a property_data prop_dir \<Rightarrow> 'a property_data prop_dir" by simp
  show ?thesis
  proof (cases x)
    case PDelete
    then show ?thesis
      unfolding PDelete dir_op_of.simps dir_step_fun unit in_application_map
      by (simp add: defs case_prod_beta split: option.split)
  next
    case PDeleteData
    then show ?thesis
      unfolding PDeleteData dir_op_of.simps dir_step_fun unit in_application_map
      by (simp add: defs case_prod_beta split: option.split)
  next
    case PClear
    then show ?thesis
      unfolding PClear dir_op_of.simps dir_step_fun unit in_application_map
      by (simp add: defs case_prod_beta split: option.split)
  qed (simp_all add: step defs case_prod_beta split: option.split)
qed

lemma app_step_sim:
  assumes "apps_ok L s"
  shows "apps_ok L (snd (app_step L env path x s))
    \<and> ent_spec L (InApp path x) (app_table s)
      = (Answer (fst (app_step L env path x s)), app_table (snd (app_step L env path x s)))"
proof -
  let ?f = "\<lambda>p. dir_step (paths L) (dir_op_of L x p)"
  note sim = in_application_sim [OF assms, of ?f "dir_op_of L x" path, OF refl]
  obtain r t where run: "in_application L path ?f s = (r, t)" by (cases "in_application L path ?f s")
  show ?thesis
  proof (cases "split_path L path")
    case None
    then show ?thesis using sim assms by (simp add: app_step_in)
  next
    case (Some np)
    obtain n p where np: "np = (n, p)" by (cases np)
    show ?thesis
    proof (cases "map_of (application_properties s) n")
      case None
      then show ?thesis using sim Some np assms by (simp add: app_step_in app_table_def)
    next
      case app: (Some a)
      have flat: "flat_dir (app_directory a)" using apps_okD(2) [OF assms app] by blast
      have "fst (?f p (app_directory a)) = fst (spec_step (paths L) (dir_op_of L x p) (content (app_directory a)))"
        using dirs.step_abs [OF flat, of "paths L" "dir_op_of L x p"] by simp
      then show ?thesis using sim Some np app run
        by (simp add: app_step_in app_table_def [of s n] app_view_def case_prod_beta)
    qed
  qed
qed

lemma app_table_eq: "app_table s n = None \<longleftrightarrow> map_of (application_properties s) n = None"
  by (simp add: app_table_def)

lemma new_app [simp]:
  "flat_dir (app_directory (app_properties_new n owner))" "application_name (app_properties_new n owner) = n"
  "app_view (app_properties_new n owner\<lparr>app_security := sec\<rparr>) = (owner, sec, Map.empty)"
  by (simp_all add: app_properties_new_def app_view_def empty_dir_flat content_empty)

lemma ent_step_sim:
  assumes "apps_ok L s"
  shows "apps_ok L (snd (ent_step L env x s))
    \<and> ent_spec L x (app_table s) = (fst (ent_step L env x s), app_table (snd (ent_step L env x s)))"
proof (cases x)
  case (AppAdd path owner sec)
  then show ?thesis
    using put_app [OF assms, of "app_properties_new (app_name L path) owner\<lparr>app_security := sec\<rparr>" "app_name L path"]
      app_name_no_sep [of L path] assms
    by (auto simp: add_application_def Let_def app_table_eq)
next
  case (AppRemove path)
  then show ?thesis using assms apps_okD(1) [OF assms]
    by (auto simp: remove_application_def apps_ok_def app_table_def map_of_erase map_sorted_erase fun_eq_iff
        split: if_splits)
next
  case (AppSettings path)
  then show ?thesis using assms
    by (simp add: application_security_settings_def app_table_def app_view_def split: option.split)
next
  case (AppSetSettings path sec)
  show ?thesis
  proof (cases "map_of (application_properties s) (app_name L path)")
    case None
    then show ?thesis using assms
      by (simp add: AppSetSettings set_application_security_settings_def app_table_def)
  next
    case (Some a)
    have "app_table s (app_name L path) = Some (application_owner a, app_security a, content (app_directory a))"
      using Some by (simp add: app_table_def app_view_def)
    then show ?thesis using Some assms apps_okD(2) [OF assms Some]
        put_app [OF assms, of "a\<lparr>app_security := sec\<rparr>" "app_name L path"]
      by (simp add: AppSetSettings set_application_security_settings_def app_view_def)
  qed
next
  case (InApp path y)
  then show ?thesis using app_step_sim [OF assms, of env path y] by simp
qed (simp_all add: assms application_exists_def app_table_def)

interpretation apps: simulation "ent_step L env" "ent_spec L" app_table "apps_ok L" for L env
  by unfold_locales (simp_all add: ent_step_sim)

lemma new_apps: "apps_ok L (property_entity_new env i ty v inst r)"
  "app_table (property_entity_new env i ty v inst r) = Map.empty"
  by (simp_all add: apps_ok_def app_table_def property_entity_new_def entity_core.defs fun_eq_iff)

text \<open>
  C21. An entity with properties refines a table of applications: over every run of operations
  on a new entity, adding, removing and asking for applications, reading and changing their
  security, and setting, reading, deleting and walking properties in them answer as the table
  does, in which each application has an owner, a security and a map from names to data, and
  the operations on one are those of its directory.
\<close>

theorem property_entity_refines:
  "run_ops (ent_spec L) xs Map.empty
    = (fst (run_ops (ent_step L env) xs (property_entity_new env i ty v inst r)),
       app_table (snd (run_ops (ent_step L env) xs (property_entity_new env i ty v inst r))))"
  using apps.run_simulates [where L = L and env = env and xs = xs, OF new_apps(1)] by (simp add: new_apps(2))

subsection \<open>What follows\<close>

text \<open>Entities that operations make out of a new one.\<close>

definition made_entity :: "'f data_lib \<Rightarrow> 'f property_entity \<Rightarrow> bool" where
  "made_entity L s \<longleftrightarrow> (\<exists>env xs i ty v inst r.
     s = snd (run_ops (ent_step L env) xs (property_entity_new env i ty v inst r)))"

lemma made_ok: "made_entity L s \<Longrightarrow> apps_ok L s"
  using apps.run_simulates [OF new_apps(1)] unfolding made_entity_def by blast

lemma split_path_name: "split_path L path = Some (n, p) \<Longrightarrow> n = app_name L path"
  by (auto simp: split_path_def app_name_def get_application_name_from_path_def Let_def
      takeWhile_eq_take [symmetric] split: if_splits)

fun op_name :: "'f data_lib \<Rightarrow> 'f ent_op \<Rightarrow> string" where
  "op_name L (AppAdd path owner sec) = app_name L path"
| "op_name L (AppRemove path) = app_name L path"
| "op_name L (AppExists path) = app_name L path"
| "op_name L (AppSettings path) = app_name L path"
| "op_name L (AppSetSettings path sec) = app_name L path"
| "op_name L (InApp path x) = app_name L path"

lemma in_application_other:
  assumes "apps_ok L s" and "n \<noteq> app_name L path"
  shows "map_of (application_properties (snd (in_application L path f s))) n = map_of (application_properties s) n"
  using assms apps_okD(1) [OF assms(1)] split_path_name [of L path]
  by (auto simp: in_application_def get_application_properties_def map_of_put split: option.split prod.split)

text \<open>
  Applications do not disturb each other. On an entity that operations made, an operation,
  whatever it is and whether it succeeds, leaves every application but the one its path names
  exactly as it was: owner, security, properties and caches. It leaves the others' entries in
  the table, too.
\<close>

theorem applications_isolated:
  assumes "made_entity L s" and "n \<noteq> op_name L x"
  shows "map_of (application_properties (snd (ent_step L env x s))) n = map_of (application_properties s) n"
proof -
  note ok = made_ok [OF assms(1)]
  note sorted = apps_okD(1) [OF ok]
  show ?thesis
  proof (cases x)
    case (InApp path y)
    show ?thesis
      using in_application_other [OF ok, of n path "\<lambda>p. dir_step (paths L) (dir_op_of L y p)"] assms(2) InApp
      by (simp add: app_step_in case_prod_beta split: option.split)
  qed (use assms(2) in \<open>simp_all add: add_application_def remove_application_def
      set_application_security_settings_def map_of_put [OF sorted] map_of_erase Let_def split: option.split\<close>)
qed

text \<open>What a path reads, in terms of the table.\<close>

lemma data_ptr_exact:
  assumes "apps_ok L s"
  shows "fst (get_property_data_ptr L q s) = (case split_path L q of None \<Rightarrow> None
      | Some (n, p) \<Rightarrow> (case app_table s n of None \<Rightarrow> None
        | Some (owner, sec, c) \<Rightarrow> (case trimmed_tokens (paths L) p of
            Some [k] \<Rightarrow> Option.bind (c k) id | _ \<Rightarrow> None)))"
proof -
  note sim = in_application_sim [OF assms, of "dir_get_data (paths L)" "\<lambda>p. OpGet p" q]
  show ?thesis
  proof (cases "split_path L q")
    case None
    then show ?thesis using sim by (simp add: get_property_data_ptr_def or_else_def)
  next
    case (Some np)
    obtain n p where np: "np = (n, p)" by (cases np)
    show ?thesis
    proof (cases "map_of (application_properties s) n")
      case None
      then show ?thesis using sim Some np by (simp add: get_property_data_ptr_def or_else_def app_table_def)
    next
      case app: (Some a)
      have flat: "flat_dir (app_directory a)" using apps_okD(2) [OF assms app] by blast
      have "fst (dir_get_data (paths L) p (app_directory a)) = (case trimmed_tokens (paths L) p of
          Some [k] \<Rightarrow> Option.bind (content (app_directory a) k) id | _ \<Rightarrow> None)"
        using dirs.step_abs [OF flat, of "paths L" "OpGet p"] by simp
      then show ?thesis using sim Some np app
        by (simp add: get_property_data_ptr_def or_else_def app_table_def app_view_def)
    qed
  qed
qed

text \<open>
  What is set is read. When setting a plain property succeeds on an entity that operations
  made, the same path reads the data, its type and its text, and has data; when it fails, no
  path of any application reads otherwise than before.
\<close>

theorem property_reads_back:
  assumes "made_entity L s" and "plain v" and "set_property L env path v True s = (ok, t)"
  shows "if ok then fst (get_property L path True t) = Some v
      \<and> fst (get_string_property L path True t) = get_as_string L v
      \<and> fst (get_property_type L path True t) = get_data_type v
      \<and> fst (property_has_data L path True t)
    else fst (get_property L other True t) = fst (get_property L other True s)"
proof -
  note ok = made_ok [OF assms(1)]
  have t: "t = snd (app_step L env path (PSet v) s)" "ok = fst (set_property L env path v True s)"
    using assms(3) by simp_all
  have ok_t: "apps_ok L t" using app_step_sim [OF ok] by (simp only: t)
  have spec: "ent_spec L (InApp path (PSet v)) (app_table s) = (Answer (BoolAnswer ok), app_table t)"
    using app_step_sim [OF ok, of env path "PSet v"] assms(3) by simp
  then have table: "app_table t = snd (ent_spec L (InApp path (PSet v)) (app_table s))"
    and answer: "fst (ent_spec L (InApp path (PSet v)) (app_table s)) = Answer (BoolAnswer ok)"
    by (simp_all only: fst_conv snd_conv)
  show ?thesis
  proof (cases ok)
    case True
    then have "fst (get_property_data_ptr L path t) = Some v"
      using answer assms(2) unfolding data_ptr_exact [OF ok_t] table
      by (auto split: option.splits prod.splits if_splits list.splits)
    then show ?thesis using True assms(2)
      by (simp add: get_property_def get_string_property_def get_property_type_def property_has_data_def
          with_data_def case_prod_beta)
  next
    case False
    then have "fst (get_property_data_ptr L other t) = fst (get_property_data_ptr L other s)"
      using answer unfolding data_ptr_exact [OF ok_t] data_ptr_exact [OF ok] table
      by (auto split: option.splits prod.splits if_splits list.splits)
    then show ?thesis using False by (simp add: get_property_def with_data_def case_prod_beta)
  qed
qed

text \<open>
  The names of the applications cannot be walked. Asking for the next name after the first
  answers the first again, however often: the search finds the name given and never moves on,
  so a second application is never reached.
\<close>

theorem next_application_name_stuck:
  assumes "made_entity L s" and "n = get_first_application_name True s" and "trim_copy (paths L) n = n"
  shows "((\<lambda>m. get_next_application_name L m True s) ^^ k) n = n"
proof -
  note ok = made_ok [OF assms(1)]
  have "get_next_application_name L n True s = n"
  proof (cases "application_properties s")
    case Nil
    then show ?thesis using assms(2) by (simp add: get_next_application_name_def get_first_application_name_def)
  next
    case (Cons e es)
    then have n: "n = fst e" "map_of (application_properties s) n = Some (snd e)"
      using assms(2) by (simp_all add: get_first_application_name_def map_of_Cons_code case_prod_beta)
    then have name: "n \<noteq> [] \<and> SEP \<notin> set n" using apps_okD(2) [OF ok n(2)] by blast
    then have "dropWhile (\<lambda>c. c = SEP) n = n" by (cases n) auto
    moreover have "takeWhile (\<lambda>c. c \<noteq> SEP) n = n" using name by (auto simp: takeWhile_eq_all_conv)
    ultimately have "app_name L n = n"
      using assms(3) name by (simp add: app_name_def get_application_name_from_path_def Let_def)
    then show ?thesis using n by (simp add: get_next_application_name_def)
  qed
  then show ?thesis by (induction k) simp_all
qed

text \<open>
  The properties of an application cannot be walked from their beginning: on an entity that
  operations made, no path at all has a first or a last property below it, since the path of an
  application alone is refused and no directory is ever made below one.
\<close>

theorem no_first_property:
  assumes "made_entity L s"
  shows "fst (get_first_property L path True s) = [] \<and> fst (get_last_property L path True s) = []"
  using app_step_sim [OF made_ok [OF assms], where path = path and x = PFirst]
    app_step_sim [OF made_ok [OF assms], where path = path and x = PLast]
  by (auto split: option.splits prod.splits)

text \<open>Inputs that meet the hypotheses: an entity with two applications.\<close>

definition quiet_env :: entity_env where
  "quiet_env = \<lparr>db_listeners = [], current_time = 3, limits_entity_name = 80, limits_string_size = 4096\<rparr>"

definition two_apps :: "nat property_entity" where
  "two_apps = snd (run_ops (ent_step simple_lib quiet_env)
     [AppAdd ''a'' (DbId 1 2) (security_new PropSecurity), AppAdd ''b'' (DbId 1 3) (security_new PropSecurity)]
     (property_entity_new quiet_env (DbId 1 9) ENTITYTYPE_property_entity 1 0 False))"

lemma made_two_apps: "made_entity simple_lib two_apps"
  unfolding made_entity_def two_apps_def by blast

theorem applications_isolated_witness:
  "map_of (application_properties (snd (ent_step simple_lib quiet_env
      (InApp ''a/x'' (PSet (BooleanProperty True))) two_apps))) ''b''
    = map_of (application_properties two_apps) ''b''"
  by (rule applications_isolated [OF made_two_apps])
    (simp add: app_name_def simple_lib_def get_application_name_from_path_def SEP_def)

lemma two_apps_table: "app_table two_apps = [''a'' \<mapsto> (DbId 1 2, security_new PropSecurity, Map.empty),
    ''b'' \<mapsto> (DbId 1 3, security_new PropSecurity, Map.empty)]"
proof -
  have names: "app_name simple_lib ''a'' = ''a''" "app_name simple_lib ''b'' = ''b''"
    by (simp_all add: app_name_def simple_lib_def get_application_name_from_path_def SEP_def)
  have sizes: "text_size ''a'' \<le> limits_property_name (paths simple_lib)"
    "text_size ''b'' \<le> limits_property_name (paths simple_lib)"
    by (simp_all add: simple_lib_def text_size_def utf8_size_def byte_constants)
  show ?thesis
    using apps.run_simulates [where L = simple_lib and env = quiet_env and xs = "[AppAdd ''a'' (DbId 1 2)
      (security_new PropSecurity), AppAdd ''b'' (DbId 1 3) (security_new PropSecurity)]",
      OF new_apps(1) [of simple_lib quiet_env "DbId 1 9" ENTITYTYPE_property_entity 1 0 False]]
    unfolding two_apps_def [symmetric] new_apps(2)
    by (simp add: names sizes Let_def del: ent_step.simps)
qed

theorem property_reads_back_witness:
  "\<exists>t. set_property simple_lib quiet_env ''a/x'' (StringProperty ''hi'') True two_apps = (True, t)
    \<and> fst (get_string_property simple_lib ''a/x'' True t) = ''hi''"
proof -
  obtain ok t where run: "set_property simple_lib quiet_env ''a/x'' (StringProperty ''hi'') True two_apps = (ok, t)"
    by (cases "set_property simple_lib quiet_env ''a/x'' (StringProperty ''hi'') True two_apps")
  have "split_path simple_lib ''a/x'' = Some (''a'', ''x'')"
    by (simp add: split_path_def simple_lib_def SEP_def)
  moreover have "trimmed_tokens (paths simple_lib) ''x'' = Some [''x'']"
    by (simp add: trimmed_tokens_def simple_lib_def segments_def SEP_def)
  moreover have "text_size ''x'' \<le> limits_property_name (paths simple_lib)"
    by (simp add: simple_lib_def text_size_def utf8_size_def byte_constants)
  ultimately have "ok"
    using ent_step_sim [OF made_ok [OF made_two_apps], of quiet_env "InApp ''a/x'' (PSet (StringProperty ''hi''))"] run
    by (simp add: two_apps_table)
  then show ?thesis using property_reads_back [OF made_two_apps _ run] run by simp
qed

theorem next_application_name_stuck_witness:
  "((\<lambda>m. get_next_application_name simple_lib m True two_apps) ^^ 9) (get_first_application_name True two_apps)
    = get_first_application_name True two_apps"
  by (rule next_application_name_stuck [OF made_two_apps refl]) (simp add: simple_lib_def)

theorem no_first_property_witness: "fst (get_first_property simple_lib ''a/'' True two_apps) = []"
  using no_first_property [OF made_two_apps] by blast

end
