(* ===== verification/Utf8Props.thy ===== *)
theory Utf8Props
  imports Utf8
begin

text \<open>
  UTF-8 text as a list of well-formed characters: validity and size are those of that list,
  positions and splits fall between characters, searching finds the first occurrence, and
  extended ASCII survives the conversion to UTF-8 and back.
\<close>

subsection \<open>Well-formed characters\<close>

definition wf_char :: "bytes \<Rightarrow> bool" where
  "wf_char b = (case b of [] \<Rightarrow> False
     | c # cs \<Rightarrow> char_bytes c = Some (length b) \<and> c \<ge> PRINTABLE_ASCII_BEGIN
         \<and> (\<forall>d \<in> set cs. continues d))"

definition wf_text :: "bytes list \<Rightarrow> bool" where
  "wf_text cs \<longleftrightarrow> (\<forall>b \<in> set cs. wf_char b)"

lemma wf_text_simps [simp]:
  "wf_text []" "wf_text (b # cs) \<longleftrightarrow> wf_char b \<and> wf_text cs"
  "wf_text (cs @ ds) \<longleftrightarrow> wf_text cs \<and> wf_text ds"
  by (auto simp: wf_text_def)

lemma wf_char_nonempty: "wf_char b \<Longrightarrow> b \<noteq> []"
  by (cases b) (simp_all add: wf_char_def)

lemma wf_charE:
  assumes "wf_char b"
  obtains c cs where "b = c # cs" "char_bytes c = Some (Suc (length cs))"
    "c \<ge> PRINTABLE_ASCII_BEGIN" "\<forall>d \<in> set cs. continues d"
  using assms by (cases b) (auto simp: wf_char_def)

lemma wf_text_take_drop: "wf_text cs \<Longrightarrow> wf_text (take k cs)" "wf_text cs \<Longrightarrow> wf_text (drop k cs)"
  by (auto simp: wf_text_def dest: in_set_takeD in_set_dropD)

subsection \<open>Validity and size\<close>

lemma valid_continuing:
  "\<forall>d \<in> set ks. continues d \<Longrightarrow> utf8_valid_loop (length ks) (ks @ s) = utf8_valid_loop 0 s"
  by (induction ks) auto

lemma size_continuing:
  "\<forall>d \<in> set ks. continues d \<Longrightarrow> utf8_size_loop n (length ks) (ks @ s) = utf8_size_loop n 0 s"
  by (induction ks) auto

lemma valid_char:
  assumes "wf_char b"
  shows "utf8_valid_loop 0 (b @ s) = utf8_valid_loop 0 s"
    and "utf8_size_loop n 0 (b @ s) = utf8_size_loop (n + 1) 0 s"
proof -
  obtain c cs where b: "b = c # cs" "char_bytes c = Some (Suc (length cs))"
    "c \<ge> PRINTABLE_ASCII_BEGIN" "\<forall>d \<in> set cs. continues d" using assms by (rule wf_charE)
  note loops = valid_continuing [OF b(4), of s] size_continuing [OF b(4), of "Suc n" s]
  show "utf8_valid_loop 0 (b @ s) = utf8_valid_loop 0 s"
    "utf8_size_loop n 0 (b @ s) = utf8_size_loop (n + 1) 0 s"
    using b(2,3) loops
    by (auto simp: b(1) char_bytes_def not_less split: if_splits)
qed

lemma valid_text:
  assumes "wf_text cs"
  shows "utf8_valid_loop 0 (concat cs)" and "utf8_size_loop n 0 (concat cs) = n + length cs"
  using assms by (induction cs arbitrary: n) (simp_all add: valid_char)

lemma valid_loop_parse:
  "utf8_valid_loop left s \<Longrightarrow> \<exists>ks cs. s = ks @ concat cs \<and> length ks = left
    \<and> (\<forall>d \<in> set ks. continues d) \<and> wf_text cs"
proof (induction left s rule: utf8_valid_loop.induct)
  case (1 left)
  then show ?case by (intro exI [of _ "[]"]) simp
next
  case (2 left c cs)
  show ?case
  proof (cases "left = 0")
    case False
    then have "continues c" and "utf8_valid_loop (left - 1) cs" using "2.prems" by (simp_all split: if_splits)
    with "2.IH"(1) False obtain ks ds where "cs = ks @ concat ds" "length ks = left - 1"
      "\<forall>d \<in> set ks. continues d" "wf_text ds" by blast
    with False \<open>continues c\<close> show ?thesis by (intro exI [of _ "c # ks"] exI [of _ ds]) auto
  next
    case True
    have "\<exists>k. char_bytes c = Some (Suc k) \<and> utf8_valid_loop k cs" and big: "c \<ge> PRINTABLE_ASCII_BEGIN"
      using "2.prems" True by (auto simp: char_bytes_def numeral_eq_Suc not_less split: if_splits)
    then obtain k where k: "char_bytes c = Some (Suc k)" "utf8_valid_loop k cs" by blast
    have "\<exists>ks ds. cs = ks @ concat ds \<and> length ks = k \<and> (\<forall>d \<in> set ks. continues d) \<and> wf_text ds"
      using "2.IH"(2-) True k big
      by (auto simp: char_bytes_def numeral_eq_Suc not_less split: if_splits)
    then obtain ks ds where "cs = ks @ concat ds" "length ks = k" "\<forall>d \<in> set ks. continues d"
      "wf_text ds" by blast
    with True k(1) big show ?thesis
      by (intro exI [of _ "[]"] exI [of _ "(c # ks) # ds"]) (simp add: wf_char_def)
  qed
qed

lemma size_invalid: "\<not> utf8_valid_loop left s \<Longrightarrow> utf8_size_loop n left s = 0"
  by (induction n left s rule: utf8_size_loop.induct) (auto split: if_splits)

lemma utf8_valid_loop_iff: "utf8_valid s \<longleftrightarrow> utf8_valid_loop 0 s"
  by (simp add: utf8_valid_def)

lemma utf8_valid_iff: "utf8_valid s \<longleftrightarrow> (\<exists>cs. wf_text cs \<and> s = concat cs)"
  unfolding utf8_valid_loop_iff using valid_loop_parse [of 0 s] valid_text(1) by auto

text \<open>
  A string is valid exactly when it is a sequence of well-formed characters (printable
  ASCII, or a leading byte with the continuation bytes it announces), and its size is the
  number of those characters; the size of an invalid string is 0.
\<close>

theorem utf8_size_counts_characters:
  "(utf8_valid s \<longleftrightarrow> (\<exists>cs. wf_text cs \<and> s = concat cs))
    \<and> (\<forall>cs. wf_text cs \<longrightarrow> utf8_size (concat cs) = length cs)
    \<and> (\<not> utf8_valid s \<longrightarrow> utf8_size s = 0)"
proof (intro conjI allI impI)
  show "utf8_valid s \<longleftrightarrow> (\<exists>cs. wf_text cs \<and> s = concat cs)" by (rule utf8_valid_iff)
next
  fix cs assume "wf_text cs"
  then show "utf8_size (concat cs) = length cs"
    using valid_text(2) [of cs 0] by (cases cs) (auto simp: utf8_size_def dest: wf_char_nonempty)
next
  assume "\<not> utf8_valid s"
  then show "utf8_size s = 0" by (simp add: utf8_size_def utf8_valid_def size_invalid split: if_splits)
qed

theorem utf8_size_counts_characters_witness:
  "utf8_size (concat [[65], [0xC3, 0xA9], [0xE2, 0x82, 0xAC]]) = 3"
  using conjunct1 [OF conjunct2 [OF utf8_size_counts_characters], rule_format,
      of "[[65], [0xC3, 0xA9], [0xE2, 0x82, 0xAC]]"]
  by (simp add: wf_char_def char_bytes_def lead2_def lead3_def continues_def byte_constants)

subsection \<open>Positions\<close>

definition char_pos :: "bytes list \<Rightarrow> nat \<Rightarrow> nat" where
  "char_pos cs k = length (concat (take k cs))"

lemma utf8_index_to_byte_empty [simp]: "utf8_index_to_byte [] k = 0"
  by (simp add: utf8_index_to_byte_def)

lemma char_pos_le: "char_pos cs k \<le> length (concat cs)"
  unfolding char_pos_def by (metis append_take_drop_id concat_append le_add1 length_append)

lemma nth_char_start:
  assumes "wf_text cs" and "k < length cs"
  shows "concat cs ! char_pos cs k = hd (cs ! k)" and "char_pos cs k < length (concat cs)"
    and "char_pos cs (Suc k) = char_pos cs k + length (cs ! k)"
    and "char_bytes (hd (cs ! k)) = Some (length (cs ! k))"
proof -
  have wf: "wf_char (cs ! k)" using assms by (simp add: wf_text_def)
  then obtain c ds where b: "cs ! k = c # ds" "char_bytes c = Some (Suc (length ds))"
    by (rule wf_charE)
  have "cs = take k cs @ cs ! k # drop (Suc k) cs" using assms(2) by (rule id_take_nth_drop)
  then have "concat cs = concat (take k cs) @ cs ! k @ concat (drop (Suc k) cs)"
    by (metis concat.simps(2) concat_append)
  with b show "concat cs ! char_pos cs k = hd (cs ! k)" "char_pos cs k < length (concat cs)"
    "char_bytes (hd (cs ! k)) = Some (length (cs ! k))"
    by (simp_all add: char_pos_def)
  show "char_pos cs (Suc k) = char_pos cs k + length (cs ! k)"
    using assms(2) by (simp add: char_pos_def take_Suc_conv_app_nth)
qed

lemma char_pos_ends [simp]: "char_pos cs 0 = 0" "length cs \<le> k \<Longrightarrow> char_pos cs k = length (concat cs)"
  by (simp_all add: char_pos_def)

lemma char_pos_pos: "wf_text cs \<Longrightarrow> 0 < k \<Longrightarrow> cs \<noteq> [] \<Longrightarrow> 0 < char_pos cs k"
  by (cases cs; cases k) (auto simp: char_pos_def dest: wf_char_nonempty)

lemma index_loop_text:
  assumes "wf_text cs"
  shows "index_loop k (concat cs) (char_pos cs j)
    = (if k + j \<le> length cs \<or> k = 0 then (char_pos cs (k + j), 0)
       else (length (concat cs), if j \<le> length cs then k + j - length cs else k))"
proof (induction k arbitrary: j)
  case (Suc k)
  show ?case
  proof (cases "j < length cs")
    case True
    note start = nth_char_start [OF assms True]
    show ?thesis using Suc.IH [of "Suc j"] start True by auto
  next
    case False
    then show ?thesis by simp
  qed
qed simp

lemma utf8_index_to_byte_text:
  assumes "wf_text cs"
  shows "utf8_index_to_byte (concat cs) k = (if k \<le> length cs then char_pos cs k else 0)"
proof (cases "concat cs = []")
  case True
  then have "char_pos cs k = 0" using char_pos_le [of cs k] by (simp del: concat_eq_Nil_conv)
  with True show ?thesis by (simp add: utf8_index_to_byte_def)
next
  case False
  with index_loop_text [OF assms, of k 0] show ?thesis
    by (simp add: utf8_index_to_byte_def del: concat_eq_Nil_conv)
qed

lemma length_concat_take_mono: "j \<le> k \<Longrightarrow> length (concat (take j cs)) \<le> length (concat (take k cs))"
proof -
  assume "j \<le> k"
  then have "take k cs = take j cs @ take (k - j) (drop j cs)" by (metis le_add_diff_inverse take_add)
  then show ?thesis by simp
qed

lemma byte_loop_text:
  assumes "wf_text cs" and "k < length cs" and "j \<le> k" and "r < length (cs ! k)"
  shows "byte_loop (concat cs) (char_pos cs k + r) (char_pos cs j) i
    = (if r = 0 then (char_pos cs k, i + k - j) else (char_pos cs (Suc k), i + Suc k - j))"
  using assms(3)
proof (induction "k - j" arbitrary: j i)
  case 0
  then have j: "j = k" by simp
  note start = nth_char_start [OF assms(1,2)]
  show ?case
  proof (cases "r = 0")
    case True
    then show ?thesis by (subst byte_loop.simps) (simp add: j)
  next
    case False
    have "byte_loop (concat cs) (char_pos cs k + r) (char_pos cs (Suc k)) (i + 1)
        = (char_pos cs (Suc k), i + 1)"
      using start assms(4) by (subst byte_loop.simps) simp
    then show ?thesis using False start by (subst byte_loop.simps) (simp add: j)
  qed
next
  case (Suc d)
  then have j: "j < k" "j < length cs" using assms(2) by auto
  note start = nth_char_start [OF assms(1) j(2)]
  have "char_pos cs (Suc j) \<le> char_pos cs k"
    unfolding char_pos_def using j(1) by (intro length_concat_take_mono) simp
  then have "char_pos cs j < char_pos cs k + r" using start wf_char_nonempty assms(1) j(2)
    by (metis add_lessD1 le_add_diff_inverse length_greater_0_conv less_add_same_cancel1
        nth_mem order_less_le_trans trans_less_add1 wf_text_def)
  then show ?case
    using start Suc.hyps(1) [of "Suc j" "i + 1"] Suc.hyps(2) j
    by (subst byte_loop.simps) (auto simp: Suc_diff_le)
qed

text \<open>
  C40. On valid text the two conversions between characters and bytes are exact: the byte
  position of a character is the number of bytes before it, and every byte of a character, not
  only the first, is converted back to that character's index.
\<close>

theorem utf8_positions_exact:
  assumes "wf_text cs" and "k < length cs" and "r < length (cs ! k)"
  shows "utf8_index_to_byte (concat cs) k = length (concat (take k cs))
    \<and> utf8_byte_to_index (concat cs) (utf8_index_to_byte (concat cs) k + r) = k"
proof -
  have "cs \<noteq> []" using assms(2) by auto
  then have "utf8_byte_to_index (concat cs) (char_pos cs k + r) = k"
    using byte_loop_text [OF assms(1,2) _ assms(3), of 0 0] nth_char_start(2,3) [OF assms(1,2)] assms(3)
      char_pos_pos [OF assms(1), of k] assms(2)
    by (cases "k = 0") (auto simp: utf8_byte_to_index_def simp del: concat_eq_Nil_conv)
  then show ?thesis using utf8_index_to_byte_text [OF assms(1), of k] assms(2)
    by (simp add: char_pos_def)
qed

theorem utf8_positions_exact_witness:
  "utf8_byte_to_index [65, 0xE2, 0x82, 0xAC, 66]
    (utf8_index_to_byte [65, 0xE2, 0x82, 0xAC, 66] 1 + 2) = 1"
  using conjunct2 [OF utf8_positions_exact [of "[[65], [0xE2, 0x82, 0xAC], [66]]" 1 2]]
  by (simp add: wf_char_def char_bytes_def lead2_def lead3_def continues_def byte_constants)

lemma concat_take_drop:
  "take (char_pos cs k) (concat cs) = concat (take k cs)"
  "drop (char_pos cs k) (concat cs) = concat (drop k cs)"
proof -
  have "concat cs = concat (take k cs) @ concat (drop k cs)"
    by (metis append_take_drop_id concat_append)
  then show "take (char_pos cs k) (concat cs) = concat (take k cs)"
    "drop (char_pos cs k) (concat cs) = concat (drop k cs)"
    by (simp_all add: char_pos_def)
qed

text \<open>
  Splitting valid text at an index puts exactly the characters before it into the first
  part and the others into the second; limiting it to a size, in place or not, keeps exactly
  the first characters; none of them reads past the string. The character at an index is that
  character, but at the index after the last one it is the terminating zero byte instead of
  the empty string of an index out of bounds.
\<close>

theorem utf8_split_exact:
  assumes "wf_text cs"
  shows "utf8_split (concat cs) k = Some (concat (take k cs), concat (drop k cs))
    \<and> utf8_chop_at_limit (concat cs) k = Some (concat (take k cs))
    \<and> utf8_chop_modify_at_limit (concat cs) k = Some (concat (take k cs))
    \<and> utf8_char_at (concat cs) k = Some (if k < length cs then cs ! k
        else if k = length cs \<and> cs \<noteq> [] then [0] else [])"
proof (cases "cs = []")
  case True
  then show ?thesis by (simp add: utf8_split_def utf8_chop_at_limit_def
      utf8_chop_modify_at_limit_def utf8_index_to_byte_def utf8_char_at_def)
next
  case False
  note pos = utf8_index_to_byte_text [OF assms, of k] char_pos_le [of cs k]
    char_pos_pos [OF assms _ False, of k] concat_take_drop [of cs k]
  have ne: "concat cs \<noteq> []" using assms False by (cases cs) (auto dest: wf_char_nonempty)
  have "utf8_char_at (concat cs) k = Some (if k < length cs then cs ! k
      else if k = length cs then [0] else [])"
  proof (cases "k < length cs")
    case True
    note start = nth_char_start [OF assms True]
    have "take (length (cs ! k)) (concat (drop k cs)) = cs ! k"
      using Cons_nth_drop_Suc [OF True] by (metis append_eq_conv_conj concat.simps(2))
    moreover from arg_cong [OF this, of length] have "length (cs ! k) \<le> length (concat (drop k cs))"
      by simp
    ultimately show ?thesis
      using pos ne start True char_pos_le [of cs "Suc k"]
      by (auto simp: utf8_char_at_def nth_append Let_def simp del: concat_eq_Nil_conv)
  next
    case kn: False
    then show ?thesis
      using pos ne by (auto simp: utf8_char_at_def nth_append Let_def char_bytes_def
          PRINTABLE_ASCII_END_def simp del: concat_eq_Nil_conv)
  qed
  then show ?thesis
    using pos ne False by (auto simp: utf8_split_def utf8_chop_at_limit_def Let_def
        utf8_chop_modify_at_limit_def simp del: concat_eq_Nil_conv)
qed

theorem utf8_split_exact_witness:
  "utf8_split [65, 0xE2, 0x82, 0xAC, 66] 2 = Some ([65, 0xE2, 0x82, 0xAC], [66])
    \<and> utf8_char_at [65, 0xE2, 0x82, 0xAC, 66] 2 = Some [66]"
  using utf8_split_exact [of "[[65], [0xE2, 0x82, 0xAC], [66]]" 2]
  by (simp add: wf_char_def char_bytes_def lead2_def lead3_def continues_def byte_constants)

subsection \<open>Bits of a byte\<close>

lemma all_bits8: "(\<forall>n<8. P n) \<longleftrightarrow> P 0 \<and> P 1 \<and> P 2 \<and> P 3 \<and> P 4 \<and> P 5 \<and> P 6 \<and> P (7::nat)"
  by (simp add: eval_nat_numeral All_less_Suc conj_ac)

lemma u8_eq_iff: "(a::u8) = b \<longleftrightarrow> (\<forall>n<8. bit a n = bit b n)"
  by (auto intro: bit_word_eqI)

lemma no_bit8 [simp]: "8 \<le> n \<Longrightarrow> \<not> bit (a::u8) n"
  using bit_imp_le_length [of a n] by auto

lemma lead_not_continuing:
  "lead2 c \<Longrightarrow> \<not> continues c" "lead3 c \<Longrightarrow> \<not> continues c" "lead4 c \<Longrightarrow> \<not> continues c"
  unfolding lead2_def lead3_def lead4_def continues_def
  by (auto simp: u8_eq_iff all_bits8 bit_simps)

lemma continues_big: "continues c \<Longrightarrow> c > PRINTABLE_ASCII_END"
proof -
  assume "continues c"
  then have "0x80 \<le> c" unfolding continues_def by (metis word_and_le1 and.commute)
  then show ?thesis by (simp add: PRINTABLE_ASCII_END_def word_le_nat_alt word_less_nat_alt)
qed

lemma wf_char_not_continuing: "wf_char b \<Longrightarrow> \<not> continues (hd b)"
  by (erule wf_charE) (auto simp: char_bytes_def lead_not_continuing not_less
      dest: continues_big split: if_splits)

subsection \<open>Searching\<close>

definition occurs :: "bytes \<Rightarrow> bytes \<Rightarrow> nat \<Rightarrow> bool" where
  "occurs s t p \<longleftrightarrow> take (length t) (drop p s) = t"

lemma occurs_length: "occurs s t p \<Longrightarrow> t \<noteq> [] \<Longrightarrow> p + length t \<le> length s"
proof -
  assume "occurs s t p" and "t \<noteq> []"
  then have "length (take (length t) (drop p s)) = length t" by (simp add: occurs_def)
  with \<open>t \<noteq> []\<close> show ?thesis by (cases t) (simp_all add: min_def split: if_splits)
qed

lemma occurs_hd: "occurs s t p \<Longrightarrow> t \<noteq> [] \<Longrightarrow> s ! p = hd t"
proof -
  assume occ: "occurs s t p" and "t \<noteq> []"
  then have "p < length s" using occurs_length [OF occ] by (cases t) auto
  moreover from this have "hd (take (length t) (drop p s)) = s ! p"
    using \<open>t \<noteq> []\<close> by (simp add: hd_drop_conv_nth)
  ultimately show ?thesis using occ by (simp add: occurs_def)
qed

lemma occurs_single: "length t = 1 \<Longrightarrow> p < length s \<Longrightarrow> s ! p = hd t \<Longrightarrow> occurs s t p"
  by (cases t) (auto simp: occurs_def take_Suc hd_drop_conv_nth drop_eq_Nil)

lemma find_upt:
  assumes "a \<le> i" and "i < n" and "P i"
  shows "\<exists>j. find P [a..<n] = Some j \<and> a \<le> j \<and> j \<le> i \<and> P j"
proof -
  have "find P [a..<n] \<noteq> None" using assms by (auto simp: find_None_iff)
  then obtain j where j: "find P [a..<n] = Some j" by blast
  then obtain k where k: "k < n - a" "P (a + k)" "j = a + k" "\<forall>m<k. \<not> P (a + m)"
    by (auto simp: find_Some_iff)
  have "j \<le> i"
  proof (rule ccontr)
    assume "\<not> j \<le> i"
    then have "i - a < k" "a + (i - a) = i" using k(3) assms(1) by auto
    with k(4) assms(3) show False by metis
  qed
  with j k show ?thesis by auto
qed

lemma find_loop_first:
  assumes "t \<noteq> []" and "occurs s t p" and "\<forall>q. cur \<le> q \<and> q < p \<longrightarrow> \<not> occurs s t q" and "cur \<le> p"
  shows "find_loop s t cur = Some (Some p)"
  using assms(3,4)
proof (induction "p - cur" arbitrary: cur rule: less_induct)
  case less
  have len: "p + length t \<le> length s" and hd: "s ! p = hd t"
    using occurs_length [OF assms(2,1)] occurs_hd [OF assms(2,1)] by auto
  then have "p < length s" using assms(1) by (cases t) auto
  then obtain i where i: "memchr_from s (hd t) cur = Some i" "cur \<le> i" "i \<le> p" "s ! i = hd t"
    unfolding memchr_from_def using find_upt [of cur p "length s" "\<lambda>i. s ! i = hd t"] less.prems hd by auto
  have same: "same_at s t i = Some (occurs s t i)"
    using i(3) len by (simp add: same_at_def occurs_def)
  have cur: "cur \<le> length s - length t" using less.prems(2) len by simp
  show ?case
  proof (cases "occurs s t i")
    case True
    then have "i = p" using less.prems(1) i(2,3) by (meson le_neq_implies_less)
    then show ?thesis using True cur i(1) same by (subst find_loop.simps) simp
  next
    case False
    then have "length t \<noteq> 1" using occurs_single [of t i s] i(3,4) \<open>p < length s\<close> by auto
    moreover have "i < p" using False assms(2) i(3) by (metis le_neq_implies_less)
    moreover from this have "find_loop s t (i + 1) = Some (Some p)"
      using less.prems i(2) by (intro less.hyps) auto
    ultimately show ?thesis using cur i(1) same False by (subst find_loop.simps) simp
  qed
qed

lemma char_boundary:
  assumes "wf_text cs" and "q < length (concat cs)" and "\<not> continues (concat cs ! q)"
  shows "\<exists>j<length cs. q = char_pos cs j"
  using assms
proof (induction cs arbitrary: q)
  case (Cons b cs)
  then obtain c ks where b: "b = c # ks" "\<forall>d \<in> set ks. continues d" by (auto elim: wf_charE)
  show ?case
  proof (cases "q < length b")
    case True
    have "q = 0"
    proof (rule ccontr)
      assume "q \<noteq> 0"
      then have "(b @ concat cs) ! q \<in> set ks" using True b(1) by (cases q) (auto simp: nth_append)
      then show False using Cons.prems(3) b(2) by simp
    qed
    then show ?thesis by (intro exI [of _ 0]) simp
  next
    case False
    then have "\<exists>j<length cs. q - length b = char_pos cs j"
      using Cons.prems by (intro Cons.IH) (auto simp: nth_append)
    then obtain j where "j < length cs" "q - length b = char_pos cs j" by blast
    then show ?thesis using False by (intro exI [of _ "Suc j"]) (auto simp: char_pos_def)
  qed
qed simp

lemma prefix_text:
  assumes "wf_text ts" and "wf_text cs" and "take (length (concat ts)) (concat cs) = concat ts"
  shows "take (length ts) cs = ts"
  using assms
proof (induction ts arbitrary: cs)
  case (Cons t ts)
  then obtain c ks where t: "t = c # ks" "char_bytes c = Some (length t)" by (auto elim: wf_charE)
  with Cons.prems(3) obtain b cs' where cs: "cs = b # cs'" by (cases cs) auto
  with Cons.prems(2) obtain d ls where b: "b = d # ls" "char_bytes d = Some (length b)"
    by (auto elim: wf_charE)
  with t cs Cons.prems(3) have "c = d" by simp
  with t(2) b(2) have "length b = length t" by simp
  with Cons.prems(3) have "b = t" "take (length (concat ts)) (concat cs') = concat ts"
    by (simp_all add: cs)
  with Cons cs show ?case by simp
qed simp

lemma utf8_byte_to_index_text:
  assumes "wf_text cs" and "k < length cs"
  shows "utf8_byte_to_index (concat cs) (char_pos cs k) = k"
proof -
  have "0 < length (cs ! k)" using nth_char_start(4) [OF assms] by (rule char_bytes_pos)
  moreover have "cs \<noteq> []" using assms(2) by auto
  then have "0 < k \<Longrightarrow> 0 < char_pos cs k" using char_pos_pos [OF assms(1), of k] by simp
  ultimately show ?thesis
    using byte_loop_text [OF assms, of 0 0 0] nth_char_start(2) [OF assms]
    by (cases "k = 0") (auto simp: utf8_byte_to_index_def simp del: concat_eq_Nil_conv)
qed

lemma char_pos_mono: "j \<le> k \<Longrightarrow> char_pos cs j \<le> char_pos cs k"
  unfolding char_pos_def by (rule length_concat_take_mono)

definition char_occurs :: "bytes list \<Rightarrow> bytes list \<Rightarrow> nat \<Rightarrow> bool" where
  "char_occurs cs ts k \<longleftrightarrow> take (length ts) (drop k cs) = ts"

lemma occurs_iff_char_occurs:
  assumes "wf_text cs" and "wf_text ts" and "ts \<noteq> []" and "k \<le> length cs"
  shows "occurs (concat cs) (concat ts) (char_pos cs k) \<longleftrightarrow> char_occurs cs ts k"
proof
  assume "occurs (concat cs) (concat ts) (char_pos cs k)"
  then have "take (length (concat ts)) (concat (drop k cs)) = concat ts"
    by (simp only: occurs_def concat_take_drop)
  with assms show "char_occurs cs ts k"
    unfolding char_occurs_def by (intro prefix_text) (simp_all add: wf_text_take_drop)
next
  assume "char_occurs cs ts k"
  then obtain us where "drop k cs = ts @ us" unfolding char_occurs_def by (metis append_take_drop_id)
  then show "occurs (concat cs) (concat ts) (char_pos cs k)"
    by (simp add: occurs_def concat_take_drop)
qed

lemma concat_ts: "wf_text ts \<Longrightarrow> ts \<noteq> [] \<Longrightarrow> concat ts \<noteq> []"
  by (cases ts) (auto dest: wf_char_nonempty)

lemma hd_not_continuing: "wf_text ts \<Longrightarrow> ts \<noteq> [] \<Longrightarrow> \<not> continues (hd (concat ts))"
  by (cases ts) (auto simp: hd_append dest: wf_char_nonempty wf_char_not_continuing)

text \<open>
  On valid text, searching for a non-empty text from a character index finds the first
  occurrence at or after that index, and answers with its character index; in particular an
  occurrence is never reported in the middle of a character, although the search compares bytes.
\<close>

theorem utf8_find_first:
  assumes "wf_text cs" and "wf_text ts" and "ts \<noteq> []"
    and "char_occurs cs ts k" and "start \<le> k" and "k \<le> length cs"
    and "\<forall>j. start \<le> j \<and> j < k \<longrightarrow> \<not> char_occurs cs ts j"
  shows "utf8_find (concat cs) (concat ts) start = Some (Some k)"
proof -
  let ?s = "concat cs" and ?t = "concat ts"
  note ne = concat_ts [OF assms(2,3)]
  have occ: "occurs ?s ?t (char_pos cs k)" using occurs_iff_char_occurs assms by simp
  have kl: "k < length cs" using assms(3,4,6) unfolding char_occurs_def by (cases "k = length cs") auto
  have first: "\<not> occurs ?s ?t q" if q: "char_pos cs start \<le> q \<and> q < char_pos cs k" for q
  proof
    assume oq: "occurs ?s ?t q"
    from occurs_length [OF oq ne] ne have "q < length ?s" by (cases "?t") auto
    moreover have "\<not> continues (?s ! q)"
      using occurs_hd [OF oq ne] hd_not_continuing [OF assms(2,3)] by simp
    ultimately obtain j where j: "j < length cs" "q = char_pos cs j" using char_boundary assms(1) by blast
    then have "char_occurs cs ts j" using oq occurs_iff_char_occurs assms by simp
    moreover have "j < k" using q j char_pos_mono [of k j cs] by (metis not_le)
    moreover have "start \<le> j"
    proof (rule ccontr)
      assume "\<not> start \<le> j"
      then have "char_pos cs (Suc j) \<le> char_pos cs start" by (intro char_pos_mono) simp
      moreover have "0 < length (cs ! j)" using nth_char_start(4) [OF assms(1) j(1)] by (rule char_bytes_pos)
      ultimately show False using q j(2) nth_char_start(3) [OF assms(1) j(1)] by linarith
    qed
    ultimately show False using assms(7) by blast
  qed
  have "find_loop ?s ?t (char_pos cs start) = Some (Some (char_pos cs k))"
    using first char_pos_mono [OF assms(5)] by (intro find_loop_first [OF ne occ]) auto
  moreover have "length ?t \<le> length ?s" using occurs_length [OF occ ne] by simp
  moreover have "?s \<noteq> []" using ne \<open>length ?t \<le> length ?s\<close> by (metis length_greater_0_conv order_less_le_trans)
  moreover have "cs \<noteq> []" using kl by auto
  ultimately show ?thesis
    using utf8_index_to_byte_text [OF assms(1), of start] assms(5,6) ne
      char_pos_pos [OF assms(1), of start] utf8_byte_to_index_text [OF assms(1) kl]
    by (cases "start = 0") (auto simp: utf8_find_def Let_def simp del: concat_eq_Nil_conv)
qed

theorem utf8_find_first_witness:
  "utf8_find [0xC3, 0xA9, 65, 0xC3, 0xA9, 66] [0xC3, 0xA9] 1 = Some (Some 2)"
proof -
  have "\<forall>j. 1 \<le> j \<and> j < 2 \<longrightarrow> \<not> char_occurs [[0xC3, 0xA9], [65], [0xC3, 0xA9], [66]] [[0xC3, 0xA9]] j"
  proof (intro allI impI)
    fix j :: nat
    assume "1 \<le> j \<and> j < 2"
    then have "j = 1" by simp
    then show "\<not> char_occurs [[0xC3, 0xA9], [65], [0xC3, 0xA9], [66]] [[0xC3, 0xA9]] j"
      by (simp add: char_occurs_def)
  qed
  with utf8_find_first [of "[[0xC3, 0xA9], [65], [0xC3, 0xA9], [66]]" "[[0xC3, 0xA9]]" 2 1]
  show ?thesis
    by (simp add: wf_char_def char_bytes_def lead2_def continues_def byte_constants char_occurs_def)
qed

text \<open>
  The backward search answers only with an occurrence, and never with one at the very end
  of the string: when the text to find occurs nowhere else, it is not found, although the
  string ends in it (the search starts before, not at, the last place where it fits).
\<close>

theorem utf8_find_last_misses_end:
  "(utf8_find_last s t = Some i \<longrightarrow>
      (\<exists>p. occurs s t p \<and> p + length t < length s \<and> i = utf8_byte_to_index s p))
    \<and> ((\<forall>p. occurs s t p \<longrightarrow> p + length t = length s) \<longrightarrow> utf8_find_last s t = None)"
proof -
  have loop: "find_last_loop s t cur = Some p \<Longrightarrow> t \<noteq> [] \<Longrightarrow> cur + length t \<le> length s
      \<Longrightarrow> occurs s t p \<and> p < cur" for cur p
  proof (induction s t cur rule: find_last_loop.induct)
    case (1 s t cur)
    from "1.prems"(1) obtain i where i: "memrchr_in s (hd t) cur = Some i"
      by (subst (asm) find_last_loop.simps) (auto split: option.splits)
    then have ic: "i < cur" "s ! i = hd t" by (auto simp: memrchr_in_def dest: find_in)
    show ?case
    proof (cases "length t = 1 \<or> take (length t) (drop i s) = t")
      case True
      then have "p = i" using "1.prems"(1) i by (subst (asm) find_last_loop.simps) (auto split: if_splits)
      then show ?thesis using True ic occurs_single [of t i s] "1.prems"(3) by (auto simp: occurs_def)
    next
      case False
      then have "i \<noteq> 0" "find_last_loop s t (i - 1) = Some p" using "1.prems"(1) i
        by (subst (asm) find_last_loop.simps, auto split: if_splits)+
      then have "occurs s t p \<and> p < i - 1" using "1.IH" i False "1.prems" ic(1) by auto
      then show ?thesis using ic(1) by auto
    qed
  qed
  have sound: "\<exists>p. occurs s t p \<and> p + length t < length s \<and> i = utf8_byte_to_index s p"
    if "utf8_find_last s t = Some i" for i
  proof -
    from that obtain p where p: "t \<noteq> []" "length t \<le> length s" "i = utf8_byte_to_index s p"
      "find_last_loop s t (length s - length t) = Some p"
      by (auto simp: utf8_find_last_def split: if_splits)
    with loop [OF p(4,1)] have "occurs s t p" "p + length t < length s" by auto
    with p(3) show ?thesis by blast
  qed
  then have "utf8_find_last s t = None" if "\<forall>p. occurs s t p \<longrightarrow> p + length t = length s"
    using that by (cases "utf8_find_last s t") auto
  with sound show ?thesis by blast
qed

theorem utf8_find_last_misses_end_witness:
  "utf8_find_last [65, 66, 67] [67] = None"
proof -
  have "\<forall>p. occurs [65, 66, 67] [67] p \<longrightarrow> p + length [67::u8] = length [65::u8, 66, 67]"
    by (auto simp: occurs_def take_Suc drop_Cons hd_drop_conv_nth split: nat.splits)
  then show ?thesis using utf8_find_last_misses_end [of "[65, 66, 67]" "[67]"] by blast
qed

subsection \<open>Extended ASCII\<close>

lemma two_bytes: "convert_bits_to_utf8 (ucast c) 8 = [0xC0 OR drop_bit 6 c, 0x80 OR (c AND 0x3F)]"
  unfolding convert_bits_to_utf8_def
  by (simp add: continue_bytes.simps u8_eq_iff all_bits8 bit_simps)

lemma two_bytes_classes:
  "lead2 (0xC0 OR drop_bit 6 c)" "continues (0x80 OR (c AND 0x3F))"
  unfolding lead2_def continues_def by (simp_all add: u8_eq_iff all_bits8 bit_simps)

lemma two_bytes_back:
  "ucast (push_bit 6 (ucast ((0xC0 OR drop_bit 6 c) AND NOT 0xE0))
     OR (ucast ((0x80 OR (c AND 0x3F)) AND NOT 0xC0) :: u32)) = (c::u8)"
  by (simp add: u8_eq_iff all_bits8 bit_simps)

lemma u8_in_u32: "unat (ucast (c::u8) :: u32) = unat c" "ucast (ucast c :: u32) = c"
  by (simp_all add: unsigned_ucast_eq take_bit_nat_eq_self_iff u8_eq_iff bit_simps
      order_less_trans [OF unsigned_less])

lemma two_bytes_data:
  "push_bit 6 (ucast ((0xC0 OR drop_bit 6 c) AND NOT 0xE0))
     OR (ucast ((0x80 OR (c AND 0x3F)) AND NOT 0xC0) :: u32) = ucast (c::u8)"
proof (rule bit_word_eqI)
  fix n :: nat
  assume "n < LENGTH(32)"
  then consider "n < 8" | m where "n = m + 8" by (metis add.commute le_Suc_ex not_less)
  then show "bit (push_bit 6 (ucast ((0xC0 OR drop_bit 6 c) AND NOT 0xE0))
      OR (ucast ((0x80 OR (c AND 0x3F)) AND NOT 0xC0) :: u32)) n = bit (ucast c :: u32) n"
  proof cases
    case 1
    then have "n \<in> {0, 1, 2, 3, 4, 5, 6, 7}" by auto
    then show ?thesis by (auto simp: bit_simps)
  next
    case 2
    show ?thesis
    proof (cases "m < 6")
      case True
      then have "m \<in> {0, 1, 2, 3, 4, 5}" by auto
      then show ?thesis by (auto simp: 2 bit_simps)
    qed (simp add: 2 bit_simps)
  qed
qed

text \<open>What a byte becomes in UTF-8, and what comes back.\<close>

definition encoded :: "u8 \<Rightarrow> bytes" where
  "encoded c = (if c < 32 then [63] else if c \<le> 126 then [c]
     else if 0xA0 \<le> c \<and> c \<le> 0xFE then [0xC0 OR drop_bit 6 c, 0x80 OR (c AND 0x3F)]
     else [0xEF, 0xBF, 0xBD])"

definition kept :: "u8 \<Rightarrow> bool" where
  "kept c \<longleftrightarrow> 32 \<le> c \<and> c \<le> 126 \<or> 0xA0 \<le> c \<and> c \<le> 0xFE"

lemma replacement_bytes: "convert_bits_to_utf8 REPLACEMENT_CHAR 16 = [0xEF, 0xBF, 0xBD]"
  by (simp add: convert_bits_to_utf8_def REPLACEMENT_CHAR_def continue_bytes.simps)

lemma extended_loop_encoded:
  "extended_loop pending result s = result @ pending @ concat (map encoded s)"
  by (induction pending result s rule: extended_loop.induct)
    (auto simp: encoded_def two_bytes replacement_bytes PRINTABLE_ASCII_BEGIN_def
      PRINTABLE_ASCII_END_def QUESTION_MARK_def not_less not_le)

lemma lead2_big: "lead2 c \<Longrightarrow> c > PRINTABLE_ASCII_END"
proof -
  assume "lead2 c"
  then have "0xC0 \<le> c" unfolding lead2_def by (metis word_and_le1 and.commute)
  then show ?thesis by (simp add: PRINTABLE_ASCII_END_def word_le_nat_alt word_less_nat_alt)
qed

lemma wf_two_bytes: "wf_char [0xC0 OR drop_bit 6 c, 0x80 OR (c AND 0x3F)]"
proof -
  have "PRINTABLE_ASCII_BEGIN \<le> 0xC0 OR drop_bit 6 c"
    using lead2_big [OF two_bytes_classes(1), of c]
    by (simp add: byte_constants word_le_nat_alt word_less_nat_alt)
  then show ?thesis using two_bytes_classes [of c] lead2_big [OF two_bytes_classes(1), of c]
    by (simp add: wf_char_def char_bytes_def)
qed

lemma wf_replacement: "wf_char [0xEF, 0xBF, 0xBD]" "wf_char [63]"
  by (simp_all add: wf_char_def char_bytes_def byte_constants lead2_def lead3_def continues_def)

lemma wf_printable: "32 \<le> c \<Longrightarrow> c \<le> 126 \<Longrightarrow> wf_char [c]"
  by (simp add: wf_char_def char_bytes_def byte_constants not_less)

lemma wf_encoded: "wf_char (encoded c)"
  unfolding encoded_def
  by (simp only: wf_two_bytes wf_replacement not_less simp_thms split: if_split)
    (blast intro: wf_printable)

lemma utf8_loop_replaced:
  "utf8_loop pending result (63 # s) = utf8_loop (pending @ [QUESTION_MARK]) result s"
  "utf8_loop pending result (0xEF # 0xBF # 0xBD # s) = utf8_loop [] (result @ pending @ [QUESTION_MARK]) s"
proof -
  have "skip_continuing 2 (0xBF # 0xBD # s) = s"
    unfolding numeral_2_eq_2 by (simp add: continues_def)
  then show "utf8_loop pending result (0xEF # 0xBF # 0xBD # s)
      = utf8_loop [] (result @ pending @ [QUESTION_MARK]) s"
    by (simp add: PRINTABLE_ASCII_END_def lead2_def lead3_def)
qed (simp add: PRINTABLE_ASCII_END_def QUESTION_MARK_def)

lemma utf8_loop_encoded:
  "utf8_loop pending result (concat (map encoded s))
    = result @ pending @ map (\<lambda>c. if kept c then c else QUESTION_MARK) s"
proof (induction s arbitrary: pending result)
  case (Cons c s)
  consider "0xA0 \<le> c \<and> c \<le> 0xFE" | "32 \<le> c \<and> c \<le> 126" | "\<not> kept c" by (auto simp: kept_def)
  then show ?case
  proof cases
    case 1
    have "convert_bits_to_extended (0xC0 OR drop_bit 6 c) (0x80 OR (c AND 0x3F)) = c"
      unfolding convert_bits_to_extended_def Let_def two_bytes_data using 1
      by (auto simp: two_bytes_classes u8_in_u32 word_le_nat_alt)
    then show ?thesis using 1 Cons.IH two_bytes_classes lead2_big [OF two_bytes_classes(1), of c]
      by (simp add: encoded_def kept_def Let_def word_le_nat_alt word_less_nat_alt)
  next
    case 2
    then show ?thesis using Cons.IH
      by (simp add: encoded_def kept_def byte_constants word_le_nat_alt word_less_nat_alt)
  next
    case 3
    then have "encoded c = [63] \<or> encoded c = [0xEF, 0xBF, 0xBD]"
      unfolding encoded_def kept_def by (simp add: not_less) blast
    then show ?thesis using Cons.IH 3 by (elim disjE) (simp_all add: utf8_loop_replaced del: utf8_loop.simps)
  qed
qed simp

text \<open>
  Extended ASCII converted to UTF-8 is valid text with as many characters as there were
  bytes, and converted back it is the same, with every byte that is neither printable ASCII
  nor in the range from 0xA0 to 0xFE replaced by a question mark; the last byte of extended
  ASCII, 0xFF, is among those lost.
\<close>

theorem extended_roundtrip:
  "utf8_valid (convert_extended_to_utf8 s) \<and> utf8_size (convert_extended_to_utf8 s) = length s
    \<and> convert_utf8_to_extended (convert_extended_to_utf8 s)
      = map (\<lambda>c. if 32 \<le> c \<and> c \<le> 126 \<or> 0xA0 \<le> c \<and> c \<le> 0xFE then c else QUESTION_MARK) s"
proof -
  have conv: "convert_extended_to_utf8 s = concat (map encoded s)"
    by (simp add: convert_extended_to_utf8_def extended_loop_encoded)
  have wf: "wf_text (map encoded s)" by (simp add: wf_text_def wf_encoded)
  have decoded: "convert_utf8_to_extended (concat (map encoded s))
      = map (\<lambda>c. if kept c then c else QUESTION_MARK) s"
    using utf8_loop_encoded [of "[]" "[]" s] wf_char_nonempty [OF wf_encoded]
    by (cases s) (simp_all add: convert_utf8_to_extended_def)
  have "utf8_size (concat (map encoded s)) = length s"
    using valid_text(2) [OF wf, of 0] by (cases s) (simp_all add: utf8_size_def wf_char_nonempty [OF wf_encoded])
  moreover have "utf8_valid (concat (map encoded s))" using wf utf8_valid_iff by blast
  ultimately show ?thesis using decoded by (simp add: conv kept_def)
qed

end
