(* ===== verification/EntityProps.thy ===== *)
theory EntityProps
  imports EntityCore Utf8Props
begin

text \<open>
  What \<open>Entity\<close> promises: its two indexes of references are one relation, its journals give
  the net change of a field, its listeners hear every change once; and where it does not keep
  what its comments say (flags, notes, copies, the timestamp of the last update).
\<close>

subsection \<open>What marking a field leaves alone\<close>

lemma notify_field_simps [state_simps]:
  "entity_references (notify_field_changed env f s) = entity_references s"
  "entity_references_field (notify_field_changed env f s) = entity_references_field s"
  "entity_flags (notify_field_changed env f s) = entity_flags s"
  "entity_name (notify_field_changed env f s) = entity_name s"
  "entity_note (notify_field_changed env f s) = entity_note s"
  "entity_owner (notify_field_changed env f s) = entity_owner s"
  "entity_security (notify_field_changed env f s) = entity_security s"
  "entity_id (notify_field_changed env f s) = entity_id s"
  "entity_access_count (notify_field_changed env f s) = entity_access_count s"
  "entity_updated_timestamp (notify_field_changed env f s) = entity_updated_timestamp s"
  "entity_created_timestamp (notify_field_changed env f s) = entity_created_timestamp s"
  "entity_deleted_flag (notify_field_changed env f s) = entity_deleted_flag s"
  "entity_delete_batch_id (notify_field_changed env f s) = entity_delete_batch_id s"
  "diff_ids_changed (notify_field_changed env f s) = diff_ids_changed s"
  "diff_flags_changed (notify_field_changed env f s) = diff_flags_changed s"
  "listener_calls (notify_field_changed env f s) = listener_calls s"
  "ignore_changes (notify_field_changed env f s) = ignore_changes s"
  by (simp_all add: notify_field_changed_def)

subsection \<open>References\<close>

text \<open>The relation both indexes stand for, and the second index it determines.\<close>

definition refs_rel :: "'a entity_core_scheme \<Rightarrow> (db_id \<times> entity_field) set" where
  "refs_rel s = {(i, f). \<exists>fs. map_of (entity_references s) i = Some fs \<and> f \<in> fs}"

definition rel_index :: "(db_id \<times> entity_field) set \<Rightarrow> entity_field \<Rightarrow> db_id set option" where
  "rel_index R f = (if {i. (i, f) \<in> R} = {} then None else Some {i. (i, f) \<in> R})"

definition refs_ok :: "'a entity_core_scheme \<Rightarrow> bool" where
  "refs_ok s \<longleftrightarrow> map_sorted (entity_references s)
     \<and> (\<forall>i fs. map_of (entity_references s) i = Some fs \<longrightarrow> fs \<noteq> {})
     \<and> entity_references_field s = rel_index (refs_rel s)"

lemma index_insert_rel: "index_insert f i (rel_index R) = rel_index (insert (i, f) R)"
  by (rule ext) (auto simp: index_insert_def rel_index_def)

lemma index_erase_rel: "index_erase f i (rel_index R) = rel_index (R - {(i, f)})"
  by (rule ext) (auto simp: index_erase_def rel_index_def)

lemma rel_index_cases: "rel_index R f = None \<longleftrightarrow> (\<forall>i. (i, f) \<notin> R)"
  by (auto simp: rel_index_def)

lemma refs_rel_simps [state_simps]:
  "refs_rel (notify_field_changed env f s) = refs_rel s"
  "refs_ok (notify_field_changed env f s) = refs_ok s"
  by (simp_all add: refs_rel_def refs_ok_def state_simps)

lemma refs_okI:
  assumes "map_sorted (entity_references s)"
    and "\<And>i fs. map_of (entity_references s) i = Some fs \<Longrightarrow> fs \<noteq> {}"
    and "refs_rel s = R" and "entity_references_field s = rel_index R"
  shows "refs_ok s \<and> refs_rel s = R"
  using assms by (auto simp: refs_ok_def)

lemma refs_okD:
  assumes "refs_ok s"
  shows "map_sorted (entity_references s)" and "entity_references_field s = rel_index (refs_rel s)"
    and "map_of (entity_references s) i = Some fs \<Longrightarrow> fs \<noteq> {}"
  using assms by (auto simp: refs_ok_def)

lemma add_reference:
  assumes "refs_ok s" and "field_in_range f"
  shows "refs_ok (snd (add_entity_reference env i f True s))
    \<and> refs_rel (snd (add_entity_reference env i f True s)) = insert (i, f) (refs_rel s)"
proof -
  let ?fields = "case map_of (entity_references s) i of None \<Rightarrow> {} | Some fs \<Rightarrow> fs"
  let ?s = "s\<lparr>entity_references := map_put i (insert f ?fields) (entity_references s),
      entity_references_field := index_insert f i (entity_references_field s)\<rparr>"
  note sorted = refs_okD(1) [OF assms(1)]
  have "refs_rel ?s = insert (i, f) (refs_rel s)"
    using sorted by (auto simp: refs_rel_def map_of_put split: if_splits option.splits)
  then have "refs_ok ?s \<and> refs_rel ?s = insert (i, f) (refs_rel s)"
    using sorted refs_okD(3) [OF assms(1)] refs_okD(2) [OF assms(1)]
    by (intro refs_okI) (auto simp: map_of_put map_sorted_put index_insert_rel split: if_splits)
  then show ?thesis using assms(2) by (simp add: add_entity_reference_def Let_def state_simps)
qed

lemma remove_reference:
  assumes "refs_ok s" and "field_in_range f"
  shows "refs_ok (snd (remove_entity_reference env i f True s))
    \<and> refs_rel (snd (remove_entity_reference env i f True s)) = refs_rel s - {(i, f)}"
proof -
  let ?t = "case map_of (entity_references s) i of None \<Rightarrow> s
      | Some fs \<Rightarrow> if fs - {f} = {} then s\<lparr>entity_references := map_erase i (entity_references s)\<rparr>
          else s\<lparr>entity_references := map_put i (fs - {f}) (entity_references s)\<rparr>"
  let ?s = "?t\<lparr>entity_references_field := index_erase f i (entity_references_field ?t)\<rparr>"
  note sorted = refs_okD(1) [OF assms(1)]
  have field: "entity_references_field ?t = rel_index (refs_rel s)"
    using refs_okD(2) [OF assms(1)] by (simp split: option.splits)
  have "refs_rel ?s = refs_rel s - {(i, f)}"
    using sorted by (auto simp: refs_rel_def map_of_put map_of_erase split: if_splits option.splits)
  moreover have "map_sorted (entity_references ?s)"
    using sorted by (simp add: map_sorted_put map_sorted_erase split: option.splits)
  moreover have "fs \<noteq> {}" if "map_of (entity_references ?s) j = Some fs" for j fs
    using that sorted refs_okD(3) [OF assms(1), of j fs]
    by (auto simp: map_of_put map_of_erase split: if_splits option.splits)
  ultimately have "refs_ok ?s \<and> refs_rel ?s = refs_rel s - {(i, f)}"
    by (intro refs_okI) (simp_all add: field index_erase_rel)
  then show ?thesis using assms(2) by (simp add: remove_entity_reference_def Let_def state_simps)
qed

lemma remove_references_of:
  assumes "refs_ok s"
  shows "refs_ok (snd (remove_entity_references_of env i True s))
    \<and> refs_rel (snd (remove_entity_references_of env i True s)) = refs_rel s - {i} \<times> UNIV"
proof (cases "map_of (entity_references s) i")
  case None
  then show ?thesis using assms by (auto simp: remove_entity_references_of_def refs_rel_def)
next
  case (Some fs)
  let ?s = "s\<lparr>entity_references_field := (\<lambda>f. if f \<in> fs then index_erase f i (entity_references_field s) f
        else entity_references_field s f), entity_references := map_erase i (entity_references s)\<rparr>"
  note sorted = refs_okD(1) [OF assms]
  have "entity_references_field ?s f = rel_index (refs_rel s - {i} \<times> UNIV) f" for f
  proof (cases "f \<in> fs")
    case True
    then have "entity_references_field ?s f = rel_index (refs_rel s - {(i, f)}) f"
      using refs_okD(2) [OF assms] by (simp add: index_erase_rel)
    also have "\<dots> = rel_index (refs_rel s - {i} \<times> UNIV) f"
      by (auto simp: rel_index_def)
    finally show ?thesis .
  next
    case False
    then have "(i, f) \<notin> refs_rel s" using Some by (auto simp: refs_rel_def)
    then have "{j. (j, f) \<in> refs_rel s - {i} \<times> UNIV} = {j. (j, f) \<in> refs_rel s}" by auto
    then show ?thesis using refs_okD(2) [OF assms] False by (simp add: rel_index_def)
  qed
  then have "refs_ok ?s \<and> refs_rel ?s = refs_rel s - {i} \<times> UNIV"
    using sorted refs_okD(3) [OF assms]
    by (intro refs_okI) (auto simp: refs_rel_def map_of_erase map_sorted_erase fun_eq_iff split: if_splits)
  then show ?thesis using Some by (simp add: remove_entity_references_of_def state_simps)
qed

lemma clear_references: "refs_ok (snd (clear_all_references env True s))
    \<and> refs_rel (snd (clear_all_references env True s)) = {}"
  by (auto simp: clear_all_references_def clear_entity_references_field_def state_simps refs_ok_def
      refs_rel_def rel_index_def)

lemma populate_references:
  assumes "map_sorted (entity_references s)"
    and "\<forall>i fs. map_of (entity_references s) i = Some fs \<longrightarrow> fs \<noteq> {}"
  shows "refs_ok (populate_entity_references_field s)
    \<and> refs_rel (populate_entity_references_field s) = refs_rel s"
proof -
  have fold: "fold (\<lambda>(i, fs) ix f. if f \<in> fs then index_insert f i ix f else ix f) m (rel_index R)
      = rel_index (R \<union> {(i, f). \<exists>fs. (i, fs) \<in> set m \<and> f \<in> fs})" for m R
  proof (induction m arbitrary: R)
    case (Cons e m)
    obtain i fs where e: "e = (i, fs)" by force
    have step: "(\<lambda>f. if f \<in> fs then index_insert f i (rel_index R) f else rel_index R f)
        = rel_index (R \<union> {i} \<times> fs)"
      by (rule ext) (auto simp: index_insert_rel rel_index_def)
    have "R \<union> {i} \<times> fs \<union> {(i, f). \<exists>fs. (i, fs) \<in> set m \<and> f \<in> fs}
        = R \<union> {(i, f). \<exists>fs. (i, fs) \<in> set (e # m) \<and> f \<in> fs}" by (auto simp: e)
    then show ?case using Cons.IH [of "R \<union> {i} \<times> fs"] by (simp add: e step)
  qed simp
  have none: "(\<lambda>f. None) = rel_index {}" by (rule ext) (simp add: rel_index_def)
  have "distinct (map fst (entity_references s))"
    using assms(1) by (simp add: map_sorted_def strict_sorted_iff)
  then have "{(i, f). \<exists>fs. (i, fs) \<in> set (entity_references s) \<and> f \<in> fs} = refs_rel s"
    by (auto simp: refs_rel_def)
  then have "populate_entity_references_field s
      = s\<lparr>entity_references_field := rel_index (refs_rel s)\<rparr>"
    using fold [of "entity_references s" "{}"]
    by (simp add: populate_entity_references_field_def clear_entity_references_field_def none)
  then show ?thesis using assms by (simp add: refs_ok_def refs_rel_def)
qed

subsection \<open>References as a relation\<close>

datatype ref_op =
    RefAdd db_id entity_field | RefRemove db_id entity_field | RefRemoveOf db_id | RefClear
  | RefFieldsOf db_id | RefIds | RefIdsOf entity_field | RefFirst | RefNext db_id | RefLast
  | RefFirstOf entity_field | RefNextOf entity_field db_id | RefLastOf entity_field

datatype ref_answer =
    RefBool bool | RefFieldSet "entity_field set" | RefIdSet "db_id set" | RefIdList "db_id list"
  | RefId db_id

fun ref_step :: "entity_env \<Rightarrow> ref_op \<Rightarrow> 'a entity_core_scheme \<Rightarrow> ref_answer \<times> 'a entity_core_scheme" where
  "ref_step env (RefAdd i f) s = map_prod RefBool id (add_entity_reference env i f True s)"
| "ref_step env (RefRemove i f) s = map_prod RefBool id (remove_entity_reference env i f True s)"
| "ref_step env (RefRemoveOf i) s = map_prod RefBool id (remove_entity_references_of env i True s)"
| "ref_step env RefClear s = map_prod RefBool id (clear_all_references env True s)"
| "ref_step env (RefFieldsOf i) s = (RefFieldSet (get_field_references i True s), s)"
| "ref_step env RefIds s = (RefIdSet (get_reference_ids True s), s)"
| "ref_step env (RefIdsOf f) s = (RefIdList (get_reference_ids_field f True s), s)"
| "ref_step env RefFirst s = (RefId (get_first_reference True s), s)"
| "ref_step env (RefNext i) s = (RefId (get_next_reference i True s), s)"
| "ref_step env RefLast s = (RefId (get_last_reference True s), s)"
| "ref_step env (RefFirstOf f) s = (RefId (get_first_reference_field f True s), s)"
| "ref_step env (RefNextOf f i) s = (RefId (get_next_reference_field f i True s), s)"
| "ref_step env (RefLastOf f) s = (RefId (get_last_reference_field f True s), s)"

text \<open>The specification: a relation between identifiers and fields, walked in order.\<close>

definition least_id :: "db_id set \<Rightarrow> db_id" where
  "least_id S = (if S = {} then default_id else Min S)"

definition greatest_id :: "db_id set \<Rightarrow> db_id" where
  "greatest_id S = (if S = {} then default_id else Max S)"

definition next_id :: "db_id set \<Rightarrow> db_id \<Rightarrow> db_id" where
  "next_id S i = (if i \<in> S then least_id {k \<in> S. i < k} else default_id)"

fun ref_spec :: "ref_op \<Rightarrow> (db_id \<times> entity_field) set \<Rightarrow> ref_answer \<times> (db_id \<times> entity_field) set" where
  "ref_spec (RefAdd i f) R = (if field_in_range f then (RefBool True, insert (i, f) R) else (RefBool False, R))"
| "ref_spec (RefRemove i f) R = (if field_in_range f then (RefBool True, R - {(i, f)}) else (RefBool False, R))"
| "ref_spec (RefRemoveOf i) R = (RefBool True, R - {i} \<times> UNIV)"
| "ref_spec RefClear R = (RefBool True, {})"
| "ref_spec (RefFieldsOf i) R = (RefFieldSet (R `` {i}), R)"
| "ref_spec RefIds R = (RefIdSet (Domain R), R)"
| "ref_spec (RefIdsOf f) R = (RefIdList (if field_in_range f then sorted_list_of_set {i. (i, f) \<in> R} else []), R)"
| "ref_spec RefFirst R = (RefId (least_id (Domain R)), R)"
| "ref_spec (RefNext i) R = (RefId (next_id (Domain R) i), R)"
| "ref_spec RefLast R = (RefId (greatest_id (Domain R)), R)"
| "ref_spec (RefFirstOf f) R = (RefId (if field_in_range f then least_id {i. (i, f) \<in> R} else default_id), R)"
| "ref_spec (RefNextOf f i) R = (RefId (if field_in_range f then next_id {i. (i, f) \<in> R} i else default_id), R)"
| "ref_spec (RefLastOf f) R = (RefId (if field_in_range f then greatest_id {i. (i, f) \<in> R} else default_id), R)"

lemma Domain_refs: "refs_ok s \<Longrightarrow> Domain (refs_rel s) = set (map_keys (entity_references s))"
proof -
  assume ok: "refs_ok s"
  have "i \<in> Domain (refs_rel s) \<longleftrightarrow> map_of (entity_references s) i \<noteq> None" for i
    using refs_okD(3) [OF ok, of i] by (auto simp: refs_rel_def Domain_iff)
  then show ?thesis by (auto simp: map_keys_def map_of_eq_None_iff)
qed

lemma index_ids_rel: "refs_ok s \<Longrightarrow> index_ids s f = {i. (i, f) \<in> refs_rel s}"
  using refs_okD(2) [of s] by (auto simp: index_ids_def rel_index_def split: if_splits option.splits)

lemma finite_index: "refs_ok s \<Longrightarrow> finite {i. (i, f) \<in> refs_rel s}"
proof -
  assume "refs_ok s"
  then have "finite (Domain (refs_rel s))" by (simp add: Domain_refs)
  then show ?thesis by (rule rev_finite_subset) auto
qed

lemma key_after_not_in: "k \<notin> set xs \<Longrightarrow> key_after k xs = None"
  by (induction xs) (auto simp: key_after_Cons)

lemma next_id_key_after:
  assumes "sorted_wrt (<) xs"
  shows "(case key_after i xs of None \<Rightarrow> default_id | Some k \<Rightarrow> k) = next_id (set xs) i"
proof (cases "i \<in> set xs")
  case True
  then show ?thesis using key_after_least [OF assms True]
    by (auto simp: next_id_def least_id_def Let_def)
qed (simp add: key_after_not_in next_id_def)

lemma ref_simulates:
  assumes "refs_ok s"
  shows "refs_ok (snd (ref_step env x s))
    \<and> ref_spec x (refs_rel s) = (fst (ref_step env x s), refs_rel (snd (ref_step env x s)))"
proof -
  have keys: "sorted_wrt (<) (map_keys (entity_references s))"
    using refs_okD(1) [OF assms] by (simp add: map_sorted_def map_keys_def)
  have ids: "sorted_wrt (<) (sorted_list_of_set {i. (i, f) \<in> refs_rel s})" for f
    by (rule strict_sorted_list_of_set)
  have setids: "set (sorted_list_of_set {i. (i, f) \<in> refs_rel s}) = {i. (i, f) \<in> refs_rel s}" for f
    using finite_index [OF assms] by simp
  have empty: "map_keys (entity_references s) = [] \<longleftrightarrow> entity_references s = []"
    by (simp add: map_keys_def)
  show ?thesis
  proof (cases x)
    case (RefAdd i f)
    then show ?thesis using add_reference [OF assms, of f env i] assms
      by (cases "field_in_range f") (simp_all add: add_entity_reference_def Let_def)
  next
    case (RefRemove i f)
    then show ?thesis using remove_reference [OF assms, of f env i] assms
      by (cases "field_in_range f") (simp_all add: remove_entity_reference_def Let_def)
  next
    case (RefRemoveOf i)
    then show ?thesis using remove_references_of [OF assms, of env i]
      by (simp add: remove_entity_references_of_def)
  next
    case RefClear
    then show ?thesis using clear_references [of env s] by (simp add: clear_all_references_def)
  next
    case (RefFieldsOf i)
    then show ?thesis using assms
      by (auto simp: get_field_references_def refs_rel_def Image_def split: option.splits)
  next
    case RefFirst
    then show ?thesis using assms keys Min_sorted [OF keys] empty
      by (auto simp: get_first_reference_def least_id_def Domain_refs map_keys_def hd_map)
  next
    case RefLast
    then show ?thesis using assms keys Max_sorted [OF keys] empty
      by (auto simp: get_last_reference_def greatest_id_def Domain_refs map_keys_def last_map)
  next
    case (RefNext i)
    then show ?thesis using assms next_id_key_after [OF keys, of i]
      by (simp add: get_next_reference_def Domain_refs)
  next
    case (RefNextOf f i)
    then show ?thesis using assms next_id_key_after [OF ids, of i f] setids
      by (simp add: get_next_reference_field_def index_ids_rel)
  qed (use assms in \<open>auto simp: get_reference_ids_def get_reference_ids_field_def Domain_refs index_ids_rel
      get_first_reference_field_def get_last_reference_field_def least_id_def greatest_id_def\<close>)
qed

interpretation refs: simulation "ref_step env" ref_spec refs_rel refs_ok for env
proof
  fix s :: "'a entity_core_scheme" and x
  assume "refs_ok s"
  from ref_simulates [OF this, of env x] show "refs_ok (snd (ref_step env x s))"
    "ref_spec x (refs_rel s) = (fst (ref_step env x s), refs_rel (snd (ref_step env x s)))" by simp_all
qed

lemma blank_refs: "refs_ok (blank_core\<lparr>entity_references := []\<rparr>)"
  by (auto simp: blank_core_def refs_ok_def refs_rel_def rel_index_def)

text \<open>
  C23. The references to an entity refine a relation between the entities and the fields that
  refer to it: from an entity without references, or one whose second index was just rebuilt from
  its first, every sequence of additions, removals and queries answers as the relation does, in
  either index, and walking visits identifiers in their order.
\<close>

theorem references_refine:
  assumes "entity_references s = [] \<and> entity_references_field s = (\<lambda>f. None)
      \<or> (\<exists>t. s = populate_entity_references_field t \<and> map_sorted (entity_references t)
            \<and> (\<forall>i fs. map_of (entity_references t) i = Some fs \<longrightarrow> fs \<noteq> {}))"
  shows "run_ops ref_spec xs (refs_rel s)
    = (fst (run_ops (ref_step env) xs s), refs_rel (snd (run_ops (ref_step env) xs s)))"
proof -
  have "refs_ok s"
    using assms
  proof (elim disjE exE conjE)
    assume "entity_references s = []" "entity_references_field s = (\<lambda>f. None)"
    then show ?thesis by (auto simp: refs_ok_def refs_rel_def rel_index_def)
  next
    fix t assume "s = populate_entity_references_field t" "map_sorted (entity_references t)"
      "\<forall>i fs. map_of (entity_references t) i = Some fs \<longrightarrow> fs \<noteq> {}"
    then show ?thesis using populate_references [of t] by blast
  qed
  then show ?thesis using refs.run_simulates [of s env xs] by blast
qed

text \<open>An environment with one listener.\<close>

definition one_listener :: entity_env where
  "one_listener = \<lparr>db_listeners = [4], current_time = 50, limits_entity_name = 128, limits_string_size = 4096\<rparr>"

theorem references_refine_witness:
  "fst (run_ops (ref_step one_listener) [RefAdd (DbId 1 5) ENTITYFIELD_owner, RefAdd (DbId 1 2) ENTITYFIELD_owner,
      RefRemove (DbId 1 5) ENTITYFIELD_owner, RefIds] blank_core)
    = [RefBool True, RefBool True, RefBool True, RefIdSet {DbId 1 2}]"
proof -
  have start: "entity_references blank_core = [] \<and> entity_references_field blank_core = (\<lambda>f. None)"
    by (simp add: blank_core_def)
  have blank: "refs_rel blank_core = {}" by (simp add: refs_rel_def blank_core_def)
  have Dom: "Domain (insert (DbId 1 2, ENTITYFIELD_owner) (insert (DbId 1 5, ENTITYFIELD_owner) {})
      - {(DbId 1 5, ENTITYFIELD_owner)}) = {DbId 1 2}"
    by (simp add: Diff_insert_absorb insert_Diff_if)
  have range: "field_in_range ENTITYFIELD_owner" by (simp add: field_in_range_def)
  have "run_ops ref_spec [RefAdd (DbId 1 5) ENTITYFIELD_owner, RefAdd (DbId 1 2) ENTITYFIELD_owner,
      RefRemove (DbId 1 5) ENTITYFIELD_owner, RefIds] {}
    = ([RefBool True, RefBool True, RefBool True, RefIdSet {DbId 1 2}],
       insert (DbId 1 2, ENTITYFIELD_owner) (insert (DbId 1 5, ENTITYFIELD_owner) {})
         - {(DbId 1 5, ENTITYFIELD_owner)})"
    by (simp only: run_ops.simps ref_spec.simps range if_True split_conv map_prod_simp id_apply Dom)
  with references_refine [OF disjI1 [OF start], unfolded blank, of "[RefAdd (DbId 1 5) ENTITYFIELD_owner,
        RefAdd (DbId 1 2) ENTITYFIELD_owner, RefRemove (DbId 1 5) ENTITYFIELD_owner, RefIds]" one_listener]
  show ?thesis by (metis fst_conv)
qed

subsection \<open>Journals\<close>

text \<open>
  A field that holds a set of identifiers, changed one identifier at a time, with the journal
  written as the setters of \<open>Group\<close> do: only when the set changes. Copying and the setting of
  security and of action targets journal more than that, and are not meant.
\<close>

datatype id_change = IdAdded db_id | IdRemoved db_id

fun apply_change :: "entity_field \<Rightarrow> id_change \<Rightarrow> db_id set \<times> 'a entity_core_scheme
    \<Rightarrow> db_id set \<times> 'a entity_core_scheme" where
  "apply_change f (IdAdded i) (A, s) = (if i \<in> A then (A, s) else (insert i A, added_id f i s))"
| "apply_change f (IdRemoved i) (A, s) = (if i \<in> A then (A - {i}, removed_id f i s) else (A, s))"

lemma journal_step:
  assumes "apply_change f x (A, s) = (A', s')"
    and "case diff_ids_changed s f of None \<Rightarrow> A = A0 | Some (r, a) \<Rightarrow> r = A0 - A \<and> a = A - A0"
  shows "case diff_ids_changed s' f of None \<Rightarrow> A' = A0 | Some (r, a) \<Rightarrow> r = A0 - A' \<and> a = A' - A0"
    and "g \<noteq> f \<Longrightarrow> diff_ids_changed s' g = diff_ids_changed s g"
  using assms
  by (cases x; auto simp: added_id_def removed_id_def Let_def split: option.splits if_splits prod.splits)+

text \<open>
  C39. Whatever identifiers a field gains and loses, in whatever order and however often, each
  real change being journalled once, its journal is the net change: the identifiers that were there at the start and are gone, and
  those that are there and were not; the journals of other fields are untouched.
\<close>

theorem journal_is_net_change:
  assumes "diff_ids_changed s f = None" and "fold (apply_change f) xs (A0, s) = (A, t)"
  shows "(case diff_ids_changed t f of None \<Rightarrow> A = A0
      | Some (removed, added) \<Rightarrow> removed = A0 - A \<and> added = A - A0)
    \<and> (\<forall>g. g \<noteq> f \<longrightarrow> diff_ids_changed t g = diff_ids_changed s g)"
proof -
  have "(case diff_ids_changed t f of None \<Rightarrow> A = A0 | Some (r, a) \<Rightarrow> r = A0 - A \<and> a = A - A0)
      \<and> (\<forall>g. g \<noteq> f \<longrightarrow> diff_ids_changed t g = diff_ids_changed u g)"
    if "case diff_ids_changed u f of None \<Rightarrow> B = A0 | Some (r, a) \<Rightarrow> r = A0 - B \<and> a = B - A0"
      and "fold (apply_change f) xs (B, u) = (A, t)" for B u
    using that
  proof (induction xs arbitrary: B u)
    case (Cons x xs)
    obtain B' u' where x: "apply_change f x (B, u) = (B', u')" by force
    note step = journal_step [OF x Cons.prems(1)]
    from Cons.IH [OF step(1)] Cons.prems(2) x step(2) show ?case by simp
  qed auto
  from this [of A0 s] assms show ?thesis by simp
qed

theorem journal_is_net_change_witness:
  "fst (fold (apply_change ENTITYFIELD_group_ids)
      [IdAdded (DbId 1 7), IdRemoved (DbId 1 7), IdRemoved (DbId 1 3)] ({DbId 1 3}, blank_core)) = {}
    \<and> (case diff_ids_changed (snd (fold (apply_change ENTITYFIELD_group_ids)
      [IdAdded (DbId 1 7), IdRemoved (DbId 1 7), IdRemoved (DbId 1 3)] ({DbId 1 3}, blank_core)))
        ENTITYFIELD_group_ids of None \<Rightarrow> False | Some (removed, added) \<Rightarrow> removed = {DbId 1 3} \<and> added = {})"
proof -
  define xs where "xs = [IdAdded (DbId 1 7), IdRemoved (DbId 1 7), IdRemoved (DbId 1 3)]"
  obtain A t where run: "fold (apply_change ENTITYFIELD_group_ids) xs ({DbId 1 3}, blank_core) = (A, t)"
    by force
  then have A: "A = {}" by (auto simp: xs_def)
  have "diff_ids_changed blank_core ENTITYFIELD_group_ids = None" by (simp add: blank_core_def)
  from journal_is_net_change [OF this run] show ?thesis
    using run A by (auto simp: xs_def split: option.splits)
qed

text \<open>
  However often the owner of an entity changes, its journal holds the owner at the start as
  removed and the last one as added.
\<close>

theorem owner_journal:
  assumes "diff_ids_changed s ENTITYFIELD_owner = None" and "owner \<noteq> entity_owner s"
  shows "diff_ids_changed (fold (\<lambda>i s. snd (set_entity_owner env i True s)) (owner # owners) s) ENTITYFIELD_owner
    = Some ({entity_owner s}, {last (owner # owners)})
    \<and> entity_owner (fold (\<lambda>i s. snd (set_entity_owner env i True s)) (owner # owners) s)
      = last (owner # owners)"
proof -
  have step: "diff_ids_changed (fold (\<lambda>i s. snd (set_entity_owner env i True s)) os t) ENTITYFIELD_owner
      = Some (R, {last (entity_owner t # os)})
    \<and> entity_owner (fold (\<lambda>i s. snd (set_entity_owner env i True s)) os t) = last (entity_owner t # os)"
    if "diff_ids_changed t ENTITYFIELD_owner = Some (R, {entity_owner t})" for os R and t :: "'a entity_core_scheme"
    using that
  proof (induction os arbitrary: t)
    case (Cons i os)
    have "diff_ids_changed (snd (set_entity_owner env i True t)) ENTITYFIELD_owner = Some (R, {i})
        \<and> entity_owner (snd (set_entity_owner env i True t)) = i"
      using Cons.prems by (auto simp: set_entity_owner_def set_single_id_field_def Let_def state_simps)
    then show ?case using Cons.IH [of "snd (set_entity_owner env i True t)"] by simp
  qed simp
  have "diff_ids_changed (snd (set_entity_owner env owner True s)) ENTITYFIELD_owner
      = Some ({entity_owner s}, {owner}) \<and> entity_owner (snd (set_entity_owner env owner True s)) = owner"
    using assms by (auto simp: set_entity_owner_def set_single_id_field_def Let_def state_simps)
  then show ?thesis using step [of "snd (set_entity_owner env owner True s)" "{entity_owner s}" owners] by simp
qed

theorem owner_journal_witness:
  "diff_ids_changed (fold (\<lambda>i s. snd (set_entity_owner one_listener i True s)) [DbId 1 2, DbId 1 3] blank_core)
     ENTITYFIELD_owner = Some ({DbId 0 0}, {DbId 1 3})"
  using owner_journal [of blank_core "DbId 1 2" one_listener "[DbId 1 3]"]
  by (simp add: blank_core_def default_id_def)

subsection \<open>Flags\<close>

text \<open>
  A flag can never be added to an entity: \<open>add_entity_flag\<close> leaves the flags as they were
  and yet answers that it succeeded. Asking for a flag takes it away and answers that it is not
  set, whether it was or not.
\<close>

theorem flags_never_added:
  "fst (add_entity_flag env g True s) = FLAGRC_success
    \<and> entity_flags (snd (add_entity_flag env g has_lock s)) = entity_flags s
    \<and> fst (check_entity_flag env g True s) = FLAGRC_not_set
    \<and> entity_flags (snd (check_entity_flag env g True s)) = entity_flags s - {g}"
  by (auto simp: add_entity_flag_def check_entity_flag_def added_flag_def removed_flag_def
      Let_def state_simps)

subsection \<open>Names and notes\<close>

lemma text_size_invalid: "\<not> utf8_valid (map of_char n) \<Longrightarrow> text_size n = 0"
  by (simp add: text_size_def utf8_size_def utf8_valid_def size_invalid split: if_splits)

text \<open>
  A name is taken exactly when it is not empty, its size is within the limit and the entity
  is locked; the size of an invalid text is 0, so a name that is not valid UTF-8 is taken
  whatever its length.
\<close>

theorem set_name_exact:
  "(fst (set_entity_name env n has_lock s)
      \<longleftrightarrow> n \<noteq> [] \<and> text_size n \<le> limits_entity_name env \<and> has_lock)
    \<and> entity_name (snd (set_entity_name env n has_lock s))
      = (if fst (set_entity_name env n has_lock s) then n else entity_name s)
    \<and> (\<not> utf8_valid (map of_char n) \<longrightarrow> n \<noteq> [] \<longrightarrow> fst (set_entity_name env n True s))"
  using text_size_invalid [of n] by (auto simp: set_entity_name_def state_simps)

text \<open>A note of one plain character and n characters of two bytes.\<close>

definition accented :: "nat \<Rightarrow> string" where
  "accented n = CHR ''a'' # concat (replicate n [CHR 0xC3, CHR 0xA9])"

lemma wf_accent: "wf_char [0xC3, 0xA9]" "wf_char [97]"
  by (simp_all add: wf_char_def char_bytes_def lead2_def continues_def byte_constants)

lemma accented_bytes: "map of_char (accented n) = concat ([97] # replicate n [0xC3, 0xA9 :: u8])"
  by (induction n) (simp_all add: accented_def)

lemma accented_valid: "utf8_valid (map of_char (accented n)) \<and> text_size (accented n) = n + 1"
proof -
  have wf: "wf_text ([97] # replicate n [0xC3, 0xA9 :: u8])"
    using wf_accent by (simp add: wf_text_def)
  have "utf8_size_loop 0 0 (concat ([97] # replicate n [0xC3, 0xA9 :: u8])) = n + 1"
    using valid_text(2) [OF wf, of 0] by (simp only: length_Cons length_replicate)
  then have "utf8_size (concat ([97] # replicate n [0xC3, 0xA9 :: u8])) = n + 1"
    by (simp add: utf8_size_def del: utf8_size_loop.simps)
  moreover have "utf8_valid (concat ([97] # replicate n [0xC3, 0xA9 :: u8]))"
    using wf utf8_valid_iff by blast
  ultimately show ?thesis unfolding text_size_def accented_bytes by blast
qed

lemma accented_cut: "take (2 * k) (accented n) = (if k = 0 then [] else if k \<le> n
   then accented (k - 1) @ [CHR 0xC3] else accented n)"
proof (cases "k = 0")
  case False
  have "take (2 * j + 1) (concat (replicate n [CHR 0xC3, CHR 0xA9]))
      = (if j < n then concat (replicate j [CHR 0xC3, CHR 0xA9]) @ [CHR 0xC3]
         else concat (replicate n [CHR 0xC3, CHR 0xA9]))" for j
  proof (induction j arbitrary: n)
    case 0
    then show ?case by (cases n) auto
  next
    case (Suc j)
    show ?case
    proof (cases n)
      case (Suc m)
      then show ?thesis using Suc.IH [of m] by simp
    qed simp
  qed
  from this [of "k - 1"] False show ?thesis by (cases k) (auto simp: accented_def)
qed simp

text \<open>
  A valid note within the limit on characters is cut at 512 bytes, in the middle of a
  character if one is there: the stored note is then not valid UTF-8.
\<close>

theorem note_may_be_cut_invalid:
  assumes "limits_string_size env \<ge> 257"
  shows "\<exists>n. utf8_valid (map of_char n) \<and> text_size n \<le> limits_string_size env
    \<and> fst (set_entity_note env n True s)
    \<and> \<not> utf8_valid (map of_char (entity_note (snd (set_entity_note env n True s))))"
proof (intro exI [of _ "accented 256"] conjI)
  have size: "text_size (accented 256) = 257" using accented_valid [of 256] by simp
  show "utf8_valid (map of_char (accented 256))" using accented_valid by blast
  show "text_size (accented 256) \<le> limits_string_size env" using assms size by simp
  show "fst (set_entity_note env (accented 256) True s)" using assms size by (simp add: set_entity_note_def)
  have cut: "entity_note (snd (set_entity_note env (accented 256) True s)) = accented 255 @ [CHR 0xC3]"
    using assms size accented_cut [of 256 256]
    by (simp add: set_entity_note_def MAX_STRING_LENGTH_def state_simps)
  have "\<not> utf8_valid_loop 0 (concat cs @ [0xC3])" if "wf_text cs" for cs
    using that by (induction cs)
      (simp_all add: valid_char lead2_def byte_constants)
  moreover have "wf_text ([97] # replicate 255 [0xC3, 0xA9 :: u8])"
    using wf_accent by (simp add: wf_text_def)
  ultimately have "\<not> utf8_valid (map of_char (accented 255) @ [0xC3])"
    unfolding utf8_valid_loop_iff accented_bytes by blast
  with cut show "\<not> utf8_valid (map of_char (entity_note (snd (set_entity_note env (accented 256) True s))))"
    by simp
qed

theorem note_may_be_cut_invalid_witness:
  "\<exists>n. utf8_valid (map of_char n) \<and> text_size n \<le> 4096
    \<and> \<not> utf8_valid (map of_char (entity_note (snd (set_entity_note
        \<lparr>db_listeners = [], current_time = 0, limits_entity_name = 80, limits_string_size = 4096\<rparr>
        n True blank_core))))"
  using note_may_be_cut_invalid [of "\<lparr>db_listeners = [], current_time = 0, limits_entity_name = 80,
      limits_string_size = 4096\<rparr>" blank_core] by auto

subsection \<open>Listeners\<close>

text \<open>Access alone, of all that was not saved yet, is no update.\<close>

definition only_accessed :: "'a entity_core_scheme \<Rightarrow> bool" where
  "only_accessed s \<longleftrightarrow> card (dirty_fields s) \<le> 2 \<and> ENTITYFIELD_accessed_timestamp \<in> dirty_fields s"

definition told_fields :: "'a entity_core_scheme \<Rightarrow> entity_field set" where
  "told_fields s = (if only_accessed s then diff_callback_fields s
     else insert ENTITYFIELD_updated_timestamp (diff_callback_fields s))"

lemma notify_db_listener_fields:
  assumes "need_call_listener s" and "db_listeners env \<noteq> []"
  shows "entity_updated_timestamp (notify_db_listener env s)
      = (if only_accessed s then entity_updated_timestamp s else current_time env)"
    and "listener_calls (notify_db_listener env s) = listener_calls s
      @ map (\<lambda>l. (l, told_fields s, diff_flags_changed s, diff_ids_changed s)) (db_listeners env)"
    and "\<not> need_call_listener (notify_db_listener env s)"
    and "diff_callback_fields (notify_db_listener env s) = {}"
    and "diff_flags_changed (notify_db_listener env s) = ({}, {})"
    and "diff_ids_changed (notify_db_listener env s) = Map.empty"
  using assms by (simp_all add: notify_db_listener_def Let_def only_accessed_def told_fields_def)

text \<open>
  When an entity is unlocked, every listener is told once of the fields marked since the
  last time and of the journals, and the marks and journals are empty afterwards: unlocking
  again without a new mark tells nothing.
\<close>

theorem listeners_told_once:
  assumes "need_call_listener s" and "db_listeners env \<noteq> []"
  shows "listener_calls (notify_db_listener env s) = listener_calls s
      @ map (\<lambda>l. (l, told_fields s, diff_flags_changed s, diff_ids_changed s)) (db_listeners env)
    \<and> diff_callback_fields (notify_db_listener env s) = {}
    \<and> diff_ids_changed (notify_db_listener env s) = Map.empty
    \<and> diff_flags_changed (notify_db_listener env s) = ({}, {})
    \<and> notify_db_listener env (notify_db_listener env s) = notify_db_listener env s"
proof -
  have again: "\<not> need_call_listener t \<Longrightarrow> notify_db_listener env t = t" for t :: "'a entity_core_scheme"
    by (simp add: notify_db_listener_def)
  have "notify_db_listener env (notify_db_listener env s) = notify_db_listener env s"
    by (rule again) (simp add: notify_db_listener_fields [OF assms])
  then show ?thesis by (simp add: notify_db_listener_fields [OF assms])
qed

theorem listeners_told_once_witness:
  "listener_calls (notify_db_listener one_listener
      (notify_field_changed one_listener ENTITYFIELD_note (blank_core\<lparr>ignore_changes := False\<rparr>)))
    = [(4, {ENTITYFIELD_updated_timestamp, ENTITYFIELD_note}, ({}, {}), Map.empty)]"
proof -
  let ?s = "notify_field_changed one_listener ENTITYFIELD_note (blank_core\<lparr>ignore_changes := False\<rparr>)"
  have marked: "need_call_listener ?s" "db_listeners one_listener \<noteq> []"
    by (simp_all add: notify_field_changed_def one_listener_def blank_core_def)
  have "\<not> only_accessed ?s"
    by (simp add: notify_field_changed_def one_listener_def blank_core_def only_accessed_def)
  then show ?thesis using listeners_told_once [OF marked]
    by (simp add: told_fields_def notify_field_changed_def one_listener_def blank_core_def)
qed

text \<open>
  Accessing an entity sets the timestamp of its last update as well, although access is not
  an update, whenever a change made before is not saved yet: the test looks at all unsaved
  fields instead of those changed since the last notification.
\<close>

theorem access_counts_as_update:
  assumes "f \<in> dirty_fields s" and "finite (dirty_fields s)"
    and "f \<noteq> ENTITYFIELD_accessed_timestamp" and "f \<noteq> ENTITYFIELD_access_count"
    and "\<not> ignore_changes s" and "db_listeners env \<noteq> []"
  shows "entity_updated_timestamp (snd (auto_locked env (set_entity_accessed_timestamp env) s))
    = current_time env"
proof -
  let ?t = "snd (set_entity_accessed_timestamp env True s)"
  have dirty: "dirty_fields ?t
      = insert ENTITYFIELD_access_count (insert ENTITYFIELD_accessed_timestamp (dirty_fields s))"
    and need: "need_call_listener ?t"
    using assms(5,6) by (simp_all add: set_entity_accessed_timestamp_def Let_def notify_field_changed_def)
  have "card {f, ENTITYFIELD_access_count, ENTITYFIELD_accessed_timestamp} = 3"
    using assms(3,4) by simp
  moreover have "card {f, ENTITYFIELD_access_count, ENTITYFIELD_accessed_timestamp} \<le> card (dirty_fields ?t)"
    using assms(1,2) unfolding dirty by (intro card_mono) auto
  ultimately have "\<not> only_accessed ?t" by (simp add: only_accessed_def)
  then have "entity_updated_timestamp (notify_db_listener env ?t) = current_time env"
    using notify_db_listener_fields(1) [OF need assms(6)] by simp
  then show ?thesis by (simp add: auto_locked_def split_beta)
qed

theorem access_counts_as_update_witness:
  "entity_updated_timestamp (snd (auto_locked one_listener (set_entity_accessed_timestamp one_listener)
      (blank_core\<lparr>ignore_changes := False, dirty_fields := {ENTITYFIELD_note}\<rparr>))) = 50"
  using access_counts_as_update [of ENTITYFIELD_note
      "blank_core\<lparr>ignore_changes := False, dirty_fields := {ENTITYFIELD_note}\<rparr>" one_listener]
  by (simp add: blank_core_def one_listener_def)

subsection \<open>Copies\<close>

text \<open>The attributes a copy takes over, as one view of the state.\<close>

type_synonym core_view =
  "db_id \<times> string \<times> string \<times> security \<times> db_id \<times> string set \<times> u64 \<times> (db_id \<times> entity_field set) list
    \<times> (entity_field \<Rightarrow> db_id set option) \<times> u64 \<times> bool \<times> bool"

definition view :: "'a entity_core_scheme \<Rightarrow> core_view" where
  "view s = (entity_id s, entity_name s, entity_note s, entity_security s, entity_owner s,
     entity_flags s, entity_access_count s, entity_references s, entity_references_field s,
     entity_delete_batch_id s, entity_deleted_flag s, ignore_changes s)"

lemma view_notify [state_simps]: "view (notify_field_changed env f s) = view s"
  by (simp add: view_def notify_field_changed_def)

lemma view_added [state_simps]: "view (added_id f i s) = view s"
  by (simp add: view_def added_id_def Let_def split: option.splits prod.splits)

lemma view_fold_added [state_simps]: "view (fold (added_id f) is s) = view s"
  by (induction "is" arbitrary: s) (simp_all add: state_simps)

lemma view_fold_notify [state_simps]: "view (fold (notify_field_changed env) fs s) = view s"
  by (induction fs arbitrary: s) (simp_all add: state_simps)

lemma view_notify_db [state_simps]: "view (notify_db_listener env s) = view s"
  by (simp add: view_def notify_db_listener_def Let_def)

lemma view_updates [state_simps]:
  "view (s\<lparr>entity_name := n\<rparr>) = (case view s of (i, _, r) \<Rightarrow> (i, n, r))"
  "view (s\<lparr>entity_note := n\<rparr>) = (case view s of (i, a, _, r) \<Rightarrow> (i, a, n, r))"
  "view (s\<lparr>entity_security := sec\<rparr>) = (case view s of (i, a, b, _, r) \<Rightarrow> (i, a, b, sec, r))"
  "view (s\<lparr>entity_owner := own\<rparr>) = (case view s of (i, a, b, c, _, r) \<Rightarrow> (i, a, b, c, own, r))"
  "view (s\<lparr>entity_flags := fl\<rparr>) = (case view s of (i, a, b, c, d, _, r) \<Rightarrow> (i, a, b, c, d, fl, r))"
  "view (s\<lparr>entity_access_count := n\<^sub>1\<rparr>)
    = (case view s of (i, a, b, c, d, e, _, r) \<Rightarrow> (i, a, b, c, d, e, n\<^sub>1, r))"
  "view (s\<lparr>entity_references := m\<rparr>)
    = (case view s of (i, a, b, c, d, e, f, _, r) \<Rightarrow> (i, a, b, c, d, e, f, m, r))"
  "view (s\<lparr>entity_references_field := ix\<rparr>)
    = (case view s of (i, a, b, c, d, e, f, g, _, r) \<Rightarrow> (i, a, b, c, d, e, f, g, ix, r))"
  "view (s\<lparr>entity_delete_batch_id := n\<^sub>1\<rparr>)
    = (case view s of (i, a, b, c, d, e, f, g, h, _, r) \<Rightarrow> (i, a, b, c, d, e, f, g, h, n\<^sub>1, r))"
  "view (s\<lparr>entity_deleted_flag := t\<rparr>)
    = (case view s of (i, a, b, c, d, e, f, g, h, j, _, r) \<Rightarrow> (i, a, b, c, d, e, f, g, h, j, t, r))"
  "view (s\<lparr>entity_created_timestamp := now\<rparr>) = view s"
  "view (s\<lparr>entity_updated_timestamp := now\<rparr>) = view s"
  "view (s\<lparr>entity_accessed_timestamp := now\<rparr>) = view s"
  "view (s\<lparr>dirty_flag := t\<rparr>) = view s" "view (s\<lparr>diff_flags_changed := fj\<rparr>) = view s"
  by (simp_all add: view_def)

lemma view_copy_attributes: "view (copy_attributes env s c) = (case view c of (i, _, _, _, _, _, _, r) \<Rightarrow>
    (i, entity_name s, entity_note s, entity_security s, entity_owner s, entity_flags s, 0, r))"
  by (cases "view c") (simp add: copy_attributes_def Let_def state_simps split_beta)

lemma view_make: "view (entity_make env i ty v inst False) =
   (i, [], [], security_new EntitySecurity, default_id, {}, 1, [], \<lambda>f. None, 0, False, False)"
  by (simp add: entity_make_def Let_def state_simps) (simp add: view_def blank_core_def)

lemma view_populate:
  "view (populate_entity_references_field c) = (case view c of (i, a, b, c', d, e, f, g, h, r) \<Rightarrow>
     (i, a, b, c', d, e, f, g, entity_references_field (populate_entity_references_field c), r))"
  by (simp add: view_def populate_entity_references_field_def clear_entity_references_field_def)

text \<open>
  A clone has the name, note, security, owner and flags of its source, and has never been
  accessed. It takes over the references and the marks of deletion exactly when it is another
  version or instance of the same entity; its two indexes of references then agree. The source
  keeps all of these.
\<close>

theorem clone_takes_over:
  assumes "entity_clone env i v inst True s = (Some c, s')" and "refs_ok s"
  shows "entity_id c = i \<and> entity_name c = entity_name s \<and> entity_note c = entity_note s
    \<and> entity_security c = entity_security s \<and> entity_owner c = entity_owner s
    \<and> entity_flags c = entity_flags s \<and> entity_access_count c = 0
    \<and> refs_ok c \<and> refs_rel c = (if entity_id s = i then refs_rel s else {})
    \<and> entity_deleted_flag c = (entity_id s = i \<and> entity_deleted_flag s)
    \<and> entity_delete_batch_id c = (if entity_id s = i then entity_delete_batch_id s else 0)
    \<and> view s' = view s"
proof -
  let ?c = "copy_attributes env s (entity_make env i ENTITYTYPE_entity v inst False)"
  have vc: "view ?c = (i, entity_name s, entity_note s, entity_security s, entity_owner s,
      entity_flags s, 0, [], \<lambda>f. None, 0, False, False)"
    by (simp add: view_copy_attributes view_make)
  then have id: "entity_id ?c = i" by (simp add: view_def)
  have c: "copy_fields env s (entity_make env i ENTITYTYPE_entity v inst False) = (s', c)"
    using assms(1) by (simp add: entity_clone_def split: prod.splits)
  show ?thesis
  proof (cases "entity_id s = i")
    case False
    then have "view c = view ?c" "s' = s"
      using c id by (auto simp: copy_fields_def Let_def state_simps)
    then have "view c = (i, entity_name s, entity_note s, entity_security s, entity_owner s,
        entity_flags s, 0, [], \<lambda>f. None, 0, False, False)" using vc by simp
    then show ?thesis using False \<open>s' = s\<close>
      by (auto simp: view_def refs_ok_def refs_rel_def rel_index_def)
  next
    case True
    let ?p = "populate_entity_references_field (?c\<lparr>entity_references := entity_references s\<rparr>)"
    have sorted: "map_sorted (entity_references s)" "\<forall>i fs. map_of (entity_references s) i = Some fs \<longrightarrow> fs \<noteq> {}"
      using assms(2) by (auto simp: refs_ok_def)
    have p: "refs_ok ?p \<and> refs_rel ?p = refs_rel s"
      using populate_references [of "?c\<lparr>entity_references := entity_references s\<rparr>"] sorted
      by (simp add: refs_rel_def)
    have "view c = (i, entity_name s, entity_note s, entity_security s, entity_owner s,
        entity_flags s, 0, entity_references s, entity_references_field ?p,
        entity_delete_batch_id s, entity_deleted_flag s, False)" and s': "view s' = view s"
      using c True id vc view_populate [of "?c\<lparr>entity_references := entity_references s\<rparr>"]
      by (auto simp: copy_fields_def Let_def state_simps split_beta split: if_splits)
    moreover have "entity_references ?p = entity_references s"
      by (simp add: populate_entity_references_field_def clear_entity_references_field_def)
    ultimately show ?thesis using p True s' by (simp add: view_def refs_ok_def refs_rel_def)
  qed
qed

theorem clone_takes_over_witness:
  "\<exists>c. fst (entity_clone one_listener (DbId 1 9) 1 0 True (blank_core\<lparr>entity_owner := DbId 1 4\<rparr>)) = Some c
    \<and> entity_owner c = DbId 1 4 \<and> refs_rel c = {}"
proof -
  let ?s = "blank_core\<lparr>entity_owner := DbId 1 4\<rparr>"
  obtain c s' where c: "entity_clone one_listener (DbId 1 9) 1 0 True ?s = (Some c, s')"
    by (cases "copy_fields one_listener ?s (entity_make one_listener (DbId 1 9) ENTITYTYPE_entity 1 0 False)")
      (simp add: entity_clone_def)
  have "refs_ok ?s" by (auto simp: refs_ok_def blank_core_def refs_rel_def rel_index_def)
  from clone_takes_over [OF c this] have "entity_owner c = DbId 1 4" "refs_rel c = {}"
    by (simp_all add: blank_core_def default_id_def)
  with c show ?thesis by simp
qed

lemma added_id_other [simp]: "g \<noteq> f \<Longrightarrow> diff_ids_changed (added_id g i s) f = diff_ids_changed s f"
  by (simp add: added_id_def Let_def split: option.splits prod.splits)

lemma fold_added_other: "g \<noteq> f \<Longrightarrow> diff_ids_changed (fold (added_id g) is s) f = diff_ids_changed s f"
  by (induction "is" arbitrary: s) simp_all

lemma added_id_same: "diff_ids_changed (added_id f i s) f = (case diff_ids_changed s f of
    None \<Rightarrow> Some ({}, {i}) | Some (r, a) \<Rightarrow> if i \<in> r then Some (r - {i}, a) else Some (r, insert i a))"
  by (simp add: added_id_def Let_def split: option.splits prod.splits)

lemma added_id_fields [simp]:
  "entity_owner (added_id f i s) = entity_owner s" "ignore_changes (added_id f i s) = ignore_changes s"
  "need_call_listener (added_id f i s) = need_call_listener s"
  by (simp_all add: added_id_def Let_def split: option.splits prod.splits)

lemma fold_added_fields [simp]:
  "entity_owner (fold (added_id f) is s) = entity_owner s"
  "ignore_changes (fold (added_id f) is s) = ignore_changes s"
  "need_call_listener (fold (added_id f) is s) = need_call_listener s"
  by (induction "is" arbitrary: s) simp_all

lemma need_notify [simp]: "need_call_listener (notify_field_changed env f s)
    = (need_call_listener s \<or> \<not> ignore_changes s \<and> db_listeners env \<noteq> [])"
  by (simp add: notify_field_changed_def)

lemma copy_owner_journal:
  assumes "diff_ids_changed c ENTITYFIELD_owner = None"
  shows "diff_ids_changed (copy_attributes env s c) ENTITYFIELD_owner = Some ({}, {entity_owner s, entity_owner c})"
  using assms by (auto simp: copy_attributes_def Let_def state_simps added_id_same fold_added_other)

lemma copy_needs_listener:
  "db_listeners env \<noteq> [] \<Longrightarrow> \<not> ignore_changes c \<Longrightarrow> need_call_listener (copy_attributes env s c)"
  by (simp add: copy_attributes_def Let_def state_simps)

lemma make_no_journal: "db_listeners env \<noteq> [] \<Longrightarrow>
   diff_ids_changed (entity_make env i ty v inst False) = Map.empty"
  by (simp add: entity_make_def Let_def notify_db_listener_fields(6) initial_fields_def)

text \<open>
  The journal of the owner that listeners are told for a new clone lists two owners as
  added: the default identifier, which the clone had before it was copied to, and the owner it
  got; and none as removed.
\<close>

theorem clone_reports_default_owner:
  assumes "db_listeners env \<noteq> []" and "entity_clone env i v inst True s = (Some c, s')"
    and "entity_id s \<noteq> i"
  shows "\<exists>fields flags ids. last (listener_calls c) = (last (db_listeners env), fields, flags, ids)
    \<and> ids ENTITYFIELD_owner = Some ({}, {entity_owner s, default_id})"
proof -
  let ?m = "entity_make env i ENTITYTYPE_entity v inst False"
  let ?c = "copy_attributes env s ?m"
  have m: "entity_owner ?m = default_id" "\<not> ignore_changes ?m" "entity_id ?c = i"
    using view_make [of env i ENTITYTYPE_entity v inst] view_copy_attributes [of env s ?m]
    by (simp_all add: view_def)
  have c: "c = notify_db_listener env ?c"
    using assms(2,3) m(3) by (auto simp: entity_clone_def copy_fields_def Let_def split: prod.splits)
  have "diff_ids_changed ?c ENTITYFIELD_owner = Some ({}, {entity_owner s, default_id})"
    using copy_owner_journal [of ?m env s] make_no_journal [OF assms(1)] m(1) by simp
  moreover have "listener_calls c = listener_calls ?c
      @ map (\<lambda>l. (l, told_fields ?c, diff_flags_changed ?c, diff_ids_changed ?c)) (db_listeners env)"
    unfolding c by (rule notify_db_listener_fields(2) [OF copy_needs_listener [OF assms(1) m(2)] assms(1)])
  ultimately show ?thesis using assms(1) by (simp add: last_map)
qed

theorem clone_reports_default_owner_witness:
  "\<exists>c fields flags ids. fst (entity_clone one_listener (DbId 1 9) 1 0 True (blank_core\<lparr>entity_owner := DbId 1 4\<rparr>)) = Some c
    \<and> last (listener_calls c) = (4, fields, flags, ids)
    \<and> ids ENTITYFIELD_owner = Some ({}, {DbId 1 4, default_id})"
proof -
  let ?s = "blank_core\<lparr>entity_owner := DbId 1 4\<rparr>"
  obtain c s' where c: "entity_clone one_listener (DbId 1 9) 1 0 True ?s = (Some c, s')"
    by (cases "copy_fields one_listener ?s (entity_make one_listener (DbId 1 9) ENTITYTYPE_entity 1 0 False)")
      (simp add: entity_clone_def)
  from clone_reports_default_owner [OF _ c] obtain fields flags ids where
    "last (listener_calls c) = (4, fields, flags, ids)" "ids ENTITYFIELD_owner = Some ({}, {DbId 1 4, default_id})"
    by (auto simp: one_listener_def blank_core_def default_id_def)
  with c show ?thesis by auto
qed

end
