(* ===== verification/EntityLock.thy ===== *)
theory EntityLock
  imports Prelude
begin

text \<open>
  The lock of an entity (\<open>Entity::lock\<close>, \<open>try_lock\<close>, \<open>lock_shared\<close>, \<open>try_lock_shared\<close>,
  \<open>unlock\<close>, \<open>unlock_shared\<close> in \<^verbatim>\<open>src/src/dbtypes/dbtype_Entity.cpp\<close>): a \<open>boost::shared_mutex\<close>,
  the thread that holds it exclusively, and a count of the locks that thread took on top.

  Threads interleave between the critical sections of the code: an action of a thread is what
  happens from one blocking call or release of \<open>exclusive_thread_lock\<close> to the next. The place
  in between is the thread's \<open>lock_pc\<close>. The mutex of the library is modelled by its owner and
  the multiset of its readers; releasing a share that the thread does not have is undefined,
  which \<open>undefined_unlock\<close> records. The stack of tokens of a thread (true for a writer token)
  says what it has to give back, the last first, as the scopes of the tokens make it.
  The count is a natural number: it is bounded by the depth of a thread's stack.
\<close>

datatype lock_pc =
    Idle | WantLock | TryLock | WantShared | TryShared | Marking | Releasing | Clearing
  | ReleasingShared

record lock_state =
  lock_writer :: "nat option"
  lock_readers :: "nat list"
  locked_thread_id_valid :: bool
  locked_thread_id :: nat
  inner_lock_count :: nat
  lock_pcs :: "nat \<Rightarrow> lock_pc"
  lock_tokens :: "nat \<Rightarrow> bool list"
  undefined_unlock :: bool

definition lock_init :: lock_state where
  "lock_init = \<lparr>lock_writer = None, lock_readers = [], locked_thread_id_valid = False,
     locked_thread_id = 0, inner_lock_count = 0, lock_pcs = (\<lambda>t. Idle), lock_tokens = (\<lambda>t. []),
     undefined_unlock = False\<rparr>"

definition already_have_lock :: "nat \<Rightarrow> lock_state \<Rightarrow> bool" where
  "already_have_lock t s \<longleftrightarrow> locked_thread_id_valid s \<and> locked_thread_id s = t"

definition goto :: "nat \<Rightarrow> lock_pc \<Rightarrow> lock_state \<Rightarrow> lock_state" where
  "goto t p s = s\<lparr>lock_pcs := (lock_pcs s)(t := p)\<rparr>"

definition push_token :: "nat \<Rightarrow> bool \<Rightarrow> lock_state \<Rightarrow> lock_state" where
  "push_token t w s = goto t Idle (s\<lparr>lock_tokens := (lock_tokens s)(t := w # lock_tokens s t)\<rparr>)"

definition pop_token :: "nat \<Rightarrow> lock_state \<Rightarrow> lock_state" where
  "pop_token t s = goto t Idle (s\<lparr>lock_tokens := (lock_tokens s)(t := tl (lock_tokens s t))\<rparr>)"

subsection \<open>Taking the lock\<close>

text \<open>
  The first section of all four: the thread that holds the lock exclusively counts one more
  lock of its own, any other goes on to the mutex.
\<close>

definition enter_lock :: "bool \<Rightarrow> lock_pc \<Rightarrow> nat \<Rightarrow> lock_state \<Rightarrow> lock_state" where
  "enter_lock w next t s =
     (if already_have_lock t s
      then push_token t w (s\<lparr>inner_lock_count := inner_lock_count s + 1\<rparr>)
      else goto t next s)"

definition lock_acquire :: "nat \<Rightarrow> lock_state \<Rightarrow> lock_state option" where
  "lock_acquire t s =
     (if lock_writer s = None \<and> lock_readers s = []
      then Some (goto t Marking (s\<lparr>lock_writer := Some t\<rparr>)) else None)"

definition lock_mark :: "nat \<Rightarrow> lock_state \<Rightarrow> lock_state" where
  "lock_mark t s = push_token t True (s\<lparr>locked_thread_id_valid := True, locked_thread_id := t\<rparr>)"

definition try_lock_attempt :: "nat \<Rightarrow> lock_state \<Rightarrow> lock_state" where
  "try_lock_attempt t s = (case lock_acquire t s of None \<Rightarrow> goto t Idle s | Some s \<Rightarrow> s)"

definition shared_acquire :: "nat \<Rightarrow> lock_state \<Rightarrow> lock_state option" where
  "shared_acquire t s =
     (if lock_writer s = None
      then Some (push_token t False (s\<lparr>lock_readers := t # lock_readers s\<rparr>)) else None)"

definition try_shared_attempt :: "nat \<Rightarrow> lock_state \<Rightarrow> lock_state" where
  "try_shared_attempt t s = (case shared_acquire t s of None \<Rightarrow> goto t Idle s | Some s \<Rightarrow> s)"

subsection \<open>Giving it back\<close>

definition unlock_enter :: "nat \<Rightarrow> lock_state \<Rightarrow> lock_state" where
  "unlock_enter t s =
     (if already_have_lock t s
      then (if inner_lock_count s = 0 then goto t Releasing s
            else pop_token t (s\<lparr>inner_lock_count := inner_lock_count s - 1\<rparr>))
      else pop_token t s)"

text \<open>The listeners are told while the lock is still held; then it is released.\<close>

definition unlock_release :: "nat \<Rightarrow> lock_state \<Rightarrow> lock_state" where
  "unlock_release t s = goto t Clearing (s\<lparr>lock_writer := None\<rparr>)"

definition unlock_clear :: "nat \<Rightarrow> lock_state \<Rightarrow> lock_state" where
  "unlock_clear t s = pop_token t (s\<lparr>locked_thread_id_valid := False\<rparr>)"

definition unlock_shared_enter :: "nat \<Rightarrow> lock_state \<Rightarrow> lock_state" where
  "unlock_shared_enter t s =
     (if already_have_lock t s
      then (if inner_lock_count s = 0 then pop_token t s
            else pop_token t (s\<lparr>inner_lock_count := inner_lock_count s - 1\<rparr>))
      else goto t ReleasingShared s)"

definition unlock_shared_release :: "nat \<Rightarrow> lock_state \<Rightarrow> lock_state" where
  "unlock_shared_release t s =
     (if t \<in> set (lock_readers s) then pop_token t (s\<lparr>lock_readers := remove1 t (lock_readers s)\<rparr>)
      else pop_token t (s\<lparr>undefined_unlock := True\<rparr>))"

subsection \<open>Threads\<close>

datatype lock_action =
    StartLock | StartTryLock | StartShared | StartTryShared | StartUnlock | StartUnlockShared
  | Continue

text \<open>
  What a thread may do: an idle one calls an operation, giving back only its last token, as
  tokens in nested scopes are (an unlock out of that order is not modelled); any other goes on
  where it is, unless it is blocked by the mutex.
\<close>

fun lock_act :: "lock_action \<Rightarrow> nat \<Rightarrow> lock_state \<Rightarrow> lock_state option" where
  "lock_act StartLock t s = (if lock_pcs s t = Idle then Some (enter_lock True WantLock t s) else None)"
| "lock_act StartTryLock t s = (if lock_pcs s t = Idle then Some (enter_lock True TryLock t s) else None)"
| "lock_act StartShared t s = (if lock_pcs s t = Idle then Some (enter_lock False WantShared t s) else None)"
| "lock_act StartTryShared t s = (if lock_pcs s t = Idle then Some (enter_lock False TryShared t s) else None)"
| "lock_act StartUnlock t s =
     (if lock_pcs s t = Idle \<and> lock_tokens s t \<noteq> [] \<and> hd (lock_tokens s t) then Some (unlock_enter t s) else None)"
| "lock_act StartUnlockShared t s =
     (if lock_pcs s t = Idle \<and> lock_tokens s t \<noteq> [] \<and> \<not> hd (lock_tokens s t)
      then Some (unlock_shared_enter t s) else None)"
| "lock_act Continue t s =
     (case lock_pcs s t of
        Idle \<Rightarrow> None | WantLock \<Rightarrow> lock_acquire t s | TryLock \<Rightarrow> Some (try_lock_attempt t s)
      | WantShared \<Rightarrow> shared_acquire t s | TryShared \<Rightarrow> Some (try_shared_attempt t s)
      | Marking \<Rightarrow> Some (lock_mark t s) | Releasing \<Rightarrow> Some (unlock_release t s)
      | Clearing \<Rightarrow> Some (unlock_clear t s) | ReleasingShared \<Rightarrow> Some (unlock_shared_release t s))"

text \<open>
  Reachable states; the calm ones are those reached without any other thread moving between a
  thread's release of the mutex and its clearing of the owner.
\<close>

inductive lock_reach :: "lock_state \<Rightarrow> lock_state \<Rightarrow> bool" where
  reach_refl: "lock_reach s s"
| reach_step: "lock_reach s u \<Longrightarrow> lock_act a t u = Some v \<Longrightarrow> lock_reach s v"

inductive calm_reach :: "lock_state \<Rightarrow> bool" where
  calm_init: "calm_reach lock_init"
| calm_step: "calm_reach s \<Longrightarrow> lock_act a t s = Some v \<Longrightarrow> (\<forall>u. lock_pcs s u = Clearing \<longrightarrow> u = t)
    \<Longrightarrow> calm_reach v"

subsection \<open>The invariant of calm runs\<close>

definition thread_ok :: "lock_state \<Rightarrow> nat \<Rightarrow> bool" where
  "thread_ok s t \<longleftrightarrow>
     (if already_have_lock t s then
        inner_lock_count s = length (lock_tokens s t) - 1 \<and> lock_tokens s t \<noteq> [] \<and> last (lock_tokens s t)
        \<and> lock_pcs s t \<in> {Idle, Releasing, Clearing}
        \<and> (lock_pcs s t \<noteq> Idle \<longrightarrow> lock_tokens s t = [True])
        \<and> lock_writer s = (if lock_pcs s t = Clearing then None else Some t) \<and> lock_readers s = []
      else lock_pcs s t \<notin> {Releasing, Clearing} \<and> True \<notin> set (lock_tokens s t)
        \<and> count_list (lock_readers s) t = length (lock_tokens s t)
        \<and> (lock_pcs s t = Marking \<longleftrightarrow> lock_writer s = Some t)
        \<and> (lock_pcs s t = ReleasingShared \<longrightarrow> lock_tokens s t \<noteq> []))"

definition lock_ok :: "lock_state \<Rightarrow> bool" where
  "lock_ok s \<longleftrightarrow> (\<forall>t. thread_ok s t) \<and> (lock_writer s \<noteq> None \<longrightarrow> lock_readers s = [])
     \<and> \<not> undefined_unlock s \<and> (\<not> locked_thread_id_valid s \<longrightarrow> inner_lock_count s = 0)"

lemma goto_simps [simp]:
  "lock_writer (goto t p s) = lock_writer s" "lock_readers (goto t p s) = lock_readers s"
  "locked_thread_id_valid (goto t p s) = locked_thread_id_valid s"
  "locked_thread_id (goto t p s) = locked_thread_id s"
  "inner_lock_count (goto t p s) = inner_lock_count s" "lock_tokens (goto t p s) = lock_tokens s"
  "undefined_unlock (goto t p s) = undefined_unlock s"
  "lock_pcs (goto t p s) = (lock_pcs s)(t := p)"
  by (simp_all add: goto_def)

lemma push_simps [simp]:
  "lock_writer (push_token t w s) = lock_writer s" "lock_readers (push_token t w s) = lock_readers s"
  "locked_thread_id_valid (push_token t w s) = locked_thread_id_valid s"
  "locked_thread_id (push_token t w s) = locked_thread_id s"
  "inner_lock_count (push_token t w s) = inner_lock_count s"
  "undefined_unlock (push_token t w s) = undefined_unlock s"
  "lock_pcs (push_token t w s) = (lock_pcs s)(t := Idle)"
  "lock_tokens (push_token t w s) = (lock_tokens s)(t := w # lock_tokens s t)"
  by (simp_all add: push_token_def)

lemma pop_simps [simp]:
  "lock_writer (pop_token t s) = lock_writer s" "lock_readers (pop_token t s) = lock_readers s"
  "locked_thread_id_valid (pop_token t s) = locked_thread_id_valid s"
  "locked_thread_id (pop_token t s) = locked_thread_id s"
  "inner_lock_count (pop_token t s) = inner_lock_count s"
  "undefined_unlock (pop_token t s) = undefined_unlock s"
  "lock_pcs (pop_token t s) = (lock_pcs s)(t := Idle)"
  "lock_tokens (pop_token t s) = (lock_tokens s)(t := tl (lock_tokens s t))"
  by (simp_all add: pop_token_def)

lemma already_simps [simp]:
  "already_have_lock u (goto t p s) = already_have_lock u s"
  "already_have_lock u (push_token t w s) = already_have_lock u s"
  "already_have_lock u (pop_token t s) = already_have_lock u s"
  "already_have_lock u (s\<lparr>inner_lock_count := n\<rparr>) = already_have_lock u s"
  "already_have_lock u (s\<lparr>lock_writer := x\<rparr>) = already_have_lock u s"
  "already_have_lock u (s\<lparr>lock_readers := r\<rparr>) = already_have_lock u s"
  "already_have_lock u (s\<lparr>undefined_unlock := d\<rparr>) = already_have_lock u s"
  "\<not> already_have_lock u (s\<lparr>locked_thread_id_valid := False\<rparr>)"
  "already_have_lock u (s\<lparr>locked_thread_id_valid := True, locked_thread_id := t\<rparr>) \<longleftrightarrow> u = t"
  by (auto simp: already_have_lock_def)

lemma own_unique: "already_have_lock t s \<Longrightarrow> already_have_lock u s \<Longrightarrow> u = t"
  by (simp add: already_have_lock_def)

lemma lock_okD:
  assumes "lock_ok s"
  shows "thread_ok s t" and "lock_writer s \<noteq> None \<Longrightarrow> lock_readers s = []" and "\<not> undefined_unlock s"
    and "\<not> locked_thread_id_valid s \<Longrightarrow> inner_lock_count s = 0"
  using assms by (auto simp: lock_ok_def)

text \<open>The owner, when there is one, and the thread that is about to become it.\<close>

lemma owner_ok: "lock_ok s \<Longrightarrow> already_have_lock t s \<Longrightarrow>
   inner_lock_count s = length (lock_tokens s t) - 1 \<and> lock_tokens s t \<noteq> [] \<and> last (lock_tokens s t)
   \<and> lock_pcs s t \<in> {Idle, Releasing, Clearing} \<and> (lock_pcs s t \<noteq> Idle \<longrightarrow> lock_tokens s t = [True])
   \<and> lock_writer s = (if lock_pcs s t = Clearing then None else Some t) \<and> lock_readers s = []"
  using lock_okD(1) [of s t] by (simp add: thread_ok_def)

lemma other_ok: "lock_ok s \<Longrightarrow> \<not> already_have_lock t s \<Longrightarrow>
   lock_pcs s t \<notin> {Releasing, Clearing} \<and> True \<notin> set (lock_tokens s t)
   \<and> count_list (lock_readers s) t = length (lock_tokens s t)
   \<and> (lock_pcs s t = Marking \<longleftrightarrow> lock_writer s = Some t)
   \<and> (lock_pcs s t = ReleasingShared \<longrightarrow> lock_tokens s t \<noteq> [])"
  using lock_okD(1) [of s t] by (simp add: thread_ok_def)

lemma lock_okI:
  assumes "\<And>u. thread_ok v u" and "lock_writer v \<noteq> None \<Longrightarrow> lock_readers v = []"
    and "\<not> undefined_unlock v" and "\<not> locked_thread_id_valid v \<Longrightarrow> inner_lock_count v = 0"
  shows "lock_ok v"
  using assms by (simp add: lock_ok_def)

text \<open>A thread that moves on, or ends an operation without the mutex, changes only itself.\<close>

lemma goto_ok:
  assumes "lock_ok s" and "lock_pcs s t \<in> {Idle, TryLock, TryShared}" and "\<not> already_have_lock t s"
    and "p \<in> {Idle, WantLock, TryLock, WantShared, TryShared, ReleasingShared}"
    and "p = ReleasingShared \<Longrightarrow> lock_tokens s t \<noteq> []"
  shows "lock_ok (goto t p s)"
proof (rule lock_okI)
  fix u
  show "thread_ok (goto t p s) u"
  proof (cases "u = t")
    case True
    have "lock_writer s \<noteq> Some t" "True \<notin> set (lock_tokens s t)"
      "count_list (lock_readers s) t = length (lock_tokens s t)"
      using other_ok [OF assms(1,3)] assms(2) by auto
    with True assms(3-5) show ?thesis by (auto simp: thread_ok_def)
  next
    case False
    then show ?thesis using lock_okD(1) [OF assms(1), of u]
      by (auto simp: thread_ok_def split: if_splits)
  qed
qed (use lock_okD [OF assms(1)] in \<open>simp_all add: goto_def\<close>)

lemma enter_ok:
  assumes "lock_ok s" and "lock_pcs s t = Idle" and "p \<in> {WantLock, TryLock, WantShared, TryShared}"
  shows "lock_ok (enter_lock w p t s)"
proof (cases "already_have_lock t s")
  case False
  then show ?thesis using goto_ok [OF assms(1) _ False, of p] assms(2,3) by (auto simp: enter_lock_def)
next
  case True
  let ?v = "push_token t w (s\<lparr>inner_lock_count := inner_lock_count s + 1\<rparr>)"
  note own = owner_ok [OF assms(1) True]
  have "thread_ok ?v u" for u
  proof (cases "u = t")
    case eq: True
    then show ?thesis using own assms(2) True by (cases "lock_tokens s t") (simp_all add: thread_ok_def)
  next
    case False
    then have "\<not> already_have_lock u s" using True own_unique by blast
    with False show ?thesis using other_ok [OF assms(1), of u] by (simp add: thread_ok_def)
  qed
  then have "lock_ok ?v" using lock_okD [OF assms(1)] True own
    by (intro lock_okI) (simp_all add: already_have_lock_def)
  then show ?thesis using True by (simp add: enter_lock_def)
qed

lemma acquire_ok:
  assumes "lock_ok s" and "lock_acquire t s = Some v" and "lock_pcs s t \<in> {WantLock, TryLock}"
    and "\<forall>u. lock_pcs s u = Clearing \<longrightarrow> u = t"
  shows "lock_ok v"
proof -
  have free: "lock_writer s = None" "lock_readers s = []"
    and v: "v = goto t Marking (s\<lparr>lock_writer := Some t\<rparr>)"
    using assms(2) by (auto simp: lock_acquire_def split: if_splits)
  have none: "\<not> already_have_lock u s" for u
    using owner_ok [OF assms(1), of u] assms(3,4) free by (metis empty_iff insert_iff lock_pc.distinct option.distinct(1))
  have "thread_ok v u" for u
    using other_ok [OF assms(1) none [of u]] none [of u] free
    by (cases "u = t") (auto simp: thread_ok_def v)
  then show ?thesis using lock_okD [OF assms(1)] free by (intro lock_okI) (simp_all add: v)
qed

lemma mark_ok:
  assumes "lock_ok s" and "lock_pcs s t = Marking"
  shows "lock_ok (lock_mark t s)"
proof -
  have not_own: "\<not> already_have_lock t s" using owner_ok [OF assms(1), of t] assms(2) by auto
  note me = other_ok [OF assms(1) not_own]
  then have w: "lock_writer s = Some t" "lock_tokens s t = []"
    using assms(2) lock_okD(2) [OF assms(1)] by auto
  have none: "\<not> already_have_lock u s" for u
    using owner_ok [OF assms(1), of u] w not_own by (cases "u = t") (auto split: if_splits)
  then have valid: "\<not> locked_thread_id_valid s" by (auto simp: already_have_lock_def)
  have "thread_ok (lock_mark t s) u" for u
    using other_ok [OF assms(1) none [of u]] w lock_okD(2,4) [OF assms(1)] valid
    by (cases "u = t") (auto simp: thread_ok_def lock_mark_def)
  then show ?thesis using lock_okD [OF assms(1)] w by (intro lock_okI) (simp_all add: lock_mark_def)
qed

lemma shared_ok:
  assumes "lock_ok s" and "shared_acquire t s = Some v" and "lock_pcs s t \<in> {WantShared, TryShared}"
    and "\<forall>u. lock_pcs s u = Clearing \<longrightarrow> u = t"
  shows "lock_ok v"
proof -
  have free: "lock_writer s = None"
    and v: "v = push_token t False (s\<lparr>lock_readers := t # lock_readers s\<rparr>)"
    using assms(2) by (auto simp: shared_acquire_def split: if_splits)
  have none: "\<not> already_have_lock u s" for u
    using owner_ok [OF assms(1), of u] assms(3,4) free by (metis empty_iff insert_iff lock_pc.distinct option.distinct(1))
  have "thread_ok v u" for u
    using other_ok [OF assms(1) none [of u]] none [of u] free assms(3)
    by (cases "u = t") (auto simp: thread_ok_def v)
  then show ?thesis using lock_okD [OF assms(1)] free by (intro lock_okI) (simp_all add: v)
qed

text \<open>Giving back: the owner's inner locks, its own lock, and the shares of the others.\<close>

lemma inner_pop_ok:
  assumes "lock_ok s" and own: "already_have_lock t s" and "lock_pcs s t = Idle"
    and "inner_lock_count s \<noteq> 0"
  shows "lock_ok (pop_token t (s\<lparr>inner_lock_count := inner_lock_count s - 1\<rparr>))" (is "lock_ok ?v")
proof -
  note me = owner_ok [OF assms(1) own]
  then obtain a b r where tokens: "lock_tokens s t = a # b # r"
    using assms(4) by (metis One_nat_def diff_Suc_Suc length_Cons list.exhaust list.size(3) diff_0_eq_0 minus_nat.diff_0)
  have "thread_ok ?v u" for u
  proof (cases "u = t")
    case True
    then show ?thesis using me assms(3) own tokens by (simp add: thread_ok_def)
  next
    case False
    then have "\<not> already_have_lock u s" using own own_unique by blast
    with False show ?thesis using other_ok [OF assms(1), of u] by (simp add: thread_ok_def)
  qed
  then show ?thesis using lock_okD [OF assms(1)] own
    by (intro lock_okI) (simp_all add: already_have_lock_def)
qed

lemma unlock_enter_ok:
  assumes "lock_ok s" and "lock_pcs s t = Idle" and "lock_tokens s t \<noteq> []" and "hd (lock_tokens s t)"
  shows "lock_ok (unlock_enter t s)"
proof -
  have own: "already_have_lock t s"
    using other_ok [OF assms(1), of t] assms(3,4) by (metis list.set_sel(1))
  note me = owner_ok [OF assms(1) own]
  show ?thesis
  proof (cases "inner_lock_count s = 0")
    case False
    then show ?thesis using inner_pop_ok [OF assms(1) own assms(2)] own by (simp add: unlock_enter_def)
  next
    case True
    then have tokens: "lock_tokens s t = [True]"
      using me assms(4) by (cases "lock_tokens s t") auto
    have "thread_ok (goto t Releasing s) u" for u
    proof (cases "u = t")
      case eq: True
      then show ?thesis using me own tokens True assms(2) by (simp add: thread_ok_def)
    next
      case False
      then show ?thesis using lock_okD(1) [OF assms(1), of u]
        by (auto simp: thread_ok_def split: if_splits)
    qed
    then have "lock_ok (goto t Releasing s)" using lock_okD [OF assms(1)] by (intro lock_okI) simp_all
    then show ?thesis using own True by (simp add: unlock_enter_def)
  qed
qed

lemma unlock_release_ok:
  assumes "lock_ok s" and "lock_pcs s t = Releasing"
  shows "lock_ok (unlock_release t s)"
proof -
  have own: "already_have_lock t s" using other_ok [OF assms(1), of t] assms(2) by auto
  note me = owner_ok [OF assms(1) own]
  have "thread_ok (unlock_release t s) u" for u
  proof (cases "u = t")
    case True
    then show ?thesis using me own assms(2) by (simp add: thread_ok_def unlock_release_def)
  next
    case False
    then have "\<not> already_have_lock u s" using own own_unique by blast
    with False show ?thesis using other_ok [OF assms(1), of u] me assms(2)
      by (auto simp: thread_ok_def unlock_release_def)
  qed
  then show ?thesis using lock_okD [OF assms(1)] by (intro lock_okI) (simp_all add: unlock_release_def)
qed

lemma unlock_clear_ok:
  assumes "lock_ok s" and "lock_pcs s t = Clearing"
  shows "lock_ok (unlock_clear t s)"
proof -
  have own: "already_have_lock t s" using other_ok [OF assms(1), of t] assms(2) by auto
  note me = owner_ok [OF assms(1) own]
  have "thread_ok (unlock_clear t s) u" for u
  proof (cases "u = t")
    case True
    then show ?thesis using me assms(2) by (simp add: thread_ok_def unlock_clear_def)
  next
    case False
    then have "\<not> already_have_lock u s" using own own_unique by blast
    with False show ?thesis using other_ok [OF assms(1), of u] me assms(2)
      by (auto simp: thread_ok_def unlock_clear_def)
  qed
  then show ?thesis using lock_okD [OF assms(1)] me assms(2)
    by (intro lock_okI) (simp_all add: unlock_clear_def)
qed

lemma unlock_shared_enter_ok:
  assumes "lock_ok s" and "lock_pcs s t = Idle" and "lock_tokens s t \<noteq> []" and "\<not> hd (lock_tokens s t)"
  shows "lock_ok (unlock_shared_enter t s)"
proof (cases "already_have_lock t s")
  case False
  then show ?thesis using goto_ok [OF assms(1) _ False, of ReleasingShared] assms(2,3)
    by (simp add: unlock_shared_enter_def)
next
  case True
  note me = owner_ok [OF assms(1) True]
  then have "inner_lock_count s \<noteq> 0"
    using assms(3,4) by (cases "lock_tokens s t") (auto split: if_splits)
  then show ?thesis using inner_pop_ok [OF assms(1) True assms(2)] True
    by (simp add: unlock_shared_enter_def)
qed

lemma count_list_remove1_self:
  "count_list (remove1 x xs) y = (if x = y then count_list xs y - 1 else count_list xs y)"
  by (induction xs) (auto simp: count_list_0_iff)

lemma unlock_shared_release_ok:
  assumes "lock_ok s" and "lock_pcs s t = ReleasingShared"
  shows "lock_ok (unlock_shared_release t s)"
proof -
  have none: "\<not> already_have_lock t s" using owner_ok [OF assms(1), of t] assms(2) by auto
  note me = other_ok [OF assms(1) none]
  then have reader: "t \<in> set (lock_readers s)"
    using assms(2) by (metis count_list_0_iff length_0_conv)
  then have no_owner: "\<not> already_have_lock u s" for u
    using owner_ok [OF assms(1), of u] by auto
  have no_writer: "lock_writer s = None" using reader lock_okD(2) [OF assms(1)] by fastforce
  have "thread_ok (unlock_shared_release t s) u" for u
    using other_ok [OF assms(1) no_owner [of u]] no_owner [of u] reader no_writer me assms(2)
    by (cases "u = t") (auto simp: thread_ok_def unlock_shared_release_def count_list_remove1_self
        dest: list.set_sel(2))
  then show ?thesis using lock_okD [OF assms(1)] reader no_writer
    by (intro lock_okI) (simp_all add: unlock_shared_release_def)
qed

text \<open>Every action of a calm run keeps the invariant.\<close>

lemma lock_act_ok:
  assumes "lock_ok s" and "lock_act a t s = Some v" and calm: "\<forall>u. lock_pcs s u = Clearing \<longrightarrow> u = t"
  shows "lock_ok v"
proof (cases a)
  case Continue
  have try_fail: "lock_ok (goto t Idle s)" if "lock_pcs s t \<in> {TryLock, TryShared}"
  proof -
    have "\<not> already_have_lock t s" using owner_ok [OF assms(1), of t] that by auto
    then show ?thesis using goto_ok [OF assms(1), of t Idle] that by auto
  qed
  show ?thesis
  proof (cases "lock_pcs s t")
    case TryLock
    then show ?thesis using assms(2) Continue try_fail acquire_ok [OF assms(1) _ _ calm]
      by (auto simp: try_lock_attempt_def split: option.splits)
  next
    case TryShared
    then show ?thesis using assms(2) Continue try_fail shared_ok [OF assms(1) _ _ calm]
      by (auto simp: try_shared_attempt_def split: option.splits)
  qed (use assms(2) Continue in \<open>auto intro: acquire_ok [OF assms(1) _ _ calm] shared_ok [OF assms(1) _ _ calm]
      mark_ok [OF assms(1)] unlock_release_ok [OF assms(1)] unlock_clear_ok [OF assms(1)]
      unlock_shared_release_ok [OF assms(1)]\<close>)
qed (use assms(1,2) in \<open>auto split: if_splits intro: enter_ok unlock_enter_ok unlock_shared_enter_ok\<close>)

lemma lock_init_ok: "lock_ok lock_init"
  by (simp add: lock_ok_def thread_ok_def lock_init_def already_have_lock_def)

lemma calm_ok: "calm_reach s \<Longrightarrow> lock_ok s"
  by (induction rule: calm_reach.induct) (auto intro: lock_init_ok lock_act_ok)

subsection \<open>What the lock gives\<close>

text \<open>
  C29. Mutual exclusion. In every state of a calm run, a thread that holds a writer token is the
  only one with any token, the mutex is its own (but for the instant of an unlock after it
  released the mutex), and no share was given back that was not taken.
\<close>

theorem entity_lock_excludes:
  assumes "calm_reach s" and "True \<in> set (lock_tokens s t)" and "u \<noteq> t"
  shows "lock_tokens s u = [] \<and> \<not> undefined_unlock s \<and> lock_readers s = []
    \<and> (lock_pcs s t \<noteq> Clearing \<longrightarrow> lock_writer s = Some t)"
proof -
  have ok: "lock_ok s" using assms(1) by (rule calm_ok)
  have own: "already_have_lock t s" using other_ok [OF ok, of t] assms(2) by blast
  then have "\<not> already_have_lock u s" using assms(3) own_unique by blast
  then show ?thesis using owner_ok [OF ok own] other_ok [OF ok, of u] lock_okD(3) [OF ok] by auto
qed

text \<open>
  Nothing leaks. In a calm run, once no thread is inside an operation and every token has
  been given back, however they were nested, the mutex is free of writer and readers and no
  owner is recorded: the next \<open>lock\<close> of any thread gets it.
\<close>

theorem entity_lock_freed:
  assumes "calm_reach s" and "\<forall>t. lock_pcs s t = Idle \<and> lock_tokens s t = []"
  shows "lock_writer s = None \<and> lock_readers s = [] \<and> \<not> locked_thread_id_valid s
    \<and> inner_lock_count s = 0 \<and> lock_acquire t s \<noteq> None"
proof -
  have ok: "lock_ok s" using assms(1) by (rule calm_ok)
  have none: "\<not> already_have_lock u s" for u using owner_ok [OF ok, of u] assms(2) by auto
  then have valid: "\<not> locked_thread_id_valid s" using none [of "locked_thread_id s"] by (simp add: already_have_lock_def)
  have readers: "lock_readers s = []"
    using other_ok [OF ok none] assms(2) by (metis count_list_0_iff ex_in_conv length_0_conv set_empty)
  have writer: "lock_writer s = None"
    using other_ok [OF ok none] assms(2) by (metis lock_pc.distinct(9) not_Some_eq lock_pc.simps)
  show ?thesis using valid readers writer lock_okD(4) [OF ok] by (simp add: lock_acquire_def)
qed

subsection \<open>The gap in \<open>unlock\<close>\<close>

text \<open>A list of actions, each by its thread, in the order they happen.\<close>

fun lock_run :: "(lock_action \<times> nat) list \<Rightarrow> lock_state \<Rightarrow> lock_state option" where
  "lock_run [] s = Some s"
| "lock_run ((a, t) # r) s = (case lock_act a t s of None \<Rightarrow> None | Some v \<Rightarrow> lock_run r v)"

text \<open>
  Thread 1 takes the lock and gives it back; between its release of the mutex and its
  clearing of the owner, thread 2 takes the lock and marks itself as the owner.
\<close>

definition overtaken_unlock :: "(lock_action \<times> nat) list" where
  "overtaken_unlock =
     [(StartLock, 1), (Continue, 1), (Continue, 1), (StartUnlock, 1), (Continue, 1),
      (StartLock, 2), (Continue, 2), (Continue, 2), (Continue, 1), (StartUnlock, 2)]"

definition lost_to :: "nat \<Rightarrow> lock_state \<Rightarrow> bool" where
  "lost_to t s \<longleftrightarrow> lock_writer s = Some t \<and> \<not> locked_thread_id_valid s \<and> (\<forall>u. lock_tokens s u = [])
     \<and> (\<forall>u. lock_pcs s u \<in> {Idle, WantLock, TryLock, WantShared, TryShared})"

lemma lost_goto: "lost_to w s \<Longrightarrow> p \<in> {Idle, WantLock, TryLock, WantShared, TryShared}
    \<Longrightarrow> lost_to w (goto t p s)"
  by (simp add: lost_to_def)

lemma lost_step:
  assumes "lost_to w s" and "lock_act a t s = Some v"
  shows "lost_to w v"
proof -
  have lost: "lock_writer s = Some w" "\<And>u. lock_tokens s u = []" "\<And>u. \<not> already_have_lock u s"
    using assms(1) by (simp_all add: lost_to_def already_have_lock_def)
  have "lock_pcs s t \<in> {Idle, WantLock, TryLock, WantShared, TryShared}"
    using assms(1) unfolding lost_to_def by blast
  then show ?thesis using assms lost
    by (cases a) (auto simp: enter_lock_def lock_acquire_def shared_acquire_def try_lock_attempt_def
        try_shared_attempt_def intro: lost_goto split: if_splits)
qed

lemma lost_reach: "lock_reach s v \<Longrightarrow> lost_to w s \<Longrightarrow> lost_to w v"
  by (induction rule: lock_reach.induct) (auto intro: lost_step)

lemmas lock_eval = overtaken_unlock_def lock_init_def enter_lock_def already_have_lock_def
  lock_acquire_def lock_mark_def unlock_enter_def unlock_release_def unlock_clear_def
  push_token_def pop_token_def goto_def

lemma overtaken_lost: "\<exists>s. lock_run overtaken_unlock lock_init = Some s \<and> lost_to 2 s"
  by (simp add: lock_eval lost_to_def)

text \<open>
  C30. The lock can be lost. The owner is cleared after the mutex has been released, so it can
  clear the owner that the next thread has just recorded. That thread's \<open>unlock\<close> then finds
  that it does not have the lock, does nothing and returns true: nobody has a token, yet the
  mutex keeps its writer in every state that any continuation reaches, and no thread gets a
  token of that entity again.
\<close>

theorem overtaken_unlock_loses_lock:
  assumes "lock_run overtaken_unlock lock_init = Some s" and "lock_reach s v"
  shows "lock_writer v = Some 2 \<and> lock_tokens v t = [] \<and> lock_acquire t v = None
    \<and> shared_acquire t v = None"
proof -
  have "lost_to 2 v" using overtaken_lost assms lost_reach by (metis option.inject)
  then show ?thesis by (simp add: lost_to_def lock_acquire_def shared_acquire_def)
qed

text \<open>Inputs that meet the hypotheses.\<close>

lemma calm_one_thread:
  "\<exists>s. calm_reach s \<and> lock_tokens s = (\<lambda>t. [])(1 := [True]) \<and> lock_pcs s = (\<lambda>t. Idle)(1 := Idle)
     \<and> lock_writer s = Some 1"
proof -
  let ?a = "enter_lock True WantLock 1 lock_init"
  let ?b = "goto 1 Marking (?a\<lparr>lock_writer := Some 1\<rparr>)"
  have "calm_reach ?a" by (rule calm_step [OF calm_init, of StartLock 1]) (simp_all add: lock_init_def)
  then have "calm_reach ?b"
    by (rule calm_step [of _ Continue 1]) (simp_all add: lock_eval)
  then have "calm_reach (lock_mark 1 ?b)"
    by (rule calm_step [of _ Continue 1]) (simp_all add: lock_eval)
  then show ?thesis by (rule exI [of _ "lock_mark 1 ?b", OF conjI]) (simp add: lock_eval fun_eq_iff)
qed

theorem entity_lock_excludes_witness:
  "\<exists>s. calm_reach s \<and> lock_writer s = Some 1 \<and> lock_tokens s 2 = []"
proof -
  obtain s where s: "calm_reach s" "lock_tokens s = (\<lambda>t. [])(1 := [True])" "lock_writer s = Some 1"
    using calm_one_thread by blast
  then show ?thesis using entity_lock_excludes [of s 1 2] by auto
qed

theorem entity_lock_freed_witness: "lock_acquire 5 lock_init \<noteq> None"
  using entity_lock_freed [OF calm_init, of 5] by (simp add: lock_init_def)

theorem overtaken_unlock_loses_lock_witness:
  "\<exists>s. lock_run overtaken_unlock lock_init = Some s \<and> lock_acquire 3 s = None"
proof -
  obtain s where "lock_run overtaken_unlock lock_init = Some s" using overtaken_lost by blast
  then show ?thesis using overtaken_unlock_loses_lock [OF _ reach_refl, of s 3] by blast
qed

end
