(* ===== verification/Session.thy ===== *)
theory Session
  imports Chan IdAlloc
begin

text \<open>
  \<open>comm::ClientSession\<close> (\<^verbatim>\<open>src/src/comminterface/comm_ClientSession.cpp\<close>): the session of a
  connected player. Towards the client it keeps a queue of numbered events with a window of
  unacknowledged ones and survives reconnects; towards the server it hands the client's data to
  channels, or queues it while a channel is blocked.

  A method that holds \<open>client_lock\<close> throughout is one function on the session; one that calls
  channels is a function on the \<open>world\<close>, which holds the session and the channels of \<open>Chan\<close>. A
  channel calls its listeners and receivers back before the call of it returns, so
  \<open>chan_call\<close> applies an operation to a channel and then the callbacks the channel made of this
  session. \<open>process_pending\<close>, which takes and releases the lock several times, is a sequence of
  smaller steps between which others may run.

  The connection to the client (the virtual functions of \<open>ClientConnection\<close>) is a parameter:
  \<open>reply n\<close> is what it returns to the \<open>n\<close>-th message sent. Texts and client messages are type
  parameters. For what is proved of it the world notes, for each channel number since it was
  given out, the items of the client that \<open>arrived\<close> and those \<open>handed\<close> to the channel, and whether
  the session used a channel after its deletion. Pointers are numbers as in \<open>Chan\<close>; \<open>this_ptr\<close> is the session's own. Calls of the
  router and the connection are outputs kept in \<open>service_requests\<close>, \<open>released\<close>,
  \<open>disconnected\<close> and \<open>client_calls\<close>. Time is a number.
\<close>

subsection \<open>Data\<close>

datatype client_type = CLIENT_TYPE_ADMIN | CLIENT_TYPE_INTERACTIVE | CLIENT_TYPE_BATCH

datatype send_return_code =
    SEND_OK | SEND_OK_BLOCKED | SEND_BLOCKED | SEND_DISCONNECTED | SEND_NOT_SUPPORTED

datatype channel_status =
    CHANNEL_STATUS_invalid | CHANNEL_STATUS_open | CHANNEL_STATUS_close | CHANNEL_STATUS_block
  | CHANNEL_STATUS_unblock | CHANNEL_STATUS_END

record channel_status_change =
  csc_status :: channel_status
  csc_out :: bool
  csc_id :: u32
  csc_name :: string
  csc_type :: channel_type
  csc_subtype :: string
  csc_entity_id :: db_id

text \<open>What travels on the two classes of channels.\<close>

datatype ('t, 'm) item = TextItem 't | MessageItem 'm

fun item_type :: "('t, 'm) item \<Rightarrow> channel_type" where
  "item_type (TextItem t) = CHANNEL_TYPE_TEXT"
| "item_type (MessageItem m) = CHANNEL_TYPE_CLIENT_DATA"

datatype ('t, 'm) event_data =
    EVENT_TEXT_DATA 't | EVENT_ENHANCED_DATA 'm
  | EVENT_CHANNEL_STATUS_DATA channel_status_change | EVENT_INVALID_END

record ('t, 'm) router_event =
  event_data :: "('t, 'm) event_data"
  event_serial_id :: u32
  event_channel_id :: u32

fun item_event :: "('t, 'm) item \<Rightarrow> u32 \<Rightarrow> u32 \<Rightarrow> ('t, 'm) router_event" where
  "item_event (TextItem t) ser_id channel_id =
     \<lparr>event_data = EVENT_TEXT_DATA t, event_serial_id = ser_id, event_channel_id = channel_id\<rparr>"
| "item_event (MessageItem m) ser_id channel_id =
     \<lparr>event_data = EVENT_ENHANCED_DATA m, event_serial_id = ser_id, event_channel_id = channel_id\<rparr>"

definition status_event :: "channel_status_change \<Rightarrow> u32 \<Rightarrow> ('t, 'm) router_event" where
  "status_event c ser_id = \<lparr>event_data = EVENT_CHANNEL_STATUS_DATA c,
     event_serial_id = ser_id, event_channel_id = 0\<rparr>"

record channel_info =
  ci_id :: u32
  ci_channel :: "ptr option"
  ci_out :: bool
  ci_closed :: bool
  ci_blocked :: bool

definition channel_info_new :: "u32 \<Rightarrow> ptr \<Rightarrow> bool \<Rightarrow> channel_info" where
  "channel_info_new cid p out =
     \<lparr>ci_id = cid, ci_channel = Some p, ci_out = out, ci_closed = False, ci_blocked = False\<rparr>"

definition invalid_channel_info :: channel_info where
  "invalid_channel_info =
     \<lparr>ci_id = 0, ci_channel = None, ci_out = False, ci_closed = False, ci_blocked = False\<rparr>"

definition ci_valid :: "channel_info \<Rightarrow> bool" where
  "ci_valid ci \<longleftrightarrow> ci_channel ci \<noteq> None"

text \<open>What a connection says of itself.\<close>

record connection =
  conn_ptr :: ptr
  conn_window_size :: u32
  conn_is_enhanced :: bool
  conn_client_type :: client_type
  conn_source :: string
  conn_entity_id :: db_id

text \<open>The messages a session sends over a connection.\<close>

datatype ('t, 'm) client_call =
    AcknowledgeData u32 | AcknowledgeDataReconnect u32
  | ChannelStatusChanged u32 channel_status_change
  | SendText u32 u32 't | SendMessage u32 u32 'm

record ('t, 'm) session =
  outgoing_events :: "('t, 'm) router_event list"
  sent_events :: "('t, 'm) router_event list"
  outgoing_ser_ack :: u32
  incoming_ser_ack :: u32
  needs_incoming_ser_ack_sent :: bool
  has_requested_service :: bool
  need_handle_reconnect :: bool
  need_disconnect :: bool
  wait_reconnect_response :: bool
  client_is_blocked :: bool
  client_is_connected :: bool
  client_is_enhanced :: bool
  ses_client_type :: client_type
  client_source :: string
  client_entity_id :: db_id
  last_used_channel_id :: u32
  last_used_message_ser_id :: u32
  session_id :: u32
  client_window_size :: u32
  active_channels :: "channel_info list"
  blocked_channel_queues :: "(u32 \<times> ('t, 'm) router_event list) list"
  pending_channels_delete :: "u32 list"
  pending_channels_unblock :: "u32 list"
  session_established_time :: nat
  last_activity_time :: nat
  client_ptr :: "ptr option"
  this_ptr :: ptr
  service_requests :: nat
  released :: "ptr list"
  disconnected :: "ptr list"
  client_calls :: "(('t, 'm) client_call \<times> send_return_code) list"

record ('t, 'm) world =
  ses :: "('t, 'm) session"
  chans :: "ptr \<Rightarrow> ('t, 'm) item channel"
  freed_use :: bool
  arrived :: "(u32 \<times> ('t, 'm) item) list"
  handed :: "(u32 \<times> ('t, 'm) item) list"

abbreviation on_session :: "(('t, 'm) session \<Rightarrow> ('t, 'm) session) \<Rightarrow> ('t, 'm) world \<Rightarrow> ('t, 'm) world" where
  "on_session f w \<equiv> w\<lparr>ses := f (ses w)\<rparr>"

text \<open>\<open>ChannelId\<close> and \<open>MessageSerialId\<close> are 32 bits wide.\<close>

definition MAX_CHANNELS :: u32 where
  "MAX_CHANNELS = 0xFFFFFFFF - 1"

definition session_new :: "u32 \<Rightarrow> ptr \<Rightarrow> connection \<Rightarrow> nat \<Rightarrow> ('t, 'm) session" where
  "session_new sid this c now =
     \<lparr>outgoing_events = [], sent_events = [], outgoing_ser_ack = 0, incoming_ser_ack = 0,
      needs_incoming_ser_ack_sent = False, has_requested_service = False,
      need_handle_reconnect = False, need_disconnect = False, wait_reconnect_response = False,
      client_is_blocked = False, client_is_connected = True,
      client_is_enhanced = conn_is_enhanced c, ses_client_type = conn_client_type c,
      client_source = conn_source c, client_entity_id = conn_entity_id c,
      last_used_channel_id = 0, last_used_message_ser_id = 0, session_id = sid,
      client_window_size = conn_window_size c, active_channels = [],
      blocked_channel_queues = [], pending_channels_delete = [], pending_channels_unblock = [],
      session_established_time = now, last_activity_time = now, client_ptr = Some (conn_ptr c),
      this_ptr = this, service_requests = 0, released = [], disconnected = [], client_calls = []\<rparr>"

subsection \<open>Helpers\<close>

text \<open>A reference into a vector: the first element that matches is the one changed.\<close>

fun update_first :: "('a \<Rightarrow> bool) \<Rightarrow> ('a \<Rightarrow> 'a) \<Rightarrow> 'a list \<Rightarrow> 'a list" where
  "update_first P f [] = []"
| "update_first P f (x # xs) = (if P x then f x # xs else x # update_first P f xs)"

definition request_service :: "('t, 'm) session \<Rightarrow> ('t, 'm) session" where
  "request_service s = (if \<not> has_requested_service s
     then s\<lparr>service_requests := service_requests s + 1, has_requested_service := True\<rparr> else s)"

definition request_unless_blocked :: "('t, 'm) session \<Rightarrow> ('t, 'm) session" where
  "request_unless_blocked s = (if \<not> client_is_blocked s then request_service s else s)"

definition next_message_id :: "u32 \<Rightarrow> u32" where
  "next_message_id n = (if n + 1 = 0 then n + 1 + 1 else n + 1)"

definition get_next_message_id :: "('t, 'm) session \<Rightarrow> ('t, 'm) session \<times> u32" where
  "get_next_message_id s =
     (let n = next_message_id (last_used_message_ser_id s)
      in (s\<lparr>last_used_message_ser_id := n\<rparr>, n))"

text \<open>The search the two \<open>get_channel_info\<close> share; an unknown channel gives the invalid entry.\<close>

definition channel_info_where :: "(channel_info \<Rightarrow> bool) \<Rightarrow> ('t, 'm) session \<Rightarrow> channel_info" where
  "channel_info_where P s =
     (case find P (active_channels s) of None \<Rightarrow> invalid_channel_info | Some ci \<Rightarrow> ci)"

definition get_channel_info_ptr :: "ptr \<Rightarrow> ('t, 'm) session \<Rightarrow> channel_info" where
  "get_channel_info_ptr p s = channel_info_where (\<lambda>ci. ci_channel ci = Some p) s"

definition get_channel_info :: "u32 \<Rightarrow> ('t, 'm) session \<Rightarrow> channel_info" where
  "get_channel_info cid s = channel_info_where (\<lambda>ci. ci_id ci = cid) s"

definition get_channel_by_id :: "u32 \<Rightarrow> ('t, 'm) session \<Rightarrow> ptr option" where
  "get_channel_by_id cid s = ci_channel (get_channel_info cid s)"

definition get_channel_id :: "ptr \<Rightarrow> ('t, 'm) session \<Rightarrow> u32" where
  "get_channel_id p s = ci_id (get_channel_info_ptr p s)"

definition set_blocked_ptr :: "ptr \<Rightarrow> bool \<Rightarrow> ('t, 'm) session \<Rightarrow> ('t, 'm) session" where
  "set_blocked_ptr p b s = s\<lparr>active_channels :=
     update_first (\<lambda>ci. ci_channel ci = Some p) (ci_blocked_update (\<lambda>_. b)) (active_channels s)\<rparr>"

definition set_blocked_id :: "u32 \<Rightarrow> bool \<Rightarrow> ('t, 'm) session \<Rightarrow> ('t, 'm) session" where
  "set_blocked_id cid b s = s\<lparr>active_channels :=
     update_first (\<lambda>ci. ci_id ci = cid) (ci_blocked_update (\<lambda>_. b)) (active_channels s)\<rparr>"

definition set_closed_ptr :: "ptr \<Rightarrow> ('t, 'm) session \<Rightarrow> ('t, 'm) session" where
  "set_closed_ptr p s = s\<lparr>active_channels :=
     update_first (\<lambda>ci. ci_channel ci = Some p) (ci_closed_update (\<lambda>_. True)) (active_channels s)\<rparr>"

definition make_channel_status_change ::
    "('t, 'm) item channel \<Rightarrow> channel_info \<Rightarrow> channel_status \<Rightarrow> channel_status_change" where
  "make_channel_status_change c ci st =
     \<lparr>csc_status = st, csc_out = ci_out ci, csc_id = ci_id ci, csc_name = channel_name c,
      csc_type = channel_type c, csc_subtype = channel_subtype c,
      csc_entity_id = channel_entity_id c\<rparr>"

text \<open>An event, made with the next serial number, goes to the end of the queue.\<close>

definition push_event :: "(u32 \<Rightarrow> ('t, 'm) router_event) \<Rightarrow> ('t, 'm) session \<Rightarrow> ('t, 'm) session" where
  "push_event e s = (case get_next_message_id s of (s, n) \<Rightarrow>
     s\<lparr>outgoing_events := outgoing_events s @ [e n]\<rparr>)"

definition push_status ::
    "('t, 'm) item channel \<Rightarrow> channel_info \<Rightarrow> channel_status \<Rightarrow> ('t, 'm) session \<Rightarrow> ('t, 'm) session" where
  "push_status c ci st s = push_event (status_event (make_channel_status_change c ci st)) s"

subsection \<open>Pending lists and the queues of blocked channels\<close>

definition add_pending_unblocked_channel :: "u32 \<Rightarrow> ('t, 'm) session \<Rightarrow> ('t, 'm) session \<times> bool" where
  "add_pending_unblocked_channel cid s =
     (if cid \<noteq> 0 \<and> cid \<notin> set (pending_channels_unblock s)
      then (s\<lparr>pending_channels_unblock := pending_channels_unblock s @ [cid]\<rparr>, True)
      else (s, False))"

definition remove_pending_unblocked_channel :: "u32 \<Rightarrow> ('t, 'm) session \<Rightarrow> ('t, 'm) session \<times> bool" where
  "remove_pending_unblocked_channel cid s =
     (if cid \<noteq> 0 \<and> cid \<in> set (pending_channels_unblock s)
      then (s\<lparr>pending_channels_unblock := remove1 cid (pending_channels_unblock s)\<rparr>, True)
      else (s, False))"

definition find_queue :: "u32 \<Rightarrow> ('t, 'm) session \<Rightarrow> ('t, 'm) router_event list option" where
  "find_queue cid s = map_option snd (find (\<lambda>q. fst q = cid) (blocked_channel_queues s))"

definition get_blocked_queue ::
    "u32 \<Rightarrow> ('t, 'm) session \<Rightarrow> ('t, 'm) session \<times> ('t, 'm) router_event list" where
  "get_blocked_queue cid s =
     (case find_queue cid s of
        Some q \<Rightarrow> (s, q)
      | None \<Rightarrow> (s\<lparr>blocked_channel_queues := blocked_channel_queues s @ [(cid, [])]\<rparr>, []))"

definition set_blocked_queue ::
    "u32 \<Rightarrow> ('t, 'm) router_event list \<Rightarrow> ('t, 'm) session \<Rightarrow> ('t, 'm) session" where
  "set_blocked_queue cid q s = s\<lparr>blocked_channel_queues :=
     update_first (\<lambda>p. fst p = cid) (\<lambda>p. (fst p, q)) (blocked_channel_queues s)\<rparr>"

text \<open>From \<open>index\<close> down to the last queue that is not empty.\<close>

fun trim_index :: "(u32 \<times> 'e list) list \<Rightarrow> nat \<Rightarrow> nat" where
  "trim_index qs index = (if snd (qs ! index) \<noteq> [] then index + 1
     else case index of 0 \<Rightarrow> 0 | Suc i \<Rightarrow> trim_index qs i)"

declare trim_index.simps [simp del]

definition remove_blocked_queue :: "u32 \<Rightarrow> ('t, 'm) session \<Rightarrow> ('t, 'm) session" where
  "remove_blocked_queue cid s =
     (if find_queue cid s = None then s
      else
        let qs = update_first (\<lambda>p. fst p = cid) (\<lambda>p. (fst p, [])) (blocked_channel_queues s);
            index = trim_index qs (length qs - 1)
        in s\<lparr>blocked_channel_queues := (if index < length qs then take index qs else qs)\<rparr>)"

subsection \<open>Numbers for channels\<close>

text \<open>
  The search for a free number tries one after the other and starts over at 1; \<open>None\<close> when it
  does not end.
\<close>

definition advance_channel_id :: "u32 \<Rightarrow> u32" where
  "advance_channel_id n = (if n + 1 \<ge> MAX_CHANNELS then 1 else n + 1)"

partial_function (option) search_channel_id :: "('t, 'm) session \<Rightarrow> u32 \<Rightarrow> u32 option" where
  "search_channel_id s n =
     (let n = advance_channel_id n
      in if get_channel_by_id n s = None \<and> n \<noteq> 0 then Some n else search_channel_id s n)"

definition get_next_channel_id :: "('t, 'm) session \<Rightarrow> (('t, 'm) session \<times> u32) option" where
  "get_next_channel_id s =
     (if length (active_channels s) \<ge> unat MAX_CHANNELS then Some (s, 0)
      else map_option (\<lambda>n. (s\<lparr>last_used_channel_id := n\<rparr>, n))
             (search_channel_id s (last_used_channel_id s)))"

subsection \<open>What the channels tell the session\<close>

definition channel_flow_blocked ::
    "('t, 'm) item channel \<Rightarrow> ptr \<Rightarrow> ('t, 'm) session \<Rightarrow> ('t, 'm) session" where
  "channel_flow_blocked c p s =
     (let ci = get_channel_info_ptr p s
      in if ci_valid ci \<and> \<not> ci_out ci then
           let s = fst (remove_pending_unblocked_channel (ci_id ci) s)
           in if \<not> ci_blocked ci
              then request_unless_blocked
                     (push_status c ci CHANNEL_STATUS_block (set_blocked_ptr p True s))
              else s
         else s)"

definition channel_flow_open :: "ptr \<Rightarrow> ('t, 'm) session \<Rightarrow> ('t, 'm) session" where
  "channel_flow_open p s =
     (let ci = get_channel_info_ptr p s
      in if ci_valid ci \<and> \<not> ci_out ci
         then request_unless_blocked (fst (add_pending_unblocked_channel (ci_id ci) s)) else s)"

definition channel_flow_closed ::
    "('t, 'm) item channel \<Rightarrow> ptr \<Rightarrow> ('t, 'm) session \<Rightarrow> ('t, 'm) session" where
  "channel_flow_closed c p s =
     (let ci = get_channel_info_ptr p s
      in if ci_valid ci then
           let s = push_status c ci CHANNEL_STATUS_close s;
               s = s\<lparr>pending_channels_delete := pending_channels_delete s @ [ci_id ci]\<rparr>
           in request_unless_blocked (set_closed_ptr p s)
         else s)"

definition channel_destructed ::
    "('t, 'm) item channel \<Rightarrow> ptr \<Rightarrow> ('t, 'm) session \<Rightarrow> ('t, 'm) session" where
  "channel_destructed c p s =
     (if ci_valid (get_channel_info_ptr p s) then channel_flow_closed c p s else s)"

definition client_channel_data :: "ptr \<Rightarrow> 'm \<Rightarrow> ('t, 'm) session \<Rightarrow> ('t, 'm) session" where
  "client_channel_data p m s =
     (let ci = get_channel_info_ptr p s
      in if ci_valid ci
         then request_unless_blocked (push_event (\<lambda>n. item_event (MessageItem m) n (ci_id ci)) s)
         else s)"

definition text_channel_data :: "ptr \<Rightarrow> 't \<Rightarrow> ('t, 'm) session \<Rightarrow> ('t, 'm) session" where
  "text_channel_data p t s =
     (let ci = get_channel_info_ptr p s
      in if ci_valid ci
         then request_unless_blocked (push_event (\<lambda>n. item_event (TextItem t) n (ci_id ci)) s)
         else s)"

fun session_notice ::
    "('t, 'm) item channel \<Rightarrow> ptr \<Rightarrow> flow_status \<Rightarrow> ('t, 'm) session \<Rightarrow> ('t, 'm) session" where
  "session_notice c p CHANNEL_FLOW_OPEN s = channel_flow_open p s"
| "session_notice c p CHANNEL_FLOW_BLOCKED s = channel_flow_blocked c p s"
| "session_notice c p CHANNEL_FLOW_CLOSED s = channel_flow_closed c p s"
| "session_notice c p CHANNEL_DESTRUCTED s = channel_destructed c p s"

fun session_given :: "ptr \<Rightarrow> ('t, 'm) item \<Rightarrow> ('t, 'm) session \<Rightarrow> ('t, 'm) session" where
  "session_given p (TextItem t) s = text_channel_data p t s"
| "session_given p (MessageItem m) s = client_channel_data p m s"

text \<open>The callbacks of the session that a channel made while it went from \<open>c\<close> to \<open>c'\<close>.\<close>

definition callbacks ::
    "('t, 'm) item channel \<Rightarrow> ('t, 'm) item channel \<Rightarrow> ptr \<Rightarrow> ('t, 'm) session \<Rightarrow> ('t, 'm) session" where
  "callbacks c c' p s =
     fold (session_given p)
       (map snd (filter (\<lambda>g. fst g = this_ptr s) (drop (length (given c)) (given c'))))
       (fold (session_notice c' p)
         (map snd (filter (\<lambda>n. fst n = this_ptr s) (drop (length (notices c)) (notices c')))) s)"

definition chan_change ::
    "(('t, 'm) item channel \<Rightarrow> ('t, 'm) item channel) \<Rightarrow> ptr \<Rightarrow> ('t, 'm) world \<Rightarrow> ('t, 'm) world" where
  "chan_change f p w = (let c = chans w p; c' = f c
     in w\<lparr>chans := (chans w)(p := c'), ses := callbacks c c' p (ses w)\<rparr>)"

text \<open>The session uses a channel; that it is one already deleted is recorded.\<close>

definition use_chan :: "('t, 'm) item chan_op \<Rightarrow> ptr \<Rightarrow> ('t, 'm) world \<Rightarrow> ('t, 'm) world" where
  "use_chan x p w =
     (if chan_deleted (chans w p) then w\<lparr>freed_use := True\<rparr> else chan_change (chan_apply x) p w)"

text \<open>An item of the client is sent; the answer is whether the channel took it.\<close>

definition chan_sends ::
    "u32 \<Rightarrow> ('t, 'm) item \<Rightarrow> ptr \<Rightarrow> ('t, 'm) world \<Rightarrow> ('t, 'm) world \<times> bool" where
  "chan_sends cid i p w =
     (let success = snd (send_item i (chans w p)); w = use_chan (SendItem i) p w
      in (if success then w\<lparr>handed := handed w @ [(cid, i)]\<rparr> else w, success))"

subsection \<open>Connections\<close>

text \<open>\<open>client_disconnect\<close> and the router's \<open>release_connection\<close>.\<close>

definition drop_connection :: "('t, 'm) session \<Rightarrow> ('t, 'm) session" where
  "drop_connection s = (case client_ptr s of None \<Rightarrow> s
     | Some p \<Rightarrow> s\<lparr>disconnected := disconnected s @ [p], released := released s @ [p]\<rparr>)"

definition set_client_connection :: "connection option \<Rightarrow> ('t, 'm) session \<Rightarrow> ('t, 'm) session" where
  "set_client_connection conn s =
     (let s = (drop_connection s)\<lparr>client_ptr := map_option conn_ptr conn\<rparr>;
          s = (case conn of None \<Rightarrow> s
               | Some c \<Rightarrow> s\<lparr>client_window_size := conn_window_size c,
                   client_is_enhanced := conn_is_enhanced c,
                   ses_client_type := conn_client_type c, client_source := conn_source c\<rparr>)
      in request_service (s\<lparr>client_is_blocked := False, client_is_connected := True,
           need_disconnect := False, need_handle_reconnect := True,
           wait_reconnect_response := True, needs_incoming_ser_ack_sent := False\<rparr>))"

definition client_disconnected :: "('t, 'm) session \<Rightarrow> ('t, 'm) session" where
  "client_disconnected s = s\<lparr>client_is_connected := False\<rparr>"

definition request_disconnection :: "('t, 'm) session \<Rightarrow> ('t, 'm) session" where
  "request_disconnection s = request_service (s\<lparr>need_disconnect := True\<rparr>)"

definition set_activity_time_to_now :: "nat \<Rightarrow> ('t, 'm) session \<Rightarrow> ('t, 'm) session" where
  "set_activity_time_to_now now s = s\<lparr>last_activity_time := now\<rparr>"

definition client_unblocked :: "('t, 'm) session \<Rightarrow> ('t, 'm) session" where
  "client_unblocked s =
     (let s = s\<lparr>client_is_blocked := False\<rparr>
      in if outgoing_events s \<noteq> [] then request_service s else s)"

subsection \<open>Acknowledgements\<close>

definition client_data_acknowledge :: "u32 \<Rightarrow> ('t, 'm) session \<Rightarrow> ('t, 'm) session" where
  "client_data_acknowledge ser_id s =
     (if ser_id = 0 then request_service (s\<lparr>need_disconnect := True\<rparr>)
      else case dropWhile (\<lambda>e. event_serial_id e \<noteq> ser_id) (sent_events s) of
        [] \<Rightarrow> request_service (s\<lparr>need_disconnect := True\<rparr>)
      | e # rest \<Rightarrow>
          let s = s\<lparr>outgoing_ser_ack := ser_id, sent_events := rest\<rparr>
          in if outgoing_events s \<noteq> [] then request_service s else s)"

definition client_data_acknowledge_reconnect :: "u32 \<Rightarrow> ('t, 'm) session \<Rightarrow> ('t, 'm) session" where
  "client_data_acknowledge_reconnect ser_id s =
     (let s = (if \<not> wait_reconnect_response s then s\<lparr>need_disconnect := True\<rparr>
               else
                 let s = s\<lparr>wait_reconnect_response := False\<rparr>
                 in if ser_id = 0 then s\<lparr>outgoing_ser_ack := 0\<rparr>
                    else if ser_id \<noteq> outgoing_ser_ack s then client_data_acknowledge ser_id s
                    else s);
          s = (if \<not> need_disconnect s
               then s\<lparr>outgoing_events := sent_events s @ outgoing_events s, sent_events := []\<rparr>
               else s)
      in request_service s)"

subsection \<open>Sending to the client\<close>

definition process_send_return_code ::
    "send_return_code \<Rightarrow> ('t, 'm) session \<Rightarrow> ('t, 'm) session \<times> bool" where
  "process_send_return_code code s =
     (case code of
        SEND_OK \<Rightarrow> (s, True)
      | SEND_OK_BLOCKED \<Rightarrow> (s\<lparr>client_is_blocked := True\<rparr>, True)
      | SEND_BLOCKED \<Rightarrow> (s\<lparr>client_is_blocked := True\<rparr>, False)
      | SEND_DISCONNECTED \<Rightarrow> (s\<lparr>client_is_blocked := True, client_is_connected := False\<rparr>, False)
      | SEND_NOT_SUPPORTED \<Rightarrow>
          (request_service (s\<lparr>client_is_blocked := True, need_disconnect := True\<rparr>), False))"

definition client_send :: "('t, 'm) client_call \<Rightarrow> (nat \<Rightarrow> send_return_code)
    \<Rightarrow> ('t, 'm) session \<Rightarrow> ('t, 'm) session \<times> send_return_code" where
  "client_send call reply s =
     (let code = reply (length (client_calls s))
      in (s\<lparr>client_calls := client_calls s @ [(call, code)]\<rparr>, code))"

text \<open>The virtual function that sends an event; none for an event of unknown type.\<close>

fun event_call :: "('t, 'm) router_event \<Rightarrow> ('t, 'm) client_call option" where
  "event_call e = (case event_data e of
     EVENT_CHANNEL_STATUS_DATA c \<Rightarrow> Some (ChannelStatusChanged (event_serial_id e) c)
   | EVENT_TEXT_DATA t \<Rightarrow> Some (SendText (event_channel_id e) (event_serial_id e) t)
   | EVENT_ENHANCED_DATA m \<Rightarrow> Some (SendMessage (event_channel_id e) (event_serial_id e) m)
   | EVENT_INVALID_END \<Rightarrow> None)"

definition send_event :: "(nat \<Rightarrow> send_return_code) \<Rightarrow> ('t, 'm) router_event
    \<Rightarrow> ('t, 'm) session \<Rightarrow> ('t, 'm) session \<times> bool" where
  "send_event reply e s =
     (case event_call e of
        None \<Rightarrow> (request_service (s\<lparr>need_disconnect := True\<rparr>), False)
      | Some call \<Rightarrow> case client_send call reply s of (s, code) \<Rightarrow> process_send_return_code code s)"

definition can_send :: "('t, 'm) session \<Rightarrow> bool" where
  "can_send s \<longleftrightarrow> \<not> client_is_blocked s \<and> outgoing_events s \<noteq> []
     \<and> length (sent_events s) < unat (client_window_size s)"

declare event_call.simps [simp del]

text \<open>The loop ends when the client blocks, the window is full or nothing is left; \<open>None\<close> if
  never.\<close>

partial_function (option) send_outgoing ::
    "(nat \<Rightarrow> send_return_code) \<Rightarrow> ('t, 'm) session \<Rightarrow> ('t, 'm) session option" where
  "send_outgoing reply s =
     (if can_send s then
        case send_event reply (hd (outgoing_events s)) s of (s, sent_success) \<Rightarrow>
          send_outgoing reply
            (if sent_success
             then s\<lparr>sent_events := sent_events s @ [hd (outgoing_events s)],
                    outgoing_events := tl (outgoing_events s)\<rparr>
             else s)
      else Some s)"

definition send_acknowledge :: "(nat \<Rightarrow> send_return_code) \<Rightarrow> ('t, 'm) session \<Rightarrow> ('t, 'm) session" where
  "send_acknowledge reply s =
     (if needs_incoming_ser_ack_sent s
      then case client_send (AcknowledgeData (incoming_ser_ack s)) reply s of (s, code) \<Rightarrow>
        fst (process_send_return_code code (s\<lparr>needs_incoming_ser_ack_sent := False\<rparr>))
      else s)"

definition process_client ::
    "(nat \<Rightarrow> send_return_code) \<Rightarrow> ('t, 'm) session \<Rightarrow> ('t, 'm) session option" where
  "process_client reply s =
     (if need_handle_reconnect s
      then case client_send (AcknowledgeDataReconnect (incoming_ser_ack s)) reply s of (s, code) \<Rightarrow>
        Some (s\<lparr>needs_incoming_ser_ack_sent := False, need_handle_reconnect := False,
                wait_reconnect_response := True\<rparr>)
      else if \<not> wait_reconnect_response s \<and> \<not> client_is_blocked s
      then send_outgoing reply (send_acknowledge reply s)
      else Some s)"

subsection \<open>Channels that were unblocked\<close>

definition take_unblocked :: "('t, 'm) session \<Rightarrow> ('t, 'm) session \<times> u32 list" where
  "take_unblocked s = (s\<lparr>pending_channels_unblock := []\<rparr>, pending_channels_unblock s)"

text \<open>What an event from the client has for a channel.\<close>

fun event_item :: "('t, 'm) router_event \<Rightarrow> ('t, 'm) item option" where
  "event_item e = (case event_data e of
     EVENT_TEXT_DATA t \<Rightarrow> Some (TextItem t)
   | EVENT_ENHANCED_DATA m \<Rightarrow> Some (MessageItem m)
   | _ \<Rightarrow> None)"

text \<open>
  A queue is sent until a send fails. The result has what is left of it, and the channel's
  number for each time the code notes it as invalid.
\<close>

fun drain_queue :: "u32 \<Rightarrow> ptr \<Rightarrow> ('t, 'm) router_event list \<Rightarrow> ('t, 'm) world
    \<Rightarrow> ('t, 'm) world \<times> ('t, 'm) router_event list \<times> u32 list" where
  "drain_queue cid p [] w = (w, [], [])"
| "drain_queue cid p (e # queue) w =
     (let stuck = (\<lambda>w. if channel_is_blocked (chans w p) \<or> channel_is_closed (chans w p)
                       then [] else [cid])
      in case event_item e of
           None \<Rightarrow> (w, e # queue, cid # stuck w)
         | Some i \<Rightarrow> case chan_sends cid i p w of (w, send_success) \<Rightarrow>
             if send_success then drain_queue cid p queue w else (w, e # queue, stuck w))"

definition unblock_channel_queue :: "u32 \<Rightarrow> ptr \<Rightarrow> ('t, 'm) world \<Rightarrow> ('t, 'm) world \<times> u32 list" where
  "unblock_channel_queue cid p w =
     (if channel_is_closed (chans w p) then (w, [])
      else case get_blocked_queue cid (ses w) of (s, queue) \<Rightarrow>
        case drain_queue cid p queue (w\<lparr>ses := s\<rparr>) of (w, queue, invalid) \<Rightarrow>
          let w = on_session (set_blocked_queue cid queue) w;
              blocked = channel_is_blocked (chans w p)
          in if queue = [] then
               let w = on_session (set_blocked_id cid blocked) w
               in if \<not> blocked
                  then (on_session (push_status (chans w p) (get_channel_info cid (ses w))
                          CHANNEL_STATUS_unblock) w, invalid)
                  else (w, invalid)
             else (w, invalid))"

definition process_unblocked :: "u32 \<Rightarrow> ('t, 'm) world \<Rightarrow> ('t, 'm) world \<times> u32 list" where
  "process_unblocked cid w =
     (case ci_channel (get_channel_info cid (ses w)) of
        None \<Rightarrow> (w, [cid])
      | Some p \<Rightarrow>
          let r = unblock_channel_queue cid p (use_chan LockChannel p w)
          in (use_chan UnlockChannel p (fst r), snd r))"

fun process_each_unblocked :: "u32 list \<Rightarrow> ('t, 'm) world \<Rightarrow> ('t, 'm) world \<times> u32 list" where
  "process_each_unblocked [] w = (w, [])"
| "process_each_unblocked (cid # cids) w =
     (case process_unblocked cid w of (w, invalid) \<Rightarrow>
        map_prod id ((@) invalid) (process_each_unblocked cids w))"

definition remove_invalid_queues :: "u32 list \<Rightarrow> ('t, 'm) session \<Rightarrow> ('t, 'm) session" where
  "remove_invalid_queues invalid s = fold remove_blocked_queue invalid s"

definition process_pending_unblocked_channels :: "('t, 'm) world \<Rightarrow> ('t, 'm) world" where
  "process_pending_unblocked_channels w =
     (case take_unblocked (ses w) of (s, cids) \<Rightarrow>
        case process_each_unblocked cids (w\<lparr>ses := s\<rparr>) of (w, invalid) \<Rightarrow>
          on_session (remove_invalid_queues invalid) w)"

subsection \<open>Removing channels\<close>

fun swap_out :: "(channel_info \<Rightarrow> bool) \<Rightarrow> channel_info list \<Rightarrow> channel_info list" where
  "swap_out P [] = []"
| "swap_out P (ci # cis) =
     (if P ci then
        (if ci_channel (last (ci # cis)) = ci_channel ci then cis
         else last (ci # cis) # butlast cis)
      else ci # swap_out P cis)"

definition delete_channel :: "u32 \<Rightarrow> ('t, 'm) session \<Rightarrow> ('t, 'm) session \<times> channel_info" where
  "delete_channel cid s =
     (if cid = 0 then (s, invalid_channel_info)
      else
        let s = fst (remove_pending_unblocked_channel cid s)
        in case find (\<lambda>ci. ci_id ci = cid) (active_channels s) of
             None \<Rightarrow> (s, invalid_channel_info)
           | Some ci \<Rightarrow>
               let s = remove_blocked_queue cid s
               in (s\<lparr>active_channels := swap_out (\<lambda>ci. ci_id ci = cid) (active_channels s)\<rparr>, ci))"

fun delete_each :: "u32 list \<Rightarrow> ('t, 'm) session \<Rightarrow> ('t, 'm) session \<times> channel_info list" where
  "delete_each [] s = (s, [])"
| "delete_each (cid # cids) s =
     (case delete_channel cid s of (s, ci) \<Rightarrow>
        map_prod id (\<lambda>cis. if ci_valid ci then ci # cis else cis) (delete_each cids s))"

definition take_deletes :: "('t, 'm) session \<Rightarrow> ('t, 'm) session \<times> channel_info list" where
  "take_deletes s = map_prod (pending_channels_delete_update (\<lambda>_. [])) id
     (delete_each (pending_channels_delete s) s)"

definition unregister_channel :: "channel_info \<Rightarrow> ('t, 'm) world \<Rightarrow> ('t, 'm) world" where
  "unregister_channel ci w =
     (case ci_channel ci of None \<Rightarrow> w
      | Some p \<Rightarrow>
          let this = Some (this_ptr (ses w));
              w = use_chan (Unlisten this) p w;
              w = use_chan CloseChannel p w;
              w = (if ci_out ci then use_chan (Unreceive this) p w else w)
          in use_chan (Unhold this) p w)"

definition process_pending_channel_deletes :: "('t, 'm) world \<Rightarrow> ('t, 'm) world" where
  "process_pending_channel_deletes w =
     (case take_deletes (ses w) of (s, cis) \<Rightarrow> fold unregister_channel cis (w\<lparr>ses := s\<rparr>))"

subsection \<open>Servicing a session\<close>

text \<open>The first phase: the answer is whether there is work to do and whether to delete
  channels first.\<close>

definition begin_processing :: "('t, 'm) session \<Rightarrow> ('t, 'm) session \<times> bool \<times> bool" where
  "begin_processing s =
     (let s = s\<lparr>has_requested_service := False\<rparr>
      in if need_disconnect s
         then (s\<lparr>disconnected := disconnected s @ [the (client_ptr s)],
                 client_is_connected := False\<rparr>, False, False)
         else (s, True, pending_channels_delete s \<noteq> []))"

definition process_pending ::
    "(nat \<Rightarrow> send_return_code) \<Rightarrow> ('t, 'm) world \<Rightarrow> ('t, 'm) world option" where
  "process_pending reply w =
     (case begin_processing (ses w) of (s, do_work, process_channel_close) \<Rightarrow>
        let w = w\<lparr>ses := s\<rparr>
        in if do_work then
             let w = (if process_channel_close then process_pending_channel_deletes w else w);
                 w = process_pending_unblocked_channels w
             in map_option (\<lambda>s. w\<lparr>ses := s\<rparr>) (process_client reply (ses w))
           else Some w)"

end
