(* ===== verification/SessionRun.thy ===== *)
theory SessionRun
  imports Session
begin

text \<open>
  The rest of \<open>comm::ClientSession\<close>: data from the client, new channels, the destructor, and
  the steps of a session: the methods others call, what others do to the channels, and the
  phases of \<open>process_pending\<close> in the router's thread.
\<close>

subsection \<open>Data from the client\<close>

text \<open>
  The two methods \<open>client_data\<close>, for texts and for client messages. They differ in the class of
  channel they expect, and in that only the first asks for service when a client overruns the
  window of a blocked channel.
\<close>

fun overrun_requests_service :: "('t, 'm) item \<Rightarrow> bool" where
  "overrun_requests_service (TextItem t) = True"
| "overrun_requests_service (MessageItem m) = False"

definition queue_blocked_item ::
    "u32 \<Rightarrow> u32 \<Rightarrow> ('t, 'm) item \<Rightarrow> ('t, 'm) session \<Rightarrow> ('t, 'm) session" where
  "queue_blocked_item cid ser_id i s =
     (case get_blocked_queue cid s of (s, queue) \<Rightarrow>
        let queue = queue @ [item_event i ser_id 0];
            s = set_blocked_queue cid queue s
        in if length queue + 1 > unat (client_window_size s)
           then let s = s\<lparr>need_disconnect := True\<rparr>
                in if overrun_requests_service i then request_service s else s
           else s)"

definition note_client_data :: "nat \<Rightarrow> u32 \<Rightarrow> ('t, 'm) session \<Rightarrow> ('t, 'm) session" where
  "note_client_data now ser_id s = request_unless_blocked
     (s\<lparr>last_activity_time := now, incoming_ser_ack := ser_id,
        needs_incoming_ser_ack_sent := True\<rparr>)"

definition note_arrival :: "u32 \<Rightarrow> ('t, 'm) item \<Rightarrow> ('t, 'm) world \<Rightarrow> ('t, 'm) world" where
  "note_arrival cid i w = w\<lparr>arrived := arrived w @ [(cid, i)]\<rparr>"

definition send_client_item ::
    "u32 \<Rightarrow> u32 \<Rightarrow> ptr \<Rightarrow> ('t, 'm) item \<Rightarrow> ('t, 'm) world \<Rightarrow> ('t, 'm) world" where
  "send_client_item cid ser_id p i w =
     (if channel_type (chans w p) \<noteq> item_type i
      then on_session (\<lambda>s. request_service (s\<lparr>need_disconnect := True\<rparr>)) w
      else case chan_sends cid i p w of (w, success) \<Rightarrow>
        if success then note_arrival cid i w
        else if channel_is_closed (chans w p) then w
        else if channel_is_blocked (chans w p)
        then note_arrival cid i
               (on_session (\<lambda>s. queue_blocked_item cid ser_id i (set_blocked_id cid True s)) w)
        else w)"

definition client_data_item ::
    "nat \<Rightarrow> u32 \<Rightarrow> u32 \<Rightarrow> ('t, 'm) item option \<Rightarrow> ('t, 'm) world \<Rightarrow> ('t, 'm) world" where
  "client_data_item now cid ser_id item w =
     (let ci = get_channel_info cid (ses w)
      in case (item, ci_channel ci) of
           (Some i, Some p) \<Rightarrow>
             if ci_out ci then on_session (\<lambda>s. request_service (s\<lparr>need_disconnect := True\<rparr>)) w
             else
               let w = on_session (note_client_data now ser_id) (use_chan LockChannel p w);
                   w = (if ci_blocked ci
                        then note_arrival cid i (on_session (queue_blocked_item cid ser_id i) w)
                        else if ci_closed ci then w
                        else send_client_item cid ser_id p i w)
               in use_chan UnlockChannel p w
         | _ \<Rightarrow> w)"

definition client_data_text ::
    "nat \<Rightarrow> u32 \<Rightarrow> u32 \<Rightarrow> 't option \<Rightarrow> ('t, 'm) world \<Rightarrow> ('t, 'm) world" where
  "client_data_text now cid ser_id text_line =
     client_data_item now cid ser_id (map_option TextItem text_line)"

definition client_data_message ::
    "nat \<Rightarrow> u32 \<Rightarrow> u32 \<Rightarrow> 'm option \<Rightarrow> ('t, 'm) world \<Rightarrow> ('t, 'm) world" where
  "client_data_message now cid ser_id client_message =
     client_data_item now cid ser_id (map_option MessageItem client_message)"

definition client_request_channel_close :: "u32 \<Rightarrow> ('t, 'm) world \<Rightarrow> ('t, 'm) world" where
  "client_request_channel_close cid w =
     (case ci_channel (get_channel_info cid (ses w)) of
        None \<Rightarrow> w
      | Some p \<Rightarrow> use_chan CloseChannel p w)"

subsection \<open>New channels\<close>

text \<open>The entry of the new channel and the two events about it; the answer is its number, 0 when
  there is none left.\<close>

definition announce_channel ::
    "u32 \<Rightarrow> ptr \<Rightarrow> bool \<Rightarrow> ('t, 'm) world \<Rightarrow> ('t, 'm) world" where
  "announce_channel cid p to_client w =
     (let c = chans w p;
          ci = channel_info_new cid p to_client;
          blocked = (\<not> to_client \<and> channel_is_blocked c);
          s = push_status c ci CHANNEL_STATUS_open
                (active_channels_update (\<lambda>cis. cis @ [ci\<lparr>ci_blocked := blocked\<rparr>]) (ses w))
      in w\<lparr>ses := push_status c ci
             (if blocked then CHANNEL_STATUS_block else CHANNEL_STATUS_unblock)
             (request_unless_blocked s),
           arrived := filter (\<lambda>a. fst a \<noteq> cid) (arrived w),
           handed := filter (\<lambda>a. fst a \<noteq> cid) (handed w)\<rparr>)"

definition register_session :: "ptr \<Rightarrow> bool \<Rightarrow> ('t, 'm) world \<Rightarrow> ('t, 'm) world" where
  "register_session p to_client w =
     (let this = Some (this_ptr (ses w));
          w = use_chan (Hold this) p w;
          w = use_chan (Listen this) p w
      in if to_client then use_chan (Receive this) p w else w)"

definition channel_added ::
    "ptr option \<Rightarrow> bool \<Rightarrow> ('t, 'm) world \<Rightarrow> (('t, 'm) world \<times> u32) option" where
  "channel_added channel to_client w =
     (case channel of
        None \<Rightarrow> Some (w, 0)
      | Some p \<Rightarrow>
          let w = use_chan LockChannel p w
          in case get_next_channel_id (ses w) of
               None \<Rightarrow> None
             | Some (s, cid) \<Rightarrow>
                 Some (use_chan UnlockChannel p (register_session p to_client
                   (announce_channel cid p to_client (w\<lparr>ses := s\<rparr>))), cid))"

definition get_current_channel_info ::
    "('t, 'm) world \<Rightarrow> (u32 \<times> string \<times> channel_type \<times> string \<times> db_id \<times> bool \<times> bool) list" where
  "get_current_channel_info w =
     map (\<lambda>ci. let c = chans w (the (ci_channel ci)) in
            (ci_id ci, channel_name c, channel_type c, channel_subtype c, channel_entity_id c,
             ci_out ci, ci_blocked ci))
         (filter ci_valid (active_channels (ses w)))"

record session_stats =
  stats_entity_id :: db_id
  stats_connected :: bool
  stats_connection_time :: nat
  stats_last_activity_time :: nat
  stats_is_enhanced :: bool
  stats_source :: string
  stats_client_type :: client_type

definition get_stats :: "('t, 'm) session \<Rightarrow> session_stats" where
  "get_stats s = \<lparr>stats_entity_id = client_entity_id s, stats_connected = client_is_connected s,
     stats_connection_time = session_established_time s,
     stats_last_activity_time = last_activity_time s, stats_is_enhanced = client_is_enhanced s,
     stats_source = client_source s, stats_client_type = ses_client_type s\<rparr>"

definition session_delete :: "('t, 'm) world \<Rightarrow> ('t, 'm) world" where
  "session_delete w =
     (let cis = active_channels (ses w);
          w = on_session (\<lambda>s. s\<lparr>active_channels := [], blocked_channel_queues := []\<rparr>) w;
          w = fold unregister_channel cis w
      in on_session (\<lambda>s. (drop_connection s)\<lparr>client_ptr := None, client_is_connected := False\<rparr>) w)"

subsection \<open>Steps\<close>

text \<open>What others do: the router on behalf of the client, and anybody to the channels.\<close>

datatype ('t, 'm) session_op =
    Reconnect "connection option" | ClientDisconnected | RequestDisconnection
  | SetActivity nat | DataAcknowledge u32 | DataAcknowledgeReconnect u32 | ClientUnblocked
  | ClientData nat u32 u32 "('t, 'm) item option" | RequestChannelClose u32
  | ChannelAdded "ptr option" bool | OtherChannel ptr "('t, 'm) item chan_op"

fun session_do :: "('t, 'm) session_op \<Rightarrow> ('t, 'm) world \<Rightarrow> ('t, 'm) world option" where
  "session_do (Reconnect c) w = Some (on_session (set_client_connection c) w)"
| "session_do ClientDisconnected w = Some (on_session client_disconnected w)"
| "session_do RequestDisconnection w = Some (on_session request_disconnection w)"
| "session_do (SetActivity now) w = Some (on_session (set_activity_time_to_now now) w)"
| "session_do (DataAcknowledge n) w = Some (on_session (client_data_acknowledge n) w)"
| "session_do (DataAcknowledgeReconnect n) w =
     Some (on_session (client_data_acknowledge_reconnect n) w)"
| "session_do ClientUnblocked w = Some (on_session client_unblocked w)"
| "session_do (ClientData now cid ser_id i) w = Some (client_data_item now cid ser_id i w)"
| "session_do (RequestChannelClose cid) w = Some (client_request_channel_close cid w)"
| "session_do (ChannelAdded p to_client) w = map_option fst (channel_added p to_client w)"
| "session_do (OtherChannel p x) w = Some (chan_change (chan_step x) p w)"

text \<open>The router's thread inside of \<open>process_pending\<close>; \<open>Idle\<close> outside of it.\<close>

datatype phase =
    Idle | Deleting | Unregistering "channel_info list" | Unblocking0
  | Unblocking "u32 list" "u32 list" | Serving

text \<open>
  What others may not do: register, unregister or hold a channel in the session's name, and hand
  it a channel already deleted. The router adds channels under the lock it holds while it
  services a session. Numbers for channels are assumed not to run out.
\<close>

definition op_allowed :: "phase \<Rightarrow> ('t, 'm) session_op \<Rightarrow> ('t, 'm) world \<Rightarrow> bool" where
  "op_allowed ph x w =
     (let this = Some (this_ptr (ses w)) in case x of
        OtherChannel p y \<Rightarrow>
          y \<notin> {Listen this, Unlisten this, Hold this, Unhold this, Receive this, Unreceive this}
      | ChannelAdded (Some p) to_client \<Rightarrow> ph = Idle \<and> \<not> chan_deleted (chans w p)
          \<and> length (active_channels (ses w)) + 1 < unat MAX_CHANNELS
      | _ \<Rightarrow> True)"

fun router_step :: "(nat \<Rightarrow> send_return_code) \<Rightarrow> phase \<times> ('t, 'm) world
    \<Rightarrow> (phase \<times> ('t, 'm) world) option" where
  "router_step reply (Idle, w) =
     (case begin_processing (ses w) of (s, do_work, process_channel_close) \<Rightarrow>
        Some (if \<not> do_work then Idle else if process_channel_close then Deleting else Unblocking0,
              w\<lparr>ses := s\<rparr>))"
| "router_step reply (Deleting, w) =
     (case take_deletes (ses w) of (s, cis) \<Rightarrow> Some (Unregistering cis, w\<lparr>ses := s\<rparr>))"
| "router_step reply (Unregistering [], w) = Some (Unblocking0, w)"
| "router_step reply (Unregistering (ci # cis), w) =
     Some (Unregistering cis, unregister_channel ci w)"
| "router_step reply (Unblocking0, w) =
     (case take_unblocked (ses w) of (s, cids) \<Rightarrow> Some (Unblocking cids [], w\<lparr>ses := s\<rparr>))"
| "router_step reply (Unblocking [] invalid, w) =
     Some (Serving, on_session (remove_invalid_queues invalid) w)"
| "router_step reply (Unblocking (cid # cids) invalid, w) =
     (case process_unblocked cid w of (w, invalid') \<Rightarrow> Some (Unblocking cids (invalid @ invalid'), w))"
| "router_step reply (Serving, w) =
     map_option (\<lambda>s. (Idle, w\<lparr>ses := s\<rparr>)) (process_client reply (ses w))"

inductive session_step :: "phase \<times> ('t, 'm) world \<Rightarrow> phase \<times> ('t, 'm) world \<Rightarrow> bool" where
  others: "op_allowed ph x w \<Longrightarrow> session_do x w = Some w' \<Longrightarrow> session_step (ph, w) (ph, w')"
| router: "router_step reply (ph, w) = Some (ph', w') \<Longrightarrow> session_step (ph, w) (ph', w')"

inductive_cases session_stepE: "session_step (ph, w) (ph', w')"

text \<open>A session starts with channels that know nothing of it.\<close>

definition session_start :: "('t, 'm) world \<Rightarrow> bool" where
  "session_start w \<longleftrightarrow> (\<exists>sid this c now. ses w = session_new sid this c now) \<and> \<not> freed_use w
     \<and> arrived w = [] \<and> handed w = []
     \<and> (\<forall>p. chan_ok (chans w p) \<and> this_ptr (ses w) \<notin> set (channel_control_listeners (chans w p))
          \<and> this_ptr (ses w) \<notin> set (pointer_holders (chans w p))
          \<and> recv_callback_ptr (chans w p) \<noteq> Some (this_ptr (ses w)))"

inductive reachable_session :: "phase \<times> ('t, 'm) world \<Rightarrow> bool" where
  start: "session_start w \<Longrightarrow> reachable_session (Idle, w)"
| step: "reachable_session x \<Longrightarrow> session_step x y \<Longrightarrow> reachable_session y"

end
