(* ===== verification/SessionInv.thy ===== *)
theory SessionInv
  imports SessionRun
begin

text \<open>
  What holds in every reachable state of a session. The events towards the client carry
  successive numbers; output that could be sent never waits without the router knowing; the
  window is kept; what the client sends is handed on in order; no channel is used after its
  deletion.
\<close>

subsection \<open>Numbered events\<close>

fun numbered :: "u32 \<Rightarrow> ('t, 'm) router_event list \<Rightarrow> u32 \<Rightarrow> bool" where
  "numbered n [] m \<longleftrightarrow> m = n"
| "numbered n (e # es) m \<longleftrightarrow>
     event_serial_id e = next_message_id n \<and> numbered (next_message_id n) es m"

lemma numbered_append:
  "numbered n (xs @ ys) m \<longleftrightarrow> (\<exists>k. numbered n xs k \<and> numbered k ys m)"
  by (induction xs arbitrary: n) auto

lemma next_message_id_nonzero [simp]: "next_message_id n \<noteq> 0"
proof (cases "n + 1 = 0")
  case True
  then show ?thesis by (simp add: next_message_id_def)
qed (simp add: next_message_id_def)

lemma numbered_nonzero: "numbered n es m \<Longrightarrow> e \<in> set es \<Longrightarrow> event_serial_id e \<noteq> 0"
  by (induction es arbitrary: n) auto

subsection \<open>What callbacks leave alone\<close>

text \<open>
  From \<open>s\<close> to \<open>t\<close> events were added at the end of the queue and channels became blocked;
  everything else about the queues is as it was.
\<close>

definition same_channel :: "channel_info \<Rightarrow> channel_info \<Rightarrow> bool" where
  "same_channel ci cj \<longleftrightarrow> ci_id cj = ci_id ci \<and> ci_channel cj = ci_channel ci
     \<and> ci_out cj = ci_out ci \<and> (ci_blocked ci \<longrightarrow> ci_blocked cj)"

definition appends :: "('t, 'm) session \<Rightarrow> ('t, 'm) session \<Rightarrow> bool" where
  "appends s t \<longleftrightarrow> (\<exists>es. outgoing_events t = outgoing_events s @ es
     \<and> numbered (last_used_message_ser_id s) es (last_used_message_ser_id t)
     \<and> (\<forall>e \<in> set es. event_call e \<noteq> None))"

text \<open>The requests for service that were answered; each one still open is on record.\<close>

definition served :: "('t, 'm) session \<Rightarrow> int" where
  "served s = int (service_requests s) - (if has_requested_service s then 1 else 0)"

text \<open>The connection of a session, the connections it gave back, and whose session it is.\<close>

definition owner :: "('t, 'm) session \<Rightarrow> ptr option \<times> ptr list \<times> db_id \<times> ptr" where
  "owner s = (client_ptr s, released s, client_entity_id s, this_ptr s)"

definition output_ext :: "('t, 'm) session \<Rightarrow> ('t, 'm) session \<Rightarrow> bool" where
  "output_ext s t \<longleftrightarrow> appends s t
     \<and> (has_requested_service s \<longrightarrow> has_requested_service t) \<and> served t = served s \<and> owner t = owner s
     \<and> sent_events t = sent_events s
     \<and> wait_reconnect_response t = wait_reconnect_response s
     \<and> (need_disconnect s \<longrightarrow> need_disconnect t)
     \<and> client_window_size t = client_window_size s
     \<and> client_is_blocked t = client_is_blocked s"

definition extends :: "('t, 'm) session \<Rightarrow> ('t, 'm) session \<Rightarrow> bool" where
  "extends s t \<longleftrightarrow> output_ext s t
     \<and> blocked_channel_queues t = blocked_channel_queues s
     \<and> this_ptr t = this_ptr s
     \<and> list_all2 same_channel (active_channels s) (active_channels t)"

text \<open>New output is not forgotten: the router knows, unless the client is blocked.\<close>

definition heeds :: "('t, 'm) session \<Rightarrow> ('t, 'm) session \<Rightarrow> bool" where
  "heeds s t \<longleftrightarrow> outgoing_events t = outgoing_events s \<or> client_is_blocked t
     \<or> has_requested_service t"

lemma served_request [simp]: "served (request_service s) = served s"
  by (simp add: served_def request_service_def)

lemma served_update [simp]:
  "served (client_is_blocked_update f1 s) = served s"
  "served (client_is_connected_update f2 s) = served s"
  "served (need_disconnect_update f3 s) = served s" "served (client_calls_update f4 s) = served s"
  "served (needs_incoming_ser_ack_sent_update f5 s) = served s"
  "served (need_handle_reconnect_update f6 s) = served s"
  "served (wait_reconnect_response_update f7 s) = served s"
  "served (sent_events_update f8 s) = served s" "served (outgoing_events_update f9 s) = served s"
  "served (outgoing_ser_ack_update f10 s) = served s"
  "served (incoming_ser_ack_update f11 s) = served s" "served (client_ptr_update f12 s) = served s"
  "served (released_update f13 s) = served s" "served (disconnected_update f14 s) = served s"
  "served (client_window_size_update f15 s) = served s"
  "served (client_is_enhanced_update f16 s) = served s"
  "served (ses_client_type_update f17 s) = served s" "served (client_source_update f18 s) = served s"
  "served (blocked_channel_queues_update f20 s) = served s" "served (last_activity_time_update f19 s) = served s"
  by (simp_all add: served_def)

lemma owner_request [simp]: "owner (request_service s) = owner s"
  by (simp add: owner_def request_service_def)

lemma owner_update [simp]:
  "owner (client_is_blocked_update f1 s) = owner s"
  "owner (client_is_connected_update f2 s) = owner s"
  "owner (need_disconnect_update f3 s) = owner s" "owner (client_calls_update f4 s) = owner s"
  "owner (needs_incoming_ser_ack_sent_update f5 s) = owner s"
  "owner (need_handle_reconnect_update f6 s) = owner s"
  "owner (wait_reconnect_response_update f7 s) = owner s"
  "owner (sent_events_update f8 s) = owner s" "owner (outgoing_events_update f9 s) = owner s"
  "owner (outgoing_ser_ack_update f10 s) = owner s"
  "owner (incoming_ser_ack_update f11 s) = owner s" 
  "owner (disconnected_update f14 s) = owner s"
  "owner (client_window_size_update f15 s) = owner s"
  "owner (client_is_enhanced_update f16 s) = owner s"
  "owner (ses_client_type_update f17 s) = owner s" "owner (client_source_update f18 s) = owner s"
  "owner (blocked_channel_queues_update f20 s) = owner s" "owner (last_activity_time_update f19 s) = owner s"
  by (simp_all add: owner_def)

lemma same_channel_refl [simp]: "same_channel ci ci"
  by (simp add: same_channel_def)

lemma same_channels_refl [simp]: "list_all2 same_channel cis cis"
  by (simp add: list_all2_refl)

lemma same_channels_trans:
  "list_all2 same_channel xs ys \<Longrightarrow> list_all2 same_channel ys zs \<Longrightarrow> list_all2 same_channel xs zs"
  by (rule list_all2_trans) (auto simp: same_channel_def)

lemma appends_refl: "outgoing_events t = outgoing_events s
    \<Longrightarrow> last_used_message_ser_id t = last_used_message_ser_id s \<Longrightarrow> appends s t"
  by (simp add: appends_def)

lemma appends_trans:
  assumes "appends s t" and "appends t u"
  shows "appends s u"
proof -
  obtain es where es: "outgoing_events t = outgoing_events s @ es"
    "numbered (last_used_message_ser_id s) es (last_used_message_ser_id t)"
    "\<forall>e \<in> set es. event_call e \<noteq> None" using assms(1) unfolding appends_def by blast
  obtain fs where fs: "outgoing_events u = outgoing_events t @ fs"
    "numbered (last_used_message_ser_id t) fs (last_used_message_ser_id u)"
    "\<forall>e \<in> set fs. event_call e \<noteq> None" using assms(2) unfolding appends_def by blast
  from es fs have "outgoing_events u = outgoing_events s @ (es @ fs)
    \<and> numbered (last_used_message_ser_id s) (es @ fs) (last_used_message_ser_id u)
    \<and> (\<forall>e \<in> set (es @ fs). event_call e \<noteq> None)" by (auto simp: numbered_append)
  then show ?thesis unfolding appends_def by blast
qed

lemma output_ext_refl [simp]: "output_ext s s"
  by (simp add: output_ext_def appends_refl served_def owner_def)

lemma output_ext_trans: "output_ext s t \<Longrightarrow> output_ext t u \<Longrightarrow> output_ext s u"
  unfolding output_ext_def by (auto intro: appends_trans)

lemma extends_refl [simp]: "extends s s"
  by (simp add: extends_def)

lemma extends_trans: "extends s t \<Longrightarrow> extends t u \<Longrightarrow> extends s u"
  unfolding extends_def by (auto intro: output_ext_trans same_channels_trans)

lemma heeds_refl [simp]: "heeds s s"
  by (simp add: heeds_def)

lemma heeds_trans: "output_ext t u \<Longrightarrow> heeds s t \<Longrightarrow> heeds t u \<Longrightarrow> heeds s u"
  unfolding output_ext_def heeds_def by auto

lemma heeds_request: "extends s t \<Longrightarrow> heeds s (request_unless_blocked t)"
  by (simp add: heeds_def request_unless_blocked_def request_service_def)

lemma list_all2_update_first:
  "(\<And>x. R x x) \<Longrightarrow> (\<And>x. P x \<Longrightarrow> R x (f x)) \<Longrightarrow> list_all2 R xs (update_first P f xs)"
  by (induction xs) (simp_all add: list_all2_refl)

lemma appends_push:
  assumes "\<And>n. event_serial_id (e n) = n" and "\<And>n. event_call (e n) \<noteq> None"
  shows "appends s (push_event e s)"
  using assms by (simp add: appends_def push_event_def get_next_message_id_def Let_def)

lemma event_call_item [simp]: "event_call (item_event i n c) \<noteq> None"
  "event_serial_id (item_event i n c) = n"
  by (cases i; simp add: event_call.simps)+

lemma event_call_status [simp]: "event_call (status_event c n) \<noteq> None"
  "event_serial_id (status_event c n) = n"
  by (simp_all add: status_event_def event_call.simps)

lemma push_event_other [simp]:
  "has_requested_service (push_event e s) = has_requested_service s"
  "sent_events (push_event e s) = sent_events s"
  "wait_reconnect_response (push_event e s) = wait_reconnect_response s"
  "need_disconnect (push_event e s) = need_disconnect s"
  "client_window_size (push_event e s) = client_window_size s"
  "client_is_blocked (push_event e s) = client_is_blocked s"
  "blocked_channel_queues (push_event e s) = blocked_channel_queues s"
  "this_ptr (push_event e s) = this_ptr s" "active_channels (push_event e s) = active_channels s"
  "service_requests (push_event e s) = service_requests s" "owner (push_event e s) = owner s"
  by (simp_all add: push_event_def get_next_message_id_def Let_def owner_def)

lemma extends_push_item: "extends s (push_event (\<lambda>n. item_event i n cid) s)"
  by (simp add: extends_def output_ext_def appends_push served_def)

lemma extends_push_status: "extends s (push_status c ci st s)"
  by (simp add: extends_def output_ext_def push_status_def appends_push served_def)

lemma extends_request: "extends s (request_service s)"
  by (simp add: extends_def output_ext_def appends_refl served_def owner_def request_service_def)

lemma extends_set_flags:
  "extends s (set_blocked_ptr p True s)" "extends s (set_blocked_id cid True s)"
  "extends s (set_closed_ptr p s)"
  by (simp_all add: extends_def output_ext_def appends_refl served_def owner_def set_blocked_ptr_def set_blocked_id_def
      set_closed_ptr_def list_all2_update_first same_channel_def)

lemma extends_pending:
  "extends s (fst (add_pending_unblocked_channel cid s))"
  "extends s (fst (remove_pending_unblocked_channel cid s))"
  "extends s (pending_channels_delete_update f s)" "extends s (pending_channels_unblock_update g s)"
  by (simp_all add: extends_def output_ext_def appends_refl served_def owner_def add_pending_unblocked_channel_def
      remove_pending_unblocked_channel_def)

lemmas extends_step = extends_push_item extends_push_status extends_request extends_set_flags
  extends_pending

lemma extends_request_unless_blocked: "extends s t \<Longrightarrow> extends s (request_unless_blocked t)"
  by (auto simp: request_unless_blocked_def intro: extends_trans extends_request)

lemma pending_fields [simp]:
  "outgoing_events (fst (add_pending_unblocked_channel cid s)) = outgoing_events s"
  "outgoing_events (fst (remove_pending_unblocked_channel cid s)) = outgoing_events s"
  by (simp_all add: add_pending_unblocked_channel_def remove_pending_unblocked_channel_def)

text \<open>A callback, and the callbacks of one operation on a channel.\<close>

abbreviation "told s t \<equiv> extends s t \<and> heeds s t"

lemma told_trans: "told s t \<Longrightarrow> told t u \<Longrightarrow> told s u"
  unfolding extends_def by (blast intro: output_ext_trans same_channels_trans heeds_trans trans)

lemma told_request: "extends s t \<Longrightarrow> told s (request_unless_blocked t)"
  by (blast intro: extends_request_unless_blocked heeds_request)

lemma told_if: "(P \<Longrightarrow> told s t) \<Longrightarrow> told s (if P then t else s)"
  by auto

lemma told_blocked: "told s (channel_flow_blocked c p s)"
proof -
  define ci where "ci = get_channel_info_ptr p s"
  define t where "t = fst (remove_pending_unblocked_channel (ci_id ci) s)"
  have t: "extends s t" by (simp add: t_def extends_pending)
  then have "extends s (push_status c ci CHANNEL_STATUS_block (set_blocked_ptr p True t))"
    by (blast intro: extends_trans extends_step)
  moreover have "heeds s t" by (simp add: t_def heeds_def)
  ultimately show ?thesis using t told_request
    by (auto simp: channel_flow_blocked_def Let_def ci_def t_def)
qed

lemma told_open: "told s (channel_flow_open p s)"
  unfolding channel_flow_open_def Let_def
  by (intro told_if told_request extends_pending)

lemma told_closed: "told s (channel_flow_closed c p s)"
proof -
  define ci where "ci = get_channel_info_ptr p s"
  define t where "t = push_status c ci CHANNEL_STATUS_close s"
  have "extends s t" by (simp add: t_def extends_push_status)
  then have "extends s (set_closed_ptr p
      (t\<lparr>pending_channels_delete := pending_channels_delete t @ [ci_id ci]\<rparr>))"
    by (blast intro: extends_trans extends_step)
  then show ?thesis using told_request by (auto simp: channel_flow_closed_def Let_def ci_def t_def)
qed

lemma told_notice: "told s (session_notice c p st s)"
  by (cases st) (auto simp: told_blocked told_open told_closed channel_destructed_def)

lemma told_given: "told s (session_given p i s)"
  by (cases i) (simp_all only: session_given.simps text_channel_data_def client_channel_data_def
      Let_def, (intro told_if told_request extends_push_item)+)

lemma told_fold: "(\<And>x s. told s (f x s)) \<Longrightarrow> told s (fold f xs s)"
  by (induction xs arbitrary: s) (simp, metis fold_simps(2) told_trans)

lemma told_callbacks: "told s (callbacks c c' p s)"
  unfolding callbacks_def by (rule told_trans; rule told_fold) (simp_all add: told_notice told_given)

lemma told_chan_change: "told (ses w) (ses (chan_change f p w))"
  by (simp add: chan_change_def Let_def told_callbacks)

lemma told_use_chan: "told (ses w) (ses (use_chan x p w))"
  by (simp add: use_chan_def told_chan_change)

lemma told_chan_sends: "told (ses w) (ses (fst (chan_sends cid i p w)))"
  by (simp add: chan_sends_def Let_def told_use_chan)


subsection \<open>The output of a session\<close>

definition stream_ok :: "('t, 'm) session \<Rightarrow> bool" where
  "stream_ok s \<longleftrightarrow> (\<exists>n. numbered n (sent_events s @ outgoing_events s) (last_used_message_ser_id s))
     \<and> (\<forall>e \<in> set (sent_events s @ outgoing_events s). event_call e \<noteq> None)"

definition window_ok :: "('t, 'm) session \<Rightarrow> bool" where
  "window_ok s \<longleftrightarrow> wait_reconnect_response s \<or> need_disconnect s
     \<or> length (sent_events s) \<le> unat (client_window_size s)"

text \<open>Output the session could send now.\<close>

definition sendable :: "('t, 'm) session \<Rightarrow> bool" where
  "sendable s \<longleftrightarrow> \<not> wait_reconnect_response s \<and> \<not> need_disconnect s \<and> can_send s"

definition awake :: "phase \<Rightarrow> ('t, 'm) session \<Rightarrow> bool" where
  "awake ph s \<longleftrightarrow> ph \<noteq> Idle \<or> has_requested_service s \<or> \<not> sendable s"

lemma stream_ok_ext: "stream_ok s \<Longrightarrow> output_ext s t \<Longrightarrow> stream_ok t"
  unfolding stream_ok_def output_ext_def appends_def
  by (elim exE conjE) (simp add: append_assoc [symmetric] del: append_assoc,
      auto simp: numbered_append [where ys = "_ :: ('t, 'm) router_event list"])

lemma window_ok_ext: "window_ok s \<Longrightarrow> output_ext s t \<Longrightarrow> window_ok t"
  by (auto simp: window_ok_def output_ext_def)

lemma awake_ext: "awake ph s \<Longrightarrow> output_ext s t \<Longrightarrow> heeds s t \<Longrightarrow> awake ph t"
  by (auto simp: awake_def sendable_def can_send_def output_ext_def heeds_def)

text \<open>A part of the stream is a stream; what only touches other parts of the state keeps it.\<close>

lemma stream_ok_drop:
  assumes "stream_ok s" and "sent_events s @ outgoing_events s = xs @ sent_events t @ outgoing_events t"
    and "last_used_message_ser_id t = last_used_message_ser_id s"
  shows "stream_ok t"
  using assms unfolding stream_ok_def by (auto simp: numbered_append)

lemma output_ext_request: "output_ext s (request_service s)"
  by (simp add: output_ext_def appends_refl served_def owner_def request_service_def)

lemma has_requested_request [simp]: "has_requested_service (request_service s)"
  by (simp add: request_service_def)

lemma request_service_fields [simp]:
  "outgoing_events (request_service s) = outgoing_events s"
  "sent_events (request_service s) = sent_events s"
  "last_used_message_ser_id (request_service s) = last_used_message_ser_id s"
  "wait_reconnect_response (request_service s) = wait_reconnect_response s"
  "need_disconnect (request_service s) = need_disconnect s"
  "client_window_size (request_service s) = client_window_size s"
  "client_is_blocked (request_service s) = client_is_blocked s"
  "active_channels (request_service s) = active_channels s"
  "blocked_channel_queues (request_service s) = blocked_channel_queues s"
  "this_ptr (request_service s) = this_ptr s"
  "pending_channels_unblock (request_service s) = pending_channels_unblock s"
  "pending_channels_delete (request_service s) = pending_channels_delete s"
  by (simp_all add: request_service_def)

lemma acknowledge_unknown:
  assumes "n = 0 \<or> n \<notin> event_serial_id ` set (sent_events s)"
  shows "client_data_acknowledge n s = request_service (s\<lparr>need_disconnect := True\<rparr>)"
proof (cases "n = 0")
  case False
  with assms have "dropWhile (\<lambda>e. event_serial_id e \<noteq> n) (sent_events s) = []"
    by (auto simp: dropWhile_eq_Nil_conv)
  then show ?thesis
    by (simp add: client_data_acknowledge_def del: dropWhile_eq_Nil_conv)
qed (simp add: client_data_acknowledge_def)

lemma acknowledge_known:
  assumes "n \<noteq> 0" and "sent_events s = xs @ e # rest" and "event_serial_id e = n"
    and "\<forall>x \<in> set xs. event_serial_id x \<noteq> n"
  shows "client_data_acknowledge n s =
    (let t = s\<lparr>outgoing_ser_ack := n, sent_events := rest\<rparr>
     in if outgoing_events t \<noteq> [] then request_service t else t)"
proof -
  have "dropWhile (\<lambda>e. event_serial_id e \<noteq> n) (sent_events s) = e # rest"
    unfolding assms(2) using assms(3,4) by (subst dropWhile_append2) auto
  then show ?thesis unfolding client_data_acknowledge_def using assms(1) by simp
qed

lemma acknowledge_cases:
  obtains (unknown) "n = 0 \<or> n \<notin> event_serial_id ` set (sent_events s)"
    "client_data_acknowledge n s = request_service (s\<lparr>need_disconnect := True\<rparr>)"
  | (known) xs e rest t where "n \<noteq> 0" "sent_events s = xs @ e # rest" "event_serial_id e = n"
    "\<forall>x \<in> set xs. event_serial_id x \<noteq> n" "t = s\<lparr>outgoing_ser_ack := n, sent_events := rest\<rparr>"
    "client_data_acknowledge n s = (if outgoing_events t \<noteq> [] then request_service t else t)"
proof (cases "n = 0 \<or> n \<notin> event_serial_id ` set (sent_events s)")
  case True
  then show ?thesis using unknown acknowledge_unknown by blast
next
  case False
  then obtain e0 where "e0 \<in> set (sent_events s)" "event_serial_id e0 = n" by auto
  with split_list_first_prop [of "sent_events s" "\<lambda>e. event_serial_id e = n"]
  obtain xs e rest where "sent_events s = xs @ e # rest" "event_serial_id e = n"
    "\<forall>x \<in> set xs. event_serial_id x \<noteq> n" by blast
  with False known [of xs e rest] acknowledge_known [of n s xs e rest] show ?thesis
    by (simp only: Let_def) blast
qed

lemma acknowledge_stream:
  assumes "stream_ok s"
  shows "stream_ok (client_data_acknowledge n s)"
proof (cases rule: acknowledge_cases [of n s])
  case unknown
  show ?thesis
    using assms by (rule stream_ok_drop [where xs = "[]"]) (simp_all add: unknown(2))
next
  case (known xs e rest t)
  show ?thesis
    using assms by (rule stream_ok_drop [where xs = "xs @ [e]"]) (simp_all add: known)
qed

lemma acknowledge_window: "window_ok s \<Longrightarrow> window_ok (client_data_acknowledge n s)"
  by (cases rule: acknowledge_cases [of n s]) (auto simp: window_ok_def)

lemma acknowledge_awake: "awake ph s \<Longrightarrow> awake ph (client_data_acknowledge n s)"
  by (cases rule: acknowledge_cases [of n s]) (auto simp: awake_def sendable_def can_send_def)

lemma acknowledge_fields [simp]:
  "active_channels (client_data_acknowledge n s) = active_channels s"
  "blocked_channel_queues (client_data_acknowledge n s) = blocked_channel_queues s"
  "this_ptr (client_data_acknowledge n s) = this_ptr s"
  "last_used_message_ser_id (client_data_acknowledge n s) = last_used_message_ser_id s"
  "wait_reconnect_response (client_data_acknowledge n s) = wait_reconnect_response s"
  by (cases rule: acknowledge_cases [of n s]; simp)+

lemma reconnect_acknowledge_stream:
  assumes "stream_ok s"
  shows "stream_ok (client_data_acknowledge_reconnect n s)"
proof -
  define t where "t = (if \<not> wait_reconnect_response s then s\<lparr>need_disconnect := True\<rparr>
     else let s = s\<lparr>wait_reconnect_response := False\<rparr>
       in if n = 0 then s\<lparr>outgoing_ser_ack := 0\<rparr>
          else if n \<noteq> outgoing_ser_ack s then client_data_acknowledge n s else s)"
  have "stream_ok (s\<lparr>wait_reconnect_response := False\<rparr>)"
    using assms by (rule stream_ok_drop [where xs = "[]"]) simp_all
  then have "stream_ok (client_data_acknowledge n (s\<lparr>wait_reconnect_response := False\<rparr>))"
    by (rule acknowledge_stream)
  then have "stream_ok t" using assms by (auto simp: t_def stream_ok_def Let_def)
  then have "stream_ok (if \<not> need_disconnect t
      then t\<lparr>outgoing_events := sent_events t @ outgoing_events t, sent_events := []\<rparr> else t)"
    by (simp add: stream_ok_def)
  then show ?thesis
    by (rule stream_ok_drop [where xs = "[]"])
      (simp_all add: client_data_acknowledge_reconnect_def t_def [symmetric] Let_def)
qed

lemma reconnect_acknowledge_window:
  "window_ok (client_data_acknowledge_reconnect n s)"
  by (simp add: client_data_acknowledge_reconnect_def window_ok_def Let_def)

lemma reconnect_acknowledge_requests [simp]:
  "has_requested_service (client_data_acknowledge_reconnect n s)"
  by (simp add: client_data_acknowledge_reconnect_def Let_def)

subsection \<open>Sending to the client\<close>

text \<open>What sending leaves alone.\<close>

definition sends_from :: "('t, 'm) session \<Rightarrow> ('t, 'm) session \<Rightarrow> bool" where
  "sends_from s t \<longleftrightarrow> sent_events t @ outgoing_events t = sent_events s @ outgoing_events s
     \<and> last_used_message_ser_id t = last_used_message_ser_id s
     \<and> wait_reconnect_response t = wait_reconnect_response s
     \<and> client_window_size t = client_window_size s
     \<and> (has_requested_service s \<longrightarrow> has_requested_service t) \<and> served t = served s \<and> owner t = owner s
     \<and> (need_disconnect s \<longrightarrow> need_disconnect t)
     \<and> active_channels t = active_channels s
     \<and> blocked_channel_queues t = blocked_channel_queues s \<and> this_ptr t = this_ptr s"

lemma sends_from_refl [simp]: "sends_from s s"
  by (simp add: sends_from_def)

lemma sends_from_trans: "sends_from s t \<Longrightarrow> sends_from t u \<Longrightarrow> sends_from s u"
  unfolding sends_from_def by auto

lemma return_code_effect:
  assumes "process_send_return_code code s = (t, ok)"
  shows "sends_from s t" "outgoing_events t = outgoing_events s" "sent_events t = sent_events s"
    "\<not> ok \<Longrightarrow> client_is_blocked t" "client_is_blocked s \<Longrightarrow> client_is_blocked t"
  using assms by (auto simp: process_send_return_code_def sends_from_def
      split: send_return_code.splits)

lemma send_event_effect:
  assumes "event_call e \<noteq> None" and "send_event reply e s = (t, ok)"
  shows "sends_from s t" "outgoing_events t = outgoing_events s" "sent_events t = sent_events s"
    "\<not> ok \<Longrightarrow> client_is_blocked t"
proof -
  obtain call where "event_call e = Some call" using assms(1) by blast
  then have t: "process_send_return_code (reply (length (client_calls s)))
      (s\<lparr>client_calls := client_calls s @ [(call, reply (length (client_calls s)))]\<rparr>) = (t, ok)"
    using assms(2) by (simp add: send_event_def client_send_def Let_def)
  then show "outgoing_events t = outgoing_events s" "sent_events t = sent_events s"
    "\<not> ok \<Longrightarrow> client_is_blocked t"
    using return_code_effect by fastforce+
  have "sends_from s (s\<lparr>client_calls := client_calls s @ [(call, reply (length (client_calls s)))]\<rparr>)"
    by (simp add: sends_from_def)
  then show "sends_from s t" using return_code_effect(1) [OF t] by (rule sends_from_trans)
qed

lemma send_outgoing_ends:
  assumes "\<forall>e \<in> set (outgoing_events s). event_call e \<noteq> None"
  shows "\<exists>t. send_outgoing reply s = Some t \<and> \<not> can_send t \<and> sends_from s t
    \<and> (length (sent_events t) \<le> length (sent_events s)
       \<or> length (sent_events t) \<le> unat (client_window_size s))"
  using assms
proof (induction "length (outgoing_events s)" arbitrary: s rule: less_induct)
  case less
  show ?case
  proof (cases "can_send s")
    case False
    then show ?thesis by (subst send_outgoing.simps) simp
  next
    case True
    then obtain e es where es: "outgoing_events s = e # es"
      by (cases "outgoing_events s") (auto simp: can_send_def)
    obtain u ok where u: "send_event reply e s = (u, ok)" by (cases "send_event reply e s")
    note eff = send_event_effect [OF _ u]
    have call: "event_call e \<noteq> None" using less.prems es by simp
    show ?thesis
    proof (cases ok)
      case False
      with eff(4) [OF call] have "\<not> can_send u" by (simp add: can_send_def)
      then have "send_outgoing reply s = Some u"
        using True u es False by (subst send_outgoing.simps) (simp, subst send_outgoing.simps, simp)
      with \<open>\<not> can_send u\<close> eff [OF call] show ?thesis by simp
    next
      case ok: True
      define v where "v = u\<lparr>sent_events := sent_events u @ [e], outgoing_events := es\<rparr>"
      have v: "outgoing_events v = es" "sent_events v = sent_events s @ [e]"
        "client_window_size v = client_window_size s" "sends_from s v"
        using eff [OF call] es by (simp_all add: v_def sends_from_def)
      have "send_outgoing reply s = send_outgoing reply v"
        using True u es ok eff(2) [OF call]
        by (subst send_outgoing.simps) (simp add: v_def)
      moreover from less.hyps [of v] obtain t where "send_outgoing reply v = Some t" "\<not> can_send t"
        "sends_from v t" "length (sent_events t) \<le> length (sent_events v)
           \<or> length (sent_events t) \<le> unat (client_window_size v)"
        using less.prems es v by auto
      ultimately show ?thesis using v True
        by (auto simp: can_send_def intro: sends_from_trans)
    qed
  qed
qed

lemma stream_ok_sends: "stream_ok s \<Longrightarrow> sends_from s t \<Longrightarrow> stream_ok t"
  by (erule stream_ok_drop [where xs = "[]"]) (simp_all add: sends_from_def)

lemma stream_ok_calls: "stream_ok s \<Longrightarrow> e \<in> set (outgoing_events s) \<Longrightarrow> event_call e \<noteq> None"
  by (simp add: stream_ok_def)

lemma send_acknowledge_effect:
  "sends_from s (send_acknowledge reply s)"
  "outgoing_events (send_acknowledge reply s) = outgoing_events s"
  "sent_events (send_acknowledge reply s) = sent_events s"
proof -
  define code where "code = reply (length (client_calls s))"
  define t where "t = s\<lparr>client_calls := client_calls s @ [(AcknowledgeData (incoming_ser_ack s), code)],
    needs_incoming_ser_ack_sent := False\<rparr>"
  obtain u ok where u: "process_send_return_code code t = (u, ok)" by fastforce
  have "send_acknowledge reply s = (if needs_incoming_ser_ack_sent s then u else s)"
    using u by (simp add: send_acknowledge_def client_send_def Let_def t_def code_def)
  moreover have "sends_from s t" by (simp add: t_def sends_from_def)
  ultimately show "sends_from s (send_acknowledge reply s)"
    "outgoing_events (send_acknowledge reply s) = outgoing_events s"
    "sent_events (send_acknowledge reply s) = sent_events s"
    using return_code_effect [OF u] by (auto simp: t_def intro: sends_from_trans)
qed

lemma process_client_ends:
  assumes "stream_ok s"
  shows "\<exists>t. process_client reply s = Some t
    \<and> (sends_from s t \<or> (wait_reconnect_response t
         \<and> sends_from (s\<lparr>wait_reconnect_response := True\<rparr>) t))
    \<and> \<not> sendable t
    \<and> (length (sent_events t) \<le> length (sent_events s)
       \<or> length (sent_events t) \<le> unat (client_window_size s))"
proof (cases "need_handle_reconnect s \<or> wait_reconnect_response s \<or> client_is_blocked s")
  case True
  then show ?thesis
    by (auto simp: process_client_def client_send_def Let_def sends_from_def sendable_def can_send_def)
next
  case False
  define u where "u = send_acknowledge reply s"
  note u = send_acknowledge_effect [where s = s and reply = reply, folded u_def]
  have "\<forall>e \<in> set (outgoing_events u). event_call e \<noteq> None"
    using assms u(2) by (simp add: stream_ok_def)
  from send_outgoing_ends [OF this, of reply] obtain t where t: "send_outgoing reply u = Some t"
    "\<not> can_send t" "sends_from u t" "length (sent_events t) \<le> length (sent_events u)
       \<or> length (sent_events t) \<le> unat (client_window_size u)" by blast
  moreover have "client_window_size u = client_window_size s" using u(1) by (simp add: sends_from_def)
  ultimately show ?thesis using False u
    by (auto simp: process_client_def u_def [symmetric] sendable_def intro: sends_from_trans)
qed

subsection \<open>Output during the phases of the router\<close>

lemma extends_output: "extends s t \<Longrightarrow> output_ext s t"
  by (simp add: extends_def)

lemma use_chan_output: "output_ext (ses w) (ses (use_chan x p w))"
  using told_use_chan extends_output by blast

lemma chan_sends_output: "output_ext (ses w) (ses (fst (chan_sends cid i p w)))"
  using told_chan_sends extends_output by blast

lemma drain_queue_output: "output_ext (ses w) (ses (fst (drain_queue cid p queue w)))"
proof (induction queue arbitrary: w)
  case (Cons e queue)
  show ?case
  proof (cases "event_item e")
    case (Some i)
    obtain v ok where v: "chan_sends cid i p w = (v, ok)" by fastforce
    with chan_sends_output [of w cid i p] have "output_ext (ses w) (ses v)" by simp
    with Cons.IH [of v] v Some show ?thesis by (auto simp: Let_def intro: output_ext_trans)
  qed (simp add: Let_def)
qed simp

text \<open>Operations on other parts of the state.\<close>

lemma queue_fields [simp]:
  "output_ext s (set_blocked_queue cid q s)" "output_ext s (set_blocked_id cid b s)"
  "output_ext s (fst (get_blocked_queue cid s))" "output_ext s (remove_blocked_queue cid s)"
  "output_ext s (fst (take_unblocked s))"
  "output_ext s (fst (remove_pending_unblocked_channel cid s))"
  "output_ext s (active_channels_update f s)" "output_ext s (pending_channels_delete_update g s)"
  "output_ext s (last_used_channel_id_update h s)"
  by (simp_all add: output_ext_def appends_refl served_def owner_def set_blocked_queue_def set_blocked_id_def
      get_blocked_queue_def remove_blocked_queue_def take_unblocked_def Let_def
      remove_pending_unblocked_channel_def split: option.split)

lemma output_ext_fold: "(\<And>x s. output_ext s (f x s)) \<Longrightarrow> output_ext s (fold f xs s)"
  by (induction xs arbitrary: s) (simp, metis fold_simps(2) output_ext_trans)

lemma unblock_channel_queue_output:
  "output_ext (ses w) (ses (fst (unblock_channel_queue cid p w)))"
proof -
  obtain s queue where s: "get_blocked_queue cid (ses w) = (s, queue)" by fastforce
  obtain v queue' invalid where v: "drain_queue cid p queue (w\<lparr>ses := s\<rparr>) = (v, queue', invalid)"
    by (cases "drain_queue cid p queue (w\<lparr>ses := s\<rparr>)")
  have "output_ext (ses w) s" using queue_fields(3) [of "ses w" cid] s by simp
  moreover have "output_ext s (ses v)"
    using drain_queue_output [of "w\<lparr>ses := s\<rparr>" cid p queue] v by simp
  ultimately have "output_ext (ses w) (set_blocked_queue cid queue' (ses v))"
    by (blast intro: output_ext_trans queue_fields)
  moreover from this have "output_ext (ses w)
      (set_blocked_id cid b (set_blocked_queue cid queue' (ses v)))" for b
    by (blast intro: output_ext_trans queue_fields)
  moreover from this have "output_ext (ses w)
      (push_status c ci st (set_blocked_id cid b (set_blocked_queue cid queue' (ses v))))" for b c ci st
    by (blast intro: output_ext_trans extends_output extends_push_status)
  ultimately show ?thesis using s v
    by (cases "queue' = []") (simp_all add: unblock_channel_queue_def Let_def)
qed

lemma process_unblocked_output: "output_ext (ses w) (ses (fst (process_unblocked cid w)))"
proof (cases "ci_channel (get_channel_info cid (ses w))")
  case (Some p)
  then show ?thesis
    by (simp add: process_unblocked_def Let_def)
      (blast intro: output_ext_trans use_chan_output unblock_channel_queue_output)
qed (simp add: process_unblocked_def)

lemma unregister_channel_output: "output_ext (ses w) (ses (unregister_channel ci w))"
  by (simp add: unregister_channel_def Let_def split: option.split)
    (blast intro: output_ext_trans use_chan_output)

lemma delete_channel_output: "output_ext s (fst (delete_channel cid s))"
  by (auto simp: delete_channel_def Let_def split: option.split
      intro!: output_ext_trans [OF output_ext_trans [OF queue_fields(6) queue_fields(4)] queue_fields(7)])

lemma delete_each_output: "output_ext s (fst (delete_each cids s))"
proof (induction cids arbitrary: s)
  case (Cons cid cids)
  obtain t ci where t: "delete_channel cid s = (t, ci)" by fastforce
  with delete_channel_output [of s cid] have "output_ext s t" by simp
  with Cons [of t] t show ?case by (auto intro: output_ext_trans)
qed simp

lemma take_deletes_output: "output_ext s (fst (take_deletes s))"
  using delete_each_output [of s "pending_channels_delete s"]
  by (simp add: take_deletes_def) (blast intro: output_ext_trans queue_fields)

lemma remove_invalid_output: "output_ext s (remove_invalid_queues invalid s)"
  unfolding remove_invalid_queues_def by (rule output_ext_fold) simp

subsection \<open>Output in every step\<close>

lemma note_client_data_told: "told s (note_client_data now n s)"
proof -
  have "extends s (s\<lparr>last_activity_time := now, incoming_ser_ack := n,
      needs_incoming_ser_ack_sent := True\<rparr>)" by (simp add: extends_def output_ext_def appends_refl served_def owner_def)
  then show ?thesis unfolding note_client_data_def by (rule told_request)
qed

text \<open>From one state of the world to the next, output is only added and the router is told.\<close>

definition output_told :: "('t, 'm) session \<Rightarrow> ('t, 'm) session \<Rightarrow> bool" where
  "output_told s t \<longleftrightarrow> output_ext s t \<and> heeds s t"

lemma output_told_refl [simp]: "output_told s s"
  by (simp add: output_told_def)

lemma output_told_trans: "output_told s t \<Longrightarrow> output_told t u \<Longrightarrow> output_told s u"
  unfolding output_told_def by (blast intro: output_ext_trans heeds_trans)

lemma told_output: "told s t \<Longrightarrow> output_told s t"
  by (simp add: extends_def output_told_def)

lemma use_chan_told: "output_told (ses w) (ses (use_chan x p w))"
  using told_use_chan told_output by blast

lemma queue_blocked_told: "output_told s (queue_blocked_item cid n i s)"
  by (auto simp: output_told_def queue_blocked_item_def get_blocked_queue_def set_blocked_queue_def Let_def
      output_ext_def heeds_def appends_refl split: option.split)

lemma set_blocked_id_told: "output_told s (set_blocked_id cid b s)"
  by (simp add: output_told_def heeds_def set_blocked_id_def output_ext_def appends_refl served_def owner_def)

lemma disconnect_told: "output_told s (request_service (s\<lparr>need_disconnect := True\<rparr>))"
  by (simp add: output_told_def heeds_def output_ext_def appends_refl)

lemma note_arrival_ses [simp]: "ses (note_arrival cid i w) = ses w"
  by (simp add: note_arrival_def)

lemma send_client_item_told: "output_told (ses w) (ses (send_client_item cid n p i w))"
proof -
  obtain v ok where v: "chan_sends cid i p w = (v, ok)" by fastforce
  then have "output_told (ses w) (ses v)" using told_output [OF told_chan_sends [of w cid i p]] by simp
  moreover from this have "output_told (ses w) (queue_blocked_item cid n i (set_blocked_id cid True (ses v)))"
    by (blast intro: output_told_trans queue_blocked_told set_blocked_id_told)
  ultimately show ?thesis using v by (simp add: send_client_item_def disconnect_told)
qed

lemma client_data_told: "output_told (ses w) (ses (client_data_item now cid n item w))"
proof -
  have "output_told (ses w) (ses (use_chan UnlockChannel p
      (if b then note_arrival cid i (on_session (queue_blocked_item cid n i) v)
       else if c then v else send_client_item cid n p i v)))"
    if "v = on_session (note_client_data now n) (use_chan LockChannel p w)" for b c i p v
  proof -
    have "output_told (ses w) (ses v)" unfolding that
      using output_told_trans [OF use_chan_told told_output [OF note_client_data_told]] by simp
    then have "output_told (ses w) (ses (if b then note_arrival cid i (on_session (queue_blocked_item cid n i) v)
       else if c then v else send_client_item cid n p i v))"
      by (simp add: output_told_trans [OF _ queue_blocked_told] output_told_trans [OF _ send_client_item_told])
    then show ?thesis using use_chan_told by (blast intro: output_told_trans)
  qed
  then show ?thesis
    by (auto simp: client_data_item_def Let_def disconnect_told split: option.split)
qed

lemma close_request_told: "output_told (ses w) (ses (client_request_channel_close cid w))"
  by (auto simp: client_request_channel_close_def use_chan_told split: option.split)

lemma search_channel_fields:
  "get_next_channel_id s = Some (t, cid) \<Longrightarrow> output_told s t"
  by (auto simp: output_told_def get_next_channel_id_def heeds_def output_ext_def appends_refl served_def owner_def split: if_splits)

lemma announce_channel_told: "output_told (ses w) (ses (announce_channel cid p b w))"
proof -
  define ci where "ci = channel_info_new cid p b"
  define c where "c = (\<not> b \<and> channel_is_blocked (chans w p))"
  define s where "s = push_status (chans w p) ci CHANNEL_STATUS_open
    (active_channels_update (\<lambda>cis. cis @ [ci\<lparr>ci_blocked := c\<rparr>]) (ses w))"
  have "output_ext (ses w) s" unfolding s_def
    by (blast intro: output_ext_trans extends_output extends_push_status queue_fields)
  then have "output_ext (ses w) (request_unless_blocked s)"
    by (auto simp: request_unless_blocked_def intro: output_ext_trans output_ext_request)
  then have "output_ext (ses w) (push_status (chans w p) ci st (request_unless_blocked s))" for st
    by (blast intro: output_ext_trans extends_output extends_push_status)
  moreover have "heeds (ses w) (push_status (chans w p) ci st (request_unless_blocked s))" for st
    by (simp add: heeds_def push_status_def request_unless_blocked_def)
  ultimately show ?thesis
    by (simp add: output_told_def announce_channel_def Let_def ci_def c_def s_def)
qed

lemma register_session_told: "output_told (ses w) (ses (register_session p b w))"
  by (simp add: register_session_def Let_def) (blast intro: output_told_trans use_chan_told)

lemma channel_added_told:
  assumes "channel_added c b w = Some (v, cid)"
  shows "output_told (ses w) (ses v)"
proof (cases c)
  case (Some p)
  then obtain s where s: "get_next_channel_id (ses (use_chan LockChannel p w)) = Some (s, cid)"
    and v: "v = use_chan UnlockChannel p (register_session p b
      (announce_channel cid p b (use_chan LockChannel p w\<lparr>ses := s\<rparr>)))"
    using assms by (auto simp: channel_added_def Let_def split: option.splits)
  have "output_told (ses w) s"
    using output_told_trans [OF use_chan_told search_channel_fields [OF s]] .
  moreover have "output_told s (ses (announce_channel cid p b (use_chan LockChannel p w\<lparr>ses := s\<rparr>)))"
    using announce_channel_told [of "use_chan LockChannel p w\<lparr>ses := s\<rparr>" cid p b] by simp
  ultimately show ?thesis unfolding v
    by (blast intro: output_told_trans use_chan_told register_session_told)
qed (use assms in \<open>simp add: channel_added_def\<close>)

lemma flag_told:
  "output_told s (client_disconnected s)" "output_told s (set_activity_time_to_now now s)"
  by (simp_all add: output_told_def output_ext_def heeds_def appends_refl client_disconnected_def
      set_activity_time_to_now_def)

definition output_inv :: "phase \<times> ('t, 'm) world \<Rightarrow> bool" where
  "output_inv x \<longleftrightarrow> stream_ok (ses (snd x)) \<and> window_ok (ses (snd x)) \<and> awake (fst x) (ses (snd x))"

lemma output_inv_told:
  "output_inv (ph, w) \<Longrightarrow> output_told (ses w) (ses v) \<Longrightarrow> output_inv (ph, v)"
  by (auto simp: output_inv_def output_told_def intro: stream_ok_ext window_ok_ext awake_ext)

lemma output_inv_ext:
  "output_inv (ph, w) \<Longrightarrow> output_ext (ses w) (ses v) \<Longrightarrow> ph' \<noteq> Idle \<Longrightarrow> output_inv (ph', v)"
  by (auto simp: output_inv_def awake_def intro: stream_ok_ext window_ok_ext)

lemma output_inv_do:
  assumes "output_inv (ph, w)" and "session_do x w = Some v"
  shows "output_inv (ph, v)"
proof (cases x)
  case (Reconnect c)
  have "stream_ok (set_client_connection c (ses w))"
    using assms(1) by (simp add: output_inv_def stream_ok_def set_client_connection_def
        drop_connection_def Let_def split: option.split)
  with Reconnect assms show ?thesis
    by (auto simp: output_inv_def window_ok_def awake_def sendable_def set_client_connection_def Let_def)
next
  case (DataAcknowledge n)
  with assms show ?thesis
    by (auto simp: output_inv_def acknowledge_stream acknowledge_window acknowledge_awake)
next
  case (DataAcknowledgeReconnect n)
  with assms show ?thesis
    by (auto simp: output_inv_def reconnect_acknowledge_stream reconnect_acknowledge_window awake_def)
next
  case (ClientData now cid n i)
  with assms(2) show ?thesis by (auto intro: output_inv_told [OF assms(1)] client_data_told)
next
  case (RequestChannelClose cid)
  with assms(2) show ?thesis by (auto intro: output_inv_told [OF assms(1)] close_request_told)
next
  case (ChannelAdded c b)
  then obtain cid where "channel_added c b w = Some (v, cid)" using assms(2) by auto
  then show ?thesis by (intro output_inv_told [OF assms(1)] channel_added_told)
next
  case (OtherChannel p y)
  with assms(2) show ?thesis
    by (auto intro: output_inv_told [OF assms(1)] told_output [OF told_chan_change])
next
  case RequestDisconnection
  with assms(2) show ?thesis
    by (auto simp: request_disconnection_def disconnect_told intro: output_inv_told [OF assms(1)])
next
  case ClientDisconnected
  with assms(2) have "output_told (ses w) (ses v)" by (auto simp: flag_told)
  then show ?thesis by (rule output_inv_told [OF assms(1)])
next
  case (SetActivity now)
  with assms(2) have "output_told (ses w) (ses v)" by (auto simp: flag_told)
  then show ?thesis by (rule output_inv_told [OF assms(1)])
next
  case ClientUnblocked
  have "stream_ok (client_unblocked (ses w))" "window_ok (client_unblocked (ses w))"
    "awake ph (client_unblocked (ses w))"
    using assms(1) by (auto simp: output_inv_def client_unblocked_def stream_ok_def window_ok_def
        awake_def sendable_def can_send_def Let_def)
  with ClientUnblocked assms(2) show ?thesis by (auto simp: output_inv_def)
qed

lemma output_inv_router:
  assumes "output_inv (ph, w)" and "router_step reply (ph, w) = Some (ph', v)"
  shows "output_inv (ph', v)"
  using assms
proof (cases "(reply, (ph, w))" rule: router_step.cases)
  case (1 reply w)
  with assms show ?thesis
    by (auto simp: begin_processing_def output_inv_def stream_ok_def window_ok_def awake_def
        sendable_def can_send_def Let_def split: if_splits)
next
  case (8 reply w)
  then obtain t where t: "process_client reply (ses w) = Some t" and v: "ph' = Idle" "v = w\<lparr>ses := t\<rparr>"
    using assms(2) by auto
  have ok: "stream_ok (ses w)" "window_ok (ses w)" using assms(1) 8 by (simp_all add: output_inv_def)
  then have waiting: "stream_ok (ses w\<lparr>wait_reconnect_response := True\<rparr>)"
    by (simp add: stream_ok_def)
  from process_client_ends [OF ok(1), of reply] t have
    "sends_from (ses w) t \<or> (wait_reconnect_response t
         \<and> sends_from (ses w\<lparr>wait_reconnect_response := True\<rparr>) t)"
    "\<not> sendable t" "length (sent_events t) \<le> length (sent_events (ses w))
       \<or> length (sent_events t) \<le> unat (client_window_size (ses w))" by auto
  moreover from this(1) have "stream_ok t"
    using stream_ok_sends [OF ok(1)] stream_ok_sends [OF waiting] by blast
  ultimately show ?thesis using v ok(2)
    by (auto simp: output_inv_def awake_def window_ok_def sends_from_def)
next
  case (2 reply w)
  obtain t cis where t: "take_deletes (ses w) = (t, cis)" by fastforce
  with take_deletes_output [of "ses w"] have "output_ext (ses w) t" by simp
  with assms 2 t show ?thesis by (auto intro: output_inv_ext)
next
  case (3 reply w)
  with assms show ?thesis by (auto intro: output_inv_ext)
next
  case (4 reply ci cis w)
  with assms(2) show ?thesis
    using output_inv_ext [OF assms(1) unregister_channel_output] by auto
next
  case (5 reply w)
  moreover have "output_ext (ses w) (ses w\<lparr>pending_channels_unblock := []\<rparr>)"
    using queue_fields(5) [of "ses w"] by (simp add: take_unblocked_def)
  ultimately show ?thesis using assms by (auto simp: take_unblocked_def intro: output_inv_ext)
next
  case (6 reply invalid w)
  with assms(2) show ?thesis
    using output_inv_ext [OF assms(1), of "on_session (remove_invalid_queues invalid) w"]
      remove_invalid_output [of "ses w" invalid] by auto
next
  case (7 reply cid cids invalid w)
  obtain u bad where u: "process_unblocked cid w = (u, bad)" by fastforce
  with process_unblocked_output [of w cid] have "output_ext (ses w) (ses u)" by simp
  with assms 7 u show ?thesis by (auto intro: output_inv_ext)
qed

lemma output_inv_start: "session_start w \<Longrightarrow> output_inv (Idle, w)"
  by (auto simp: session_start_def output_inv_def session_new_def stream_ok_def window_ok_def
      awake_def sendable_def can_send_def)

lemma output_inv_reachable: "reachable_session x \<Longrightarrow> output_inv x"
proof (induction rule: reachable_session.induct)
  case (step x y)
  then show ?case
    by (cases rule: session_step.cases [OF step.hyps(2)])
      (use output_inv_do output_inv_router in blast)+
qed (rule output_inv_start)

subsection \<open>Requests for service\<close>

text \<open>Nothing but the start of a service answers a request, and no request is made twice.\<close>

definition keeps_requests :: "('t, 'm) session \<Rightarrow> ('t, 'm) session \<Rightarrow> bool" where
  "keeps_requests s t \<longleftrightarrow> served t = served s \<and> (has_requested_service s \<longrightarrow> has_requested_service t)"

lemma output_ext_requests: "output_ext s t \<Longrightarrow> keeps_requests s t"
  by (simp add: output_ext_def keeps_requests_def)

lemma output_told_requests: "output_told s t \<Longrightarrow> keeps_requests s t"
  by (simp add: output_told_def output_ext_requests)

lemma served_acknowledge [simp]: "served (client_data_acknowledge n s) = served s"
  by (cases rule: acknowledge_cases [of n s]) simp_all

lemma requested_acknowledge:
  "has_requested_service s \<Longrightarrow> has_requested_service (client_data_acknowledge n s)"
  by (cases rule: acknowledge_cases [of n s]) simp_all

lemma keeps_requests_do:
  assumes "session_do x w = Some v"
  shows "keeps_requests (ses w) (ses v)"
proof (cases x)
  case (Reconnect c)
  with assms show ?thesis
    by (auto simp: keeps_requests_def set_client_connection_def drop_connection_def Let_def
        split: option.split)
next
  case (DataAcknowledge n)
  with assms show ?thesis by (auto simp: keeps_requests_def requested_acknowledge)
next
  case (DataAcknowledgeReconnect n)
  with assms show ?thesis
    by (auto simp: keeps_requests_def client_data_acknowledge_reconnect_def Let_def)
next
  case (ClientData now cid n i)
  with assms show ?thesis by (auto intro: output_told_requests client_data_told)
next
  case (RequestChannelClose cid)
  with assms show ?thesis by (auto intro: output_told_requests close_request_told)
next
  case (ChannelAdded c b)
  then obtain cid where "channel_added c b w = Some (v, cid)" using assms by auto
  then show ?thesis by (intro output_told_requests channel_added_told)
next
  case (OtherChannel p y)
  with assms show ?thesis by (auto intro: output_told_requests told_output [OF told_chan_change])
next
  case RequestDisconnection
  with assms show ?thesis by (auto simp: request_disconnection_def keeps_requests_def)
next
  case ClientDisconnected
  with assms show ?thesis by (auto simp: flag_told intro: output_told_requests)
next
  case (SetActivity now)
  with assms show ?thesis by (auto simp: flag_told intro: output_told_requests)
next
  case ClientUnblocked
  with assms show ?thesis by (auto simp: keeps_requests_def client_unblocked_def Let_def)
qed

lemma keeps_requests_router:
  assumes "output_inv (ph, w)" and "router_step reply (ph, w) = Some (ph', v)" and "ph \<noteq> Idle"
  shows "keeps_requests (ses w) (ses v)"
  using assms
proof (cases "(reply, (ph, w))" rule: router_step.cases)
  case (2 reply w)
  obtain t cis where t: "take_deletes (ses w) = (t, cis)" by fastforce
  with take_deletes_output [of "ses w"] have "output_ext (ses w) t" by simp
  with assms 2 t show ?thesis by (auto intro: output_ext_requests)
next
  case (4 reply ci cis w)
  with assms(2) show ?thesis using output_ext_requests [OF unregister_channel_output] by auto
next
  case (5 reply w)
  moreover have "output_ext (ses w) (ses w\<lparr>pending_channels_unblock := []\<rparr>)"
    using queue_fields(5) [of "ses w"] by (simp add: take_unblocked_def)
  ultimately show ?thesis using assms by (auto simp: take_unblocked_def intro: output_ext_requests)
next
  case (6 reply invalid w)
  with assms(2) show ?thesis using output_ext_requests [OF remove_invalid_output [of "ses w" invalid]] by auto
next
  case (7 reply cid cids invalid w)
  obtain u bad where u: "process_unblocked cid w = (u, bad)" by fastforce
  with process_unblocked_output [of w cid] have "output_ext (ses w) (ses u)" by simp
  with assms 7 u show ?thesis by (auto intro: output_ext_requests)
next
  case (8 reply w)
  then obtain t where t: "process_client reply (ses w) = Some t" and v: "v = w\<lparr>ses := t\<rparr>"
    using assms(2) by auto
  have "stream_ok (ses w)" using assms(1) 8 by (simp add: output_inv_def)
  from process_client_ends [OF this, of reply] t
  have "sends_from (ses w) t \<or> sends_from (ses w\<lparr>wait_reconnect_response := True\<rparr>) t" by auto
  then have "keeps_requests (ses w) t" by (auto simp: keeps_requests_def sends_from_def)
  with 8 v show ?thesis by simp
qed (auto simp: keeps_requests_def)

lemma router_starts:
  assumes "router_step reply (Idle, w) = Some (ph', v)"
  shows "\<not> has_requested_service (ses v)" "service_requests (ses v) = service_requests (ses w)"
  using assms by (auto simp: begin_processing_def Let_def split: if_splits)

text \<open>The connection changes by a reconnect only, which gives the old one back.\<close>

lemma owner_acknowledge [simp]: "owner (client_data_acknowledge n s) = owner s"
  by (cases rule: acknowledge_cases [of n s]) simp_all

lemma owner_told: "output_told s t \<Longrightarrow> owner t = owner s"
  by (simp add: output_told_def output_ext_def)

lemma owner_do:
  assumes "session_do x w = Some v" and "\<And>c. x \<noteq> Reconnect c"
  shows "owner (ses v) = owner (ses w)"
proof (cases x)
  case (DataAcknowledgeReconnect n)
  with assms show ?thesis by (auto simp: client_data_acknowledge_reconnect_def Let_def)
next
  case (ClientData now cid n i)
  with assms show ?thesis by (auto intro: owner_told client_data_told)
next
  case (RequestChannelClose cid)
  with assms show ?thesis by (auto intro: owner_told close_request_told)
next
  case (ChannelAdded c b)
  then obtain cid where "channel_added c b w = Some (v, cid)" using assms by auto
  then show ?thesis by (intro owner_told channel_added_told)
next
  case (OtherChannel p y)
  with assms show ?thesis by (auto intro: owner_told told_output [OF told_chan_change])
qed (use assms in \<open>auto simp: request_disconnection_def client_unblocked_def client_disconnected_def
  set_activity_time_to_now_def Let_def\<close>)

lemma owner_reconnect:
  "owner (set_client_connection c s) = (map_option conn_ptr c,
     released s @ (case client_ptr s of None \<Rightarrow> [] | Some p \<Rightarrow> [p]), client_entity_id s, this_ptr s)"
  by (auto simp: owner_def set_client_connection_def drop_connection_def request_service_def Let_def
      split: option.split)

lemma owner_router:
  assumes "output_inv (ph, w)" and "router_step reply (ph, w) = Some (ph', v)"
  shows "owner (ses v) = owner (ses w)"
  using assms
proof (cases "(reply, (ph, w))" rule: router_step.cases)
  case (1 reply w)
  with assms show ?thesis by (auto simp: begin_processing_def owner_def Let_def split: if_splits)
next
  case (2 reply w)
  obtain t cis where t: "take_deletes (ses w) = (t, cis)" by fastforce
  with take_deletes_output [of "ses w"] have "output_ext (ses w) t" by simp
  with assms 2 t show ?thesis by (auto simp: output_ext_def)
next
  case (4 reply ci cis w)
  with assms(2) show ?thesis using unregister_channel_output [of w ci] by (auto simp: output_ext_def)
next
  case (5 reply w)
  with assms(2) show ?thesis by (auto simp: take_unblocked_def owner_def)
next
  case (6 reply invalid w)
  with assms(2) show ?thesis using remove_invalid_output [of "ses w" invalid] by (auto simp: output_ext_def)
next
  case (7 reply cid cids invalid w)
  obtain u bad where u: "process_unblocked cid w = (u, bad)" by fastforce
  with process_unblocked_output [of w cid] have "output_ext (ses w) (ses u)" by simp
  with assms 7 u show ?thesis by (auto simp: output_ext_def)
next
  case (8 reply w)
  then obtain t where t: "process_client reply (ses w) = Some t" and v: "v = w\<lparr>ses := t\<rparr>"
    using assms(2) by auto
  have "stream_ok (ses w)" using assms(1) 8 by (simp add: output_inv_def)
  from process_client_ends [OF this, of reply] t
  have "sends_from (ses w) t \<or> sends_from (ses w\<lparr>wait_reconnect_response := True\<rparr>) t" by auto
  then have "owner t = owner (ses w)" by (auto simp: sends_from_def)
  with 8 v show ?thesis by simp
qed auto

end
