(* ===== verification/SessionSafe.thy ===== *)
theory SessionSafe
  imports SessionInv
begin

text \<open>
  The channels of a session. A channel deletes itself when nobody holds a pointer to it any
  more; a session holds each of its channels once for every entry it has for it, so it never
  uses one that is gone. What the client sends is handed to a channel in the order it arrived.
\<close>

subsection \<open>Holding channels\<close>

definition entries :: "ptr \<Rightarrow> channel_info list \<Rightarrow> nat" where
  "entries p cis = length (filter (\<lambda>ci. ci_channel ci = Some p) cis)"

text \<open>The session at \<open>t\<close> holds a channel \<open>n\<close> times besides its registrations.\<close>

definition claims :: "ptr \<Rightarrow> nat \<Rightarrow> 'i channel \<Rightarrow> bool" where
  "claims t n c \<longleftrightarrow> n + (if t \<in> set (channel_control_listeners c) then 1 else 0)
     + (if recv_callback_ptr c = Some t then 1 else 0) \<le> count_list (pointer_holders c) t"

lemma entries_simps [simp]:
  "entries p [] = 0" "entries p (xs @ ys) = entries p xs + entries p ys"
  "entries p (ci # cis) = (if ci_channel ci = Some p then Suc (entries p cis) else entries p cis)"
  by (simp_all add: entries_def)

lemma entries_same: "list_all2 same_channel xs ys \<Longrightarrow> entries p ys = entries p xs"
  by (induction rule: list_all2_induct) (simp_all add: same_channel_def)

lemma entries_pos: "ci \<in> set cis \<Longrightarrow> ci_channel ci = Some p \<Longrightarrow> 0 < entries p cis"
  by (auto simp: entries_def filter_empty_conv)

lemma entries_mset: "mset xs = mset ys \<Longrightarrow> entries p xs = entries p ys"
  unfolding entries_def by (metis mset_filter size_mset)

lemma count_list_remove1: "count_list (remove1 x xs) y =
    (if x = y then count_list xs y - 1 else count_list xs y)"
  by (induction xs) auto

lemma count_list_pos: "0 < count_list xs x \<Longrightarrow> xs \<noteq> []"
  by auto

text \<open>The fields \<open>claims\<close> depends on, under the parts operations are made of.\<close>

lemma held_parts [simp]:
  "pointer_holders (check_status c) = pointer_holders c"
  "channel_control_listeners (check_status c) = channel_control_listeners c"
  "recv_callback_ptr (check_status c) = recv_callback_ptr c"
  "pointer_holders (delete_instance c) = pointer_holders c"
  "channel_control_listeners (delete_instance c) = channel_control_listeners c"
  "recv_callback_ptr (delete_instance c) = recv_callback_ptr c"
  by (simp_all add: check_status_def broadcast_status_def delete_instance_def Let_def)

lemma held_close [simp]:
  "pointer_holders (fst (internal_close_channel c)) = pointer_holders c"
  "channel_control_listeners (fst (internal_close_channel c)) = channel_control_listeners c"
  "recv_callback_ptr (fst (internal_close_channel c)) = recv_callback_ptr c"
  by (simp_all add: internal_close_channel_def Let_def)

lemma held_delete_if [simp]:
  "pointer_holders (delete_if r) = pointer_holders (fst r)"
  "channel_control_listeners (delete_if r) = channel_control_listeners (fst r)"
  "recv_callback_ptr (delete_if r) = recv_callback_ptr (fst r)"
  by (simp_all add: delete_if_def)

lemmas chan_op_defs = resource_added_to_process_def resource_removed_from_process_def
  next_resource_add_is_receiver_def close_channel_def block_channel_def unblock_channel_def
  channel_register_control_listener_def channel_register_pointer_holder_def
  channel_unregister_control_listener_def channel_unregister_pointer_holder_def
  register_receiver_callback_def unregister_receiver_callback_def chan_lock_def chan_unlock_def
  send_item_def channel_about_to_send_item_def channel_send_to_receiver_def

text \<open>What an operation does to the claims of the session at \<open>t\<close>.\<close>

definition concerns :: "ptr \<Rightarrow> 'i chan_op \<Rightarrow> bool" where
  "concerns t x \<longleftrightarrow> x \<in> {Listen (Some t), Unlisten (Some t), Hold (Some t), Unhold (Some t),
     Receive (Some t), Unreceive (Some t)}"

lemma claims_others:
  assumes "\<not> concerns t x" and "claims t n c"
  shows "claims t n (chan_apply x c)"
  using assms
  by (cases x) (auto simp: concerns_def claims_def chan_op_defs Let_def count_list_remove1
      in_set_remove1 split: option.splits prod.splits)

lemma claims_hold: "claims t n c \<Longrightarrow> claims t (Suc n) (chan_apply (Hold (Some t)) c)"
  by (simp add: claims_def chan_op_defs)

lemma claims_listen: "claims t n c \<Longrightarrow> claims t n (chan_apply (Listen (Some t)) c)"
  by (auto simp: claims_def chan_op_defs)

lemma claims_receive: "claims t n c \<Longrightarrow> claims t n (chan_apply (Receive (Some t)) c)"
  by (auto simp: claims_def chan_op_defs)

lemma claims_unlisten:
  "chan_ok c \<Longrightarrow> claims t n c \<Longrightarrow> claims t n (chan_apply (Unlisten (Some t)) c)"
  by (auto simp: claims_def chan_op_defs Let_def count_list_remove1 chan_ok_def refs_ok_def
      split: if_splits)

lemma claims_unreceive: "claims t n c \<Longrightarrow> claims t n (chan_apply (Unreceive (Some t)) c)"
  by (auto simp: claims_def chan_op_defs Let_def count_list_remove1 split: if_splits)

lemma claims_unhold: "claims t (Suc n) c \<Longrightarrow> claims t n (chan_apply (Unhold (Some t)) c)"
  by (auto simp: claims_def chan_op_defs Let_def count_list_remove1)

text \<open>A channel that is claimed is there.\<close>

lemma claimed_live: "chan_ok c \<Longrightarrow> claims t n c \<Longrightarrow> 0 < n \<Longrightarrow> \<not> chan_deleted c"
  by (auto simp: chan_ok_def refs_ok_def claims_def need_delete_instance_def dest: count_list_pos)

definition held :: "(ptr \<Rightarrow> nat) \<Rightarrow> ('t, 'm) world \<Rightarrow> bool" where
  "held n w \<longleftrightarrow> \<not> freed_use w
     \<and> (\<forall>p. chan_ok (chans w p) \<and> claims (this_ptr (ses w)) (n p) (chans w p))"

lemma this_ptr_use_chan [simp]: "this_ptr (ses (use_chan x p w)) = this_ptr (ses w)"
  using told_use_chan [of w x p] by (simp add: extends_def)

lemma this_ptr_chan_change [simp]: "this_ptr (ses (chan_change f p w)) = this_ptr (ses w)"
  using told_chan_change [of w f p] by (simp add: extends_def)

lemma use_chan_live: "\<not> chan_deleted (chans w p) \<Longrightarrow> use_chan x p w = chan_change (chan_apply x) p w"
  by (simp add: use_chan_def)

lemma chans_chan_change [simp]: "chans (chan_change f p w) = (chans w)(p := f (chans w p))"
  "freed_use (chan_change f p w) = freed_use w" "arrived (chan_change f p w) = arrived w"
  "handed (chan_change f p w) = handed w"
  by (simp_all add: chan_change_def Let_def)

lemma held_use_chan:
  assumes "held n w" and "\<not> chan_deleted (chans w p)"
    and "claims (this_ptr (ses w)) k (chan_apply x (chans w p))"
  shows "held (n(p := k)) (use_chan x p w)"
  using assms chan_step_ok [of "chans w p" x]
  by (auto simp: held_def use_chan_live chan_step_def)

lemma held_live: "held n w \<Longrightarrow> 0 < n p \<Longrightarrow> \<not> chan_deleted (chans w p)"
  unfolding held_def using claimed_live by blast

lemma held_claims: "held n w \<Longrightarrow> claims (this_ptr (ses w)) (n p) (chans w p)"
  "held n w \<Longrightarrow> chan_ok (chans w p)"
  by (simp_all add: held_def)

lemma held_others:
  assumes "held n w" and "\<not> chan_deleted (chans w p)" and "\<not> concerns (this_ptr (ses w)) x"
  shows "held n (use_chan x p w)"
  using held_use_chan [OF assms(1,2) claims_others [OF assms(3) held_claims(1) [OF assms(1)]]] by simp

lemma held_registrations:
  assumes "held n w" and "\<not> chan_deleted (chans w p)" and "this = Some (this_ptr (ses w))"
  shows "held n (use_chan (Listen this) p w)" "held n (use_chan (Receive this) p w)"
    "held n (use_chan (Unlisten this) p w)" "held n (use_chan (Unreceive this) p w)"
    "held (n(p := Suc (n p))) (use_chan (Hold this) p w)"
    "n p = Suc k \<Longrightarrow> held (n(p := k)) (use_chan (Unhold this) p w)"
  using assms held_claims [OF assms(1), of p]
    held_use_chan [OF assms(1,2), of "n p"] held_use_chan [OF assms(1,2)]
  by (simp_all del: chan_apply.simps add: claims_listen claims_receive claims_unlisten
      claims_unreceive claims_hold claims_unhold)

lemma held_session [simp]: "this_ptr s = this_ptr (ses w) \<Longrightarrow> held n (w\<lparr>ses := s\<rparr>) = held n w"
  by (simp add: held_def)

text \<open>Pointers of the session's own that no operation changes.\<close>

lemma this_ptr_fields [simp]:
  "this_ptr (push_status c ci st s) = this_ptr s"
  "this_ptr (set_blocked_queue cid q s) = this_ptr s"
  "this_ptr (set_blocked_id cid b s) = this_ptr s"
  "this_ptr (fst (get_blocked_queue cid s)) = this_ptr s"
  "this_ptr (remove_blocked_queue cid s) = this_ptr s"
  "this_ptr (fst (remove_pending_unblocked_channel cid s)) = this_ptr s"
  "this_ptr (queue_blocked_item cid k i s) = this_ptr s"
  "this_ptr (note_client_data now k s) = this_ptr s"
  "this_ptr (client_data_acknowledge_reconnect k s) = this_ptr s"
  "this_ptr (client_unblocked s) = this_ptr s" "this_ptr (request_unless_blocked s) = this_ptr s"
  "this_ptr (set_client_connection conn s) = this_ptr s"
  by (simp_all add: push_status_def set_blocked_queue_def set_blocked_id_def get_blocked_queue_def
      remove_blocked_queue_def remove_pending_unblocked_channel_def queue_blocked_item_def
      note_client_data_def request_unless_blocked_def client_data_acknowledge_reconnect_def
      client_unblocked_def set_client_connection_def drop_connection_def Let_def
      split: option.split prod.split)

lemma remove_invalid_fields [simp]:
  "this_ptr (remove_invalid_queues invalid s) = this_ptr s"
  unfolding remove_invalid_queues_def by (induction invalid arbitrary: s) simp_all

lemma held_chan_sends:
  assumes "held n w" and "0 < n p"
  shows "held n (fst (chan_sends cid i p w))"
  using held_others [OF assms(1) held_live [OF assms], of "SendItem i"]
  by (auto simp: chan_sends_def Let_def concerns_def held_def)

lemma held_drain:
  assumes "held n w" and "0 < n p"
  shows "held n (fst (drain_queue cid p queue w))"
  using assms(1)
proof (induction queue arbitrary: w)
  case (Cons e queue)
  then show ?case using held_chan_sends [OF Cons.prems assms(2)]
    by (auto simp: Let_def case_prod_beta split: option.split)
qed simp

lemma held_lock:
  assumes "held n w" and "0 < n p"
  shows "held n (use_chan LockChannel p w)" "held n (use_chan UnlockChannel p w)"
    "held n (use_chan CloseChannel p w)"
  using held_others [OF assms(1) held_live [OF assms]] by (simp_all add: concerns_def)

lemma held_unblock_queue:
  assumes "held n w" and "0 < n p"
  shows "held n (fst (unblock_channel_queue cid p w))"
proof -
  obtain s queue where s: "get_blocked_queue cid (ses w) = (s, queue)" by fastforce
  obtain v queue' invalid where v: "drain_queue cid p queue (w\<lparr>ses := s\<rparr>) = (v, queue', invalid)"
    by (cases "drain_queue cid p queue (w\<lparr>ses := s\<rparr>)")
  have "this_ptr s = this_ptr (ses w)" using this_ptr_fields(4) [of cid "ses w"] s by simp
  with assms(1) have "held n (w\<lparr>ses := s\<rparr>)" by (simp add: held_def)
  from held_drain [OF this assms(2), of cid queue] v have "held n v" by simp
  with s v assms(1) show ?thesis by (simp add: unblock_channel_queue_def Let_def)
qed

lemma find_first_in: "find P xs = Some x \<Longrightarrow> x \<in> set xs \<and> P x"
  by (metis find_Some_iff nth_mem)

lemma get_channel_info_active:
  "ci_channel (get_channel_info cid s) = Some p
    \<Longrightarrow> get_channel_info cid s \<in> set (active_channels s) \<and> ci_id (get_channel_info cid s) = cid"
  by (auto simp: get_channel_info_def channel_info_where_def invalid_channel_info_def
      split: option.splits dest: find_first_in)

lemma get_channel_entry:
  assumes "ci_channel (get_channel_info cid s) = Some p"
  shows "0 < entries p (active_channels s)"
  using entries_pos get_channel_info_active assms by blast

lemma held_process_unblocked:
  assumes "held n w" and "\<And>p. entries p (active_channels (ses w)) \<le> n p"
  shows "held n (fst (process_unblocked cid w))"
proof (cases "ci_channel (get_channel_info cid (ses w))")
  case (Some p)
  then have p: "0 < n p" using get_channel_entry assms(2) by (meson less_le_trans)
  with Some assms(1) show ?thesis
    by (simp add: process_unblocked_def Let_def held_lock held_unblock_queue)
qed (use assms(1) in \<open>simp add: process_unblocked_def\<close>)

lemma held_unregister:
  assumes "held n w" and "\<And>p. ci_channel ci = Some p \<Longrightarrow> n p = Suc (k p)"
    and "\<And>p. ci_channel ci \<noteq> Some p \<Longrightarrow> n p = k p"
  shows "held k (unregister_channel ci w)"
proof (cases "ci_channel ci")
  case None
  then have "n = k" using assms(3) by auto
  with None assms(1) show ?thesis by (simp add: unregister_channel_def)
next
  case (Some p)
  then have n: "n p = Suc (k p)" "n(p := k p) = k" using assms(2,3) by auto
  define me where "me = Some (this_ptr (ses w))"
  define w1 where "w1 = use_chan CloseChannel p (use_chan (Unlisten me) p w)"
  define w2 where "w2 = (if ci_out ci then use_chan (Unreceive me) p w1 else w1)"
  have me: "me = Some (this_ptr (ses w1))" "me = Some (this_ptr (ses w2))"
    by (simp_all add: me_def w1_def w2_def)
  have pos: "0 < n p" using n(1) by simp
  have w1: "held n w1" unfolding w1_def
    using held_registrations(3) [OF assms(1) held_live [OF assms(1) pos] me_def] pos
    by (rule held_lock)
  have w2: "held n w2" unfolding w2_def
    using held_registrations(4) [OF w1 held_live [OF w1 pos] me(1)] w1 by simp
  have "unregister_channel ci w = use_chan (Unhold me) p w2"
    using Some by (simp add: unregister_channel_def Let_def me_def w1_def w2_def)
  then show ?thesis
    using held_registrations(6) [OF w2 held_live [OF w2 pos] me(2) n(1)] n(2) by simp
qed

lemma swap_out_mset:
  "find P xs = Some x \<Longrightarrow> mset xs = add_mset x (mset (swap_out P xs))"
proof (induction xs)
  case (Cons y ys)
  show ?case
  proof (cases "P y")
    case True
    then have x: "x = y" using Cons.prems by simp
    show ?thesis
    proof (cases "ys = []")
      case False
      then have "mset ys = add_mset (last ys) (mset (butlast ys))"
        by (metis append_butlast_last_id mset_append mset.simps add.commute
            union_mset_add_mset_right add_0_right)
      with True x False show ?thesis by auto
    qed (use True x in simp)
  qed (use Cons in simp)
qed simp

lemma swap_out_entries: "find P xs = Some x
    \<Longrightarrow> entries p xs = entries p (swap_out P xs) + entries p [x]"
  using entries_mset [of xs "swap_out P xs @ [x]" p] swap_out_mset [of P xs x] by simp

lemma delete_channel_entries:
  assumes "delete_channel cid s = (t, ci)"
  shows "entries p (active_channels s) = entries p (active_channels t) + entries p [ci]"
    "this_ptr t = this_ptr s"
proof -
  have active: "active_channels (remove_blocked_queue c u) = active_channels u"
    "active_channels (fst (remove_pending_unblocked_channel c u)) = active_channels u"
    for c and u :: "('t, 'm) session"
    by (simp_all add: remove_blocked_queue_def remove_pending_unblocked_channel_def Let_def)
  show "entries p (active_channels s) = entries p (active_channels t) + entries p [ci]"
    "this_ptr t = this_ptr s"
    using assms swap_out_entries [of "\<lambda>ci. ci_id ci = cid" "active_channels s" _ p]
    by (auto simp: delete_channel_def Let_def active invalid_channel_info_def
        split: if_splits option.splits)
qed

lemma delete_each_entries:
  "delete_each cids s = (t, cis) \<Longrightarrow>
    entries p (active_channels s) = entries p (active_channels t) + entries p cis
      \<and> this_ptr t = this_ptr s"
proof (induction cids arbitrary: s t cis)
  case (Cons cid cids)
  obtain u ci where u: "delete_channel cid s = (u, ci)" by fastforce
  obtain v cjs where v: "delete_each cids u = (v, cjs)" by fastforce
  from Cons.IH [OF v] delete_channel_entries(1) [OF u, of p] delete_channel_entries(2) [OF u]
    Cons.prems u v
  show ?case by (auto simp: ci_valid_def split: if_splits)
qed simp

lemma take_deletes_entries:
  assumes "take_deletes s = (t, cis)"
  shows "entries p (active_channels s) = entries p (active_channels t) + entries p cis"
    "this_ptr t = this_ptr s"
proof -
  obtain u where "delete_each (pending_channels_delete s) s = (u, cis)"
    "t = u\<lparr>pending_channels_delete := []\<rparr>"
    using assms by (cases "delete_each (pending_channels_delete s) s") (auto simp: take_deletes_def)
  with delete_each_entries [of "pending_channels_delete s" s u cis p]
  show "entries p (active_channels s) = entries p (active_channels t) + entries p cis"
    "this_ptr t = this_ptr s" by simp_all
qed

subsection \<open>In every step\<close>

fun unregistering :: "phase \<Rightarrow> channel_info list" where
  "unregistering (Unregistering cis) = cis"
| "unregistering _ = []"

definition held_by :: "phase \<Rightarrow> ('t, 'm) session \<Rightarrow> ptr \<Rightarrow> nat" where
  "held_by ph s p = entries p (active_channels s) + entries p (unregistering ph)"

definition held_inv :: "phase \<times> ('t, 'm) world \<Rightarrow> bool" where
  "held_inv x \<longleftrightarrow> held (held_by (fst x) (ses (snd x))) (snd x)"

lemma held_by_extends: "extends s t \<Longrightarrow> held_by ph t = held_by ph s"
  by (rule ext) (simp add: held_by_def extends_def entries_same)

lemma held_by_active: "active_channels t = active_channels s \<Longrightarrow> held_by ph t = held_by ph s"
  by (rule ext) (simp add: held_by_def)

lemma extends_use_chan: "extends (ses w) (ses (use_chan x p w))"
  using told_use_chan by blast

lemma held_by_use_chan [simp]: "held_by ph (ses (use_chan x p w)) = held_by ph (ses w)"
  by (rule held_by_extends) (rule extends_use_chan)

lemma held_by_chan_change [simp]: "held_by ph (ses (chan_change f p w)) = held_by ph (ses w)"
  using told_chan_change by (blast intro: held_by_extends)

lemma held_by_chan_sends [simp]: "held_by ph (ses (fst (chan_sends cid i p w))) = held_by ph (ses w)"
  using told_chan_sends by (blast intro: held_by_extends)

lemma entries_update_first:
  "(\<And>ci. ci_channel (f ci) = ci_channel ci) \<Longrightarrow> entries p (update_first P f cis) = entries p cis"
  by (induction cis) simp_all

lemma held_by_fields [simp]:
  "held_by ph (push_status c ci st s) = held_by ph s"
  "held_by ph (set_blocked_queue cid q s) = held_by ph s"
  "held_by ph (set_blocked_id cid b s) = held_by ph s"
  "held_by ph (fst (get_blocked_queue cid s)) = held_by ph s"
  "held_by ph (queue_blocked_item cid k i s) = held_by ph s"
  "held_by ph (note_client_data now k s) = held_by ph s"
  "held_by ph (remove_blocked_queue cid s) = held_by ph s"
  by (simp_all add: fun_eq_iff held_by_def push_status_def set_blocked_queue_def set_blocked_id_def
      get_blocked_queue_def queue_blocked_item_def note_client_data_def request_unless_blocked_def
      entries_update_first remove_blocked_queue_def Let_def split: option.split prod.split)

lemma held_by_drain [simp]:
  "held_by ph (ses (fst (drain_queue cid p queue w))) = held_by ph (ses w)"
proof (induction queue arbitrary: w)
  case (Cons e queue)
  show ?case
  proof (cases "event_item e")
    case (Some i)
    obtain v ok where v: "chan_sends cid i p w = (v, ok)" by fastforce
    with held_by_chan_sends [of ph cid i p w] have "held_by ph (ses v) = held_by ph (ses w)" by simp
    with Cons.IH [of v] v Some show ?thesis by (simp add: Let_def)
  qed (simp add: Let_def)
qed simp

lemma held_by_unblock_queue [simp]:
  "held_by ph (ses (fst (unblock_channel_queue cid p w))) = held_by ph (ses w)"
proof -
  obtain s queue where s: "get_blocked_queue cid (ses w) = (s, queue)" by fastforce
  obtain v queue' invalid where v: "drain_queue cid p queue (w\<lparr>ses := s\<rparr>) = (v, queue', invalid)"
    by (cases "drain_queue cid p queue (w\<lparr>ses := s\<rparr>)")
  have "held_by ph s = held_by ph (ses w)" using held_by_fields(4) [of ph cid "ses w"] s by simp
  moreover have "held_by ph (ses v) = held_by ph s"
    using held_by_drain [of ph cid p queue "w\<lparr>ses := s\<rparr>"] v by simp
  ultimately show ?thesis using s v by (simp add: unblock_channel_queue_def Let_def)
qed

lemma held_by_process_unblocked [simp]:
  "held_by ph (ses (fst (process_unblocked cid w))) = held_by ph (ses w)"
  by (simp add: process_unblocked_def Let_def split: option.split)

lemma held_by_remove_invalid [simp]:
  "active_channels (remove_invalid_queues invalid s) = active_channels s"
proof -
  have "active_channels (remove_blocked_queue cid t) = active_channels t"
    for cid and t :: "('a, 'b) session" by (simp add: remove_blocked_queue_def Let_def)
  then show ?thesis
    unfolding remove_invalid_queues_def by (induction invalid arbitrary: s) simp_all
qed

lemma held_inv_same:
  "held_inv (ph, w) \<Longrightarrow> held (held_by ph (ses w)) v \<Longrightarrow> held_by ph' (ses v) = held_by ph (ses w)
    \<Longrightarrow> held_inv (ph', v)"
  by (simp add: held_inv_def)

lemma held_inv_session:
  "held_inv (ph, w) \<Longrightarrow> this_ptr t = this_ptr (ses w) \<Longrightarrow> active_channels t = active_channels (ses w)
    \<Longrightarrow> held_inv (ph, w\<lparr>ses := t\<rparr>)"
  using held_by_active [of t "ses w" ph] by (simp add: held_inv_def)

lemma active_held:
  "ci_channel (get_channel_info cid s) = Some p \<Longrightarrow> 0 < held_by ph s p"
  using get_channel_entry [of cid s p] by (simp add: held_by_def)

lemma note_arrival_held [simp]:
  "held n (note_arrival cid i w) = held n w" "chans (note_arrival cid i w) = chans w"
  by (simp_all add: held_def note_arrival_def)

lemma held_send_client_item:
  assumes "held n w" and "0 < n p"
  shows "held n (send_client_item cid k p i w)"
    "held_by ph (ses (send_client_item cid k p i w)) = held_by ph (ses w)"
proof -
  obtain v ok where v: "chan_sends cid i p w = (v, ok)" by fastforce
  with held_chan_sends [OF assms, of cid i] held_by_chan_sends [of ph cid i p w]
  have "held n v" "held_by ph (ses v) = held_by ph (ses w)" by simp_all
  moreover have "held_by ph (request_service (s\<lparr>need_disconnect := True\<rparr>)) = held_by ph s" for s :: "('a, 'b) session"
    by (rule held_by_active) simp
  ultimately show "held n (send_client_item cid k p i w)"
    "held_by ph (ses (send_client_item cid k p i w)) = held_by ph (ses w)"
    using v assms(1) by (simp_all add: send_client_item_def)
qed

lemma held_client_data:
  assumes "held_inv (ph, w)"
  shows "held_inv (ph, client_data_item now cid k item w)"
proof (cases "item = None \<or> ci_channel (get_channel_info cid (ses w)) = None
    \<or> ci_out (get_channel_info cid (ses w))")
  case True
  with assms show ?thesis
    by (auto simp: client_data_item_def Let_def split: option.split intro: held_inv_session)
next
  case False
  then obtain i p where i: "item = Some i" "ci_channel (get_channel_info cid (ses w)) = Some p"
    by auto
  define n where "n = held_by ph (ses w)"
  define v where "v = on_session (note_client_data now k) (use_chan LockChannel p w)"
  define u where "u = (if ci_blocked (get_channel_info cid (ses w))
      then note_arrival cid i (on_session (queue_blocked_item cid k i) v)
      else if ci_closed (get_channel_info cid (ses w)) then v else send_client_item cid k p i v)"
  have n: "held n w" "0 < n p" using assms active_held [OF i(2)] by (simp_all add: n_def held_inv_def)
  have v: "held n v" "held_by ph (ses v) = n"
    using held_lock(1) [OF n] by (simp_all add: v_def n_def)
  have "held n u" "held_by ph (ses u) = n"
    using v held_send_client_item [OF v(1) n(2)] by (simp_all add: u_def)
  with held_lock(2) [OF \<open>held n u\<close> n(2)]
  have "held_inv (ph, use_chan UnlockChannel p u)" by (simp add: held_inv_def)
  moreover have "client_data_item now cid k item w = use_chan UnlockChannel p u"
    using i False by (simp add: client_data_item_def Let_def u_def v_def)
  ultimately show ?thesis by simp
qed

lemma held_close_request: "held_inv (ph, w) \<Longrightarrow> held_inv (ph, client_request_channel_close cid w)"
  by (auto simp: client_request_channel_close_def held_inv_def active_held
      intro!: held_lock split: option.split)

lemma lock_live: "\<not> chan_deleted (chan_lock c)  = (\<not> chan_deleted c)"
  by (simp add: chan_lock_def)

lemma held_announce:
  assumes "held n w"
  shows "held n (announce_channel cid p b w)" "chans (announce_channel cid p b w) = chans w"
  using assms by (simp_all add: announce_channel_def held_def Let_def)

lemma held_by_announce:
  "held_by ph (ses (announce_channel cid p b w))
     = (held_by ph (ses w))(p := Suc (held_by ph (ses w) p))"
  by (simp add: fun_eq_iff announce_channel_def Let_def held_by_def push_status_def
      request_unless_blocked_def channel_info_new_def)

lemma held_channel_added:
  assumes inv: "held_inv (ph, w)" and live: "\<And>p. c = Some p \<Longrightarrow> \<not> chan_deleted (chans w p)"
    and r: "channel_added c b w = Some (v, cid)"
  shows "held_inv (ph, v)"
proof (cases c)
  case (Some p)
  define n where "n = held_by ph (ses w)"
  define w1 where "w1 = use_chan LockChannel p w"
  obtain s where s: "get_next_channel_id (ses w1) = Some (s, cid)"
    and v: "v = use_chan UnlockChannel p (register_session p b
      (announce_channel cid p b (w1\<lparr>ses := s\<rparr>)))"
    using r Some by (auto simp: channel_added_def Let_def w1_def split: option.splits)
  have ts: "this_ptr s = this_ptr (ses w1)" "active_channels s = active_channels (ses w1)"
    using s by (auto simp: get_next_channel_id_def split: if_splits)
  have w1: "held n w1" "held_by ph (ses w1) = n" "\<not> chan_deleted (chans w1 p)"
    using inv held_others [of n w p LockChannel] live [OF Some]
    by (simp_all add: w1_def n_def held_inv_def concerns_def use_chan_live chan_lock_def)
  define w2 where "w2 = announce_channel cid p b (w1\<lparr>ses := s\<rparr>)"
  have w2: "held n w2" "held_by ph (ses w2) = n(p := Suc (n p))" "\<not> chan_deleted (chans w2 p)"
    using held_announce [of n "w1\<lparr>ses := s\<rparr>" cid p b] w1 ts held_by_active [OF ts(2), of ph]
    by (simp_all add: w2_def held_by_announce)
  define me where "me = Some (this_ptr (ses w2))"
  define w3 where "w3 = use_chan (Listen me) p (use_chan (Hold me) p w2)"
  define m where "m = n(p := Suc (n p))"
  have hold: "held m (use_chan (Hold me) p w2)"
    using held_registrations(5) [OF w2(1,3) me_def] by (simp add: m_def)
  have pos: "0 < m p" by (simp add: m_def)
  have w3: "held m w3" "held_by ph (ses w3) = m"
    using held_registrations(1) [OF hold held_live [OF hold pos]] w2(2)
    by (simp_all add: w3_def me_def m_def)
  define w4 where "w4 = (if b then use_chan (Receive me) p w3 else w3)"
  have w4: "held m w4" "held_by ph (ses w4) = m"
    using held_registrations(2) [OF w3(1) held_live [OF w3(1) pos]] w3
    by (simp_all add: w4_def me_def w3_def)
  have "v = use_chan UnlockChannel p w4"
    by (simp add: v register_session_def Let_def w4_def w3_def w2_def me_def)
  with held_lock(2) [OF w4(1) pos] w4(2) show ?thesis by (simp add: held_inv_def)
qed (use inv r in \<open>simp add: channel_added_def\<close>)

lemma session_op_fields [simp]:
  "this_ptr (client_disconnected s) = this_ptr s" "this_ptr (request_disconnection s) = this_ptr s"
  "this_ptr (set_activity_time_to_now now s) = this_ptr s"
  "active_channels (client_disconnected s) = active_channels s"
  "active_channels (request_disconnection s) = active_channels s"
  "active_channels (set_activity_time_to_now now s) = active_channels s"
  "active_channels (client_unblocked s) = active_channels s"
  "active_channels (client_data_acknowledge_reconnect k s) = active_channels s"
  "active_channels (set_client_connection conn s) = active_channels s"
  by (simp_all add: client_disconnected_def request_disconnection_def client_unblocked_def
      set_activity_time_to_now_def client_data_acknowledge_reconnect_def set_client_connection_def
      drop_connection_def Let_def split: option.split)

lemma held_inv_do:
  assumes inv: "held_inv (ph, w)" and ok: "op_allowed ph x w" and r: "session_do x w = Some v"
  shows "held_inv (ph, v)"
proof (cases x)
  case (ClientData now cid n i)
  with r held_client_data [OF inv] show ?thesis by simp blast
next
  case (RequestChannelClose cid)
  with r held_close_request [OF inv] show ?thesis by simp blast
next
  case (ChannelAdded c b)
  then obtain cid where "channel_added c b w = Some (v, cid)" using r by auto
  moreover have "\<not> chan_deleted (chans w p)" if "c = Some p" for p
    using ok ChannelAdded that by (simp add: op_allowed_def)
  ultimately show ?thesis using held_channel_added [OF inv, of c b v cid] by blast
next
  case (OtherChannel p y)
  then have v: "v = chan_change (chan_step y) p w" using r by simp
  have y: "\<not> concerns (this_ptr (ses w)) y"
    using ok OtherChannel by (auto simp: op_allowed_def concerns_def Let_def)
  have "held (held_by ph (ses w)) v"
    using inv claims_others [OF y] chan_step_ok [of "chans w p" y]
    by (auto simp: v held_inv_def held_def chan_step_def simp del: chan_apply.simps)
  then show ?thesis by (simp add: held_inv_def v)
qed (use r in \<open>auto intro!: held_inv_session [OF inv]\<close>)

lemma sends_from_held: "sends_from s t \<Longrightarrow> this_ptr t = this_ptr s \<and> active_channels t = active_channels s"
  by (simp add: sends_from_def)

lemma held_inv_router:
  assumes inv: "held_inv (ph, w)" and stream: "stream_ok (ses w)"
    and r: "router_step reply (ph, w) = Some (ph', v)"
  shows "held_inv (ph', v)"
proof (cases "(reply, (ph, w))" rule: router_step.cases)
  case (1 reply w)
  with inv r show ?thesis
    by (auto simp: begin_processing_def held_inv_def held_by_def [abs_def] Let_def split: if_splits)
next
  case (2 reply w)
  obtain t cis where t: "take_deletes (ses w) = (t, cis)" by fastforce
  from take_deletes_entries [OF t] have "held_by (Unregistering cis) t = held_by Deleting (ses w)"
    "this_ptr t = this_ptr (ses w)" by (simp_all add: fun_eq_iff held_by_def)
  with inv r 2 t show ?thesis by (auto simp: held_inv_def)
next
  case (4 reply ci cis w)
  define n where "n = held_by (Unregistering (ci # cis)) (ses w)"
  define k where "k = held_by (Unregistering cis) (ses w)"
  have "held n w" using inv 4 by (simp add: held_inv_def n_def)
  then have "held k (unregister_channel ci w)"
    by (rule held_unregister) (simp_all add: n_def k_def held_by_def)
  moreover have "held_by (Unregistering cis) (ses (unregister_channel ci w)) = k"
    by (simp add: k_def unregister_channel_def Let_def split: option.split)
  ultimately show ?thesis using r 4 by (auto simp: held_inv_def)
next
  case (7 reply cid cids invalid w)
  have "held (held_by ph (ses w)) (fst (process_unblocked cid w))"
    using inv 7 by (intro held_process_unblocked) (simp_all add: held_inv_def held_by_def)
  moreover obtain u bad where u: "process_unblocked cid w = (u, bad)" by fastforce
  moreover from this have "held_by ph' (ses u) = held_by ph' (ses w)"
    using held_by_process_unblocked [of ph' cid w] by simp
  ultimately show ?thesis using r 7 by (auto simp: held_inv_def held_by_def [abs_def])
next
  case (8 reply w)
  then obtain t where t: "process_client reply (ses w) = Some t" and v: "ph' = Idle" "v = w\<lparr>ses := t\<rparr>"
    using r by auto
  have "this_ptr t = this_ptr (ses w) \<and> active_channels t = active_channels (ses w)"
    using process_client_ends [OF stream, of reply] t 8 by (auto dest!: sends_from_held)
  then show ?thesis using inv v 8 by (auto simp: held_inv_def held_by_def [abs_def])
qed (use inv r in \<open>auto simp: held_inv_def held_by_def [abs_def] take_unblocked_def\<close>)

lemma held_inv_start: "session_start w \<Longrightarrow> held_inv (Idle, w)"
  by (auto simp: session_start_def held_inv_def held_def held_by_def claims_def session_new_def)

lemma held_inv_reachable: "reachable_session x \<Longrightarrow> held_inv x"
proof (induction rule: reachable_session.induct)
  case (step x y)
  from output_inv_reachable [OF step.hyps(1)] have "stream_ok (ses (snd x))"
    by (simp add: output_inv_def)
  with step.IH show ?case
    by (cases rule: session_step.cases [OF step.hyps(2)])
      (auto intro: held_inv_do held_inv_router)
qed (rule held_inv_start)

end
