(* ===== verification/SessionOrder.thy ===== *)
theory SessionOrder
  imports SessionSafe
begin

text \<open>
  Data from the client. For every channel the items that arrived are those handed to the
  channel followed by those still queued, in the same order: queued items are never overtaken,
  lost or sent twice.
\<close>

subsection \<open>The queues of blocked channels\<close>

definition queue_of :: "u32 \<Rightarrow> ('t, 'm) session \<Rightarrow> ('t, 'm) router_event list" where
  "queue_of cid s = (case find_queue cid s of None \<Rightarrow> [] | Some q \<Rightarrow> q)"

lemma find_update_first_same:
  "find P xs = Some x \<Longrightarrow> P (f x) \<Longrightarrow> find P (update_first P f xs) = Some (f x)"
  by (induction xs) auto

lemma find_update_first_other:
  "(\<And>x. P x \<Longrightarrow> \<not> Q x \<and> \<not> Q (f x)) \<Longrightarrow> find Q (update_first P f xs) = find Q xs"
  by (induction xs) auto

lemma find_append: "find P (xs @ ys) = (case find P xs of None \<Rightarrow> find P ys | Some x \<Rightarrow> Some x)"
  by (induction xs) auto

lemma find_take_none:
  assumes "find P (take n xs) = None" and "find P xs = Some x"
  shows "x \<in> set (drop n xs)"
proof -
  have "find P (take n xs @ drop n xs) = Some x" using assms(2) by simp
  then have "find P (drop n xs) = Some x" using assms(1) by (simp only: find_append option.case)
  then show ?thesis by (simp add: find_first_in)
qed

lemma find_queue_get:
  "get_blocked_queue cid s = (t, q) \<Longrightarrow> find_queue cid t = Some q \<and> q = queue_of cid s"
  by (auto simp: get_blocked_queue_def find_queue_def queue_of_def find_append split: option.splits)

lemma queue_of_get: "get_blocked_queue cid s = (t, q) \<Longrightarrow> queue_of c t = queue_of c s"
  by (auto simp: get_blocked_queue_def find_queue_def queue_of_def find_append
      split: option.splits if_splits)

lemma queue_of_set:
  "find_queue cid s = Some q0
    \<Longrightarrow> queue_of c (set_blocked_queue cid q s) = (if c = cid then q else queue_of c s)"
proof -
  assume "find_queue cid s = Some q0"
  then obtain a where a: "find (\<lambda>p. fst p = cid) (blocked_channel_queues s) = Some (a, q0)"
    by (auto simp: find_queue_def)
  then have "a = cid" by (auto dest: find_first_in)
  with find_update_first_same [OF a, of "\<lambda>p. (fst p, q)"] show ?thesis
    by (auto simp: find_queue_def queue_of_def set_blocked_queue_def find_update_first_other)
qed

lemma trim_index_empty:
  "trim_index qs i \<le> j \<Longrightarrow> j \<le> i \<Longrightarrow> snd (qs ! j) = []"
  by (induction i) (auto simp: trim_index.simps le_Suc_eq split: if_splits)

lemma trim_index_bound: "trim_index qs i \<le> Suc i"
  by (induction i) (auto simp: trim_index.simps le_SucI)

lemma trim_index_last: "trim_index qs i = 0 \<or> snd (qs ! (trim_index qs i - 1)) \<noteq> []"
  by (induction i) (auto simp: trim_index.simps)

lemma queue_of_trim:
  assumes "find_queue cid s = Some q0"
  shows "queue_of c (remove_blocked_queue cid s) = (if c = cid then [] else queue_of c s)"
proof -
  define qs where "qs = blocked_channel_queues (set_blocked_queue cid [] s)"
  define n where "n = trim_index qs (length qs - 1)"
  have qs: "qs = update_first (\<lambda>p. fst p = cid) (\<lambda>p. (fst p, [])) (blocked_channel_queues s)"
    by (simp add: qs_def set_blocked_queue_def)
  have r: "blocked_channel_queues (remove_blocked_queue cid s) = take n qs"
    using assms by (simp add: remove_blocked_queue_def Let_def qs n_def)
  have empty: "snd q = []" if q: "q \<in> set (drop n qs)" for q
  proof -
    from q obtain j where "j < length (drop n qs)" "q = drop n qs ! j" by (auto simp: in_set_conv_nth)
    then show ?thesis using trim_index_empty [of qs "length qs - 1" "n + j"] by (simp add: n_def)
  qed
  have "queue_of c (remove_blocked_queue cid s) = queue_of c (set_blocked_queue cid [] s)"
  proof (cases "find (\<lambda>q. fst q = c) (take n qs)")
    case None
    then have "snd q = []" if "find (\<lambda>q. fst q = c) qs = Some q" for q
      using empty find_take_none [OF None that] by simp
    with None show ?thesis
      by (auto simp: queue_of_def find_queue_def r qs_def [symmetric] split: option.split)
  next
    case (Some q)
    then have "find (\<lambda>q. fst q = c) (take n qs @ drop n qs) = Some q"
      by (simp only: find_append option.case)
    with Some show ?thesis by (simp add: queue_of_def find_queue_def r qs_def [symmetric])
  qed
  then show ?thesis using queue_of_set [OF assms] by simp
qed

lemma queue_of_remove:
  "queue_of c (remove_blocked_queue cid s) = (if c = cid then [] else queue_of c s)"
proof (cases "find_queue cid s")
  case None
  then show ?thesis by (simp add: remove_blocked_queue_def queue_of_def)
qed (rule queue_of_trim)

lemma queue_of_cong: "blocked_channel_queues t = blocked_channel_queues s \<Longrightarrow> queue_of c t = queue_of c s"
  by (simp add: queue_of_def find_queue_def)

subsection \<open>The invariant\<close>

definition log_of :: "u32 \<Rightarrow> (u32 \<times> 'i) list \<Rightarrow> 'i list" where
  "log_of cid l = map snd (filter (\<lambda>a. fst a = cid) l)"

lemma log_of_simps [simp]:
  "log_of cid (xs @ ys) = log_of cid xs @ log_of cid ys"
  "log_of cid [(c, i)] = (if c = cid then [i] else [])" "log_of cid [] = []"
  "log_of cid (filter (\<lambda>a. fst a \<noteq> c) l) = (if c = cid then [] else log_of cid l)"
  by (auto simp: log_of_def intro: arg_cong2 [where f = map] filter_cong)

definition channel_ids :: "('t, 'm) session \<Rightarrow> u32 list" where
  "channel_ids s = map ci_id (active_channels s)"

definition ids_ok :: "('t, 'm) session \<Rightarrow> bool" where
  "ids_ok s \<longleftrightarrow> distinct (channel_ids s) \<and> 0 \<notin> set (channel_ids s)
     \<and> None \<notin> set (map ci_channel (active_channels s))"

definition queues_ok :: "('t, 'm) session \<Rightarrow> bool" where
  "queues_ok s \<longleftrightarrow> (\<forall>cid. queue_of cid s \<noteq> [] \<longrightarrow>
        (\<exists>ci \<in> set (active_channels s). ci_id ci = cid \<and> ci_blocked ci))
     \<and> (\<forall>cid. \<forall>e \<in> set (queue_of cid s). event_item e \<noteq> None)"

definition in_order :: "('t, 'm) world \<Rightarrow> u32 \<Rightarrow> bool" where
  "in_order w cid \<longleftrightarrow> map Some (log_of cid (arrived w))
     = map Some (log_of cid (handed w)) @ map event_item (queue_of cid (ses w))"

fun invalid_of :: "phase \<Rightarrow> u32 list" where
  "invalid_of (Unblocking cids invalid) = invalid"
| "invalid_of _ = []"

definition order_ok :: "('t, 'm) world \<Rightarrow> bool" where
  "order_ok w \<longleftrightarrow> ids_ok (ses w) \<and> queues_ok (ses w)
     \<and> (\<forall>cid \<in> set (channel_ids (ses w)). in_order w cid)"

definition order_inv :: "phase \<times> ('t, 'm) world \<Rightarrow> bool" where
  "order_inv x \<longleftrightarrow> order_ok (snd x)
     \<and> set (invalid_of (fst x)) \<inter> set (channel_ids (ses (snd x))) = {}"

subsection \<open>Callbacks\<close>

lemma same_channels_ids:
  "list_all2 same_channel xs ys \<Longrightarrow> map ci_id ys = map ci_id xs"
  "list_all2 same_channel xs ys \<Longrightarrow> map ci_channel ys = map ci_channel xs"
  by (induction rule: list_all2_induct; simp add: same_channel_def)+

lemma same_channels_blocked:
  "list_all2 same_channel xs ys \<Longrightarrow> ci \<in> set xs \<Longrightarrow> ci_blocked ci
    \<Longrightarrow> \<exists>cj \<in> set ys. ci_id cj = ci_id ci \<and> ci_blocked cj"
  by (induction rule: list_all2_induct) (auto simp: same_channel_def)

lemma extends_ids:
  assumes "extends s t"
  shows "channel_ids t = channel_ids s" "ids_ok t = ids_ok s" "queue_of cid t = queue_of cid s"
proof -
  have "list_all2 same_channel (active_channels s) (active_channels t)"
    using assms by (simp add: extends_def)
  note ids = same_channels_ids [OF this]
  show "channel_ids t = channel_ids s" by (simp add: channel_ids_def ids)
  then show "ids_ok t = ids_ok s" unfolding ids_ok_def ids by simp
  show "queue_of cid t = queue_of cid s"
    using assms by (intro queue_of_cong) (simp add: extends_def)
qed

lemma extends_queues:
  assumes "extends s t" and "queues_ok s"
  shows "queues_ok t"
proof -
  have same: "list_all2 same_channel (active_channels s) (active_channels t)"
    using assms(1) by (simp add: extends_def)
  show ?thesis using assms(2) same_channels_blocked [OF same]
    unfolding queues_ok_def extends_ids(3) [OF assms(1)] by fastforce
qed

lemma order_ok_extends:
  assumes "order_ok w" and "extends (ses w) (ses v)" and "arrived v = arrived w" and "handed v = handed w"
  shows "order_ok v"
  using assms extends_queues [OF assms(2)]
  by (simp add: order_ok_def in_order_def extends_ids [OF assms(2)])

lemma use_chan_logs [simp]:
  "arrived (use_chan x p w) = arrived w" "handed (use_chan x p w) = handed w"
  by (simp_all add: use_chan_def)

lemma order_ok_use_chan: "order_ok w \<Longrightarrow> order_ok (use_chan x p w)"
  by (rule order_ok_extends [OF _ extends_use_chan]) simp_all

lemma ids_use_chan [simp]:
  "channel_ids (ses (use_chan x p w)) = channel_ids (ses w)"
  by (rule extends_ids(1) [OF extends_use_chan])

subsection \<open>Items of the client\<close>

lemma event_item_event [simp]: "event_item (item_event i n c) = Some i"
  by (cases i) simp_all

declare event_item.simps [simp del]

lemma active_unique:
  "ids_ok s \<Longrightarrow> ci \<in> set (active_channels s) \<Longrightarrow> cj \<in> set (active_channels s)
    \<Longrightarrow> ci_id ci = ci_id cj \<Longrightarrow> ci = cj"
  by (auto simp: ids_ok_def channel_ids_def distinct_map dest: inj_onD)

lemma info_active:
  assumes "ci_channel (get_channel_info cid s) = Some p"
  shows "get_channel_info cid s \<in> set (active_channels s)" "ci_id (get_channel_info cid s) = cid"
    "cid \<in> set (channel_ids s)"
  using get_channel_info_active [OF assms] by (auto simp: channel_ids_def image_iff intro: sym)

lemma unblocked_queue_empty:
  assumes "ids_ok s" and "queues_ok s" and "ci_channel (get_channel_info cid s) = Some p"
    and "\<not> ci_blocked (get_channel_info cid s)"
  shows "queue_of cid s = []"
  using assms active_unique [OF assms(1)] info_active [OF assms(3)]
  unfolding queues_ok_def by metis

lemma queue_blocked_effect:
  "active_channels (queue_blocked_item cid k i s) = active_channels s"
  "queue_of c (queue_blocked_item cid k i s)
     = (if c = cid then queue_of cid s @ [item_event i k 0] else queue_of c s)"
proof -
  obtain t q where t: "get_blocked_queue cid s = (t, q)" by fastforce
  note q = find_queue_get [OF t] queue_of_get [OF t]
  have "active_channels t = active_channels s"
    using t by (auto simp: get_blocked_queue_def split: option.splits)
  then show "active_channels (queue_blocked_item cid k i s) = active_channels s"
    by (simp add: queue_blocked_item_def t Let_def set_blocked_queue_def)
  have "queue_of c (queue_blocked_item cid k i s)
      = queue_of c (set_blocked_queue cid (q @ [item_event i k 0]) t)"
    by (rule queue_of_cong) (simp add: queue_blocked_item_def t Let_def)
  then show "queue_of c (queue_blocked_item cid k i s)
     = (if c = cid then queue_of cid s @ [item_event i k 0] else queue_of c s)"
    using q by (simp add: queue_of_set)
qed

lemma channel_ids_cong: "active_channels t = active_channels s \<Longrightarrow> channel_ids t = channel_ids s"
  by (simp add: channel_ids_def)

lemma order_ok_queue:
  assumes "order_ok w" and "ci \<in> set (active_channels (ses w))" and "ci_id ci = cid" and "ci_blocked ci"
  shows "order_ok (note_arrival cid i (on_session (queue_blocked_item cid k i) w))"
proof -
  have "ids_ok (queue_blocked_item cid k i (ses w))"
    using assms(1) by (simp add: order_ok_def ids_ok_def channel_ids_def queue_blocked_effect)
  moreover have "queues_ok (queue_blocked_item cid k i (ses w))"
    using assms by (auto simp: order_ok_def queues_ok_def queue_blocked_effect)
  ultimately show ?thesis
    using assms(1) by (simp add: order_ok_def in_order_def channel_ids_def note_arrival_def
        queue_blocked_effect)
qed

lemma chan_sends_effect:
  assumes "chan_sends cid i p w = (v, ok)"
  shows "extends (ses w) (ses v)" "arrived v = arrived w"
    "handed v = handed w @ (if ok then [(cid, i)] else [])" "chans v = chans (use_chan (SendItem i) p w)"
proof -
  show "extends (ses w) (ses v)" using told_chan_sends [of w cid i p] assms by simp
  show "arrived v = arrived w" "handed v = handed w @ (if ok then [(cid, i)] else [])"
    "chans v = chans (use_chan (SendItem i) p w)"
    using assms by (auto simp: chan_sends_def Let_def)
qed

lemma order_ok_sent:
  assumes "order_ok w" and "queue_of cid (ses w) = []" and "chan_sends cid i p w = (v, True)"
  shows "order_ok (note_arrival cid i v)"
  using assms(1,2) chan_sends_effect [OF assms(3)] extends_ids [OF chan_sends_effect(1) [OF assms(3)]]
    extends_queues [OF chan_sends_effect(1) [OF assms(3)]]
  by (simp add: order_ok_def in_order_def note_arrival_def)

lemma chan_sends_fails:
  assumes "held n w" and "0 < n p" and "chan_sends cid i p w = (v, False)"
  shows "channel_is_blocked (chans v p) \<or> channel_is_closed (chans v p)"
proof -
  have live: "\<not> chan_deleted (chans w p)" and ok: "chan_ok (chans w p)"
    using held_live [OF assms(1,2)] assms(1) by (simp_all add: held_def)
  have fails: "\<not> snd (send_item i (chans w p))"
    using assms(3) by (simp add: chan_sends_def Let_def split: if_splits)
  have "chans v p = fst (send_item i (chans w p))"
    using chan_sends_effect(4) [OF assms(3)] live by (simp add: use_chan_live)
  then show ?thesis using fails ok
    by (auto simp: send_item_def channel_about_to_send_item_def chan_ok_def flow_of_def
        channel_is_blocked_def channel_is_closed_def Let_def split: if_splits)
qed

lemma drain_queue_effect:
  assumes "drain_queue cid p queue w = (v, queue', invalid)"
  shows "extends (ses w) (ses v)" "arrived v = arrived w"
    "\<exists>taken. queue = taken @ queue' \<and> (\<forall>e \<in> set taken. event_item e \<noteq> None)
       \<and> handed v = handed w @ map (\<lambda>e. (cid, the (event_item e))) taken"
  using assms
proof (induction queue arbitrary: w)
  case (Cons e queue)
  {
    case 1
    then show ?case
    proof (cases "event_item e")
      case (Some i)
      obtain u ok where u: "chan_sends cid i p w = (u, ok)" by fastforce
      from 1 Some u Cons.IH(1) [of u] chan_sends_effect(1) [OF u] show ?thesis
        by (auto simp: Let_def split: if_splits intro: extends_trans)
    qed (auto simp: Let_def)
  next
    case 2
    then show ?case
    proof (cases "event_item e")
      case (Some i)
      obtain u ok where u: "chan_sends cid i p w = (u, ok)" by fastforce
      from 2 Some u Cons.IH(2) [of u] chan_sends_effect(2) [OF u] show ?thesis
        by (auto simp: Let_def split: if_splits)
    qed (auto simp: Let_def)
  next
    case 3
    then show ?case
    proof (cases "event_item e")
      case (Some i)
      obtain u ok where u: "chan_sends cid i p w = (u, ok)" by fastforce
      show ?thesis
      proof (cases ok)
        case True
        with 3 Some u have "drain_queue cid p queue u = (v, queue', invalid)" by (simp add: Let_def)
        from Cons.IH(3) [OF this] obtain taken where "queue = taken @ queue'"
          "\<forall>e \<in> set taken. event_item e \<noteq> None"
          "handed v = handed u @ map (\<lambda>e. (cid, the (event_item e))) taken" by blast
        then have "e # queue = (e # taken) @ queue' \<and> (\<forall>e \<in> set (e # taken). event_item e \<noteq> None)
          \<and> handed v = handed w @ map (\<lambda>e. (cid, the (event_item e))) (e # taken)"
          using chan_sends_effect(3) [OF u] True Some by simp
        then show ?thesis by blast
      next
        case False
        with 3 Some u chan_sends_effect(3) [OF u] show ?thesis by (auto simp: Let_def)
      qed
    qed (auto simp: Let_def)
  }
qed simp_all

lemma drain_queue_valid:
  assumes "held n w" and "0 < n p" and "\<forall>e \<in> set queue. event_item e \<noteq> None"
    and "drain_queue cid p queue w = (v, queue', invalid)"
  shows "invalid = []"
  using assms(1,3,4)
proof (induction queue arbitrary: w)
  case (Cons e queue)
  then obtain i where i: "event_item e = Some i" by auto
  obtain u ok where u: "chan_sends cid i p w = (u, ok)" by fastforce
  have held: "held n u" using held_chan_sends [OF Cons.prems(1) assms(2), of cid i] u by simp
  show ?case
  proof (cases ok)
    case True
    with Cons.IH [OF held] Cons.prems u i show ?thesis by (simp add: Let_def)
  next
    case False
    with chan_sends_fails [OF Cons.prems(1) assms(2)] Cons.prems u i show ?thesis
      by (auto simp: Let_def)
  qed
qed simp

lemma map_update_first: "(\<And>x. g (f x) = g x) \<Longrightarrow> map g (update_first P f xs) = map g xs"
  by (induction xs) simp_all

lemma update_first_keeps: "x \<in> set xs \<Longrightarrow> \<not> P x \<Longrightarrow> x \<in> set (update_first P f xs)"
  by (induction xs) auto

lemma set_blocked_id_ids:
  "channel_ids (set_blocked_id cid b s) = channel_ids s" "ids_ok (set_blocked_id cid b s) = ids_ok s"
  "queue_of c (set_blocked_id cid b s) = queue_of c s"
  by (simp_all add: ids_ok_def channel_ids_def set_blocked_id_def map_update_first queue_of_def
      find_queue_def del: set_map flip: set_map)

lemma set_blocked_id_queues:
  assumes "queues_ok s" and "queue_of cid s = []"
  shows "queues_ok (set_blocked_id cid b s)"
proof -
  have "\<exists>ci \<in> set (active_channels (set_blocked_id cid b s)). ci_id ci = c \<and> ci_blocked ci"
    if c: "queue_of c s \<noteq> []" for c
  proof -
    have "c \<noteq> cid" using c assms(2) by auto
    moreover from assms(1) c obtain ci where "ci \<in> set (active_channels s)" "ci_id ci = c"
      "ci_blocked ci" unfolding queues_ok_def by blast
    ultimately show ?thesis by (auto simp: set_blocked_id_def intro!: bexI [of _ ci] update_first_keeps)
  qed
  with assms(1) show ?thesis unfolding queues_ok_def set_blocked_id_ids by blast
qed

lemma queues_ok_subset:
  assumes "queues_ok s" and "active_channels t = active_channels s"
    and "\<And>c. set (queue_of c t) \<subseteq> set (queue_of c s)"
  shows "queues_ok t"
  unfolding queues_ok_def assms(2)
proof (intro conjI allI impI ballI)
  fix c
  show "\<exists>ci \<in> set (active_channels s). ci_id ci = c \<and> ci_blocked ci" if "queue_of c t \<noteq> []"
  proof -
    have "queue_of c s \<noteq> []" using that assms(3) [of c] by auto
    then show ?thesis using assms(1) unfolding queues_ok_def by blast
  qed
  show "event_item e \<noteq> None" if "e \<in> set (queue_of c t)" for e
    using that assms(1,3) unfolding queues_ok_def by blast
qed

lemma unblock_queue_order:
  assumes ok: "order_ok w" and held: "held n w" "0 < n p" and cid: "cid \<in> set (channel_ids (ses w))"
    and r: "unblock_channel_queue cid p w = (v, invalid)"
  shows "order_ok v" "channel_ids (ses v) = channel_ids (ses w)" "invalid = []"
proof -
  have "order_ok v \<and> channel_ids (ses v) = channel_ids (ses w) \<and> invalid = []"
  proof (cases "channel_is_closed (chans w p)")
    case True
    then show ?thesis using r ok by (simp add: unblock_channel_queue_def)
  next
    case False
    obtain s queue where s: "get_blocked_queue cid (ses w) = (s, queue)" by fastforce
    obtain u queue' bad where u: "drain_queue cid p queue (w\<lparr>ses := s\<rparr>) = (u, queue', bad)"
      by (cases "drain_queue cid p queue (w\<lparr>ses := s\<rparr>)")
    have s_ids: "active_channels s = active_channels (ses w)" "this_ptr s = this_ptr (ses w)"
      using s by (auto simp: get_blocked_queue_def split: option.splits)
    note q = find_queue_get [OF s] queue_of_get [OF s]
    have ext: "extends s (ses u)" using drain_queue_effect(1) [OF u] by simp
    obtain taken where taken: "queue = taken @ queue'" "\<forall>e \<in> set taken. event_item e \<noteq> None"
      "handed u = handed w @ map (\<lambda>e. (cid, the (event_item e))) taken" "arrived u = arrived w"
      using drain_queue_effect(2,3) [OF u] by auto
    have sok: "ids_ok s" "queues_ok s"
      using ok s_ids q by (simp_all add: order_ok_def ids_ok_def channel_ids_def queues_ok_def)
    have items: "\<forall>e \<in> set queue. event_item e \<noteq> None"
      using ok q(1) unfolding order_ok_def queues_ok_def by blast
    have bad: "bad = []"
      using drain_queue_valid [of n "w\<lparr>ses := s\<rparr>" p queue, OF _ held(2) items u] held(1) s_ids(2)
      by simp
    define t where "t = set_blocked_queue cid queue' (ses u)"
    have "find_queue cid (ses u) = find_queue cid s"
      using ext by (simp add: find_queue_def extends_def)
    then have "find_queue cid (ses u) = Some queue" using q(1) by metis
    then have t: "queue_of c t = (if c = cid then queue' else queue_of c (ses w))" for c
      using queue_of_set [of cid "ses u" queue c queue'] extends_ids(3) [OF ext] q(2)
      by (simp add: t_def)
    have t_active: "active_channels t = active_channels (ses u)"
      by (simp add: t_def set_blocked_queue_def)
    have t_ids: "channel_ids t = channel_ids (ses w)"
      using t_active extends_ids(1) [OF ext] s_ids(1) by (simp add: channel_ids_def)
    have t_queues: "queues_ok t"
    proof -
      have "queues_ok (ses u)" using extends_queues [OF ext sok(2)] .
      moreover have "set (queue_of c t) \<subseteq> set (queue_of c (ses u))" for c
        using t extends_ids(3) [OF ext] q taken(1) by (metis Un_upper2 set_append subset_refl)
      ultimately show ?thesis using t_active by (blast intro: queues_ok_subset)
    qed
    have order: "in_order (u\<lparr>ses := t'\<rparr>) c" if "c \<in> set (channel_ids (ses w))"
      "\<forall>c. queue_of c t' = queue_of c t" for c t'
    proof -
      have "map (Some \<circ> (\<lambda>e. the (event_item e))) taken = map event_item taken"
        using taken(2) by auto
      moreover have "log_of c (map (\<lambda>e. (cid, the (event_item e))) taken)
          = (if c = cid then map (\<lambda>e. the (event_item e)) taken else [])"
        by (induction taken) (auto simp: log_of_def)
      ultimately show ?thesis using ok that t taken(1,3,4) q(1)
        by (auto simp: order_ok_def in_order_def)
    qed
    have t_ok: "ids_ok t"
      using extends_ids(2) [OF ext] sok(1) t_active by (simp add: ids_ok_def channel_ids_def)
    have done': "order_ok (u\<lparr>ses := t'\<rparr>)" if "ids_ok t'" "queues_ok t'" "channel_ids t' = channel_ids t"
      "\<forall>c. queue_of c t' = queue_of c t" for t'
      using that order t_ids by (simp add: order_ok_def)
    define b where "b = channel_is_blocked (chans u p)"
    define t1 where "t1 = set_blocked_id cid b t"
    define t2 where "t2 = push_status (chans u p) (get_channel_info cid t1) CHANNEL_STATUS_unblock t1"
    have v: "v = u\<lparr>ses := (if queue' = [] then if b then t1 else t2 else t)\<rparr>" "invalid = []"
      using r False s u bad
      by (auto simp: unblock_channel_queue_def Let_def t_def b_def t1_def t2_def split: if_splits)
    have t1: "ids_ok t1" "channel_ids t1 = channel_ids t" "\<forall>c. queue_of c t1 = queue_of c t"
      "queue' = [] \<Longrightarrow> queues_ok t1"
      using t_ok set_blocked_id_queues [OF t_queues] t by (simp_all add: t1_def set_blocked_id_ids)
    have ext2: "extends t1 t2" by (simp add: t2_def extends_push_status)
    have t2: "ids_ok t2" "channel_ids t2 = channel_ids t" "\<forall>c. queue_of c t2 = queue_of c t"
      "queue' = [] \<Longrightarrow> queues_ok t2"
      using t1 extends_ids [OF ext2] extends_queues [OF ext2] by simp_all
    show ?thesis using v done' [OF t_ok t_queues] done' [OF t1(1) t1(4) t1(2,3)]
        done' [OF t2(1) t2(4) t2(2,3)] t_ids t1(2) t2(2) by simp
  qed
  then show "order_ok v" "channel_ids (ses v) = channel_ids (ses w)" "invalid = []" by auto
qed

lemma process_unblocked_order:
  assumes ok: "order_ok w" and held: "held n w" "\<And>p. entries p (active_channels (ses w)) \<le> n p"
    and r: "process_unblocked cid w = (v, invalid)"
  shows "order_ok v" "channel_ids (ses v) = channel_ids (ses w)"
    "set invalid \<inter> set (channel_ids (ses w)) = {}"
proof -
  have "order_ok v \<and> channel_ids (ses v) = channel_ids (ses w)
    \<and> set invalid \<inter> set (channel_ids (ses w)) = {}"
  proof (cases "ci_channel (get_channel_info cid (ses w))")
    case None
    have "cid \<notin> set (channel_ids (ses w))"
    proof
      assume "cid \<in> set (channel_ids (ses w))"
      then obtain ci where "find (\<lambda>ci. ci_id ci = cid) (active_channels (ses w)) = Some ci"
        by (cases "find (\<lambda>ci. ci_id ci = cid) (active_channels (ses w))")
          (auto simp: find_None_iff channel_ids_def)
      with None ok find_first_in [OF this] show False
        by (force simp: order_ok_def ids_ok_def get_channel_info_def channel_info_where_def)
    qed
    with None r ok show ?thesis by (auto simp: process_unblocked_def)
  next
    case (Some p)
    have p: "0 < n p" using get_channel_entry [OF Some] held(2) by (meson less_le_trans)
    define u where "u = use_chan LockChannel p w"
    have u: "order_ok u" "held n u" "channel_ids (ses u) = channel_ids (ses w)"
      using ok held_lock(1) [OF held(1) p] by (simp_all add: u_def order_ok_use_chan)
    obtain x bad where x: "unblock_channel_queue cid p u = (x, bad)" by fastforce
    have cid: "cid \<in> set (channel_ids (ses u))" using info_active(3) [OF Some] u(3) by simp
    note x' = unblock_queue_order [OF u(1,2) p cid x]
    have "v = use_chan UnlockChannel p x" "invalid = bad"
      using r Some x by (simp_all add: process_unblocked_def u_def Let_def)
    then show ?thesis using x' u(3) by (simp add: order_ok_use_chan)
  qed
  then show "order_ok v" "channel_ids (ses v) = channel_ids (ses w)"
    "set invalid \<inter> set (channel_ids (ses w)) = {}" by auto
qed

text \<open>Queues that are removed, with or without their channel.\<close>

lemma order_ok_session:
  assumes "order_ok w" and "active_channels t = active_channels (ses w)"
    and "\<And>c. queue_of c t = queue_of c (ses w)"
  shows "order_ok (w\<lparr>ses := t\<rparr>)"
  using assms by (simp add: order_ok_def ids_ok_def queues_ok_def in_order_def channel_ids_def)

lemma remove_invalid_order:
  assumes "order_ok w" and "set invalid \<inter> set (channel_ids (ses w)) = {}"
  shows "order_ok (on_session (remove_invalid_queues invalid) w)"
proof (rule order_ok_session [OF assms(1)])
  have empty: "queue_of c (ses w) = []" if "c \<in> set invalid" for c
    using assms that by (fastforce simp: order_ok_def queues_ok_def channel_ids_def)
  have "queue_of c (remove_invalid_queues invalid s) = (if c \<in> set invalid then [] else queue_of c s)"
    for c and s :: "('a, 'b) session"
    unfolding remove_invalid_queues_def
    by (induction invalid arbitrary: s) (simp_all add: queue_of_remove)
  then show "queue_of c (remove_invalid_queues invalid (ses w)) = queue_of c (ses w)" for c
    using empty by simp
qed simp

lemma delete_channel_order:
  assumes "delete_channel cid s = (t, ci)" and "ids_ok s" and "queues_ok s"
  shows "ids_ok t" "queues_ok t" "set (channel_ids t) \<subseteq> set (channel_ids s)"
    "\<And>c. c \<in> set (channel_ids t) \<Longrightarrow> queue_of c t = queue_of c s"
proof -
  define u where "u = fst (remove_pending_unblocked_channel cid s)"
  have u: "active_channels u = active_channels s" "queue_of c u = queue_of c s" for c
    by (auto simp: u_def remove_pending_unblocked_channel_def intro: queue_of_cong)
  have "ids_ok t \<and> queues_ok t \<and> set (channel_ids t) \<subseteq> set (channel_ids s)
    \<and> (\<forall>c \<in> set (channel_ids t). queue_of c t = queue_of c s)"
  proof (cases "cid = 0 \<or> find (\<lambda>ci. ci_id ci = cid) (active_channels u) = None")
    case True
    then have "t = s \<or> t = u"
      using assms(1) by (cases "cid = 0") (simp_all add: delete_channel_def u_def [symmetric] Let_def)
    then show ?thesis using assms(2,3) u
      by (auto simp: ids_ok_def channel_ids_def queues_ok_def)
  next
    case False
    then obtain cj where cj: "find (\<lambda>ci. ci_id ci = cid) (active_channels u) = Some cj" by auto
    define r where "r = remove_blocked_queue cid u"
    have r: "active_channels r = active_channels s"
      by (simp add: r_def u remove_blocked_queue_def Let_def)
    have t: "t = r\<lparr>active_channels := swap_out (\<lambda>ci. ci_id ci = cid) (active_channels s)\<rparr>"
      using assms(1) False cj r by (auto simp: delete_channel_def u_def [symmetric] Let_def r_def)
    have ms: "mset (active_channels s) = add_mset cj (mset (active_channels t))"
      using swap_out_mset [OF cj] by (simp add: t u)
    have id: "ci_id cj = cid" using find_first_in [OF cj] by simp
    have ids: "mset (channel_ids s) = add_mset cid (mset (channel_ids t))"
      using arg_cong [OF ms, of "image_mset ci_id"] id by (simp add: channel_ids_def)
    have set_ids: "set (channel_ids s) = insert cid (set (channel_ids t))"
      using arg_cong [OF ids, of set_mset] by simp
    have "distinct (cid # channel_ids t)"
      using assms(2) ids unfolding ids_ok_def by (metis distinct_count_atmost_1 mset.simps(2)
          set_mset_mset mset_eq_imp_distinct_iff)
    moreover have "set (active_channels s) = insert cj (set (active_channels t))"
      using arg_cong [OF ms, of set_mset] by simp
    moreover have q: "queue_of c t = (if c = cid then [] else queue_of c s)" for c
      using queue_of_remove [of c cid u] u(2) by (simp add: t r_def queue_of_def find_queue_def)
    ultimately show ?thesis using assms(2,3) set_ids id
      by (auto simp: ids_ok_def queues_ok_def split: if_splits)
  qed
  then show "ids_ok t" "queues_ok t" "set (channel_ids t) \<subseteq> set (channel_ids s)"
    "\<And>c. c \<in> set (channel_ids t) \<Longrightarrow> queue_of c t = queue_of c s" by auto
qed

lemma delete_each_order:
  "delete_each cids s = (t, cis) \<Longrightarrow> ids_ok s \<Longrightarrow> queues_ok s \<Longrightarrow>
    ids_ok t \<and> queues_ok t \<and> set (channel_ids t) \<subseteq> set (channel_ids s)
      \<and> (\<forall>c \<in> set (channel_ids t). queue_of c t = queue_of c s)"
proof (induction cids arbitrary: s t cis)
  case (Cons cid cids)
  obtain u ci where u: "delete_channel cid s = (u, ci)" by fastforce
  obtain v cjs where v: "delete_each cids u = (v, cjs)" by fastforce
  note u' = delete_channel_order [OF u Cons.prems(2,3)]
  from Cons.IH [OF v u'(1,2)] u' u v Cons.prems(1) show ?case by auto
qed simp

lemma take_deletes_order:
  assumes "order_ok w" and "take_deletes (ses w) = (t, cis)"
  shows "order_ok (w\<lparr>ses := t\<rparr>)"
proof -
  obtain u where u: "delete_each (pending_channels_delete (ses w)) (ses w) = (u, cis)"
    "t = u\<lparr>pending_channels_delete := []\<rparr>"
    using assms(2) by (cases "delete_each (pending_channels_delete (ses w)) (ses w)")
      (auto simp: take_deletes_def)
  have q: "queue_of c t = queue_of c u" for c using u(2) by (intro queue_of_cong) simp
  from delete_each_order [OF u(1)] assms(1) show ?thesis
    using u(2) q by (auto simp: order_ok_def ids_ok_def queues_ok_def in_order_def channel_ids_def)
qed

subsection \<open>Numbers for new channels\<close>

text \<open>The search is the one of the scheduler's identifiers, started one further on.\<close>

lemma advance_channel_id: "advance_channel_id n = advance_id MAX_CHANNELS n"
  by (simp add: advance_channel_id_def advance_id_def Let_def)

lemma no_channel_by_id:
  "ids_ok s \<Longrightarrow> get_channel_by_id n s = None \<longleftrightarrow> n \<notin> set (channel_ids s)"
proof (cases "find (\<lambda>ci. ci_id ci = n) (active_channels s)")
  case None
  then have "n \<notin> set (channel_ids s)" by (auto simp: channel_ids_def find_None_iff)
  with None show ?thesis
    by (simp add: get_channel_by_id_def get_channel_info_def channel_info_where_def
        invalid_channel_info_def)
next
  case (Some ci)
  assume "ids_ok s"
  with find_first_in [OF Some] have "ci_channel ci \<noteq> None" by (force simp: ids_ok_def)
  moreover have "n \<in> set (channel_ids s)"
    using find_first_in [OF Some] by (auto simp: channel_ids_def)
  ultimately show ?thesis using Some
    by (simp add: get_channel_by_id_def get_channel_info_def channel_info_where_def)
qed

lemma search_channel_alloc:
  assumes "ids_ok s" and "alloc_id (channel_ids s) MAX_CHANNELS (advance_channel_id n) = Some r"
  shows "search_channel_id s n = Some (fst r)"
proof -
  have "\<forall>n. used = channel_ids s \<longrightarrow> mx = MAX_CHANNELS \<longrightarrow> m = advance_channel_id n
      \<longrightarrow> search_channel_id s n = Some (fst r)"
    if "alloc_id used mx m = Some r" for used mx m
  proof (rule alloc_id.raw_induct [OF _ that], goal_cases)
    case (1 alloc used mx m y)
    show ?case
    proof (intro allI impI)
      fix n
      assume eq: "used = channel_ids s" "mx = MAX_CHANNELS" "m = advance_channel_id n"
      show "search_channel_id s n = Some (fst y)"
      proof (cases "m \<notin> set used \<and> m \<noteq> 0")
        case True
        with 1(2) eq show ?thesis using no_channel_by_id [OF assms(1)]
          by (subst search_channel_id.simps) (auto simp: Let_def)
      next
        case False
        with 1(2) eq have "alloc used mx (advance_id mx m) = Some y" by auto
        from 1(1) [OF this] eq have "search_channel_id s m = Some (fst y)"
          by (simp add: advance_channel_id)
        with False eq show ?thesis using no_channel_by_id [OF assms(1)]
          by (subst search_channel_id.simps) (auto simp: Let_def)
      qed
    qed
  qed
  with assms(2) show ?thesis by blast
qed

lemma alloc_search_channel:
  assumes "ids_ok s" and "search_channel_id s n = Some m"
  shows "\<exists>nxt. alloc_id (channel_ids s) MAX_CHANNELS (advance_channel_id n) = Some (m, nxt)"
proof -
  have "t = s \<longrightarrow> (\<exists>nxt. alloc_id (channel_ids s) MAX_CHANNELS (advance_channel_id n) = Some (m, nxt))"
    if "search_channel_id t n = Some m" for t
  proof (rule search_channel_id.raw_induct [OF _ that], goal_cases)
    case (1 search t n m)
    define k where "k = advance_channel_id n"
    show ?case
    proof (intro impI)
      assume t: "t = s"
      show "\<exists>nxt. alloc_id (channel_ids s) MAX_CHANNELS (advance_channel_id n) = Some (m, nxt)"
      proof (cases "get_channel_by_id k t = None \<and> k \<noteq> 0")
        case True
        with 1(2) t show ?thesis unfolding k_def [symmetric] using no_channel_by_id [OF assms(1)]
          by (subst alloc_id.simps) (auto simp: Let_def k_def [symmetric])
      next
        case False
        with 1(2) have "search t k = Some m" by (auto simp: Let_def k_def [symmetric])
        from 1(1) [OF this] t obtain nxt where
          "alloc_id (channel_ids s) MAX_CHANNELS (advance_channel_id k) = Some (m, nxt)" by blast
        with False t show ?thesis unfolding k_def [symmetric] using no_channel_by_id [OF assms(1)]
          by (subst alloc_id.simps) (auto simp: advance_channel_id)
      qed
    qed
  qed
  with assms(2) show ?thesis by blast
qed

lemma MAX_CHANNELS_gt: "1 < MAX_CHANNELS"
  by (simp add: MAX_CHANNELS_def)

lemma advance_channel_range:
  "advance_channel_id n = 0 \<or> id_range MAX_CHANNELS (advance_channel_id n)"
proof (cases "n + 1 \<ge> MAX_CHANNELS")
  case False
  then have "n + 1 < MAX_CHANNELS" by simp
  moreover have "1 \<le> n + 1 \<or> n + 1 = 0" by unat_arith
  ultimately show ?thesis
    using False by (auto simp: advance_channel_id_def id_range_def)
qed (simp add: advance_channel_id_def id_range_def MAX_CHANNELS_gt)

lemma search_channel_ends:
  assumes "ids_ok s" and "id_range MAX_CHANNELS k" and "k \<notin> set (channel_ids s)"
  shows "\<exists>m. search_channel_id s n = Some m"
proof -
  have "\<exists>r. alloc_id (channel_ids s) MAX_CHANNELS m = Some r" if "id_range MAX_CHANNELS m" for m
    using alloc_id_wraps [OF MAX_CHANNELS_gt assms(2,3) that] .
  note range = this
  have "advance_id MAX_CHANNELS 0 = 1" using MAX_CHANNELS_gt by (simp add: advance_id_def)
  then have zero: "\<exists>r. alloc_id (channel_ids s) MAX_CHANNELS 0 = Some r"
    using range [of 1] MAX_CHANNELS_gt
    by (subst alloc_id.simps) (simp only: simp_thms if_False, simp add: id_range_def)
  have "\<exists>r. alloc_id (channel_ids s) MAX_CHANNELS (advance_channel_id n) = Some r"
    using advance_channel_range [of n] range zero by auto
  with search_channel_alloc [OF assms(1)] show ?thesis by blast
qed

lemma search_channel_fresh:
  assumes "ids_ok s" and "search_channel_id s n = Some m"
  shows "m \<notin> set (channel_ids s)" "m \<noteq> 0"
proof -
  have "ids_ok t \<longrightarrow> m \<notin> set (channel_ids t) \<and> m \<noteq> 0" if "search_channel_id t n = Some m" for t
    using no_channel_by_id
    by (rule_tac search_channel_id.raw_induct [OF _ that]) (auto simp: Let_def split: if_splits)
  with assms show "m \<notin> set (channel_ids s)" "m \<noteq> 0" by blast+
qed

lemma next_channel_id_sound:
  assumes "ids_ok s" and "get_next_channel_id s = Some (t, n)"
    and "length (active_channels s) < unat MAX_CHANNELS"
  shows "n \<notin> set (channel_ids s)" "n \<noteq> 0" "t = s\<lparr>last_used_channel_id := n\<rparr>"
proof -
  have n: "search_channel_id s (last_used_channel_id s) = Some n"
    and t: "t = s\<lparr>last_used_channel_id := n\<rparr>"
    using assms(2,3) by (auto simp: get_next_channel_id_def)
  from search_channel_fresh [OF assms(1) n] show "n \<notin> set (channel_ids s)" "n \<noteq> 0" by blast+
  from t show "t = s\<lparr>last_used_channel_id := n\<rparr>" .
qed

lemma announce_channel_order:
  assumes ok: "order_ok w" and cid: "cid \<notin> set (channel_ids (ses w))" "cid \<noteq> 0"
  shows "order_ok (announce_channel cid p b w)"
proof -
  define ci where "ci = channel_info_new cid p b"
  define bl where "bl = (\<not> b \<and> channel_is_blocked (chans w p))"
  define s where "s = active_channels_update (\<lambda>cis. cis @ [ci\<lparr>ci_blocked := bl\<rparr>]) (ses w)"
  have empty: "queue_of cid (ses w) = []"
    using ok cid(1) by (fastforce simp: order_ok_def queues_ok_def channel_ids_def)
  have q: "queue_of c s = queue_of c (ses w)" for c unfolding s_def by (rule queue_of_cong) simp
  have "ids_ok s"
    using ok cid by (auto simp: order_ok_def s_def ids_ok_def channel_ids_def ci_def
        channel_info_new_def)
  moreover have "queues_ok s"
  proof -
    have "set (active_channels (ses w)) \<subseteq> set (active_channels s)" by (auto simp: s_def)
    then show ?thesis using ok unfolding order_ok_def queues_ok_def q by blast
  qed
  moreover have "channel_ids s = channel_ids (ses w) @ [cid]"
    by (simp add: s_def channel_ids_def ci_def channel_info_new_def)
  ultimately have "order_ok (w\<lparr>ses := s, arrived := filter (\<lambda>a. fst a \<noteq> cid) (arrived w),
      handed := filter (\<lambda>a. fst a \<noteq> cid) (handed w)\<rparr>)"
    using ok empty q by (auto simp: order_ok_def in_order_def)
  moreover have "extends s (push_status (chans w p) ci st2
      (request_unless_blocked (push_status (chans w p) ci st1 s)))" for st1 st2
    using extends_trans [OF extends_request_unless_blocked [OF extends_push_status] extends_push_status] .
  ultimately show ?thesis
    using order_ok_extends [of "w\<lparr>ses := s, arrived := filter (\<lambda>a. fst a \<noteq> cid) (arrived w),
      handed := filter (\<lambda>a. fst a \<noteq> cid) (handed w)\<rparr>" "announce_channel cid p b w"]
    by (simp add: announce_channel_def Let_def s_def ci_def bl_def)
qed

lemma channel_added_order:
  assumes ok: "order_ok w" and few: "length (active_channels (ses w)) < unat MAX_CHANNELS"
    and r: "channel_added c b w = Some (v, cid)"
  shows "order_ok v"
proof (cases c)
  case (Some p)
  define u where "u = use_chan LockChannel p w"
  obtain s where s: "get_next_channel_id (ses u) = Some (s, cid)"
    and v: "v = use_chan UnlockChannel p (register_session p b
      (announce_channel cid p b (u\<lparr>ses := s\<rparr>)))"
    using r Some by (auto simp: channel_added_def Let_def u_def split: option.splits)
  have u: "order_ok u" using ok by (simp add: u_def order_ok_use_chan)
  have "length (active_channels (ses u)) = length (active_channels (ses w))"
    using arg_cong [OF ids_use_chan [of LockChannel p w], of length]
    by (simp add: u_def channel_ids_def)
  with few u have n: "cid \<notin> set (channel_ids (ses u))" "cid \<noteq> 0" "s = ses u\<lparr>last_used_channel_id := cid\<rparr>"
    using next_channel_id_sound [OF _ s] by (auto simp: order_ok_def)
  have "order_ok (u\<lparr>ses := s\<rparr>)" using u n(3) by (intro order_ok_session) (auto intro: queue_of_cong)
  then have "order_ok (announce_channel cid p b (u\<lparr>ses := s\<rparr>))"
    using n by (intro announce_channel_order) (simp_all add: channel_ids_def)
  then show ?thesis by (cases b) (simp_all add: v register_session_def Let_def order_ok_use_chan)
qed (use ok r in \<open>simp add: channel_added_def\<close>)

subsection \<open>In every step\<close>

lemma update_first_marks:
  "cid \<in> ci_id ` set cis \<Longrightarrow>
    \<exists>ci \<in> set (update_first (\<lambda>ci. ci_id ci = cid) (ci_blocked_update (\<lambda>_. True)) cis).
      ci_id ci = cid \<and> ci_blocked ci"
  by (induction cis) auto

lemma send_client_item_order:
  assumes "order_ok w" and "queue_of cid (ses w) = []" and "cid \<in> set (channel_ids (ses w))"
  shows "order_ok (send_client_item cid k p i w)"
proof -
  obtain v ok where v: "chan_sends cid i p w = (v, ok)" by fastforce
  note eff = chan_sends_effect [OF v]
  show ?thesis
  proof (cases "channel_type (chans w p) \<noteq> item_type i")
    case True
    then show ?thesis unfolding send_client_item_def if_P [OF True]
      by (intro order_ok_session assms(1)) (auto intro: queue_of_cong)
  next
    case False
    define x where "x = on_session (set_blocked_id cid True) v"
    show ?thesis
    proof (cases ok)
      case True
      with False v order_ok_sent [OF assms(1,2)] show ?thesis by (simp add: send_client_item_def)
    next
      case fail: False
      have v_ok: "order_ok v" using order_ok_extends [OF assms(1) eff(1,2)] eff(3) fail by simp
      then have x_ok: "order_ok x"
        using order_ok_extends [of v x] by (simp add: x_def extends_set_flags)
      have "cid \<in> ci_id ` set (active_channels (ses v))"
        using assms(3) unfolding extends_ids(1) [OF eff(1), symmetric] by (simp add: channel_ids_def)
      from update_first_marks [OF this] obtain ci where
        ci: "ci \<in> set (active_channels (ses x))" "ci_id ci = cid" "ci_blocked ci"
        by (auto simp: x_def set_blocked_id_def)
      have "order_ok (note_arrival cid i (on_session (queue_blocked_item cid k i) x))"
        by (rule order_ok_queue [OF x_ok ci])
      with False fail v v_ok show ?thesis
        by (simp add: send_client_item_def x_def)
    qed
  qed
qed

lemma order_ok_lock: "order_ok w \<Longrightarrow> order_ok (use_chan x p w)"
  by (rule order_ok_use_chan)

lemma client_data_order:
  assumes "order_ok w"
  shows "order_ok (client_data_item now cid k item w)"
proof (cases "item = None \<or> ci_channel (get_channel_info cid (ses w)) = None
    \<or> ci_out (get_channel_info cid (ses w))")
  case True
  have "order_ok (on_session (\<lambda>s. request_service (s\<lparr>need_disconnect := True\<rparr>)) w)"
    by (intro order_ok_session assms) (auto intro: queue_of_cong)
  with True assms show ?thesis
    by (auto simp: client_data_item_def Let_def split: option.split)
next
  case False
  define ci where "ci = get_channel_info cid (ses w)"
  from False obtain i p where i: "item = Some i" "ci_channel ci = Some p" by (auto simp: ci_def)
  note active = info_active [OF i(2) [unfolded ci_def], folded ci_def]
  define v where "v = on_session (note_client_data now k) (use_chan LockChannel p w)"
  have ext: "extends (ses w) (ses v)"
    using extends_trans [OF extends_use_chan] note_client_data_told by (simp add: v_def) blast
  have logs: "arrived v = arrived w" "handed v = handed w" by (simp_all add: v_def)
  have v: "order_ok v" by (rule order_ok_extends [OF assms ext logs])
  define u where "u = (if ci_blocked ci
      then note_arrival cid i (on_session (queue_blocked_item cid k i) v)
      else if ci_closed ci then v else send_client_item cid k p i v)"
  have "order_ok u"
  proof (cases "ci_blocked ci")
    case True
    have "list_all2 same_channel (active_channels (ses w)) (active_channels (ses v))"
      using ext by (simp add: extends_def)
    from same_channels_blocked [OF this active(1) True] obtain cj where
      "cj \<in> set (active_channels (ses v))" "ci_id cj = cid" "ci_blocked cj" using active(2) by auto
    from order_ok_queue [OF v this] True show ?thesis by (simp add: u_def)
  next
    case unblocked: False
    have "queue_of cid (ses w) = []"
      using assms unblocked i(2) unblocked_queue_empty [of "ses w" cid p]
      by (simp add: order_ok_def ci_def)
    then have "order_ok (send_client_item cid k p i v)"
      using send_client_item_order [OF v] extends_ids [OF ext] active(3) by simp
    with unblocked v show ?thesis by (simp add: u_def)
  qed
  moreover have "client_data_item now cid k item w = use_chan UnlockChannel p u"
    using i False by (simp add: client_data_item_def Let_def u_def v_def ci_def)
  ultimately show ?thesis by (simp add: order_ok_use_chan)
qed

lemma order_inv_do:
  assumes inv: "order_inv (ph, w)" and ok: "op_allowed ph x w" and r: "session_do x w = Some v"
  shows "order_inv (ph, v)"
proof -
  have w: "order_ok w" "set (invalid_of ph) \<inter> set (channel_ids (ses w)) = {}"
    using inv by (simp_all add: order_inv_def)
  have same: "order_inv (ph, w\<lparr>ses := t\<rparr>)"
    if "active_channels t = active_channels (ses w)" "blocked_channel_queues t = blocked_channel_queues (ses w)" for t
    using order_ok_session [OF w(1) that(1) queue_of_cong [OF that(2)]] w(2) that(1)
    by (simp add: order_inv_def channel_ids_def)
  have fields: "blocked_channel_queues (client_disconnected s) = blocked_channel_queues s"
    "blocked_channel_queues (request_disconnection s) = blocked_channel_queues s"
    "blocked_channel_queues (set_activity_time_to_now now s) = blocked_channel_queues s"
    "blocked_channel_queues (client_unblocked s) = blocked_channel_queues s"
    "blocked_channel_queues (client_data_acknowledge_reconnect k s) = blocked_channel_queues s"
    "blocked_channel_queues (set_client_connection conn s) = blocked_channel_queues s"
    for s :: "('a, 'b) session" and now k conn
    by (simp_all add: client_disconnected_def request_disconnection_def client_unblocked_def
        set_activity_time_to_now_def client_data_acknowledge_reconnect_def set_client_connection_def
        drop_connection_def Let_def split: option.split)
  have ext: "order_inv (ph, u)" if "extends (ses w) (ses u)" "arrived u = arrived w" "handed u = handed w" for u
    using order_ok_extends [OF w(1) that] extends_ids(1) [OF that(1)] w(2) by (simp add: order_inv_def)
  show ?thesis
  proof (cases x)
    case (ClientData now cid n i)
    have ids: "channel_ids (ses (client_data_item now cid n i w)) = channel_ids (ses w)"
    proof -
      have "channel_ids (queue_blocked_item c k j s) = channel_ids s" for c k j and s :: "('a, 'b) session"
        by (rule channel_ids_cong) (rule queue_blocked_effect)
      moreover have "channel_ids (ses (fst (chan_sends c j q u))) = channel_ids (ses u)"
        for c j q and u :: "('a, 'b) world"
        using told_chan_sends [of u c j q] by (blast intro: extends_ids)
      moreover have "channel_ids (request_service (s\<lparr>need_disconnect := b\<rparr>)) = channel_ids s"
        for b and s :: "('a, 'b) session" by (rule channel_ids_cong) simp
      moreover have "channel_ids (note_client_data now k s) = channel_ids s" for now k and s :: "('a, 'b) session"
        using note_client_data_told [of s now k] by (blast intro: extends_ids)
      ultimately show ?thesis
        by (auto simp: client_data_item_def send_client_item_def Let_def case_prod_beta
            set_blocked_id_ids split: option.split)
    qed
    with client_data_order [OF w(1)] w(2) r ClientData show ?thesis by (auto simp: order_inv_def)
  next
    case (RequestChannelClose cid)
    with r have "v = w \<or> (\<exists>p. v = use_chan CloseChannel p w)"
      by (auto simp: client_request_channel_close_def split: option.splits)
    then show ?thesis using inv ext extends_use_chan by fastforce
  next
    case (ChannelAdded c b)
    then obtain cid where a: "channel_added c b w = Some (v, cid)" using r by auto
    show ?thesis
    proof (cases c)
      case (Some p)
      with ok ChannelAdded have "ph = Idle" "length (active_channels (ses w)) < unat MAX_CHANNELS"
        by (auto simp: op_allowed_def Let_def)
      with channel_added_order [OF w(1) _ a] show ?thesis by (simp add: order_inv_def)
    qed (use a inv in \<open>simp add: channel_added_def\<close>)
  next
    case (OtherChannel p y)
    with r show ?thesis using ext [of "chan_change (chan_step y) p w"] told_chan_change by fastforce
  qed (use r same fields in auto)
qed

lemma order_inv_router:
  assumes inv: "order_inv (ph, w)" and held: "held_inv (ph, w)" and stream: "stream_ok (ses w)"
    and r: "router_step reply (ph, w) = Some (ph', v)"
  shows "order_inv (ph', v)"
proof -
  have w: "order_ok w" "set (invalid_of ph) \<inter> set (channel_ids (ses w)) = {}"
    using inv by (simp_all add: order_inv_def)
  have same: "order_ok (w\<lparr>ses := t\<rparr>)"
    if "active_channels t = active_channels (ses w)" "blocked_channel_queues t = blocked_channel_queues (ses w)" for t
    using order_ok_session [OF w(1) that(1) queue_of_cong [OF that(2)]] .
  show ?thesis
  proof (cases "(reply, (ph, w))" rule: router_step.cases)
    case (1 reply w0)
    with r same show ?thesis
      by (auto simp: begin_processing_def order_inv_def Let_def split: if_splits)
  next
    case (2 reply w0)
    obtain t cis where t: "take_deletes (ses w) = (t, cis)" by fastforce
    from take_deletes_order [OF w(1) t] r 2 t show ?thesis by (auto simp: order_inv_def)
  next
    case (4 reply ci cis w0)
    with r w(1) show ?thesis
      by (auto simp: order_inv_def unregister_channel_def Let_def order_ok_use_chan split: option.splits)
  next
    case (6 reply invalid w0)
    with r remove_invalid_order [OF w(1), of invalid] w(2) show ?thesis by (auto simp: order_inv_def)
  next
    case (7 reply cid cids invalid w0)
    obtain u bad where u: "process_unblocked cid w = (u, bad)" by fastforce
    have "entries p (active_channels (ses w)) \<le> held_by ph (ses w) p" for p by (simp add: held_by_def)
    from process_unblocked_order [OF w(1) _ this u] held w(2) r 7 u show ?thesis
      by (auto simp: order_inv_def held_inv_def)
  next
    case (8 reply w0)
    then obtain t where t: "process_client reply (ses w) = Some t" and v: "ph' = Idle" "v = w\<lparr>ses := t\<rparr>"
      using r by auto
    have "active_channels t = active_channels (ses w)
        \<and> blocked_channel_queues t = blocked_channel_queues (ses w)"
      using process_client_ends [OF stream, of reply] t 8 by (auto simp: sends_from_def)
    with same v show ?thesis by (auto simp: order_inv_def)
  qed (use r w same in \<open>auto simp: order_inv_def take_unblocked_def\<close>)
qed

lemma order_inv_start: "session_start w \<Longrightarrow> order_inv (Idle, w)"
  by (auto simp: session_start_def order_inv_def order_ok_def ids_ok_def queues_ok_def
      channel_ids_def session_new_def queue_of_def find_queue_def)

lemma order_inv_reachable: "reachable_session x \<Longrightarrow> order_inv x"
proof (induction rule: reachable_session.induct)
  case (step x y)
  from output_inv_reachable [OF step.hyps(1)] held_inv_reachable [OF step.hyps(1)]
  have "stream_ok (ses (snd x))" "held_inv x" by (simp_all add: output_inv_def)
  with step.IH show ?case
    by (cases rule: session_step.cases [OF step.hyps(2)])
      (auto intro: order_inv_do order_inv_router)
qed (rule order_inv_start)

end
