(* ===== verification/SessionProps.thy ===== *)
theory SessionProps
  imports SessionOrder
begin

text \<open>
  What a client session promises, in every state the steps of \<open>SessionRun\<close> reach: towards
  the client, towards the channels, and to the router; and where it falls short.
\<close>

subsection \<open>A session to try things on\<close>

definition demo_session :: "(string, string) session" where
  "demo_session = session_new 0 100 \<lparr>conn_ptr = 7, conn_window_size = 10, conn_is_enhanced = True,
     conn_client_type = CLIENT_TYPE_INTERACTIVE, conn_source = ''here'', conn_entity_id = DbId 1 1\<rparr> 0"

text \<open>Channel 2 is one for client data, all others are for text.\<close>

definition demo :: "(string, string) world" where
  "demo = \<lparr>ses = demo_session,
     chans = (\<lambda>p. channel_new ''c'' (if p = 2 then CHANNEL_TYPE_CLIENT_DATA else CHANNEL_TYPE_TEXT)
       '''' (DbId 1 1)),
     freed_use = False, arrived = [], handed = []\<rparr>"

lemma demo_start: "session_start demo"
proof -
  have "\<exists>sid this c now. ses demo = session_new sid this c now"
    by (simp only: demo_def demo_session_def world.simps) blast
  moreover have "chan_ok (chans demo p)" for p by (simp add: demo_def)
  ultimately show ?thesis
    by (simp add: session_start_def) (simp add: demo_def demo_session_def session_new_def channel_new_def)
qed

lemma demo_reachable: "reachable_session (Idle, demo)"
  by (rule reachable_session.start [OF demo_start])

lemma first_channel:
  assumes "active_channels s = []" and "last_used_channel_id s = 0"
  shows "get_next_channel_id s = Some (s\<lparr>last_used_channel_id := 1\<rparr>, 1)"
  using assms by (simp add: get_next_channel_id_def)
    (subst search_channel_id.simps, simp add: advance_channel_id_def MAX_CHANNELS_def
      get_channel_by_id_def get_channel_info_def channel_info_where_def invalid_channel_info_def)

lemma send_outgoing_step:
  "can_send s \<Longrightarrow> send_outgoing reply s =
    (case send_event reply (hd (outgoing_events s)) s of (s, sent_success) \<Rightarrow>
      send_outgoing reply (if sent_success
        then s\<lparr>sent_events := sent_events s @ [hd (outgoing_events s)],
               outgoing_events := tl (outgoing_events s)\<rparr> else s))"
  "\<not> can_send s \<Longrightarrow> send_outgoing reply s = Some s"
  by (subst send_outgoing.simps; simp)+

lemmas channel_run = chan_op_defs delete_if_def delete_instance_def need_delete_instance_def
  internal_close_channel_def check_status_def broadcast_status_def channel_is_blocked_def
  channel_is_closed_def channel_receiver_is_process_def channel_new_def chan_step_def

lemmas session_run = demo_def demo_session_def session_new_def first_channel channel_added_def
  announce_channel_def push_status_def push_event_def get_next_message_id_def next_message_id_def
  register_session_def use_chan_def chan_change_def callbacks_def Let_def request_unless_blocked_def
  request_service_def channel_info_new_def status_event_def make_channel_status_change_def
  client_data_item_def get_channel_info_def channel_info_where_def note_client_data_def
  queue_blocked_item_def get_blocked_queue_def find_queue_def set_blocked_queue_def
  note_arrival_def channel_flow_open_def get_channel_info_ptr_def ci_valid_def
  add_pending_unblocked_channel_def client_unblocked_def begin_processing_def take_unblocked_def
  process_unblocked_def unblock_channel_queue_def event_item.simps chan_sends_def
  set_blocked_id_def remove_invalid_queues_def process_client_def send_acknowledge_def
  send_outgoing_step can_send_def send_event_def event_call.simps client_send_def
  process_send_return_code_def

lemma reach_do:
  assumes "reachable_session (ph, w)" and "op_allowed ph x w" and "session_do x w \<noteq> None"
  shows "reachable_session (ph, the (session_do x w))"
proof -
  obtain v where v: "session_do x w = Some v" using assms(3) by blast
  then have "session_step (ph, w) (ph, v)" by (rule session_step.others [OF assms(2)])
  with v show ?thesis using reachable_session.step [OF assms(1)] by simp
qed

lemma reach_router:
  assumes "reachable_session (ph, w)" and "router_step reply (ph, w) = Some (ph', w')"
  shows "reachable_session (ph', w')"
  by (rule reachable_session.step [OF assms(1) session_step.router [OF assms(2)]])

subsection \<open>Towards the client\<close>















lemma request_service_calls [simp]: "client_calls (request_service s) = client_calls s"
  by (simp add: request_service_def)












lemma demo_added:
  "session_step (Idle, demo) (Idle, the (session_do (ChannelAdded (Some 1) False) demo))"
  by (rule session_step.others [of Idle "ChannelAdded (Some 1) False"])
    (simp add: op_allowed_def session_run MAX_CHANNELS_def channel_run,
     simp add: session_run channel_run)

text \<open>C13. Whenever the router is not in the middle of servicing the session, output that could
  be sent (the client takes data, its window has room, no reconnect is under way) has made the
  session ask the router for service: nothing the client could be sent is forgotten.\<close>

theorem no_output_stalls:
  assumes "reachable_session (Idle, w)" and "sendable (ses w)"
  shows "has_requested_service (ses w)"
  using output_inv_reachable [OF assms(1)] assms(2) by (simp add: output_inv_def awake_def)

abbreviation "demo_with_channel \<equiv> the (session_do (ChannelAdded (Some 1) False) demo)"

lemma demo_with_channel_reachable: "reachable_session (Idle, demo_with_channel)"
  by (rule reachable_session.step [OF demo_reachable demo_added])

lemma no_output_stalls_witness: "has_requested_service (ses demo_with_channel)"
  by (rule no_output_stalls [OF demo_with_channel_reachable])
    (simp add: sendable_def session_run channel_run)

lemma servicing_outputs:
  assumes "stream_ok (ses w)"
  shows "\<exists>v. process_pending reply w = Some v \<and> (need_disconnect (ses v) \<or> \<not> sendable (ses v))"
proof -
  define s where "s = fst (begin_processing (ses w))"
  define w1 where "w1 = w\<lparr>ses := s\<rparr>"
  have s: "stream_ok s"
    using assms by (auto simp: s_def begin_processing_def stream_ok_def Let_def)
  show ?thesis
  proof (cases "need_disconnect (ses w)")
    case True
    then show ?thesis by (simp add: process_pending_def begin_processing_def Let_def)
  next
    case False
    define w2 where "w2 = (if pending_channels_delete (ses w) \<noteq> [] then process_pending_channel_deletes w1 else w1)"
    define w3 where "w3 = process_pending_unblocked_channels w2"
    have fold: "output_ext (ses w) (ses (fold unregister_channel cis w))" for cis and w :: "('a, 'b) world"
      by (induction cis arbitrary: w) (simp, metis fold_simps(2) output_ext_trans unregister_channel_output)
    have each: "output_ext (ses w) (ses (fst (process_each_unblocked cids w)))" for cids and w :: "('a, 'b) world"
    proof (induction cids arbitrary: w)
      case (Cons cid cids)
      obtain u bad where u: "process_unblocked cid w = (u, bad)" by fastforce
      with process_unblocked_output [of w cid] have "output_ext (ses w) (ses u)" by simp
      with Cons [of u] u show ?case by (auto intro: output_ext_trans)
    qed simp
    have "output_ext (ses w1) (ses (process_pending_channel_deletes w1))"
    proof -
      obtain t cis where t: "take_deletes (ses w1) = (t, cis)" by fastforce
      with take_deletes_output [of "ses w1"] have "output_ext (ses w1) t" by simp
      with fold [of "w1\<lparr>ses := t\<rparr>" cis] t show ?thesis
        by (auto simp: process_pending_channel_deletes_def intro: output_ext_trans)
    qed
    then have w2: "output_ext s (ses w2)" by (simp add: w2_def w1_def)
    have "output_ext (ses w2) (ses w3)"
    proof -
      obtain t cids where t: "take_unblocked (ses w2) = (t, cids)" by fastforce
      obtain u bad where u: "process_each_unblocked cids (w2\<lparr>ses := t\<rparr>) = (u, bad)" by fastforce
      have "output_ext (ses w2) t" using queue_fields(5) [of "ses w2"] t by simp
      moreover have "output_ext t (ses u)" using each [of "w2\<lparr>ses := t\<rparr>" cids] u by simp
      ultimately show ?thesis using t u remove_invalid_output [of "ses u" bad]
        by (auto simp: w3_def process_pending_unblocked_channels_def intro: output_ext_trans)
    qed
    then have "stream_ok (ses w3)" using s w2 stream_ok_ext output_ext_trans by blast
    from process_client_ends [OF this, of reply] obtain t where
      "process_client reply (ses w3) = Some t" "\<not> sendable t" by blast
    with False show ?thesis
      by (auto simp: process_pending_def begin_processing_def Let_def w3_def w2_def w1_def s_def)
  qed
qed

text \<open>C36. Servicing a session always comes to an end, whatever the connection answers, and
  leaves nothing behind that it could still send, unless the session is to be disconnected.\<close>

theorem servicing_returns:
  assumes "reachable_session (Idle, w)"
  shows "\<exists>v. process_pending reply w = Some v \<and> (need_disconnect (ses v) \<or> \<not> sendable (ses v))"
  using output_inv_reachable [OF assms] by (intro servicing_outputs) (simp add: output_inv_def)

lemma servicing_returns_witness:
  "\<exists>v. process_pending (\<lambda>n. if n = 0 then SEND_OK else SEND_BLOCKED) demo_with_channel = Some v
    \<and> (need_disconnect (ses v) \<or> \<not> sendable (ses v))"
  by (rule servicing_returns [OF demo_with_channel_reachable])

text \<open>C35. The client never has more unacknowledged events than its window allows; only after a
  reconnect with a smaller window, until the client has told what it received, and once the
  session is to be disconnected can there be more.\<close>

theorem window_respected:
  assumes "reachable_session (ph, w)" and "\<not> wait_reconnect_response (ses w)" and "\<not> need_disconnect (ses w)"
  shows "length (sent_events (ses w)) \<le> unat (client_window_size (ses w))"
  using output_inv_reachable [OF assms(1)] assms(2,3) by (simp add: output_inv_def window_ok_def)

lemma window_respected_witness:
  "length (sent_events (ses demo)) \<le> unat (client_window_size (ses demo))"
  by (rule window_respected [OF demo_reachable]) (simp_all add: demo_def demo_session_def session_new_def)

text \<open>A client that reconnects and names the last event it received is sent again exactly
  the events after that one, in front of those that were still waiting, and nothing is left
  unacknowledged; one that names none (0) is sent everything again.\<close>

theorem reconnect_resends:
  assumes "sent_events s = xs @ rest"
    and "if n = 0 then xs = [] else xs \<noteq> [] \<and> event_serial_id (last xs) = n
      \<and> n \<notin> event_serial_id ` set (butlast xs) \<and> n \<noteq> outgoing_ser_ack s"
  shows "let t = client_data_acknowledge_reconnect n (set_client_connection c s) in
    outgoing_events t = rest @ outgoing_events s \<and> sent_events t = []
    \<and> \<not> need_disconnect t \<and> \<not> wait_reconnect_response t \<and> has_requested_service t"
proof -
  define u where "u = (set_client_connection c s)\<lparr>wait_reconnect_response := False\<rparr>"
  have u: "sent_events u = sent_events s" "outgoing_events u = outgoing_events s" "\<not> need_disconnect u"
    "\<not> wait_reconnect_response u" "outgoing_ser_ack u = outgoing_ser_ack s"
    "wait_reconnect_response (set_client_connection c s)"
    by (simp_all add: u_def set_client_connection_def drop_connection_def Let_def request_service_def
        split: option.split)
  show ?thesis
  proof (cases "n = 0")
    case True
    with assms u show ?thesis
      by (simp add: client_data_acknowledge_reconnect_def u_def [symmetric] Let_def)
  next
    case False
    with assms(2) have xs: "xs = butlast xs @ [last xs]" "event_serial_id (last xs) = n" "n \<noteq> outgoing_ser_ack s"
      "\<forall>x \<in> set (butlast xs). event_serial_id x \<noteq> n"
      by (simp_all add: image_iff) metis
    have "sent_events u = butlast xs @ last xs # rest" using u(1) assms(1) xs(1)
      by (metis append.assoc append_Cons append_Nil)
    from acknowledge_known [OF False this xs(2,4)]
    have "sent_events (client_data_acknowledge n u) = rest"
      "outgoing_events (client_data_acknowledge n u) = outgoing_events s"
      "\<not> need_disconnect (client_data_acknowledge n u)"
      using u by (simp_all add: Let_def)
    with False u xs(3) show ?thesis
      by (simp add: client_data_acknowledge_reconnect_def u_def [symmetric] Let_def)
  qed
qed

lemma reconnect_resends_witness:
  "let e = (\<lambda>n. item_event (TextItem ''x'') n 1);
       t = client_data_acknowledge_reconnect 2
         (set_client_connection None (demo_session\<lparr>sent_events := [e 1, e 2, e 3], outgoing_events := [e 4]\<rparr>))
   in outgoing_events t = [e 3, e 4] \<and> sent_events t = []"
  using reconnect_resends [of "demo_session\<lparr>sent_events := [item_event (TextItem ''x'') 1 1,
      item_event (TextItem ''x'') 2 1, item_event (TextItem ''x'') 3 1],
      outgoing_events := [item_event (TextItem ''x'') 4 1]\<rparr>"
    "[item_event (TextItem ''x'') 1 1, item_event (TextItem ''x'') 2 1]"
    "[item_event (TextItem ''x'') 3 1]" 2 None]
  by (simp add: Let_def demo_session_def session_new_def)

subsection \<open>Towards the channels\<close>

text \<open>C9. For every channel of a session, the items it took from the client since the channel
  got its number (those neither refused nor dropped because the channel is closed) are the items handed to the channel followed by the items queued, in
  this order: while a channel is blocked and after it unblocks, nothing is overtaken, lost or
  handed over twice.\<close>

theorem client_items_in_order:
  assumes "reachable_session (ph, w)" and "ci \<in> set (active_channels (ses w))"
  shows "map Some (log_of (ci_id ci) (arrived w))
    = map Some (log_of (ci_id ci) (handed w)) @ map event_item (queue_of (ci_id ci) (ses w))"
  using order_inv_reachable [OF assms(1)] assms(2)
  by (auto simp: order_inv_def order_ok_def in_order_def channel_ids_def)

text \<open>C12. A session never uses a channel that has deleted itself, and none of its channels is
  deleted while the session has it: its registrations keep them alive until it has removed them,
  whatever others do to the channels.\<close>

theorem session_channels_alive:
  assumes "reachable_session (ph, w)"
  shows "\<not> freed_use w \<and> (\<forall>ci \<in> set (active_channels (ses w)). \<forall>p.
    ci_channel ci = Some p \<longrightarrow> \<not> chan_deleted (chans w p))"
proof -
  have held: "held (held_by ph (ses w)) w"
    using held_inv_reachable [OF assms] by (simp add: held_inv_def)
  moreover have "\<forall>ci \<in> set (active_channels (ses w)). \<forall>p. ci_channel ci = Some p \<longrightarrow> \<not> chan_deleted (chans w p)"
    using held_live [OF held] entries_pos by (fastforce simp: held_by_def)
  ultimately show ?thesis by (simp add: held_def)
qed

text \<open>The session after the client sent two texts on a blocked channel.\<close>

abbreviation "say m n w \<equiv> the (session_do (ClientData 0 1 n (Some (TextItem m))) w)"

abbreviation "demo_after_texts \<equiv> say ''b'' 2 (say ''a'' 1 demo_with_channel)"

lemma demo_texts_reachable: "reachable_session (Idle, demo_after_texts)"
  by (intro reach_do demo_with_channel_reachable) (simp_all add: op_allowed_def)

lemma client_items_in_order_witness:
  "map Some (log_of 1 (arrived demo_after_texts))
     = map Some (log_of 1 (handed demo_after_texts)) @ map event_item (queue_of 1 (ses demo_after_texts))
   \<and> log_of 1 (arrived demo_after_texts) = [TextItem ''a'', TextItem ''b'']"
proof -
  define ci where "ci = \<lparr>ci_id = 1, ci_channel = Some 1, ci_out = False, ci_closed = False,
    ci_blocked = True\<rparr>"
  have "ci \<in> set (active_channels (ses demo_after_texts))"
    by (simp add: session_run channel_run ci_def)
  from client_items_in_order [OF demo_texts_reachable this]
  have "map Some (log_of 1 (arrived demo_after_texts))
     = map Some (log_of 1 (handed demo_after_texts)) @ map event_item (queue_of 1 (ses demo_after_texts))"
    by (simp only: ci_def channel_info.simps)
  moreover have "log_of 1 (arrived demo_after_texts) = [TextItem ''a'', TextItem ''b'']"
    by (simp add: session_run channel_run log_of_def)
  ultimately show ?thesis by blast
qed

lemma session_channels_alive_witness:
  "\<not> freed_use demo_after_texts \<and> \<not> chan_deleted (chans demo_after_texts 1)"
proof -
  define ci where "ci = \<lparr>ci_id = 1, ci_channel = Some 1, ci_out = False, ci_closed = False,
    ci_blocked = True\<rparr>"
  have "ci \<in> set (active_channels (ses demo_after_texts))"
    by (simp add: session_run channel_run ci_def)
  with session_channels_alive [OF demo_texts_reachable] show ?thesis
    by (auto simp only: ci_def channel_info.simps)
qed

text \<open>C37. Data a client sends on a channel not known to be blocked reaches the channel only if
  it has the type of the channel: texts go to text channels, messages to channels for client
  data.\<close>

theorem unblocked_channel_typed:
  assumes "\<not> ci_blocked (get_channel_info cid (ses w))"
  shows "handed (client_data_item now cid n item w) = handed w
    \<or> (\<exists>i p. item = Some i \<and> ci_channel (get_channel_info cid (ses w)) = Some p
        \<and> handed (client_data_item now cid n item w) = handed w @ [(cid, i)]
        \<and> item_type i = channel_type (chans w p))"
proof -
  have lock: "channel_type (chans (use_chan LockChannel p w) p) = channel_type (chans w p)" for p
    by (simp add: use_chan_def chan_lock_def)
  have "handed (send_client_item cid n p i v) = handed v
    \<or> handed (send_client_item cid n p i v) = handed v @ [(cid, i)]
      \<and> channel_type (chans v p) = item_type i" for p i and v :: "('a, 'b) world"
    by (auto simp: send_client_item_def chan_sends_def note_arrival_def Let_def)
  note sends = this [of _ _ "on_session (note_client_data now n) (use_chan LockChannel p w)" for p]
  show ?thesis
    using assms sends lock by (auto simp: client_data_item_def Let_def split: option.split) metis+
qed

text \<open>A session whose channel 1 (towards the server) is open and known to be.\<close>

definition demo_open :: "(string, string) world" where
  "demo_open = demo\<lparr>chans := (\<lambda>p. fst (unblock_channel 0 (chans demo p))),
     ses := demo_session\<lparr>active_channels := [channel_info_new 1 1 False]\<rparr>\<rparr>"

lemma unblocked_channel_typed_witness:
  "handed (client_data_item 0 1 1 (Some (TextItem ''a'')) demo_open) = [(1, TextItem ''a'')]
    \<and> handed (client_data_item 0 1 1 (Some (MessageItem ''a'')) demo_open) = []"
proof -
  have u: "\<not> ci_blocked (get_channel_info 1 (ses demo_open))"
    "ci_channel (get_channel_info 1 (ses demo_open)) = Some 1"
    by (simp_all add: demo_open_def get_channel_info_def channel_info_where_def channel_info_new_def)
  have c: "channel_type (chans demo_open 1) = CHANNEL_TYPE_TEXT" "handed demo_open = []"
    by (simp_all add: demo_open_def session_run channel_run)
  have "handed (client_data_item 0 1 1 (Some (TextItem ''a'')) demo_open) \<noteq> []"
    by (simp add: demo_open_def session_run channel_run send_client_item_def)
  then show ?thesis
    using unblocked_channel_typed [OF u(1), of 0 1 "Some (TextItem ''a'')"]
      unblocked_channel_typed [OF u(1), of 0 1 "Some (MessageItem ''a'')"] u(2) c by simp
qed

subsection \<open>Where it falls short\<close>

abbreviation "demo2 \<equiv> the (session_do (ChannelAdded (Some 2) False) demo)"
abbreviation "demo2_said \<equiv> the (session_do (ClientData 0 1 1 (Some (TextItem ''a''))) demo2)"
abbreviation "demo2_open \<equiv> the (session_do (OtherChannel 2 (UnblockChannel 0)) demo2_said)"

lemma demo2_open_reachable: "reachable_session (Idle, demo2_open)"
proof -
  have "reachable_session (Idle, demo2)"
    by (rule reach_do [OF demo_reachable])
      (simp add: op_allowed_def session_run MAX_CHANNELS_def channel_run, simp add: session_run channel_run)
  then have "reachable_session (Idle, demo2_said)" by (rule reach_do) (simp_all add: op_allowed_def)
  then show ?thesis by (rule reach_do) (simp_all add: op_allowed_def)
qed

definition demo2_status :: "channel_status \<Rightarrow> u32 \<Rightarrow> (string, string) router_event" where
  "demo2_status st n = status_event \<lparr>csc_status = st, csc_out = False, csc_id = 1, csc_name = ''c'',
     csc_type = CHANNEL_TYPE_CLIENT_DATA, csc_subtype = '''', csc_entity_id = DbId 1 1\<rparr> n"

definition demo2_world :: "(string, string) world" where
  "demo2_world = demo\<lparr>
     ses := demo_session\<lparr>outgoing_events := [demo2_status CHANNEL_STATUS_open 1,
         demo2_status CHANNEL_STATUS_block 2],
       last_used_channel_id := 1, last_used_message_ser_id := 2, has_requested_service := True,
       service_requests := 1, incoming_ser_ack := 1, needs_incoming_ser_ack_sent := True,
       active_channels := [\<lparr>ci_id = 1, ci_channel = Some 2, ci_out = False, ci_closed = False,
         ci_blocked = True\<rparr>],
       blocked_channel_queues := [(1, [item_event (TextItem ''a'') 1 0])],
       pending_channels_unblock := [1]\<rparr>,
     chans := (chans demo)(2 := (channel_new ''c'' CHANNEL_TYPE_CLIENT_DATA '''' (DbId 1 1))
       \<lparr>channel_control_listeners := [100], pointer_holders := [100, 100], channel_blocked := False,
        channel_last_status := CHANNEL_FLOW_OPEN, broadcasts := [CHANNEL_FLOW_OPEN],
        notices := [(100, CHANNEL_FLOW_OPEN)]\<rparr>),
     arrived := [(1, TextItem ''a'')]\<rparr>"

lemma demo2_open_eq: "demo2_open = demo2_world"
  by (simp add: demo2_world_def demo2_status_def session_run channel_run)

text \<open>C38. On a channel known to be blocked the type of the data is not checked: a text sent
  there is queued, and once the channel takes data again it is handed to a channel for client
  data as if it were one for text.\<close>

theorem blocked_channel_type_confusion:
  "\<exists>(w :: (string, string) world) ci i. reachable_session (Unblocking [] [], w)
    \<and> ci \<in> set (active_channels (ses w)) \<and> (ci_id ci, i) \<in> set (handed w)
    \<and> item_type i = CHANNEL_TYPE_TEXT
    \<and> channel_type (chans w (the (ci_channel ci))) = CHANNEL_TYPE_CLIENT_DATA"
proof -
  define r where "r = (\<lambda>n :: nat. SEND_OK)"
  define v where "v = on_session (fst \<circ> take_unblocked) (on_session (fst \<circ> begin_processing) demo2_world)"
  define w where "w = fst (process_unblocked 1 v)"
  define ci where "ci = \<lparr>ci_id = 1, ci_channel = Some 2, ci_out = False, ci_closed = False,
    ci_blocked = False\<rparr>"
  have steps: "router_step r (Idle, demo2_world)
      = Some (Unblocking0, on_session (fst \<circ> begin_processing) demo2_world)"
    "router_step r (Unblocking0, on_session (fst \<circ> begin_processing) demo2_world)
      = Some (Unblocking [1] [], v)"
    by (simp_all add: v_def demo2_world_def begin_processing_def take_unblocked_def
        demo_session_def session_new_def Let_def)
  have w: "ci \<in> set (active_channels (ses w)) \<and> handed w = [(1, TextItem ''a'')]
    \<and> channel_type (chans w 2) = CHANNEL_TYPE_CLIENT_DATA \<and> snd (process_unblocked 1 v) = []"
    by (simp add: ci_def w_def v_def demo2_world_def session_run channel_run)
  then have "router_step r (Unblocking [1] [], v) = Some (Unblocking [] [], w)"
    by (simp add: w_def case_prod_beta)
  from reach_router [OF reach_router [OF reach_router [OF
      demo2_open_reachable [unfolded demo2_open_eq] steps(1)] steps(2)] this]
  have "reachable_session (Unblocking [] [], w)" .
  with w show ?thesis
    by (intro exI [of _ w] exI [of _ ci] exI [of _ "TextItem ''a''"]) (simp add: ci_def)
qed

text \<open>A channel that takes data again while the client is blocked is not looked at when the
  client unblocks: with nothing else to send, the session does not ask for service, and the
  client goes on believing that the channel is blocked.\<close>

theorem unblocked_channel_forgotten:
  assumes "client_is_blocked s" and "\<not> has_requested_service s" and "outgoing_events s = []"
    and "get_channel_info_ptr p s = \<lparr>ci_id = cid, ci_channel = Some p, ci_out = False,
      ci_closed = False, ci_blocked = True\<rparr>" and "cid \<noteq> 0"
  shows "let t = client_unblocked (channel_flow_open p s) in
    cid \<in> set (pending_channels_unblock t) \<and> \<not> client_is_blocked t \<and> \<not> has_requested_service t
    \<and> ci_blocked (get_channel_info_ptr p t)"
proof -
  define t where "t = fst (add_pending_unblocked_channel cid s)"
  have t: "client_is_blocked t" "\<not> has_requested_service t" "outgoing_events t = []"
    "cid \<in> set (pending_channels_unblock t)" "active_channels t = active_channels s"
    using assms by (simp_all add: t_def add_pending_unblocked_channel_def)
  have "channel_flow_open p s = t"
    using assms t by (simp add: channel_flow_open_def ci_valid_def t_def request_unless_blocked_def)
  with t assms(4) show ?thesis
    by (simp add: client_unblocked_def get_channel_info_ptr_def channel_info_where_def)
qed

lemma unblocked_channel_forgotten_witness:
  "let t = client_unblocked (channel_flow_open 1 (demo_session\<lparr>client_is_blocked := True,
      active_channels := [\<lparr>ci_id = 1, ci_channel = Some 1, ci_out = False, ci_closed = False,
        ci_blocked = True\<rparr>]\<rparr>))
   in 1 \<in> set (pending_channels_unblock t) \<and> \<not> has_requested_service t"
  using unblocked_channel_forgotten [of "demo_session\<lparr>client_is_blocked := True,
      active_channels := [\<lparr>ci_id = 1, ci_channel = Some 1, ci_out = False, ci_closed = False,
        ci_blocked = True\<rparr>]\<rparr>" 1 1]
  by (simp add: Let_def demo_session_def session_new_def get_channel_info_ptr_def channel_info_where_def)

subsection \<open>Numbers for channels\<close>

lemma card_channel_range: "card {k. id_range MAX_CHANNELS k} < unat MAX_CHANNELS"
  using MAX_CHANNELS_gt by (simp add: card_id_range word_less_nat_alt)

lemma unat_channel_number: "n < unat MAX_CHANNELS \<Longrightarrow> unat (of_nat n :: u32) = n"
  using unsigned_less [of MAX_CHANNELS, where 'a = nat] by (simp add: unsigned_of_nat take_bit_nat_eq_self)

lemmas card_channel_range_exact = card_id_range [of MAX_CHANNELS]

text \<open>A new channel gets a number that is not 0 and no other channel of the session has, and
  the search for it ends, as long as there is one to give.\<close>

theorem channel_number_given:
  assumes "reachable_session (ph, w)" and "length (active_channels (ses w)) + 1 < unat MAX_CHANNELS"
  shows "\<exists>s n. get_next_channel_id (ses w) = Some (s, n) \<and> n \<noteq> 0
    \<and> n \<notin> ci_id ` set (active_channels (ses w)) \<and> active_channels s = active_channels (ses w)"
proof -
  have ids: "ids_ok (ses w)"
    using order_inv_reachable [OF assms(1)] by (simp add: order_inv_def order_ok_def)
  have "card (set (channel_ids (ses w))) \<le> length (active_channels (ses w))"
    using card_length [of "channel_ids (ses w)"] by (simp add: channel_ids_def)
  then have "\<not> {k. id_range MAX_CHANNELS k} \<subseteq> set (channel_ids (ses w))"
    using assms(2) card_mono [of "set (channel_ids (ses w))" "{k. id_range MAX_CHANNELS k}"]
    by (auto simp: card_channel_range_exact)
  then obtain k where "id_range MAX_CHANNELS k" "k \<notin> set (channel_ids (ses w))" by blast
  from search_channel_ends [OF ids this] obtain m where
    m: "search_channel_id (ses w) (last_used_channel_id (ses w)) = Some m" by blast
  with assms(2) have "get_next_channel_id (ses w) = Some (ses w\<lparr>last_used_channel_id := m\<rparr>, m)"
    by (simp add: get_next_channel_id_def)
  with search_channel_fresh [OF ids m] show ?thesis by (simp add: channel_ids_def)
qed

lemma channel_number_given_witness:
  "\<exists>s n. get_next_channel_id (ses demo) = Some (s, n) \<and> n \<noteq> 0
    \<and> n \<notin> ci_id ` set (active_channels (ses demo)) \<and> active_channels s = active_channels (ses demo)"
  by (rule channel_number_given [OF demo_reachable])
    (simp add: demo_def demo_session_def session_new_def MAX_CHANNELS_def)

text \<open>With all of the numbers 1 to \<open>MAX_CHANNELS - 1\<close> in use the check for a free one still
  succeeds, and the search for it never ends.\<close>

theorem channel_numbers_exhausted:
  assumes "ids_ok s" and "set (channel_ids s) = {k. id_range MAX_CHANNELS k}"
  shows "length (active_channels s) < unat MAX_CHANNELS \<and> get_next_channel_id s = None"
proof -
  have "length (active_channels s) = card (set (channel_ids s))"
    using assms(1) distinct_card [of "channel_ids s"] by (simp add: ids_ok_def channel_ids_def)
  then have len: "length (active_channels s) < unat MAX_CHANNELS"
    using assms(2) card_channel_range by simp
  have "search_channel_id s n = None" for n
  proof (cases "search_channel_id s n")
    case (Some m)
    note fresh = search_channel_fresh [OF assms(1) Some]
    obtain nxt where "alloc_id (channel_ids s) MAX_CHANNELS (advance_channel_id n) = Some (m, nxt)"
      using alloc_search_channel [OF assms(1) Some] by blast
    moreover have "alloc_id (channel_ids s) MAX_CHANNELS k = None" if "id_range MAX_CHANNELS k" for k
      using alloc_id_diverges [OF MAX_CHANNELS_gt that] assms(2) by blast
    moreover have "alloc_id (channel_ids s) MAX_CHANNELS 0 = alloc_id (channel_ids s) MAX_CHANNELS 1"
      using MAX_CHANNELS_gt by (subst alloc_id.simps) (simp add: advance_id_def)
    ultimately show ?thesis
      using advance_channel_range [of n] MAX_CHANNELS_gt by (auto simp: id_range_def)
  qed simp
  with len show ?thesis by (simp add: get_next_channel_id_def)
qed

definition full_session :: "(string, string) session" where
  "full_session = demo_session\<lparr>active_channels :=
     map (\<lambda>n. channel_info_new (of_nat n) 0 False) [1..<unat MAX_CHANNELS]\<rparr>"

lemma full_channel_ids: "channel_ids full_session = map of_nat [1..<unat MAX_CHANNELS]"
  by (simp add: full_session_def channel_ids_def channel_info_new_def)

lemma full_ids_ok: "ids_ok full_session"
proof -
  have "inj_on (of_nat :: nat \<Rightarrow> u32) {1..<unat MAX_CHANNELS}"
    by (rule inj_on_inverseI [of _ unat]) (simp add: unat_channel_number)
  moreover have "0 \<notin> (of_nat :: nat \<Rightarrow> u32) ` {1..<unat MAX_CHANNELS}"
  proof
    assume "0 \<in> (of_nat :: nat \<Rightarrow> u32) ` {1..<unat MAX_CHANNELS}"
    then obtain n where "n \<in> {1..<unat MAX_CHANNELS}" "(of_nat n :: u32) = 0" by (metis imageE)
    with unat_channel_number [of n] show False by simp
  qed
  ultimately have "distinct (channel_ids full_session)" "0 \<notin> set (channel_ids full_session)"
    by (simp_all only: full_channel_ids distinct_map distinct_upt set_map set_upt simp_thms)
  then show ?thesis
    by (simp add: ids_ok_def) (auto simp: full_session_def channel_info_new_def)
qed

lemma full_numbers: "set (channel_ids full_session) = {k. id_range MAX_CHANNELS k}"
proof -
  have "id_range MAX_CHANNELS k \<longleftrightarrow> k \<in> of_nat ` {1..<unat MAX_CHANNELS}" for k
  proof
    assume "id_range MAX_CHANNELS k"
    then have "unat k \<in> {1..<unat MAX_CHANNELS}"
      by (auto simp: id_range_def word_le_nat_alt word_less_nat_alt)
    then have "of_nat (unat k) \<in> (of_nat :: nat \<Rightarrow> u32) ` {1..<unat MAX_CHANNELS}" by (rule imageI)
    then show "k \<in> of_nat ` {1..<unat MAX_CHANNELS}" by (simp only: of_nat_unat ucast_id)
  qed (auto simp: id_range_def word_le_nat_alt word_less_nat_alt unat_channel_number)
  then show ?thesis by (auto simp: full_channel_ids simp del: upt_Suc)
qed

lemma channel_numbers_exhausted_witness:
  "length (active_channels full_session) < unat MAX_CHANNELS \<and> get_next_channel_id full_session = None"
  by (rule channel_numbers_exhausted [OF full_ids_ok full_numbers])

end
