(* ===== verification/Router.thy ===== *)
theory Router
  imports Session OrdMap
begin

text \<open>
  The tables of \<open>comm::RouterSessionManager\<close>
  (\<^verbatim>\<open>src/src/comminterface/comm_RouterSessionManager.cpp\<close>): which connection a session has,
  which session a connection has, which session a player has, and the two queues of sessions,
  those that asked for service and those to be deleted. Each definition is what the method does
  to the tables under its locks; the sessions themselves and the router's thread are in
  \<open>Server\<close>.

  Pointers to sessions, connections and drivers are numbers; the maps are in the order of their
  keys. A connection belongs to its driver: what it says of itself is \<open>client_conn\<close>, which site
  it is for \<open>client_site\<close>. The database of players and the check of a password against its hash
  are the parameter \<open>player_db\<close>.
\<close>

subsection \<open>Data\<close>

record player_db =
  find_player :: "u32 \<Rightarrow> string \<Rightarrow> db_id list"
  player_password :: "db_id \<Rightarrow> string option"
  valid_password :: "string \<Rightarrow> string \<Rightarrow> bool"

datatype connection_action = ACTION_CONNECTED | ACTION_DISCONNECTED

record router =
  session_to_connection :: "(ptr \<times> ptr) list"
  connection_to_session :: "(ptr \<times> ptr \<times> ptr) list"
  site_to_sessions :: "(u32 \<times> (db_id \<times> ptr) list) list"
  pending_actions :: "ptr list"
  pending_deletes :: "ptr list"
  client_conn :: "ptr \<Rightarrow> connection"
  client_site :: "ptr \<Rightarrow> u32"
  connection_events :: "(connection_action \<times> db_id \<times> string) list"
  last_connects :: "db_id list"
  released_connections :: "(ptr \<times> ptr) list"

definition router_new :: "(ptr \<Rightarrow> connection) \<Rightarrow> (ptr \<Rightarrow> u32) \<Rightarrow> router" where
  "router_new conns sites =
     \<lparr>session_to_connection = [], connection_to_session = [], site_to_sessions = [],
      pending_actions = [], pending_deletes = [], client_conn = conns, client_site = sites,
      connection_events = [], last_connects = [], released_connections = []\<rparr>"

definition client_set_entity_id :: "ptr \<Rightarrow> db_id \<Rightarrow> router \<Rightarrow> router" where
  "client_set_entity_id c i r =
     r\<lparr>client_conn := (client_conn r)(c := (client_conn r c)\<lparr>conn_entity_id := i\<rparr>)\<rparr>"

definition publish_connection :: "connection_action \<Rightarrow> db_id \<Rightarrow> ptr \<Rightarrow> router \<Rightarrow> router" where
  "publish_connection a i c r =
     r\<lparr>connection_events := connection_events r @ [(a, i, conn_source (client_conn r c))]\<rparr>"

definition check_password :: "player_db \<Rightarrow> u32 \<Rightarrow> string \<Rightarrow> string \<Rightarrow> db_id" where
  "check_password db site name password =
     (case find_player db site name of
        [] \<Rightarrow> default_id
      | i # _ \<Rightarrow> case player_password db i of
          None \<Rightarrow> default_id
        | Some hash \<Rightarrow> if valid_password db password hash then i else default_id)"

subsection \<open>Sessions of a player\<close>

definition entity_sessions :: "u32 \<Rightarrow> router \<Rightarrow> (db_id \<times> ptr) list" where
  "entity_sessions site r =
     (case map_of (site_to_sessions r) site of None \<Rightarrow> [] | Some m \<Rightarrow> m)"

definition add_entity_session :: "db_id \<Rightarrow> ptr \<Rightarrow> router \<Rightarrow> router" where
  "add_entity_session i s r =
     (if is_default i then r
      else r\<lparr>site_to_sessions := map_put (get_site_id i)
             (map_put i s (entity_sessions (get_site_id i) r)) (site_to_sessions r)\<rparr>)"

definition get_entity_session :: "db_id \<Rightarrow> router \<Rightarrow> ptr option" where
  "get_entity_session i r = map_of (entity_sessions (get_site_id i) r) i"

definition remove_entity_session :: "db_id \<Rightarrow> router \<Rightarrow> router \<times> bool" where
  "remove_entity_session i r =
     (case get_entity_session i r of
        None \<Rightarrow> (r, False)
      | Some s \<Rightarrow>
          let m = map_erase i (entity_sessions (get_site_id i) r)
          in (r\<lparr>site_to_sessions :=
                (if m = [] then map_erase (get_site_id i) (site_to_sessions r)
                 else map_put (get_site_id i) m (site_to_sessions r))\<rparr>, True))"

definition get_entity_site_ids :: "router \<Rightarrow> u32 list" where
  "get_entity_site_ids r = map_keys (site_to_sessions r)"

definition get_online_ids :: "u32 \<Rightarrow> router \<Rightarrow> db_id list" where
  "get_online_ids site r = map_keys (entity_sessions site r)"

definition get_session_online_count :: "u32 \<Rightarrow> router \<Rightarrow> u32" where
  "get_session_online_count site r = of_nat (length (entity_sessions site r))"

subsection \<open>Sessions of a connection\<close>

definition get_connection :: "ptr \<Rightarrow> router \<Rightarrow> ptr option" where
  "get_connection s r = map_of (session_to_connection r) s"

definition get_session :: "ptr \<Rightarrow> router \<Rightarrow> ptr option" where
  "get_session c r = map_option snd (map_of (connection_to_session r) c)"

text \<open>\<open>None\<close> is a null pointer; the answer is whether an existing session was updated.\<close>

definition add_session ::
    "player_db \<Rightarrow> ptr \<Rightarrow> ptr option \<Rightarrow> ptr option \<Rightarrow> db_id \<Rightarrow> router \<Rightarrow> router \<times> bool" where
  "add_session db driver conn session i r =
     (case (conn, session) of
        (Some c, Some s) \<Rightarrow>
          if is_default i then (r, False)
          else
            let r = (case player_password db i of
                       None \<Rightarrow> r | Some _ \<Rightarrow> r\<lparr>last_connects := last_connects r @ [i]\<rparr>)
            in (case map_of (session_to_connection r) s of
                 None \<Rightarrow>
                   let r = r\<lparr>session_to_connection := map_put s c (session_to_connection r),
                             connection_to_session := map_put c (driver, s) (connection_to_session r)\<rparr>;
                       r = client_set_entity_id c i (add_entity_session i s r)
                   in (publish_connection ACTION_CONNECTED i c r, False)
               | Some old_c \<Rightarrow>
                   let r = r\<lparr>session_to_connection := map_put s c (session_to_connection r),
                             connection_to_session := map_put c (driver, s)
                               (map_erase old_c (connection_to_session r))\<rparr>
                   in (client_set_entity_id c i r, True))
      | _ \<Rightarrow> (r, False))"

definition remove_session :: "ptr \<Rightarrow> router \<Rightarrow> router" where
  "remove_session s r =
     (case map_of (session_to_connection r) s of
        None \<Rightarrow> r
      | Some c \<Rightarrow>
          let i = conn_entity_id (client_conn r c);
              r = publish_connection ACTION_DISCONNECTED i c r;
              r = fst (remove_entity_session i r)
          in r\<lparr>pending_deletes := pending_deletes r @ [s],
               session_to_connection := map_erase s (session_to_connection r)\<rparr>)"

definition disconnect_session :: "db_id \<Rightarrow> router \<Rightarrow> router \<times> bool" where
  "disconnect_session i r =
     (case get_entity_session i r of
        None \<Rightarrow> (r, False) | Some s \<Rightarrow> (remove_session s r, True))"

subsection \<open>What sessions ask of the router\<close>

definition session_has_pending_actions :: "ptr \<Rightarrow> router \<Rightarrow> router" where
  "session_has_pending_actions s r =
     (if pending_deletes r = [] then r\<lparr>pending_actions := pending_actions r @ [s]\<rparr>
      else if s \<notin> set (pending_deletes r)
      then r\<lparr>pending_actions := pending_actions r @ [s]\<rparr>
      else r)"

definition release_connection :: "ptr \<Rightarrow> router \<Rightarrow> router" where
  "release_connection c r =
     (case map_of (connection_to_session r) c of
        None \<Rightarrow> r
      | Some (driver, s) \<Rightarrow>
          r\<lparr>released_connections := released_connections r @ [(driver, c)],
            connection_to_session := map_erase c (connection_to_session r)\<rparr>)"

text \<open>The calls a method of session \<open>p\<close> made, from what it did to the session.\<close>

definition relay ::
    "ptr \<Rightarrow> ('t, 'm) session \<Rightarrow> ('t, 'm) session \<Rightarrow> router \<Rightarrow> router" where
  "relay p s s' r =
     (session_has_pending_actions p ^^ (service_requests s' - service_requests s))
       (fold release_connection (drop (length (released s)) (released s')) r)"

end
