(* ===== verification/Server.thy ===== *)
theory Server
  imports Router SessionRun
begin

text \<open>
  \<open>comm::RouterSessionManager\<close> with its sessions: the methods that make, call and delete
  sessions, and the router's thread that services them.

  Each live session is seen as \<open>SessionRun\<close> has it, with the channels as it finds them, and
  goes through the steps of \<open>session_step\<close>; what other sessions do to its channels is a step by
  others. After every step of a session the router's tables take the calls the session made.
  \<open>service_sessions\<close> is a sequence of smaller steps, as it holds \<open>router_lock\<close> in two places
  only: the queue of sessions taken, the phases of each, the list of sessions to delete taken,
  each deletion. It holds \<open>callback_lock\<close> throughout, so that methods that need this lock come
  before or after it.
\<close>

datatype service_phase =
    ServiceIdle | Servicing "ptr list" bool | DeletingSessions "ptr list"

record ('t, 'm) server =
  router :: router
  views :: "ptr \<Rightarrow> (phase \<times> ('t, 'm) world) option"
  service :: service_phase

definition set_view ::
    "ptr \<Rightarrow> phase \<Rightarrow> ('t, 'm) world \<Rightarrow> ('t, 'm) server \<Rightarrow> ('t, 'm) server" where
  "set_view p ph w v =
     (case views v p of None \<Rightarrow> v
      | Some (_, w0) \<Rightarrow> v\<lparr>views := (views v)(p := Some (ph, w)),
                         router := relay p (ses w0) (ses w) (router v)\<rparr>)"

text \<open>A method of a session is called; \<open>None\<close> if the session is not alive.\<close>

definition session_call ::
    "ptr \<Rightarrow> ('t, 'm) session_op \<Rightarrow> ('t, 'm) server \<Rightarrow> ('t, 'm) server option" where
  "session_call p x v =
     (case views v p of None \<Rightarrow> None
      | Some (ph, w) \<Rightarrow> map_option (\<lambda>w'. set_view p ph w' v) (session_do x w))"

subsection \<open>Calls by connections\<close>

text \<open>The session of a connection is looked up and called; without one the call is dropped.\<close>

definition route_call ::
    "ptr \<Rightarrow> ('t, 'm) session_op \<Rightarrow> ('t, 'm) server \<Rightarrow> ('t, 'm) server option" where
  "route_call c x v =
     (case get_session c (router v) of None \<Rightarrow> Some v | Some p \<Rightarrow> session_call p x v)"

definition router_client_disconnected :: "ptr \<Rightarrow> ('t, 'm) server \<Rightarrow> ('t, 'm) server option" where
  "router_client_disconnected c v = route_call c ClientDisconnected v"

definition data_acknowledge :: "ptr \<Rightarrow> u32 \<Rightarrow> ('t, 'm) server \<Rightarrow> ('t, 'm) server option" where
  "data_acknowledge c ser_id v = route_call c (DataAcknowledge ser_id) v"

definition data_acknowledge_reconnect ::
    "ptr \<Rightarrow> u32 \<Rightarrow> ('t, 'm) server \<Rightarrow> ('t, 'm) server option" where
  "data_acknowledge_reconnect c ser_id v = route_call c (DataAcknowledgeReconnect ser_id) v"

definition router_client_unblocked :: "ptr \<Rightarrow> ('t, 'm) server \<Rightarrow> ('t, 'm) server option" where
  "router_client_unblocked c v = route_call c ClientUnblocked v"

definition text_from_client ::
    "nat \<Rightarrow> ptr \<Rightarrow> u32 \<Rightarrow> u32 \<Rightarrow> 't option \<Rightarrow> ('t, 'm) server \<Rightarrow> ('t, 'm) server option" where
  "text_from_client now c channel_id ser_id text_line v =
     route_call c (ClientData now channel_id ser_id (map_option TextItem text_line)) v"

definition message_from_client ::
    "nat \<Rightarrow> ptr \<Rightarrow> u32 \<Rightarrow> u32 \<Rightarrow> 'm option \<Rightarrow> ('t, 'm) server \<Rightarrow> ('t, 'm) server option" where
  "message_from_client now c channel_id ser_id client_message v =
     route_call c (ClientData now channel_id ser_id (map_option MessageItem client_message)) v"

subsection \<open>Logging in\<close>

text \<open>
  \<open>this\<close> is the address of the new session, \<open>chs\<close> the channels as it finds them. Null pointers
  are \<open>None\<close>; so is the answer when nobody was logged in.
\<close>

definition new_world :: "(ptr \<Rightarrow> ('t, 'm) item channel) \<Rightarrow> ('t, 'm) session \<Rightarrow> ('t, 'm) world" where
  "new_world chs s = \<lparr>ses = s, chans = chs, freed_use = False, arrived = [], handed = []\<rparr>"

definition authorize_client ::
    "player_db \<Rightarrow> ptr \<Rightarrow> (ptr \<Rightarrow> ('t, 'm) item channel) \<Rightarrow> nat \<Rightarrow> string \<Rightarrow> string
     \<Rightarrow> ptr option \<Rightarrow> ptr option \<Rightarrow> ('t, 'm) server \<Rightarrow> ('t, 'm) server \<times> ptr option" where
  "authorize_client db this chs now name password driver conn v =
     (case (driver, conn) of
        (Some d, Some c) \<Rightarrow>
          let i = check_password db (client_site (router v) c) name password
          in if is_default i then (v, None)
             else
               let r = (case get_entity_session i (router v) of
                          None \<Rightarrow> router v
                        | Some _ \<Rightarrow> fst (disconnect_session i (router v)));
                   r = client_set_entity_id c i r;
                   s = session_new 0 this (client_conn r c) now;
                   r = fst (add_session db d (Some c) (Some this) i r)
               in (v\<lparr>router := r, views := (views v)(this := Some (Idle, new_world chs s))\<rparr>,
                   Some this)
      | _ \<Rightarrow> (v, None))"

definition reauthorize_client ::
    "player_db \<Rightarrow> ptr \<Rightarrow> (ptr \<Rightarrow> ('t, 'm) item channel) \<Rightarrow> nat \<Rightarrow> string \<Rightarrow> string
     \<Rightarrow> ptr option \<Rightarrow> ptr option \<Rightarrow> bool \<Rightarrow> ('t, 'm) server
     \<Rightarrow> (('t, 'm) server \<times> ptr option) option" where
  "reauthorize_client db this chs now name password driver conn make_new_if_not_found v =
     (let not_found = (if make_new_if_not_found
            then authorize_client db this chs now name password driver conn v else (v, None))
      in case (driver, conn) of
        (Some d, Some c) \<Rightarrow>
          let i = check_password db (client_site (router v) c) name password
          in if is_default i then Some not_found
             else (case get_entity_session i (router v) of
                     None \<Rightarrow> Some not_found
                   | Some p \<Rightarrow>
                       map_option
                         (\<lambda>v. (v\<lparr>router := fst (add_session db d (Some c) (Some p) i (router v))\<rparr>, Some p))
                         (session_call p (Reconnect (Some (client_conn (router v) c))) v))
      | _ \<Rightarrow> Some not_found)"

subsection \<open>Channels and statistics\<close>

definition add_channel ::
    "db_id \<Rightarrow> ptr option \<Rightarrow> bool \<Rightarrow> ('t, 'm) server \<Rightarrow> (('t, 'm) server \<times> bool) option" where
  "add_channel i channel to_client v =
     (case channel of None \<Rightarrow> Some (v, False)
      | Some ch \<Rightarrow> case get_entity_session i (router v) of None \<Rightarrow> Some (v, False)
        | Some p \<Rightarrow> case views v p of None \<Rightarrow> None
          | Some (ph, w) \<Rightarrow>
              map_option (\<lambda>(w', cid). (set_view p ph w' v, cid \<noteq> 0))
                (channel_added (Some ch) to_client w))"

definition view_session :: "ptr \<Rightarrow> ('t, 'm) server \<Rightarrow> ('t, 'm) session option" where
  "view_session p v = map_option (ses \<circ> snd) (views v p)"

definition no_session_stats :: session_stats where
  "no_session_stats = \<lparr>stats_entity_id = default_id, stats_connected = False,
     stats_connection_time = 0, stats_last_activity_time = 0, stats_is_enhanced = False,
     stats_source = '''', stats_client_type = CLIENT_TYPE_BATCH\<rparr>"

text \<open>The statistics of all sessions of a site; \<open>None\<close> if one of them is not alive.\<close>

definition get_site_stats :: "u32 \<Rightarrow> ('t, 'm) server \<Rightarrow> session_stats list option" where
  "get_site_stats site v =
     those (map (\<lambda>e. map_option get_stats (view_session (snd e) v))
       (entity_sessions site (router v)))"

definition get_entity_stats :: "db_id \<Rightarrow> ('t, 'm) server \<Rightarrow> session_stats option" where
  "get_entity_stats i v =
     (case get_entity_session i (router v) of
        None \<Rightarrow> Some no_session_stats
      | Some p \<Rightarrow> map_option get_stats (view_session p v))"

subsection \<open>Idle sessions\<close>

text \<open>The players to disconnect; a session without a connection waits \<open>reconnect_wait\<close> seconds.\<close>

definition idle_too_long :: "nat \<Rightarrow> nat \<Rightarrow> nat \<Rightarrow> ('t, 'm) session \<Rightarrow> bool" where
  "idle_too_long now idle_time reconnect_wait s \<longleftrightarrow>
     (if client_is_connected s then now - last_activity_time s > idle_time
      else now - last_activity_time s > reconnect_wait)"

definition idle_ids :: "nat \<Rightarrow> nat \<Rightarrow> nat \<Rightarrow> ('t, 'm) server \<Rightarrow> db_id list option" where
  "idle_ids now idle_time reconnect_wait v =
     map_option (\<lambda>ss. map client_entity_id (filter (idle_too_long now idle_time reconnect_wait) ss))
       (those (map (\<lambda>e. view_session (fst e) v) (session_to_connection (router v))))"

definition disconnect_idle :: "nat \<Rightarrow> nat \<Rightarrow> nat \<Rightarrow> ('t, 'm) server \<Rightarrow> ('t, 'm) server option" where
  "disconnect_idle now idle_time reconnect_wait v =
     map_option (\<lambda>ids. v\<lparr>router := fold (\<lambda>i r. fst (disconnect_session i r)) ids (router v)\<rparr>)
       (idle_ids now idle_time reconnect_wait v)"

subsection \<open>Servicing and deleting sessions\<close>

definition delete_session :: "ptr \<Rightarrow> ('t, 'm) server \<Rightarrow> ('t, 'm) server option" where
  "delete_session p v =
     (case views v p of None \<Rightarrow> None
      | Some (ph, w) \<Rightarrow> Some (v\<lparr>views := (views v)(p := None),
          router := relay p (ses w) (ses (session_delete w)) (router v)\<rparr>))"

text \<open>\<open>service_sessions\<close> as the code has it, with nobody coming in between.\<close>

fun process_sessions ::
    "(nat \<Rightarrow> send_return_code) \<Rightarrow> ptr list \<Rightarrow> ('t, 'm) server \<Rightarrow> ('t, 'm) server option" where
  "process_sessions reply [] v = Some v"
| "process_sessions reply (p # ps) v =
     (case views v p of None \<Rightarrow> None
      | Some (ph, w) \<Rightarrow> Option.bind (process_pending reply w)
          (\<lambda>w'. process_sessions reply ps (set_view p ph w' v)))"

fun delete_sessions :: "ptr list \<Rightarrow> ('t, 'm) server \<Rightarrow> ('t, 'm) server option" where
  "delete_sessions [] v = Some v"
| "delete_sessions (p # ps) v = Option.bind (delete_session p v) (delete_sessions ps)"

definition service_sessions ::
    "(nat \<Rightarrow> send_return_code) \<Rightarrow> ('t, 'm) server \<Rightarrow> ('t, 'm) server option" where
  "service_sessions reply v =
     (let sessions = pending_actions (router v);
          need_deletes = (pending_deletes (router v) \<noteq> []);
          v = v\<lparr>router := (router v)\<lparr>pending_actions := []\<rparr>\<rparr>
      in Option.bind (process_sessions reply sessions v)
           (\<lambda>v. if need_deletes
                then delete_sessions (pending_deletes (router v))
                       (v\<lparr>router := (router v)\<lparr>pending_deletes := []\<rparr>\<rparr>)
                else Some v))"

text \<open>The same in steps.\<close>

fun service_step ::
    "(nat \<Rightarrow> send_return_code) \<Rightarrow> service_phase \<Rightarrow> ('t, 'm) server \<Rightarrow> ('t, 'm) server option" where
  "service_step reply ServiceIdle v =
     Some (v\<lparr>service := Servicing (pending_actions (router v)) (pending_deletes (router v) \<noteq> []),
             router := (router v)\<lparr>pending_actions := []\<rparr>\<rparr>)"
| "service_step reply (Servicing (p # ps) need_deletes) v =
     (case views v p of None \<Rightarrow> None
      | Some (ph, w) \<Rightarrow> map_option
          (\<lambda>(ph', w'). (set_view p ph' w' v)\<lparr>service :=
             Servicing (if ph' = Idle then ps else p # ps) need_deletes\<rparr>)
          (router_step reply (ph, w)))"
| "service_step reply (Servicing [] need_deletes) v =
     Some (if need_deletes
           then v\<lparr>service := DeletingSessions (pending_deletes (router v)),
                  router := (router v)\<lparr>pending_deletes := []\<rparr>\<rparr>
           else v\<lparr>service := ServiceIdle\<rparr>)"
| "service_step reply (DeletingSessions (p # ps)) v =
     map_option (service_update (\<lambda>_. DeletingSessions ps)) (delete_session p v)"
| "service_step reply (DeletingSessions []) v = Some (v\<lparr>service := ServiceIdle\<rparr>)"

subsection \<open>Steps\<close>

text \<open>
  What may happen. Methods of sessions are called while the session is alive, reconnecting and
  adding channels by the router only. A driver hands the router connections it has not handed
  over before, and a new session gets an address no live session has and channels that know
  nothing of it.
\<close>

definition router_only :: "('t, 'm) session_op \<Rightarrow> bool" where
  "router_only x = (case x of Reconnect _ \<Rightarrow> True | ChannelAdded _ _ \<Rightarrow> True | _ \<Rightarrow> False)"

definition fresh_connection :: "ptr \<Rightarrow> router \<Rightarrow> bool" where
  "fresh_connection c r \<longleftrightarrow> map_of (connection_to_session r) c = None \<and> conn_ptr (client_conn r c) = c"

definition fresh_session :: "ptr \<Rightarrow> (ptr \<Rightarrow> ('t, 'm) item channel) \<Rightarrow> ('t, 'm) server \<Rightarrow> bool" where
  "fresh_session this chs v \<longleftrightarrow> views v this = None
     \<and> (\<forall>ch. chan_ok (chs ch) \<and> this \<notin> set (channel_control_listeners (chs ch))
          \<and> this \<notin> set (pointer_holders (chs ch)) \<and> recv_callback_ptr (chs ch) \<noteq> Some this)"

inductive server_step :: "('t, 'm) server \<Rightarrow> ('t, 'm) server \<Rightarrow> bool" where
  call: "views v p = Some (ph, w) \<Longrightarrow> op_allowed ph x w \<Longrightarrow> \<not> router_only x
    \<Longrightarrow> session_call p x v = Some v' \<Longrightarrow> server_step v v'"
| login: "service v = ServiceIdle \<Longrightarrow> fresh_connection c (router v) \<Longrightarrow> fresh_session this chs v
    \<Longrightarrow> authorize_client db this chs now name password (Some d) (Some c) v = (v', p)
    \<Longrightarrow> server_step v v'"
| relogin: "service v = ServiceIdle \<Longrightarrow> fresh_connection c (router v) \<Longrightarrow> fresh_session this chs v
    \<Longrightarrow> reauthorize_client db this chs now name password (Some d) (Some c) make_new v = Some (v', p)
    \<Longrightarrow> server_step v v'"
| channel: "service v = ServiceIdle
    \<Longrightarrow> (\<And>p ph w. get_entity_session i (router v) = Some p \<Longrightarrow> views v p = Some (ph, w)
        \<Longrightarrow> op_allowed ph (ChannelAdded ch to_client) w)
    \<Longrightarrow> add_channel i ch to_client v = Some (v', ok) \<Longrightarrow> server_step v v'"
| disconnect: "service v = ServiceIdle \<Longrightarrow> disconnect_session i (router v) = (r, ok)
    \<Longrightarrow> server_step v (v\<lparr>router := r\<rparr>)"
| idle: "service v = ServiceIdle \<Longrightarrow> disconnect_idle now idle_time reconnect_wait v = Some v'
    \<Longrightarrow> server_step v v'"
| service: "service_step reply (service v) v = Some v' \<Longrightarrow> server_step v v'"

definition server_start :: "('t, 'm) server \<Rightarrow> bool" where
  "server_start v \<longleftrightarrow> (\<exists>conns sites. router v = router_new conns sites)
     \<and> (\<forall>p. views v p = None) \<and> service v = ServiceIdle"

inductive reachable_server :: "('t, 'm) server \<Rightarrow> bool" where
  start: "server_start v \<Longrightarrow> reachable_server v"
| step: "reachable_server v \<Longrightarrow> server_step v v' \<Longrightarrow> reachable_server v'"

end
