(* ===== verification/ServerInv.thy ===== *)
theory ServerInv
  imports Server SessionOrder
begin

text \<open>
  Invariants of the router and its sessions: the tables agree with each other and with the
  sessions alive, each live session is in a state of \<open>SessionRun\<close>, and a session that asked for
  service is in a queue.
\<close>

subsection \<open>The table of players\<close>

definition sites_ok :: "router \<Rightarrow> bool" where
  "sites_ok r \<longleftrightarrow> map_sorted (site_to_sessions r)
     \<and> (\<forall>site m. map_of (site_to_sessions r) site = Some m \<longrightarrow>
          m \<noteq> [] \<and> map_sorted m \<and> (\<forall>i \<in> fst ` set m. get_site_id i = site))"

lemma entity_sessions_sorted: "sites_ok r \<Longrightarrow> map_sorted (entity_sessions site r)"
  by (auto simp: sites_ok_def entity_sessions_def split: option.split)

lemma entity_sessions_site:
  "sites_ok r \<Longrightarrow> i \<in> fst ` set (entity_sessions site r) \<Longrightarrow> get_site_id i = site"
  by (cases "map_of (site_to_sessions r) site") (auto simp: sites_ok_def entity_sessions_def)

lemma sites_ok_cong: "site_to_sessions r' = site_to_sessions r \<Longrightarrow> sites_ok r' = sites_ok r"
  by (simp add: sites_ok_def)

lemma entity_sessions_cong:
  "site_to_sessions r' = site_to_sessions r \<Longrightarrow> entity_sessions site r' = entity_sessions site r"
  by (simp add: entity_sessions_def)

lemma get_entity_cong:
  "site_to_sessions r' = site_to_sessions r \<Longrightarrow> get_entity_session i r' = get_entity_session i r"
  by (simp add: get_entity_session_def entity_sessions_def)

lemma map_put_nonempty [simp]: "map_put k v m \<noteq> []"
  by (induction k v m rule: map_put.induct) auto

lemma sites_ok_put:
  assumes "sites_ok r" and "m \<noteq> []" "map_sorted m" "\<forall>i \<in> fst ` set m. get_site_id i = site"
  shows "sites_ok (r\<lparr>site_to_sessions := map_put site m (site_to_sessions r)\<rparr>)"
  using assms by (auto simp: sites_ok_def map_sorted_put map_of_put)

lemma entity_sessions_put:
  assumes "sites_ok r"
  shows "entity_sessions site' (r\<lparr>site_to_sessions := map_put site m (site_to_sessions r)\<rparr>)
    = (if site' = site then m else entity_sessions site' r)"
  using assms by (simp add: entity_sessions_def sites_ok_def map_of_put)

lemma entity_sessions_erase:
  "entity_sessions site' (r\<lparr>site_to_sessions := map_erase site (site_to_sessions r)\<rparr>)
    = (if site' = site then [] else entity_sessions site' r)"
  by (simp add: entity_sessions_def map_of_erase)

lemma sites_ok_add:
  assumes "sites_ok r"
  shows "sites_ok (add_entity_session i s r)"
proof -
  define m where "m = entity_sessions (get_site_id i) r"
  have "\<forall>j \<in> insert i (fst ` set m). get_site_id j = get_site_id i"
    using assms entity_sessions_site m_def by blast
  then have "\<forall>j \<in> fst ` set (map_put i s m). get_site_id j = get_site_id i"
    by (simp only: fst_set_map_put)
  then have "sites_ok (r\<lparr>site_to_sessions := map_put (get_site_id i) (map_put i s m) (site_to_sessions r)\<rparr>)"
    using assms by (intro sites_ok_put) (simp_all add: m_def map_sorted_put entity_sessions_sorted)
  with assms show ?thesis by (simp add: add_entity_session_def m_def)
qed

lemma get_entity_add:
  assumes "sites_ok r" and "i \<noteq> default_id"
  shows "get_entity_session j (add_entity_session i s r)
    = (if j = i then Some s else get_entity_session j r)"
  using assms by (auto simp: get_entity_session_def add_entity_session_def entity_sessions_put
      map_of_put entity_sessions_sorted)

lemma sites_ok_remove: "sites_ok r \<Longrightarrow> sites_ok (fst (remove_entity_session i r))"
proof (cases "get_entity_session i r")
  case (Some s)
  assume ok: "sites_ok r"
  define m where "m = map_erase i (entity_sessions (get_site_id i) r)"
  have "map_sorted m" using ok by (simp add: m_def map_sorted_erase entity_sessions_sorted)
  moreover have "fst ` set m \<subseteq> fst ` set (entity_sessions (get_site_id i) r)"
    by (auto simp: m_def map_erase_def)
  then have "\<forall>j \<in> fst ` set m. get_site_id j = get_site_id i"
    using ok entity_sessions_site by blast
  ultimately have "m \<noteq> [] \<Longrightarrow> sites_ok (r\<lparr>site_to_sessions := map_put (get_site_id i) m (site_to_sessions r)\<rparr>)"
    using ok by (intro sites_ok_put)
  moreover have "sites_ok (r\<lparr>site_to_sessions := map_erase (get_site_id i) (site_to_sessions r)\<rparr>)"
    using ok by (auto simp: sites_ok_def map_sorted_erase map_of_erase)
  ultimately show ?thesis using Some by (simp add: remove_entity_session_def Let_def m_def)
qed (simp add: remove_entity_session_def)

lemma get_entity_remove:
  assumes "sites_ok r"
  shows "get_entity_session j (fst (remove_entity_session i r))
    = (if j = i then None else get_entity_session j r)"
proof (cases "get_entity_session i r")
  case (Some s)
  define m where "m = map_erase i (entity_sessions (get_site_id i) r)"
  have m: "map_of m j = (if j = i then None else map_of (entity_sessions (get_site_id i) r) j)" for j
    by (simp add: m_def map_of_erase)
  show ?thesis
  proof (cases "m = []")
    case True
    with m [of j] have "get_site_id j = get_site_id i \<Longrightarrow> j \<noteq> i
        \<Longrightarrow> map_of (entity_sessions (get_site_id i) r) j = None" by simp
    with Some True show ?thesis
      by (auto simp: remove_entity_session_def get_entity_session_def Let_def entity_sessions_erase
          m_def [symmetric])
  next
    case False
    with Some m assms show ?thesis
      by (auto simp: remove_entity_session_def get_entity_session_def Let_def entity_sessions_put
          m_def [symmetric])
  qed
qed (auto simp: remove_entity_session_def)

lemma get_entity_mem:
  assumes "sites_ok r"
  shows "(i, s) \<in> set (entity_sessions (get_site_id i) r) \<longleftrightarrow> get_entity_session i r = Some s"
proof -
  have "distinct (map fst (entity_sessions (get_site_id i) r))"
    using om.distinct_keys [OF entity_sessions_sorted [OF assms]] by (simp add: map_keys_def)
  then show ?thesis by (simp add: get_entity_session_def)
qed

text \<open>Other tables.\<close>

lemma remove_entity_fields [simp]:
  "session_to_connection (fst (remove_entity_session i r)) = session_to_connection r"
  "connection_to_session (fst (remove_entity_session i r)) = connection_to_session r"
  "pending_actions (fst (remove_entity_session i r)) = pending_actions r"
  "pending_deletes (fst (remove_entity_session i r)) = pending_deletes r"
  "client_conn (fst (remove_entity_session i r)) = client_conn r"
  by (simp_all add: remove_entity_session_def Let_def split: option.split)

lemma add_entity_fields [simp]:
  "session_to_connection (add_entity_session i s r) = session_to_connection r"
  "connection_to_session (add_entity_session i s r) = connection_to_session r"
  "pending_actions (add_entity_session i s r) = pending_actions r"
  "pending_deletes (add_entity_session i s r) = pending_deletes r"
  "client_conn (add_entity_session i s r) = client_conn r"
  by (simp_all add: add_entity_session_def)

lemma sites_ok_update [simp]:
  "sites_ok (session_to_connection_update f0 r) = sites_ok r"
  "sites_ok (connection_to_session_update f1 r) = sites_ok r"
  "sites_ok (pending_actions_update f2 r) = sites_ok r"
  "sites_ok (pending_deletes_update f3 r) = sites_ok r"
  "sites_ok (client_conn_update f4 r) = sites_ok r"
  "sites_ok (connection_events_update f5 r) = sites_ok r"
  "sites_ok (last_connects_update f6 r) = sites_ok r"
  "sites_ok (released_connections_update f7 r) = sites_ok r"
  by (simp_all add: sites_ok_def)

lemma get_entity_update [simp]:
  "get_entity_session i (session_to_connection_update f0 r) = get_entity_session i r"
  "get_entity_session i (connection_to_session_update f1 r) = get_entity_session i r"
  "get_entity_session i (pending_actions_update f2 r) = get_entity_session i r"
  "get_entity_session i (pending_deletes_update f3 r) = get_entity_session i r"
  "get_entity_session i (client_conn_update f4 r) = get_entity_session i r"
  "get_entity_session i (connection_events_update f5 r) = get_entity_session i r"
  "get_entity_session i (last_connects_update f6 r) = get_entity_session i r"
  "get_entity_session i (released_connections_update f7 r) = get_entity_session i r"
  by (simp_all add: get_entity_session_def entity_sessions_def)

subsection \<open>The tables together\<close>

text \<open>\<open>own\<close> has for each live session its connection and its player, \<open>gone\<close> is the list of the
  sessions to delete.\<close>

definition router_ok :: "router \<Rightarrow> (ptr \<Rightarrow> (ptr option \<times> db_id) option) \<Rightarrow> ptr list \<Rightarrow> bool" where
  "router_ok r own gone \<longleftrightarrow>
     map_sorted (session_to_connection r) \<and> map_sorted (connection_to_session r) \<and> sites_ok r
   \<and> (\<forall>p c. get_connection p r = Some c \<longrightarrow>
        own p = Some (Some c, conn_entity_id (client_conn r c))
        \<and> get_entity_session (conn_entity_id (client_conn r c)) r = Some p)
   \<and> (\<forall>i p. get_entity_session i r = Some p \<longrightarrow> i \<noteq> default_id
        \<and> (\<exists>c. get_connection p r = Some c \<and> conn_entity_id (client_conn r c) = i))
   \<and> (\<forall>c p. (\<exists>d. map_of (connection_to_session r) c = Some (d, p)) \<longleftrightarrow> (\<exists>i. own p = Some (Some c, i)))
   \<and> (\<forall>p. own p \<noteq> None \<longleftrightarrow> get_connection p r \<noteq> None \<or> p \<in> set gone)
   \<and> (\<forall>p \<in> set gone. get_connection p r = None) \<and> distinct gone"

lemma router_okI:
  assumes "map_sorted (session_to_connection r)" "map_sorted (connection_to_session r)" "sites_ok r"
    and "\<And>p c. get_connection p r = Some c \<Longrightarrow> own p = Some (Some c, conn_entity_id (client_conn r c))
      \<and> get_entity_session (conn_entity_id (client_conn r c)) r = Some p"
    and "\<And>i p. get_entity_session i r = Some p \<Longrightarrow> i \<noteq> default_id
      \<and> (\<exists>c. get_connection p r = Some c \<and> conn_entity_id (client_conn r c) = i)"
    and "\<And>c p. (\<exists>d. map_of (connection_to_session r) c = Some (d, p)) \<longleftrightarrow> (\<exists>i. own p = Some (Some c, i))"
    and "\<And>p. own p \<noteq> None \<longleftrightarrow> get_connection p r \<noteq> None \<or> p \<in> set gone"
    and "\<And>p. p \<in> set gone \<Longrightarrow> get_connection p r = None" "distinct gone"
  shows "router_ok r own gone"
  using assms unfolding router_ok_def by blast

lemma router_ok_cong:
  assumes "session_to_connection r' = session_to_connection r"
    and "connection_to_session r' = connection_to_session r"
    and "site_to_sessions r' = site_to_sessions r" and "client_conn r' = client_conn r"
  shows "router_ok r' own gone = router_ok r own gone"
  using assms unfolding router_ok_def get_connection_def
  by (simp only: sites_ok_cong [OF assms(3)] get_entity_cong [OF assms(3)])

lemma router_ok_new: "router_ok (router_new conns sites) (\<lambda>p. None) []"
  by (simp add: router_ok_def router_new_def get_connection_def get_entity_session_def
      entity_sessions_def sites_ok_def)

lemma tables_player:
  "router_ok r own gone \<Longrightarrow> get_connection p r = Some c
    \<Longrightarrow> get_entity_session (conn_entity_id (client_conn r c)) r = Some p"
  by (simp add: router_ok_def)

lemma tables_conn:
  "router_ok r own gone \<Longrightarrow> get_connection p r = Some c \<Longrightarrow> own p = Some (Some c, conn_entity_id (client_conn r c))"
  by (simp add: router_ok_def)

lemma tables_owner:
  "router_ok r own gone \<Longrightarrow> (\<exists>d. map_of (connection_to_session r) c = Some (d, p)) \<longleftrightarrow> (\<exists>i. own p = Some (Some c, i))"
  by (simp add: router_ok_def)

lemma tables_entity_conn:
  "router_ok r own gone \<Longrightarrow> get_entity_session i r = Some p \<Longrightarrow> i \<noteq> default_id
    \<and> (\<exists>c. get_connection p r = Some c \<and> conn_entity_id (client_conn r c) = i)"
  by (simp add: router_ok_def)

lemma tables_entity:
  assumes ok: "router_ok r own gone" and "get_entity_session i r = Some p"
  obtains c d where "i \<noteq> default_id" "get_connection p r = Some c" "conn_entity_id (client_conn r c) = i"
    "map_of (connection_to_session r) c = Some (d, p)" "own p = Some (Some c, i)" "p \<notin> set gone"
proof -
  from assms obtain c where c: "i \<noteq> default_id" "get_connection p r = Some c"
    "conn_entity_id (client_conn r c) = i" unfolding router_ok_def by blast
  with tables_conn [OF ok c(2)] tables_owner [OF ok, of c p] obtain d where
    "map_of (connection_to_session r) c = Some (d, p)" "own p = Some (Some c, i)" by auto
  moreover have "p \<notin> set gone" using ok c(2) by (auto simp: router_ok_def)
  ultimately show ?thesis using c that by blast
qed

lemma tables_live:
  "router_ok r own gone \<Longrightarrow> own p \<noteq> None \<longleftrightarrow> get_connection p r \<noteq> None \<or> p \<in> set gone"
  by (simp add: router_ok_def)

lemma remove_session_tables:
  assumes ok: "router_ok r own gone"
  shows "router_ok (remove_session p r) own
    (if get_connection p r = None then gone else gone @ [p])"
proof (cases "get_connection p r")
  case None
  with ok show ?thesis by (simp add: remove_session_def get_connection_def)
next
  case (Some c)
  define i where "i = conn_entity_id (client_conn r c)"
  define r' where "r' = fst (remove_entity_session i (publish_connection ACTION_DISCONNECTED i c r))"
  define r'' where "r'' = r'\<lparr>pending_deletes := pending_deletes r' @ [p],
    session_to_connection := map_erase p (session_to_connection r')\<rparr>"
  have r'': "remove_session p r = r''"
    using Some by (simp add: remove_session_def get_connection_def Let_def i_def r'_def r''_def)
  have sites: "sites_ok (publish_connection ACTION_DISCONNECTED i c r)"
    using ok by (simp add: router_ok_def publish_connection_def)
  have "sites_ok r'" unfolding r'_def by (rule sites_ok_remove [OF sites])
  moreover have "get_entity_session j r' = (if j = i then None else get_entity_session j r)" for j
    unfolding r'_def get_entity_remove [OF sites] by (simp add: publish_connection_def)
  moreover have "session_to_connection r' = session_to_connection r"
    "connection_to_session r' = connection_to_session r" "client_conn r' = client_conn r"
    by (simp_all add: r'_def publish_connection_def)
  ultimately have new: "sites_ok r''"
    "\<And>j. get_entity_session j r'' = (if j = i then None else get_entity_session j r)"
    "session_to_connection r'' = map_erase p (session_to_connection r)"
    "connection_to_session r'' = connection_to_session r" "client_conn r'' = client_conn r"
    by (simp_all add: r''_def)
  have conn: "get_connection q r'' = (if q = p then None else get_connection q r)" for q
    by (simp add: get_connection_def new map_of_erase)
  have player: "q = p" if "get_connection q r = Some c'" "conn_entity_id (client_conn r c') = i" for q c'
    using tables_player [OF ok that(1)] tables_player [OF ok Some] that(2) by (simp add: i_def)
  have "get_entity_session i r = Some p" "p \<notin> set gone"
    using ok Some by (auto simp: router_ok_def i_def)
  moreover have "j = i" if "get_entity_session j r = Some p" for j
    using ok that by (rule tables_entity) (use Some in \<open>simp add: i_def\<close>)
  ultimately have p: "get_entity_session i r = Some p" "p \<notin> set gone"
    and only: "\<And>j. get_entity_session j r = Some p \<Longrightarrow> j = i" by blast+
  have "router_ok r'' own (gone @ [p])"
  proof (rule router_okI)
    fix q c' assume "get_connection q r'' = Some c'"
    then have q: "q \<noteq> p" "get_connection q r = Some c'" by (simp_all add: conn split: if_splits)
    with player have "conn_entity_id (client_conn r c') \<noteq> i" by blast
    with tables_conn [OF ok q(2)] tables_player [OF ok q(2)]
    show "own q = Some (Some c', conn_entity_id (client_conn r'' c'))
        \<and> get_entity_session (conn_entity_id (client_conn r'' c')) r'' = Some q"
      by (simp add: new)
  next
    fix j q assume "get_entity_session j r'' = Some q"
    then have q: "j \<noteq> i" "get_entity_session j r = Some q" by (simp_all add: new split: if_splits)
    with only have "q \<noteq> p" by blast
    with tables_entity_conn [OF ok q(2)] show "j \<noteq> default_id
        \<and> (\<exists>c. get_connection q r'' = Some c \<and> conn_entity_id (client_conn r'' c) = j)"
      by (simp add: new conn)
  next
    fix c' q
    show "(\<exists>d. map_of (connection_to_session r'') c' = Some (d, q)) \<longleftrightarrow> (\<exists>j. own q = Some (Some c', j))"
      using tables_owner [OF ok, of c' q] by (simp add: new)
  next
    fix q show "own q \<noteq> None \<longleftrightarrow> get_connection q r'' \<noteq> None \<or> q \<in> set (gone @ [p])"
      using tables_live [OF ok, of q] tables_live [OF ok, of p] Some by (auto simp: conn)
  next
    fix q assume "q \<in> set (gone @ [p])"
    with ok show "get_connection q r'' = None" by (auto simp: conn router_ok_def)
  qed (use ok p in \<open>simp_all add: new map_sorted_erase router_ok_def\<close>)
  with Some show ?thesis by (simp add: r'')
qed

lemma release_fields [simp]:
  "session_to_connection (release_connection c r) = session_to_connection r"
  "site_to_sessions (release_connection c r) = site_to_sessions r"
  "client_conn (release_connection c r) = client_conn r"
  "pending_actions (release_connection c r) = pending_actions r"
  "pending_deletes (release_connection c r) = pending_deletes r"
  "map_of (connection_to_session (release_connection c r)) c'
    = (if c' = c then None else map_of (connection_to_session r) c')"
  "sites_ok (release_connection c r) = sites_ok r"
  "get_entity_session i (release_connection c r) = get_entity_session i r"
  "get_connection p (release_connection c r) = get_connection p r"
  by (auto simp: release_connection_def map_of_erase get_connection_def split: option.split)

lemma release_sorted:
  "map_sorted (connection_to_session r) \<Longrightarrow> map_sorted (connection_to_session (release_connection c r))"
  by (auto simp: release_connection_def map_sorted_erase split: option.split)

lemma delete_session_tables:
  assumes ok: "router_ok r own gone" and "p \<in> set gone" and "own p = Some (co, i)"
  shows "router_ok (case co of None \<Rightarrow> r | Some c \<Rightarrow> release_connection c r)
    (own(p := None)) (remove1 p gone)"
proof -
  define r' where "r' = (case co of None \<Rightarrow> r | Some c \<Rightarrow> release_connection c r)"
  have same: "session_to_connection r' = session_to_connection r" "client_conn r' = client_conn r"
    "sites_ok r' = sites_ok r" "get_entity_session j r' = get_entity_session j r"
    "get_connection q r' = get_connection q r" for j q
    by (simp_all add: r'_def split: option.split)
  have sorted: "map_sorted (connection_to_session r')"
    using ok by (simp add: r'_def router_ok_def release_sorted split: option.split)
  have cts: "(\<exists>d. map_of (connection_to_session r') c = Some (d, q))
      \<longleftrightarrow> q \<noteq> p \<and> (\<exists>d. map_of (connection_to_session r) c = Some (d, q))" for c q
  proof -
    have "co = Some c" if "map_of (connection_to_session r) c = Some (d, p)" for d
      using tables_owner [OF ok, of c p] that assms(3) by auto
    moreover have "q = p" if "co = Some c" "map_of (connection_to_session r) c = Some (d, q)" for d
      using tables_owner [OF ok, of c p] that assms(3) by auto
    ultimately show ?thesis by (auto simp: r'_def split: option.split)
  qed
  have "get_connection p r = None" using ok assms(2) by (simp add: router_ok_def)
  note none = this
  show ?thesis unfolding r'_def [symmetric]
  proof (rule router_okI)
    fix q c' assume "get_connection q r' = Some c'"
    then have q: "get_connection q r = Some c'" "q \<noteq> p" using none by (auto simp: same)
    with tables_conn [OF ok q(1)] tables_player [OF ok q(1)]
    show "(own(p := None)) q = Some (Some c', conn_entity_id (client_conn r' c'))
        \<and> get_entity_session (conn_entity_id (client_conn r' c')) r' = Some q"
      by (simp add: same)
  next
    fix j q assume "get_entity_session j r' = Some q"
    then have "get_entity_session j r = Some q" by (simp add: same)
    from tables_entity_conn [OF ok this] show "j \<noteq> default_id
        \<and> (\<exists>c. get_connection q r' = Some c \<and> conn_entity_id (client_conn r' c) = j)"
      by (simp add: same)
  next
    fix c' q
    show "(\<exists>d. map_of (connection_to_session r') c' = Some (d, q))
        \<longleftrightarrow> (\<exists>j. (own(p := None)) q = Some (Some c', j))"
      using tables_owner [OF ok, of c' q] by (simp add: cts)
  next
    fix q show "(own(p := None)) q \<noteq> None \<longleftrightarrow> get_connection q r' \<noteq> None \<or> q \<in> set (remove1 p gone)"
      using tables_live [OF ok, of q] none ok by (auto simp: same router_ok_def set_remove1_eq)
  next
    fix q assume "q \<in> set (remove1 p gone)"
    then have "q \<in> set gone" using set_remove1_subset by fast
    with ok show "get_connection q r' = None" by (simp add: same router_ok_def)
  qed (use ok sorted in \<open>simp_all add: same router_ok_def\<close>)
qed

lemma add_session_new:
  assumes ok: "router_ok r own gone" and "own p = None"
    and "map_of (connection_to_session r) c = None"
    and "i \<noteq> default_id" and "get_entity_session i r = None"
  shows "router_ok (fst (add_session db d (Some c) (Some p) i (client_set_entity_id c i r)))
    (own(p := Some (Some c, i))) gone"
proof -
  have none: "get_connection p r = None" "p \<notin> set gone"
    using tables_live [OF ok, of p] assms(2) by auto
  have unused: "get_connection q r \<noteq> Some c" for q
    using tables_conn [OF ok, of q c] tables_owner [OF ok, of c q] assms(3) by auto
  define r' where "r' = fst (add_session db d (Some c) (Some p) i (client_set_entity_id c i r))"
  have sorted: "map_sorted (session_to_connection r)" "map_sorted (connection_to_session r)" "sites_ok r"
    using ok by (simp_all add: router_ok_def)
  have tables: "session_to_connection r' = map_put p c (session_to_connection r)"
    "connection_to_session r' = map_put c (d, p) (connection_to_session r)"
    "client_conn r' = (client_conn r)(c := (client_conn r c)\<lparr>conn_entity_id := i\<rparr>)"
    using none assms(4) by (auto simp: r'_def add_session_def client_set_entity_id_def
        publish_connection_def get_connection_def Let_def split: option.split)
  have sites: "sites_ok r'"
    "get_entity_session j r' = (if j = i then Some p else get_entity_session j r)" for j
    using none assms(4) sorted by (auto simp: r'_def add_session_def client_set_entity_id_def
        publish_connection_def get_connection_def Let_def sites_ok_add get_entity_add split: option.split)
  have conn: "get_connection q r' = (if q = p then Some c else get_connection q r)" for q
    by (simp add: get_connection_def tables map_of_put sorted)
  have cts: "map_of (connection_to_session r') c' = (if c' = c then Some (d, p) else map_of (connection_to_session r) c')" for c'
    by (simp add: tables map_of_put sorted)
  show ?thesis unfolding r'_def [symmetric]
  proof (rule router_okI)
    fix q c' assume q: "get_connection q r' = Some c'"
    show "(own(p \<mapsto> (Some c, i))) q = Some (Some c', conn_entity_id (client_conn r' c'))
        \<and> get_entity_session (conn_entity_id (client_conn r' c')) r' = Some q"
    proof (cases "q = p")
      case False
      with q conn have old: "get_connection q r = Some c'" by simp
      with unused have "c' \<noteq> c" by blast
      moreover from tables_player [OF ok old] assms(5) have "conn_entity_id (client_conn r c') \<noteq> i" by auto
      ultimately show ?thesis using False tables_conn [OF ok old] tables_player [OF ok old]
        by (simp add: sites tables)
    qed (use q in \<open>simp add: conn sites tables\<close>)
  next
    fix j q assume q: "get_entity_session j r' = Some q"
    show "j \<noteq> default_id \<and> (\<exists>c. get_connection q r' = Some c \<and> conn_entity_id (client_conn r' c) = j)"
    proof (cases "j = i")
      case False
      with q sites(2) have "get_entity_session j r = Some q" by simp
      with ok obtain c' where "j \<noteq> default_id" "get_connection q r = Some c'"
        "conn_entity_id (client_conn r c') = j" by (rule tables_entity)
      with unused [of q] none show ?thesis by (auto simp: conn tables intro!: exI [of _ c'])
    qed (use q assms(4) in \<open>auto simp: conn sites tables\<close>)
  next
    fix c' q
    show "(\<exists>d. map_of (connection_to_session r') c' = Some (d, q))
        \<longleftrightarrow> (\<exists>j. (own(p \<mapsto> (Some c, i))) q = Some (Some c', j))"
      using tables_owner [OF ok, of c' q] tables_owner [OF ok, of c q] assms(2,3) by (auto simp: cts)
  next
    fix q show "(own(p \<mapsto> (Some c, i))) q \<noteq> None \<longleftrightarrow> get_connection q r' \<noteq> None \<or> q \<in> set gone"
      using tables_live [OF ok, of q] by (auto simp: conn)
  next
    fix q assume "q \<in> set gone"
    with none ok show "get_connection q r' = None" by (auto simp: conn router_ok_def)
  qed (use ok in \<open>simp_all add: tables sites map_sorted_put sorted router_ok_def\<close>)
qed

subsection \<open>What a session asks\<close>

lemma pending_action_fields [simp]:
  "session_to_connection (session_has_pending_actions p r) = session_to_connection r"
  "connection_to_session (session_has_pending_actions p r) = connection_to_session r"
  "site_to_sessions (session_has_pending_actions p r) = site_to_sessions r"
  "client_conn (session_has_pending_actions p r) = client_conn r"
  "pending_deletes (session_has_pending_actions p r) = pending_deletes r"
  "get_entity_session i (session_has_pending_actions p r) = get_entity_session i r"
  "get_connection q (session_has_pending_actions p r) = get_connection q r"
  by (simp_all add: session_has_pending_actions_def get_connection_def)

lemma pending_actions_asked:
  "set (pending_actions (session_has_pending_actions p r)) =
     (if p \<in> set (pending_deletes r) then set (pending_actions r) else insert p (set (pending_actions r)))"
  by (auto simp: session_has_pending_actions_def)

lemma router_ok_queues [simp]:
  "router_ok (session_has_pending_actions p r) own gone = router_ok r own gone"
  "router_ok (pending_actions_update f r) own gone = router_ok r own gone"
  "router_ok (pending_deletes_update f r) own gone = router_ok r own gone"
  by (rule router_ok_cong, simp_all)+

lemma relay_asks:
  assumes "keeps_requests s t" and "released t = released s"
  shows "relay p s t r = (if has_requested_service t \<and> \<not> has_requested_service s
    then session_has_pending_actions p r else r)"
proof -
  have "service_requests t - service_requests s =
      (if has_requested_service t \<and> \<not> has_requested_service s then 1 else 0)"
    using assms(1) by (auto simp: keeps_requests_def served_def split: if_splits)
  with assms(2) show ?thesis by (simp add: relay_def)
qed

lemma relay_silent: "service_requests t = service_requests s \<Longrightarrow> released t = released s \<Longrightarrow> relay p s t r = r"
  by (simp add: relay_def)

lemma relay_reconnect:
  assumes "client_ptr s = Some c"
  shows "relay p s (set_client_connection conn s) r =
    (if has_requested_service s then release_connection c r
     else session_has_pending_actions p (release_connection c r))"
proof -
  have "keeps_requests s (set_client_connection conn s)"
    using keeps_requests_do [of "Reconnect conn" "new_world (\<lambda>_. undefined) s"] by (simp add: new_world_def)
  moreover have "has_requested_service (set_client_connection conn s)"
    by (simp add: set_client_connection_def Let_def)
  ultimately have "service_requests (set_client_connection conn s) - service_requests s =
      (if has_requested_service s then 0 else 1)"
    by (auto simp: keeps_requests_def served_def split: if_splits)
  with assms owner_reconnect [of conn s] show ?thesis by (simp add: relay_def owner_def)
qed

lemma add_session_again:
  assumes ok: "router_ok r own gone" and p: "get_entity_session i r = Some p"
    and old: "own p = Some (Some old_c, j)" and free: "map_of (connection_to_session r) c = None"
    and r1: "r1 = release_connection old_c r \<or> r1 = session_has_pending_actions p (release_connection old_c r)"
  shows "router_ok (fst (add_session db d (Some c) (Some p) i r1)) (own(p := Some (Some c, i))) gone"
proof -
  from ok p obtain c0 where player: "i \<noteq> default_id" "get_connection p r = Some old_c"
    "conn_entity_id (client_conn r old_c) = i" "p \<notin> set gone"
    using old by (auto elim!: tables_entity)
  have unused: "get_connection q r \<noteq> Some c" for q
    using tables_conn [OF ok, of q c] tables_owner [OF ok, of c q] free by auto
  have sorted: "map_sorted (session_to_connection r)" "map_sorted (connection_to_session r)" "sites_ok r"
    using ok by (simp_all add: router_ok_def)
  have released: "session_to_connection r1 = session_to_connection r" "client_conn r1 = client_conn r"
    "site_to_sessions r1 = site_to_sessions r" "map_sorted (connection_to_session r1)"
    "map_of (connection_to_session r1) c' = (if c' = old_c then None else map_of (connection_to_session r) c')" for c'
    using r1 by (auto simp: release_sorted sorted)
  define r' where "r' = fst (add_session db d (Some c) (Some p) i r1)"
  have "map_of (session_to_connection r1) p = Some old_c"
    using player by (simp add: released get_connection_def)
  then have tables: "session_to_connection r' = map_put p c (session_to_connection r)"
    "connection_to_session r' = map_put c (d, p) (map_erase old_c (connection_to_session r1))"
    "client_conn r' = (client_conn r)(c := (client_conn r c)\<lparr>conn_entity_id := i\<rparr>)"
    "site_to_sessions r' = site_to_sessions r"
    using player(1) by (auto simp: r'_def add_session_def client_set_entity_id_def released
        Let_def split: option.split)
  note sites = sites_ok_cong [OF tables(4)] get_entity_cong [OF tables(4)]
  have conn: "get_connection q r' = (if q = p then Some c else get_connection q r)" for q
    by (simp add: get_connection_def tables map_of_put sorted)
  have cts: "map_of (connection_to_session r') c' = (if c' = c then Some (d, p)
      else if c' = old_c then None else map_of (connection_to_session r) c')" for c'
    by (simp add: tables map_of_put map_of_erase map_sorted_erase released)
  show ?thesis unfolding r'_def [symmetric]
  proof (rule router_okI)
    fix q c' assume q: "get_connection q r' = Some c'"
    show "(own(p \<mapsto> (Some c, i))) q = Some (Some c', conn_entity_id (client_conn r' c'))
        \<and> get_entity_session (conn_entity_id (client_conn r' c')) r' = Some q"
    proof (cases "q = p")
      case False
      with q conn have now: "get_connection q r = Some c'" by simp
      with unused have "c' \<noteq> c" by blast
      then show ?thesis using False tables_conn [OF ok now] tables_player [OF ok now]
        by (simp add: sites tables)
    qed (use q p in \<open>simp add: conn sites tables\<close>)
  next
    fix j' q assume "get_entity_session j' r' = Some q"
    then have q: "get_entity_session j' r = Some q" by (simp add: sites)
    with ok obtain c' where c': "j' \<noteq> default_id" "get_connection q r = Some c'"
      "conn_entity_id (client_conn r c') = j'" by (rule tables_entity)
    show "j' \<noteq> default_id \<and> (\<exists>c. get_connection q r' = Some c \<and> conn_entity_id (client_conn r' c) = j')"
      using c' unused [of q] player by (cases "q = p") (auto simp: conn tables)
  next
    fix c' q
    have "c' \<noteq> old_c" if "map_of (connection_to_session r) c' = Some (d', q)" "q \<noteq> p" for d'
      using tables_owner [OF ok, of old_c p] old that by auto
    then show "(\<exists>d. map_of (connection_to_session r') c' = Some (d, q))
        \<longleftrightarrow> (\<exists>j. (own(p \<mapsto> (Some c, i))) q = Some (Some c', j))"
      using tables_owner [OF ok, of c' q] tables_owner [OF ok, of c' p] old free by (auto simp: cts)
  next
    fix q show "(own(p \<mapsto> (Some c, i))) q \<noteq> None \<longleftrightarrow> get_connection q r' \<noteq> None \<or> q \<in> set gone"
      using tables_live [OF ok, of q] by (auto simp: conn)
  next
    fix q assume "q \<in> set gone"
    with player ok show "get_connection q r' = None" by (auto simp: conn router_ok_def)
  qed (use ok in \<open>simp_all add: tables sites map_sorted_put map_sorted_erase released sorted
      router_ok_def\<close>)
qed

subsection \<open>The invariant\<close>

definition own :: "('t, 'm) server \<Rightarrow> ptr \<Rightarrow> (ptr option \<times> db_id) option" where
  "own v p = map_option (\<lambda>x. (client_ptr (ses (snd x)), client_entity_id (ses (snd x)))) (views v p)"

fun deleting :: "service_phase \<Rightarrow> ptr list" where
  "deleting (DeletingSessions ps) = ps"
| "deleting _ = []"

definition gone :: "('t, 'm) server \<Rightarrow> ptr list" where
  "gone v = pending_deletes (router v) @ deleting (service v)"

definition view_ok :: "('t, 'm) server \<Rightarrow> ptr \<Rightarrow> bool" where
  "view_ok v p \<longleftrightarrow> (\<forall>ph w. views v p = Some (ph, w) \<longrightarrow> reachable_session (ph, w)
     \<and> this_ptr (ses w) = p \<and> (ph \<noteq> Idle \<longrightarrow> (\<exists>ps nd. service v = Servicing (p # ps) nd)))"

definition server_ok :: "('t, 'm) server \<Rightarrow> bool" where
  "server_ok v \<longleftrightarrow> router_ok (router v) (own v) (gone v) \<and> (\<forall>p. view_ok v p)
     \<and> (deleting (service v) \<noteq> [] \<longrightarrow> pending_deletes (router v) = [])"

text \<open>The sessions whose turn is still to come in the service under way.\<close>

definition waiting :: "('t, 'm) server \<Rightarrow> ptr list" where
  "waiting v = (case service v of
     Servicing (p # ps) _ \<Rightarrow> (case views v p of Some (ph, w) \<Rightarrow> if ph = Idle then p # ps else ps | None \<Rightarrow> p # ps)
   | _ \<Rightarrow> [])"

definition requests_ok :: "('t, 'm) server \<Rightarrow> bool" where
  "requests_ok v \<longleftrightarrow> (\<forall>p ph w. views v p = Some (ph, w) \<longrightarrow> has_requested_service (ses w) \<longrightarrow>
     p \<in> set (pending_actions (router v)) \<union> set (waiting v) \<union> set (gone v))"

definition server_inv :: "('t, 'm) server \<Rightarrow> bool" where
  "server_inv v \<longleftrightarrow> server_ok v \<and> requests_ok v"

lemma server_start_inv: "server_start v \<Longrightarrow> server_inv v"
proof -
  assume v: "server_start v"
  then have "own v = (\<lambda>p. None)" by (auto simp: server_start_def own_def fun_eq_iff)
  with v show ?thesis
    by (auto simp: server_start_def server_inv_def server_ok_def requests_ok_def view_ok_def gone_def
        router_new_def router_ok_new [unfolded router_new_def])
qed

text \<open>A session goes on, with the same connection.\<close>

lemma set_view_own:
  assumes "views v p = Some (ph, w)" and "owner (ses w') = owner (ses w)"
  shows "own (set_view p ph' w' v) = own v"
  using assms by (auto simp: own_def set_view_def owner_def fun_eq_iff)

lemma set_view_simps:
  assumes "views v p = Some (ph, w)"
  shows "views (set_view p ph' w' v) = (views v)(p \<mapsto> (ph', w'))"
    "router (set_view p ph' w' v) = relay p (ses w) (ses w') (router v)"
    "service (set_view p ph' w' v) = service v"
  using assms by (simp_all add: set_view_def)

lemma set_view_router:
  fixes ph' :: phase and w' :: "('t, 'm) world"
  assumes v: "views v p = Some (ph, w)" and "owner (ses w') = owner (ses w)"
    and "keeps_requests (ses w) (ses w')
      \<or> service_requests (ses w') = service_requests (ses w) \<and> \<not> has_requested_service (ses w')"
  defines "r' \<equiv> router (set_view p ph' w' v)"
  shows "router_ok r' o' g = router_ok (router v) o' g" "pending_deletes r' = pending_deletes (router v)"
    "set (pending_actions (router v)) \<subseteq> set (pending_actions r')"
    "has_requested_service (ses w') \<Longrightarrow> \<not> has_requested_service (ses w)
      \<Longrightarrow> p \<in> set (pending_actions r') \<union> set (pending_deletes (router v))"
proof -
  have "r' = (if keeps_requests (ses w) (ses w') \<and> has_requested_service (ses w') \<and> \<not> has_requested_service (ses w)
      then session_has_pending_actions p (router v) else router v)"
    using assms relay_asks [of "ses w" "ses w'" p "router v"] relay_silent [of "ses w'" "ses w" p "router v"]
    by (auto simp: r'_def set_view_simps owner_def)
  moreover have "keeps_requests (ses w) (ses w')" if "has_requested_service (ses w')" using assms(3) that by blast
  ultimately show "router_ok r' o' g = router_ok (router v) o' g" "pending_deletes r' = pending_deletes (router v)"
    "set (pending_actions (router v)) \<subseteq> set (pending_actions r')"
    "has_requested_service (ses w') \<Longrightarrow> \<not> has_requested_service (ses w)
      \<Longrightarrow> p \<in> set (pending_actions r') \<union> set (pending_deletes (router v))"
    by (auto simp: pending_actions_asked)
qed

lemma set_view_ok:
  assumes ok: "server_ok v" and v: "views v p = Some (ph, w)" and "reachable_session (ph', w')"
    and owner: "owner (ses w') = owner (ses w)"
    and asks: "keeps_requests (ses w) (ses w')
      \<or> service_requests (ses w') = service_requests (ses w) \<and> \<not> has_requested_service (ses w')"
    and turn: "sv = service v \<or> (\<exists>ps nd. service v = Servicing (p # ps) nd)" "deleting sv = deleting (service v)"
    and "ph' \<noteq> Idle \<Longrightarrow> \<exists>ps nd. sv = Servicing (p # ps) nd"
  shows "server_ok ((set_view p ph' w' v)\<lparr>service := sv\<rparr>)"
proof -
  let ?v = "(set_view p ph' w' v)\<lparr>service := sv\<rparr>"
  note sim = set_view_simps [OF v, of ph' w'] and router = set_view_router [OF v owner asks, of ph']
  have "own ?v = own v" using set_view_own [OF v owner] by (simp add: own_def fun_eq_iff)
  moreover have "gone ?v = gone v" using router(2) turn(2) by (simp add: gone_def)
  ultimately have "router_ok (router ?v) (own ?v) (gone ?v)"
    using ok router(1) by (simp add: server_ok_def)
  moreover have "view_ok ?v q" for q
  proof (cases "q = p")
    case True
    with assms(3,8) ok v owner show ?thesis by (auto simp: view_ok_def sim server_ok_def owner_def)
  next
    case False
    with ok turn(1) show ?thesis by (auto simp: view_ok_def sim server_ok_def)
  qed
  ultimately show ?thesis using ok router(2) turn(2) by (simp add: server_ok_def)
qed

lemma set_view_requests:
  assumes reqs: "requests_ok v" and v: "views v p = Some (ph, w)"
    and owner: "owner (ses w') = owner (ses w)"
    and asks: "keeps_requests (ses w) (ses w')
      \<or> service_requests (ses w') = service_requests (ses w) \<and> \<not> has_requested_service (ses w')"
    and turn: "deleting sv = deleting (service v)"
    and others: "\<And>q. q \<noteq> p \<Longrightarrow> q \<in> set (waiting v) \<Longrightarrow> q \<in> set (waiting ((set_view p ph' w' v)\<lparr>service := sv\<rparr>))"
    and self: "has_requested_service (ses w') \<Longrightarrow> p \<in> set (waiting v)
      \<Longrightarrow> p \<in> set (waiting ((set_view p ph' w' v)\<lparr>service := sv\<rparr>))"
  shows "requests_ok ((set_view p ph' w' v)\<lparr>service := sv\<rparr>)"
proof -
  let ?v = "(set_view p ph' w' v)\<lparr>service := sv\<rparr>"
  note sim = set_view_simps [OF v, of ph' w'] and router = set_view_router [OF v owner asks, of ph']
  have gone: "gone ?v = gone v" using router(2) turn by (simp add: gone_def)
  have "q \<in> set (pending_actions (router ?v)) \<union> set (waiting ?v) \<union> set (gone ?v)"
    if q: "views ?v q = Some (ph1, w1)" "has_requested_service (ses w1)" for q ph1 w1
  proof (cases "q = p")
    case True
    with q sim have w1: "w1 = w'" by simp
    show ?thesis
    proof (cases "has_requested_service (ses w)")
      case True
      with reqs v have "p \<in> set (pending_actions (router v)) \<union> set (waiting v) \<union> set (gone v)"
        by (simp add: requests_ok_def)
      with \<open>q = p\<close> self q(2) w1 router(3) gone show ?thesis by auto
    next
      case False
      with router(4) q(2) w1 \<open>q = p\<close> gone show ?thesis by (auto simp: gone_def)
    qed
  next
    case False
    with q sim have "views v q = Some (ph1, w1)" by simp
    with q(2) reqs have "q \<in> set (pending_actions (router v)) \<union> set (waiting v) \<union> set (gone v)"
      by (simp add: requests_ok_def)
    with False others [of q] router(3) gone show ?thesis by auto
  qed
  then show ?thesis by (simp add: requests_ok_def)
qed

lemma waiting_same:
  assumes "views v p = Some (ph, w)"
  shows "waiting ((set_view p ph w' v)\<lparr>service := service v\<rparr>) = waiting v"
  using set_view_simps [OF assms, of ph w'] assms
  by (auto simp: waiting_def split: service_phase.split list.split option.split)

lemma call_inv:
  assumes inv: "server_inv v" and v: "views v p = Some (ph, w)" and "op_allowed ph x w"
    and x: "\<And>c. x \<noteq> Reconnect c" and w': "session_do x w = Some w'"
  shows "server_inv (set_view p ph w' v)"
proof -
  have same: "set_view p ph w' v = (set_view p ph w' v)\<lparr>service := service v\<rparr>"
    using set_view_simps(3) [OF v, of ph w'] by simp
  have ok: "server_ok v" "requests_ok v" using inv by (simp_all add: server_inv_def)
  have reach: "reachable_session (ph, w)" "ph \<noteq> Idle \<Longrightarrow> \<exists>ps nd. service v = Servicing (p # ps) nd"
    using ok(1) v by (auto simp: server_ok_def view_ok_def)
  have "reachable_session (ph, w')"
    using reach(1) session_step.others [OF assms(3) w'] by (rule reachable_session.step)
  note ses = this owner_do [OF w' x] disjI1 [OF keeps_requests_do [OF w']]
  have "server_ok (set_view p ph w' v)"
    by (subst same) (rule set_view_ok [OF ok(1) v ses], use reach(2) in auto)
  moreover have "requests_ok (set_view p ph w' v)"
    by (subst same, rule set_view_requests [OF ok(2) v ses(2,3)]) (simp_all add: waiting_same [OF v])
  ultimately show ?thesis by (simp add: server_inv_def)
qed

text \<open>A phase of the session whose turn it is.\<close>

lemma view_phase:
  assumes "server_ok v" and "views v p = Some (ph, w)"
  shows "reachable_session (ph, w)" "this_ptr (ses w) = p"
    "ph \<noteq> Idle \<Longrightarrow> \<exists>ps nd. service v = Servicing (p # ps) nd"
  using assms by (auto simp: server_ok_def view_ok_def)

lemma router_asks:
  assumes "reachable_session (ph, w)" and "router_step reply (ph, w) = Some (ph', w')"
  shows "keeps_requests (ses w) (ses w')
      \<or> service_requests (ses w') = service_requests (ses w) \<and> \<not> has_requested_service (ses w')"
proof (cases "ph = Idle")
  case True
  with router_starts [of reply w ph' w'] assms(2) show ?thesis by simp
next
  case False
  with keeps_requests_router [OF output_inv_reachable [OF assms(1)] assms(2)] show ?thesis by simp
qed

lemma service_turn_inv:
  assumes inv: "server_inv v" and turn: "service v = Servicing (p # ps) nd"
    and v: "views v p = Some (ph, w)" and r: "router_step reply (ph, w) = Some (ph', w')"
  shows "server_inv ((set_view p ph' w' v)\<lparr>service := Servicing (if ph' = Idle then ps else p # ps) nd\<rparr>)"
proof -
  have ok: "server_ok v" "requests_ok v" using inv by (simp_all add: server_inv_def)
  note reach = view_phase(1) [OF ok(1) v]
  have "reachable_session (ph', w')"
    using reach session_step.router [OF r] by (rule reachable_session.step)
  note ses = this owner_router [OF output_inv_reachable [OF reach] r] router_asks [OF reach r]
  define sv where "sv = Servicing (if ph' = Idle then ps else p # ps) nd"
  have "server_ok ((set_view p ph' w' v)\<lparr>service := sv\<rparr>)"
    by (rule set_view_ok [OF ok(1) v ses]) (auto simp: sv_def turn)
  moreover have "requests_ok ((set_view p ph' w' v)\<lparr>service := sv\<rparr>)"
  proof (rule set_view_requests [OF ok(2) v ses(2,3)])
    note sim = set_view_simps [OF v, of ph' w']
    have idle: "\<exists>w1. views v q = Some (Idle, w1)" if "views v q = Some (ph1, w1)" "q \<noteq> p" for q ph1 w1
      using view_phase(3) [OF ok(1) that(1)] that turn by (cases "ph1 = Idle") auto
    show "q \<in> set (waiting ((set_view p ph' w' v)\<lparr>service := sv\<rparr>))" if "q \<noteq> p" "q \<in> set (waiting v)" for q
    proof -
      have "q \<in> set ps" using that turn v by (auto simp: waiting_def split: if_splits)
      then show ?thesis using idle
        by (cases ps) (auto simp: waiting_def sv_def sim split: option.split)
    qed
    show "p \<in> set (waiting ((set_view p ph' w' v)\<lparr>service := sv\<rparr>))"
      if "has_requested_service (ses w')" "p \<in> set (waiting v)"
    proof -
      have "ph \<noteq> Idle" using router_starts(1) r that(1) by blast
      with that(2) have "p \<in> set ps" using turn v by (auto simp: waiting_def split: if_splits)
      then show ?thesis using idle
        by (cases ps) (auto simp: waiting_def sv_def sim split: option.split)
    qed
  qed (simp add: sv_def turn)
  ultimately show ?thesis by (simp add: server_inv_def sv_def)
qed

text \<open>Players leave.\<close>

lemma remove_session_player:
  assumes ok: "router_ok r owns left" and "get_entity_session i r = Some p"
  shows "get_entity_session i (remove_session p r) = None"
    "pending_deletes (remove_session p r) = pending_deletes r @ [p]"
    "pending_actions (remove_session p r) = pending_actions r"
    "client_conn (remove_session p r) = client_conn r"
    "connection_to_session (remove_session p r) = connection_to_session r"
proof -
  from ok assms(2) obtain c where c: "get_connection p r = Some c" "conn_entity_id (client_conn r c) = i"
    by (rule tables_entity)
  have "sites_ok (publish_connection ACTION_DISCONNECTED i c r)"
    using ok by (simp add: router_ok_def publish_connection_def)
  then have "get_entity_session i (fst (remove_entity_session i
      (publish_connection ACTION_DISCONNECTED i c r))) = None"
    by (simp add: get_entity_remove)
  with c show "get_entity_session i (remove_session p r) = None"
    by (simp add: remove_session_def get_connection_def Let_def)
  show "pending_deletes (remove_session p r) = pending_deletes r @ [p]"
    "pending_actions (remove_session p r) = pending_actions r"
    "client_conn (remove_session p r) = client_conn r"
    "connection_to_session (remove_session p r) = connection_to_session r"
    using c by (simp_all add: remove_session_def get_connection_def Let_def publish_connection_def)
qed

definition leaving :: "db_id \<Rightarrow> router \<Rightarrow> ptr list" where
  "leaving i r = (case get_entity_session i r of None \<Rightarrow> [] | Some p \<Rightarrow> [p])"

lemma disconnect_effect:
  assumes ok: "router_ok r owns left"
  shows "router_ok (fst (disconnect_session i r)) owns (left @ leaving i r)"
    "get_entity_session i (fst (disconnect_session i r)) = None"
    "pending_deletes (fst (disconnect_session i r)) = pending_deletes r @ leaving i r"
    "pending_actions (fst (disconnect_session i r)) = pending_actions r"
    "client_conn (fst (disconnect_session i r)) = client_conn r"
    "connection_to_session (fst (disconnect_session i r)) = connection_to_session r"
proof -
  have "router_ok (fst (disconnect_session i r)) owns (left @ leaving i r) \<and>
    get_entity_session i (fst (disconnect_session i r)) = None \<and>
    pending_deletes (fst (disconnect_session i r)) = pending_deletes r @ leaving i r \<and>
    pending_actions (fst (disconnect_session i r)) = pending_actions r \<and>
    client_conn (fst (disconnect_session i r)) = client_conn r \<and>
    connection_to_session (fst (disconnect_session i r)) = connection_to_session r"
  proof (cases "get_entity_session i r")
    case (Some p)
    from tables_entity_conn [OF ok Some] have "get_connection p r \<noteq> None" by auto
    with Some remove_session_tables [OF ok, of p] remove_session_player [OF ok Some] show ?thesis
      by (simp add: disconnect_session_def leaving_def)
  qed (use ok in \<open>simp add: disconnect_session_def leaving_def\<close>)
  then show "router_ok (fst (disconnect_session i r)) owns (left @ leaving i r)"
    "get_entity_session i (fst (disconnect_session i r)) = None"
    "pending_deletes (fst (disconnect_session i r)) = pending_deletes r @ leaving i r"
    "pending_actions (fst (disconnect_session i r)) = pending_actions r"
    "client_conn (fst (disconnect_session i r)) = client_conn r"
    "connection_to_session (fst (disconnect_session i r)) = connection_to_session r" by blast+
qed

text \<open>The router's tables change while no service is under way.\<close>

lemma waiting_idle: "service v = ServiceIdle \<Longrightarrow> waiting v = []"
  by (simp add: waiting_def)

lemma gone_idle: "service v = ServiceIdle \<Longrightarrow> gone v = pending_deletes (router v)"
  by (simp add: gone_def)

lemma router_change_inv:
  assumes inv: "server_inv v" and idle: "service v = ServiceIdle"
    and "router_ok r (own v) (gone v @ others)" and "pending_deletes r = pending_deletes (router v) @ others"
    and "pending_actions r = pending_actions (router v)"
  shows "server_inv (v\<lparr>router := r\<rparr>)"
proof -
  have "own (v\<lparr>router := r\<rparr>) = own v" by (simp add: own_def fun_eq_iff)
  moreover have "gone (v\<lparr>router := r\<rparr>) = gone v @ others"
    using idle assms(4) by (simp add: gone_idle)
  moreover have "waiting (v\<lparr>router := r\<rparr>) = waiting v" using idle by (simp add: waiting_idle)
  ultimately have "server_ok (v\<lparr>router := r\<rparr>)" "requests_ok (v\<lparr>router := r\<rparr>)"
    using inv idle assms unfolding server_inv_def server_ok_def view_ok_def requests_ok_def
    by (simp, fastforce)
  then show ?thesis by (simp add: server_inv_def)
qed

lemma disconnect_inv:
  assumes "server_inv v" and "service v = ServiceIdle"
  shows "server_inv (v\<lparr>router := fst (disconnect_session i (router v))\<rparr>)"
proof -
  have "router_ok (router v) (own v) (gone v)" using assms(1) by (simp add: server_inv_def server_ok_def)
  from disconnect_effect [OF this, of i] show ?thesis by (intro router_change_inv [OF assms])
qed

lemma disconnect_all_inv:
  assumes "server_inv v" and "service v = ServiceIdle"
  shows "server_inv (v\<lparr>router := fold (\<lambda>i r. fst (disconnect_session i r)) ids (router v)\<rparr>)"
  using assms
proof (induction ids arbitrary: v)
  case (Cons i ids)
  from Cons.IH [OF disconnect_inv [OF Cons.prems, of i]] Cons.prems(2) show ?case by simp
qed simp

text \<open>Players log in.\<close>

lemma add_session_queues [simp]:
  "pending_actions (fst (add_session db d c p i r)) = pending_actions r"
  "pending_deletes (fst (add_session db d c p i r)) = pending_deletes r"
  by (simp_all add: add_session_def Let_def client_set_entity_id_def publish_connection_def
      split: option.split)

lemma set_entity_queues [simp]:
  "pending_actions (client_set_entity_id c i r) = pending_actions r"
  "pending_deletes (client_set_entity_id c i r) = pending_deletes r"
  "client_conn (client_set_entity_id c i r) c = (client_conn r c)\<lparr>conn_entity_id := i\<rparr>"
  by (simp_all add: client_set_entity_id_def)

lemma new_world_start:
  assumes "fresh_session this chs v"
  shows "session_start (new_world chs (session_new sid this c now))"
proof -
  have "\<exists>a b e n. session_new sid this c now = session_new a b e n" by blast
  with assms show ?thesis
    by (simp add: session_start_def new_world_def fresh_session_def) (simp add: session_new_def)
qed

lemma new_session_inv:
  assumes inv: "server_inv v" and idle: "service v = ServiceIdle"
    and fresh: "fresh_session this chs v" "map_of (connection_to_session (router v)) c = None"
    and "conn_ptr (client_conn (router v) c) = c" "i \<noteq> default_id"
    and none: "get_entity_session i (router v) = None"
  defines "r \<equiv> client_set_entity_id c i (router v)"
  shows "server_inv (v\<lparr>router := fst (add_session db d (Some c) (Some this) i r),
    views := (views v)(this \<mapsto> (Idle, new_world chs (session_new 0 this (client_conn r c) now)))\<rparr>)"
proof -
  define w :: "('a, 'b) world" where "w = new_world chs (session_new 0 this (client_conn r c) now)"
  define r' where "r' = fst (add_session db d (Some c) (Some this) i r)"
  define v' where "v' = v\<lparr>router := r', views := (views v)(this \<mapsto> (Idle, w))\<rparr>"
  have w: "client_ptr (ses w) = Some c" "client_entity_id (ses w) = i" "this_ptr (ses w) = this"
    "\<not> has_requested_service (ses w)"
    using assms(5) by (simp_all add: w_def new_world_def session_new_def r_def)
  have "reachable_session (Idle, w)"
    unfolding w_def by (rule reachable_session.start [OF new_world_start [OF fresh(1)]])
  with inv idle w(3) have views: "view_ok v' p" for p
    by (auto simp: server_inv_def server_ok_def view_ok_def v'_def)
  have "own v this = None" using fresh(1) by (simp add: own_def fresh_session_def)
  moreover have "router_ok (router v) (own v) (gone v)"
    using inv by (simp add: server_inv_def server_ok_def)
  ultimately have "router_ok r' ((own v)(this \<mapsto> (Some c, i))) (gone v)"
    unfolding r'_def r_def by (intro add_session_new) (use assms in simp_all)
  moreover have "own v' = (own v)(this \<mapsto> (Some c, i))" by (simp add: own_def v'_def w fun_eq_iff)
  moreover have "gone v' = gone v" by (simp add: gone_def v'_def r'_def r_def)
  moreover have "waiting v' = waiting v" using idle by (simp add: waiting_idle v'_def)
  moreover have "router v' = r'" "pending_actions r' = pending_actions (router v)"
    "pending_deletes r' = pending_deletes (router v)" "service v' = service v"
    by (simp_all add: v'_def r'_def r_def)
  moreover have "views v' = (views v)(this \<mapsto> (Idle, w))" by (simp add: v'_def)
  moreover have "server_ok v" "requests_ok v" using inv by (simp_all add: server_inv_def)
  ultimately have "server_ok v'" "requests_ok v'"
    using views w(4) by (auto simp: server_ok_def requests_ok_def)
  then show ?thesis by (simp add: server_inv_def v'_def w_def r'_def)
qed

lemma authorize_inv:
  assumes inv: "server_inv v" and idle: "service v = ServiceIdle"
    and "fresh_connection c (router v)" "fresh_session this chs v"
    and "authorize_client db this chs now name password (Some d) (Some c) v = (v', p)"
  shows "server_inv v'"
proof -
  define i where "i = check_password db (client_site (router v) c) name password"
  define r where "r = fst (disconnect_session i (router v))"
  have ok: "router_ok (router v) (own v) (gone v)" using inv by (simp add: server_inv_def server_ok_def)
  note r = disconnect_effect [OF ok, of i, folded r_def]
  have "server_inv (v\<lparr>router := r\<rparr>)" unfolding r_def by (rule disconnect_inv [OF inv idle])
  from new_session_inv [OF this, where this = this and chs = chs and c = c and i = i
      and db = db and d = d and now = now] idle assms(3,4) r
  have "i \<noteq> default_id \<Longrightarrow> server_inv (v\<lparr>router := fst (add_session db d (Some c) (Some this) i (client_set_entity_id c i r)),
      views := (views v)(this \<mapsto> (Idle, new_world chs (session_new 0 this
        (client_conn (client_set_entity_id c i r) c) now)))\<rparr>)"
    by (simp add: fresh_connection_def fresh_session_def)
  moreover have "(case get_entity_session i (router v) of None \<Rightarrow> router v
      | Some _ \<Rightarrow> fst (disconnect_session i (router v))) = r"
    by (simp add: r_def disconnect_session_def split: option.split)
  ultimately show ?thesis using inv assms(5)
    by (auto simp: authorize_client_def Let_def i_def [symmetric] split: if_splits)
qed

lemma reconnect_inv:
  assumes inv: "server_inv v" and idle: "service v = ServiceIdle"
    and c: "fresh_connection c (router v)" and p: "get_entity_session i (router v) = Some p"
    and call: "session_call p (Reconnect (Some (client_conn (router v) c))) v = Some v1"
  shows "server_inv (v1\<lparr>router := fst (add_session db d (Some c) (Some p) i (router v1))\<rparr>)"
proof -
  have ok: "server_ok v" "requests_ok v" "router_ok (router v) (own v) (gone v)"
    using inv by (simp_all add: server_inv_def server_ok_def)
  obtain old_c where old: "own v p = Some (Some old_c, i)" using ok(3) p by (rule tables_entity)
  then obtain ph w where v: "views v p = Some (ph, w)" and s: "client_ptr (ses w) = Some old_c"
    "client_entity_id (ses w) = i" by (auto simp: own_def)
  define conn where "conn = Some (client_conn (router v) c)"
  define w' where "w' = on_session (set_client_connection conn) w"
  define r1 where "r1 = relay p (ses w) (ses w') (router v)"
  define r' where "r' = fst (add_session db d (Some c) (Some p) i r1)"
  have do: "session_do (Reconnect conn) w = Some w'" by (simp add: w'_def)
  have r1: "r1 = release_connection old_c (router v)
      \<or> r1 = session_has_pending_actions p (release_connection old_c (router v))"
    "\<not> has_requested_service (ses w) \<Longrightarrow> r1 = session_has_pending_actions p (release_connection old_c (router v))"
    using relay_reconnect [OF s(1), of p conn "router v"] by (simp_all add: r1_def w'_def)
  have queues: "pending_deletes r1 = pending_deletes (router v)"
    "set (pending_actions (router v)) \<subseteq> set (pending_actions r1)"
    "\<not> has_requested_service (ses w) \<Longrightarrow> p \<in> set (pending_actions r1) \<union> set (pending_deletes (router v))"
    using r1 by (auto simp: pending_actions_asked)
  have owner: "client_ptr (ses w') = Some c" "client_entity_id (ses w') = i" "this_ptr (ses w') = this_ptr (ses w)"
    using owner_reconnect [of conn "ses w"] s c by (simp_all add: w'_def owner_def conn_def fresh_connection_def)
  define v' where "v' = v\<lparr>views := (views v)(p \<mapsto> (ph, w')), router := r'\<rparr>"
  have v1: "v1\<lparr>router := fst (add_session db d (Some c) (Some p) i (router v1))\<rparr> = v'"
    using call v by (auto simp: session_call_def set_view_def v'_def r'_def r1_def w'_def conn_def)
  have "own v' = (own v)(p \<mapsto> (Some c, i))" by (simp add: own_def v'_def owner fun_eq_iff)
  moreover have "router_ok r' ((own v)(p \<mapsto> (Some c, i))) (gone v)"
    unfolding r'_def using c by (intro add_session_again [OF ok(3) p old _ r1(1)]) (simp add: fresh_connection_def)
  moreover have "gone v' = gone v" "waiting v' = waiting v"
    using idle queues by (simp_all add: v'_def gone_def r'_def waiting_idle)
  moreover have "reachable_session (ph, w')"
    using view_phase(1) [OF ok(1) v] session_step.others [OF _ do]
    by (rule reachable_session.step) (simp add: op_allowed_def)
  moreover have "ph = Idle" using view_phase(3) [OF ok(1) v] idle by auto
  ultimately have "server_ok v'"
    using ok(1) idle owner(3) view_phase(2) [OF ok(1) v] by (auto simp: server_ok_def view_ok_def v'_def)
  moreover have "requests_ok v'"
    using ok(2) queues \<open>gone v' = gone v\<close> \<open>waiting v' = waiting v\<close> v idle
    by (auto simp: requests_ok_def v'_def r'_def gone_idle waiting_idle)
  ultimately show ?thesis by (simp add: server_inv_def v1)
qed

lemma reauthorize_inv:
  assumes inv: "server_inv v" and idle: "service v = ServiceIdle"
    and c: "fresh_connection c (router v)" "fresh_session this chs v"
    and re: "reauthorize_client db this chs now name password (Some d) (Some c) make_new v = Some (v', p)"
  shows "server_inv v'"
proof -
  have new: "server_inv v'" if "(if make_new then authorize_client db this chs now name password (Some d) (Some c) v
      else (v, None)) = (v', p)"
    using that inv authorize_inv [OF inv idle c] by (auto split: if_splits)
  with re inv idle c show ?thesis
    by (auto simp: reauthorize_client_def Let_def split: if_splits option.splits intro: reconnect_inv)
qed

lemma add_channel_inv:
  assumes inv: "server_inv v"
    and allowed: "\<And>p ph w. get_entity_session i (router v) = Some p \<Longrightarrow> views v p = Some (ph, w)
      \<Longrightarrow> op_allowed ph (ChannelAdded ch to_client) w"
    and add: "add_channel i ch to_client v = Some (v', b)"
  shows "server_inv v'"
proof (cases "\<exists>ch' p. ch = Some ch' \<and> get_entity_session i (router v) = Some p")
  case True
  then obtain ch' p where p: "ch = Some ch'" "get_entity_session i (router v) = Some p" by blast
  with add obtain ph w where v: "views v p = Some (ph, w)"
    by (auto simp: add_channel_def split: option.splits)
  with add p obtain w' where w': "session_do (ChannelAdded ch to_client) w = Some w'" "v' = set_view p ph w' v"
    by (auto simp: add_channel_def)
  show ?thesis unfolding w'(2) by (rule call_inv [OF inv v allowed [OF p(2) v] _ w'(1)]) simp
qed (use inv add in \<open>auto simp: add_channel_def split: option.splits\<close>)

text \<open>Sessions are serviced and deleted. Without channels a session hears nothing of them.\<close>

lemma callbacks_deaf:
  assumes "active_channels s = []"
  shows "callbacks c c' p s = s"
proof -
  have deaf: "get_channel_info_ptr q s = invalid_channel_info" for q
    using assms by (simp add: get_channel_info_ptr_def channel_info_where_def)
  have "session_notice c p st s = s" for c st
    by (cases st) (simp_all add: channel_flow_open_def channel_flow_blocked_def channel_flow_closed_def
        channel_destructed_def deaf Let_def ci_valid_def invalid_channel_info_def)
  then have "fold (session_notice c p) sts s = s" for c sts by (induction sts) simp_all
  moreover have "session_given p x s = s" for x
    by (cases x) (simp_all add: text_channel_data_def client_channel_data_def
        deaf Let_def ci_valid_def invalid_channel_info_def)
  then have "fold (session_given p) xs s = s" for xs by (induction xs) simp_all
  ultimately show ?thesis by (simp add: callbacks_def)
qed

lemma use_chan_deaf: "active_channels (ses w) = [] \<Longrightarrow> ses (use_chan x p w) = ses w"
  by (simp add: use_chan_def chan_change_def callbacks_deaf Let_def)

lemma unregister_deaf: "active_channels (ses w) = [] \<Longrightarrow> ses (fold unregister_channel cis w) = ses w"
proof (induction cis arbitrary: w)
  case (Cons ci cis)
  have "ses (unregister_channel ci w) = ses w"
    using Cons.prems by (simp add: unregister_channel_def use_chan_deaf Let_def split: option.split)
  with Cons show ?case by simp
qed simp

lemma relay_delete:
  "relay p (ses w) (ses (session_delete w)) r =
     (case client_ptr (ses w) of None \<Rightarrow> r | Some c \<Rightarrow> release_connection c r)"
  by (simp add: relay_def session_delete_def Let_def unregister_deaf drop_connection_def split: option.split)

lemma delete_inv:
  assumes inv: "server_inv v" and turn: "service v = DeletingSessions (p # ps)"
    and del: "delete_session p v = Some v1"
  shows "server_inv (v1\<lparr>service := DeletingSessions ps\<rparr>)"
proof -
  have ok: "server_ok v" "requests_ok v" "router_ok (router v) (own v) (gone v)"
    and gone: "gone v = p # ps" "pending_deletes (router v) = []"
    using inv turn by (auto simp: server_inv_def server_ok_def gone_def)
  obtain ph w where v: "views v p = Some (ph, w)" and v1: "v1 = v\<lparr>views := (views v)(p := None),
      router := (case client_ptr (ses w) of None \<Rightarrow> router v | Some c \<Rightarrow> release_connection c (router v))\<rparr>"
    using del by (auto simp: delete_session_def relay_delete split: option.splits)
  have "own v p = Some (client_ptr (ses w), client_entity_id (ses w))" using v by (simp add: own_def)
  from delete_session_tables [OF ok(3) _ this] gone
  have "router_ok (router v1) ((own v)(p := None)) ps" by (simp add: v1)
  moreover have "own (v1\<lparr>service := DeletingSessions ps\<rparr>) = (own v)(p := None)"
    by (simp add: own_def v1 fun_eq_iff)
  moreover have "pending_deletes (router v1) = []" "pending_actions (router v1) = pending_actions (router v)"
    using gone by (simp_all add: v1 split: option.split)
  ultimately have "server_ok (v1\<lparr>service := DeletingSessions ps\<rparr>)"
    using ok(1) turn by (auto simp: server_ok_def view_ok_def gone_def v1)
  moreover have "requests_ok (v1\<lparr>service := DeletingSessions ps\<rparr>)"
    using ok(2) gone turn \<open>pending_actions (router v1) = _\<close> \<open>pending_deletes (router v1) = []\<close>
    by (auto simp: requests_ok_def waiting_def gone_def v1)
  ultimately show ?thesis by (simp add: server_inv_def)
qed

lemma service_inv:
  assumes inv: "server_inv v" and step: "service_step reply (service v) v = Some v'"
  shows "server_inv v'"
proof -
  have ok: "server_ok v" "requests_ok v" using inv by (simp_all add: server_inv_def)
  have own: "own (v\<lparr>service := sv, router := r\<rparr>) = own v" for sv r by (simp add: own_def fun_eq_iff)
  have own': "own (v\<lparr>service := sv\<rparr>) = own v" for sv by (simp add: own_def fun_eq_iff)
  show ?thesis
  proof (cases "service v")
    case (DeletingSessions qs)
    show ?thesis
    proof (cases qs)
      case Nil
      with DeletingSessions ok step show ?thesis
        by (auto simp: server_inv_def server_ok_def view_ok_def requests_ok_def own' gone_def waiting_def)
          blast
    next
      case (Cons p ps)
      with step DeletingSessions obtain v1 where "delete_session p v = Some v1" "v' = v1\<lparr>service := DeletingSessions ps\<rparr>" by auto
      with delete_inv [OF inv] DeletingSessions Cons show ?thesis by simp
    qed
  next
    case ServiceIdle
    then have "waiting v' = pending_actions (router v)" using ok(1) step
      by (auto simp: waiting_def server_ok_def view_ok_def split: list.split option.split)
    with ServiceIdle ok step show ?thesis
      by (auto simp: server_inv_def server_ok_def view_ok_def requests_ok_def own gone_def
          waiting_idle) blast
  next
    case (Servicing sessions nd)
    show ?thesis
    proof (cases sessions)
      case Nil
      with Servicing ok step show ?thesis
        by (cases nd) (auto simp: server_inv_def server_ok_def view_ok_def requests_ok_def own own'
            gone_def waiting_def, blast+)
    next
      case (Cons p ps)
      with step Servicing obtain ph w ph' w' where v: "views v p = Some (ph, w)"
        "router_step reply (ph, w) = Some (ph', w')"
        and v': "v' = (set_view p ph' w' v)\<lparr>service := Servicing (if ph' = Idle then ps else p # ps) nd\<rparr>"
        by (auto split: option.splits)
      show ?thesis unfolding v' by (rule service_turn_inv [OF inv _ v]) (simp add: Servicing Cons)
    qed
  qed
qed

lemma server_step_inv: "server_step v v' \<Longrightarrow> server_inv v \<Longrightarrow> server_inv v'"
proof (induction rule: server_step.induct)
  case (call v p ph w x v')
  then obtain w' where w': "session_do x w = Some w'" "v' = set_view p ph w' v"
    by (auto simp: session_call_def)
  moreover have "x \<noteq> Reconnect c" for c using call(3) by (auto simp: router_only_def)
  ultimately show ?case using call_inv [OF call(5,1,2)] by simp
next
  case (login v c this chs db now name password d v' p)
  then show ?case using authorize_inv by blast
next
  case (relogin v c this chs db now name password d make_new v' p)
  then show ?case using reauthorize_inv by blast
next
  case (channel v i ch to_client v' ok)
  then show ?case using add_channel_inv by blast
next
  case (disconnect v i r ok)
  with disconnect_inv [of v i] show ?case by simp
next
  case (idle v now idle_time reconnect_wait v')
  then show ?case using disconnect_all_inv by (auto simp: disconnect_idle_def)
qed (rule service_inv)

lemma server_inv_reachable: "reachable_server v \<Longrightarrow> server_inv v"
proof (induction rule: reachable_server.induct)
  case (step v v')
  then show ?case by (blast intro: server_step_inv)
qed (rule server_start_inv)

end
