(* ===== verification/ServerProps.thy ===== *)
theory ServerProps
  imports ServerInv SessionProps
begin

text \<open>
  What the router promises of its sessions, in every state the steps of \<open>Server\<close> reach: whose
  session is whose, what logging in does, that a session with output to send is serviced; and
  where a deleted session is called.
\<close>

subsection \<open>A router to try things on\<close>

definition demo_db :: player_db where
  "demo_db = \<lparr>find_player = (\<lambda>site name. if name = ''ann'' then [DbId 1 1] else []),
     player_password = (\<lambda>i. if i = DbId 1 1 then Some ''hash'' else None),
     valid_password = (\<lambda>password hash. password = ''secret'')\<rparr>"

definition demo_conn :: "ptr \<Rightarrow> connection" where
  "demo_conn c = \<lparr>conn_ptr = c, conn_window_size = 10, conn_is_enhanced = True,
     conn_client_type = CLIENT_TYPE_INTERACTIVE, conn_source = ''here'', conn_entity_id = default_id\<rparr>"

definition demo_chans :: "ptr \<Rightarrow> (string, string) item channel" where
  "demo_chans = chans demo"

definition demo_server :: "(string, string) server" where
  "demo_server = \<lparr>router = router_new demo_conn (\<lambda>c. 1), views = (\<lambda>p. None), service = ServiceIdle\<rparr>"

lemma demo_server_reachable: "reachable_server demo_server"
proof (rule reachable_server.start)
  have "\<exists>conns sites. router demo_server = router_new conns sites"
    by (simp only: demo_server_def server.simps) blast
  then show "server_start demo_server" by (simp add: server_start_def) (simp add: demo_server_def)
qed

definition demo_login :: "(string, string) server" where
  "demo_login = fst (authorize_client demo_db 100 demo_chans 0 ''ann'' ''secret'' (Some 1) (Some 7) demo_server)"

lemma demo_fresh: "fresh_session this demo_chans demo_server" "fresh_connection c (router demo_server)"
proof -
  have "chan_ok (demo_chans ch)" for ch by (simp add: demo_chans_def demo_def)
  then show "fresh_session this demo_chans demo_server"
    by (simp add: fresh_session_def demo_server_def) (simp add: demo_chans_def demo_def channel_new_def)
  show "fresh_connection c (router demo_server)"
    by (simp add: fresh_connection_def demo_server_def router_new_def demo_conn_def)
qed

lemma demo_login_reachable: "reachable_server demo_login"
proof (rule reachable_server.step [OF demo_server_reachable server_step.login])
  show "service demo_server = ServiceIdle" by (simp add: demo_server_def)
  show "authorize_client demo_db 100 demo_chans 0 ''ann'' ''secret'' (Some 1) (Some 7) demo_server
      = (demo_login, snd (authorize_client demo_db 100 demo_chans 0 ''ann'' ''secret'' (Some 1) (Some 7) demo_server))"
    by (simp add: demo_login_def)
qed (rule demo_fresh)+

lemma demo_player: "check_password demo_db (client_site (router v) c) ''ann'' ''secret'' = DbId 1 1"
  by (simp add: check_password_def demo_db_def)

lemma demo_login_router:
  "router demo_login = \<lparr>session_to_connection = [(100, 7)], connection_to_session = [(7, 1, 100)],
     site_to_sessions = [(1, [(DbId 1 1, 100)])], pending_actions = [], pending_deletes = [],
     client_conn = demo_conn(7 := (demo_conn 7)\<lparr>conn_entity_id := DbId 1 1\<rparr>), client_site = (\<lambda>c. 1),
     connection_events = [(ACTION_CONNECTED, DbId 1 1, ''here'')], last_connects = [DbId 1 1],
     released_connections = []\<rparr>"
  by (simp add: demo_login_def authorize_client_def demo_player default_id_def Let_def)
    (simp add: demo_server_def router_new_def get_entity_session_def entity_sessions_def demo_db_def
      add_session_def client_set_entity_id_def publish_connection_def add_entity_session_def Let_def
      default_id_def demo_conn_def split: option.split)

lemma demo_login_view: "views demo_login = [100 \<mapsto> (Idle, demo)]" "service demo_login = ServiceIdle"
proof -
  have "session_new 0 100 (client_conn (client_set_entity_id 7 (DbId 1 1) (router demo_server)) 7) 0 = demo_session"
    by (simp add: demo_session_def session_new_def client_set_entity_id_def demo_server_def router_new_def demo_conn_def)
  moreover have "get_entity_session (DbId 1 1) (router demo_server) = None"
    by (simp add: demo_server_def router_new_def get_entity_session_def entity_sessions_def)
  moreover have "new_world demo_chans demo_session = demo"
    by (simp add: new_world_def demo_chans_def demo_def)
  ultimately show "views demo_login = [100 \<mapsto> (Idle, demo)]" "service demo_login = ServiceIdle"
    by (simp_all add: demo_login_def authorize_client_def demo_player default_id_def Let_def)
      (simp_all add: demo_server_def)
qed

lemma demo_login_session: "get_entity_session (DbId 1 1) (router demo_login) = Some 100"
  "service demo_login = ServiceIdle" "pending_deletes (router demo_login) = []"
  by (simp_all add: demo_login_view demo_login_router get_entity_session_def entity_sessions_def)

lemma demo_next: "fresh_connection 6 (router demo_login)" "fresh_session 200 demo_chans demo_login"
  using demo_fresh(1) [of 200]
  by (simp_all add: fresh_connection_def demo_login_router demo_conn_def fresh_session_def demo_login_view)

text \<open>The player has a channel for text.\<close>

definition demo_status :: "channel_status \<Rightarrow> u32 \<Rightarrow> (string, string) router_event" where
  "demo_status st n = status_event \<lparr>csc_status = st, csc_out = False, csc_id = 1, csc_name = ''c'',
     csc_type = CHANNEL_TYPE_TEXT, csc_subtype = '''', csc_entity_id = DbId 1 1\<rparr> n"

definition talking :: "(string, string) world" where
  "talking = demo\<lparr>
     ses := demo_session\<lparr>outgoing_events := [demo_status CHANNEL_STATUS_open 1,
         demo_status CHANNEL_STATUS_block 2],
       last_used_channel_id := 1, last_used_message_ser_id := 2, has_requested_service := True,
       service_requests := 1, active_channels := [\<lparr>ci_id = 1, ci_channel = Some 1, ci_out = False,
         ci_closed = False, ci_blocked = True\<rparr>]\<rparr>,
     chans := (chans demo)(1 := (channel_new ''c'' CHANNEL_TYPE_TEXT '''' (DbId 1 1))
       \<lparr>channel_control_listeners := [100], pointer_holders := [100, 100]\<rparr>)\<rparr>"

lemma demo_with_channel_eq: "demo_with_channel = talking"
  by (simp add: talking_def demo_status_def session_run channel_run)

definition demo_talk :: "(string, string) server" where
  "demo_talk = set_view 100 Idle talking demo_login"

lemma demo_talk_reachable: "reachable_server demo_talk"
proof -
  obtain n where "channel_added (Some 1) False demo = Some (talking, n)"
    unfolding demo_with_channel_eq [symmetric] by (simp add: session_run channel_run)
  with demo_login_session(1) demo_login_view(1)
  have added: "add_channel (DbId 1 1) (Some 1) False demo_login = Some (demo_talk, n \<noteq> 0)"
    by (simp only: add_channel_def demo_talk_def option.case prod.case option.map fun_upd_same)
  have "op_allowed ph (ChannelAdded (Some 1) False) w"
    if "get_entity_session (DbId 1 1) (router demo_login) = Some p" "views demo_login p = Some (ph, w)" for p ph w
  proof -
    from that have "w = demo" "ph = Idle" by (auto simp: demo_login_session demo_login_view)
    then show ?thesis
      by (simp add: op_allowed_def demo_def demo_session_def session_new_def channel_new_def MAX_CHANNELS_def)
  qed
  with added show ?thesis
    by (intro reachable_server.step [OF demo_login_reachable server_step.channel [OF demo_login_view(2)]])
qed

subsection \<open>Whose session is whose\<close>

lemma reachable_tables: "reachable_server v \<Longrightarrow> router_ok (router v) (own v) (gone v)"
  using server_inv_reachable by (auto simp: server_inv_def server_ok_def)

lemma player_session:
  assumes ok: "router_ok (router v) (own v) (gone v)"
  shows "get_entity_session i (router v) = Some p \<longleftrightarrow>
    (\<exists>c d ph w. views v p = Some (ph, w) \<and> client_entity_id (ses w) = i \<and> client_ptr (ses w) = Some c
       \<and> get_connection p (router v) = Some c \<and> map_of (connection_to_session (router v)) c = Some (d, p)
       \<and> p \<notin> set (gone v))"
proof
  assume p: "get_entity_session i (router v) = Some p"
  obtain c d where c: "get_connection p (router v) = Some c"
    "map_of (connection_to_session (router v)) c = Some (d, p)" "own v p = Some (Some c, i)" "p \<notin> set (gone v)"
    using ok p by (rule tables_entity)
  then obtain ph w where "views v p = Some (ph, w)" "client_ptr (ses w) = Some c" "client_entity_id (ses w) = i"
    by (auto simp: own_def)
  with c show "\<exists>c d ph w. views v p = Some (ph, w) \<and> client_entity_id (ses w) = i \<and> client_ptr (ses w) = Some c
       \<and> get_connection p (router v) = Some c \<and> map_of (connection_to_session (router v)) c = Some (d, p)
       \<and> p \<notin> set (gone v)" by blast
next
  assume "\<exists>c d ph w. views v p = Some (ph, w) \<and> client_entity_id (ses w) = i \<and> client_ptr (ses w) = Some c
       \<and> get_connection p (router v) = Some c \<and> map_of (connection_to_session (router v)) c = Some (d, p)
       \<and> p \<notin> set (gone v)"
  then obtain c ph w where "views v p = Some (ph, w)" "client_entity_id (ses w) = i"
    "get_connection p (router v) = Some c" by blast
  with tables_player [OF ok, of p c] tables_conn [OF ok, of p c]
  show "get_entity_session i (router v) = Some p" by (simp add: own_def)
qed

text \<open>C3. The router's tables and the sessions agree at any time: the session the router has for a
  player is alive, belongs to that player and to a connection whose session it is, and it is the
  only one of the player that is not about to be deleted; no session or connection is in two
  places.\<close>

theorem sessions_consistent:
  assumes "reachable_server v"
  shows "get_entity_session i (router v) = Some p \<longleftrightarrow>
    (\<exists>c d ph w. views v p = Some (ph, w) \<and> client_entity_id (ses w) = i \<and> client_ptr (ses w) = Some c
       \<and> get_connection p (router v) = Some c \<and> map_of (connection_to_session (router v)) c = Some (d, p)
       \<and> p \<notin> set (gone v))"
  by (rule player_session [OF reachable_tables [OF assms]])

lemma sessions_consistent_witness:
  "\<exists>ph w. views demo_login 100 = Some (ph, w) \<and> client_entity_id (ses w) = DbId 1 1"
  using sessions_consistent [OF demo_login_reachable, of "DbId 1 1" 100] demo_login_session by blast

text \<open>C25. The players listed as online at a site are, in order and without repetition, exactly
  the players of that site whose session is alive and not about to be deleted.\<close>

theorem online_exact:
  assumes "reachable_server v"
  shows "sorted_wrt (<) (get_online_ids site (router v))
    \<and> set (get_online_ids site (router v)) = {i. get_site_id i = site
        \<and> (\<exists>p ph w. views v p = Some (ph, w) \<and> p \<notin> set (gone v) \<and> client_entity_id (ses w) = i)}"
proof -
  note ok = reachable_tables [OF assms]
  then have sites: "sites_ok (router v)" by (simp add: router_ok_def)
  have "sorted_wrt (<) (get_online_ids site (router v))"
    using entity_sessions_sorted [OF sites, of site] by (simp add: get_online_ids_def map_keys_def map_sorted_def)
  moreover have "i \<in> set (get_online_ids site (router v)) \<longleftrightarrow>
      get_site_id i = site \<and> (\<exists>p. get_entity_session i (router v) = Some p)" for i
    using entity_sessions_site [OF sites, of i site] om.mem_keys [OF entity_sessions_sorted [OF sites]]
    by (auto simp: get_online_ids_def get_entity_session_def map_keys_def)
  moreover have "(\<exists>p. get_entity_session i (router v) = Some p) \<longleftrightarrow>
      (\<exists>p ph w. views v p = Some (ph, w) \<and> p \<notin> set (gone v) \<and> client_entity_id (ses w) = i)" for i
  proof -
    have "get_connection p (router v) \<noteq> None" if "views v p = Some (ph, w)" "p \<notin> set (gone v)" for p ph w
      using tables_live [OF ok, of p] that by (auto simp: own_def)
    with player_session [OF ok, of i] show ?thesis using tables_conn [OF ok] tables_player [OF ok]
      by (fastforce simp: own_def)
  qed
  ultimately show ?thesis by auto
qed

lemma online_exact_witness: "DbId 1 1 \<in> set (get_online_ids 1 (router demo_login))"
proof -
  have "100 \<notin> set (gone demo_login)" "client_entity_id (ses demo) = DbId 1 1"
    by (simp_all add: gone_idle demo_login_session demo_def demo_session_def session_new_def)
  with online_exact [OF demo_login_reachable, of 1] demo_login_view(1) show ?thesis by auto
qed

subsection \<open>Logging in\<close>

lemma disconnect_others:
  assumes ok: "router_ok r owns left" and "j \<noteq> i"
  shows "get_entity_session j (fst (disconnect_session i r)) = get_entity_session j r"
proof (cases "get_entity_session i r")
  case (Some p)
  with ok obtain c where c: "get_connection p r = Some c" "conn_entity_id (client_conn r c) = i"
    by (rule tables_entity)
  have "sites_ok (publish_connection ACTION_DISCONNECTED i c r)"
    using ok by (simp add: router_ok_def publish_connection_def)
  then have "get_entity_session j (fst (remove_entity_session i (publish_connection ACTION_DISCONNECTED i c r)))
      = get_entity_session j r"
    using assms(2) by (simp add: get_entity_remove publish_connection_def)
  with c Some show ?thesis
    by (simp add: disconnect_session_def remove_session_def get_connection_def Let_def)
qed (simp add: disconnect_session_def)

lemma tables_fresh:
  assumes "router_ok r owns left" and "owns p = None"
  shows "map_of (session_to_connection r) p = None"
  using tables_live [OF assms(1), of p] assms(2) by (simp add: get_connection_def)

text \<open>C4. Logging in with a wrong name or password changes nothing. With the right ones the player
  gets a new session, which is also that of the connection; the session the player had before,
  if any, is put on the list of sessions to delete, and nobody else's session is touched.\<close>

theorem login_replaces_session:
  assumes "reachable_server v" and "service v = ServiceIdle"
    and "fresh_connection c (router v)" and "fresh_session this chs v"
    and "i = check_password db (client_site (router v) c) name password"
  shows "if i = default_id
    then authorize_client db this chs now name password (Some d) (Some c) v = (v, None)
    else \<exists>v'. authorize_client db this chs now name password (Some d) (Some c) v = (v', Some this)
      \<and> get_entity_session i (router v') = Some this \<and> get_session c (router v') = Some this
      \<and> pending_deletes (router v') = pending_deletes (router v) @ leaving i (router v)
      \<and> (\<forall>j. j \<noteq> i \<longrightarrow> get_entity_session j (router v') = get_entity_session j (router v))
      \<and> (\<forall>p. p \<noteq> this \<longrightarrow> views v' p = views v p)"
proof (cases "i = default_id")
  case True
  then show ?thesis by (simp add: authorize_client_def Let_def assms(5) [symmetric])
next
  case False
  note ok = reachable_tables [OF assms(1)]
  define r where "r = fst (disconnect_session i (router v))"
  note r = disconnect_effect [OF ok, of i, folded r_def] disconnect_others [OF ok, of _ i, folded r_def]
  define r0 where "r0 = client_set_entity_id c i r"
  define r' where "r' = fst (add_session db d (Some c) (Some this) i r0)"
  have "(case get_entity_session i (router v) of None \<Rightarrow> router v | Some _ \<Rightarrow> fst (disconnect_session i (router v))) = r"
    by (simp add: r_def disconnect_session_def split: option.split)
  then obtain v' where v': "authorize_client db this chs now name password (Some d) (Some c) v = (v', Some this)"
    "router v' = r'" "\<And>p. p \<noteq> this \<Longrightarrow> views v' p = views v p"
    using False by (simp add: authorize_client_def Let_def assms(5) [symmetric] r'_def r0_def)
  have sites: "sites_ok r0" "map_sorted (connection_to_session r0)" "map_of (session_to_connection r0) this = None"
    using r(1) tables_fresh [OF r(1)] assms(4)
    by (simp_all add: r0_def router_ok_def client_set_entity_id_def fresh_session_def own_def)
  have "get_entity_session j r' = (if j = i then Some this else get_entity_session j r)" for j
    using sites False by (auto simp: r'_def add_session_def Let_def get_entity_add publish_connection_def
        client_set_entity_id_def r0_def split: option.split)
  moreover have "get_session c r' = Some this"
    using sites False by (auto simp: r'_def add_session_def Let_def get_session_def publish_connection_def
        client_set_entity_id_def map_of_put r0_def split: option.split)
  moreover have "pending_deletes r' = pending_deletes (router v) @ leaving i (router v)"
    by (simp add: r'_def r0_def r(3))
  ultimately show ?thesis using False v' r(7) by auto
qed

lemma login_replaces_session_witness:
  "\<exists>v'. authorize_client demo_db 200 demo_chans 0 ''ann'' ''secret'' (Some 1) (Some 6) demo_login = (v', Some 200)
    \<and> get_entity_session (DbId 1 1) (router v') = Some 200 \<and> pending_deletes (router v') = [100]"
  using login_replaces_session [OF demo_login_reachable demo_login_session(2) demo_next demo_player [symmetric],
      of 0 1]
  by (auto simp: default_id_def demo_login_session leaving_def)

text \<open>C14. A player who logs in again to go on with a session keeps it: the session is the one before,
  reconnected with the new connection; the old connection is given back to its driver and
  belongs to no session any more, and nobody's session changes hands.\<close>

theorem relogin_keeps_session:
  assumes "reachable_server v" and "fresh_connection c (router v)"
    and "i = check_password db (client_site (router v) c) name password"
    and "get_entity_session i (router v) = Some p"
  shows "\<exists>v' ph w old. reauthorize_client db this chs now name password (Some d) (Some c) make_new v = Some (v', Some p)
    \<and> views v p = Some (ph, w) \<and> client_ptr (ses w) = Some old \<and> old \<noteq> c
    \<and> views v' p = Some (ph, on_session (set_client_connection (Some (client_conn (router v) c))) w)
    \<and> get_session c (router v') = Some p \<and> get_session old (router v') = None
    \<and> old \<in> snd ` set (released_connections (router v'))
    \<and> (\<forall>j. get_entity_session j (router v') = get_entity_session j (router v))"
proof -
  note ok = reachable_tables [OF assms(1)]
  obtain old d' where old: "i \<noteq> default_id" "get_connection p (router v) = Some old"
    "map_of (connection_to_session (router v)) old = Some (d', p)" "own v p = Some (Some old, i)"
    using ok assms(4) by (rule tables_entity)
  then obtain ph w where v: "views v p = Some (ph, w)" "client_ptr (ses w) = Some old"
    by (auto simp: own_def)
  have "old \<noteq> c" using assms(2) old(3) by (auto simp: fresh_connection_def)
  define conn where "conn = Some (client_conn (router v) c)"
  define r1 where "r1 = relay p (ses w) (set_client_connection conn (ses w)) (router v)"
  define r' where "r' = fst (add_session db d (Some c) (Some p) i r1)"
  define v' where "v' = v\<lparr>views := (views v)(p \<mapsto> (ph, on_session (set_client_connection conn) w)), router := r'\<rparr>"
  have "reauthorize_client db this chs now name password (Some d) (Some c) make_new v = Some (v', Some p)"
    using old(1) v assms(4) by (simp add: reauthorize_client_def Let_def assms(3) [symmetric] session_call_def
        set_view_def v'_def r'_def r1_def conn_def)
  moreover have r1: "session_to_connection r1 = session_to_connection (router v)"
    "connection_to_session r1 = connection_to_session (release_connection old (router v))"
    "site_to_sessions r1 = site_to_sessions (router v)"
    "released_connections r1 = released_connections (router v) @ [(d', old)]"
    using relay_reconnect [OF v(2), of p conn "router v"] old(3)
    by (auto simp: r1_def session_has_pending_actions_def release_connection_def)
  have "map_sorted (connection_to_session (release_connection old (router v)))"
    using ok by (simp add: router_ok_def release_sorted)
  then have "get_session c r' = Some p" "get_session old r' = None" "site_to_sessions r' = site_to_sessions (router v)"
    "released_connections r' = released_connections (router v) @ [(d', old)]"
    using old(1,2) \<open>old \<noteq> c\<close> by (auto simp: r'_def add_session_def Let_def get_session_def r1 map_of_put
        map_of_erase map_sorted_erase get_connection_def client_set_entity_id_def split: option.split)
  moreover from this(3) have "get_entity_session j r' = get_entity_session j (router v)" for j
    by (rule get_entity_cong)
  ultimately show ?thesis using v \<open>old \<noteq> c\<close>
    by (intro exI [of _ v'] exI [of _ ph] exI [of _ w] exI [of _ old]) (simp add: v'_def conn_def)
qed

lemma relogin_keeps_session_witness:
  "\<exists>v'. reauthorize_client demo_db 200 demo_chans 0 ''ann'' ''secret'' (Some 1) (Some 6) False demo_login = Some (v', Some 100)
    \<and> get_session 6 (router v') = Some 100"
  using relogin_keeps_session [OF demo_login_reachable demo_next(1) demo_player [symmetric] demo_login_session(1)]
  by blast

subsection \<open>Service\<close>

text \<open>C15. Whenever the router is not servicing sessions, a session with output it could send now, which
  is not about to be deleted, is in the queue of the next service: together with the session's
  promise to ask, output never waits for something else to happen.\<close>

theorem output_is_serviced:
  assumes "reachable_server v" and "service v = ServiceIdle"
    and "views v p = Some (ph, w)" and "p \<notin> set (pending_deletes (router v))" and "sendable (ses w)"
  shows "p \<in> set (pending_actions (router v))"
proof -
  have ok: "server_ok v" "requests_ok v" using server_inv_reachable [OF assms(1)] by (simp_all add: server_inv_def)
  have "ph = Idle" using view_phase(3) [OF ok(1) assms(3)] assms(2) by auto
  then have "has_requested_service (ses w)"
    using output_inv_reachable [OF view_phase(1) [OF ok(1) assms(3)]] assms(5)
    by (simp add: output_inv_def awake_def)
  with ok(2) assms show ?thesis by (auto simp: requests_ok_def waiting_idle gone_idle)
qed

lemma demo_talk_view: "views demo_talk = [100 \<mapsto> (Idle, talking)]"
  "service demo_talk = ServiceIdle" "pending_deletes (router demo_talk) = []"
  by (simp_all add: demo_talk_def set_view_def demo_login_view)
    (simp add: relay_def session_has_pending_actions_def demo_login_session talking_def session_run demo_login_router)

lemma output_is_serviced_witness: "100 \<in> set (pending_actions (router demo_talk))"
  by (rule output_is_serviced [OF demo_talk_reachable demo_talk_view(2), of _ Idle talking])
    (simp_all add: demo_talk_view, simp add: sendable_def talking_def session_run)

lemma process_pending_ends:
  assumes "reachable_session (Idle, w)"
  shows "\<exists>w'. process_pending reply w = Some w' \<and> (need_disconnect (ses w') \<or> \<not> sendable (ses w'))"
  using servicing_outputs [of w reply] output_inv_reachable [OF assms] by (simp add: output_inv_def)

text \<open>Servicing a session undisturbed is one of its runs through the phases.\<close>

definition router_run :: "(nat \<Rightarrow> send_return_code) \<Rightarrow> phase \<times> ('t, 'm) world \<Rightarrow> phase \<times> ('t, 'm) world \<Rightarrow> bool" where
  "router_run reply = (\<lambda>x y. router_step reply x = Some y)\<^sup>*\<^sup>*"

lemma router_run_step: "router_step reply x = Some y \<Longrightarrow> router_run reply y z \<Longrightarrow> router_run reply x z"
  unfolding router_run_def by (rule converse_rtranclp_into_rtranclp)

lemma run_unregister:
  "router_run reply (Unblocking0, fold unregister_channel cis w) z \<Longrightarrow> router_run reply (Unregistering cis, w) z"
proof (induction cis arbitrary: w)
  case Nil
  then show ?case by (intro router_run_step [of reply "(Unregistering [], w)"]) simp_all
next
  case (Cons ci cis)
  have "router_step reply (Unregistering (ci # cis), w) = Some (Unregistering cis, unregister_channel ci w)"
    by simp
  then show ?case
    by (rule router_run_step) (use Cons.IH [of "unregister_channel ci w"] Cons.prems in simp)
qed

lemma run_unblock:
  "process_each_unblocked cids w = (u, bad) \<Longrightarrow>
    router_run reply (Serving, on_session (remove_invalid_queues (invalid @ bad)) u) z
    \<Longrightarrow> router_run reply (Unblocking cids invalid, w) z"
proof (induction cids arbitrary: w invalid bad)
  case Nil
  then show ?case by (intro router_run_step [of reply "(Unblocking [] invalid, w)"]) simp_all
next
  case (Cons cid cids)
  obtain w1 bad1 where w1: "process_unblocked cid w = (w1, bad1)" by fastforce
  obtain bad2 where "process_each_unblocked cids w1 = (u, bad2)" "bad = bad1 @ bad2"
    using Cons.prems(1) w1 by (cases "process_each_unblocked cids w1") auto
  with Cons.IH [of w1 bad2 "invalid @ bad1"] Cons.prems(2)
  have "router_run reply (Unblocking cids (invalid @ bad1), w1) z" by simp
  with w1 show ?case by (intro router_run_step [of reply "(Unblocking (cid # cids) invalid, w)"]) simp_all
qed

lemma process_pending_run:
  assumes "process_pending reply w = Some w'"
  shows "router_run reply (Idle, w) (Idle, w')"
proof -
  obtain s go close where b: "begin_processing (ses w) = (s, go, close)" using prod_cases3 by blast
  show ?thesis
  proof (cases go)
    case False
    with assms b have "router_step reply (Idle, w) = Some (Idle, w')" by (simp add: process_pending_def Let_def)
    then show ?thesis by (rule router_run_step) (simp add: router_run_def)
  next
    case True
    define w1 where "w1 = (if close then process_pending_channel_deletes (w\<lparr>ses := s\<rparr>) else w\<lparr>ses := s\<rparr>)"
    obtain s2 cids where t: "take_unblocked (ses w1) = (s2, cids)" by fastforce
    obtain u bad where u: "process_each_unblocked cids (w1\<lparr>ses := s2\<rparr>) = (u, bad)" by fastforce
    define w2 where "w2 = on_session (remove_invalid_queues bad) u"
    have "process_client reply (ses w2) = Some (ses w')" "w' = w2\<lparr>ses := ses w'\<rparr>"
      using assms True b t u by (auto simp: process_pending_def Let_def w1_def w2_def
          process_pending_unblocked_channels_def split: if_splits)
    then have "router_step reply (Serving, w2) = Some (Idle, w')" by simp
    then have "router_run reply (Serving, w2) (Idle, w')" by (rule router_run_step) (simp add: router_run_def)
    then have "router_run reply (Unblocking cids [], w1\<lparr>ses := s2\<rparr>) (Idle, w')"
      by (intro run_unblock [OF u]) (simp add: w2_def)
    then have run: "router_run reply (Unblocking0, w1) (Idle, w')"
      by (intro router_run_step [of reply "(Unblocking0, w1)"]) (simp_all add: t)
    show ?thesis
    proof (cases close)
      case True
      obtain s1 cis where d: "take_deletes s = (s1, cis)" by fastforce
      have "w1 = fold unregister_channel cis (w\<lparr>ses := s1\<rparr>)"
        using True d by (simp add: w1_def process_pending_channel_deletes_def)
      with run have "router_run reply (Unregistering cis, w\<lparr>ses := s1\<rparr>) (Idle, w')" by (simp add: run_unregister)
      then have "router_run reply (Deleting, w\<lparr>ses := s\<rparr>) (Idle, w')"
        by (intro router_run_step [of reply "(Deleting, w\<lparr>ses := s\<rparr>)"]) (simp_all add: d)
      then show ?thesis by (intro router_run_step [of reply "(Idle, w)"]) (simp_all add: b True \<open>go\<close>)
    next
      case False
      with run show ?thesis by (intro router_run_step [of reply "(Idle, w)"]) (simp_all add: b w1_def \<open>go\<close>)
    qed
  qed
qed

lemma router_run_reachable:
  assumes "router_run reply x y" and "reachable_session x"
  shows "reachable_session y"
  using assms unfolding router_run_def
proof (induction rule: rtranclp_induct)
  case (step y z)
  then show ?case by (cases y, cases z) (auto intro: reach_router)
qed

text \<open>Servicing a session in one go is one of the ways through its phases.\<close>

lemma phases_are_processing:
  assumes "reachable_session (Idle, w)"
  shows "\<exists>w'. process_pending reply w = Some w' \<and> router_run reply (Idle, w) (Idle, w')"
  using process_pending_ends [OF assms] process_pending_run by blast

text \<open>The whole service.\<close>

lemma process_sessions_ends:
  assumes "\<forall>p \<in> set ps. views v p \<noteq> None"
    and "\<forall>p ph w. views v p = Some (ph, w) \<longrightarrow> ph = Idle \<and> reachable_session (ph, w)"
  shows "\<exists>v'. process_sessions reply ps v = Some v'
    \<and> (\<forall>p. (views v' p = None) = (views v p = None)) \<and> pending_deletes (router v') = pending_deletes (router v)
    \<and> (\<forall>p ph w. views v' p = Some (ph, w) \<longrightarrow> ph = Idle \<and> reachable_session (ph, w)
         \<and> (p \<in> set ps \<or> views v p = views v' p)
         \<and> (p \<in> set ps \<longrightarrow> need_disconnect (ses w) \<or> \<not> sendable (ses w)))"
  using assms
proof (induction ps arbitrary: v)
  case (Cons p ps)
  then obtain w where v: "views v p = Some (Idle, w)" "reachable_session (Idle, w)" by fastforce
  obtain w' where w': "process_pending reply w = Some w'" "need_disconnect (ses w') \<or> \<not> sendable (ses w')"
    using process_pending_ends [OF v(2)] by blast
  have reach: "reachable_session (Idle, w')"
    using process_pending_run [OF w'(1)] v(2) by (rule router_run_reachable)
  define u where "u = set_view p Idle w' v"
  have views: "views u = (views v)(p \<mapsto> (Idle, w'))" by (simp add: u_def set_view_simps [OF v(1)])
  have release: "pending_deletes (fold release_connection cs r) = pending_deletes r" for cs r
    by (induction cs arbitrary: r) simp_all
  have asked: "pending_deletes ((session_has_pending_actions p ^^ n) r) = pending_deletes r" for n r
    by (induction n) simp_all
  have deletes: "pending_deletes (router u) = pending_deletes (router v)"
    by (simp add: u_def set_view_simps [OF v(1)] relay_def release asked)
  have "\<forall>q \<in> set ps. views u q \<noteq> None" using Cons.prems(1) by (simp add: views)
  moreover have "\<forall>q ph w. views u q = Some (ph, w) \<longrightarrow> ph = Idle \<and> reachable_session (ph, w)"
    using Cons.prems(2) reach by (simp add: views)
  ultimately obtain v' where v': "process_sessions reply ps u = Some v'"
    "\<forall>p. (views v' p = None) = (views u p = None)" "pending_deletes (router v') = pending_deletes (router u)"
    "\<forall>p ph w. views v' p = Some (ph, w) \<longrightarrow> ph = Idle \<and> reachable_session (ph, w)
       \<and> (p \<in> set ps \<or> views u p = views v' p)
       \<and> (p \<in> set ps \<longrightarrow> need_disconnect (ses w) \<or> \<not> sendable (ses w))"
    using Cons.IH [of u] by blast
  have "process_sessions reply (p # ps) v = Some v'" using v(1) w'(1) v'(1) by (simp add: u_def)
  moreover have "\<forall>q ph x. views v' q = Some (ph, x) \<longrightarrow> ph = Idle \<and> reachable_session (ph, x)
      \<and> (q \<in> set (p # ps) \<or> views v q = views v' q)
      \<and> (q \<in> set (p # ps) \<longrightarrow> need_disconnect (ses x) \<or> \<not> sendable (ses x))"
  proof (intro allI impI)
    fix q ph x assume q: "views v' q = Some (ph, x)"
    with v'(4) have a: "ph = Idle" "reachable_session (ph, x)" "q \<in> set ps \<or> views u q = views v' q"
      "q \<in> set ps \<longrightarrow> need_disconnect (ses x) \<or> \<not> sendable (ses x)" by blast+
    have "q = p \<Longrightarrow> q \<notin> set ps \<Longrightarrow> x = w'" using a(3) q by (simp add: views)
    with a w'(2) show "ph = Idle \<and> reachable_session (ph, x)
      \<and> (q \<in> set (p # ps) \<or> views v q = views v' q)
      \<and> (q \<in> set (p # ps) \<longrightarrow> need_disconnect (ses x) \<or> \<not> sendable (ses x))" by (auto simp: views)
  qed
  ultimately show ?case using v' deletes v(1) by (intro exI [of _ v']) (auto simp: views)
qed simp

lemma delete_sessions_ends:
  assumes "\<forall>p \<in> set ps. views v p \<noteq> None" and "distinct ps" and "pending_deletes (router v) = []"
  shows "\<exists>v'. delete_sessions ps v = Some v' \<and> pending_deletes (router v') = []
    \<and> (\<forall>p. views v' p = (if p \<in> set ps then None else views v p))"
  using assms
proof (induction ps arbitrary: v)
  case (Cons p ps)
  then obtain ph w where "views v p = Some (ph, w)" by fastforce
  then obtain u where u: "delete_session p v = Some u" "views u = (views v)(p := None)"
    "pending_deletes (router u) = []"
    using Cons.prems(3) by (auto simp: delete_session_def relay_delete split: option.split)
  with Cons.prems have "\<exists>v'. delete_sessions ps u = Some v' \<and> pending_deletes (router v') = []
      \<and> (\<forall>p. views v' p = (if p \<in> set ps then None else views u p))" by (intro Cons.IH) auto
  with u Cons.prems(2) show ?case by auto
qed simp

text \<open>C16. As long as no session in the queue was deleted, a service of the router that nobody
  disturbs ends, whatever the connections answer: every session in the queue is left with nothing to send or marked for
  disconnection, exactly the sessions on the list of deletions are gone, and this list is empty.\<close>

theorem service_completes:
  assumes "reachable_server v" and "service v = ServiceIdle"
    and "\<forall>p \<in> set (pending_actions (router v)). views v p \<noteq> None"
  shows "\<exists>v'. service_sessions reply v = Some v' \<and> pending_deletes (router v') = []
    \<and> (\<forall>p. views v' p = None \<longleftrightarrow> views v p = None \<or> p \<in> set (pending_deletes (router v)))
    \<and> (\<forall>p ph w. p \<in> set (pending_actions (router v)) \<longrightarrow> views v' p = Some (ph, w)
         \<longrightarrow> need_disconnect (ses w) \<or> \<not> sendable (ses w))"
proof -
  have ok: "server_ok v" using server_inv_reachable [OF assms(1)] by (simp add: server_inv_def)
  note tables = reachable_tables [OF assms(1)]
  define u where "u = v\<lparr>router := (router v)\<lparr>pending_actions := []\<rparr>\<rparr>"
  have views: "\<forall>p ph w. views u p = Some (ph, w) \<longrightarrow> ph = Idle \<and> reachable_session (ph, w)"
  proof (intro allI impI)
    fix p ph w assume "views u p = Some (ph, w)"
    then have "views v p = Some (ph, w)" by (simp add: u_def)
    with view_phase(1,3) [OF ok this] assms(2) show "ph = Idle \<and> reachable_session (ph, w)" by force
  qed
  obtain v1 where v1: "process_sessions reply (pending_actions (router v)) u = Some v1"
    "\<forall>p. (views v1 p = None) = (views v p = None)" "pending_deletes (router v1) = pending_deletes (router v)"
    "\<forall>p ph w. views v1 p = Some (ph, w) \<longrightarrow> p \<in> set (pending_actions (router v))
       \<longrightarrow> need_disconnect (ses w) \<or> \<not> sendable (ses w)"
    using process_sessions_ends [of "pending_actions (router v)" u reply] assms(3) views by (auto simp: u_def)
  show ?thesis
  proof (cases "pending_deletes (router v) = []")
    case True
    with v1 show ?thesis by (intro exI [of _ v1]) (auto simp: service_sessions_def Let_def u_def)
  next
    case False
    define v2 where "v2 = v1\<lparr>router := (router v1)\<lparr>pending_deletes := []\<rparr>\<rparr>"
    have "\<forall>p \<in> set (pending_deletes (router v)). views v2 p \<noteq> None"
      using v1(2) tables_live [OF tables] assms(2) by (auto simp: v2_def gone_idle own_def)
    moreover have "distinct (pending_deletes (router v))"
      using tables assms(2) by (simp add: router_ok_def gone_idle)
    moreover have "pending_deletes (router v2) = []" by (simp add: v2_def)
    ultimately obtain v' where v': "delete_sessions (pending_deletes (router v)) v2 = Some v'"
      "pending_deletes (router v') = []"
      "\<forall>p. views v' p = (if p \<in> set (pending_deletes (router v)) then None else views v2 p)"
      using delete_sessions_ends by blast
    with v1 False have "service_sessions reply v = Some v'"
      by (simp add: service_sessions_def Let_def u_def v2_def)
    with v1 v' show ?thesis by (intro exI [of _ v']) (auto simp: v2_def)
  qed
qed

lemma service_completes_witness:
  "\<exists>v'. service_sessions (\<lambda>n. SEND_OK) demo_talk = Some v' \<and> pending_deletes (router v') = []
    \<and> views v' 100 \<noteq> None"
proof -
  have "\<forall>p \<in> set (pending_actions (router demo_talk)). views demo_talk p \<noteq> None"
    by (simp add: demo_talk_def set_view_def demo_login_view)
      (simp add: relay_def session_has_pending_actions_def demo_login_session talking_def session_run demo_login_router)
  then obtain v' where v': "service_sessions (\<lambda>n. SEND_OK) demo_talk = Some v'" "pending_deletes (router v') = []"
    "\<forall>p. views v' p = None \<longleftrightarrow> views demo_talk p = None \<or> p \<in> set (pending_deletes (router demo_talk))"
    using service_completes [OF demo_talk_reachable demo_talk_view(2), of "\<lambda>n. SEND_OK"] by blast
  from v'(3) have "views v' 100 \<noteq> None" unfolding demo_talk_view by (simp del: split_paired_Ex not_None_eq)
  with v' show ?thesis by blast
qed

subsection \<open>A deleted session\<close>

text \<open>
  The player of \<open>demo_talk\<close> asks to be disconnected, and the session is removed. The service that
  deletes it has emptied the list of deletions when a program closes the channel: the session,
  not on the list any more, is queued for the next service.
\<close>

definition left_world :: "(string, string) world" where
  "left_world = on_session request_disconnection talking"

definition left_served :: "(string, string) world" where
  "left_served = on_session (fst \<circ> begin_processing) left_world"

definition left_closed :: "(string, string) world" where
  "left_closed = chan_change (chan_step CloseChannel) 1 left_served"

definition left_server :: "(string, string) server" where
  "left_server = set_view 100 Idle left_world demo_talk"

definition left_removed :: "(string, string) server" where
  "left_removed = left_server\<lparr>router := fst (disconnect_session (DbId 1 1) (router left_server))\<rparr>"

definition left_deleting :: "(string, string) server" where
  "left_deleting = left_removed\<lparr>service := DeletingSessions [100], views := [100 \<mapsto> (Idle, left_served)],
     router := (router left_removed)\<lparr>pending_actions := [], pending_deletes := []\<rparr>\<rparr>"

lemma left_world_simps:
  "begin_processing (ses left_world) = (ses left_served, False, False)"
  "service_requests (ses left_world) = 1" "service_requests (ses talking) = 1"
  "service_requests (ses left_served) = 1"
  "released (ses left_world) = []"
  "released (ses left_served) = []" "released (ses talking) = []"
  "left_world\<lparr>ses := ses left_served\<rparr> = left_served" "released (ses demo) = []" "service_requests (ses demo) = 0"
  by (simp_all add: left_served_def left_world_def request_disconnection_def talking_def request_service_def
      begin_processing_def Let_def demo_def demo_session_def session_new_def)

lemma left_closed_eq: "chan_change (chan_step CloseChannel) (Suc 0) left_served = left_closed"
  by (simp add: left_closed_def)

lemma left_closed_simps: "service_requests (ses left_closed) = 2" "released (ses left_closed) = []"
  "client_ptr (ses left_closed) = Some 7"
  by (simp_all add: left_closed_def left_served_def left_world_def request_disconnection_def talking_def
      channel_flow_closed_def set_closed_ptr_def session_run channel_run)

lemma left_router:
  "router demo_talk = (router demo_login)\<lparr>pending_actions := [100]\<rparr>"
  "router left_server = router demo_talk"
  "get_entity_session (DbId 1 1) (router left_server) = Some 100"
  "pending_actions (router left_removed) = [100]" "pending_deletes (router left_removed) = [100]"
proof -
  show talk: "router demo_talk = (router demo_login)\<lparr>pending_actions := [100]\<rparr>"
    by (simp add: demo_talk_def set_view_def demo_login_view relay_def left_world_simps
        session_has_pending_actions_def demo_login_router)
  show left: "router left_server = router demo_talk"
    by (simp add: left_server_def set_view_def demo_talk_view relay_def left_world_simps)
  show "get_entity_session (DbId 1 1) (router left_server) = Some 100"
    by (simp add: left talk demo_login_router get_entity_session_def entity_sessions_def)
  then show "pending_actions (router left_removed) = [100]" "pending_deletes (router left_removed) = [100]"
    by (simp_all add: left_removed_def disconnect_session_def remove_session_def left talk demo_login_router
        publish_connection_def remove_entity_session_def get_entity_session_def entity_sessions_def Let_def)
qed

lemma left_views: "views left_removed = [100 \<mapsto> (Idle, left_world)]" "service left_removed = ServiceIdle"
  by (simp_all add: left_removed_def left_server_def set_view_def demo_talk_view)

lemma left_removed_reachable: "reachable_server left_removed"
proof -
  have "session_call 100 RequestDisconnection demo_talk = Some left_server"
    by (simp add: session_call_def demo_talk_view left_server_def left_world_def)
  then have "reachable_server left_server"
    by (intro reachable_server.step [OF demo_talk_reachable server_step.call [of _ _ Idle talking]])
      (simp_all add: demo_talk_view op_allowed_def router_only_def)
  moreover have "service left_server = ServiceIdle" by (simp add: left_server_def set_view_def demo_talk_view)
  ultimately show ?thesis unfolding left_removed_def
    by (intro reachable_server.step [OF _ server_step.disconnect]) (simp_all add: prod_eq_iff)
qed

lemma left_deleting_reachable: "reachable_server left_deleting"
proof -
  note step = reachable_server.step [OF _ server_step.service]
  define taken where "taken = left_removed\<lparr>service := Servicing [100] True,
     router := (router left_removed)\<lparr>pending_actions := []\<rparr>\<rparr>"
  define served where "served = (set_view 100 Idle left_served taken)\<lparr>service := Servicing [] True\<rparr>"
  have "reachable_server taken"
    by (rule step [OF left_removed_reachable]) (simp add: left_views taken_def left_router)
  then have "reachable_server served"
    by (rule step) (simp add: taken_def left_views served_def left_world_simps)
  then show ?thesis
    by (rule step) (simp add: served_def set_view_def taken_def left_views left_router left_deleting_def
        relay_def left_world_simps)
qed

definition left_server_after :: "(string, string) server" where
  "left_server_after = left_deleting\<lparr>service := ServiceIdle, views := (\<lambda>p. None),
     router := release_connection 7 ((router left_deleting)\<lparr>pending_actions := [100]\<rparr>)\<rparr>"

lemma left_after_reachable: "reachable_server left_server_after"
proof -
  note step = reachable_server.step [OF _ server_step.service]
  define closed where "closed = left_deleting\<lparr>views := [100 \<mapsto> (Idle, left_closed)],
     router := (router left_deleting)\<lparr>pending_actions := [100]\<rparr>\<rparr>"
  have "session_call 100 (OtherChannel 1 CloseChannel) left_deleting = Some closed"
    by (simp add: session_call_def left_deleting_def closed_def set_view_def left_closed_eq relay_def
        left_world_simps left_closed_simps session_has_pending_actions_def)
  then have "reachable_server closed"
    by (intro reachable_server.step [OF left_deleting_reachable server_step.call [of _ 100 Idle left_served]])
      (simp_all add: left_deleting_def op_allowed_def router_only_def)
  moreover have "service closed = DeletingSessions [100]" by (simp add: closed_def left_deleting_def)
  moreover have "delete_session 100 closed = Some (left_server_after\<lparr>service := DeletingSessions [100]\<rparr>)"
    by (simp add: delete_session_def closed_def relay_delete left_closed_simps left_server_after_def
        left_deleting_def)
  ultimately have "reachable_server (left_server_after\<lparr>service := DeletingSessions []\<rparr>)"
    using step [of closed "\<lambda>n. SEND_OK"] by simp
  then show ?thesis by (rule step) (simp add: left_server_after_def)
qed

text \<open>C20. A session can be serviced after it was deleted: one that asks for service while the router
  is deleting the sessions taken from the list of deletions is queued, as the list that should
  keep it out is empty by then; the next service calls a session that is gone.\<close>

theorem deleted_session_queued:
  "\<exists>v :: (string, string) server. reachable_server v \<and> service v = ServiceIdle
    \<and> (\<exists>p \<in> set (pending_actions (router v)). views v p = None)
    \<and> (\<forall>reply. service_sessions reply v = None)"
proof (rule exI [of _ left_server_after], intro conjI)
  show "reachable_server left_server_after" by (rule left_after_reachable)
qed (simp_all add: left_server_after_def service_sessions_def Let_def)

end
