(* ===== verification/SubParams.thy ===== *)
theory SubParams
  imports ProcInfo EntityCore Router
begin

text \<open>
  Events and subscriptions (\<^verbatim>\<open>src/src/events/\<close>): the six classes of events, the six classes of
  parameters of a subscription, and when a subscription matches an event. The text of an emit
  event and the timestamps of events, which no subscription looks at, are left out.

  Sets of fields, flags and states are sets; what changed in the fields of identifiers is the
  journal of \<open>EntityCore\<close>, removed identifiers first. The conversion to lower case is a
  parameter.
\<close>

subsection \<open>Events\<close>

datatype event_type =
    EVENT_MOVEMENT | EVENT_EMIT | EVENT_CONNECTION | EVENT_ENTITY_CHANGED
  | EVENT_PROCESS_EXECUTION | EVENT_SITE | EVENT_END_INVALID

datatype entity_action = ENTITY_CREATED | ENTITY_UPDATED | ENTITY_DELETED

datatype site_action = SITE_ACTION_CREATE | SITE_ACTION_DELETE

record movement_event =
  moved_who :: db_id
  moved_from :: db_id
  moved_to :: db_id
  moved_via_program :: bool
  moved_how :: db_id

record emit_event =
  emitted_source :: db_id
  emitted_target :: db_id
  emitted_exclude :: db_id

record connection_event =
  connected_action :: connection_action
  connected_id :: db_id
  connected_source :: string

record entity_changed_event =
  changed_id :: db_id
  changed_type :: entity_type
  changed_owner :: db_id
  changed_action :: entity_action
  changed_fields :: "entity_field set"
  changed_flags :: flag_journal
  changed_id_fields :: id_journal

record process_execution_event =
  executed_pid :: u32
  executed_id :: db_id
  executed_native :: bool
  executed_owner :: db_id
  executed_name :: string
  executed_state :: process_state

record site_event =
  event_site_action :: site_action
  event_site_id :: u32
  event_site_name :: string

datatype event =
    MovementEvent movement_event | EmitEvent emit_event | ConnectionEvent connection_event
  | EntityChangedEvent entity_changed_event | ProcessExecutionEvent process_execution_event
  | SiteEvent site_event

fun get_event_type :: "event \<Rightarrow> event_type" where
  "get_event_type (MovementEvent e) = EVENT_MOVEMENT"
| "get_event_type (EmitEvent e) = EVENT_EMIT"
| "get_event_type (ConnectionEvent e) = EVENT_CONNECTION"
| "get_event_type (EntityChangedEvent e) = EVENT_ENTITY_CHANGED"
| "get_event_type (ProcessExecutionEvent e) = EVENT_PROCESS_EXECUTION"
| "get_event_type (SiteEvent e) = EVENT_SITE"

definition process_execution_event_new ::
    "u32 \<Rightarrow> db_id \<Rightarrow> db_id \<Rightarrow> string \<Rightarrow> process_state \<Rightarrow> process_execution_event" where
  "process_execution_event_new pid exe_id process_owner name state =
     \<lparr>executed_pid = pid, executed_id = exe_id, executed_native = is_default exe_id,
      executed_owner = process_owner, executed_name = name, executed_state = state\<rparr>"

text \<open>The two constructors of an entity event: an update with what changed, and any other.\<close>

definition entity_updated_event ::
    "db_id \<Rightarrow> entity_type \<Rightarrow> db_id \<Rightarrow> entity_field set \<Rightarrow> flag_journal \<Rightarrow> id_journal
     \<Rightarrow> entity_changed_event" where
  "entity_updated_event i t owner field_set flags ids =
     \<lparr>changed_id = i, changed_type = t, changed_owner = owner, changed_action = ENTITY_UPDATED,
      changed_fields = field_set, changed_flags = flags, changed_id_fields = ids\<rparr>"

definition entity_action_event ::
    "db_id \<Rightarrow> entity_type \<Rightarrow> db_id \<Rightarrow> entity_action \<Rightarrow> entity_changed_event" where
  "entity_action_event i t owner action =
     \<lparr>changed_id = i, changed_type = t, changed_owner = owner, changed_action = action,
      changed_fields = {}, changed_flags = ({}, {}), changed_id_fields = Map.empty\<rparr>"

subsection \<open>Parameters\<close>

datatype subscription_type =
    SUBSCRIPTION_MOVEMENT | SUBSCRIPTION_EMIT | SUBSCRIPTION_CONNECTION
  | SUBSCRIPTION_ENTITY_CHANGED | SUBSCRIPTION_PROCESS_EXECUTION | SUBSCRIPTION_SITE

datatype movement_type = MOVEMENT_TYPE_PROGRAM | MOVEMENT_TYPE_EXIT | MOVEMENT_TYPE_ALL

datatype connection_subscription =
    CONNECTION_TYPE_CONNECT | CONNECTION_TYPE_DISCONNECT | CONNECTION_TYPE_ALL

datatype process_type_subscription =
    PROCESS_SUB_NATIVE_ONLY | PROCESS_SUB_INTERPRETED_ONLY | PROCESS_SUB_NATIVE_AND_INTERPRETED

record movement_params =
  movement_who :: "db_id list"
  movement_from :: "db_id list"
  movement_to :: "db_id list"
  movement_site :: u32
  movement_type :: movement_type
  movement_how :: db_id

record emit_params =
  emit_source :: db_id
  emit_target :: db_id
  emit_my_id :: db_id

record connection_params =
  connection_type :: connection_subscription
  connection_entity_ids :: "db_id list"
  connection_site_ids :: "u32 list"
  connection_sources :: "string list"

record entity_params =
  entity_actions :: "entity_action list"
  entity_ids :: "db_id list"
  entity_ids_owners :: bool
  entity_site_id :: u32
  entity_types :: "entity_type list"
  entity_fields :: "entity_field set"
  entity_flags_added :: "string set"
  entity_flags_removed :: "string set"
  entity_field_ids_added :: "db_id list"
  entity_field_ids_removed :: "db_id list"

record process_params =
  sub_process_id :: u32
  sub_executable_id :: db_id
  sub_process_type :: process_type_subscription
  sub_owner_id :: db_id
  sub_process_name :: string
  sub_process_states :: "process_state set"

datatype subscription_params =
    MovementParams movement_params | EmitParams emit_params | ConnectionParams connection_params
  | EntityChangedParams entity_params | ProcessExecutionParams process_params | SiteParams

fun get_type :: "subscription_params \<Rightarrow> subscription_type" where
  "get_type (MovementParams s) = SUBSCRIPTION_MOVEMENT"
| "get_type (EmitParams s) = SUBSCRIPTION_EMIT"
| "get_type (ConnectionParams s) = SUBSCRIPTION_CONNECTION"
| "get_type (EntityChangedParams s) = SUBSCRIPTION_ENTITY_CHANGED"
| "get_type (ProcessExecutionParams s) = SUBSCRIPTION_PROCESS_EXECUTION"
| "get_type SiteParams = SUBSCRIPTION_SITE"

subsection \<open>Making parameters\<close>

definition movement_params_new :: movement_params where
  "movement_params_new =
     \<lparr>movement_who = [], movement_from = [], movement_to = [], movement_site = 0,
      movement_type = MOVEMENT_TYPE_ALL, movement_how = default_id\<rparr>"

definition entity_params_new :: entity_params where
  "entity_params_new =
     \<lparr>entity_actions = [], entity_ids = [], entity_ids_owners = False, entity_site_id = 0,
      entity_types = [], entity_fields = {}, entity_flags_added = {}, entity_flags_removed = {},
      entity_field_ids_added = [], entity_field_ids_removed = []\<rparr>"

definition process_params_new :: process_params where
  "process_params_new =
     \<lparr>sub_process_id = 0, sub_executable_id = default_id,
      sub_process_type = PROCESS_SUB_NATIVE_AND_INTERPRETED, sub_owner_id = default_id,
      sub_process_name = [], sub_process_states = {}\<rparr>"

text \<open>Actions and types are kept in the order of their enumerators, without repetition.\<close>

fun entity_action_index :: "entity_action \<Rightarrow> nat" where
  "entity_action_index ENTITY_CREATED = 0"
| "entity_action_index ENTITY_UPDATED = 1"
| "entity_action_index ENTITY_DELETED = 2"

definition sort_unique :: "('a \<Rightarrow> nat) \<Rightarrow> 'a list \<Rightarrow> 'a list" where
  "sort_unique index xs = remdups_adj (sort_key index xs)"

definition entity_params_full ::
    "(entity_type \<Rightarrow> nat) \<Rightarrow> entity_action list \<Rightarrow> db_id list \<Rightarrow> bool \<Rightarrow> u32 \<Rightarrow> entity_type list
     \<Rightarrow> entity_field set \<Rightarrow> string set \<Rightarrow> string set \<Rightarrow> db_id list \<Rightarrow> db_id list \<Rightarrow> entity_params" where
  "entity_params_full type_index actions entities owners site types field_set flags_added
     flags_removed ids_added ids_removed =
     \<lparr>entity_actions = sort_unique entity_action_index actions, entity_ids = entities,
      entity_ids_owners = owners, entity_site_id = site,
      entity_types = sort_unique type_index types, entity_fields = field_set,
      entity_flags_added = flags_added, entity_flags_removed = flags_removed,
      entity_field_ids_added = ids_added, entity_field_ids_removed = ids_removed\<rparr>"

definition add_entity_action :: "entity_action \<Rightarrow> entity_params \<Rightarrow> entity_params" where
  "add_entity_action action s =
     (if action \<notin> set (entity_actions s)
      then s\<lparr>entity_actions := sort_key entity_action_index (entity_actions s @ [action])\<rparr> else s)"

definition add_entity_type :: "(entity_type \<Rightarrow> nat) \<Rightarrow> entity_type \<Rightarrow> entity_params \<Rightarrow> entity_params" where
  "add_entity_type type_index t s =
     (if t \<notin> set (entity_types s)
      then s\<lparr>entity_types := sort_key type_index (entity_types s @ [t])\<rparr> else s)"

definition add_source :: "(string \<Rightarrow> string) \<Rightarrow> string \<Rightarrow> connection_params \<Rightarrow> connection_params" where
  "add_source to_lower source s =
     (let source_lower = to_lower source
      in if source_lower \<noteq> [] \<and> source_lower \<notin> set (connection_sources s)
         then s\<lparr>connection_sources := connection_sources s @ [source_lower]\<rparr> else s)"

definition connection_params_new ::
    "(string \<Rightarrow> string) \<Rightarrow> connection_subscription \<Rightarrow> db_id list \<Rightarrow> u32 list \<Rightarrow> string list
     \<Rightarrow> connection_params" where
  "connection_params_new to_lower type ids sites sources =
     fold (add_source to_lower) sources
       \<lparr>connection_type = type, connection_entity_ids = ids, connection_site_ids = sites,
        connection_sources = []\<rparr>"

definition add_process_state :: "process_state \<Rightarrow> process_params \<Rightarrow> process_params \<times> bool" where
  "add_process_state state s =
     (if state \<in> {PROCESS_STATE_CREATED, PROCESS_STATE_KILLED, PROCESS_STATE_COMPLETED}
      then (s\<lparr>sub_process_states := insert state (sub_process_states s)\<rparr>, True) else (s, False))"

definition set_executable_id ::
    "db_id \<Rightarrow> process_type_subscription \<Rightarrow> process_params \<Rightarrow> process_params" where
  "set_executable_id i type s = s\<lparr>sub_executable_id := i, sub_process_type := type\<rparr>"

subsection \<open>Validation and references\<close>

definition entity_params_validate :: "entity_params \<Rightarrow> bool" where
  "entity_params_validate s \<longleftrightarrow> (entity_ids s = [] \<and> entity_site_id s = 0)
     \<or> ((entity_ids s = []) \<noteq> (entity_site_id s = 0))"

definition connection_params_validate :: "connection_params \<Rightarrow> bool" where
  "connection_params_validate s \<longleftrightarrow> (connection_entity_ids s = [] \<and> connection_site_ids s = [])
     \<or> ((connection_entity_ids s = []) \<noteq> (connection_site_ids s = []))"

definition emit_params_validate :: "emit_params \<Rightarrow> bool" where
  "emit_params_validate s \<longleftrightarrow> \<not> is_default (emit_source s) \<or> \<not> is_default (emit_target s)"

definition movement_params_validate :: "movement_params \<Rightarrow> bool" where
  "movement_params_validate s \<longleftrightarrow>
     (if movement_site s \<noteq> 0
      then movement_who s = [] \<and> movement_from s = [] \<and> movement_to s = [] else True)"

definition is_entity_default :: "db_id \<Rightarrow> bool" where
  "is_entity_default i \<longleftrightarrow> get_entity_id i = 0"

definition process_params_validate :: "process_params \<Rightarrow> bool" where
  "process_params_validate s \<longleftrightarrow>
     (let valid = (if sub_process_type s \<noteq> PROCESS_SUB_INTERPRETED_ONLY
                   then is_default (sub_executable_id s) else True);
          valid = (if is_site_default (sub_executable_id s)
                   then valid \<and> is_entity_default (sub_executable_id s) else valid)
      in if is_site_default (sub_owner_id s)
         then valid \<and> is_entity_default (sub_owner_id s) else valid)"

fun validate :: "subscription_params \<Rightarrow> bool" where
  "validate (MovementParams s) = movement_params_validate s"
| "validate (EmitParams s) = emit_params_validate s"
| "validate (ConnectionParams s) = connection_params_validate s"
| "validate (EntityChangedParams s) = entity_params_validate s"
| "validate (ProcessExecutionParams s) = process_params_validate s"
| "validate SiteParams = True"

definition has_site_id :: "u32 \<Rightarrow> db_id list \<Rightarrow> bool" where
  "has_site_id site ids \<longleftrightarrow> (\<exists>i \<in> set ids. get_site_id i = site)"

fun references_id :: "db_id \<Rightarrow> subscription_params \<Rightarrow> bool" where
  "references_id i (MovementParams s) = (i \<in> set (movement_who s) \<or> i \<in> set (movement_from s)
     \<or> i \<in> set (movement_to s) \<or> i = movement_how s)"
| "references_id i (EmitParams s) = (emit_source s = i \<or> emit_target s = i \<or> emit_my_id s = i)"
| "references_id i (ConnectionParams s) = (i \<in> set (connection_entity_ids s))"
| "references_id i (EntityChangedParams s) = (i \<in> set (entity_ids s)
     \<or> i \<in> set (entity_field_ids_added s) \<or> i \<in> set (entity_field_ids_removed s))"
| "references_id i (ProcessExecutionParams s) = (sub_executable_id s = i \<or> sub_owner_id s = i)"
| "references_id i SiteParams = False"

fun references_site :: "u32 \<Rightarrow> subscription_params \<Rightarrow> bool" where
  "references_site site (MovementParams s) = (movement_site s = site
     \<or> has_site_id site (movement_who s) \<or> has_site_id site (movement_from s)
     \<or> has_site_id site (movement_to s) \<or> get_site_id (movement_how s) = site)"
| "references_site site (EmitParams s) = (get_site_id (emit_source s) = site
     \<or> get_site_id (emit_target s) = site \<or> get_site_id (emit_my_id s) = site)"
| "references_site site (ConnectionParams s) = (has_site_id site (connection_entity_ids s)
     \<or> site \<in> set (connection_site_ids s))"
| "references_site site (EntityChangedParams s) = (site = entity_site_id s
     \<or> has_site_id site (entity_ids s) \<or> has_site_id site (entity_field_ids_added s)
     \<or> has_site_id site (entity_field_ids_removed s))"
| "references_site site (ProcessExecutionParams s) = (get_site_id (sub_executable_id s) = site
     \<or> get_site_id (sub_owner_id s) = site)"
| "references_site site SiteParams = False"

subsection \<open>Matching\<close>

definition movement_is_match :: "movement_params \<Rightarrow> movement_event \<Rightarrow> bool" where
  "movement_is_match s e =
     (let match = (if movement_type s \<noteq> MOVEMENT_TYPE_ALL
            then if moved_via_program e then movement_type s = MOVEMENT_TYPE_PROGRAM
                 else movement_type s = MOVEMENT_TYPE_EXIT
            else True);
          match = (if match
            then if movement_site s \<noteq> 0
                 then get_site_id (moved_who e) = movement_site s
                   \<or> get_site_id (moved_from e) = movement_site s
                   \<or> get_site_id (moved_to e) = movement_site s
                 else
                   let match = (if movement_who s \<noteq> []
                          then moved_who e \<in> set (movement_who s) else True);
                       match = (if match \<and> movement_from s \<noteq> []
                          then moved_from e \<in> set (movement_from s) else match)
                   in if match \<and> movement_to s \<noteq> []
                      then moved_to e \<in> set (movement_to s) else match
            else match)
      in if match \<and> \<not> is_default (movement_how s) then movement_how s = moved_how e else match)"

definition emit_is_match :: "emit_params \<Rightarrow> emit_event \<Rightarrow> bool" where
  "emit_is_match s e =
     (let match = (if \<not> is_default (emit_source s) then emit_source s = emitted_source e else True);
          match = (if match \<and> \<not> is_default (emit_target s)
            then emit_target s = emitted_target e else match)
      in if match \<and> \<not> is_default (emit_my_id s) \<and> \<not> is_default (emitted_exclude e)
         then emit_my_id s \<noteq> emitted_exclude e else match)"

text \<open>Whether a text is part of another.\<close>

fun starts_with :: "'a list \<Rightarrow> 'a list \<Rightarrow> bool" where
  "starts_with [] t = True"
| "starts_with (x # xs) [] = False"
| "starts_with (x # xs) (y # ys) = (x = y \<and> starts_with xs ys)"

fun text_contains :: "'a list \<Rightarrow> 'a list \<Rightarrow> bool" where
  "text_contains part [] = (part = [])"
| "text_contains part (x # xs) = (starts_with part (x # xs) \<or> text_contains part xs)"

definition connection_is_match :: "connection_params \<Rightarrow> connection_event \<Rightarrow> bool" where
  "connection_is_match s e =
     (let match = (if connection_type s \<noteq> CONNECTION_TYPE_ALL
            then case connected_action e of
                   ACTION_CONNECTED \<Rightarrow> connection_type s = CONNECTION_TYPE_CONNECT
                 | ACTION_DISCONNECTED \<Rightarrow> connection_type s = CONNECTION_TYPE_DISCONNECT
            else True);
          match = (if match
            then if connection_entity_ids s \<noteq> [] then connected_id e \<in> set (connection_entity_ids s)
                 else if connection_site_ids s \<noteq> []
                 then get_site_id (connected_id e) \<in> set (connection_site_ids s)
                 else match
            else match)
      in if match \<and> connection_sources s \<noteq> []
         then (if \<exists>source \<in> set (connection_sources s). text_contains source (connected_source e)
               then match else False)
         else match)"

definition process_type_subscription_match :: "bool \<Rightarrow> process_type_subscription \<Rightarrow> bool" where
  "process_type_subscription_match native_process sub =
     (if sub = PROCESS_SUB_NATIVE_AND_INTERPRETED then True
      else if native_process then sub = PROCESS_SUB_NATIVE_ONLY
      else sub = PROCESS_SUB_INTERPRETED_ONLY)"

definition process_is_match :: "process_params \<Rightarrow> process_execution_event \<Rightarrow> bool" where
  "process_is_match s e =
     (let match = process_type_subscription_match (executed_native e) (sub_process_type s);
          match = (if match \<and> sub_process_id s \<noteq> 0 then executed_pid e = sub_process_id s else match);
          match = (if match \<and> \<not> is_default (sub_executable_id s)
            then if is_entity_default (sub_executable_id s)
                 then get_site_id (executed_id e) = get_site_id (sub_executable_id s)
                 else executed_id e = sub_executable_id s
            else match);
          match = (if match \<and> \<not> is_default (sub_owner_id s)
            then if is_entity_default (sub_owner_id s)
                 then get_site_id (executed_owner e) = get_site_id (sub_owner_id s)
                 else executed_owner e = sub_owner_id s
            else match);
          match = (if match \<and> sub_process_name s \<noteq> []
            then executed_name e = sub_process_name s else match)
      in if match \<and> sub_process_states s \<noteq> {}
         then executed_state e \<in> sub_process_states s else match)"

text \<open>The shorter of the two sets of fields is the one walked.\<close>

definition fields_match :: "entity_field set \<Rightarrow> entity_field set \<Rightarrow> bool" where
  "fields_match wanted changed =
     (if card wanted \<le> card changed then \<exists>f \<in> wanted. f \<in> changed else \<exists>f \<in> changed. f \<in> wanted)"

definition entity_is_match :: "entity_params \<Rightarrow> entity_changed_event \<Rightarrow> bool" where
  "entity_is_match s e =
     (let match = (if entity_actions s \<noteq> [] then changed_action e \<in> set (entity_actions s) else True);
          match = (if match
            then if entity_ids s \<noteq> []
                 then if entity_ids_owners s then changed_owner e \<in> set (entity_ids s)
                      else changed_id e \<in> set (entity_ids s)
                 else if entity_site_id s \<noteq> 0 then entity_site_id s = get_site_id (changed_id e)
                 else match
            else match);
          match = (if match \<and> entity_types s \<noteq> [] then changed_type e \<in> set (entity_types s) else match);
          match = (if match \<and> entity_fields s \<noteq> {}
            then fields_match (entity_fields s) (changed_fields e) else match);
          match = (if match \<and> entity_flags_added s \<noteq> {}
            then \<exists>f \<in> snd (changed_flags e). f \<in> entity_flags_added s else match);
          match = (if match \<and> entity_flags_removed s \<noteq> {}
            then \<exists>f \<in> fst (changed_flags e). f \<in> entity_flags_removed s else match);
          match = (if match \<and> entity_field_ids_added s \<noteq> []
            then \<exists>i \<in> \<Union> (snd ` ran (changed_id_fields e)). i \<in> set (entity_field_ids_added s)
            else match)
      in if match \<and> entity_field_ids_removed s \<noteq> []
         then \<exists>i \<in> \<Union> (fst ` ran (changed_id_fields e)). i \<in> set (entity_field_ids_removed s)
         else match)"

text \<open>A subscription of one class never meets an event of another.\<close>

fun is_match :: "subscription_params \<Rightarrow> event \<Rightarrow> bool" where
  "is_match (MovementParams s) (MovementEvent e) = movement_is_match s e"
| "is_match (EmitParams s) (EmitEvent e) = emit_is_match s e"
| "is_match (ConnectionParams s) (ConnectionEvent e) = connection_is_match s e"
| "is_match (EntityChangedParams s) (EntityChangedEvent e) = entity_is_match s e"
| "is_match (ProcessExecutionParams s) (ProcessExecutionEvent e) = process_is_match s e"
| "is_match SiteParams (SiteEvent e) = True"
| "is_match s e = False"

subsection \<open>What matching means\<close>

text \<open>The tests are chained by \<open>match\<close>: each is made only while the ones before held.\<close>

lemma match_steps:
  "(if m then x else m) = (m \<and> x)" "(if m then x else False) = (m \<and> x)" "(if m then m else False) = m"
  "(if m \<and> g then x else m) = (m \<and> (g \<longrightarrow> x))"
  "(if g then x else True) = (g \<longrightarrow> x)"
  "(if g then x else if h then y else m) = ((g \<longrightarrow> x) \<and> (\<not> g \<longrightarrow> (h \<longrightarrow> y) \<and> (\<not> h \<longrightarrow> m)))"
  by auto

lemma match_disj:
  "(if m then if g then z else if h then y else m else m) = (m \<and> (\<not> g \<or> z) \<and> (g \<or> \<not> h \<or> y))"
  "(if m \<and> g then x else m) = (m \<and> (\<not> g \<or> x))"
  "(if g then x else True) = (\<not> g \<or> x)"
  by auto

lemma starts_with_iff: "starts_with xs t \<longleftrightarrow> (\<exists>t'. t = xs @ t')"
  by (induction xs t rule: starts_with.induct) auto

lemma text_contains_iff: "text_contains xs t \<longleftrightarrow> (\<exists>a b. t = a @ xs @ b)"
proof (induction t)
  case (Cons x t)
  have "(\<exists>a b. x # t = a @ xs @ b) \<longleftrightarrow> (\<exists>b. x # t = xs @ b) \<or> (\<exists>a b. t = a @ xs @ b)"
    by (metis append_Cons append_Nil append_eq_Cons_conv)
  then show ?case by (simp add: starts_with_iff Cons.IH)
qed simp

lemma fields_match_iff: "fields_match a b \<longleftrightarrow> a \<inter> b \<noteq> {}"
  by (auto simp: fields_match_def)

lemma entity_is_match_iff:
  "entity_is_match s e \<longleftrightarrow>
     (entity_actions s = [] \<or> changed_action e \<in> set (entity_actions s))
   \<and> (entity_ids s = [] \<or> (if entity_ids_owners s then changed_owner e \<in> set (entity_ids s)
        else changed_id e \<in> set (entity_ids s)))
   \<and> (entity_ids s \<noteq> [] \<or> entity_site_id s = 0 \<or> entity_site_id s = get_site_id (changed_id e))
   \<and> (entity_types s = [] \<or> changed_type e \<in> set (entity_types s))
   \<and> (entity_fields s = {} \<or> entity_fields s \<inter> changed_fields e \<noteq> {})
   \<and> (entity_flags_added s = {} \<or> entity_flags_added s \<inter> snd (changed_flags e) \<noteq> {})
   \<and> (entity_flags_removed s = {} \<or> entity_flags_removed s \<inter> fst (changed_flags e) \<noteq> {})
   \<and> (entity_field_ids_added s = []
      \<or> (\<exists>f r a. changed_id_fields e f = Some (r, a) \<and> a \<inter> set (entity_field_ids_added s) \<noteq> {}))
   \<and> (entity_field_ids_removed s = []
      \<or> (\<exists>f r a. changed_id_fields e f = Some (r, a) \<and> r \<inter> set (entity_field_ids_removed s) \<noteq> {}))"
proof -
  have u: "(\<exists>i \<in> \<Union> (g ` ran m). i \<in> X) \<longleftrightarrow> (\<exists>f p. m f = Some p \<and> g p \<inter> X \<noteq> {})" for g m X
    by (auto simp: ran_def)
  have a: "(\<exists>f p. m f = Some p \<and> P (fst p) (snd p)) \<longleftrightarrow> (\<exists>f r a. m f = Some (r, a) \<and> P r a)" for m P
    by auto
  have x: "(\<exists>f \<in> A. f \<in> B) \<longleftrightarrow> B \<inter> A \<noteq> {}" for A B :: "string set" by auto
  show ?thesis unfolding entity_is_match_def Let_def
    by (simp only: match_disj fields_match_iff u x not_not
        a [of _ "\<lambda>r a. a \<inter> set (entity_field_ids_added s) \<noteq> {}"]
        a [of _ "\<lambda>r a. r \<inter> set (entity_field_ids_removed s) \<noteq> {}"], simp only: conj_assoc)
qed

lemma connection_is_match_iff:
  "connection_is_match s e \<longleftrightarrow>
     (case connection_type s of CONNECTION_TYPE_ALL \<Rightarrow> True
      | CONNECTION_TYPE_CONNECT \<Rightarrow> connected_action e = ACTION_CONNECTED
      | CONNECTION_TYPE_DISCONNECT \<Rightarrow> connected_action e = ACTION_DISCONNECTED)
   \<and> (connection_entity_ids s = [] \<or> connected_id e \<in> set (connection_entity_ids s))
   \<and> (connection_entity_ids s \<noteq> [] \<or> connection_site_ids s = []
      \<or> get_site_id (connected_id e) \<in> set (connection_site_ids s))
   \<and> (connection_sources s = []
      \<or> (\<exists>source \<in> set (connection_sources s). \<exists>a b. connected_source e = a @ source @ b))"
  unfolding connection_is_match_def Let_def
  by (simp only: match_steps text_contains_iff)
    (cases "connection_type s"; cases "connected_action e"; auto)

lemma process_is_match_iff:
  "process_is_match s e \<longleftrightarrow>
     process_type_subscription_match (executed_native e) (sub_process_type s)
   \<and> (sub_process_id s = 0 \<or> executed_pid e = sub_process_id s)
   \<and> (sub_executable_id s = default_id
      \<or> (if is_entity_default (sub_executable_id s)
         then get_site_id (executed_id e) = get_site_id (sub_executable_id s)
         else executed_id e = sub_executable_id s))
   \<and> (sub_owner_id s = default_id
      \<or> (if is_entity_default (sub_owner_id s)
         then get_site_id (executed_owner e) = get_site_id (sub_owner_id s)
         else executed_owner e = sub_owner_id s))
   \<and> (sub_process_name s = [] \<or> executed_name e = sub_process_name s)
   \<and> (sub_process_states s = {} \<or> executed_state e \<in> sub_process_states s)"
  unfolding process_is_match_def Let_def by (simp only: match_steps) auto

lemma movement_is_match_iff:
  "movement_is_match s e \<longleftrightarrow>
     (movement_type s = MOVEMENT_TYPE_ALL
      \<or> movement_type s = (if moved_via_program e then MOVEMENT_TYPE_PROGRAM else MOVEMENT_TYPE_EXIT))
   \<and> (if movement_site s \<noteq> 0
      then movement_site s \<in> {get_site_id (moved_who e), get_site_id (moved_from e), get_site_id (moved_to e)}
      else (movement_who s = [] \<or> moved_who e \<in> set (movement_who s))
        \<and> (movement_from s = [] \<or> moved_from e \<in> set (movement_from s))
        \<and> (movement_to s = [] \<or> moved_to e \<in> set (movement_to s)))
   \<and> (movement_how s = default_id \<or> movement_how s = moved_how e)"
  unfolding movement_is_match_def Let_def by (simp only: match_steps) auto

lemma emit_is_match_iff:
  "emit_is_match s e \<longleftrightarrow>
     (emit_source s = default_id \<or> emit_source s = emitted_source e)
   \<and> (emit_target s = default_id \<or> emit_target s = emitted_target e)
   \<and> (emit_my_id s = default_id \<or> emitted_exclude e = default_id \<or> emit_my_id s \<noteq> emitted_exclude e)"
  unfolding emit_is_match_def Let_def by (simp only: match_steps) auto

end
