(* ===== verification/EventIndex.thy ===== *)
theory EventIndex
  imports SubParams
begin

text \<open>
  The tables in which the processors of events keep their subscriptions: the template
  \<open>SubscriptionProcessorSupport\<close>
  (\<^verbatim>\<open>src/src/events/events_SubscriptionProcessorSupport.h\<close>) and the tracker
  \<open>SubscriptionsSatisfied\<close>. An entry is a pair of pointers, to the parameters and to the
  callback of one subscription; they are made and deleted together, and one address stands for
  both.

  A processor has up to six tables; one record has them all. A place in the tables where a
  subscription may be is an \<open>index_key\<close>; what the operations do to the list at each place is
  the locale \<open>keyed_lists\<close>.
\<close>

type_synonym entity_subs = "(u32 \<times> (db_id \<times> ptr list) list) list"
type_synonym site_subs = "(u32 \<times> ptr list) list"

subsection \<open>Lists\<close>

definition delete_subscription_from_list :: "ptr \<Rightarrow> ptr list \<Rightarrow> ptr list \<times> bool" where
  "delete_subscription_from_list p xs =
     (let position = index_of p xs; size = length xs
      in if p \<in> set xs
         then if position + 1 = size then (butlast xs, True)
              else (butlast (xs[position := xs ! (size - 1)]), True)
         else (xs, False))"

definition insert_callback :: "ptr \<Rightarrow> ptr list \<Rightarrow> ptr list" where
  "insert_callback p ps = (if p \<in> set ps then ps else insort p ps)"

subsection \<open>Maps of sites and entities\<close>

definition get_site_subscriptions :: "u32 \<Rightarrow> site_subs \<Rightarrow> ptr list" where
  "get_site_subscriptions site m = (case map_of m site of None \<Rightarrow> [] | Some subs \<Rightarrow> subs)"

definition get_entity_subscriptions :: "db_id \<Rightarrow> entity_subs \<Rightarrow> ptr list" where
  "get_entity_subscriptions i m =
     (case map_of m (get_site_id i) of None \<Rightarrow> []
      | Some m' \<Rightarrow> case map_of m' i of None \<Rightarrow> [] | Some subs \<Rightarrow> subs)"

definition add_subscription_to_site :: "ptr \<Rightarrow> u32 \<Rightarrow> site_subs \<Rightarrow> site_subs" where
  "add_subscription_to_site p site m = map_put site (get_site_subscriptions site m @ [p]) m"

definition add_subscription_to_entity :: "ptr \<Rightarrow> db_id \<Rightarrow> entity_subs \<Rightarrow> entity_subs" where
  "add_subscription_to_entity p i m =
     map_put (get_site_id i)
       (map_put i (get_entity_subscriptions i m @ [p])
         (case map_of m (get_site_id i) of None \<Rightarrow> [] | Some m' \<Rightarrow> m')) m"

definition add_subscription_to_list :: "ptr \<Rightarrow> ptr list \<Rightarrow> ptr list" where
  "add_subscription_to_list p xs = xs @ [p]"

definition remove_site_subscription :: "u32 \<Rightarrow> ptr \<Rightarrow> site_subs \<Rightarrow> site_subs \<times> bool" where
  "remove_site_subscription site p m =
     (let subs = get_site_subscriptions site m
      in if subs \<noteq> [] then
           case delete_subscription_from_list p subs of (subs, found) \<Rightarrow>
             (if subs = [] then map_erase site m else map_put site subs m, found)
         else (m, False))"

definition remove_entity_subscription :: "db_id \<Rightarrow> ptr \<Rightarrow> entity_subs \<Rightarrow> entity_subs \<times> bool" where
  "remove_entity_subscription i p m =
     (case map_of m (get_site_id i) of None \<Rightarrow> (m, False)
      | Some m' \<Rightarrow> case map_of m' i of None \<Rightarrow> (m, False)
        | Some subs \<Rightarrow> case delete_subscription_from_list p subs of (subs, found) \<Rightarrow>
            (if subs = [] then
               let m' = map_erase i m'
               in if m' = [] then map_erase (get_site_id i) m else map_put (get_site_id i) m' m
             else map_put (get_site_id i) (map_put i subs m') m, found))"

text \<open>
  These take the set of callbacks by value: what they collect is lost, the caller's set, which
  is the value here, stays as it was.
\<close>

definition get_all_callbacks :: "ptr list \<Rightarrow> ptr list \<Rightarrow> ptr list" where
  "get_all_callbacks subs cbs =
     (let copied = fold insert_callback subs cbs in cbs)"

definition get_all_site_callbacks_entities :: "entity_subs \<Rightarrow> u32 \<Rightarrow> ptr list \<Rightarrow> ptr list" where
  "get_all_site_callbacks_entities m site cbs =
     (let copied = (case map_of m site of None \<Rightarrow> cbs
        | Some m' \<Rightarrow> fold (\<lambda>e c. get_all_callbacks (snd e) c) m' cbs)
      in cbs)"

definition get_all_site_callbacks_sites :: "site_subs \<Rightarrow> u32 \<Rightarrow> ptr list \<Rightarrow> ptr list" where
  "get_all_site_callbacks_sites m site cbs =
     (let copied = (case map_of m site of None \<Rightarrow> cbs
        | Some subs \<Rightarrow> get_all_callbacks subs cbs)
      in cbs)"

subsection \<open>The tables of a processor\<close>

datatype entity_table = ENTITY | OWNER | SOURCE | TARGET | WHO | FROM | TO | HOW

record sub_tables =
  entity_tables :: "entity_table \<Rightarrow> entity_subs"
  site_subscriptions :: site_subs
  all_subscriptions :: "ptr list"
  pid_tables :: site_subs

definition no_subscriptions :: sub_tables where
  "no_subscriptions = \<lparr>entity_tables = (\<lambda>t. []), site_subscriptions = [], all_subscriptions = [],
     pid_tables = []\<rparr>"

datatype index_key = EntityKey entity_table db_id | SiteKey u32 | AllKey | PidKey u32

fun subs_at :: "index_key \<Rightarrow> sub_tables \<Rightarrow> ptr list" where
  "subs_at (EntityKey t i) T = get_entity_subscriptions i (entity_tables T t)"
| "subs_at (SiteKey site) T = get_site_subscriptions site (site_subscriptions T)"
| "subs_at AllKey T = all_subscriptions T"
| "subs_at (PidKey pid) T = get_site_subscriptions pid (pid_tables T)"

fun add_at :: "ptr \<Rightarrow> index_key \<Rightarrow> sub_tables \<Rightarrow> sub_tables" where
  "add_at p (EntityKey t i) T = T\<lparr>entity_tables := (entity_tables T)
     (t := add_subscription_to_entity p i (entity_tables T t))\<rparr>"
| "add_at p (SiteKey site) T =
     T\<lparr>site_subscriptions := add_subscription_to_site p site (site_subscriptions T)\<rparr>"
| "add_at p AllKey T = T\<lparr>all_subscriptions := add_subscription_to_list p (all_subscriptions T)\<rparr>"
| "add_at p (PidKey pid) T = T\<lparr>pid_tables := add_subscription_to_site p pid (pid_tables T)\<rparr>"

fun remove_at :: "ptr \<Rightarrow> index_key \<Rightarrow> sub_tables \<Rightarrow> sub_tables" where
  "remove_at p (EntityKey t i) T = T\<lparr>entity_tables := (entity_tables T)
     (t := fst (remove_entity_subscription i p (entity_tables T t)))\<rparr>"
| "remove_at p (SiteKey site) T =
     T\<lparr>site_subscriptions := fst (remove_site_subscription site p (site_subscriptions T))\<rparr>"
| "remove_at p AllKey T =
     T\<lparr>all_subscriptions := fst (delete_subscription_from_list p (all_subscriptions T))\<rparr>"
| "remove_at p (PidKey pid) T =
     T\<lparr>pid_tables := fst (remove_site_subscription pid p (pid_tables T))\<rparr>"

subsection \<open>Evaluation\<close>

text \<open>
  The tracker: the subscriptions looked at, and those satisfied in the order they were found. To
  look at one that was deleted has no result.
\<close>

record tracker =
  processed :: "ptr set"
  satisfied :: "ptr list"

definition tracker_new :: tracker where
  "tracker_new = \<lparr>processed = {}, satisfied = []\<rparr>"

definition evaluate_subscription ::
    "(ptr \<Rightarrow> bool option) \<Rightarrow> ptr \<Rightarrow> tracker \<Rightarrow> tracker option" where
  "evaluate_subscription matches p tr =
     (if p \<notin> processed tr then
        map_option (\<lambda>m. tr\<lparr>processed := insert p (processed tr),
            satisfied := (if m then satisfied tr @ [p] else satisfied tr)\<rparr>) (matches p)
      else Some tr)"

fun evaluate_subscriptions ::
    "(ptr \<Rightarrow> bool option) \<Rightarrow> ptr list \<Rightarrow> tracker \<Rightarrow> tracker option" where
  "evaluate_subscriptions matches [] tr = Some tr"
| "evaluate_subscriptions matches (p # ps) tr =
     Option.bind (evaluate_subscription matches p tr) (evaluate_subscriptions matches ps)"

fun evaluate_lists :: "(ptr \<Rightarrow> bool option) \<Rightarrow> ptr list list \<Rightarrow> tracker \<Rightarrow> tracker option" where
  "evaluate_lists matches [] tr = Some tr"
| "evaluate_lists matches (l # ls) tr =
     Option.bind (evaluate_subscriptions matches l tr) (evaluate_lists matches ls)"

subsection \<open>Lists at places\<close>

lemma deleted_swap_remove:
  "fst (delete_subscription_from_list p xs) = (if p \<in> set xs then swap_remove p xs else xs)"
proof (cases "p \<in> set xs")
  case True
  then obtain ys z where xs: "xs = ys @ [z]" by (cases xs rule: rev_cases) auto
  have last: "xs ! (length xs - 1) = z" using xs by simp
  show ?thesis
  proof (cases "index_of p xs + 1 = length xs")
    case True
    then have "xs ! index_of p xs = z" using xs by simp
    then have "p = z" using nth_index_of [OF \<open>p \<in> set xs\<close>] by simp
    then show ?thesis using True xs by (simp add: delete_subscription_from_list_def Let_def swap_remove_def)
  next
    case False
    then have "length xs \<noteq> 1" using \<open>p \<in> set xs\<close> index_of_less [OF \<open>p \<in> set xs\<close>] by simp
    moreover have "butlast (xs[index_of p xs := z]) = butlast xs" if "p = z"
      using nth_index_of [OF \<open>p \<in> set xs\<close>] that list_update_id [of xs "index_of p xs"] by simp
    ultimately show ?thesis using False \<open>p \<in> set xs\<close> last xs
      by (auto simp: delete_subscription_from_list_def Let_def swap_remove_def)
  qed
qed (simp add: delete_subscription_from_list_def Let_def)

lemma count_deleted:
  "count_list (fst (delete_subscription_from_list p xs)) q = count_list xs q - (if q = p then 1 else 0)"
proof (cases "p \<in> set xs")
  case True
  have "count (mset (swap_remove p xs)) q = count (mset xs - {#p#}) q"
    by (simp add: mset_swap_remove [OF True])
  then show ?thesis using True by (simp add: deleted_swap_remove count_mset)
next
  case False
  then have "count_list xs p = 0" by (simp add: count_list_0_iff)
  with False show ?thesis by (simp add: deleted_swap_remove)
qed

locale keyed_lists =
  fixes at :: "'k \<Rightarrow> 's \<Rightarrow> ptr list"
    and add :: "ptr \<Rightarrow> 'k \<Rightarrow> 's \<Rightarrow> 's"
    and remove :: "ptr \<Rightarrow> 'k \<Rightarrow> 's \<Rightarrow> 's"
    and good :: "'s \<Rightarrow> bool"
  assumes at_add: "good T \<Longrightarrow> at k' (add p k T) = (if k' = k then at k T @ [p] else at k' T)"
    and at_remove: "good T \<Longrightarrow>
      at k' (remove p k T) = (if k' = k then fst (delete_subscription_from_list p (at k T)) else at k' T)"
    and good_add: "good T \<Longrightarrow> good (add p k T)"
    and good_remove: "good T \<Longrightarrow> good (remove p k T)"
begin

lemma added:
  "good T \<Longrightarrow> good (fold (add p) ks T)
    \<and> (\<forall>k q. count_list (at k (fold (add p) ks T)) q
         = count_list (at k T) q + (if q = p then count_list ks k else 0))"
  by (induction ks arbitrary: T) (auto simp: at_add good_add)

lemma removed:
  "good T \<Longrightarrow> good (fold (remove p) ks T)
    \<and> (\<forall>k q. count_list (at k (fold (remove p) ks T)) q
         = count_list (at k T) q - (if q = p then count_list ks k else 0))"
  by (induction ks arbitrary: T) (auto simp: at_remove good_remove count_deleted)

end

definition index_ok :: "sub_tables \<Rightarrow> bool" where
  "index_ok T \<longleftrightarrow> map_sorted (site_subscriptions T) \<and> map_sorted (pid_tables T)
     \<and> (\<forall>t. map_sorted (entity_tables T t) \<and> (\<forall>site m. map_of (entity_tables T t) site = Some m \<longrightarrow> map_sorted m))"

definition entity_subs_ok :: "entity_subs \<Rightarrow> bool" where
  "entity_subs_ok m \<longleftrightarrow> map_sorted m \<and> (\<forall>site m'. map_of m site = Some m' \<longrightarrow> map_sorted m')"

lemma index_ok_alt:
  "index_ok T \<longleftrightarrow> map_sorted (site_subscriptions T) \<and> map_sorted (pid_tables T) \<and> (\<forall>t. entity_subs_ok (entity_tables T t))"
  by (simp add: index_ok_def entity_subs_ok_def)

lemma site_added:
  "map_sorted m \<Longrightarrow> get_site_subscriptions s' (add_subscription_to_site p s m)
     = (if s' = s then get_site_subscriptions s m @ [p] else get_site_subscriptions s' m)"
  by (simp add: get_site_subscriptions_def [of s'] add_subscription_to_site_def map_of_put)

lemma site_removed:
  assumes "map_sorted m"
  shows "get_site_subscriptions s' (fst (remove_site_subscription s p m))
     = (if s' = s then fst (delete_subscription_from_list p (get_site_subscriptions s m))
        else get_site_subscriptions s' m)"
    and "map_sorted (fst (remove_site_subscription s p m))"
  using assms
  by (auto simp: remove_site_subscription_def Let_def get_site_subscriptions_def map_of_put map_of_erase
      map_sorted_put map_sorted_erase delete_subscription_from_list_def split: option.splits)

lemma entity_added:
  assumes "entity_subs_ok m"
  shows "get_entity_subscriptions j (add_subscription_to_entity p i m)
     = (if j = i then get_entity_subscriptions i m @ [p] else get_entity_subscriptions j m)"
    and "entity_subs_ok (add_subscription_to_entity p i m)"
proof -
  have inner: "map_sorted (case map_of m (get_site_id i) of None \<Rightarrow> [] | Some m' \<Rightarrow> m')"
    using assms by (auto simp: entity_subs_ok_def split: option.split)
  show "get_entity_subscriptions j (add_subscription_to_entity p i m)
     = (if j = i then get_entity_subscriptions i m @ [p] else get_entity_subscriptions j m)"
    using assms map_of_put [OF inner]
    by (auto simp: get_entity_subscriptions_def [of j] add_subscription_to_entity_def map_of_put
        entity_subs_ok_def split: option.split)
  show "entity_subs_ok (add_subscription_to_entity p i m)"
    using assms inner by (auto simp: add_subscription_to_entity_def entity_subs_ok_def map_of_put
        map_sorted_put split: if_splits)
qed

lemma entity_removed:
  assumes ok: "entity_subs_ok m"
  shows "get_entity_subscriptions j (fst (remove_entity_subscription i p m))
     = (if j = i then fst (delete_subscription_from_list p (get_entity_subscriptions i m))
        else get_entity_subscriptions j m)
    \<and> entity_subs_ok (fst (remove_entity_subscription i p m))"
proof (cases "map_of m (get_site_id i)")
  case None
  then show ?thesis using ok
    by (simp add: remove_entity_subscription_def get_entity_subscriptions_def delete_subscription_from_list_def)
next
  case (Some m')
  then have m': "map_sorted m'" "map_sorted m" using ok by (auto simp: entity_subs_ok_def)
  show ?thesis
  proof (cases "map_of m' i")
    case None
    with Some ok show ?thesis
      by (simp add: remove_entity_subscription_def get_entity_subscriptions_def delete_subscription_from_list_def)
  next
    case (Some subs)
    define left where "left = fst (delete_subscription_from_list p subs)"
    define m2 where "m2 = (if left = [] then map_erase i m' else map_put i left m')"
    have m2: "map_sorted m2" "map_of m2 k = (if k = i then if left = [] then None else Some left else map_of m' k)" for k
      using m' by (simp_all add: m2_def map_sorted_erase map_sorted_put map_of_erase map_of_put)
    have r: "fst (remove_entity_subscription i p m) =
        (if m2 = [] then map_erase (get_site_id i) m else map_put (get_site_id i) m2 m)"
      using \<open>map_of m (get_site_id i) = Some m'\<close> Some m2(2) [of i]
      by (auto simp: remove_entity_subscription_def left_def [symmetric] m2_def Let_def split: prod.split)
        (auto simp: left_def)
    have "map_of (fst (remove_entity_subscription i p m)) site =
        (if site = get_site_id i then if m2 = [] then None else Some m2 else map_of m site)" for site
      using m' by (simp add: r map_of_erase map_of_put)
    then have at: "get_entity_subscriptions j (fst (remove_entity_subscription i p m)) =
        (if get_site_id j = get_site_id i then (case map_of m2 j of None \<Rightarrow> [] | Some l \<Rightarrow> l)
         else get_entity_subscriptions j m)" for j
      by (auto simp: get_entity_subscriptions_def split: option.split)
    have "get_entity_subscriptions j (fst (remove_entity_subscription i p m))
        = (if j = i then left else get_entity_subscriptions j m)"
      using \<open>map_of m (get_site_id i) = Some m'\<close> unfolding at m2(2) by (auto simp: get_entity_subscriptions_def)
    moreover have "get_entity_subscriptions i m = subs"
      using Some \<open>map_of m (get_site_id i) = Some m'\<close> by (simp add: get_entity_subscriptions_def)
    moreover have "entity_subs_ok (fst (remove_entity_subscription i p m))"
      using ok m2(1) m' by (auto simp: entity_subs_ok_def r map_sorted_erase map_sorted_put map_of_erase
          map_of_put split: if_splits)
    ultimately show ?thesis by (simp add: left_def)
  qed
qed

interpretation sub_index: keyed_lists subs_at add_at remove_at index_ok
proof
  fix T :: sub_tables and k k' p
  assume ok: "index_ok T"
  show "subs_at k' (add_at p k T) = (if k' = k then subs_at k T @ [p] else subs_at k' T)"
    using ok by (cases k; cases k') (auto simp: index_ok_alt site_added entity_added(1) add_subscription_to_list_def)
  show "subs_at k' (remove_at p k T)
      = (if k' = k then fst (delete_subscription_from_list p (subs_at k T)) else subs_at k' T)"
    using ok by (cases k; cases k') (auto simp: index_ok_alt site_removed(1) entity_removed)
  show "index_ok (add_at p k T)"
    using ok by (cases k) (auto simp: index_ok_alt add_subscription_to_site_def map_sorted_put entity_added(2))
  show "index_ok (remove_at p k T)"
    using ok by (cases k) (auto simp: index_ok_alt site_removed(2) entity_removed)
qed

lemma index_ok_new: "index_ok no_subscriptions" "subs_at k no_subscriptions = []"
  by (simp_all add: index_ok_def no_subscriptions_def)
    (cases k; simp add: no_subscriptions_def get_entity_subscriptions_def get_site_subscriptions_def)

subsection \<open>Evaluation finds each match once\<close>

lemma evaluate_lists_concat: "evaluate_lists matches ls tr = evaluate_subscriptions matches (concat ls) tr"
proof (induction ls arbitrary: tr)
  case (Cons l ls)
  have "evaluate_subscriptions matches (l @ l') tr =
      Option.bind (evaluate_subscriptions matches l tr) (evaluate_subscriptions matches l')" for l l' tr
    by (induction l arbitrary: tr) (auto simp: Option.bind_assoc split: Option.bind_split)
  with Cons show ?case by (simp cong: Option.bind_cong)
qed simp

lemma evaluate_exact:
  assumes "\<forall>p \<in> set ps. matches p \<noteq> None"
  shows "\<exists>tr'. evaluate_subscriptions matches ps tr = Some tr'
    \<and> processed tr' = processed tr \<union> set ps
    \<and> (\<exists>new. satisfied tr' = satisfied tr @ new \<and> distinct new
         \<and> set new = {p \<in> set ps. p \<notin> processed tr \<and> matches p = Some True})"
  using assms
proof (induction ps arbitrary: tr)
  case (Cons p ps)
  then obtain m where m: "matches p = Some m" by auto
  show ?case
  proof (cases "p \<in> processed tr")
    case True
    obtain tr' new where tr': "evaluate_subscriptions matches ps tr = Some tr'"
      "processed tr' = processed tr \<union> set ps" "satisfied tr' = satisfied tr @ new" "distinct new"
      "set new = {p \<in> set ps. p \<notin> processed tr \<and> matches p = Some True}"
      using Cons.IH [of tr] Cons.prems by auto
    moreover have "{q \<in> set (p # ps). q \<notin> processed tr \<and> matches q = Some True} = set new"
      using tr'(5) True by auto
    ultimately show ?thesis using True
      by (intro exI [of _ tr'] conjI exI [of _ new]) (auto simp: evaluate_subscription_def)
  next
    case False
    define u where "u = tr\<lparr>processed := insert p (processed tr),
      satisfied := (if m then satisfied tr @ [p] else satisfied tr)\<rparr>"
    obtain tr' new where tr': "evaluate_subscriptions matches ps u = Some tr'"
      "processed tr' = processed u \<union> set ps" "satisfied tr' = satisfied u @ new" "distinct new"
      "set new = {p \<in> set ps. p \<notin> processed u \<and> matches p = Some True}"
      using Cons.IH [of u] Cons.prems by auto
    have "evaluate_subscription matches p tr = Some u" using False m by (simp add: evaluate_subscription_def u_def)
    with tr' have e: "evaluate_subscriptions matches (p # ps) tr = Some tr'" by simp
    have "satisfied tr' = satisfied tr @ (if m then p # new else new)" using tr'(3) by (simp add: u_def)
    moreover have "distinct (if m then p # new else new)" using tr'(4,5) by (simp add: u_def)
    moreover have "set (if m then p # new else new) =
        {q \<in> set (p # ps). q \<notin> processed tr \<and> matches q = Some True}"
    proof -
      have "processed u = insert p (processed tr)" by (simp add: u_def)
      then show ?thesis using m False by (cases m) (auto simp: tr'(5))
    qed
    moreover have "processed tr' = processed tr \<union> set (p # ps)" using tr'(2) by (auto simp: u_def)
    ultimately show ?thesis using e by blast
  qed
qed simp

end
