(* ===== verification/EventProc.thy ===== *)
theory EventProc
  imports EventIndex IdAlloc
begin

text \<open>
  Subscriptions and the delivery of events: \<open>SubscriptionData\<close>, \<open>SubscriptionCallback\<close>, the six
  processors, \<open>EventAccess\<close> and what the thread of \<open>EventQueueProcessor\<close> does with an event
  (\<^verbatim>\<open>src/src/events/\<close>).

  \<open>objects\<close> are the live subscriptions, parameters and callback, by their address. To use one that
  was deleted, or to go on after a search that does not end, has no result: the value is \<open>None\<close>.
  What was sent to processes and listeners is recorded, the answer of the executor is not
  modelled. Each method holds its processor's lock and is one step; subscribing, which takes the
  lock of the data first and that of the processor later, is also given as its two halves.
\<close>

subsection \<open>Callbacks\<close>

record sub_callback =
  cb_subscription_id :: u32
  cb_pid :: u32
  cb_listener :: "ptr option"

datatype receiver = ToProcess u32 | ToListener ptr

definition callback_for_pid :: "u32 \<Rightarrow> sub_callback" where
  "callback_for_pid pid = \<lparr>cb_subscription_id = 0, cb_pid = pid, cb_listener = None\<rparr>"

definition callback_for_listener :: "ptr option \<Rightarrow> sub_callback" where
  "callback_for_listener l = \<lparr>cb_subscription_id = 0, cb_pid = 0, cb_listener = l\<rparr>"

definition callback_valid :: "sub_callback \<Rightarrow> bool" where
  "callback_valid cb \<longleftrightarrow> cb_pid cb \<noteq> 0 \<or> cb_listener cb \<noteq> None"

subsection \<open>The data of subscriptions\<close>

record sub_details =
  details_pid :: u32
  details_type :: event_type
  details_object :: ptr

record events =
  subscription_data :: "(u32 \<times> sub_details) list"
  pid_subscriptions :: "(u32 \<times> u32 list) list"
  next_unique_subscription_id :: u32
  objects :: "ptr \<Rightarrow> (subscription_params \<times> sub_callback) option"
  processor_tables :: "event_type \<Rightarrow> sub_tables"
  delivered :: "(receiver \<times> u32 \<times> event) list"
  deletion_notices :: "(receiver \<times> u32) list"

definition max_subscription_id :: u32 where
  "max_subscription_id = - 1 - 1"

definition events_new :: events where
  "events_new =
     \<lparr>subscription_data = [], pid_subscriptions = [], next_unique_subscription_id = 1,
      objects = (\<lambda>p. None), processor_tables = (\<lambda>t. no_subscriptions), delivered = [],
      deletion_notices = []\<rparr>"

definition do_callback :: "event \<Rightarrow> sub_callback \<Rightarrow> events \<Rightarrow> events" where
  "do_callback e cb s =
     (if cb_subscription_id cb = 0 then s
      else if cb_pid cb \<noteq> 0
      then s\<lparr>delivered := delivered s @ [(ToProcess (cb_pid cb), cb_subscription_id cb, e)]\<rparr>
      else case cb_listener cb of
             Some l \<Rightarrow> s\<lparr>delivered := delivered s @ [(ToListener l, cb_subscription_id cb, e)]\<rparr>
           | None \<Rightarrow> s)"

definition do_delete_callback :: "sub_callback \<Rightarrow> events \<Rightarrow> events" where
  "do_delete_callback cb s =
     (if cb_subscription_id cb = 0 then s
      else if cb_pid cb \<noteq> 0
      then s\<lparr>deletion_notices := deletion_notices s @ [(ToProcess (cb_pid cb), cb_subscription_id cb)]\<rparr>
      else case cb_listener cb of
             Some l \<Rightarrow> s\<lparr>deletion_notices := deletion_notices s @ [(ToListener l, cb_subscription_id cb)]\<rparr>
           | None \<Rightarrow> s)"

definition get_next_subscription_id :: "events \<Rightarrow> (u32 \<times> events) option" where
  "get_next_subscription_id s =
     (let i = next_unique_subscription_id s
      in if i \<notin> set (map_keys (subscription_data s))
         then Some (i, s\<lparr>next_unique_subscription_id := advance_id max_subscription_id i\<rparr>)
         else if unat max_subscription_id \<le> length (subscription_data s) then Some (i, s)
         else map_option (\<lambda>(i, n). (i, s\<lparr>next_unique_subscription_id := n\<rparr>))
                (alloc_id (map_keys (subscription_data s)) max_subscription_id i))"

text \<open>\<open>p\<close> is the address of the parameters and the callback; both are deleted if there is no number.\<close>

definition data_add_subscription ::
    "ptr \<Rightarrow> subscription_params \<Rightarrow> event_type \<Rightarrow> sub_callback \<Rightarrow> events \<Rightarrow> (u32 \<times> events) option" where
  "data_add_subscription p params type cb s =
     (if \<not> callback_valid cb then Some (0, s)
      else case get_next_subscription_id s of
             None \<Rightarrow> None
           | Some (i, s) \<Rightarrow>
               if i = 0 then Some (0, s)
               else let pid = cb_pid cb;
                        s = s\<lparr>subscription_data := map_put i
                                \<lparr>details_pid = pid, details_type = type, details_object = p\<rparr>
                                (subscription_data s),
                              objects := (objects s)(p := Some (params, cb))\<rparr>
                    in Some (i, if pid \<noteq> 0
                         then s\<lparr>pid_subscriptions := map_put pid
                                (case map_of (pid_subscriptions s) pid of
                                   None \<Rightarrow> [i] | Some ids \<Rightarrow> ids @ [i]) (pid_subscriptions s)\<rparr>
                         else s))"

definition data_remove_subscription :: "u32 \<Rightarrow> events \<Rightarrow> events \<times> bool" where
  "data_remove_subscription i s =
     (if i = 0 then (s, False)
      else case map_of (subscription_data s) i of
             None \<Rightarrow> (s, False)
           | Some d \<Rightarrow>
               let s = (if details_pid d \<noteq> 0 then
                      case map_of (pid_subscriptions s) (details_pid d) of
                        None \<Rightarrow> s
                      | Some ids \<Rightarrow>
                          let ids = remove1 i ids
                          in s\<lparr>pid_subscriptions :=
                               if ids = [] then map_erase (details_pid d) (pid_subscriptions s)
                               else map_put (details_pid d) ids (pid_subscriptions s)\<rparr>
                    else s)
               in (s\<lparr>objects := (objects s)(details_object d := None),
                     subscription_data := map_erase i (subscription_data s)\<rparr>, True))"

definition subscription_exists :: "u32 \<Rightarrow> events \<Rightarrow> bool" where
  "subscription_exists i s \<longleftrightarrow> map_of (subscription_data s) i \<noteq> None"

definition get_subscriptions_for_process :: "u32 \<Rightarrow> events \<Rightarrow> u32 list" where
  "get_subscriptions_for_process pid s =
     (if pid = 0 then []
      else case map_of (pid_subscriptions s) pid of None \<Rightarrow> [] | Some ids \<Rightarrow> ids)"

text \<open>The pair of nothing and an invalid callback is \<open>Some None\<close>.\<close>

definition get_subscription_info ::
    "u32 \<Rightarrow> events \<Rightarrow> (ptr \<times> subscription_params \<times> sub_callback) option option" where
  "get_subscription_info i s =
     (if i = 0 then Some None
      else case map_of (subscription_data s) i of
             None \<Rightarrow> Some None
           | Some d \<Rightarrow> map_option (\<lambda>ob. Some (details_object d, ob)) (objects s (details_object d)))"

definition get_subscription_type :: "u32 \<Rightarrow> events \<Rightarrow> event_type" where
  "get_subscription_type i s =
     (if i = 0 then EVENT_END_INVALID
      else case map_of (subscription_data s) i of
             None \<Rightarrow> EVENT_END_INVALID | Some d \<Rightarrow> details_type d)"

subsection \<open>What the processors share\<close>

definition index_subscription :: "event_type \<Rightarrow> ptr \<Rightarrow> index_key list \<Rightarrow> events \<Rightarrow> events" where
  "index_subscription type p ks s = s\<lparr>processor_tables :=
     (processor_tables s)(type := fold (add_at p) ks (processor_tables s type))\<rparr>"

definition unindex_subscription :: "event_type \<Rightarrow> ptr \<Rightarrow> index_key list \<Rightarrow> events \<Rightarrow> events" where
  "unindex_subscription type p ks s = s\<lparr>processor_tables :=
     (processor_tables s)(type := fold (remove_at p) ks (processor_tables s type))\<rparr>"

text \<open>The first half of subscribing; the number is set in the callback even if it was deleted.\<close>

definition store_subscription ::
    "ptr \<Rightarrow> subscription_params \<Rightarrow> event_type \<Rightarrow> sub_callback \<Rightarrow> events \<Rightarrow> (u32 \<times> events) option" where
  "store_subscription p params type cb s =
     (case data_add_subscription p params type cb s of
        None \<Rightarrow> None
      | Some (i, s) \<Rightarrow>
          if i = 0 then None
          else Some (i, s\<lparr>objects := (objects s)(p := Some (params, cb\<lparr>cb_subscription_id := i\<rparr>))\<rparr>))"

fun remove_matched ::
    "(u32 \<Rightarrow> events \<Rightarrow> (events \<times> bool) option) \<Rightarrow> ptr list \<Rightarrow> events \<Rightarrow> events option" where
  "remove_matched remove [] s = Some s"
| "remove_matched remove (p # ps) s =
     (case objects s p of None \<Rightarrow> None
      | Some (params, cb) \<Rightarrow>
          Option.bind (remove (cb_subscription_id cb) (do_delete_callback cb s))
            (\<lambda>(s, success). remove_matched remove ps s))"

definition evaluate_event :: "event \<Rightarrow> ptr list list \<Rightarrow> events \<Rightarrow> tracker option" where
  "evaluate_event e ls s =
     evaluate_lists (\<lambda>p. map_option (\<lambda>ob. is_match (fst ob) e) (objects s p)) ls tracker_new"

fun process_callbacks :: "event \<Rightarrow> ptr list \<Rightarrow> events \<Rightarrow> events option" where
  "process_callbacks e [] s = Some s"
| "process_callbacks e (p # ps) s =
     (case objects s p of None \<Rightarrow> None
      | Some (params, cb) \<Rightarrow> process_callbacks e ps (do_callback e cb s))"

definition deliver_event :: "event_type \<Rightarrow> event \<Rightarrow> index_key list \<Rightarrow> events \<Rightarrow> events option" where
  "deliver_event type e ks s =
     Option.bind (evaluate_event e (map (\<lambda>k. subs_at k (processor_tables s type)) ks) s)
       (\<lambda>tr. process_callbacks e (satisfied tr) s)"

subsection \<open>Movement\<close>

definition movement_add_keys :: "movement_params \<Rightarrow> index_key list" where
  "movement_add_keys m =
     (if movement_site m \<noteq> 0 then [SiteKey (movement_site m)]
      else
        let who = map (EntityKey WHO) (movement_who m);
            from = map (EntityKey FROM) (movement_from m);
            to = map (EntityKey TO) (movement_to m);
            how = (if \<not> is_default (movement_how m) then [EntityKey HOW (movement_how m)] else [])
        in if who @ from @ to @ how = [] then [AllKey] else who @ from @ to @ how)"

definition movement_remove_keys :: "movement_params \<Rightarrow> index_key list" where
  "movement_remove_keys m =
     (if movement_site m \<noteq> 0 then [SiteKey (movement_site m)]
      else
        let who = map (EntityKey WHO) (movement_who m);
            from = map (EntityKey FROM) (movement_from m);
            to = map (EntityKey TO) (movement_to m);
            how = (if \<not> is_default (movement_how m) then [EntityKey HOW (movement_how m)] else [])
        in if who @ from @ to @ how = [] then [AllKey] else who @ from @ to @ how)"

definition movement_add_subscription ::
    "ptr \<Rightarrow> subscription_params \<Rightarrow> sub_callback \<Rightarrow> events \<Rightarrow> (u32 \<times> events) option" where
  "movement_add_subscription p params cb s =
     (case params of
        MovementParams m \<Rightarrow>
          if \<not> validate params then Some (0, s)
          else map_option (map_prod id (index_subscription EVENT_MOVEMENT p (movement_add_keys m)))
                 (store_subscription p params EVENT_MOVEMENT cb s)
      | _ \<Rightarrow> Some (0, s))"

definition movement_remove_subscription :: "u32 \<Rightarrow> events \<Rightarrow> (events \<times> bool) option" where
  "movement_remove_subscription i s =
     (case get_subscription_info i s of
        None \<Rightarrow> None
      | Some None \<Rightarrow> Some (s, False)
      | Some (Some (p, params, cb)) \<Rightarrow>
          (case params of
             MovementParams m \<Rightarrow> Some (data_remove_subscription i
               (unindex_subscription EVENT_MOVEMENT p (movement_remove_keys m) s))
           | _ \<Rightarrow> Some (s, False)))"

text \<open>The set of callbacks is taken by value and stays as it was.\<close>

definition add_matched_for_deleted :: "entity_subs \<Rightarrow> db_id \<Rightarrow> ptr list \<Rightarrow> ptr list" where
  "add_matched_for_deleted m i cbs =
     (let copied = fold insert_callback (get_entity_subscriptions i m) cbs in cbs)"

definition movement_entity_deleted :: "db_id \<Rightarrow> events \<Rightarrow> events option" where
  "movement_entity_deleted i s =
     (let T = processor_tables s EVENT_MOVEMENT;
          cbs = add_matched_for_deleted (entity_tables T WHO) i [];
          cbs = add_matched_for_deleted (entity_tables T FROM) i cbs;
          cbs = add_matched_for_deleted (entity_tables T TO) i cbs;
          cbs = add_matched_for_deleted (entity_tables T HOW) i cbs
      in remove_matched movement_remove_subscription cbs s)"

definition movement_site_deleted :: "u32 \<Rightarrow> events \<Rightarrow> events option" where
  "movement_site_deleted site s =
     (let T = processor_tables s EVENT_MOVEMENT;
          cbs = get_all_site_callbacks_entities (entity_tables T WHO) site [];
          cbs = get_all_site_callbacks_entities (entity_tables T FROM) site cbs;
          cbs = get_all_site_callbacks_entities (entity_tables T TO) site cbs;
          cbs = get_all_site_callbacks_entities (entity_tables T HOW) site cbs;
          cbs = get_all_site_callbacks_sites (site_subscriptions T) site cbs
      in remove_matched movement_remove_subscription cbs s)"

definition movement_process_event :: "event \<Rightarrow> events \<Rightarrow> events option" where
  "movement_process_event e s =
     (case e of
        MovementEvent m \<Rightarrow> deliver_event EVENT_MOVEMENT e
          [EntityKey WHO (moved_who m), EntityKey FROM (moved_from m), EntityKey TO (moved_to m),
           EntityKey HOW (moved_how m), SiteKey (get_site_id (moved_who m)), AllKey] s
      | _ \<Rightarrow> Some s)"

subsection \<open>Emits\<close>

definition emit_add_keys :: "emit_params \<Rightarrow> index_key list" where
  "emit_add_keys m =
     (if \<not> is_default (emit_source m) then [EntityKey SOURCE (emit_source m)] else [])
     @ (if \<not> is_default (emit_target m) then [EntityKey TARGET (emit_target m)] else [])"

definition emit_remove_keys :: "emit_params \<Rightarrow> index_key list" where
  "emit_remove_keys m = [EntityKey SOURCE (emit_source m), EntityKey TARGET (emit_target m)]"

definition emit_add_subscription ::
    "ptr \<Rightarrow> subscription_params \<Rightarrow> sub_callback \<Rightarrow> events \<Rightarrow> (u32 \<times> events) option" where
  "emit_add_subscription p params cb s =
     (case params of
        EmitParams m \<Rightarrow>
          if \<not> validate params then Some (0, s)
          else map_option (map_prod id (index_subscription EVENT_EMIT p (emit_add_keys m)))
                 (store_subscription p params EVENT_EMIT cb s)
      | _ \<Rightarrow> Some (0, s))"

definition emit_remove_subscription :: "u32 \<Rightarrow> events \<Rightarrow> (events \<times> bool) option" where
  "emit_remove_subscription i s =
     (case get_subscription_info i s of
        None \<Rightarrow> None
      | Some None \<Rightarrow> Some (s, False)
      | Some (Some (p, params, cb)) \<Rightarrow>
          (case params of
             EmitParams m \<Rightarrow> Some (data_remove_subscription i
               (unindex_subscription EVENT_EMIT p (emit_remove_keys m) s))
           | _ \<Rightarrow> Some (s, False)))"

definition emit_entity_deleted :: "db_id \<Rightarrow> events \<Rightarrow> events option" where
  "emit_entity_deleted i s =
     (let T = processor_tables s EVENT_EMIT;
          cbs = fold insert_callback (get_entity_subscriptions i (entity_tables T SOURCE)) [];
          cbs = fold insert_callback (get_entity_subscriptions i (entity_tables T TARGET)) cbs
      in remove_matched emit_remove_subscription cbs s)"

definition emit_site_deleted :: "u32 \<Rightarrow> events \<Rightarrow> events option" where
  "emit_site_deleted site s =
     (let T = processor_tables s EVENT_EMIT;
          cbs = get_all_site_callbacks_entities (entity_tables T SOURCE) site [];
          cbs = get_all_site_callbacks_entities (entity_tables T TARGET) site cbs
      in remove_matched emit_remove_subscription cbs s)"

definition emit_process_event :: "event \<Rightarrow> events \<Rightarrow> events option" where
  "emit_process_event e s =
     (case e of
        EmitEvent m \<Rightarrow> deliver_event EVENT_EMIT e
          [EntityKey SOURCE (emitted_source m), EntityKey TARGET (emitted_target m)] s
      | _ \<Rightarrow> Some s)"

subsection \<open>Connections\<close>

definition connection_add_keys :: "connection_params \<Rightarrow> index_key list" where
  "connection_add_keys c =
     (if connection_entity_ids c = [] \<and> connection_site_ids c = [] then [AllKey]
      else if connection_entity_ids c \<noteq> [] then map (EntityKey ENTITY) (connection_entity_ids c)
      else map SiteKey (connection_site_ids c))"

definition connection_remove_keys :: "connection_params \<Rightarrow> index_key list" where
  "connection_remove_keys c =
     (if connection_entity_ids c = [] \<and> connection_site_ids c = [] then [AllKey]
      else if connection_entity_ids c \<noteq> [] then map (EntityKey ENTITY) (connection_entity_ids c)
      else map SiteKey (connection_site_ids c))"

definition connection_add_subscription ::
    "ptr \<Rightarrow> subscription_params \<Rightarrow> sub_callback \<Rightarrow> events \<Rightarrow> (u32 \<times> events) option" where
  "connection_add_subscription p params cb s =
     (case params of
        ConnectionParams c \<Rightarrow>
          if \<not> validate params then Some (0, s)
          else map_option (map_prod id (index_subscription EVENT_CONNECTION p (connection_add_keys c)))
                 (store_subscription p params EVENT_CONNECTION cb s)
      | _ \<Rightarrow> Some (0, s))"

definition connection_remove_subscription :: "u32 \<Rightarrow> events \<Rightarrow> (events \<times> bool) option" where
  "connection_remove_subscription i s =
     (case get_subscription_info i s of
        None \<Rightarrow> None
      | Some None \<Rightarrow> Some (s, False)
      | Some (Some (p, params, cb)) \<Rightarrow>
          (case params of
             ConnectionParams c \<Rightarrow> Some (data_remove_subscription i
               (unindex_subscription EVENT_CONNECTION p (connection_remove_keys c) s))
           | _ \<Rightarrow> Some (s, False)))"

definition connection_entity_deleted :: "db_id \<Rightarrow> events \<Rightarrow> events option" where
  "connection_entity_deleted i s =
     (let T = processor_tables s EVENT_CONNECTION;
          cbs = fold insert_callback (get_entity_subscriptions i (entity_tables T ENTITY)) []
      in remove_matched connection_remove_subscription cbs s)"

definition connection_site_deleted :: "u32 \<Rightarrow> events \<Rightarrow> events option" where
  "connection_site_deleted site s =
     (let T = processor_tables s EVENT_CONNECTION;
          cbs = get_all_site_callbacks_entities (entity_tables T ENTITY) site [];
          cbs = get_all_site_callbacks_sites (site_subscriptions T) site cbs
      in remove_matched connection_remove_subscription cbs s)"

definition connection_process_event :: "event \<Rightarrow> events \<Rightarrow> events option" where
  "connection_process_event e s =
     (case e of
        ConnectionEvent c \<Rightarrow> deliver_event EVENT_CONNECTION e
          [EntityKey ENTITY (connected_id c), SiteKey (get_site_id (connected_id c)), AllKey] s
      | _ \<Rightarrow> Some s)"

subsection \<open>Changes of entities\<close>

definition entity_changed_add_keys :: "entity_params \<Rightarrow> index_key list" where
  "entity_changed_add_keys c =
     (if entity_ids c = [] \<and> entity_site_id c = 0 then [AllKey]
      else if entity_ids c \<noteq> [] then
        if entity_ids_owners c then map (EntityKey OWNER) (entity_ids c)
        else map (EntityKey ENTITY) (entity_ids c)
      else [SiteKey (entity_site_id c)])"

definition entity_changed_remove_keys :: "entity_params \<Rightarrow> index_key list" where
  "entity_changed_remove_keys c =
     (if entity_ids c = [] \<and> entity_site_id c = 0 then [AllKey]
      else if entity_ids c \<noteq> [] then
        if entity_ids_owners c then map (EntityKey OWNER) (entity_ids c)
        else map (EntityKey ENTITY) (entity_ids c)
      else [SiteKey (entity_site_id c)])"

definition entity_changed_add_subscription ::
    "ptr \<Rightarrow> subscription_params \<Rightarrow> sub_callback \<Rightarrow> events \<Rightarrow> (u32 \<times> events) option" where
  "entity_changed_add_subscription p params cb s =
     (case params of
        EntityChangedParams c \<Rightarrow>
          if \<not> validate params then Some (0, s)
          else map_option (map_prod id (index_subscription EVENT_ENTITY_CHANGED p (entity_changed_add_keys c)))
                 (store_subscription p params EVENT_ENTITY_CHANGED cb s)
      | _ \<Rightarrow> Some (0, s))"

definition entity_changed_remove_subscription :: "u32 \<Rightarrow> events \<Rightarrow> (events \<times> bool) option" where
  "entity_changed_remove_subscription i s =
     (case get_subscription_info i s of
        None \<Rightarrow> None
      | Some None \<Rightarrow> Some (s, False)
      | Some (Some (p, params, cb)) \<Rightarrow>
          (case params of
             EntityChangedParams c \<Rightarrow> Some (data_remove_subscription i
               (unindex_subscription EVENT_ENTITY_CHANGED p (entity_changed_remove_keys c) s))
           | _ \<Rightarrow> Some (s, False)))"

definition entity_changed_entity_deleted :: "db_id \<Rightarrow> events \<Rightarrow> events option" where
  "entity_changed_entity_deleted i s =
     (let T = processor_tables s EVENT_ENTITY_CHANGED;
          cbs = fold insert_callback (get_entity_subscriptions i (entity_tables T ENTITY)) [];
          cbs = fold insert_callback (get_entity_subscriptions i (entity_tables T OWNER)) cbs
      in remove_matched entity_changed_remove_subscription cbs s)"

definition entity_changed_site_deleted :: "u32 \<Rightarrow> events \<Rightarrow> events option" where
  "entity_changed_site_deleted site s =
     (let T = processor_tables s EVENT_ENTITY_CHANGED;
          cbs = get_all_site_callbacks_entities (entity_tables T ENTITY) site [];
          cbs = get_all_site_callbacks_entities (entity_tables T OWNER) site cbs;
          cbs = get_all_site_callbacks_sites (site_subscriptions T) site cbs
      in remove_matched entity_changed_remove_subscription cbs s)"

definition entity_changed_process_event :: "event \<Rightarrow> events \<Rightarrow> events option" where
  "entity_changed_process_event e s =
     (case e of
        EntityChangedEvent c \<Rightarrow> deliver_event EVENT_ENTITY_CHANGED e
          [EntityKey ENTITY (changed_id c), EntityKey OWNER (changed_owner c),
           SiteKey (get_site_id (changed_id c)), AllKey] s
      | _ \<Rightarrow> Some s)"

subsection \<open>Execution of processes\<close>

text \<open>
  A new subscription is put down as one for changes of entities; when one is removed, the type
  asked for is that of changes of entities, and its parameters are then used as those of a
  process, which has no meaning.
\<close>

definition process_id_keys :: "db_id \<Rightarrow> index_key" where
  "process_id_keys i = (if is_entity_default i then SiteKey (get_site_id i) else EntityKey ENTITY i)"

definition process_add_keys :: "process_params \<Rightarrow> index_key list" where
  "process_add_keys m =
     (if sub_process_id m \<noteq> 0 then [PidKey (sub_process_id m)]
      else
        let executable = sub_executable_id m; owner = sub_owner_id m;
            specific = \<not> is_default executable;
            ks = (if specific then [process_id_keys executable] else []);
            also_owner = (\<not> is_default owner \<and> (\<not> specific \<or> owner \<noteq> executable));
            ks = (if also_owner then ks @ [process_id_keys owner] else ks)
        in if \<not> specific \<and> \<not> also_owner then [AllKey] else ks)"

definition process_add_subscription ::
    "ptr \<Rightarrow> subscription_params \<Rightarrow> sub_callback \<Rightarrow> events \<Rightarrow> (u32 \<times> events) option" where
  "process_add_subscription p params cb s =
     (case params of
        ProcessExecutionParams m \<Rightarrow>
          if \<not> validate params then Some (0, s)
          else map_option (map_prod id (index_subscription EVENT_PROCESS_EXECUTION p (process_add_keys m)))
                 (store_subscription p params EVENT_ENTITY_CHANGED cb s)
      | _ \<Rightarrow> Some (0, s))"

definition process_remove_subscription :: "u32 \<Rightarrow> events \<Rightarrow> (events \<times> bool) option" where
  "process_remove_subscription i s =
     (case get_subscription_info i s of
        None \<Rightarrow> None
      | Some None \<Rightarrow> Some (s, False)
      | Some (Some (p, params, cb)) \<Rightarrow>
          if get_type params \<noteq> SUBSCRIPTION_ENTITY_CHANGED then Some (s, False) else None)"

definition process_entity_deleted :: "db_id \<Rightarrow> events \<Rightarrow> events option" where
  "process_entity_deleted i s =
     (let T = processor_tables s EVENT_PROCESS_EXECUTION;
          cbs = fold insert_callback (get_entity_subscriptions i (entity_tables T ENTITY)) []
      in remove_matched process_remove_subscription cbs s)"

definition process_site_deleted :: "u32 \<Rightarrow> events \<Rightarrow> events option" where
  "process_site_deleted site s =
     (let T = processor_tables s EVENT_PROCESS_EXECUTION;
          cbs = get_all_site_callbacks_entities (entity_tables T ENTITY) site [];
          cbs = get_all_site_callbacks_sites (site_subscriptions T) site cbs
      in remove_matched process_remove_subscription cbs s)"

definition process_process_event :: "event \<Rightarrow> events \<Rightarrow> events option" where
  "process_process_event e s =
     (case e of
        ProcessExecutionEvent m \<Rightarrow>
          let pid_list = subs_at (PidKey (executed_pid m)) (processor_tables s EVENT_PROCESS_EXECUTION);
              subs_remove = (if executed_state m = PROCESS_STATE_COMPLETED then pid_list else [])
          in Option.bind (deliver_event EVENT_PROCESS_EXECUTION e
               [EntityKey ENTITY (executed_id m), SiteKey (get_site_id (executed_id m)),
                EntityKey ENTITY (executed_owner m), SiteKey (get_site_id (executed_owner m)),
                AllKey, PidKey (executed_pid m)] s)
             (remove_matched process_remove_subscription subs_remove)
      | _ \<Rightarrow> Some s)"

subsection \<open>Sites\<close>

text \<open>A new subscription is put down as one for connections.\<close>

definition site_add_subscription ::
    "ptr \<Rightarrow> subscription_params \<Rightarrow> sub_callback \<Rightarrow> events \<Rightarrow> (u32 \<times> events) option" where
  "site_add_subscription p params cb s =
     (case params of
        SiteParams \<Rightarrow>
          if \<not> validate params then Some (0, s)
          else map_option (map_prod id (index_subscription EVENT_SITE p [AllKey]))
                 (store_subscription p params EVENT_CONNECTION cb s)
      | _ \<Rightarrow> Some (0, s))"

definition site_remove_subscription :: "u32 \<Rightarrow> events \<Rightarrow> (events \<times> bool) option" where
  "site_remove_subscription i s =
     (case get_subscription_info i s of
        None \<Rightarrow> None
      | Some None \<Rightarrow> Some (s, False)
      | Some (Some (p, params, cb)) \<Rightarrow>
          (case params of
             SiteParams \<Rightarrow> Some (data_remove_subscription i (unindex_subscription EVENT_SITE p [AllKey] s))
           | _ \<Rightarrow> Some (s, False)))"

definition site_process_event :: "event \<Rightarrow> events \<Rightarrow> events option" where
  "site_process_event e s =
     (case e of SiteEvent m \<Rightarrow> deliver_event EVENT_SITE e [AllKey] s | _ \<Rightarrow> Some s)"

subsection \<open>All processors\<close>

fun processor_remove :: "event_type \<Rightarrow> u32 \<Rightarrow> events \<Rightarrow> (events \<times> bool) option" where
  "processor_remove EVENT_MOVEMENT = movement_remove_subscription"
| "processor_remove EVENT_EMIT = emit_remove_subscription"
| "processor_remove EVENT_CONNECTION = connection_remove_subscription"
| "processor_remove EVENT_ENTITY_CHANGED = entity_changed_remove_subscription"
| "processor_remove EVENT_PROCESS_EXECUTION = process_remove_subscription"
| "processor_remove EVENT_SITE = site_remove_subscription"
| "processor_remove EVENT_END_INVALID = (\<lambda>i s. Some (s, False))"

fun processor_event :: "event_type \<Rightarrow> event \<Rightarrow> events \<Rightarrow> events option" where
  "processor_event EVENT_MOVEMENT = movement_process_event"
| "processor_event EVENT_EMIT = emit_process_event"
| "processor_event EVENT_CONNECTION = connection_process_event"
| "processor_event EVENT_ENTITY_CHANGED = entity_changed_process_event"
| "processor_event EVENT_PROCESS_EXECUTION = process_process_event"
| "processor_event EVENT_SITE = site_process_event"
| "processor_event EVENT_END_INVALID = (\<lambda>e s. Some s)"

fun processor_entity_deleted :: "event_type \<Rightarrow> db_id \<Rightarrow> events \<Rightarrow> events option" where
  "processor_entity_deleted EVENT_MOVEMENT = movement_entity_deleted"
| "processor_entity_deleted EVENT_EMIT = emit_entity_deleted"
| "processor_entity_deleted EVENT_CONNECTION = connection_entity_deleted"
| "processor_entity_deleted EVENT_ENTITY_CHANGED = entity_changed_entity_deleted"
| "processor_entity_deleted EVENT_PROCESS_EXECUTION = process_entity_deleted"
| "processor_entity_deleted t = (\<lambda>i s. Some s)"

fun processor_site_deleted :: "event_type \<Rightarrow> u32 \<Rightarrow> events \<Rightarrow> events option" where
  "processor_site_deleted EVENT_MOVEMENT = movement_site_deleted"
| "processor_site_deleted EVENT_EMIT = emit_site_deleted"
| "processor_site_deleted EVENT_CONNECTION = connection_site_deleted"
| "processor_site_deleted EVENT_ENTITY_CHANGED = entity_changed_site_deleted"
| "processor_site_deleted EVENT_PROCESS_EXECUTION = process_site_deleted"
| "processor_site_deleted t = (\<lambda>site s. Some s)"

definition all_processors :: "event_type list" where
  "all_processors = [EVENT_MOVEMENT, EVENT_EMIT, EVENT_CONNECTION, EVENT_ENTITY_CHANGED,
     EVENT_PROCESS_EXECUTION, EVENT_SITE]"

fun each_processor :: "(event_type \<Rightarrow> events \<Rightarrow> events option) \<Rightarrow> event_type list \<Rightarrow> events \<Rightarrow> events option" where
  "each_processor f [] s = Some s"
| "each_processor f (t # ts) s = Option.bind (f t s) (each_processor f ts)"

subsection \<open>\<open>EventAccess\<close>\<close>

definition subscribe ::
    "ptr \<Rightarrow> subscription_params \<Rightarrow> sub_callback \<Rightarrow> events \<Rightarrow> (u32 \<times> events) option" where
  "subscribe p params cb s =
     (case get_type params of
        SUBSCRIPTION_CONNECTION \<Rightarrow> connection_add_subscription p params cb s
      | SUBSCRIPTION_ENTITY_CHANGED \<Rightarrow> entity_changed_add_subscription p params cb s
      | SUBSCRIPTION_EMIT \<Rightarrow> emit_add_subscription p params cb s
      | SUBSCRIPTION_MOVEMENT \<Rightarrow> movement_add_subscription p params cb s
      | SUBSCRIPTION_PROCESS_EXECUTION \<Rightarrow> process_add_subscription p params cb s
      | SUBSCRIPTION_SITE \<Rightarrow> site_add_subscription p params cb s)"

definition unsubscribe :: "u32 \<Rightarrow> events \<Rightarrow> (events \<times> bool) option" where
  "unsubscribe i s =
     (if get_subscription_type i s \<noteq> EVENT_END_INVALID
      then processor_remove (get_subscription_type i s) i s else Some (s, False))"

fun unsubscribe_all :: "u32 list \<Rightarrow> events \<Rightarrow> events option" where
  "unsubscribe_all [] s = Some s"
| "unsubscribe_all (i # is) s = Option.bind (unsubscribe i s) (\<lambda>(s, success). unsubscribe_all is s)"

text \<open>The events made of what the database and the entities tell.\<close>

definition entity_created :: "db_id \<Rightarrow> entity_type \<Rightarrow> db_id \<Rightarrow> event" where
  "entity_created i t owner = EntityChangedEvent (entity_action_event i t owner ENTITY_CREATED)"

definition entity_deleted :: "db_id \<Rightarrow> entity_type \<Rightarrow> db_id \<Rightarrow> event" where
  "entity_deleted i t owner = EntityChangedEvent (entity_action_event i t owner ENTITY_DELETED)"

definition event_site_deleted :: "u32 \<Rightarrow> event option" where
  "event_site_deleted site =
     (if site \<noteq> 0 then Some (SiteEvent \<lparr>event_site_action = SITE_ACTION_DELETE,
        event_site_id = site, event_site_name = []\<rparr>) else None)"

definition entity_changed ::
    "db_id \<Rightarrow> entity_type \<Rightarrow> db_id \<Rightarrow> entity_field set \<Rightarrow> flag_journal \<Rightarrow> id_journal \<Rightarrow> event" where
  "entity_changed i t owner field_set flags ids =
     EntityChangedEvent (entity_updated_event i t owner field_set flags ids)"

subsection \<open>The thread\<close>

definition after_event :: "event \<Rightarrow> events \<Rightarrow> events option" where
  "after_event e s =
     (case e of
        EntityChangedEvent c \<Rightarrow>
          if changed_action c = ENTITY_DELETED
          then each_processor (\<lambda>t. processor_entity_deleted t (changed_id c)) all_processors s
          else Some s
      | SiteEvent m \<Rightarrow>
          if event_site_action m = SITE_ACTION_DELETE
          then each_processor (\<lambda>t. processor_site_deleted t (event_site_id m)) all_processors s
          else Some s
      | ProcessExecutionEvent m \<Rightarrow>
          if executed_state m = PROCESS_STATE_COMPLETED
          then unsubscribe_all (get_subscriptions_for_process (executed_pid m) s) s
          else Some s
      | _ \<Rightarrow> Some s)"

definition handle_event :: "event \<Rightarrow> events \<Rightarrow> events option" where
  "handle_event e s = Option.bind (processor_event (get_event_type e) e s) (after_event e)"

subsection \<open>Steps\<close>

text \<open>Subscribing, at an address not in use; unsubscribing; and the thread handling an event.\<close>

inductive events_step :: "events \<Rightarrow> events \<Rightarrow> bool" where
  subscribe: "objects s p = None \<Longrightarrow> subscribe p params cb s = Some (i, s') \<Longrightarrow> events_step s s'"
| unsubscribe: "unsubscribe i s = Some (s', success) \<Longrightarrow> events_step s s'"
| handle: "handle_event e s = Some s' \<Longrightarrow> events_step s s'"

inductive reachable_events :: "events \<Rightarrow> bool" where
  start: "reachable_events events_new"
| step: "reachable_events s \<Longrightarrow> events_step s s' \<Longrightarrow> reachable_events s'"

end
