(* ===== verification/EventInv.thy ===== *)
theory EventInv
  imports EventProc
begin

text \<open>
  The invariant of the subscriptions: the data of \<open>SubscriptionData\<close> and the live objects are
  the same subscriptions, and the tables of each processor have each of its subscriptions at its
  places, as often as it names them, and nothing else.
\<close>

subsection \<open>Where a subscription belongs\<close>

fun own_processor :: "subscription_params \<Rightarrow> event_type" where
  "own_processor (MovementParams m) = EVENT_MOVEMENT"
| "own_processor (EmitParams m) = EVENT_EMIT"
| "own_processor (ConnectionParams m) = EVENT_CONNECTION"
| "own_processor (EntityChangedParams m) = EVENT_ENTITY_CHANGED"
| "own_processor (ProcessExecutionParams m) = EVENT_PROCESS_EXECUTION"
| "own_processor SiteParams = EVENT_SITE"

text \<open>What it is put down as, and so whom unsubscribing asks.\<close>

fun registered_as :: "subscription_params \<Rightarrow> event_type" where
  "registered_as (ProcessExecutionParams m) = EVENT_ENTITY_CHANGED"
| "registered_as SiteParams = EVENT_CONNECTION"
| "registered_as prm = own_processor prm"

fun keys_of :: "subscription_params \<Rightarrow> index_key list" where
  "keys_of (MovementParams m) = movement_add_keys m"
| "keys_of (EmitParams m) = emit_add_keys m"
| "keys_of (ConnectionParams m) = connection_add_keys m"
| "keys_of (EntityChangedParams m) = entity_changed_add_keys m"
| "keys_of (ProcessExecutionParams m) = process_add_keys m"
| "keys_of SiteParams = [AllKey]"

text \<open>Subscriptions of these classes can be removed.\<close>

definition removable :: "subscription_params \<Rightarrow> bool" where
  "removable prm \<longleftrightarrow> own_processor prm = registered_as prm"

lemma subscribe_alt:
  "subscribe p prm cb s =
     (if \<not> validate prm then Some (0, s)
      else map_option (map_prod id (index_subscription (own_processor prm) p (keys_of prm)))
             (store_subscription p prm (registered_as prm) cb s))"
  by (cases prm) (simp_all add: subscribe_def connection_add_subscription_def
      entity_changed_add_subscription_def emit_add_subscription_def movement_add_subscription_def
      process_add_subscription_def site_add_subscription_def)

subsection \<open>The invariant\<close>

definition data_ok :: "events \<Rightarrow> bool" where
  "data_ok s \<longleftrightarrow> map_sorted (subscription_data s) \<and> map_sorted (pid_subscriptions s)
     \<and> id_range max_subscription_id (next_unique_subscription_id s)
     \<and> (\<forall>i d. map_of (subscription_data s) i = Some d \<longrightarrow> id_range max_subscription_id i
          \<and> (\<exists>prm cb. objects s (details_object d) = Some (prm, cb) \<and> cb_subscription_id cb = i
               \<and> cb_pid cb = details_pid d \<and> details_type d = registered_as prm
               \<and> validate prm \<and> callback_valid cb))
     \<and> (\<forall>p prm cb. objects s p = Some (prm, cb) \<longrightarrow>
          (\<exists>d. map_of (subscription_data s) (cb_subscription_id cb) = Some d \<and> details_object d = p))
     \<and> (\<forall>pid. pid \<noteq> 0 \<longrightarrow> distinct (get_subscriptions_for_process pid s)
          \<and> set (get_subscriptions_for_process pid s)
            = {i. \<exists>d. map_of (subscription_data s) i = Some d \<and> details_pid d = pid})"

definition indexed :: "events \<Rightarrow> bool" where
  "indexed s \<longleftrightarrow> (\<forall>t. index_ok (processor_tables s t))
     \<and> (\<forall>t k p. count_list (subs_at k (processor_tables s t)) p =
          (case objects s p of None \<Rightarrow> 0
           | Some (prm, cb) \<Rightarrow> if own_processor prm = t then count_list (keys_of prm) k else 0))"

definition events_inv :: "events \<Rightarrow> bool" where
  "events_inv s \<longleftrightarrow> data_ok s \<and> indexed s"

lemma inv_told [simp]:
  "events_inv (s\<lparr>delivered := x\<rparr>) = events_inv s" "events_inv (s\<lparr>deletion_notices := y\<rparr>) = events_inv s"
  by (simp_all add: events_inv_def data_ok_def indexed_def get_subscriptions_for_process_def)

lemma max_subscription: "(1 :: u32) < max_subscription_id"
  by (simp add: max_subscription_id_def word_less_nat_alt)

lemma inv_new: "events_inv events_new"
  using max_subscription
  by (simp add: events_inv_def data_ok_def indexed_def events_new_def index_ok_new id_range_def
      get_subscriptions_for_process_def)

lemma data_told [simp]:
  "data_ok (s\<lparr>processor_tables := x\<rparr>) = data_ok s" "data_ok (s\<lparr>delivered := y\<rparr>) = data_ok s"
  "data_ok (s\<lparr>deletion_notices := z\<rparr>) = data_ok s"
  by (simp_all add: data_ok_def get_subscriptions_for_process_def)

lemma data_entry:
  "data_ok s \<Longrightarrow> map_of (subscription_data s) i = Some d \<Longrightarrow> id_range max_subscription_id i
     \<and> (\<exists>prm cb. objects s (details_object d) = Some (prm, cb) \<and> cb_subscription_id cb = i
          \<and> cb_pid cb = details_pid d \<and> details_type d = registered_as prm
          \<and> validate prm \<and> callback_valid cb)"
  by (simp add: data_ok_def)

lemma data_object:
  "data_ok s \<Longrightarrow> objects s p = Some (prm, cb) \<Longrightarrow>
     \<exists>d. map_of (subscription_data s) (cb_subscription_id cb) = Some d \<and> details_object d = p"
  by (simp add: data_ok_def)

lemma data_pids:
  assumes "data_ok s" and "pid \<noteq> 0"
  shows "distinct (get_subscriptions_for_process pid s)"
    and "set (get_subscriptions_for_process pid s)
       = {i. \<exists>d. map_of (subscription_data s) i = Some d \<and> details_pid d = pid}"
  using assms unfolding data_ok_def by blast+

lemma index_count:
  "indexed s \<Longrightarrow> count_list (subs_at k (processor_tables s t)) p =
     (case objects s p of None \<Rightarrow> 0
      | Some (prm, cb) \<Rightarrow> if own_processor prm = t then count_list (keys_of prm) k else 0)"
  by (simp add: indexed_def)

lemma live_data:
  assumes "events_inv s" and "objects s p = Some (prm, cb)"
  obtains d where "map_of (subscription_data s) (cb_subscription_id cb) = Some d" "details_object d = p"
    "cb_pid cb = details_pid d" "details_type d = registered_as prm" "validate prm" "callback_valid cb"
    "cb_subscription_id cb \<noteq> 0"
proof -
  have ok: "data_ok s" using assms(1) by (simp add: events_inv_def)
  obtain d where d: "map_of (subscription_data s) (cb_subscription_id cb) = Some d" "details_object d = p"
    using data_object [OF ok assms(2)] by blast
  from data_entry [OF ok d(1)] d(2) assms(2) have *: "id_range max_subscription_id (cb_subscription_id cb)"
    "cb_pid cb = details_pid d" "details_type d = registered_as prm" "validate prm" "callback_valid cb"
    by auto
  show ?thesis by (rule that [OF d *(2-5) id_range_nonzero [OF *(1)]])
qed

lemma data_live:
  assumes "events_inv s" and "map_of (subscription_data s) i = Some d"
  obtains prm cb where "objects s (details_object d) = Some (prm, cb)" "cb_subscription_id cb = i"
    "cb_pid cb = details_pid d" "details_type d = registered_as prm" "validate prm" "callback_valid cb" "i \<noteq> 0"
  using assms by (force simp: events_inv_def data_ok_def id_range_def)

subsection \<open>Looking up\<close>

lemma info_none:
  assumes "events_inv s" and "map_of (subscription_data s) i = None"
  shows "get_subscription_info i s = Some None"
  using assms(2) by (simp add: get_subscription_info_def)

lemma info_some:
  assumes "events_inv s" and "map_of (subscription_data s) i = Some d"
    and "objects s (details_object d) = Some (prm, cb)"
  shows "get_subscription_info i s = Some (Some (details_object d, prm, cb))"
  using assms data_live [OF assms(1,2)] by (auto simp: get_subscription_info_def)

lemma indexed_live:
  assumes "events_inv s" and "p \<in> set (subs_at k (processor_tables s t))"
  obtains prm cb where "objects s p = Some (prm, cb)" "own_processor prm = t" "k \<in> set (keys_of prm)"
proof -
  have "count_list (subs_at k (processor_tables s t)) p \<noteq> 0" using assms(2) by (simp add: count_list_0_iff)
  moreover have "count_list (subs_at k (processor_tables s t)) p = (case objects s p of None \<Rightarrow> 0
      | Some (prm, cb) \<Rightarrow> if own_processor prm = t then count_list (keys_of prm) k else 0)"
    using assms(1) by (simp add: events_inv_def indexed_def)
  ultimately have "\<exists>prm cb. objects s p = Some (prm, cb) \<and> own_processor prm = t \<and> count_list (keys_of prm) k \<noteq> 0"
    by (auto split: option.splits if_splits)
  then show ?thesis using that by (auto simp: count_list_0_iff simp del: neq0_conv)
qed

lemma live_indexed:
  assumes "events_inv s" and "objects s p = Some (prm, cb)" and "k \<in> set (keys_of prm)"
  shows "p \<in> set (subs_at k (processor_tables s (own_processor prm)))"
proof -
  have "count_list (keys_of prm) k \<noteq> 0" using assms(3) by (simp add: count_list_0_iff)
  with assms(1,2) have "count_list (subs_at k (processor_tables s (own_processor prm))) p \<noteq> 0"
    by (simp add: events_inv_def indexed_def)
  then show ?thesis by (simp add: count_list_0_iff)
qed

subsection \<open>Numbers\<close>

lemma next_id_sound:
  assumes ok: "data_ok s" and i: "get_next_subscription_id s = Some (i, s')"
    and room: "length (subscription_data s) < unat max_subscription_id"
  shows "i \<notin> set (map_keys (subscription_data s)) \<and> id_range max_subscription_id i
    \<and> (\<exists>n. s' = s\<lparr>next_unique_subscription_id := n\<rparr> \<and> id_range max_subscription_id n)"
proof -
  define n where "n = next_unique_subscription_id s"
  have n: "id_range max_subscription_id n" using ok by (simp add: data_ok_def n_def)
  show ?thesis
  proof (cases "n \<in> set (map_keys (subscription_data s))")
    case False
    then show ?thesis using i n advance_id_range [OF max_subscription n]
      by (auto simp: get_next_subscription_id_def Let_def n_def)
  next
    case True
    then obtain nxt where a: "alloc_id (map_keys (subscription_data s)) max_subscription_id n = Some (i, nxt)"
      "s' = s\<lparr>next_unique_subscription_id := nxt\<rparr>"
      using i room by (auto simp: get_next_subscription_id_def Let_def n_def split: if_splits)
    from alloc_id_sound [OF a(1) max_subscription n] a(2) show ?thesis by blast
  qed
qed

lemma data_room:
  assumes "data_ok s"
  shows "length (subscription_data s) \<le> unat max_subscription_id - 1"
    and "length (subscription_data s) < unat max_subscription_id"
proof -
  have "distinct (map_keys (subscription_data s))"
    using assms by (simp add: om.distinct_keys data_ok_def)
  moreover have "set (map_keys (subscription_data s)) \<subseteq> {i. id_range max_subscription_id i}"
    using assms om.mem_keys [of "subscription_data s"] by (auto simp: data_ok_def)
  ultimately have "length (map_keys (subscription_data s)) \<le> card {i. id_range max_subscription_id i}"
    by (metis card_mono distinct_card finite)
  then show "length (subscription_data s) \<le> unat max_subscription_id - 1"
    by (simp add: card_id_range map_keys_def)
  moreover have "1 < unat max_subscription_id" by (simp add: max_subscription_id_def)
  ultimately show "length (subscription_data s) < unat max_subscription_id" by linarith
qed

subsection \<open>Subscribing\<close>

lemma pid_list_put:
  assumes "map_sorted m"
  shows "(case map_of (map_put pid x m) pid' of None \<Rightarrow> [] | Some l \<Rightarrow> l)
    = (if pid' = pid then x else case map_of m pid' of None \<Rightarrow> [] | Some l \<Rightarrow> l)"
  using assms by (simp add: map_of_put)

lemma store_spec:
  assumes inv: "data_ok s" and p: "objects s p = None" and "validate prm"
    and st: "store_subscription p prm (registered_as prm) cb s = Some (i, s')"
  shows "callback_valid cb \<and> i \<notin> set (map_keys (subscription_data s)) \<and> id_range max_subscription_id i
    \<and> objects s' = (objects s)(p := Some (prm, cb\<lparr>cb_subscription_id := i\<rparr>))
    \<and> processor_tables s' = processor_tables s \<and> delivered s' = delivered s
    \<and> deletion_notices s' = deletion_notices s
    \<and> subscription_data s' = map_put i \<lparr>details_pid = cb_pid cb, details_type = registered_as prm,
        details_object = p\<rparr> (subscription_data s)
    \<and> data_ok s'"
proof -
  define d where "d = \<lparr>details_pid = cb_pid cb, details_type = registered_as prm, details_object = p\<rparr>"
  have valid: "callback_valid cb" using st
    by (auto simp: store_subscription_def data_add_subscription_def split: if_splits)
  obtain s1 where n: "get_next_subscription_id s = Some (i, s1)" and i0: "i \<noteq> 0"
    using st valid by (auto simp: store_subscription_def data_add_subscription_def Let_def split: option.splits if_splits)
  from next_id_sound [OF inv n data_room(2) [OF inv]] obtain m where
    i: "i \<notin> set (map_keys (subscription_data s))" "id_range max_subscription_id i"
    and s1: "s1 = s\<lparr>next_unique_subscription_id := m\<rparr>" "id_range max_subscription_id m" by blast
  have s': "s' = s\<lparr>next_unique_subscription_id := m, subscription_data := map_put i d (subscription_data s),
      pid_subscriptions := (if cb_pid cb \<noteq> 0 then map_put (cb_pid cb)
         (get_subscriptions_for_process (cb_pid cb) s @ [i]) (pid_subscriptions s) else pid_subscriptions s),
      objects := (objects s)(p := Some (prm, cb\<lparr>cb_subscription_id := i\<rparr>))\<rparr>"
    using st n i0 valid s1(1)
    by (auto simp: store_subscription_def data_add_subscription_def Let_def d_def
        get_subscriptions_for_process_def split: option.split)
  have sorted: "map_sorted (subscription_data s)" "map_sorted (pid_subscriptions s)"
    using inv by (auto simp: data_ok_def)
  have fresh: "map_of (subscription_data s) i = None" using i(1) om.mem_keys sorted(1) by fastforce
  have look: "map_of (subscription_data s') j = (if j = i then Some d else map_of (subscription_data s) j)" for j
    using sorted by (simp add: s' map_of_put)
  have pids: "get_subscriptions_for_process pid s' =
      (if pid \<noteq> 0 \<and> pid = cb_pid cb then get_subscriptions_for_process pid s @ [i]
       else get_subscriptions_for_process pid s)" for pid
    using sorted(2) by (auto simp: s' get_subscriptions_for_process_def map_of_put)
  have entries: "id_range max_subscription_id j
          \<and> (\<exists>prm cb. objects s' (details_object e) = Some (prm, cb) \<and> cb_subscription_id cb = j
               \<and> cb_pid cb = details_pid e \<and> details_type e = registered_as prm
               \<and> validate prm \<and> callback_valid cb)" if j: "map_of (subscription_data s') j = Some e" for j e
  proof (cases "j = i")
    case True
    with j look have "e = d" by simp
    then show ?thesis using True i(2) \<open>validate prm\<close> valid by (simp add: s' d_def callback_valid_def)
  next
    case False
    then have "map_of (subscription_data s) j = Some e" using j look by simp
    then have *: "id_range max_subscription_id j \<and> (\<exists>prm cb. objects s (details_object e) = Some (prm, cb)
      \<and> cb_subscription_id cb = j \<and> cb_pid cb = details_pid e \<and> details_type e = registered_as prm
               \<and> validate prm \<and> callback_valid cb)"
      by (rule data_entry [OF inv])
    then have "details_object e \<noteq> p" using p by auto
    with * show ?thesis by (simp add: s')
  qed
  have live: "\<exists>e. map_of (subscription_data s') (cb_subscription_id c) = Some e \<and> details_object e = q"
    if q: "objects s' q = Some (r, c)" for q r c
  proof (cases "q = p")
    case True
    then have "cb_subscription_id c = i" using q by (auto simp: s')
    then show ?thesis using True by (simp add: look d_def)
  next
    case False
    then have "\<exists>e. map_of (subscription_data s) (cb_subscription_id c) = Some e \<and> details_object e = q"
      using q by (intro data_object [OF inv]) (simp add: s')
    with fresh show ?thesis by (auto simp: look)
  qed
  have lists: "distinct (get_subscriptions_for_process pid s')
      \<and> set (get_subscriptions_for_process pid s')
            = {j. \<exists>e. map_of (subscription_data s') j = Some e \<and> details_pid e = pid}" if "pid \<noteq> 0" for pid
    using data_pids [OF inv that] fresh that by (auto simp: pids look d_def)
  have "data_ok s'"
    unfolding data_ok_def using entries live lists sorted s1(2) by (auto simp: s' map_sorted_put)
  then show ?thesis using valid i by (simp add: s' d_def)
qed

lemma subscribed:
  assumes inv: "events_inv s" and p: "objects s p = None" and sub: "subscribe p prm cb s = Some (i, s')"
    and v: "validate prm"
  shows "events_inv s' \<and> callback_valid cb \<and> i \<notin> set (map_keys (subscription_data s))
    \<and> id_range max_subscription_id i
    \<and> objects s' = (objects s)(p := Some (prm, cb\<lparr>cb_subscription_id := i\<rparr>))
    \<and> delivered s' = delivered s \<and> deletion_notices s' = deletion_notices s
    \<and> subscription_data s' = map_put i \<lparr>details_pid = cb_pid cb, details_type = registered_as prm,
        details_object = p\<rparr> (subscription_data s)"
proof -
  from sub v obtain s1 where st: "store_subscription p prm (registered_as prm) cb s = Some (i, s1)"
    and s': "s' = index_subscription (own_processor prm) p (keys_of prm) s1"
    by (auto simp: subscribe_alt)
  have "data_ok s" using inv by (simp add: events_inv_def)
  note new = store_spec [OF this p v st]
  then have "data_ok s'" by (simp add: s' index_subscription_def)
  moreover have "indexed s'"
  proof -
    have ok: "index_ok (processor_tables s t)" for t using inv by (simp add: events_inv_def indexed_def)
    have count: "count_list (subs_at k (processor_tables s t)) q =
          (case objects s q of None \<Rightarrow> 0
           | Some (prm, cb) \<Rightarrow> if own_processor prm = t then count_list (keys_of prm) k else 0)" for t k q
      using inv by (simp add: events_inv_def indexed_def)
    show ?thesis using new ok count p sub_index.added [OF ok]
      by (auto simp: indexed_def s' index_subscription_def)
  qed
  ultimately show ?thesis using new by (simp add: events_inv_def s' index_subscription_def)
qed

subsection \<open>Removing\<close>

fun remove_keys_of :: "subscription_params \<Rightarrow> index_key list" where
  "remove_keys_of (EmitParams m) = emit_remove_keys m"
| "remove_keys_of prm = keys_of prm"

lemma remove_keys_enough: "count_list (keys_of prm) k \<le> count_list (remove_keys_of prm) k"
  by (cases prm) (simp_all add: emit_add_keys_def emit_remove_keys_def)

lemma processor_remove_alt:
  assumes "get_subscription_info i s = Some (Some (p, prm, cb))" and "t \<noteq> EVENT_PROCESS_EXECUTION"
  shows "processor_remove t i s =
    (if own_processor prm = t
     then Some (data_remove_subscription i (unindex_subscription t p (remove_keys_of prm) s))
     else Some (s, False))"
  using assms
  by (cases t; cases prm)
    (simp_all add: movement_remove_subscription_def emit_remove_subscription_def
      connection_remove_subscription_def entity_changed_remove_subscription_def
      site_remove_subscription_def movement_add_keys_def movement_remove_keys_def
      connection_add_keys_def connection_remove_keys_def entity_changed_add_keys_def
      entity_changed_remove_keys_def)

lemma process_remove_alt:
  assumes "get_subscription_info i s = Some (Some (p, prm, cb))"
    and "own_processor prm = EVENT_PROCESS_EXECUTION"
  shows "processor_remove EVENT_PROCESS_EXECUTION i s = Some (s, False)"
  using assms by (cases prm) (simp_all add: process_remove_subscription_def)

lemma data_removed:
  assumes inv: "data_ok s" and p: "objects s p = Some (prm, cb)" and i: "i = cb_subscription_id cb"
  shows "data_ok (fst (data_remove_subscription i s)) \<and> snd (data_remove_subscription i s)
    \<and> objects (fst (data_remove_subscription i s)) = (objects s)(p := None)
    \<and> subscription_data (fst (data_remove_subscription i s)) = map_erase i (subscription_data s)
    \<and> processor_tables (fst (data_remove_subscription i s)) = processor_tables s
    \<and> delivered (fst (data_remove_subscription i s)) = delivered s
    \<and> deletion_notices (fst (data_remove_subscription i s)) = deletion_notices s"
proof -
  define s' where "s' = fst (data_remove_subscription i s)"
  obtain d where d: "map_of (subscription_data s) i = Some d" "details_object d = p"
    using data_object [OF inv p] i by blast
  have i0: "i \<noteq> 0" using data_entry [OF inv d(1)] by (auto dest: id_range_nonzero)
  have sorted: "map_sorted (subscription_data s)" "map_sorted (pid_subscriptions s)"
    using inv by (auto simp: data_ok_def)
  have s': "subscription_data s' = map_erase i (subscription_data s)" "objects s' = (objects s)(p := None)"
    "processor_tables s' = processor_tables s" "delivered s' = delivered s"
    "deletion_notices s' = deletion_notices s" "next_unique_subscription_id s' = next_unique_subscription_id s"
    "map_sorted (pid_subscriptions s')" "snd (data_remove_subscription i s)"
    using d i0 sorted
    by (auto simp: s'_def data_remove_subscription_def Let_def map_sorted_erase map_sorted_put split: option.split)
  have pids: "get_subscriptions_for_process pid s' =
      (if pid = details_pid d then remove1 i (get_subscriptions_for_process pid s)
       else get_subscriptions_for_process pid s)" for pid
    using d i0 sorted
    by (auto simp: s'_def data_remove_subscription_def Let_def get_subscriptions_for_process_def
        map_of_put map_of_erase split: option.split)
  have other: "q = p" if "objects s q = Some (r, c)" "cb_subscription_id c = i" for q r c
    using data_object [OF inv that(1)] that(2) d by simp
  have entries: "id_range max_subscription_id j
          \<and> (\<exists>prm cb. objects s' (details_object e) = Some (prm, cb) \<and> cb_subscription_id cb = j
               \<and> cb_pid cb = details_pid e \<and> details_type e = registered_as prm
               \<and> validate prm \<and> callback_valid cb)" if j: "map_of (subscription_data s') j = Some e" for j e
  proof -
    have j': "j \<noteq> i" "map_of (subscription_data s) j = Some e" using j by (auto simp: s' map_of_erase split: if_splits)
    from data_entry [OF inv j'(2)] have "details_object e \<noteq> p" using p i j'(1) by auto
    with data_entry [OF inv j'(2)] show ?thesis by (simp add: s')
  qed
  have live: "\<exists>e. map_of (subscription_data s') (cb_subscription_id c) = Some e \<and> details_object e = q"
    if q: "objects s' q = Some (r, c)" for q r c
  proof -
    have q': "q \<noteq> p" "objects s q = Some (r, c)" using q by (auto simp: s' split: if_splits)
    then have "cb_subscription_id c \<noteq> i" using other by blast
    with data_object [OF inv q'(2)] show ?thesis by (simp add: s' map_of_erase)
  qed
  have lists: "distinct (get_subscriptions_for_process pid s')
      \<and> set (get_subscriptions_for_process pid s')
            = {j. \<exists>e. map_of (subscription_data s') j = Some e \<and> details_pid e = pid}" if "pid \<noteq> 0" for pid
    using data_pids [OF inv that] d(1) by (auto simp: pids s' map_of_erase)
  have "data_ok s'"
    unfolding data_ok_def using entries live lists inv s' sorted
    by (auto simp: map_sorted_erase data_ok_def)
  then show ?thesis using s' unfolding s'_def by simp
qed

lemma dropped:
  assumes inv: "events_inv s" and p: "objects s p = Some (prm, cb)" and i: "i = cb_subscription_id cb"
    and s': "data_remove_subscription i (unindex_subscription (own_processor prm) p (remove_keys_of prm) s) = (s', ok)"
  shows "events_inv s' \<and> ok \<and> objects s' = (objects s)(p := None)
    \<and> subscription_data s' = map_erase i (subscription_data s)
    \<and> delivered s' = delivered s \<and> deletion_notices s' = deletion_notices s"
proof -
  define u where "u = unindex_subscription (own_processor prm) p (remove_keys_of prm) s"
  have u: "data_ok u" "objects u p = Some (prm, cb)"
    using inv p by (auto simp: u_def unindex_subscription_def events_inv_def)
  note gone' = data_removed [OF u i] and e = s' [folded u_def]
  have ok: "index_ok (processor_tables s t)" for t using inv by (simp add: events_inv_def indexed_def)
  have "count_list (subs_at k (processor_tables s (own_processor prm))) p = count_list (keys_of prm) k" for k
    using inv p index_count [of s k "own_processor prm" p] by (simp add: events_inv_def)
  then have clear: "count_list (subs_at k (processor_tables s (own_processor prm))) p
      - count_list (remove_keys_of prm) k = 0" for k using remove_keys_enough [of prm k] by simp
  have count: "count_list (subs_at k (processor_tables s t)) q =
          (case objects s q of None \<Rightarrow> 0
           | Some (prm, cb) \<Rightarrow> if own_processor prm = t then count_list (keys_of prm) k else 0)" for t k q
    using inv index_count by (simp add: events_inv_def)
  have tabs: "processor_tables s' = (processor_tables s)(own_processor prm :=
      fold (remove_at p) (remove_keys_of prm) (processor_tables s (own_processor prm)))"
    and obs: "objects s' = (objects s)(p := None)"
    using gone' e by (auto simp: u_def unindex_subscription_def)
  have "indexed s'"
    unfolding indexed_def tabs obs
    using sub_index.removed [OF ok [of "own_processor prm"], where p = p and ks = "remove_keys_of prm"] ok count clear p
    by auto
  then show ?thesis using gone' e by (simp add: events_inv_def u_def unindex_subscription_def)
qed

subsection \<open>Telling the owners\<close>

definition receiver_of :: "sub_callback \<Rightarrow> receiver option" where
  "receiver_of cb = (if cb_pid cb \<noteq> 0 then Some (ToProcess (cb_pid cb)) else map_option ToListener (cb_listener cb))"

definition address :: "ptr \<Rightarrow> events \<Rightarrow> (receiver \<times> u32) option" where
  "address p s = Option.bind (objects s p) (\<lambda>(prm, cb). map_option (\<lambda>r. (r, cb_subscription_id cb)) (receiver_of cb))"

definition addresses :: "events \<Rightarrow> ptr list \<Rightarrow> (receiver \<times> u32) list" where
  "addresses s ps = List.map_filter (\<lambda>p. address p s) ps"

lemma addresses_Nil [simp]: "addresses s [] = []"
  and addresses_Cons: "addresses s (p # ps) = (case address p s of None \<Rightarrow> [] | Some a \<Rightarrow> [a]) @ addresses s ps"
  by (simp_all add: addresses_def List.map_filter_simps split: option.split)

lemma addresses_told [simp]:
  "addresses (s\<lparr>delivered := x\<rparr>) ps = addresses s ps" "addresses (s\<lparr>deletion_notices := y\<rparr>) ps = addresses s ps"
  by (simp_all add: addresses_def address_def)

lemma do_callback_alt:
  "objects s p = Some (prm, cb) \<Longrightarrow> cb_subscription_id cb \<noteq> 0 \<Longrightarrow>
     do_callback e cb s = s\<lparr>delivered := delivered s @ map (\<lambda>(r, i). (r, i, e)) (addresses s [p])\<rparr>"
  by (auto simp: do_callback_def addresses_Cons address_def receiver_of_def split: option.split)

lemma do_delete_callback_alt:
  "objects s p = Some (prm, cb) \<Longrightarrow> cb_subscription_id cb \<noteq> 0 \<Longrightarrow>
     do_delete_callback cb s = s\<lparr>deletion_notices := deletion_notices s @ addresses s [p]\<rparr>"
  by (auto simp: do_delete_callback_def addresses_Cons address_def receiver_of_def split: option.split)

lemma live_id:
  assumes "events_inv s" and "objects s p = Some (prm, cb)"
  shows "cb_subscription_id cb \<noteq> 0"
  using live_data [OF assms] by blast

lemma live_unique:
  assumes "events_inv s" and "objects s p = Some (prm, cb)" and "objects s q = Some (prm', cb')"
    and "cb_subscription_id cb = cb_subscription_id cb'"
  shows "p = q"
proof -
  have ok: "data_ok s" using assms(1) by (simp add: events_inv_def)
  from data_object [OF ok assms(2)] data_object [OF ok assms(3)] assms(4) show ?thesis by auto
qed

lemma process_callbacks_exact:
  "events_inv s \<Longrightarrow> \<forall>p \<in> set ps. objects s p \<noteq> None \<Longrightarrow> process_callbacks e ps s
     = Some (s\<lparr>delivered := delivered s @ map (\<lambda>(r, i). (r, i, e)) (addresses s ps)\<rparr>)"
proof (induction ps arbitrary: s)
  case (Cons p ps)
  obtain prm cb where p: "objects s p = Some (prm, cb)" using Cons.prems by auto
  define s1 where "s1 = s\<lparr>delivered := delivered s @ map (\<lambda>(r, i). (r, i, e)) (addresses s [p])\<rparr>"
  have "process_callbacks e (p # ps) s = process_callbacks e ps s1"
    by (simp add: p do_callback_alt [OF p live_id [OF Cons.prems(1) p]] s1_def)
  also have "\<dots> = Some (s1\<lparr>delivered := delivered s1 @ map (\<lambda>(r, i). (r, i, e)) (addresses s1 ps)\<rparr>)"
    using Cons.prems by (intro Cons.IH) (simp_all add: s1_def)
  also have "\<dots> = Some (s\<lparr>delivered := delivered s @ map (\<lambda>(r, i). (r, i, e)) (addresses s [p] @ addresses s ps)\<rparr>)"
    by (simp add: s1_def)
  finally show ?case by (simp add: addresses_Cons [of s p ps] addresses_Cons [of s p "[]"])
qed simp

lemma count_addresses:
  assumes inv: "events_inv s" and "distinct ps"
  shows "count_list (addresses s ps) (r, j) =
    (if \<exists>p \<in> set ps. \<exists>prm cb. objects s p = Some (prm, cb) \<and> cb_subscription_id cb = j
       \<and> receiver_of cb = Some r then 1 else 0)"
  using assms(2)
proof (induction ps)
  case (Cons p ps)
  show ?case
  proof (cases "address p s = Some (r, j)")
    case True
    then obtain prm cb where p: "objects s p = Some (prm, cb)" "cb_subscription_id cb = j" "receiver_of cb = Some r"
      by (auto simp: address_def split: Option.bind_splits)
    have "q = p" if "objects s q = Some (prm', cb')" "cb_subscription_id cb' = j" for q prm' cb'
      using live_unique [OF inv that(1) p(1)] that(2) p(2) by simp
    then have "\<not> (\<exists>q \<in> set ps. \<exists>prm cb. objects s q = Some (prm, cb) \<and> cb_subscription_id cb = j
        \<and> receiver_of cb = Some r)" using Cons.prems by auto
    then have "count_list (addresses s ps) (r, j) = 0" using Cons by simp
    then show ?thesis using True p by (simp add: addresses_Cons)
  next
    case False
    then have "\<not> (\<exists>prm cb. objects s p = Some (prm, cb) \<and> cb_subscription_id cb = j \<and> receiver_of cb = Some r)"
      by (auto simp: address_def)
    then show ?thesis using Cons False by (auto simp: addresses_Cons split: option.split)
  qed
qed simp

subsection \<open>Removing those that match\<close>

lemma remove_matched_exact:
  assumes "t \<noteq> EVENT_PROCESS_EXECUTION"
  shows "events_inv s \<Longrightarrow> distinct ps \<Longrightarrow> \<forall>p \<in> set ps. \<exists>prm cb. objects s p = Some (prm, cb) \<and> own_processor prm = t
    \<Longrightarrow> \<exists>s'. remove_matched (processor_remove t) ps s = Some s' \<and> events_inv s'
      \<and> objects s' = (\<lambda>q. if q \<in> set ps then None else objects s q)
      \<and> delivered s' = delivered s \<and> deletion_notices s' = deletion_notices s @ addresses s ps"
proof (induction ps arbitrary: s)
  case (Cons p ps)
  obtain prm cb where p: "objects s p = Some (prm, cb)" "own_processor prm = t" using Cons.prems by auto
  define i where "i = cb_subscription_id cb"
  define s1 where "s1 = s\<lparr>deletion_notices := deletion_notices s @ addresses s [p]\<rparr>"
  have s1: "events_inv s1" "objects s1 p = Some (prm, cb)" using Cons.prems p by (auto simp: s1_def)
  obtain s2 ok where s2: "data_remove_subscription i (unindex_subscription t p (remove_keys_of prm) s1) = (s2, ok)"
    by fastforce
  have drop: "events_inv s2" "objects s2 = (objects s1)(p := None)" "delivered s2 = delivered s1"
    "deletion_notices s2 = deletion_notices s1"
    using dropped [OF s1 i_def s2 [folded p(2)]] by auto
  obtain d where "map_of (subscription_data s1) i = Some d" "details_object d = p"
    using live_data [OF s1] i_def by blast
  then have "get_subscription_info i s1 = Some (Some (p, prm, cb))"
    using info_some [OF s1(1)] s1(2) by blast
  from processor_remove_alt [OF this assms] p(2) s2
  have rem: "processor_remove t i s1 = Some (s2, ok)" by simp
  have "do_delete_callback cb s = s1"
    using do_delete_callback_alt [OF p(1) live_id [OF Cons.prems(1) p(1)]] by (simp add: s1_def)
  then have "remove_matched (processor_remove t) (p # ps) s = remove_matched (processor_remove t) ps s2"
    using p rem by (simp add: i_def)
  moreover have "addresses s2 ps = addresses s ps"
    using Cons.prems(2) by (auto simp: addresses_def address_def drop(2) s1_def List.map_filter_def
        intro!: map_cong filter_cong)
  moreover have "\<forall>p \<in> set ps. \<exists>prm cb. objects s2 p = Some (prm, cb) \<and> own_processor prm = t"
    using Cons.prems by (auto simp: drop(2) s1_def)
  ultimately show ?case using Cons.IH [OF drop(1)] Cons.prems(2) drop
    by (auto simp: s1_def addresses_Cons fun_eq_iff)
qed (auto simp: fun_eq_iff)

lemma remove_matched_process:
  "events_inv s \<Longrightarrow> \<forall>p \<in> set ps. \<exists>prm cb. objects s p = Some (prm, cb) \<and> own_processor prm = EVENT_PROCESS_EXECUTION
    \<Longrightarrow> remove_matched process_remove_subscription ps s
      = Some (s\<lparr>deletion_notices := deletion_notices s @ addresses s ps\<rparr>)"
proof (induction ps arbitrary: s)
  case (Cons p ps)
  obtain prm cb where p: "objects s p = Some (prm, cb)" "own_processor prm = EVENT_PROCESS_EXECUTION"
    using Cons.prems by auto
  define s1 where "s1 = s\<lparr>deletion_notices := deletion_notices s @ addresses s [p]\<rparr>"
  have s1: "events_inv s1" "objects s1 p = Some (prm, cb)" using Cons.prems p by (auto simp: s1_def)
  obtain d where "map_of (subscription_data s1) (cb_subscription_id cb) = Some d" "details_object d = p"
    using live_data [OF s1] by blast
  then have "get_subscription_info (cb_subscription_id cb) s1 = Some (Some (p, prm, cb))"
    using info_some [OF s1(1)] s1(2) by blast
  from process_remove_alt [OF this p(2)]
  have rem: "process_remove_subscription (cb_subscription_id cb) s1 = Some (s1, False)" by simp
  have "do_delete_callback cb s = s1"
    using do_delete_callback_alt [OF p(1) live_id [OF Cons.prems(1) p(1)]] by (simp add: s1_def)
  then have "remove_matched process_remove_subscription (p # ps) s = remove_matched process_remove_subscription ps s1"
    using p rem by simp
  also have "\<dots> = Some (s1\<lparr>deletion_notices := deletion_notices s1 @ addresses s1 ps\<rparr>)"
    using Cons.prems(2) by (intro Cons.IH [OF s1(1)]) (simp add: s1_def)
  finally show ?case by (simp add: s1_def) (simp add: addresses_Cons)
qed simp

end
