(* ===== verification/EventRun.thy ===== *)
theory EventRun
  imports EventInv
begin

text \<open>
  What an event does to the subscriptions: to whom it is told, which subscriptions the deletion
  of an entity or the end of a process takes away, and that every step keeps the invariant.
\<close>

subsection \<open>The places an event looks at\<close>

fun event_keys :: "event \<Rightarrow> index_key list" where
  "event_keys (MovementEvent m) =
     [EntityKey WHO (moved_who m), EntityKey FROM (moved_from m), EntityKey TO (moved_to m),
      EntityKey HOW (moved_how m), SiteKey (get_site_id (moved_who m)), AllKey]"
| "event_keys (EmitEvent m) = [EntityKey SOURCE (emitted_source m), EntityKey TARGET (emitted_target m)]"
| "event_keys (ConnectionEvent c) =
     [EntityKey ENTITY (connected_id c), SiteKey (get_site_id (connected_id c)), AllKey]"
| "event_keys (EntityChangedEvent c) =
     [EntityKey ENTITY (changed_id c), EntityKey OWNER (changed_owner c),
      SiteKey (get_site_id (changed_id c)), AllKey]"
| "event_keys (ProcessExecutionEvent m) =
     [EntityKey ENTITY (executed_id m), SiteKey (get_site_id (executed_id m)),
      EntityKey ENTITY (executed_owner m), SiteKey (get_site_id (executed_owner m)),
      AllKey, PidKey (executed_pid m)]"
| "event_keys (SiteEvent m) = [AllKey]"

text \<open>The only matches no place leads to: movements of who is of another site.\<close>

fun site_missed :: "subscription_params \<Rightarrow> event \<Rightarrow> bool" where
  "site_missed (MovementParams m) (MovementEvent e) =
     (movement_site m \<noteq> 0 \<and> movement_site m \<noteq> get_site_id (moved_who e))"
| "site_missed prm e = False"

lemma own_of_match: "is_match prm e \<Longrightarrow> own_processor prm = get_event_type e"
  by (cases prm; cases e) simp_all

lemma keys_miss:
  "site_missed prm e \<Longrightarrow> set (keys_of prm) \<inter> set (event_keys e) = {}"
  by (cases prm; cases e) (auto simp: movement_add_keys_def)

lemma keys_movement:
  assumes "movement_is_match m e" and "\<not> site_missed (MovementParams m) (MovementEvent e)"
  shows "set (movement_add_keys m) \<inter> set (event_keys (MovementEvent e)) \<noteq> {}"
proof (cases "movement_site m \<noteq> 0")
  case True
  with assms(2) show ?thesis by (simp add: movement_add_keys_def)
next
  case False
  then have m: "movement_who m = [] \<or> moved_who e \<in> set (movement_who m)"
    "movement_from m = [] \<or> moved_from e \<in> set (movement_from m)"
    "movement_to m = [] \<or> moved_to e \<in> set (movement_to m)"
    "movement_how m = default_id \<or> movement_how m = moved_how e"
    using assms(1) by (auto simp: movement_is_match_iff)
  consider "movement_who m \<noteq> []" | "movement_from m \<noteq> []" | "movement_to m \<noteq> []" | "movement_how m \<noteq> default_id"
    | "movement_who m = [] \<and> movement_from m = [] \<and> movement_to m = [] \<and> movement_how m = default_id" by blast
  then obtain k where "k \<in> set (movement_add_keys m)" "k \<in> set (event_keys (MovementEvent e))"
  proof cases
    case 1
    then show ?thesis using m(1) False by (intro that [of "EntityKey WHO (moved_who e)"]) (auto simp: movement_add_keys_def Let_def)
  next
    case 2
    then show ?thesis using m(2) False by (intro that [of "EntityKey FROM (moved_from e)"]) (auto simp: movement_add_keys_def Let_def)
  next
    case 3
    then show ?thesis using m(3) False by (intro that [of "EntityKey TO (moved_to e)"]) (auto simp: movement_add_keys_def Let_def)
  next
    case 4
    then show ?thesis using m(4) False
      by (intro that [of "EntityKey HOW (moved_how e)"]) (auto simp: movement_add_keys_def Let_def)
  next
    case 5
    then show ?thesis using False by (intro that [of AllKey]) (simp_all add: movement_add_keys_def)
  qed
  then show ?thesis by blast
qed

lemma keys_emit:
  assumes "emit_is_match m e" and "emit_params_validate m"
  shows "set (emit_add_keys m) \<inter> set (event_keys (EmitEvent e)) \<noteq> {}"
  using assms by (auto simp: emit_is_match_iff emit_add_keys_def emit_params_validate_def)

lemma keys_connection:
  assumes "connection_is_match m e"
  shows "set (connection_add_keys m) \<inter> set (event_keys (ConnectionEvent e)) \<noteq> {}"
  using assms by (auto simp: connection_is_match_iff connection_add_keys_def)

lemma keys_entity:
  assumes "entity_is_match m e"
  shows "set (entity_changed_add_keys m) \<inter> set (event_keys (EntityChangedEvent e)) \<noteq> {}"
proof -
  have "(entity_ids m = [] \<or> (if entity_ids_owners m then changed_owner e \<in> set (entity_ids m)
        else changed_id e \<in> set (entity_ids m)))
   \<and> (entity_ids m \<noteq> [] \<or> entity_site_id m = 0 \<or> entity_site_id m = get_site_id (changed_id e))"
    using assms unfolding entity_is_match_iff by blast
  then show ?thesis by (auto simp: entity_changed_add_keys_def split: if_splits)
qed

lemma keys_process:
  assumes "process_is_match m e"
  shows "set (process_add_keys m) \<inter> set (event_keys (ProcessExecutionEvent e)) \<noteq> {}"
  using assms by (auto simp: process_is_match_iff process_add_keys_def Let_def
      process_id_keys_def split: if_splits)

lemma keys_complete:
  assumes "is_match prm e" and "validate prm"
  shows "set (keys_of prm) \<inter> set (event_keys e) \<noteq> {} \<longleftrightarrow> \<not> site_missed prm e"
proof
  assume "set (keys_of prm) \<inter> set (event_keys e) \<noteq> {}"
  then show "\<not> site_missed prm e" using keys_miss by blast
next
  assume "\<not> site_missed prm e"
  with assms show "set (keys_of prm) \<inter> set (event_keys e) \<noteq> {}"
    by (cases prm; cases e)
      (simp_all only: is_match.simps keys_of.simps validate.simps keys_movement keys_emit keys_connection
        keys_entity keys_process not_False_eq_True, simp_all)
qed

subsection \<open>Delivery\<close>

lemma at_iff:
  assumes "events_inv s"
  shows "p \<in> set (subs_at k (processor_tables s t)) \<longleftrightarrow>
    (\<exists>prm cb. objects s p = Some (prm, cb) \<and> own_processor prm = t \<and> k \<in> set (keys_of prm))"
  using indexed_live [OF assms, of p k t] live_indexed [OF assms] by blast

lemma deliver_exact:
  assumes inv: "events_inv s"
  obtains new where "distinct new"
    "set new = {p. \<exists>prm cb. objects s p = Some (prm, cb) \<and> own_processor prm = t
       \<and> set (keys_of prm) \<inter> set ks \<noteq> {} \<and> is_match prm e}"
    "deliver_event t e ks s
       = Some (s\<lparr>delivered := delivered s @ map (\<lambda>(r, i). (r, i, e)) (addresses s new)\<rparr>)"
proof -
  define ps where "ps = concat (map (\<lambda>k. subs_at k (processor_tables s t)) ks)"
  define f where "f = (\<lambda>p. map_option (\<lambda>ob. is_match (fst ob) e) (objects s p))"
  have ps: "set ps = {p. \<exists>prm cb. objects s p = Some (prm, cb) \<and> own_processor prm = t
      \<and> set (keys_of prm) \<inter> set ks \<noteq> {}}"
    by (auto simp: ps_def at_iff [OF inv]) blast+
  then have "\<forall>p \<in> set ps. f p \<noteq> None" by (auto simp: f_def)
  from evaluate_exact [OF this, of tracker_new] obtain tr where
    tr: "evaluate_subscriptions f ps tracker_new = Some tr" "distinct (satisfied tr)"
    "set (satisfied tr) = {p \<in> set ps. f p = Some True}" by (auto simp: tracker_new_def)
  have new: "set (satisfied tr) = {p. \<exists>prm cb. objects s p = Some (prm, cb) \<and> own_processor prm = t
       \<and> set (keys_of prm) \<inter> set ks \<noteq> {} \<and> is_match prm e}"
    by (auto simp: tr(3) ps f_def)
  then have "\<forall>p \<in> set (satisfied tr). objects s p \<noteq> None" by auto
  from process_callbacks_exact [OF inv this] tr(1)
  have "deliver_event t e ks s
       = Some (s\<lparr>delivered := delivered s @ map (\<lambda>(r, i). (r, i, e)) (addresses s (satisfied tr))\<rparr>)"
    by (simp add: deliver_event_def evaluate_event_def evaluate_lists_concat ps_def [symmetric] f_def [symmetric])
  then show ?thesis using that tr(2) new by blast
qed

lemma count_told: "count_list (map (\<lambda>(r, i). (r, i, e)) xs) (r, j, e') = (if e' = e then count_list xs (r, j) else 0)"
  by (induction xs) auto

text \<open>\<open>wanted e r j s\<close>: there is a subscription numbered \<open>j\<close> of \<open>r\<close> that is to be told of \<open>e\<close>.\<close>

definition wanted :: "event \<Rightarrow> receiver \<Rightarrow> u32 \<Rightarrow> events \<Rightarrow> bool" where
  "wanted e r j s \<longleftrightarrow> (\<exists>p prm cb. objects s p = Some (prm, cb) \<and> cb_subscription_id cb = j
     \<and> receiver_of cb = Some r \<and> is_match prm e \<and> \<not> site_missed prm e)"

lemma delivered_once:
  assumes inv: "events_inv s"
  obtains x where "deliver_event (get_event_type e) e (event_keys e) s = Some (s\<lparr>delivered := x\<rparr>)"
    "\<forall>r j e'. count_list x (r, j, e') = count_list (delivered s) (r, j, e') + (if e' = e \<and> wanted e r j s then 1 else 0)"
proof -
  obtain new where new: "distinct new"
    "set new = {p. \<exists>prm cb. objects s p = Some (prm, cb) \<and> own_processor prm = get_event_type e
       \<and> set (keys_of prm) \<inter> set (event_keys e) \<noteq> {} \<and> is_match prm e}"
    "deliver_event (get_event_type e) e (event_keys e) s
       = Some (s\<lparr>delivered := delivered s @ map (\<lambda>(r, i). (r, i, e)) (addresses s new)\<rparr>)"
    by (rule deliver_exact [OF inv])
  have "p \<in> set new \<longleftrightarrow> is_match prm e \<and> \<not> site_missed prm e" if p: "objects s p = Some (prm, cb)" for p prm cb
  proof -
    have "validate prm" using live_data [OF inv p] by blast
    then have "is_match prm e \<Longrightarrow> set (keys_of prm) \<inter> set (event_keys e) \<noteq> {} \<longleftrightarrow> \<not> site_missed prm e"
      by (rule keys_complete [rotated])
    moreover have "p \<in> set new \<longleftrightarrow> own_processor prm = get_event_type e
        \<and> set (keys_of prm) \<inter> set (event_keys e) \<noteq> {} \<and> is_match prm e" by (simp add: new(2) p)
    ultimately show ?thesis using own_of_match by blast
  qed
  then have "(\<exists>p \<in> set new. \<exists>prm cb. objects s p = Some (prm, cb) \<and> cb_subscription_id cb = j
       \<and> receiver_of cb = Some r) \<longleftrightarrow> wanted e r j s" for r j
    unfolding wanted_def by (metis (lifting))
  then have "count_list (addresses s new) (r, j) = (if wanted e r j s then 1 else 0)" for r j
    by (simp add: count_addresses [OF inv new(1)])
  then show ?thesis by (intro that [OF new(3)]) (simp add: count_told)
qed

subsection \<open>Deletion of an entity\<close>

fun deleted_keys :: "event_type \<Rightarrow> db_id \<Rightarrow> index_key list" where
  "deleted_keys EVENT_EMIT i = [EntityKey SOURCE i, EntityKey TARGET i]"
| "deleted_keys EVENT_CONNECTION i = [EntityKey ENTITY i]"
| "deleted_keys EVENT_ENTITY_CHANGED i = [EntityKey ENTITY i, EntityKey OWNER i]"
| "deleted_keys EVENT_PROCESS_EXECUTION i = [EntityKey ENTITY i]"
| "deleted_keys t i = []"

text \<open>Of these subscriptions the owner is told that they are gone.\<close>

fun names_entity :: "db_id \<Rightarrow> subscription_params \<Rightarrow> bool" where
  "names_entity i (MovementParams m) = False"
| "names_entity i (EmitParams m) = (i \<noteq> default_id \<and> (emit_source m = i \<or> emit_target m = i))"
| "names_entity i (ConnectionParams c) = (i \<in> set (connection_entity_ids c))"
| "names_entity i (EntityChangedParams c) = (i \<in> set (entity_ids c))"
| "names_entity i (ProcessExecutionParams m) = (sub_process_id m = 0 \<and> i \<noteq> default_id
     \<and> \<not> is_entity_default i \<and> (sub_executable_id m = i \<or> sub_owner_id m = i))"
| "names_entity i SiteParams = False"

text \<open>These are.\<close>

definition dies_with :: "db_id \<Rightarrow> subscription_params \<Rightarrow> bool" where
  "dies_with i prm \<longleftrightarrow> names_entity i prm \<and> own_processor prm \<noteq> EVENT_PROCESS_EXECUTION"

lemma names_entity_keys:
  "names_entity i prm \<longleftrightarrow> set (keys_of prm) \<inter> set (deleted_keys (own_processor prm) i) \<noteq> {}"
  by (cases prm) (auto simp: emit_add_keys_def connection_add_keys_def
      entity_changed_add_keys_def process_add_keys_def process_id_keys_def Let_def split: if_splits)

lemma set_insert_callbacks: "set (fold insert_callback xs cbs) = set xs \<union> set cbs"
  by (induction xs arbitrary: cbs) (auto simp: insert_callback_def set_insort_key)

lemma distinct_insert_callbacks: "distinct cbs \<Longrightarrow> distinct (fold insert_callback xs cbs)"
  by (induction xs arbitrary: cbs) (simp_all add: insert_callback_def distinct_insort)

lemma processor_entity_deleted_alt:
  "processor_entity_deleted t i s = remove_matched (processor_remove t)
     (fold insert_callback (concat (map (\<lambda>k. subs_at k (processor_tables s t)) (deleted_keys t i))) []) s"
  by (cases t) (simp_all add: movement_entity_deleted_def add_matched_for_deleted_def Let_def
      emit_entity_deleted_def connection_entity_deleted_def entity_changed_entity_deleted_def
      process_entity_deleted_def)

definition tells_owner :: "receiver \<Rightarrow> u32 \<Rightarrow> (subscription_params \<Rightarrow> bool) \<Rightarrow> events \<Rightarrow> bool" where
  "tells_owner r j P s \<longleftrightarrow> (\<exists>p prm cb. objects s p = Some (prm, cb) \<and> cb_subscription_id cb = j
     \<and> receiver_of cb = Some r \<and> P prm)"

definition without :: "(subscription_params \<Rightarrow> sub_callback \<Rightarrow> bool) \<Rightarrow> events \<Rightarrow>
    ptr \<Rightarrow> (subscription_params \<times> sub_callback) option" where
  "without P s p = (case objects s p of None \<Rightarrow> None
     | Some (prm, cb) \<Rightarrow> if P prm cb then None else Some (prm, cb))"

lemma processor_entity_deleted_exact:
  assumes inv: "events_inv s"
  obtains s' where "processor_entity_deleted t i s = Some s'" "events_inv s'" "delivered s' = delivered s"
    "objects s' = without (\<lambda>prm cb. own_processor prm = t \<and> dies_with i prm) s"
    "\<forall>r j. count_list (deletion_notices s') (r, j) = count_list (deletion_notices s) (r, j)
       + (if tells_owner r j (\<lambda>prm. own_processor prm = t \<and> names_entity i prm) s then 1 else 0)"
proof -
  define cbs where
    "cbs = fold insert_callback (concat (map (\<lambda>k. subs_at k (processor_tables s t)) (deleted_keys t i))) []"
  have alt: "processor_entity_deleted t i s = remove_matched (processor_remove t) cbs s"
    by (simp only: processor_entity_deleted_alt cbs_def)
  have d: "distinct cbs" by (simp add: cbs_def distinct_insert_callbacks)
  have cbs: "p \<in> set cbs \<longleftrightarrow> (\<exists>prm cb. objects s p = Some (prm, cb) \<and> own_processor prm = t \<and> names_entity i prm)" for p
    by (auto simp: cbs_def set_insert_callbacks at_iff [OF inv] names_entity_keys)
  then have live: "\<forall>p \<in> set cbs. \<exists>prm cb. objects s p = Some (prm, cb) \<and> own_processor prm = t" by blast
  have "(\<exists>p \<in> set cbs. \<exists>prm cb. objects s p = Some (prm, cb) \<and> cb_subscription_id cb = j
       \<and> receiver_of cb = Some r) \<longleftrightarrow> tells_owner r j (\<lambda>prm. own_processor prm = t \<and> names_entity i prm) s" for r j
  proof -
    have "p \<in> set cbs \<longleftrightarrow> own_processor prm = t \<and> names_entity i prm" if "objects s p = Some (prm, cb)" for p prm cb
      by (simp add: cbs that)
    then show ?thesis unfolding tells_owner_def by (metis (lifting))
  qed
  then have count: "count_list (addresses s cbs) (r, j) =
      (if tells_owner r j (\<lambda>prm. own_processor prm = t \<and> names_entity i prm) s then 1 else 0)" for r j
    by (simp add: count_addresses [OF inv d])
  show ?thesis
  proof (cases "t = EVENT_PROCESS_EXECUTION")
    case True
    have "processor_entity_deleted t i s = Some (s\<lparr>deletion_notices := deletion_notices s @ addresses s cbs\<rparr>)"
      unfolding alt unfolding True processor_remove.simps
      by (rule remove_matched_process [OF inv live [unfolded True]])
    moreover have "objects s = without (\<lambda>prm cb. own_processor prm = t \<and> dies_with i prm) s"
      using True by (auto simp: without_def dies_with_def fun_eq_iff split: option.split)
    ultimately show ?thesis using inv count
      by (intro that [of "s\<lparr>deletion_notices := deletion_notices s @ addresses s cbs\<rparr>"]) simp_all
  next
    case False
    obtain s' where s': "remove_matched (processor_remove t) cbs s = Some s'" "events_inv s'"
      "objects s' = (\<lambda>q. if q \<in> set cbs then None else objects s q)" "delivered s' = delivered s"
      "deletion_notices s' = deletion_notices s @ addresses s cbs"
      using remove_matched_exact [OF False inv d live] by blast
    have "objects s' p = without (\<lambda>prm cb. own_processor prm = t \<and> dies_with i prm) s p" for p
      using False by (cases "objects s p") (auto simp: s'(3) cbs without_def dies_with_def)
    then show ?thesis using s' count
      by (intro that [of s']) (simp_all add: alt fun_eq_iff)
  qed
qed

lemma each_entity_deleted:
  "events_inv s \<Longrightarrow> distinct ts \<Longrightarrow> \<exists>s'. each_processor (\<lambda>t. processor_entity_deleted t i) ts s = Some s'
     \<and> events_inv s' \<and> delivered s' = delivered s
     \<and> objects s' = without (\<lambda>prm cb. own_processor prm \<in> set ts \<and> dies_with i prm) s
     \<and> (\<forall>r j. count_list (deletion_notices s') (r, j) = count_list (deletion_notices s) (r, j)
          + (if tells_owner r j (\<lambda>prm. own_processor prm \<in> set ts \<and> names_entity i prm) s then 1 else 0))"
proof (induction ts arbitrary: s)
  case Nil
  then show ?case by (auto simp: without_def tells_owner_def fun_eq_iff split: option.split)
next
  case (Cons t ts)
  obtain s1 where s1: "processor_entity_deleted t i s = Some s1" "events_inv s1" "delivered s1 = delivered s"
    "objects s1 = without (\<lambda>prm cb. own_processor prm = t \<and> dies_with i prm) s"
    "\<forall>r j. count_list (deletion_notices s1) (r, j) = count_list (deletion_notices s) (r, j)
       + (if tells_owner r j (\<lambda>prm. own_processor prm = t \<and> names_entity i prm) s then 1 else 0)"
    by (rule processor_entity_deleted_exact [OF Cons.prems(1)])
  obtain s' where s': "each_processor (\<lambda>t. processor_entity_deleted t i) ts s1 = Some s'"
    "events_inv s'" "delivered s' = delivered s1"
    "objects s' = without (\<lambda>prm cb. own_processor prm \<in> set ts \<and> dies_with i prm) s1"
    "\<forall>r j. count_list (deletion_notices s') (r, j) = count_list (deletion_notices s1) (r, j)
          + (if tells_owner r j (\<lambda>prm. own_processor prm \<in> set ts \<and> names_entity i prm) s1 then 1 else 0)"
    using Cons.IH [OF s1(2)] Cons.prems(2) by auto
  have obs: "objects s' = without (\<lambda>prm cb. own_processor prm \<in> set (t # ts) \<and> dies_with i prm) s"
    by (auto simp: s'(4) s1(4) without_def fun_eq_iff split: option.split)
  have later: "tells_owner r j (\<lambda>prm. own_processor prm \<in> set ts \<and> names_entity i prm) s1
      = tells_owner r j (\<lambda>prm. own_processor prm \<in> set ts \<and> names_entity i prm) s" for r j
  proof -
    have "objects s1 p = Some (prm, cb) \<longleftrightarrow> objects s p = Some (prm, cb)" if "own_processor prm \<in> set ts" for p prm cb
      using that Cons.prems(2) by (auto simp: s1(4) without_def split: option.split)
    then show ?thesis unfolding tells_owner_def by blast
  qed
  have apart: "\<not> (tells_owner r j (\<lambda>prm. own_processor prm = t \<and> names_entity i prm) s
      \<and> tells_owner r j (\<lambda>prm. own_processor prm \<in> set ts \<and> names_entity i prm) s)" for r j
  proof
    assume "tells_owner r j (\<lambda>prm. own_processor prm = t \<and> names_entity i prm) s
      \<and> tells_owner r j (\<lambda>prm. own_processor prm \<in> set ts \<and> names_entity i prm) s"
    then obtain p prm cb q prm' cb' where two: "objects s p = Some (prm, cb)" "cb_subscription_id cb = j"
      "own_processor prm = t" "objects s q = Some (prm', cb')" "cb_subscription_id cb' = j"
      "own_processor prm' \<in> set ts" unfolding tells_owner_def by blast
    then have "p = q" using live_unique [OF Cons.prems(1), of p prm cb q prm' cb'] by simp
    with two Cons.prems(2) show False by auto
  qed
  have both: "tells_owner r j (\<lambda>prm. own_processor prm \<in> set (t # ts) \<and> names_entity i prm) s \<longleftrightarrow>
      tells_owner r j (\<lambda>prm. own_processor prm = t \<and> names_entity i prm) s
      \<or> tells_owner r j (\<lambda>prm. own_processor prm \<in> set ts \<and> names_entity i prm) s" for r j
    by (auto simp: tells_owner_def)
  have "count_list (deletion_notices s') (r, j) = count_list (deletion_notices s) (r, j)
          + (if tells_owner r j (\<lambda>prm. own_processor prm \<in> set (t # ts) \<and> names_entity i prm) s then 1 else 0)" for r j
    using s1(5) s'(5) apart [of r j] unfolding both later by auto
  then show ?case using s1 s' obs by simp
qed

lemma processor_site_deleted_keeps: "processor_site_deleted t site s = Some s"
  by (cases t) (simp_all add: movement_site_deleted_def emit_site_deleted_def connection_site_deleted_def
      entity_changed_site_deleted_def process_site_deleted_def get_all_site_callbacks_entities_def
      get_all_site_callbacks_sites_def Let_def)

lemma each_site_deleted: "each_processor (\<lambda>t. processor_site_deleted t site) ts s = Some s"
  by (induction ts) (simp_all add: processor_site_deleted_keeps)

subsection \<open>Unsubscribing\<close>

lemma unsubscribe_unknown:
  "map_of (subscription_data s) i = None \<Longrightarrow> unsubscribe i s = Some (s, False)"
  by (simp add: unsubscribe_def get_subscription_type_def)

lemma unsubscribe_exact:
  assumes inv: "events_inv s" and p: "objects s p = Some (prm, cb)"
  obtains s' where "unsubscribe (cb_subscription_id cb) s = Some (s', removable prm)" "events_inv s'"
    "objects s' = (objects s)(p := if removable prm then None else Some (prm, cb))"
    "subscription_data s' = (if removable prm then map_erase (cb_subscription_id cb) (subscription_data s)
       else subscription_data s)"
    "delivered s' = delivered s" "deletion_notices s' = deletion_notices s"
proof -
  define i where "i = cb_subscription_id cb"
  obtain d where d: "map_of (subscription_data s) i = Some d" "details_object d = p"
    "details_type d = registered_as prm" "i \<noteq> 0" using live_data [OF inv p] i_def by metis
  have info: "get_subscription_info i s = Some (Some (p, prm, cb))" using info_some [OF inv d(1)] d(2) p by simp
  have reg: "registered_as prm \<noteq> EVENT_PROCESS_EXECUTION" "registered_as prm \<noteq> EVENT_END_INVALID" by (cases prm; simp)+
  then have u: "unsubscribe i s = processor_remove (registered_as prm) i s"
    using d by (simp add: unsubscribe_def get_subscription_type_def)
  show ?thesis
  proof (cases "removable prm")
    case True
    then have own: "registered_as prm = own_processor prm" by (simp add: removable_def)
    obtain s' ok where s': "data_remove_subscription i (unindex_subscription (own_processor prm) p (remove_keys_of prm) s) = (s', ok)"
      by fastforce
    have "unsubscribe i s = Some (s', True)"
      using u processor_remove_alt [OF info reg(1)] own s' dropped [OF inv p i_def s'] by simp
    then show ?thesis using dropped [OF inv p i_def s'] True by (intro that [of s']) (simp_all add: i_def)
  next
    case False
    then have "unsubscribe i s = Some (s, False)"
      using u processor_remove_alt [OF info reg(1)] by (simp add: removable_def)
    then show ?thesis using inv False p by (intro that [of s]) (simp_all add: i_def fun_upd_idem)
  qed
qed

lemma unsubscribe_all_exact:
  "events_inv s \<Longrightarrow> \<exists>s'. unsubscribe_all is s = Some s' \<and> events_inv s'
     \<and> objects s' = without (\<lambda>prm cb. cb_subscription_id cb \<in> set is \<and> removable prm) s
     \<and> delivered s' = delivered s \<and> deletion_notices s' = deletion_notices s"
proof (induction "is" arbitrary: s)
  case Nil
  then show ?case by (auto simp: without_def fun_eq_iff split: option.split)
next
  case (Cons i "is")
  have ok: "data_ok s" using Cons.prems by (simp add: events_inv_def)
  obtain s1 success where s1: "unsubscribe i s = Some (s1, success)" "events_inv s1"
    "objects s1 = without (\<lambda>prm cb. cb_subscription_id cb = i \<and> removable prm) s"
    "delivered s1 = delivered s" "deletion_notices s1 = deletion_notices s"
  proof (cases "map_of (subscription_data s) i")
    case None
    then have "cb_subscription_id cb \<noteq> i" if "objects s p = Some (prm, cb)" for p prm cb
      using data_object [OF ok that] by auto
    then have "objects s = without (\<lambda>prm cb. cb_subscription_id cb = i \<and> removable prm) s"
      by (auto simp: without_def fun_eq_iff split: option.split)
    then show ?thesis using that unsubscribe_unknown [OF None] Cons.prems by blast
  next
    case (Some d)
    then obtain prm cb where p: "objects s (details_object d) = Some (prm, cb)" "cb_subscription_id cb = i"
      using data_live [OF Cons.prems] by metis
    have other: "q = details_object d" if "objects s q = Some (r, c)" "cb_subscription_id c = i" for q r c
      using live_unique [OF Cons.prems that(1) p(1)] that(2) p(2) by simp
    obtain s1 where s1: "unsubscribe i s = Some (s1, removable prm)" "events_inv s1"
      "objects s1 = (objects s)(details_object d := if removable prm then None else Some (prm, cb))"
      "delivered s1 = delivered s" "deletion_notices s1 = deletion_notices s"
      using unsubscribe_exact [OF Cons.prems p(1)] p(2) by metis
    have "objects s1 q = without (\<lambda>prm cb. cb_subscription_id cb = i \<and> removable prm) s q" for q
    proof (cases "q = details_object d")
      case False
      then have "cb_subscription_id c \<noteq> i" if "objects s q = Some (r, c)" for r c using other [OF that] by blast
      then show ?thesis using False by (simp add: s1(3) without_def split: option.split)
    qed (simp add: s1(3) without_def p)
    then have "objects s1 = without (\<lambda>prm cb. cb_subscription_id cb = i \<and> removable prm) s" by (rule ext)
    with s1 show ?thesis by (intro that [of s1 "removable prm"])
  qed
  obtain s' where s': "unsubscribe_all is s1 = Some s'" "events_inv s'"
    "objects s' = without (\<lambda>prm cb. cb_subscription_id cb \<in> set is \<and> removable prm) s1"
    "delivered s' = delivered s1" "deletion_notices s' = deletion_notices s1"
    using Cons.IH [OF s1(2)] by blast
  have "objects s' = without (\<lambda>prm cb. cb_subscription_id cb \<in> set (i # is) \<and> removable prm) s"
    by (auto simp: s'(3) s1(3) without_def fun_eq_iff split: option.split)
  with s1 s' show ?case by simp
qed

subsection \<open>Events\<close>

text \<open>The subscriptions an event takes away, and those whose owner is told that they are gone.\<close>

fun ends_with :: "event \<Rightarrow> subscription_params \<Rightarrow> sub_callback \<Rightarrow> bool" where
  "ends_with (EntityChangedEvent c) prm cb =
     (changed_action c = ENTITY_DELETED \<and> dies_with (changed_id c) prm)"
| "ends_with (ProcessExecutionEvent m) prm cb =
     (executed_state m = PROCESS_STATE_COMPLETED \<and> executed_pid m \<noteq> 0 \<and> cb_pid cb = executed_pid m
      \<and> removable prm)"
| "ends_with e prm cb = False"

fun said_to_end :: "event \<Rightarrow> subscription_params \<Rightarrow> bool" where
  "said_to_end (EntityChangedEvent c) prm =
     (changed_action c = ENTITY_DELETED \<and> names_entity (changed_id c) prm)"
| "said_to_end (ProcessExecutionEvent m) prm =
     (executed_state m = PROCESS_STATE_COMPLETED \<and> (case prm of
        ProcessExecutionParams w \<Rightarrow> sub_process_id w \<noteq> 0 \<and> sub_process_id w = executed_pid m
      | _ \<Rightarrow> False))"
| "said_to_end e prm = False"

lemma removable_iff: "removable prm \<longleftrightarrow> own_processor prm \<notin> {EVENT_PROCESS_EXECUTION, EVENT_SITE}"
  by (cases prm) (simp_all add: removable_def)

lemma own_in_all: "own_processor prm \<in> set all_processors"
  by (cases prm) (simp_all add: all_processors_def)

lemma distinct_count: "(\<And>x. count_list xs x \<le> 1) \<Longrightarrow> distinct xs"
proof (induction xs)
  case (Cons x xs)
  have "count_list xs x = 0" using Cons.prems [of x] by simp
  moreover have "count_list xs y \<le> 1" for y using Cons.prems [of y] by (simp split: if_splits)
  ultimately show ?case using Cons.IH by (simp add: count_list_0_iff)
qed simp

lemma pid_list_distinct:
  assumes "events_inv s"
  shows "distinct (subs_at (PidKey pid) (processor_tables s EVENT_PROCESS_EXECUTION))"
proof (rule distinct_count)
  fix p
  have "count_list (process_add_keys m) (PidKey pid) \<le> 1" for m
    by (simp add: process_add_keys_def process_id_keys_def Let_def)
  then have "own_processor prm = EVENT_PROCESS_EXECUTION \<Longrightarrow> count_list (keys_of prm) (PidKey pid) \<le> 1" for prm
    by (cases prm) simp_all
  then show "count_list (subs_at (PidKey pid) (processor_tables s EVENT_PROCESS_EXECUTION)) p \<le> 1"
    using assms by (auto simp: events_inv_def index_count simp del: subs_at.simps split: option.split)
qed

lemma pid_key_iff:
  "PidKey pid \<in> set (keys_of prm) \<longleftrightarrow> (case prm of
     ProcessExecutionParams w \<Rightarrow> sub_process_id w \<noteq> 0 \<and> sub_process_id w = pid | _ \<Rightarrow> False)"
  by (cases prm) (auto simp: movement_add_keys_def emit_add_keys_def connection_add_keys_def
      entity_changed_add_keys_def process_add_keys_def process_id_keys_def Let_def split: if_splits)

lemma pid_key_own: "PidKey pid \<in> set (keys_of prm) \<Longrightarrow> own_processor prm = EVENT_PROCESS_EXECUTION"
  by (cases prm) (simp_all add: pid_key_iff del: keys_of.simps)

text \<open>What the processor of the event does.\<close>

lemma processor_event_exact:
  assumes inv: "events_inv s"
  obtains x y where "processor_event (get_event_type e) e s = Some (s\<lparr>delivered := x, deletion_notices := y\<rparr>)"
    "\<forall>r j e'. count_list x (r, j, e') = count_list (delivered s) (r, j, e') + (if e' = e \<and> wanted e r j s then 1 else 0)"
    "\<forall>r j. count_list y (r, j) = count_list (deletion_notices s) (r, j)
       + (if get_event_type e = EVENT_PROCESS_EXECUTION \<and> tells_owner r j (said_to_end e) s then 1 else 0)"
proof -
  obtain x where x: "deliver_event (get_event_type e) e (event_keys e) s = Some (s\<lparr>delivered := x\<rparr>)"
    "\<forall>r j e'. count_list x (r, j, e') = count_list (delivered s) (r, j, e') + (if e' = e \<and> wanted e r j s then 1 else 0)"
    by (rule delivered_once [OF inv])
  have same: "s\<lparr>delivered := x\<rparr> = s\<lparr>delivered := x, deletion_notices := deletion_notices s\<rparr>" by simp
  show ?thesis
  proof (cases e)
    case (ProcessExecutionEvent m)
    define ps where "ps = (if executed_state m = PROCESS_STATE_COMPLETED
      then subs_at (PidKey (executed_pid m)) (processor_tables s EVENT_PROCESS_EXECUTION) else [])"
    define s1 where "s1 = s\<lparr>delivered := x\<rparr>"
    have s1: "events_inv s1" using inv by (simp add: s1_def)
    have d: "distinct ps" using pid_list_distinct [OF inv] by (simp add: ps_def del: subs_at.simps)
    have ps: "p \<in> set ps \<longleftrightarrow> executed_state m = PROCESS_STATE_COMPLETED
        \<and> (\<exists>prm cb. objects s p = Some (prm, cb) \<and> PidKey (executed_pid m) \<in> set (keys_of prm))" for p
      using pid_key_own by (auto simp: ps_def at_iff [OF inv] simp del: subs_at.simps)
    then have live: "\<forall>p \<in> set ps. \<exists>prm cb. objects s1 p = Some (prm, cb) \<and> own_processor prm = EVENT_PROCESS_EXECUTION"
      using pid_key_own by (fastforce simp: s1_def)
    have "p \<in> set ps \<longleftrightarrow> said_to_end e prm" if "objects s p = Some (prm, cb)" for p prm cb
      by (simp add: ps that ProcessExecutionEvent pid_key_iff)
    then have "(\<exists>p \<in> set ps. \<exists>prm cb. objects s p = Some (prm, cb) \<and> cb_subscription_id cb = j
       \<and> receiver_of cb = Some r) \<longleftrightarrow> tells_owner r j (said_to_end e) s" for r j
      unfolding tells_owner_def by (metis (lifting))
    then have count: "count_list (addresses s ps) (r, j) = (if tells_owner r j (said_to_end e) s then 1 else 0)" for r j
      by (simp add: count_addresses [OF inv d])
    have "processor_event (get_event_type e) e s = remove_matched process_remove_subscription ps s1"
      using x(1) by (simp add: ProcessExecutionEvent process_process_event_def Let_def ps_def s1_def del: subs_at.simps)
    also have "\<dots> = Some (s1\<lparr>deletion_notices := deletion_notices s1 @ addresses s1 ps\<rparr>)"
      by (rule remove_matched_process [OF s1 live])
    also have "\<dots> = Some (s\<lparr>delivered := x, deletion_notices := deletion_notices s @ addresses s ps\<rparr>)"
      by (simp add: s1_def)
    finally show ?thesis using x(2) count 
      by (intro that [of "deletion_notices s @ addresses s ps" x]) (simp_all add: ProcessExecutionEvent)
  qed (insert x same, (rule that [of "deletion_notices s" x]; simp add: movement_process_event_def
      emit_process_event_def connection_process_event_def entity_changed_process_event_def
      site_process_event_def del: subs_at.simps)+)
qed

lemma pid_subscription_iff:
  assumes inv: "events_inv s" and "objects s p = Some (prm, cb)" and "pid \<noteq> 0"
  shows "cb_subscription_id cb \<in> set (get_subscriptions_for_process pid s) \<longleftrightarrow> cb_pid cb = pid"
proof -
  have ok: "data_ok s" using inv by (simp add: events_inv_def)
  obtain d where "map_of (subscription_data s) (cb_subscription_id cb) = Some d" "cb_pid cb = details_pid d"
    using live_data [OF assms(1,2)] by metis
  then show ?thesis by (simp add: data_pids(2) [OF ok assms(3)])
qed

lemma after_event_exact:
  assumes inv: "events_inv s"
  obtains s' where "after_event e s = Some s'" "events_inv s'" "delivered s' = delivered s"
    "objects s' = without (ends_with e) s"
    "\<forall>r j. count_list (deletion_notices s') (r, j) = count_list (deletion_notices s) (r, j)
       + (if get_event_type e \<noteq> EVENT_PROCESS_EXECUTION \<and> tells_owner r j (said_to_end e) s then 1 else 0)"
proof -
  have keeps: "objects s = without (ends_with e) s" if "\<And>prm cb. \<not> ends_with e prm cb"
    using that by (auto simp: without_def fun_eq_iff split: option.split)
  have none: "\<not> tells_owner r j (said_to_end e) s" if "\<And>prm. \<not> said_to_end e prm" for r j
    using that by (simp add: tells_owner_def)
  show ?thesis
  proof (cases e)
    case (EntityChangedEvent c)
    show ?thesis
    proof (cases "changed_action c = ENTITY_DELETED")
      case True
      obtain s' where s': "each_processor (\<lambda>t. processor_entity_deleted t (changed_id c)) all_processors s = Some s'"
        "events_inv s'" "delivered s' = delivered s"
        "objects s' = without (\<lambda>prm cb. own_processor prm \<in> set all_processors \<and> dies_with (changed_id c) prm) s"
        "\<forall>r j. count_list (deletion_notices s') (r, j) = count_list (deletion_notices s) (r, j)
          + (if tells_owner r j (\<lambda>prm. own_processor prm \<in> set all_processors \<and> names_entity (changed_id c) prm) s then 1 else 0)"
        using each_entity_deleted [OF inv, of all_processors "changed_id c"] by (auto simp: all_processors_def)
      have "ends_with e = (\<lambda>prm cb. own_processor prm \<in> set all_processors \<and> dies_with (changed_id c) prm)"
        "said_to_end e = (\<lambda>prm. own_processor prm \<in> set all_processors \<and> names_entity (changed_id c) prm)"
        using True own_in_all by (auto simp: EntityChangedEvent fun_eq_iff)
      moreover have "after_event e s = Some s'" using True s'(1) by (simp add: after_event_def EntityChangedEvent)
      ultimately show ?thesis using s' by (intro that [of s']) (simp_all add: EntityChangedEvent)
    next
      case False
      then show ?thesis using inv keeps none
        by (intro that [of s]) (simp_all add: EntityChangedEvent after_event_def)
    qed
  next
    case (ProcessExecutionEvent m)
    show ?thesis
    proof (cases "executed_state m = PROCESS_STATE_COMPLETED \<and> executed_pid m \<noteq> 0")
      case True
      define is' where "is' = get_subscriptions_for_process (executed_pid m) s"
      obtain s' where s': "unsubscribe_all is' s = Some s'" "events_inv s'"
        "objects s' = without (\<lambda>prm cb. cb_subscription_id cb \<in> set is' \<and> removable prm) s"
        "delivered s' = delivered s" "deletion_notices s' = deletion_notices s"
        using unsubscribe_all_exact [OF inv] by blast
      have "objects s' p = without (ends_with e) s p" for p
        using True pid_subscription_iff [OF inv, of p] unfolding is'_def [symmetric]
        by (cases "objects s p") (auto simp: s'(3) is'_def without_def ProcessExecutionEvent)
      moreover have "after_event e s = Some s'" using True s'(1)
        by (simp add: after_event_def ProcessExecutionEvent is'_def)
      ultimately show ?thesis using s' by (intro that [of s']) (simp_all add: ProcessExecutionEvent fun_eq_iff)
    next
      case False
      then have "after_event e s = Some s" "\<And>prm cb. \<not> ends_with e prm cb"
        by (auto simp: after_event_def ProcessExecutionEvent get_subscriptions_for_process_def)
      then show ?thesis using inv keeps by (intro that [of s]) (simp_all add: ProcessExecutionEvent)
    qed
  qed (insert inv keeps none, (rule that [of s]; simp add: after_event_def each_site_deleted)+)
qed

lemma handled:
  assumes inv: "events_inv s"
  obtains s' where "handle_event e s = Some s'" "events_inv s'"
    "objects s' = without (ends_with e) s"
    "\<forall>r j e'. count_list (delivered s') (r, j, e') = count_list (delivered s) (r, j, e') + (if e' = e \<and> wanted e r j s then 1 else 0)"
    "\<forall>r j. count_list (deletion_notices s') (r, j) = count_list (deletion_notices s) (r, j)
       + (if tells_owner r j (said_to_end e) s then 1 else 0)"
proof -
  obtain x y where xy: "processor_event (get_event_type e) e s = Some (s\<lparr>delivered := x, deletion_notices := y\<rparr>)"
    "\<forall>r j e'. count_list x (r, j, e') = count_list (delivered s) (r, j, e') + (if e' = e \<and> wanted e r j s then 1 else 0)"
    "\<forall>r j. count_list y (r, j) = count_list (deletion_notices s) (r, j)
       + (if get_event_type e = EVENT_PROCESS_EXECUTION \<and> tells_owner r j (said_to_end e) s then 1 else 0)"
    by (rule processor_event_exact [OF inv])
  define s1 where "s1 = s\<lparr>delivered := x, deletion_notices := y\<rparr>"
  have s1: "events_inv s1" "\<And>r j P. tells_owner r j P s1 = tells_owner r j P s" "\<And>P. without P s1 = without P s"
    using inv by (simp_all add: s1_def tells_owner_def without_def fun_eq_iff)
  obtain s' where s': "after_event e s1 = Some s'" "events_inv s'" "delivered s' = delivered s1"
    "objects s' = without (ends_with e) s1"
    "\<forall>r j. count_list (deletion_notices s') (r, j) = count_list (deletion_notices s1) (r, j)
       + (if get_event_type e \<noteq> EVENT_PROCESS_EXECUTION \<and> tells_owner r j (said_to_end e) s1 then 1 else 0)"
    by (rule after_event_exact [OF s1(1)])
  show ?thesis
  proof (rule that [of s'])
    show "handle_event e s = Some s'" using xy(1) s'(1) by (simp add: handle_event_def s1_def)
    show "\<forall>r j. count_list (deletion_notices s') (r, j) = count_list (deletion_notices s) (r, j)
       + (if tells_owner r j (said_to_end e) s then 1 else 0)"
      using xy(3) s'(5) s1(2) by (auto simp: s1_def)
  qed (use s' s1 xy(2) in \<open>simp_all add: s1_def\<close>)
qed

subsection \<open>Reachable states\<close>

lemma subscribe_cases:
  assumes "subscribe p prm cb s = Some (i, s')" and "\<not> validate prm"
  shows "s' = s \<and> i = 0"
  using assms by (simp add: subscribe_alt)

lemma events_inv_step: "events_step s s' \<Longrightarrow> events_inv s \<Longrightarrow> events_inv s'"
proof (induction rule: events_step.induct)
  case (subscribe s p prm cb i s')
  show ?case
  proof (cases "validate prm")
    case True
    from subscribed [OF subscribe(3,1,2) True] show ?thesis by blast
  next
    case False
    with subscribe show ?thesis using subscribe_cases by blast
  qed
next
  case (unsubscribe i s s' success)
  show ?case
  proof (cases "map_of (subscription_data s) i")
    case None
    then show ?thesis using unsubscribe unsubscribe_unknown [OF None] by simp
  next
    case (Some d)
    then obtain prm cb where p: "objects s (details_object d) = Some (prm, cb)" "cb_subscription_id cb = i"
      using data_live [OF unsubscribe(2)] by metis
    from unsubscribe_exact [OF unsubscribe(2) p(1)] p(2) unsubscribe(1) show ?thesis by (metis option.inject prod.inject)
  qed
next
  case (handle e s s')
  from handled [OF handle(2), of e] handle(1) show ?case by (metis option.inject)
qed

lemma events_inv_reachable: "reachable_events s \<Longrightarrow> events_inv s"
  by (induction rule: reachable_events.induct) (auto simp: inv_new intro: events_inv_step)

end
