(* ===== verification/EventProps.thy ===== *)
theory EventProps
  imports EventRun
begin

text \<open>
  What the subscriptions promise: an event is told once to each subscription it matches, the
  tables are exact, numbers are fresh; and where the code goes wrong: callbacks that are not
  valid, classes that cannot be unsubscribed, and a subscription ended while it is being made.
\<close>

subsection \<open>A number is found\<close>

lemma number_found:
  assumes ok: "data_ok s" and room: "length (subscription_data s) < unat max_subscription_id - 1"
  shows "\<exists>i s'. get_next_subscription_id s = Some (i, s')"
proof -
  define n where "n = next_unique_subscription_id s"
  have n: "id_range max_subscription_id n" using ok by (simp add: data_ok_def n_def)
  have "\<not> {i. id_range max_subscription_id i} \<subseteq> set (map_keys (subscription_data s))"
  proof
    assume "{i. id_range max_subscription_id i} \<subseteq> set (map_keys (subscription_data s))"
    then have "card {i. id_range max_subscription_id i} \<le> length (map_keys (subscription_data s))"
      using card_mono [OF finite_set] card_length order_trans by blast
    with room show False by (simp add: card_id_range map_keys_def)
  qed
  then obtain k where "id_range max_subscription_id k" "k \<notin> set (map_keys (subscription_data s))" by blast
  from alloc_id_wraps [OF max_subscription this n] obtain r where
    "alloc_id (map_keys (subscription_data s)) max_subscription_id n = Some r" by blast
  with room show ?thesis by (cases r) (simp add: get_next_subscription_id_def Let_def n_def)
qed

lemma store_found:
  assumes "data_ok s" and "length (subscription_data s) < unat max_subscription_id - 1" and "callback_valid cb"
  shows "\<exists>i s'. store_subscription p prm t cb s = Some (i, s')"
proof -
  obtain i s1 where n: "get_next_subscription_id s = Some (i, s1)" using number_found [OF assms(1,2)] by blast
  have "i \<noteq> 0" using next_id_sound [OF assms(1) n data_room(2) [OF assms(1)]] by (auto dest: id_range_nonzero)
  with n assms(3) show ?thesis by (simp add: store_subscription_def data_add_subscription_def Let_def)
qed

lemma data_keys:
  assumes "data_ok s"
  shows "i \<in> set (map_keys (subscription_data s)) \<longleftrightarrow> subscription_exists i s"
  using om.mem_keys [of "subscription_data s" i] assms by (simp add: data_ok_def subscription_exists_def)

text \<open>The contract of numbers, as for processes and channels.\<close>

interpretation subscription_ids: id_allocator
  "\<lambda>(p, prm, cb) s. if objects s p = None then subscribe p prm cb s else None"
  "\<lambda>s. {i. subscription_exists i s}" 0 events_inv
proof
  fix s a i s'
  assume inv: "events_inv s" and i: "i \<noteq> 0"
    and sub: "(case a of (p, prm, cb) \<Rightarrow> \<lambda>s. if objects s p = None then subscribe p prm cb s else None) s = Some (i, s')"
  obtain p prm cb where a: "a = (p, prm, cb)" by (cases a)
  have s: "objects s p = None" "subscribe p prm cb s = Some (i, s')" using sub by (simp_all add: a split: if_splits)
  then have "validate prm" using subscribe_cases i by blast
  note new = subscribed [OF inv s this]
  have ok: "data_ok s" using inv by (simp add: events_inv_def)
  then have "map_sorted (subscription_data s)" by (simp add: data_ok_def)
  with new show "i \<notin> {i. subscription_exists i s} \<and> {i. subscription_exists i s'} = insert i {i. subscription_exists i s}
      \<and> events_inv s'"
    by (auto simp: data_keys [OF ok]) (auto simp: subscription_exists_def map_of_put)
qed

subsection \<open>Subscribing and unsubscribing\<close>

text \<open>
  C18. Subscribing, in any reachable state and at an unused address: parameters that are not valid
  give the number 0 and change nothing; a callback that is not valid (no process and no listener)
  makes the processor write to the callback after it was deleted, which has no result; else, as
  long as not all numbers are taken, a number that is not in use comes back, and exactly this
  subscription is live besides the others.
\<close>

theorem subscribe_exact:
  assumes "reachable_events s" and "objects s p = None"
    and "length (subscription_data s) < unat max_subscription_id - 1"
  shows "(\<not> validate prm \<and> subscribe p prm cb s = Some (0, s))
    \<or> (validate prm \<and> \<not> callback_valid cb \<and> subscribe p prm cb s = None)
    \<or> (validate prm \<and> callback_valid cb \<and> (\<exists>i s'. subscribe p prm cb s = Some (i, s') \<and> i \<noteq> 0
         \<and> \<not> subscription_exists i s
         \<and> (\<forall>j. subscription_exists j s' \<longleftrightarrow> j = i \<or> subscription_exists j s)
         \<and> objects s' = (objects s)(p := Some (prm, cb\<lparr>cb_subscription_id := i\<rparr>))
         \<and> get_subscription_type i s' = registered_as prm
         \<and> delivered s' = delivered s \<and> deletion_notices s' = deletion_notices s))"
proof (cases "validate prm")
  case False
  then show ?thesis by (simp add: subscribe_alt)
next
  case v: True
  show ?thesis
  proof (cases "callback_valid cb")
    case False
    then have "subscribe p prm cb s = None"
      using v by (simp add: subscribe_alt store_subscription_def data_add_subscription_def)
    with v False show ?thesis by simp
  next
    case True
    have inv: "events_inv s" using assms(1) by (rule events_inv_reachable)
    then have ok: "data_ok s" by (simp add: events_inv_def)
    then have sorted: "map_sorted (subscription_data s)" by (simp add: data_ok_def)
    obtain i s' where sub: "subscribe p prm cb s = Some (i, s')"
      using store_found [OF ok assms(3) True] v by (fastforce simp: subscribe_alt)
    note new = subscribed [OF inv assms(2) sub v]
    have i: "i \<noteq> 0" using new by (auto dest: id_range_nonzero)
    have "get_subscription_type i s' = registered_as prm"
      using new sorted i by (simp add: get_subscription_type_def map_of_put)
    moreover have "\<forall>j. subscription_exists j s' \<longleftrightarrow> j = i \<or> subscription_exists j s"
      using new sorted by (simp add: subscription_exists_def map_of_put)
    moreover have "\<not> subscription_exists i s" using new data_keys [OF ok] by blast
    ultimately show ?thesis using v True sub i new by blast
  qed
qed

lemma subscribe_exact_witness:
  "\<exists>i s'. subscribe 5 SiteParams (callback_for_pid 3) events_new = Some (i, s') \<and> i \<noteq> 0
     \<and> get_subscription_type i s' = EVENT_CONNECTION"
proof -
  have "length (subscription_data events_new) < unat max_subscription_id - 1"
    by (simp add: events_new_def max_subscription_id_def)
  from subscribe_exact [OF reachable_events.start _ this, of 5 SiteParams "callback_for_pid 3"]
  show ?thesis by (auto simp: events_new_def callback_for_pid_def callback_valid_def)
qed

text \<open>
  C17. Unsubscribing always returns. It succeeds exactly for the number of a live subscription that
  is of neither processes nor sites: those two are registered under another class than their own,
  and the processor asked refuses. On success exactly this subscription is gone, from the data,
  the list of its process and the objects, else nothing has changed; nobody is told.
\<close>

theorem unsubscribe_removes:
  assumes "reachable_events s"
  shows "\<exists>s' ok. unsubscribe i s = Some (s', ok)
    \<and> (ok \<longleftrightarrow> (\<exists>p prm cb. objects s p = Some (prm, cb) \<and> cb_subscription_id cb = i
         \<and> own_processor prm \<notin> {EVENT_PROCESS_EXECUTION, EVENT_SITE}))
    \<and> (\<forall>j. subscription_exists j s' \<longleftrightarrow> subscription_exists j s \<and> \<not> (ok \<and> j = i))
    \<and> objects s' = without (\<lambda>prm cb. ok \<and> cb_subscription_id cb = i) s
    \<and> (\<forall>pid j. j \<in> set (get_subscriptions_for_process pid s')
         \<longleftrightarrow> j \<in> set (get_subscriptions_for_process pid s) \<and> \<not> (ok \<and> j = i))
    \<and> delivered s' = delivered s \<and> deletion_notices s' = deletion_notices s"
proof -
  have inv: "events_inv s" using assms by (rule events_inv_reachable)
  then have ok: "data_ok s" by (simp add: events_inv_def)
  show ?thesis
  proof (cases "map_of (subscription_data s) i")
    case None
    then have no: "cb_subscription_id cb \<noteq> i" if "objects s p = Some (prm, cb)" for p prm cb
      using data_object [OF ok that] by auto
    have "objects s = without (\<lambda>prm cb. False \<and> cb_subscription_id cb = i) s"
      by (auto simp: without_def fun_eq_iff split: option.split)
    then show ?thesis using no unsubscribe_unknown [OF None] by (intro exI [of _ s] exI [of _ False]) auto
  next
    case (Some d)
    then obtain prm cb where p: "objects s (details_object d) = Some (prm, cb)" "cb_subscription_id cb = i"
      using data_live [OF inv] by metis
    obtain s' where s': "unsubscribe i s = Some (s', removable prm)" "events_inv s'"
      "objects s' = (objects s)(details_object d := if removable prm then None else Some (prm, cb))"
      "subscription_data s' = (if removable prm then map_erase i (subscription_data s) else subscription_data s)"
      "delivered s' = delivered s" "deletion_notices s' = deletion_notices s"
      using unsubscribe_exact [OF inv p(1)] p(2) by metis
    have other: "q = details_object d" if "objects s q = Some (r, c)" "cb_subscription_id c = i" for q r c
      using live_unique [OF inv that(1) p(1)] that(2) p(2) by simp
    have the_ok: "removable prm \<longleftrightarrow> (\<exists>p prm cb. objects s p = Some (prm, cb) \<and> cb_subscription_id cb = i
         \<and> own_processor prm \<notin> {EVENT_PROCESS_EXECUTION, EVENT_SITE})"
      unfolding removable_iff using p other by (metis option.inject prod.inject)
    have "objects s' q = without (\<lambda>r c. removable prm \<and> cb_subscription_id c = i) s q" for q
    proof (cases "q = details_object d")
      case False
      then have "cb_subscription_id c \<noteq> i" if "objects s q = Some (r, c)" for r c using other [OF that] by blast
      then show ?thesis using False by (simp add: s'(3) without_def split: option.split)
    qed (simp add: s'(3) without_def p)
    then have obs: "objects s' = without (\<lambda>r c. removable prm \<and> cb_subscription_id c = i) s" by (rule ext)
    have exists': "subscription_exists j s' \<longleftrightarrow> subscription_exists j s \<and> \<not> (removable prm \<and> j = i)" for j
      by (simp add: subscription_exists_def s'(4) map_of_erase)
    have ok': "data_ok s'" using s'(2) by (simp add: events_inv_def)
    have pids: "j \<in> set (get_subscriptions_for_process pid s')
         \<longleftrightarrow> j \<in> set (get_subscriptions_for_process pid s) \<and> \<not> (removable prm \<and> j = i)" for pid j
    proof (cases "pid = 0")
      case False
      show ?thesis by (simp add: data_pids(2) [OF ok False] data_pids(2) [OF ok' False] s'(4) map_of_erase)
    qed (simp add: get_subscriptions_for_process_def)
    show ?thesis
      by (intro exI [of _ s'] exI [of _ "removable prm"] conjI s'(1,5,6) the_ok obs allI exists' pids)
  qed
qed

lemma unsubscribe_removes_witness: "\<exists>s'. unsubscribe 3 events_new = Some (s', False)"
  using unsubscribe_removes [OF reachable_events.start, of 3] by (auto simp: events_new_def)

subsection \<open>Events\<close>

text \<open>
  C6. The thread handles every event in every reachable state without using a subscription that
  was deleted, and tells it once, and only it, to each owner of each subscription that matches it,
  except for movements watched by site: such a subscription matches when who moves, the room left
  or the room entered is of the site, but it is found only when who moves is of the site.
\<close>

theorem events_delivered_once:
  assumes "reachable_events s"
  shows "\<exists>s'. handle_event e s = Some s'
    \<and> (\<forall>r j e'. count_list (delivered s') (r, j, e') = count_list (delivered s) (r, j, e')
         + (if e' = e \<and> (\<exists>p prm cb. objects s p = Some (prm, cb) \<and> cb_subscription_id cb = j
              \<and> receiver_of cb = Some r \<and> is_match prm e \<and> \<not> site_missed prm e) then 1 else 0))"
proof -
  obtain s' where "handle_event e s = Some s'"
    "\<forall>r j e'. count_list (delivered s') (r, j, e') = count_list (delivered s) (r, j, e') + (if e' = e \<and> wanted e r j s then 1 else 0)"
    by (rule handled [OF events_inv_reachable [OF assms], of e])
  then show ?thesis unfolding wanted_def by (intro exI [of _ s'] conjI)
qed

text \<open>One subscription, of process 3 to what entity 4 of site 1 emits.\<close>

definition sample_params :: subscription_params where
  "sample_params = EmitParams \<lparr>emit_source = DbId 1 4, emit_target = default_id, emit_my_id = default_id\<rparr>"

definition sample_event :: event where
  "sample_event = EmitEvent \<lparr>emitted_source = DbId 1 4, emitted_target = DbId 1 7, emitted_exclude = default_id\<rparr>"

lemma sample_ok: "validate sample_params" "is_match sample_params sample_event"
  by (simp_all add: sample_params_def sample_event_def emit_params_validate_def emit_is_match_iff default_id_def)

lemma sample_state:
  obtains i s where "reachable_events s"
    "objects s = (\<lambda>p. None)(5 := Some (sample_params, callback_for_pid 3\<lparr>cb_subscription_id := i\<rparr>))"
    "delivered s = []" "deletion_notices s = []" "i \<noteq> 0"
proof -
  have ok: "data_ok events_new" using inv_new by (simp add: events_inv_def)
  have free: "objects events_new 5 = None" by (simp add: events_new_def)
  have "length (subscription_data events_new) < unat max_subscription_id - 1"
    by (simp add: events_new_def max_subscription_id_def)
  from store_found [OF ok this, of "callback_for_pid 3" 5 sample_params "registered_as sample_params"]
  obtain i s where sub: "subscribe 5 sample_params (callback_for_pid 3) events_new = Some (i, s)"
    by (fastforce simp: subscribe_alt sample_ok callback_valid_def callback_for_pid_def)
  from subscribed [OF inv_new free sub sample_ok(1)] show ?thesis
    using reachable_events.step [OF reachable_events.start events_step.subscribe [OF free sub]]
    by (intro that [of s i]) (auto simp: events_new_def dest: id_range_nonzero)
qed

lemma events_delivered_once_witness:
  "\<exists>s i s'. reachable_events s \<and> handle_event sample_event s = Some s'
     \<and> count_list (delivered s') (ToProcess 3, i, sample_event) = 1"
proof -
  obtain i s where s: "reachable_events s"
    "objects s = (\<lambda>p. None)(5 := Some (sample_params, callback_for_pid 3\<lparr>cb_subscription_id := i\<rparr>))"
    "delivered s = []" by (rule sample_state)
  from events_delivered_once [OF s(1), of sample_event] obtain s' where s': "handle_event sample_event s = Some s'"
    "count_list (delivered s') (ToProcess 3, i, sample_event) = count_list (delivered s) (ToProcess 3, i, sample_event)
       + (if \<exists>p prm cb. objects s p = Some (prm, cb) \<and> cb_subscription_id cb = i
              \<and> receiver_of cb = Some (ToProcess 3) \<and> is_match prm sample_event \<and> \<not> site_missed prm sample_event
          then 1 else 0)" by auto
  have "receiver_of (callback_for_pid 3\<lparr>cb_subscription_id := i\<rparr>) = Some (ToProcess 3)"
    "\<not> site_missed sample_params sample_event"
    by (simp_all add: receiver_of_def callback_for_pid_def sample_params_def)
  then have "\<exists>p prm cb. objects s p = Some (prm, cb) \<and> cb_subscription_id cb = i
      \<and> receiver_of cb = Some (ToProcess 3) \<and> is_match prm sample_event \<and> \<not> site_missed prm sample_event"
    using s(2) sample_ok by (intro exI [of _ 5] exI [of _ sample_params]
        exI [of _ "callback_for_pid 3\<lparr>cb_subscription_id := i\<rparr>"]) simp
  with s'(2) s(3) have "count_list (delivered s') (ToProcess 3, i, sample_event) = 1" by simp
  with s(1) s'(1) show ?thesis by blast
qed

text \<open>
  C8. What an event takes away: the deletion of an entity removes the subscriptions to emits,
  connections and changes that name it among the entities watched, and the end of a process all
  the subscriptions of that process that can be unsubscribed; no other event removes one, the
  deletion of a site included. The owners told that a subscription is gone are those of
  subscriptions that name the entity, or watch the process, even those of process subscriptions,
  which stay.
\<close>

theorem event_removals_exact:
  assumes "reachable_events s"
  shows "\<exists>s'. handle_event e s = Some s' \<and> reachable_events s'
    \<and> (\<forall>p. objects s' p = (case objects s p of None \<Rightarrow> None
         | Some (prm, cb) \<Rightarrow> if ends_with e prm cb then None else Some (prm, cb)))
    \<and> (\<forall>r j. count_list (deletion_notices s') (r, j) = count_list (deletion_notices s) (r, j)
         + (if \<exists>p prm cb. objects s p = Some (prm, cb) \<and> cb_subscription_id cb = j
              \<and> receiver_of cb = Some r \<and> said_to_end e prm then 1 else 0))"
proof -
  obtain s' where s': "handle_event e s = Some s'" "objects s' = without (ends_with e) s"
    "\<forall>r j. count_list (deletion_notices s') (r, j) = count_list (deletion_notices s) (r, j)
       + (if tells_owner r j (said_to_end e) s then 1 else 0)"
    using handled [OF events_inv_reachable [OF assms], of e] by metis
  moreover have "reachable_events s'" using assms s'(1) by (rule reachable_events.step [OF _ events_step.handle])
  ultimately show ?thesis unfolding tells_owner_def by (auto simp: without_def)
qed

lemma event_removals_exact_witness:
  "\<exists>s i s'. reachable_events s \<and> handle_event (entity_deleted (DbId 1 4) ENTITYTYPE_thing (DbId 1 2)) s = Some s'
     \<and> objects s 5 \<noteq> None \<and> objects s' 5 = None \<and> count_list (deletion_notices s') (ToProcess 3, i) = 1"
proof -
  define e where "e = entity_deleted (DbId 1 4) ENTITYTYPE_thing (DbId 1 2)"
  obtain i s where s: "reachable_events s"
    "objects s = (\<lambda>p. None)(5 := Some (sample_params, callback_for_pid 3\<lparr>cb_subscription_id := i\<rparr>))"
    "deletion_notices s = []" by (rule sample_state)
  have e: "ends_with e sample_params cb" "said_to_end e sample_params" for cb
    by (simp_all add: e_def entity_deleted_def entity_action_event_def sample_params_def dies_with_def default_id_def)
  from event_removals_exact [OF s(1), of e] obtain s' where s': "handle_event e s = Some s'"
    "objects s' 5 = (case objects s 5 of None \<Rightarrow> None
         | Some (prm, cb) \<Rightarrow> if ends_with e prm cb then None else Some (prm, cb))"
    "count_list (deletion_notices s') (ToProcess 3, i) = count_list (deletion_notices s) (ToProcess 3, i)
       + (if \<exists>p prm cb. objects s p = Some (prm, cb) \<and> cb_subscription_id cb = i
              \<and> receiver_of cb = Some (ToProcess 3) \<and> said_to_end e prm then 1 else 0)" by auto
  have "receiver_of (callback_for_pid 3\<lparr>cb_subscription_id := i\<rparr>) = Some (ToProcess 3)"
    by (simp add: receiver_of_def callback_for_pid_def)
  then have "\<exists>p prm cb. objects s p = Some (prm, cb) \<and> cb_subscription_id cb = i
      \<and> receiver_of cb = Some (ToProcess 3) \<and> said_to_end e prm"
    using s(2) e(2) by (intro exI [of _ 5] exI [of _ sample_params]
        exI [of _ "callback_for_pid 3\<lparr>cb_subscription_id := i\<rparr>"]) simp
  with s'(3) s(3) have "count_list (deletion_notices s') (ToProcess 3, i) = 1" by simp
  moreover have "objects s 5 \<noteq> None" "objects s' 5 = None" using s(2) s'(2) e(1) by simp_all
  ultimately show ?thesis using s(1) s'(1) unfolding e_def [symmetric] by blast
qed

text \<open>
  C7. The tables, the data and the objects are the same subscriptions: a table of a processor has,
  at each place, exactly the live subscriptions of that class that name the place; each live
  subscription is valid, has someone to tell and is the one the data has under its number; and the
  list of a process has each of the subscriptions of that process once.
\<close>

theorem subscription_tables_exact:
  assumes "reachable_events s"
  shows "(\<forall>t k p. p \<in> set (subs_at k (processor_tables s t)) \<longleftrightarrow>
         (\<exists>prm cb. objects s p = Some (prm, cb) \<and> own_processor prm = t \<and> k \<in> set (keys_of prm)))
    \<and> (\<forall>p prm cb. objects s p = Some (prm, cb) \<longrightarrow> validate prm \<and> receiver_of cb \<noteq> None
         \<and> map_of (subscription_data s) (cb_subscription_id cb)
           = Some \<lparr>details_pid = cb_pid cb, details_type = registered_as prm, details_object = p\<rparr>)
    \<and> (\<forall>i d. map_of (subscription_data s) i = Some d \<longrightarrow>
         (\<exists>prm cb. objects s (details_object d) = Some (prm, cb) \<and> cb_subscription_id cb = i))
    \<and> (\<forall>pid. pid \<noteq> 0 \<longrightarrow> distinct (get_subscriptions_for_process pid s)
         \<and> set (get_subscriptions_for_process pid s)
           = {i. \<exists>d. map_of (subscription_data s) i = Some d \<and> details_pid d = pid})"
proof (intro conjI allI impI)
  have inv: "events_inv s" using assms by (rule events_inv_reachable)
  then have ok: "data_ok s" by (simp add: events_inv_def)
  fix t k p
  show "p \<in> set (subs_at k (processor_tables s t)) \<longleftrightarrow>
         (\<exists>prm cb. objects s p = Some (prm, cb) \<and> own_processor prm = t \<and> k \<in> set (keys_of prm))"
    by (rule at_iff [OF inv])
next
  fix p prm cb assume p: "objects s p = Some (prm, cb)"
  from live_data [OF events_inv_reachable [OF assms] p] obtain d where
    "map_of (subscription_data s) (cb_subscription_id cb) = Some d" "details_object d = p"
    "cb_pid cb = details_pid d" "details_type d = registered_as prm" "validate prm" "callback_valid cb" by blast
  then show "validate prm" "receiver_of cb \<noteq> None" "map_of (subscription_data s) (cb_subscription_id cb)
           = Some \<lparr>details_pid = cb_pid cb, details_type = registered_as prm, details_object = p\<rparr>"
    by (auto simp: receiver_of_def callback_valid_def)
next
  fix i d assume "map_of (subscription_data s) i = Some d"
  then show "\<exists>prm cb. objects s (details_object d) = Some (prm, cb) \<and> cb_subscription_id cb = i"
    using data_live [OF events_inv_reachable [OF assms]] by metis
next
  have ok: "data_ok s" using events_inv_reachable [OF assms] by (simp add: events_inv_def)
  fix pid :: u32 assume "pid \<noteq> 0"
  then show "distinct (get_subscriptions_for_process pid s)" "set (get_subscriptions_for_process pid s)
           = {i. \<exists>d. map_of (subscription_data s) i = Some d \<and> details_pid d = pid}"
    using data_pids [OF ok] by blast+
qed

lemma subscription_tables_exact_witness:
  "\<exists>s. reachable_events s \<and> 5 \<in> set (subs_at (EntityKey SOURCE (DbId 1 4)) (processor_tables s EVENT_EMIT))"
proof -
  obtain i s where s: "reachable_events s"
    "objects s = (\<lambda>p. None)(5 := Some (sample_params, callback_for_pid 3\<lparr>cb_subscription_id := i\<rparr>))"
    by (rule sample_state)
  have "EntityKey SOURCE (DbId 1 4) \<in> set (keys_of sample_params)" "own_processor sample_params = EVENT_EMIT"
    by (simp_all add: sample_params_def emit_add_keys_def default_id_def)
  moreover have "\<forall>t k p. p \<in> set (subs_at k (processor_tables s t)) \<longleftrightarrow>
         (\<exists>prm cb. objects s p = Some (prm, cb) \<and> own_processor prm = t \<and> k \<in> set (keys_of prm))"
    using subscription_tables_exact [OF s(1)] by (rule conjunct1)
  ultimately have "5 \<in> set (subs_at (EntityKey SOURCE (DbId 1 4)) (processor_tables s EVENT_EMIT))"
    using s(2) by (simp del: subs_at.simps)
  with s(1) show ?thesis by blast
qed

subsection \<open>Ended while it is being made\<close>

lemma evaluate_deleted:
  assumes "p \<in> set ps" and "matches p = None" and "p \<notin> processed tr"
  shows "evaluate_subscriptions matches ps tr = None"
  using assms(1,3)
proof (induction ps arbitrary: tr)
  case (Cons q ps)
  show ?case
  proof (cases "q = p")
    case True
    then show ?thesis using Cons.prems assms(2) by (simp add: evaluate_subscription_def)
  next
    case False
    show ?thesis
    proof (cases "evaluate_subscription matches q tr")
      case (Some tr')
      then have "p \<notin> processed tr'" using Cons.prems False
        by (auto simp: evaluate_subscription_def split: if_splits)
      then show ?thesis using Some Cons False by simp
    qed simp
  qed
qed simp

lemma deliver_deleted:
  assumes "p \<in> set (subs_at k (processor_tables s t))" and "k \<in> set ks" and "objects s p = None"
  shows "deliver_event t e ks s = None"
proof -
  have "p \<in> set (concat (map (\<lambda>k. subs_at k (processor_tables s t)) ks))" using assms(1,2) by auto
  then show ?thesis
    using assms(3) by (simp add: deliver_event_def evaluate_event_def evaluate_lists_concat
        evaluate_deleted [of p] tracker_new_def del: set_concat)
qed

lemma processor_event_alt:
  "get_event_type e \<noteq> EVENT_PROCESS_EXECUTION \<Longrightarrow>
     processor_event (get_event_type e) e s = deliver_event (get_event_type e) e (event_keys e) s"
  by (cases e) (simp_all add: movement_process_event_def emit_process_event_def connection_process_event_def
      entity_changed_process_event_def site_process_event_def del: subs_at.simps)

lemma unsubscribe_stored:
  assumes ok: "data_ok s" and p: "objects s p = None" and v: "validate prm" and r: "removable prm"
    and st: "store_subscription p prm (registered_as prm) cb s = Some (i, s1)"
  obtains s2 where "unsubscribe i s1 = Some (s2, True)" "objects s2 p = None"
    "processor_tables s2 = (processor_tables s)(own_processor prm :=
       fold (remove_at p) (remove_keys_of prm) (processor_tables s (own_processor prm)))"
proof -
  note new = store_spec [OF ok p v st]
  define c where "c = cb\<lparr>cb_subscription_id := i\<rparr>"
  have s1: "data_ok s1" "objects s1 p = Some (prm, c)" "i = cb_subscription_id c" "i \<noteq> 0"
    using new by (auto simp: c_def dest: id_range_nonzero)
  have look: "map_of (subscription_data s1) i
      = Some \<lparr>details_pid = cb_pid cb, details_type = registered_as prm, details_object = p\<rparr>"
    using new ok by (simp add: map_of_put data_ok_def)
  then have info: "get_subscription_info i s1 = Some (Some (p, prm, c))"
    using s1 by (simp add: get_subscription_info_def)
  have own: "registered_as prm = own_processor prm" "own_processor prm \<noteq> EVENT_PROCESS_EXECUTION"
    "own_processor prm \<noteq> EVENT_END_INVALID"
    using r by (cases prm; simp add: removable_def)+
  define u where "u = unindex_subscription (own_processor prm) p (remove_keys_of prm) s1"
  have un: "unsubscribe i s1 = Some (data_remove_subscription i u)"
    using look s1(4) own processor_remove_alt [OF info own(2)]
    by (simp add: unsubscribe_def get_subscription_type_def u_def)
  have u: "data_ok u" "objects u p = Some (prm, c)" using s1 by (simp_all add: u_def unindex_subscription_def)
  note drop = data_removed [OF u s1(3)]
  show ?thesis using un drop new
    by (intro that [of "fst (data_remove_subscription i u)"])
      (simp_all add: u_def unindex_subscription_def prod_eq_iff)
qed

text \<open>
  C19. The number is known to the data before the subscription is in the tables: when it is
  unsubscribed in between, it is put into the tables after it was deleted, and the next event
  that looks there uses it.
\<close>

theorem ended_while_made:
  assumes "reachable_events s" and "objects s p = None"
    and "validate prm" and "removable prm"
    and "store_subscription p prm (registered_as prm) cb s = Some (i, s1)"
    and "unsubscribe i s1 = Some (s2, ok)"
    and "get_event_type e = own_processor prm" and "set (keys_of prm) \<inter> set (event_keys e) \<noteq> {}"
  shows "ok \<and> handle_event e (index_subscription (own_processor prm) p (keys_of prm) s2) = None"
proof -
  have inv: "events_inv s" using assms(1) by (rule events_inv_reachable)
  then have dok: "data_ok s" and idx: "\<And>t. index_ok (processor_tables s t)"
    by (auto simp: events_inv_def indexed_def)
  have s2: ok "objects s2 p = None" "processor_tables s2 = (processor_tables s)(own_processor prm :=
       fold (remove_at p) (remove_keys_of prm) (processor_tables s (own_processor prm)))"
    using unsubscribe_stored [OF dok assms(2-5)] assms(6) by auto
  have good: "index_ok (processor_tables s2 t)" for t
    using idx sub_index.removed [OF idx, where p = p and ks = "remove_keys_of prm"] by (simp add: s2(3))
  define s3 where "s3 = index_subscription (own_processor prm) p (keys_of prm) s2"
  obtain k where k: "k \<in> set (keys_of prm)" "k \<in> set (event_keys e)" using assms(8) by blast
  have "count_list (subs_at k (processor_tables s3 (own_processor prm))) p \<noteq> 0"
    using sub_index.added [OF good, where p = p and ks = "keys_of prm"] k(1)
    by (simp add: s3_def index_subscription_def count_list_0_iff)
  then have "p \<in> set (subs_at k (processor_tables s3 (own_processor prm)))" by (simp add: count_list_0_iff)
  moreover have "objects s3 p = None" using s2(2) by (simp add: s3_def index_subscription_def)
  ultimately have "deliver_event (own_processor prm) e (event_keys e) s3 = None"
    using k(2) by (intro deliver_deleted)
  moreover have "own_processor prm \<noteq> EVENT_PROCESS_EXECUTION" using assms(4) by (simp add: removable_iff)
  ultimately have "handle_event e s3 = None"
    using processor_event_alt [of e s3] assms(7) by (simp add: handle_event_def)
  then show ?thesis using s2(1) by (simp add: s3_def)
qed

lemma ended_while_made_witness:
  "\<exists>i s1 s2. store_subscription 5 sample_params EVENT_EMIT (callback_for_pid 3) events_new = Some (i, s1)
     \<and> unsubscribe i s1 = Some (s2, True)
     \<and> handle_event sample_event (index_subscription EVENT_EMIT 5 (keys_of sample_params) s2) = None"
proof -
  have ok: "data_ok events_new" using inv_new by (simp add: events_inv_def)
  have free: "objects events_new 5 = None" by (simp add: events_new_def)
  have reg: "registered_as sample_params = EVENT_EMIT" "own_processor sample_params = EVENT_EMIT"
    "removable sample_params" by (simp_all add: sample_params_def removable_def)
  have "length (subscription_data events_new) < unat max_subscription_id - 1"
    by (simp add: events_new_def max_subscription_id_def)
  from store_found [OF ok this, of "callback_for_pid 3" 5 sample_params EVENT_EMIT]
  obtain i s1 where st: "store_subscription 5 sample_params EVENT_EMIT (callback_for_pid 3) events_new = Some (i, s1)"
    by (auto simp: callback_valid_def callback_for_pid_def)
  obtain s2 ok where un: "unsubscribe i s1 = Some (s2, ok)"
    using unsubscribe_stored [OF ok free sample_ok(1) reg(3) st [folded reg(1)]] by metis
  have "get_event_type sample_event = EVENT_EMIT" "set (keys_of sample_params) \<inter> set (event_keys sample_event) \<noteq> {}"
    by (simp_all add: sample_params_def sample_event_def emit_add_keys_def default_id_def)
  with ended_while_made [OF reachable_events.start free sample_ok(1) reg(3) st [folded reg(1)] un, of sample_event] reg
  have "ok \<and> handle_event sample_event (index_subscription EVENT_EMIT 5 (keys_of sample_params) s2) = None" by simp
  with un have "unsubscribe i s1 = Some (s2, True)"
    "handle_event sample_event (index_subscription EVENT_EMIT 5 (keys_of sample_params) s2) = None" by simp_all
  with st show ?thesis by (intro exI conjI)
qed

end
