(* ===== verification/Spec2Isabelle.thy ===== *)
theory Spec2Isabelle
  imports SecAccess ChanExec SchedThreads PropEntityProps EntityProps EntityLock
    SessionProps ServerProps EventProps
begin

text \<open>
  A verification library for the MUTGOS server (C++ sources under \<^verbatim>\<open>src/src/\<close>).

  \<^bold>\<open>Parts of the program and where they are modelled.\<close> Six subsystems carry the core
  of the server: \<^emph>\<open>security\<close>, which answers whether a requester may do an operation on an
  entity; the \<^emph>\<open>executor\<close>, which runs the processes that programs are, with the
  \<^emph>\<open>channels\<close> by which they exchange items and wake each other; the \<^emph>\<open>database types\<close>,
  entities with their tracked changes, locks and trees of properties; the \<^emph>\<open>client
  sessions\<close> and the \<^emph>\<open>router\<close>, which connect players to channels; the \<^emph>\<open>events\<close>, which
  tell subscribers what happens to entities, processes and connections; and the \<^emph>\<open>text\<close>
  tools for UTF-8 that limits and names rest on.

  \<^item> \<open>Prelude\<close>: machine integers, decimal printing, removal from a vector, and the locales
    \<open>invariant_ops\<close> and \<open>stable_ops\<close> (a set of operations that keeps an invariant, or a
    fact, keeps it over every run) and \<open>simulation\<close> (operations that refine those of an
    abstract state).
  \<^item> \<open>DbIds\<close>: \<open>dbtype::Id\<close> with its order and printed form, entity types and fields, the class
    hierarchy as far as \<open>dynamic_cast\<close> asks for it
    (\<^verbatim>\<open>dbtypes/dbtype_Id.h\<close>, \<^verbatim>\<open>dbtype_EntityType.h\<close>).
  \<^item> \<open>AccessList\<close>: \<open>dbtype::Security\<close> and \<open>PropertySecurity\<close>.
  \<^item> \<open>PathNames\<close>: \<open>PropertyEntity::get_application_name_from_path\<close>.
  \<^item> \<open>SecContext\<close>: operations, results, capabilities, and \<open>security::Context\<close> with its cache
    of 64 decisions (\<^verbatim>\<open>security/security_Context.cpp\<close>).
  \<^item> \<open>CheckHelp\<close>: \<open>CheckerHelpers\<close> and the entities as security reads them.
  \<^item> \<open>Checkers\<close>: one definition per checker class, and \<open>Lock::evaluate\<close>.
  \<^item> \<open>SecAccess\<close>: \<open>SecurityAccess\<close>, the six overloads of \<open>security_check\<close> and the
    capabilities of a context.
  \<^item> \<open>OrdMap\<close>: \<open>std::map\<close> as a sorted list of pairs, behind the locale \<open>ordered_map\<close>.
  \<^item> \<open>ProcInfo\<close>: \<open>executor::ProcessInfo\<close>.
  \<^item> \<open>IdAlloc\<close>: the search for a free identifier that the scheduler and the sessions use.
  \<^item> \<open>Scheduler\<close>: \<open>executor::ProcessScheduler\<close> and the resource part of
    \<open>ProcessServices\<close>, each call run to its end; \<open>SchedInv\<close> and \<open>SchedRun\<close> prove its invariant,
    \<open>SchedProps\<close> states what it promises and where it does not keep it. \<open>SchedFine\<close>: the same
    methods taken apart at their locks, and the steps of any number of threads that run these parts;
    \<open>SchedThreads\<close> proves the invariant of the interleaved scheduler.
  \<^item> \<open>Chan\<close>: \<open>events::Channel\<close> with \<open>TextChannel\<close> and \<open>ClientDataChannel\<close>
    (\<^verbatim>\<open>channels/events_Channel.cpp\<close>); \<open>ChanProps\<close> its properties, \<open>ChanExec\<close> the channel
    together with the scheduler: what a change of status does to a blocked sender.
  \<^item> \<open>Session\<close>, \<open>SessionRun\<close>: \<open>comm::ClientSession\<close>
    (\<^verbatim>\<open>comminterface/comm_ClientSession.cpp\<close>), on the channels of \<open>Chan\<close>: the numbered
    stream of events towards the client and the items from the client on their way to channels.
    \<open>SessionInv\<close> proves the invariant of the stream, \<open>SessionSafe\<close> that of the channels a
    session keeps alive, \<open>SessionOrder\<close> that of the queues of blocked channels and of the
    numbers; \<open>SessionProps\<close> states what a session promises and where it falls short.
  \<^item> \<open>Router\<close>, \<open>Server\<close>: \<open>comm::RouterSessionManager\<close>
    (\<^verbatim>\<open>comminterface/comm_RouterSessionManager.cpp\<close>), its tables of sessions, connections and
    players, and the manager with all its sessions and the thread that services them.
    \<open>ServerInv\<close> proves the invariant of the tables and of the requests for service,
    \<open>ServerProps\<close> states what the manager promises and how a deleted session gets called.
  \<^item> \<open>SubParams\<close>: the events and the parameters of subscriptions, when they are valid and what
    they match (\<^verbatim>\<open>src/src/events/\<close>). \<open>EventIndex\<close>: the tables of the template
    \<open>SubscriptionProcessorSupport\<close>, behind the locale \<open>keyed_lists\<close>. \<open>EventProc\<close>: \<open>SubscriptionData\<close>,
    the six processors, \<open>EventAccess\<close> and what the thread does with an event. \<open>EventInv\<close> proves
    that tables, data and live subscriptions agree, \<open>EventRun\<close> what an event does,
    \<open>EventProps\<close> states what the subscriptions promise and where they go wrong.
  \<^item> \<open>Utf8\<close>: \<^verbatim>\<open>text/text_Utf8Tools.cpp\<close>; \<open>Utf8Props\<close> its properties, in terms of the
    list of characters that a valid text is.
  \<^item> \<open>PropDir\<close>: \<^verbatim>\<open>dbtypes/dbtype_PropertyDirectory.cpp\<close>, a tree of properties with a cache
    of the last access in every directory; \<open>PropDirProps\<close> its properties.
  \<^item> \<open>OrdSet\<close>: \<open>std::set\<close> with a comparator, behind the locale \<open>comparator\<close>; \<open>PropData\<close>: the
    data of properties (\<^verbatim>\<open>dbtypes/dbtype_PropertyData.cpp\<close> and its seven subclasses), among
    them sets and documents; \<open>PropDataProps\<close> its properties.
  \<^item> \<open>PropEntity\<close>: \<^verbatim>\<open>dbtypes/dbtype_PropertyEntity.cpp\<close>, the record of \<open>EntityCore\<close> extended by
    the applications and their property directories; \<open>PropEntityProps\<close> its properties.
  \<^item> \<open>EntityCore\<close>: \<^verbatim>\<open>dbtypes/dbtype_Entity.cpp\<close>, the attributes of an entity, the marks
    and journals of their changes, the references to it and copying; \<open>EntityProps\<close> its
    properties. \<open>EntityLock\<close>: the lock of an entity, with the threads that use it.

  \<^bold>\<open>How state and operations correspond to the code.\<close> A class is a record, a method a
  function from the state to the state and the result. A reference parameter that a helper
  may or may not fill is an option. A pointer to a process is an address into a map of live
  objects, so that a dangling pointer is an address without an object. An \<open>EntityRef\<close> is an
  optional entity; the database is what \<open>get_entity\<close> answers, a function of the model.
  Unsigned integers keep their width. A lock token is the Boolean "is a lock on this object".
  The scheduler is given at two grains. A step of \<open>sched_step\<close> is a call run to its end,
  one after another. But \<open>add_process\<close>, \<open>get_next_execute\<close>, the cleanup of a process and the
  services do not hold the scheduler's lock from start to end: a step of \<open>thread_step\<close> is what
  lies between two locks, or one operation on the semaphore or the lock-free queue, with what a
  thread holds in between as part of the state; that the parts make up the whole is proved of
  each. The methods that do hold the lock throughout are one step there (the loop over the
  timers and that of a shutdown one step each turn); the pops and marks of other threads, which need no such
  lock, touch the front of the queue and processes already popped, so that their order within such a call makes
  no difference. The interleavings are those in which nobody suspends a process being cleaned up and
  nobody adds or removes its resources meanwhile; what happens otherwise is a property, and a finding.
  The methods of a session are steps of \<open>session_step\<close>, and \<open>process_pending\<close>,
  which takes its lock several times, is a sequence of phases between which others may step.
  The router's state holds every live session in its phase; \<open>server_step\<close> lets the threads of
  the drivers and of programs step between the parts of \<open>service_sessions\<close>, except those that
  need \<open>callback_lock\<close>, which the service holds throughout. For events, a subscription is an
  address into a map of live objects; what is sent to processes and listeners is recorded. A
  step of \<open>events_step\<close> is a complete call; the locks of the data and of each processor are
  taken one after another in it, and the halves of subscribing, with an unsubscribe between them,
  are a property of their own. The lock of an entity is given back in the order of nested scopes.

  \<^bold>\<open>Loops.\<close> The climb through the regions above a room, the search for a free process or
  resource identifier or channel number and the loop that wakes the sleeping processes need not end. They are
  partial functions whose value \<open>None\<close> is "does not return"; there is no fuel. That they
  return is proved where it holds (containment of finite depth, a free identifier, no
  suspended sleeper), and that they do not where it fails.

  \<^bold>\<open>What the groups of lemmas show.\<close> Access lists: an invariant of all runs, exact removal,
  the broken difference. Context: the cache is bounded and answers what was stored. Helpers:
  the permission tests as one Boolean formula. Security access: the decision of a check in
  terms of the operation's own checker; sites are separated; memoising changes no answer; the
  capabilities of a context as the membership of groups. Executor: an invariant relating the
  tables, queues and identifiers of a scheduler to the live processes, for calls run one after
  another and for interleaved threads; from it, that processes are woken, killed, finished and listed
  as they should. Channels:
  every change of status reaches every listener, a closed channel is silent, an object is
  deleted exactly when nothing refers to it. Sessions: the events
  towards the client refine a queue that grows at one end and shrinks at the other only by what the
  client acknowledges, and what the connection accepted is what counts as sent; servicing
  ends and forgets nothing, a channel is not used after its deletion and gets the items of the
  client in their order. Router: its tables agree with the sessions, a player has one session,
  logging in replaces it and logging in again keeps it, output that can be sent is in the queue
  of the next service, which ends. Events: each event is told once to each subscription that it
  matches and that a table leads to; which subscriptions end with an entity or a process, and
  which the code cannot end; subscribing finds a fresh number. Text: each function in terms of characters, and
  the round trips. Property directories: a refinement of a map from names to data, lookup by
  path, and where paths fail. Property data: its order, sets as finite sets of one type, the
  round trips through text. Entities with properties: a refinement of a table of applications,
  built on that of a directory. Entities: the references refine a relation, the journals are the
  net change, listeners are told once. Lock: mutual exclusion and no leak in runs where no
  thread overtakes an unlock, and the lock lost forever in one where a thread does.

  \<^bold>\<open>Interfaces.\<close> \<open>invariant_ops\<close> is interpreted for access lists, contexts, process
  information; \<open>stable_ops\<close> for the stuck flag; \<open>decision_cache\<close> for the overloads of the
  cache; \<open>ordered_map\<close> for the map; \<open>id_allocator\<close> for process and for resource
  identifiers and for the numbers of subscriptions; \<open>keyed_lists\<close> for the tables of subscriptions; \<open>invariant_ops\<close> and \<open>stable_ops\<close> for channels; \<open>simulation\<close> for property
  directories, property sets, entities with properties and the references of an entity;
  \<open>comparator\<close> for the order of plain data.

  \<^bold>\<open>Not modelled.\<close> \<open>Security::is_admin\<close> (undefined behaviour), serialisation, memory
  accounting and the \<open>to_string\<close> of entities and property directories; floats, whose
  operations are parameters, and sets whose elements have no order; calls back into a
  channel from one of its callbacks; start-up and shutdown of the subsystems, the queue of events
  and the content of an emit; the thread pool and the last stage of the scheduler's shutdown; the database back end, the sockets behind a session, the start,
  the polling loop and the shutdown of the router's thread, the script engine and the user interface. \<open>boost::trim\<close> and \<open>boost::tokenizer\<close> are
  parameters, as are what a connection answers to a message, the clock, the configured limits, the registered listeners and the search
  for capability entities by name; \<open>boost::shared_mutex\<close> is an owner and a list of readers. The locks of \<open>SecurityAccess\<close> are left out: its
  definitions are the sequential meaning of each call.
\<close>

end
